(* ===== verification/Prelude.thy ===== *)
theory Prelude
  imports Main "HOL-Library.Word"
begin

text \<open>
  Shared vocabulary of the development: the exceptions of the library
  (\<^verbatim>\<open>include/Exception.h\<close> and the two exception classes of boost and of
  \<^verbatim>\<open>include/TransferElement.h\<close> it handles), the outcome of running a C++ function on a
  state, sequencing and iteration of such functions, and the generic lemmas on them.

  A C++ function that reads and changes the state \<open>'w\<close> is a function
  \<open>'w \<Rightarrow> 'a outcome \<times> 'w\<close>.  The state it has reached when it throws is part of the
  result: the code under verification relies on what was done before the exception.
\<close>

unbundle bit_operations_syntax

named_theorems outcome_simps \<open>unfolding rules for outcomes, sequencing and iteration\<close>

section \<open>Exceptions and outcomes\<close>

text \<open>
  The text of an exception is for display only (\<^verbatim>\<open>Exception.h\<close>: program logic must
  never depend on it).  It is kept as a string, because the message of a
  \<open>runtime_error\<close> is handed on to the backend by \<open>setException\<close>; for the other
  exceptions it names the reason.
\<close>

datatype exn =
    LogicError string
  | RuntimeError string
  | ThreadInterrupted
  | DiscardValue
  | OtherExn string

text \<open>
  \<open>NoReturn\<close>: the call never comes back (it waits for a value nobody sends, or loops).
  \<open>Terminated\<close>: \<open>std::terminate\<close> was called, for instance because an exception
  left a function declared \<open>noexcept\<close>.
\<close>

datatype 'a outcome =
    Ret 'a
  | Throw exn
  | NoReturn
  | Terminated

fun is_logic_error :: "exn \<Rightarrow> bool" where
  "is_logic_error (LogicError _) = True"
| "is_logic_error _ = False"

fun is_runtime_error :: "exn \<Rightarrow> bool" where
  "is_runtime_error (RuntimeError _) = True"
| "is_runtime_error _ = False"

text \<open>The text a caught \<open>runtime_error\<close> reports (its \<open>what()\<close>).\<close>

fun what :: "exn \<Rightarrow> string" where
  "what (LogicError s) = s"
| "what (RuntimeError s) = s"
| "what ThreadInterrupted = ''thread_interrupted''"
| "what DiscardValue = ''discard''"
| "what (OtherExn s) = s"

section \<open>Sequencing and loops\<close>

definition andThen ::
  "('a outcome \<times> 'w) \<Rightarrow> ('a \<Rightarrow> 'w \<Rightarrow> 'b outcome \<times> 'w) \<Rightarrow> 'b outcome \<times> 'w" where
  "andThen r g = (case r of
      (Ret a, w) \<Rightarrow> g a w
    | (Throw x, w) \<Rightarrow> (Throw x, w)
    | (NoReturn, w) \<Rightarrow> (NoReturn, w)
    | (Terminated, w) \<Rightarrow> (Terminated, w))"

lemma andThen_simps [simp, outcome_simps]:
  "andThen (Ret a, w) g = g a w"
  "andThen (Throw x, w) g = (Throw x, w)"
  "andThen (NoReturn, w) g = (NoReturn, w)"
  "andThen (Terminated, w) g = (Terminated, w)"
  by (simp_all add: andThen_def)

lemma andThen_Ret_iff:
  "andThen r g = (Ret b, w') \<longleftrightarrow> (\<exists>a w. r = (Ret a, w) \<and> g a w = (Ret b, w'))"
  by (cases r; cases "fst r") (auto simp: andThen_def)

lemma andThen_cases:
  assumes "andThen r g = (o', w')"
  obtains (ret) a w where "r = (Ret a, w)" "g a w = (o', w')"
    | (throw) x where "r = (Throw x, w')" "o' = Throw x"
    | (noreturn) "r = (NoReturn, w')" "o' = NoReturn"
    | (terminated) "r = (Terminated, w')" "o' = Terminated"
  using assms by (cases r; cases "fst r") auto

lemma andThen_assoc:
  "andThen (andThen r f) g = andThen r (\<lambda>a w. andThen (f a w) g)"
  by (cases r; cases "fst r") auto

text \<open>The same for functions that have no state.\<close>

definition bindO :: "'a outcome \<Rightarrow> ('a \<Rightarrow> 'b outcome) \<Rightarrow> 'b outcome" where
  "bindO r f = (case r of Ret a \<Rightarrow> f a | Throw x \<Rightarrow> Throw x | NoReturn \<Rightarrow> NoReturn | Terminated \<Rightarrow> Terminated)"

lemma bindO_simps [simp, outcome_simps]:
  "bindO (Ret a) f = f a"
  "bindO (Throw x) f = Throw x"
  "bindO NoReturn f = NoReturn"
  "bindO Terminated f = Terminated"
  by (simp_all add: bindO_def)

lemma bindO_Ret_iff: "bindO r f = Ret b \<longleftrightarrow> (\<exists>a. r = Ret a \<and> f a = Ret b)"
  by (cases r) auto

text \<open>A range-based \<open>for\<close> loop whose body may throw: the first exception ends it.\<close>

fun forEach :: "('e \<Rightarrow> 'w \<Rightarrow> unit outcome \<times> 'w) \<Rightarrow> 'e list \<Rightarrow> 'w \<Rightarrow> unit outcome \<times> 'w" where
  "forEach body [] w = (Ret (), w)"
| "forEach body (x # xs) w = andThen (body x w) (\<lambda>_ w'. forEach body xs w')"

lemma forEach_append:
  "forEach body (xs @ ys) w = andThen (forEach body xs w) (\<lambda>_ w'. forEach body ys w')"
proof (induction xs arbitrary: w)
  case Nil
  then show ?case by simp
next
  case (Cons x xs)
  then show ?case
    by (cases "body x w"; cases "fst (body x w)") auto
qed

lemma forEach_invariant:
  assumes step: "\<And>x w r w'. x \<in> set xs \<Longrightarrow> P w \<Longrightarrow> body x w = (r, w') \<Longrightarrow> P w'"
    and "P w" and "forEach body xs w = (r, w')"
  shows "P w'"
  using assms
proof (induction xs arbitrary: w)
  case Nil
  then show ?case by simp
next
  case (Cons x xs)
  have keep: "P w1" if "body x w = (q, w1)" for q w1
    using Cons.prems(1)[of x w q w1] Cons.prems(2) that by simp
  have tail: "P w'" if "P w1" "forEach body xs w1 = (r, w')" for w1
    using Cons.IH[OF _ that] Cons.prems(1) by auto
  from Cons.prems(3) have "andThen (body x w) (\<lambda>_ w1. forEach body xs w1) = (r, w')"
    by simp
  then show ?case
    by (cases rule: andThen_cases) (auto intro: keep tail)
qed

lemma forEach_all_ret:
  assumes "\<And>x w. x \<in> set xs \<Longrightarrow> fst (body x w) = Ret ()"
  shows "forEach body xs w = (Ret (), fold (\<lambda>x w. snd (body x w)) xs w)"
  using assms
proof (induction xs arbitrary: w)
  case Nil
  then show ?case by simp
next
  case (Cons x xs)
  have "body x w = (Ret (), snd (body x w))"
    using Cons.prems[of x w] by (metis list.set_intros(1) prod.collapse)
  moreover have "forEach body xs (snd (body x w)) =
      (Ret (), fold (\<lambda>x w. snd (body x w)) xs (snd (body x w)))"
    using Cons.prems by (intro Cons.IH) auto
  ultimately show ?case by (metis andThen_simps(1) fold_simps(2) forEach.simps(2))
qed

text \<open>The same with a local variable that the body assigns.\<close>

fun foldEach :: "('e \<Rightarrow> 'a \<Rightarrow> 'w \<Rightarrow> 'a outcome \<times> 'w) \<Rightarrow> 'e list \<Rightarrow> 'a \<Rightarrow> 'w \<Rightarrow> 'a outcome \<times> 'w" where
  "foldEach body [] a w = (Ret a, w)"
| "foldEach body (x # xs) a w = andThen (body x a w) (\<lambda>b w'. foldEach body xs b w')"

text \<open>A \<open>std::set\<close> of numbers, in ascending order.\<close>

definition set_insert :: "nat \<Rightarrow> nat list \<Rightarrow> nat list" where
  "set_insert x xs = (if x \<in> set xs then xs else insort x xs)"

lemma set_insert_simps [simp]:
  "set (set_insert x xs) = insert x (set xs)"
  "sorted xs \<Longrightarrow> sorted (set_insert x xs)"
  "distinct xs \<Longrightarrow> distinct (set_insert x xs)"
  by (auto simp: set_insert_def set_insort_key sorted_insort distinct_insort)

text \<open>
  \<open>retry: try { ... } catch(DiscardValueException&) { goto retry; }\<close>.  An action that
  discards for ever has the value \<open>None\<close>, which \<open>orNoReturn\<close> makes a call that does not
  return.
\<close>

partial_function (option) retryOnDiscard ::
  "('w \<Rightarrow> 'a outcome \<times> 'w) \<Rightarrow> 'w \<Rightarrow> ('a outcome \<times> 'w) option" where
  "retryOnDiscard action w =
     (case action w of (r, w') \<Rightarrow>
        if r = Throw DiscardValue then retryOnDiscard action w' else Some (r, w'))"

definition orNoReturn :: "('a outcome \<times> 'w) option \<Rightarrow> 'w \<Rightarrow> 'a outcome \<times> 'w" where
  "orNoReturn r w = (case r of Some p \<Rightarrow> p | None \<Rightarrow> (NoReturn, w))"

lemma retryOnDiscard_rel:
  assumes loop: "retryOnDiscard action w = Some p"
    and step: "\<And>w r w'. action w = (r, w') \<Longrightarrow> R w w'"
    and trans: "\<And>a b c. R a b \<Longrightarrow> R b c \<Longrightarrow> R a c"
  shows "R w (snd p)"
proof -
  have "f = action \<longrightarrow> R v (snd q)" if "retryOnDiscard f v = Some q" for f v q
  proof (rule retryOnDiscard.raw_induct[OF _ that])
    fix rec f v q
    assume IH: "\<And>f v q. rec f v = Some q \<Longrightarrow> f = action \<longrightarrow> R v (snd q)"
      and body: "(case f v of (r, w') \<Rightarrow>
        if r = Throw DiscardValue then rec f w' else Some (r, w')) = Some q"
    obtain r v' where f: "f v = (r, v')" by fastforce
    show "f = action \<longrightarrow> R v (snd q)"
    proof
      assume "f = action"
      then have "R v v'" using step f by metis
      show "R v (snd q)"
      proof (cases "r = Throw DiscardValue")
        case True
        then have "R v' (snd q)" using body f IH[of f v' q] \<open>f = action\<close> by simp
        with \<open>R v v'\<close> show ?thesis by (rule trans)
      next
        case False
        then have "q = (r, v')" using body f by simp
        with \<open>R v v'\<close> show ?thesis by simp
      qed
    qed
  qed
  with loop show ?thesis by blast
qed

lemma retryOnDiscard_not_discard:
  assumes "retryOnDiscard action w = Some p"
  shows "fst p \<noteq> Throw DiscardValue"
proof (rule retryOnDiscard.raw_induct[OF _ assms])
  fix rec f v q
  assume IH: "\<And>f v q. rec f v = Some q \<Longrightarrow> fst q \<noteq> Throw DiscardValue"
    and body: "(case f v of (r, w') \<Rightarrow>
      if r = Throw DiscardValue then rec f w' else Some (r, w')) = Some q"
  obtain r v' where f: "f v = (r, v')" by fastforce
  show "fst q \<noteq> Throw DiscardValue"
  proof (cases "r = Throw DiscardValue")
    case True
    then show ?thesis using body f IH[of f v' q] by simp
  next
    case False
    then have "q = (r, v')" using body f by simp
    with False show ?thesis by simp
  qed
qed

text \<open>The loop ends when every discarded value uses up some of a finite supply.\<close>

lemma retryOnDiscard_returns:
  assumes "\<And>w w'. action w = (Throw DiscardValue, w') \<Longrightarrow> m w' < (m w :: nat)"
  shows "\<exists>p. retryOnDiscard action w = Some p"
proof (induction "m w" arbitrary: w rule: less_induct)
  case less
  obtain r w' where a: "action w = (r, w')" by fastforce
  show ?case
    using less[of w'] assms[of w w'] a by (subst retryOnDiscard.simps) auto
qed

section \<open>Generic facts about lists and machine words\<close>

text \<open>\<open>std::to_string\<close> of an unsigned integer: its decimal digits.\<close>

fun decimal :: "nat \<Rightarrow> string" where
  "decimal n = (if n < 10 then [char_of (48 + n)] else decimal (n div 10) @ [char_of (48 + n mod 10)])"

declare decimal.simps [simp del]

lemma butlast_append_singleton [simp]: "butlast (xs @ [x]) = xs"
  by simp

lemma unat_plus_one_no_wrap:
  fixes x :: "'a::len word"
  assumes "x \<noteq> - 1"
  shows "unat (x + 1) = unat x + 1"
proof -
  have "1 + x \<noteq> 0"
    using assms by (metis add.commute add_eq_0_iff)
  then show ?thesis
    by (metis Suc_eq_plus1 add.commute unatSuc)
qed

lemma room_not_max:
  fixes x :: "'a::len word"
  assumes "unat x + Suc n < 2 ^ LENGTH('a)"
  shows "x \<noteq> - 1"
proof
  assume "x = - 1"
  then have "unat x = 2 ^ LENGTH('a) - 1"
    by (simp add: unsigned_minus_1_eq_mask mask_eq_exp_minus_1)
  with assms show False by simp
qed

lemma word_less_plus_one:
  fixes x :: "'a::len word"
  assumes "x \<noteq> - 1"
  shows "x < x + 1"
  using unat_plus_one_no_wrap[OF assms] by (simp add: word_less_nat_alt)

end
