(* ===== verification/VersionNumbers.thy ===== *)
theory VersionNumbers
  imports Prelude
begin

text \<open>
  \<^verbatim>\<open>include/VersionNumber.h\<close>, \<^verbatim>\<open>src/VersionNumber.cc\<close>,
  \<^verbatim>\<open>include/TransferElementID.h\<close> and \<^verbatim>\<open>src/TransferElementID.cc\<close>: version numbers
  drawn from one global 64-bit counter, and the identifiers of transfer elements drawn
  from another.  Of a version number only the value is modelled that the comparison
  operators look at; the time stamp takes part in no comparison.
\<close>

section \<open>VersionNumber\<close>

datatype version_number = VersionNumber (vn_value: "64 word")

text \<open>The comparison operators of the class compare the values.\<close>

instantiation version_number :: linorder
begin

definition less_eq_version_number :: "version_number \<Rightarrow> version_number \<Rightarrow> bool" where
  "a \<le> b \<longleftrightarrow> vn_value a \<le> vn_value b"

definition less_version_number :: "version_number \<Rightarrow> version_number \<Rightarrow> bool" where
  "a < b \<longleftrightarrow> vn_value a < vn_value b"

instance
  by standard
    (auto simp: less_eq_version_number_def less_version_number_def intro: version_number.expand)

end

text \<open>\<open>VersionNumber{nullptr}\<close>\<close>

definition nullVersion :: version_number where
  "nullVersion = VersionNumber 0"

text \<open>
  The state is the static atomic \<open>_lastGeneratedVersionNumber\<close>, which starts at 0 and is
  incremented and read in one atomic operation.
\<close>

definition nextVersionNumber :: "64 word \<Rightarrow> 64 word \<times> 64 word" where
  "nextVersionNumber lastGenerated = (let v = lastGenerated + 1 in (v, v))"

text \<open>The default constructor \<open>VersionNumber{}\<close>.\<close>

definition newVersion :: "64 word \<Rightarrow> version_number \<times> 64 word" where
  "newVersion lastGenerated =
     (let (v, g) = nextVersionNumber lastGenerated in (VersionNumber v, g))"

text \<open>\<open>n\<close> version numbers generated one after the other, by whatever threads.\<close>

fun newVersions :: "nat \<Rightarrow> 64 word \<Rightarrow> version_number list \<times> 64 word" where
  "newVersions 0 g = ([], g)"
| "newVersions (Suc n) g =
     (let (v, g1) = newVersion g; (vs, g2) = newVersions n g1 in (v # vs, g2))"

definition version_string :: "version_number \<Rightarrow> string" where
  "version_string v = ''v'' @ decimal (unat (vn_value v))"

lemma null_least [simp]: "nullVersion \<le> v"
  by (simp add: nullVersion_def less_eq_version_number_def)

lemma newVersion_eq [simp]: "newVersion g = (VersionNumber (g + 1), g + 1)"
  by (simp add: newVersion_def nextVersionNumber_def Let_def)

lemma version_less_unat: "(<) = (\<lambda>a b. unat (vn_value a) < unat (vn_value b))"
  by (intro ext) (simp add: less_version_number_def word_less_nat_alt)

text \<open>Below the maximum of the counter a new version exceeds every version so far.\<close>

lemma newVersion_greater:
  assumes "g \<noteq> - 1" and "vn_value v \<le> g"
  shows "v < fst (newVersion g)"
  using assms word_less_plus_one[of g] by (simp add: less_version_number_def)

lemma newVersions_values:
  assumes "unat g + n < 2 ^ 64"
  shows "map (unat \<circ> vn_value) (fst (newVersions n g)) = [unat g + 1 ..< unat g + n + 1]
    \<and> unat (snd (newVersions n g)) = unat g + n"
  using assms
proof (induction n arbitrary: g)
  case 0
  then show ?case by simp
next
  case (Suc n)
  have "g \<noteq> - 1"
    using Suc.prems by (intro room_not_max) simp
  then have g: "unat (g + 1) = unat g + 1" by (rule unat_plus_one_no_wrap)
  with Suc.IH[of "g + 1"] Suc.prems show ?case
    by (simp add: case_prod_beta upt_conv_Cons)
qed

text \<open>
  C8: the versions generated by any run of constructor calls that does not overflow the
  64-bit counter are strictly increasing and all greater than the null version and
  than every version generated before.
\<close>

theorem versions_strictly_increasing:
  assumes "unat g + n < 2 ^ 64"
  shows "sorted_wrt (<) (fst (newVersions n g)) \<and>
    (\<forall>v \<in> set (fst (newVersions n g)). nullVersion < v \<and> VersionNumber g < v)"
proof -
  define vs where "vs = fst (newVersions n g)"
  have vals: "map (unat \<circ> vn_value) vs = [unat g + 1 ..< unat g + n + 1]"
    unfolding vs_def using newVersions_values[OF assms] by blast
  have "sorted_wrt (<) (map (unat \<circ> vn_value) vs)"
    unfolding vals by (rule sorted_wrt_upt)
  then have inc: "sorted_wrt (<) vs"
    by (simp add: sorted_wrt_map version_less_unat)
  have "unat g < unat (vn_value v)" if "v \<in> set vs" for v
  proof -
    have "unat (vn_value v) \<in> set (map (unat \<circ> vn_value) vs)" using that by simp
    then show ?thesis unfolding vals by auto
  qed
  then have "\<forall>v \<in> set vs. nullVersion < v \<and> VersionNumber g < v"
    by (fastforce simp: less_version_number_def word_less_nat_alt nullVersion_def)
  with inc show ?thesis unfolding vs_def by simp
qed

theorem versions_strictly_increasing_witness:
  "sorted_wrt (<) (fst (newVersions (Suc (Suc 0)) 7)) \<and> fst (newVersions (Suc (Suc 0)) 7) \<noteq> []"
  using versions_strictly_increasing[of 7 "Suc (Suc 0)"] by simp

text \<open>At the maximum of the counter the next version number is the null version.\<close>

lemma newVersion_overflow: "fst (newVersion (- 1)) = nullVersion"
  by (simp add: nullVersion_def)

section \<open>TransferElementID\<close>

text \<open>\<open>size_t _id\<close>, 0 for an ID that has not been assigned.\<close>

datatype transfer_element_id = TransferElementID (id_value: "64 word")

definition invalidId :: transfer_element_id where
  "invalidId = TransferElementID 0"

definition id_isValid :: "transfer_element_id \<Rightarrow> bool" where
  "id_isValid i = (id_value i \<noteq> 0)"

definition id_eq :: "transfer_element_id \<Rightarrow> transfer_element_id \<Rightarrow> bool" where
  "id_eq a b = (id_value a \<noteq> 0 \<and> id_value a = id_value b)"

text \<open>\<open>std::less<TransferElementID>\<close>, used by maps keyed by the ID.\<close>

definition id_less :: "transfer_element_id \<Rightarrow> transfer_element_id \<Rightarrow> bool" where
  "id_less a b = (id_value a < id_value b)"

text \<open>
  \<open>makeUnique()\<close> touches the atomic \<open>nextId\<close> in separate operations: the increment, and
  afterwards the load that is stored into \<open>_id\<close>.  (The assertions have no effect in a
  release build.)
\<close>

definition makeUnique_increment :: "64 word \<Rightarrow> 64 word" where
  "makeUnique_increment nextId = nextId + 1"

definition makeUnique_load :: "64 word \<Rightarrow> transfer_element_id" where
  "makeUnique_load nextId = TransferElementID nextId"

text \<open>The function run without any other thread in between.\<close>

definition makeUnique :: "64 word \<Rightarrow> transfer_element_id \<times> 64 word" where
  "makeUnique nextId =
     (let n = makeUnique_increment nextId in (makeUnique_load n, n))"

text \<open>
  Calls of \<open>makeUnique\<close> in several threads, as the sequence of their atomic steps.  The
  load of a thread gives it its ID.
\<close>

datatype id_step = Increment nat | Load nat

fun run_ids :: "id_step list \<Rightarrow> 64 word \<Rightarrow> (nat \<times> transfer_element_id) list" where
  "run_ids [] n = []"
| "run_ids (Increment t # ss) n = run_ids ss (makeUnique_increment n)"
| "run_ids (Load t # ss) n = (t, makeUnique_load n) # run_ids ss n"

text \<open>The steps of each thread alone: one increment, then one load.\<close>

definition one_call :: "id_step list \<Rightarrow> nat \<Rightarrow> bool" where
  "one_call ss t = (filter (\<lambda>s. s = Increment t \<or> s = Load t) ss = [Increment t, Load t])"

fun serial_calls :: "nat list \<Rightarrow> id_step list" where
  "serial_calls [] = []"
| "serial_calls (t # ts) = Increment t # Load t # serial_calls ts"

lemma run_ids_serial:
  assumes "unat n + length ts < 2 ^ 64"
  shows "map (unat \<circ> id_value \<circ> snd) (run_ids (serial_calls ts) n)
    = [unat n + 1 ..< unat n + length ts + 1]"
  using assms
proof (induction ts arbitrary: n)
  case Nil
  then show ?case by simp
next
  case (Cons t ts)
  have "n \<noteq> - 1"
    using Cons.prems by (intro room_not_max) simp
  then have n: "unat (n + 1) = unat n + 1" by (rule unat_plus_one_no_wrap)
  with Cons.IH[of "n + 1"] Cons.prems show ?case
    by (simp add: makeUnique_increment_def makeUnique_load_def upt_conv_Cons del: upt_Suc)
qed

text \<open>
  IDs made by calls that do not overlap are valid and pairwise different, as the
  class promises.
\<close>

theorem serial_ids_unique:
  assumes "length ts < 2 ^ 64"
  shows "distinct (map snd (run_ids (serial_calls ts) 0)) \<and>
    (\<forall>i \<in> snd ` set (run_ids (serial_calls ts) 0). id_isValid i)"
proof -
  let ?r = "run_ids (serial_calls ts) 0"
  have vals: "map (unat \<circ> id_value \<circ> snd) ?r = [1 ..< length ts + 1]"
    using run_ids_serial[of 0 ts] assms by simp
  have "distinct (map (unat \<circ> id_value \<circ> snd) ?r)"
    unfolding vals by simp
  then have "distinct (map (unat \<circ> id_value) (map snd ?r))" by simp
  then have d: "distinct (map snd ?r)" by (metis distinct_map)
  have "id_isValid (snd p)" if "p \<in> set ?r" for p
  proof -
    have "unat (id_value (snd p)) \<in> set (map (unat \<circ> id_value \<circ> snd) ?r)" using that by simp
    then have "unat (id_value (snd p)) \<noteq> 0" unfolding vals by auto
    then show ?thesis unfolding id_isValid_def by auto
  qed
  with d show ?thesis by auto
qed

theorem serial_ids_unique_witness:
  "distinct (map snd (run_ids (serial_calls [4, 2, 9]) 0)) \<and>
    id_isValid (snd (hd (run_ids (serial_calls [4, 2, 9]) 0)))"
  using serial_ids_unique[of "[4, 2, 9]"] by simp

text \<open>
  Calls of \<open>makeUnique\<close> that overlap can hand out the same valid ID twice, because the
  increment and the load are two atomic operations.
\<close>

theorem overlapping_ids_collide:
  "\<exists>ss. one_call ss 0 \<and> one_call ss 1 \<and>
     (\<exists>i j. run_ids ss 0 = [(0, i), (1, j)] \<and> id_eq i j)"
proof -
  let ?ss = "[Increment 0, Increment 1, Load 0, Load 1]"
  have "run_ids ?ss 0 = [(0, TransferElementID 2), (1, TransferElementID 2)]"
    by (simp add: makeUnique_increment_def makeUnique_load_def)
  moreover have "one_call ?ss 0" "one_call ?ss 1" by (simp_all add: one_call_def)
  moreover have "id_eq (TransferElementID 2) (TransferElementID 2)" by (simp add: id_eq_def)
  ultimately show ?thesis by blast
qed

section \<open>Sources of version numbers\<close>

text \<open>
  What the users of version numbers rely on: a version drawn from the source is greater
  than every version the source has covered so far, and the source then covers it.
\<close>

locale version_source =
  fixes draw :: "'s \<Rightarrow> version_number \<times> 's"
    and covers :: "'s \<Rightarrow> version_number \<Rightarrow> bool"
    and exhausted :: "'s \<Rightarrow> bool"
  assumes draw_greater: "\<not> exhausted s \<Longrightarrow> covers s v \<Longrightarrow> v < fst (draw s)"
    and draw_covers: "\<not> exhausted s \<Longrightarrow> covers (snd (draw s)) (fst (draw s))"
    and covers_mono: "\<not> exhausted s \<Longrightarrow> covers s v \<Longrightarrow> covers (snd (draw s)) v"
begin

lemma draw_fresh: "\<not> exhausted s \<Longrightarrow> \<not> covers s (fst (draw s))"
  using draw_greater by blast

text \<open>Appending a drawn version keeps a covered, strictly increasing list so.\<close>

lemma draw_extends:
  assumes "\<not> exhausted s" "sorted_wrt (<) vs" "\<forall>v \<in> set vs. covers s v"
  shows "sorted_wrt (<) (vs @ [fst (draw s)]) \<and>
    (\<forall>v \<in> set (vs @ [fst (draw s)]). covers (snd (draw s)) v)"
  using assms draw_greater draw_covers covers_mono by (auto simp: sorted_wrt_append)

end

interpretation global_versions: version_source newVersion "\<lambda>g v. vn_value v \<le> g" "\<lambda>g. g = - 1"
proof (unfold_locales, goal_cases)
  case (1 s v)
  then show ?case by (rule newVersion_greater)
next
  case (2 s)
  then show ?case by simp
next
  case (3 s v)
  then show ?case
    using word_less_plus_one[of s] by (simp add: less_imp_le order.trans)
qed

end
