(* ===== verification/AccessModes.thy ===== *)
theory AccessModes
  imports Prelude
begin

text \<open>
  \<^verbatim>\<open>include/AccessMode.h\<close> and \<^verbatim>\<open>src/AccessMode.cc\<close>: the access mode flags of an
  accessor and their textual form.
\<close>

datatype access_mode = raw | wait_for_new_data

text \<open>\<open>std::set<AccessMode>\<close>; iterating it visits the flags in the order of the enum.\<close>

type_synonym access_mode_flags = "access_mode set"

definition iterate :: "access_mode_flags \<Rightarrow> access_mode list" where
  "iterate flags = filter (\<lambda>f. f \<in> flags) [raw, wait_for_new_data]"

definition has :: "access_mode_flags \<Rightarrow> access_mode \<Rightarrow> bool" where
  "has flags flag = (flag \<in> flags)"

definition flags_empty :: "access_mode_flags \<Rightarrow> bool" where
  "flags_empty flags = (flags = {})"

definition flags_add :: "access_mode \<Rightarrow> access_mode_flags \<Rightarrow> access_mode_flags" where
  "flags_add flag flags = insert flag flags"

definition flags_remove :: "access_mode \<Rightarrow> access_mode_flags \<Rightarrow> access_mode_flags" where
  "flags_remove flag flags = flags - {flag}"

fun getString :: "access_mode \<Rightarrow> string" where
  "getString raw = ''raw''"
| "getString wait_for_new_data = ''wait_for_new_data''"

fun checkEachFlag :: "access_mode_flags \<Rightarrow> access_mode list \<Rightarrow> unit outcome" where
  "checkEachFlag knownFlags [] = Ret ()"
| "checkEachFlag knownFlags (flag # rest) =
     (if flag \<notin> knownFlags
      then Throw (LogicError (''Access mode flag '' @ getString flag @ '' is not known by this backend.''))
      else checkEachFlag knownFlags rest)"

definition checkForUnknownFlags :: "access_mode_flags \<Rightarrow> access_mode_flags \<Rightarrow> unit outcome" where
  "checkForUnknownFlags flags knownFlags = checkEachFlag knownFlags (iterate flags)"

definition serialize :: "access_mode_flags \<Rightarrow> string" where
  "serialize flags =
     (let list = concat (map (\<lambda>f. getString f @ '','') (iterate flags))
      in if list = [] then list else butlast list)"

text \<open>
  \<open>split\<close>: repeated \<open>getline\<close> with the delimiter \<open>,\<close>.  A delimiter at the end of the
  text ends the last field and opens no further one; an empty text has no field.
\<close>

fun getline_fields :: "string \<Rightarrow> string \<Rightarrow> string list" where
  "getline_fields tmp [] = (if tmp = [] then [] else [tmp])"
| "getline_fields tmp (c # cs) =
     (if c = CHR '','' then tmp # getline_fields [] cs else getline_fields (tmp @ [c]) cs)"

definition split :: "string \<Rightarrow> string list" where
  "split s = getline_fields [] s"

definition getAccessMode :: "string \<Rightarrow> access_mode outcome" where
  "getAccessMode flagName =
     (if flagName = ''raw'' then Ret raw
      else if flagName = ''wait_for_new_data'' then Ret wait_for_new_data
      else Throw (LogicError (''Unknown flag string: '' @ flagName)))"

fun deserializeNames :: "string list \<Rightarrow> access_mode_flags \<Rightarrow> access_mode_flags outcome" where
  "deserializeNames [] flagList = Ret flagList"
| "deserializeNames (flagName # names) flagList =
     (case getAccessMode flagName of
        Ret f \<Rightarrow> deserializeNames names (insert f flagList)
      | Throw x \<Rightarrow> Throw x
      | NoReturn \<Rightarrow> NoReturn
      | Terminated \<Rightarrow> Terminated)"

definition deserialize :: "string \<Rightarrow> access_mode_flags outcome" where
  "deserialize listOfflags = deserializeNames (split listOfflags) {}"

text \<open>\<open>operator<\<close>: the lexicographical comparison of the two sets in iteration order.\<close>

fun mode_less :: "access_mode \<Rightarrow> access_mode \<Rightarrow> bool" where
  "mode_less raw wait_for_new_data = True"
| "mode_less _ _ = False"

fun lex_less :: "access_mode list \<Rightarrow> access_mode list \<Rightarrow> bool" where
  "lex_less _ [] = False"
| "lex_less [] (_ # _) = True"
| "lex_less (a # as) (b # bs) =
     (mode_less a b \<or> (\<not> mode_less b a \<and> lex_less as bs))"

definition flags_less :: "access_mode_flags \<Rightarrow> access_mode_flags \<Rightarrow> bool" where
  "flags_less a b = lex_less (iterate a) (iterate b)"

section \<open>Properties\<close>

lemma flags_cases:
  obtains "flags = {}" | "flags = {raw}" | "flags = {wait_for_new_data}"
    | "flags = {raw, wait_for_new_data}"
proof -
  have "flags \<subseteq> {raw, wait_for_new_data}" using access_mode.exhaust by blast
  then show ?thesis using that by blast
qed

lemma set_iterate [simp]: "set (iterate flags) = flags"
  by (cases flags rule: flags_cases) (auto simp: iterate_def)

lemma has_add [simp]: "has (flags_add g flags) f = (f = g \<or> has flags f)"
  by (simp add: has_def flags_add_def)

lemma has_remove [simp]: "has (flags_remove g flags) f = (f \<noteq> g \<and> has flags f)"
  by (auto simp: has_def flags_remove_def)

lemma checkEachFlag_Ret: "checkEachFlag known fs = Ret () \<longleftrightarrow> set fs \<subseteq> known"
  by (induction fs) auto

lemma checkForUnknownFlags_Ret: "checkForUnknownFlags flags known = Ret () \<longleftrightarrow> flags \<subseteq> known"
  by (simp add: checkForUnknownFlags_def checkEachFlag_Ret)

text \<open>Reading back the text of a set of access mode flags gives the set.\<close>

theorem deserialize_serialize: "deserialize (serialize flags) = Ret flags"
  by (cases flags rule: flags_cases)
    (auto simp: serialize_def iterate_def deserialize_def split_def getAccessMode_def)

text \<open>\<open>operator<\<close> is a strict total order, as a map key needs.\<close>

lemma flags_less_total: "a \<noteq> b \<Longrightarrow> flags_less a b \<or> flags_less b a"
  by (cases a rule: flags_cases; cases b rule: flags_cases) (simp_all add: flags_less_def iterate_def)

lemma flags_less_asym: "flags_less a b \<Longrightarrow> \<not> flags_less b a"
  by (cases a rule: flags_cases; cases b rule: flags_cases) (simp_all add: flags_less_def iterate_def)

end
