(* ===== verification/TransferElements.thy ===== *)
theory TransferElements
  imports VersionNumbers AccessModes
begin

text \<open>
  \<^verbatim>\<open>include/TransferElement.h\<close>: the base class of all accessors.  It runs every read and
  write in the stages pre, transfer and post, delays exceptions to the post stage and
  reports runtime errors to the backend.

  The elements of a process are numbered, \<open>elem w e\<close> holds the data members of element
  \<open>e\<close>; \<open>heap\<close> holds the data members of the derived classes and whatever else they reach.
  \<open>calls\<close> is a ghost log of the stages executed, in order.  The virtual functions of the
  derived classes, the continuation queue \<open>_readQueue\<close> (\<^verbatim>\<open>cppext::future_queue\<close>, not
  part of the repository) and \<open>DeviceBackend::setException\<close> are the fields of
  \<open>te_impl\<close>; they may change everything they reach.
\<close>

section \<open>Data\<close>

datatype transfer_type = TT_read | TT_readNonBlocking | TT_readLatest | TT_write | TT_writeDestructively

datatype data_validity = ok | faulty

record te =
  te_name :: string
  te_flags :: access_mode_flags
  isInTransferGroup :: bool
  inReadAnyGroup :: "nat option"
  readTransactionInProgress :: bool
  writeTransactionInProgress :: bool
  versionNumber :: version_number
  dataValidity :: data_validity
  activeException :: "exn option"
  exceptionBackend :: "nat option"

text \<open>A freshly constructed element.\<close>

definition new_te :: "string \<Rightarrow> access_mode_flags \<Rightarrow> te" where
  "new_te name flags =
     \<lparr>te_name = name, te_flags = flags, isInTransferGroup = False, inReadAnyGroup = None,
      readTransactionInProgress = False, writeTransactionInProgress = False,
      versionNumber = nullVersion, dataValidity = ok, activeException = None,
      exceptionBackend = None\<rparr>"

datatype te_call =
    CallPreRead nat transfer_type
  | CallReadTransfer nat
  | CallReadTransferNonBlocking nat
  | CallPostRead nat transfer_type bool
  | CallPreWrite nat transfer_type version_number
  | CallWriteTransfer nat version_number
  | CallWriteTransferDestructively nat version_number
  | CallPostWrite nat transfer_type version_number
  | CallSetException nat nat string

fun call_of :: "te_call \<Rightarrow> nat" where
  "call_of (CallPreRead e _) = e"
| "call_of (CallReadTransfer e) = e"
| "call_of (CallReadTransferNonBlocking e) = e"
| "call_of (CallPostRead e _ _) = e"
| "call_of (CallPreWrite e _ _) = e"
| "call_of (CallWriteTransfer e _) = e"
| "call_of (CallWriteTransferDestructively e _) = e"
| "call_of (CallPostWrite e _ _) = e"
| "call_of (CallSetException e _ _) = e"

record 'x world =
  elem :: "nat \<Rightarrow> te"
  calls :: "te_call list"
  heap :: 'x

type_synonym ('x, 'a) action = "'x world \<Rightarrow> 'a outcome \<times> 'x world"

record 'x te_impl =
  doPreRead :: "nat \<Rightarrow> transfer_type \<Rightarrow> ('x, unit) action"
  doReadTransferSynchronously :: "nat \<Rightarrow> ('x, unit) action"
  doPostRead :: "nat \<Rightarrow> transfer_type \<Rightarrow> bool \<Rightarrow> ('x, unit) action"
  doPreWrite :: "nat \<Rightarrow> transfer_type \<Rightarrow> version_number \<Rightarrow> ('x, unit) action"
  doWriteTransfer :: "nat \<Rightarrow> version_number \<Rightarrow> ('x, bool) action"
  doWriteTransferDestructively :: "nat \<Rightarrow> version_number \<Rightarrow> ('x, bool) action"
  doPostWrite :: "nat \<Rightarrow> transfer_type \<Rightarrow> version_number \<Rightarrow> ('x, unit) action"
  queuePopWait :: "nat \<Rightarrow> ('x, unit) action"
  queuePop :: "nat \<Rightarrow> ('x, bool) action"
  backendSetException :: "nat \<Rightarrow> string \<Rightarrow> ('x, unit) action"

definition upd :: "nat \<Rightarrow> (te \<Rightarrow> te) \<Rightarrow> 'x world \<Rightarrow> 'x world" where
  "upd e f w = w\<lparr>elem := (elem w)(e := f (elem w e))\<rparr>"

definition logged :: "te_call \<Rightarrow> 'x world \<Rightarrow> 'x world" where
  "logged c w = w\<lparr>calls := calls w @ [c]\<rparr>"

section \<open>Exceptions of the stages\<close>

definition setActiveException :: "nat \<Rightarrow> exn option \<Rightarrow> 'x world \<Rightarrow> exn option \<times> 'x world" where
  "setActiveException e setThisException w =
     (case setThisException of
        Some x \<Rightarrow> (None, upd e (\<lambda>t. t\<lparr>activeException := Some x\<rparr>) w)
      | None \<Rightarrow> (None, w))"

definition storeException :: "nat \<Rightarrow> exn \<Rightarrow> 'x world \<Rightarrow> 'x world" where
  "storeException e x w = upd e (\<lambda>t. t\<lparr>activeException := Some x\<rparr>) w"

text \<open>What \<open>handleTransferException\<close> catches, and what the pre stages catch.\<close>

definition caught_in_transfer :: "exn \<Rightarrow> bool" where
  "caught_in_transfer x = (is_runtime_error x \<or> x = ThreadInterrupted)"

definition caught_in_pre :: "exn \<Rightarrow> bool" where
  "caught_in_pre x = (is_logic_error x \<or> is_runtime_error x \<or> x = ThreadInterrupted)"

text \<open>
  \<open>handleTransferException\<close> with the lambda it is given; a variable the lambda assigns
  its result to keeps its initial value \<open>dflt\<close> when the lambda throws.
\<close>

definition handleTransferException ::
  "nat \<Rightarrow> 'a \<Rightarrow> ('x, 'a) action \<Rightarrow> ('x, 'a) action" where
  "handleTransferException e dflt function w =
     (case function w of
        (Throw x, w') \<Rightarrow> (if caught_in_transfer x then (Ret dflt, storeException e x w') else (Throw x, w'))
      | r \<Rightarrow> r)"

text \<open>The try block around the pre stage, in a function that is \<open>noexcept\<close>.\<close>

definition handlePreException :: "nat \<Rightarrow> ('x, unit) action \<Rightarrow> ('x, unit) action" where
  "handlePreException e function w =
     (case function w of
        (Throw x, w') \<Rightarrow> (if caught_in_pre x then (Ret (), storeException e x w') else (Terminated, w'))
      | r \<Rightarrow> r)"

text \<open>The try block around the post stage: a runtime error is reported and thrown on.\<close>

definition reportException :: "'x te_impl \<Rightarrow> nat \<Rightarrow> ('x, unit) action \<Rightarrow> ('x, unit) action" where
  "reportException V e function w =
     (case function w of
        (Throw x, w') \<Rightarrow>
          (case (is_runtime_error x, exceptionBackend (elem w' e)) of
             (True, Some b) \<Rightarrow>
               andThen (backendSetException V b (what x) (logged (CallSetException e b (what x)) w'))
                 (\<lambda>_ w''. (Throw x, w''))
           | _ \<Rightarrow> (Throw x, w'))
      | r \<Rightarrow> r)"

text \<open>\<open>if(_activeException) std::rethrow_exception(_activeException)\<close>\<close>

definition rethrowActive :: "nat \<Rightarrow> ('x, unit) action" where
  "rethrowActive e w = (case activeException (elem w e) of Some x \<Rightarrow> (Throw x, w) | None \<Rightarrow> (Ret (), w))"

section \<open>Read\<close>

definition preRead :: "'x te_impl \<Rightarrow> transfer_type \<Rightarrow> nat \<Rightarrow> ('x, unit) action" where
  "preRead V ty e w =
     (if readTransactionInProgress (elem w e) then (Ret (), w)
      else
        let w = upd e (\<lambda>t. t\<lparr>activeException := None\<rparr>) w;
            w = upd e (\<lambda>t. t\<lparr>readTransactionInProgress := True\<rparr>) w
        in doPreRead V e ty (logged (CallPreRead e ty) w))"

definition preReadAndHandleExceptions :: "'x te_impl \<Rightarrow> transfer_type \<Rightarrow> nat \<Rightarrow> ('x, unit) action" where
  "preReadAndHandleExceptions V ty e w = handlePreException e (preRead V ty e) w"

definition postRead :: "'x te_impl \<Rightarrow> transfer_type \<Rightarrow> bool \<Rightarrow> nat \<Rightarrow> ('x, unit) action" where
  "postRead V ty updateDataBuffer e w =
     andThen
       (if readTransactionInProgress (elem w e)
        then
          let w = upd e (\<lambda>t. t\<lparr>readTransactionInProgress := False\<rparr>) w
          in doPostRead V e ty updateDataBuffer (logged (CallPostRead e ty updateDataBuffer) w)
        else (Ret (), w))
       (\<lambda>_ w. rethrowActive e w)"

definition postReadAndHandleExceptions ::
  "'x te_impl \<Rightarrow> transfer_type \<Rightarrow> bool \<Rightarrow> nat \<Rightarrow> ('x, unit) action" where
  "postReadAndHandleExceptions V ty updateDataBuffer e w =
     reportException V e (postRead V ty updateDataBuffer e) w"

text \<open>The helper functions with the label \<open>retry\<close>.\<close>

definition readTransferAsyncWaitingImpl :: "'x te_impl \<Rightarrow> nat \<Rightarrow> ('x, unit) action" where
  "readTransferAsyncWaitingImpl V e w = orNoReturn (retryOnDiscard (queuePopWait V e) w) w"

definition readTransferAsyncNonWaitingImpl :: "'x te_impl \<Rightarrow> nat \<Rightarrow> ('x, bool) action" where
  "readTransferAsyncNonWaitingImpl V e w = orNoReturn (retryOnDiscard (queuePop V e) w) w"

definition readTransfer :: "'x te_impl \<Rightarrow> nat \<Rightarrow> ('x, unit) action" where
  "readTransfer V e w =
     (let w = logged (CallReadTransfer e) w
      in if has (te_flags (elem w e)) wait_for_new_data
         then readTransferAsyncWaitingImpl V e w
         else doReadTransferSynchronously V e w)"

definition readTransferNonBlocking :: "'x te_impl \<Rightarrow> nat \<Rightarrow> ('x, bool) action" where
  "readTransferNonBlocking V e w =
     (let w = logged (CallReadTransferNonBlocking e) w
      in if has (te_flags (elem w e)) wait_for_new_data
         then readTransferAsyncNonWaitingImpl V e w
         else andThen (doReadTransferSynchronously V e w) (\<lambda>_ w. (Ret True, w)))"

definition inTransferGroupError :: "te \<Rightarrow> exn" where
  "inTransferGroupError t = LogicError (''Calling read() or write() on the TransferElement '' @
     te_name t @ '' which is part of a TransferGroup is not allowed.'')"

definition inReadAnyGroupError :: "string \<Rightarrow> te \<Rightarrow> exn" where
  "inReadAnyGroupError function t = LogicError (''Directly calling '' @ function @
     ''() on the TransferElement '' @ te_name t @ '' which is part of a ReadAnyGroup is not allowed.'')"

definition noException :: "nat \<Rightarrow> 'x world \<Rightarrow> bool" where
  "noException e w = (activeException (elem w e) = None)"

definition read_te :: "'x te_impl \<Rightarrow> nat \<Rightarrow> ('x, unit) action" where
  "read_te V e w =
     (if isInTransferGroup (elem w e) then (Throw (inTransferGroupError (elem w e)), w)
      else if inReadAnyGroup (elem w e) \<noteq> None then (Throw (inReadAnyGroupError ''read'' (elem w e)), w)
      else
        andThen (preReadAndHandleExceptions V TT_read e
            (upd e (\<lambda>t. t\<lparr>readTransactionInProgress := False\<rparr>) w)) (\<lambda>_ w.
        andThen (if noException e w
                 then handleTransferException e () (readTransfer V e) w
                 else (Ret (), w)) (\<lambda>_ w.
        postReadAndHandleExceptions V TT_read (noException e w) e w)))"

definition readNonBlocking_te :: "'x te_impl \<Rightarrow> nat \<Rightarrow> ('x, bool) action" where
  "readNonBlocking_te V e w =
     (if isInTransferGroup (elem w e) then (Throw (inTransferGroupError (elem w e)), w)
      else if inReadAnyGroup (elem w e) \<noteq> None then
        (Throw (inReadAnyGroupError ''readNonBlocking'' (elem w e)), w)
      else
        andThen (preReadAndHandleExceptions V TT_readNonBlocking e
            (upd e (\<lambda>t. t\<lparr>readTransactionInProgress := False\<rparr>) w)) (\<lambda>_ w.
        andThen (if noException e w
                 then handleTransferException e False (readTransferNonBlocking V e) w
                 else (Ret False, w)) (\<lambda>updateDataBuffer w.
        if \<not> noException e w then
          let previousVersionNumber = versionNumber (elem w e);
              previousDataValidity = dataValidity (elem w e)
          in andThen (postReadAndHandleExceptions V TT_readNonBlocking False e w) (\<lambda>_ w.
               (Ret (previousVersionNumber \<noteq> versionNumber (elem w e) \<or>
                     previousDataValidity \<noteq> dataValidity (elem w e)), w))
        else
          andThen (postReadAndHandleExceptions V TT_readNonBlocking updateDataBuffer e w) (\<lambda>_ w.
            (Ret updateDataBuffer, w)))))"

text \<open>The loop of \<open>readLatest\<close>; \<open>None\<close> if it never ends.\<close>

partial_function (option) readLatestLoop ::
  "'x te_impl \<Rightarrow> nat \<Rightarrow> bool \<Rightarrow> 'x world \<Rightarrow> (bool outcome \<times> 'x world) option" where
  "readLatestLoop V e updateDataBuffer w =
     (case readNonBlocking_te V e w of (r, w') \<Rightarrow>
        if r = Ret True then readLatestLoop V e True w'
        else if r = Ret False then Some (Ret updateDataBuffer, w')
        else Some (r, w'))"

definition readLatest_te :: "'x te_impl \<Rightarrow> nat \<Rightarrow> ('x, bool) action" where
  "readLatest_te V e w =
     (if has (te_flags (elem w e)) wait_for_new_data
      then orNoReturn (readLatestLoop V e False w) w
      else andThen (read_te V e w) (\<lambda>_ w. (Ret True, w)))"

section \<open>Write\<close>

definition oldVersionError :: "version_number \<Rightarrow> te \<Rightarrow> exn" where
  "oldVersionError v t = LogicError (''The version number '' @ version_string v @
     '' passed to write() of TransferElement '' @ te_name t @
     '' is less than the last version number used '' @ version_string (versionNumber t) @ ''.'')"

definition preWrite :: "'x te_impl \<Rightarrow> transfer_type \<Rightarrow> version_number \<Rightarrow> nat \<Rightarrow> ('x, unit) action" where
  "preWrite V ty v e w =
     (if writeTransactionInProgress (elem w e) then (Ret (), w)
      else
        let w = upd e (\<lambda>t. t\<lparr>activeException := None\<rparr>) w
        in if v < versionNumber (elem w e) then (Throw (oldVersionError v (elem w e)), w)
           else
             let w = upd e (\<lambda>t. t\<lparr>writeTransactionInProgress := True\<rparr>) w
             in doPreWrite V e ty v (logged (CallPreWrite e ty v) w))"

definition preWriteAndHandleExceptions ::
  "'x te_impl \<Rightarrow> transfer_type \<Rightarrow> version_number \<Rightarrow> nat \<Rightarrow> ('x, unit) action" where
  "preWriteAndHandleExceptions V ty v e w = handlePreException e (preWrite V ty v e) w"

definition postWrite :: "'x te_impl \<Rightarrow> transfer_type \<Rightarrow> version_number \<Rightarrow> nat \<Rightarrow> ('x, unit) action" where
  "postWrite V ty v e w =
     andThen
       (if writeTransactionInProgress (elem w e)
        then
          let w = upd e (\<lambda>t. t\<lparr>writeTransactionInProgress := False\<rparr>) w
          in doPostWrite V e ty v (logged (CallPostWrite e ty v) w)
        else (Ret (), w))
       (\<lambda>_ w. andThen (rethrowActive e w) (\<lambda>_ w.
          (Ret (), upd e (\<lambda>t. t\<lparr>versionNumber := v\<rparr>) w)))"

definition postWriteAndHandleExceptions ::
  "'x te_impl \<Rightarrow> transfer_type \<Rightarrow> version_number \<Rightarrow> nat \<Rightarrow> ('x, unit) action" where
  "postWriteAndHandleExceptions V ty v e w = reportException V e (postWrite V ty v e) w"

definition writeTransfer :: "'x te_impl \<Rightarrow> version_number \<Rightarrow> nat \<Rightarrow> ('x, bool) action" where
  "writeTransfer V v e w = doWriteTransfer V e v (logged (CallWriteTransfer e v) w)"

definition writeTransferDestructively :: "'x te_impl \<Rightarrow> version_number \<Rightarrow> nat \<Rightarrow> ('x, bool) action" where
  "writeTransferDestructively V v e w =
     doWriteTransferDestructively V e v (logged (CallWriteTransferDestructively e v) w)"

definition write_te :: "'x te_impl \<Rightarrow> version_number \<Rightarrow> nat \<Rightarrow> ('x, bool) action" where
  "write_te V v e w =
     (if isInTransferGroup (elem w e) then (Throw (inTransferGroupError (elem w e)), w)
      else
        andThen (preWriteAndHandleExceptions V TT_write v e
            (upd e (\<lambda>t. t\<lparr>writeTransactionInProgress := False\<rparr>) w)) (\<lambda>_ w.
        andThen (if noException e w
                 then handleTransferException e True (writeTransfer V v e) w
                 else (Ret True, w)) (\<lambda>previousDataLost w.
        andThen (postWriteAndHandleExceptions V TT_write v e w) (\<lambda>_ w.
          (Ret previousDataLost, w)))))"

definition writeDestructively_te :: "'x te_impl \<Rightarrow> version_number \<Rightarrow> nat \<Rightarrow> ('x, bool) action" where
  "writeDestructively_te V v e w =
     (if isInTransferGroup (elem w e) then (Throw (inTransferGroupError (elem w e)), w)
      else
        andThen (preWriteAndHandleExceptions V TT_writeDestructively v e
            (upd e (\<lambda>t. t\<lparr>writeTransactionInProgress := False\<rparr>) w)) (\<lambda>_ w.
        andThen (if noException e w
                 then handleTransferException e True (writeTransferDestructively V v e) w
                 else (Ret True, w)) (\<lambda>previousDataLost w.
        andThen (postWriteAndHandleExceptions V TT_writeDestructively v e w) (\<lambda>_ w.
          (Ret previousDataLost, w)))))"

end
