(* ===== verification/DataConsistencyRealms.thy ===== *)
theory DataConsistencyRealms
  imports VersionNumbers
begin

text \<open>
  \<^verbatim>\<open>include/async/DataConsistencyKey.h\<close>, \<^verbatim>\<open>include/async/DataConsistencyRealm.h\<close> and
  \<^verbatim>\<open>src/async/DataConsistencyRealm.cc\<close>: the version numbers of the events of a realm.
  A \<open>DataConsistencyKey\<close> is its numeric value.
\<close>

section \<open>The realm\<close>

type_synonym consistency_key = "64 word"

datatype realm = Realm (versionHistory: "version_number list") (latestKey: consistency_key)

abbreviation maxSizeEventIdMap :: nat where "maxSizeEventIdMap \<equiv> 2000"

definition empty_realm :: realm where
  "empty_realm = Realm [] 0"

text \<open>\<open>boost::circular_buffer::push_back\<close> overwrites the first element of a full buffer.\<close>

definition circular_push :: "version_number \<Rightarrow> version_number list \<Rightarrow> version_number list" where
  "circular_push v h = (if length h < maxSizeEventIdMap then h @ [v] else tl h @ [v])"

fun push_new_versions :: "nat \<Rightarrow> version_number list \<Rightarrow> 64 word \<Rightarrow> version_number list \<times> 64 word" where
  "push_new_versions 0 h g = (h, g)"
| "push_new_versions (Suc n) h g = (let (v, g) = newVersion g in push_new_versions n (circular_push v h) g)"

text \<open>\<open>g\<close> is the last generated version number.\<close>

definition getVersion :: "consistency_key \<Rightarrow> realm \<Rightarrow> 64 word \<Rightarrow> version_number \<times> realm \<times> 64 word" where
  "getVersion eventId r g =
     (let h = versionHistory r; latest = latestKey r in
      if eventId = 0 then (nullVersion, r, g)
      else if eventId \<le> latest \<and> eventId + of_nat maxSizeEventIdMap > latest then
        (h ! unat (of_nat (length h) - (latest - eventId) - 1), r, g)
      else if h = [] then
        let (h, g) = push_new_versions (unat (min eventId (of_nat maxSizeEventIdMap))) h g in (last h, Realm h eventId, g)
      else if eventId + of_nat maxSizeEventIdMap \<le> latest then (nullVersion, r, g)
      else
        let (h, g) = push_new_versions (unat (min (eventId - latest) (of_nat maxSizeEventIdMap))) h g in (last h, Realm h eventId, g))"

section \<open>Facts\<close>

definition last_n :: "nat \<Rightarrow> 'a list \<Rightarrow> 'a list" where
  "last_n n xs = drop (length xs - n) xs"

lemma last_n_Cons: "n \<le> length xs \<Longrightarrow> last_n n (x # xs) = last_n n xs"
  by (simp add: last_n_def Suc_diff_le)

lemma push_new_versions_eq:
  "length h \<le> maxSizeEventIdMap \<Longrightarrow>
   push_new_versions n h g = (last_n maxSizeEventIdMap (h @ fst (newVersions n g)), snd (newVersions n g))"
proof (induction n arbitrary: h g)
  case 0
  then show ?case by (simp add: last_n_def)
next
  case (Suc n)
  let ?v = "VersionNumber (g + 1)"
  have "last_n maxSizeEventIdMap (circular_push ?v h @ xs) = last_n maxSizeEventIdMap (h @ ?v # xs)" for xs
  proof (cases "length h < maxSizeEventIdMap")
    case True
    then have "circular_push ?v h @ xs = h @ ?v # xs" by (simp add: circular_push_def)
    then show ?thesis by (simp only:)
  next
    case False
    then obtain a t where "h = a # t" "length (t @ ?v # xs) \<ge> maxSizeEventIdMap" using Suc.prems by (cases h) auto
    moreover from this have "circular_push ?v h @ xs = t @ ?v # xs" using False by (simp add: circular_push_def)
    ultimately show ?thesis by (simp only: append_Cons last_n_Cons)
  qed
  moreover have "length (circular_push ?v h) \<le> maxSizeEventIdMap" using Suc.prems by (auto simp: circular_push_def)
  ultimately show ?case using Suc.IH[of "circular_push ?v h" "g + 1"] by (simp add: case_prod_beta)
qed

definition realm_ok :: "64 word \<Rightarrow> realm \<Rightarrow> bool" where
  "realm_ok g r = (length (versionHistory r) = min (unat (latestKey r)) maxSizeEventIdMap \<and>
     unat (latestKey r) + maxSizeEventIdMap < 2 ^ 64 \<and> sorted_wrt (<) (versionHistory r) \<and>
     (\<forall>v\<in>set (versionHistory r). nullVersion < v \<and> v \<le> VersionNumber g))"

text \<open>The version the realm holds for a key, if it holds one.\<close>

definition known :: "realm \<Rightarrow> consistency_key \<Rightarrow> version_number option" where
  "known r k =
     (if 0 < k \<and> k \<le> latestKey r \<and> unat (latestKey r) < unat k + maxSizeEventIdMap
      then Some (versionHistory r ! (length (versionHistory r) - (unat (latestKey r) - unat k) - 1)) else None)"

lemma known_increasing:
  assumes "realm_ok g r" "known r a = Some x" "known r b = Some y" "a < b"
  shows "x < y"
proof -
  let ?n = "length (versionHistory r)" and ?l = "unat (latestKey r)"
  have u: "0 < unat a" "unat a < unat b" "unat b \<le> ?l" "?l < unat a + maxSizeEventIdMap"
    using assms(2-4) by (auto simp: known_def word_less_nat_alt word_le_nat_alt split: if_splits)
  have ok: "?n = min ?l maxSizeEventIdMap" "sorted_wrt (<) (versionHistory r)" using assms(1) unfolding realm_ok_def by blast+
  have "?n - (?l - unat a) - 1 < ?n - (?l - unat b) - 1" "?n - (?l - unat b) - 1 < ?n" using u ok(1) by linarith+
  moreover have "x = versionHistory r ! (?n - (?l - unat a) - 1)" "y = versionHistory r ! (?n - (?l - unat b) - 1)"
    using assms(2,3) by (simp_all add: known_def split: if_splits)
  ultimately show ?thesis using sorted_wrt_nth_less[OF ok(2)] by simp
qed

lemma new_versions_facts:
  assumes "unat g + n < 2 ^ 64"
  shows "length (fst (newVersions n g)) = n" "sorted_wrt (<) (fst (newVersions n g))"
    "\<forall>v\<in>set (fst (newVersions n g)). VersionNumber g < v \<and> v \<le> VersionNumber (snd (newVersions n g))"
    "VersionNumber g \<le> VersionNumber (snd (newVersions n g))"
proof -
  define vs where "vs = fst (newVersions n g)"
  have vals: "map (unat \<circ> vn_value) vs = [unat g + 1 ..< unat g + n + 1]" "unat (snd (newVersions n g)) = unat g + n"
    unfolding vs_def using newVersions_values[OF assms] by blast+
  have "length vs = n" using arg_cong[OF vals(1), of length] by simp
  then show "length (fst (newVersions n g)) = n" by (simp add: vs_def)
  have "sorted_wrt (<) (map (unat \<circ> vn_value) vs)" unfolding vals by (rule sorted_wrt_upt)
  then show "sorted_wrt (<) (fst (newVersions n g))"
    by (simp add: vs_def sorted_wrt_map version_less_unat)
  have "unat g < unat (vn_value v) \<and> unat (vn_value v) \<le> unat g + n" if "v \<in> set vs" for v
  proof -
    have "(unat \<circ> vn_value) v \<in> set (map (unat \<circ> vn_value) vs)" using that by (simp only: set_map image_eqI)
    then have "unat (vn_value v) \<in> {unat g + 1 ..< unat g + n + 1}" unfolding vals(1) by (simp only: set_upt comp_apply)
    then show ?thesis by (simp only: atLeastLessThan_iff) linarith
  qed
  then show "\<forall>v\<in>set (fst (newVersions n g)). VersionNumber g < v \<and> v \<le> VersionNumber (snd (newVersions n g))"
    using vals(2) by (auto simp: vs_def[symmetric] less_version_number_def less_eq_version_number_def word_less_nat_alt word_le_nat_alt)
  show "VersionNumber g \<le> VersionNumber (snd (newVersions n g))"
    using vals(2) by (simp add: less_eq_version_number_def word_le_nat_alt)
qed

text \<open>Adding the versions of the keys after the latest one.\<close>

lemma push_to_realm:
  assumes ok: "realm_ok g r" and k: "unat (latestKey r) < unat k" "unat k + maxSizeEventIdMap < 2 ^ 64"
    and g: "unat g + maxSizeEventIdMap < 2 ^ 64"
    and push: "push_new_versions (min (unat k - unat (latestKey r)) maxSizeEventIdMap) (versionHistory r) g = (h, g')"
  shows "realm_ok g' (Realm h k) \<and> known (Realm h k) k = Some (last h) \<and>
    (\<forall>k' v. known r k' = Some v \<longrightarrow> known (Realm h k) k' \<in> {None, Some v})"
proof -
  let ?h0 = "versionHistory r" and ?l = "unat (latestKey r)" and ?n = "min (unat k - unat (latestKey r)) maxSizeEventIdMap"
  let ?new = "fst (newVersions ?n g)"
  have n: "unat g + ?n < 2 ^ 64" using g by linarith
  note new = new_versions_facts[OF n]
  have len0: "length ?h0 = min ?l maxSizeEventIdMap" using ok by (simp add: realm_ok_def)
  have h: "h = last_n maxSizeEventIdMap (?h0 @ ?new)" "g' = snd (newVersions ?n g)"
    using push_new_versions_eq[of ?h0 ?n g] push len0 by simp_all
  have len: "length h = min (unat k) maxSizeEventIdMap"
    using k(1) len0 new(1) unfolding h(1) last_n_def by (simp add: min_def split: if_splits; linarith)
  have all: "sorted_wrt (<) (?h0 @ ?new)"
    using ok new(2,3) by (fastforce simp: realm_ok_def sorted_wrt_append)
  have sub: "set h \<subseteq> set (?h0 @ ?new)" unfolding h(1) last_n_def by (rule set_drop_subset)
  have "nullVersion < v \<and> v \<le> VersionNumber g'" if "v \<in> set h" for v
  proof -
    have "v \<in> set ?h0 \<or> v \<in> set ?new" using subsetD[OF sub that] by simp
    then show ?thesis
    proof
      assume "v \<in> set ?h0"
      then have "nullVersion < v" "v \<le> VersionNumber g" using ok by (simp_all add: realm_ok_def)
      then show ?thesis using new(4) unfolding h(2) by (blast intro: order.trans)
    next
      assume "v \<in> set ?new"
      then have "VersionNumber g < v" "v \<le> VersionNumber g'" using new(3) unfolding h(2) by simp_all
      then show ?thesis using null_least[of "VersionNumber g"] by (blast intro: le_less_trans)
    qed
  qed
  moreover have sorted: "sorted_wrt (<) h" unfolding h(1) last_n_def by (rule sorted_wrt_drop[OF all])
  ultimately have ok': "realm_ok g' (Realm h k)"
    using len k(2) sorted unfolding realm_ok_def realm.sel by blast
  have kz: "0 < k" using k(1) by (simp add: word_less_nat_alt)
  have "h \<noteq> []" using len k(1) by auto
  then have last: "known (Realm h k) k = Some (last h)" using kz by (simp add: known_def last_conv_nth)
  have "known (Realm h k) k' \<in> {None, Some v}" if kn: "known r k' = Some v" for k' v
  proof (cases "unat k < unat k' + maxSizeEventIdMap")
    case False
    then show ?thesis by (simp add: known_def)
  next
    case True
    have u: "0 < unat k'" "unat k' \<le> ?l" "?l < unat k' + maxSizeEventIdMap" "v = ?h0 ! (length ?h0 - (?l - unat k') - 1)"
      using kn by (auto simp: known_def word_less_nat_alt word_le_nat_alt split: if_splits)
    then have nn: "?n = unat k - ?l" using True by simp
    let ?i = "length h - (unat k - unat k') - 1"
    have i: "length (?h0 @ ?new) - maxSizeEventIdMap + ?i = length ?h0 - (?l - unat k') - 1"
      using len len0 new(1) nn u(1-3) True k(1) by (simp add: min_def split: if_splits; linarith)
    have "h ! ?i = (?h0 @ ?new) ! (length ?h0 - (?l - unat k') - 1)"
      using arg_cong[OF h(1), of "\<lambda>x. x ! ?i"] i unfolding last_n_def by (subst (asm) nth_drop) (simp_all only: diff_le_self)
    also have "length ?h0 - (?l - unat k') - 1 < length ?h0" using u(1-3) len0 by linarith
    then have "(?h0 @ ?new) ! (length ?h0 - (?l - unat k') - 1) = v" unfolding u(4) nth_append by (rule if_P)
    finally show ?thesis using True u(1-3) k by (auto simp: known_def word_less_nat_alt word_le_nat_alt)
  qed
  with ok' last show ?thesis by blast
qed

text \<open>
  C31: a realm gives every key the same version number whenever it is asked, as long as the key
  is among the 2000 last ones, later keys greater versions than earlier ones, also for keys
  nobody has asked for, and the null version to older keys.
\<close>

theorem realm_getVersion:
  assumes "realm_ok g r" "unat k + maxSizeEventIdMap < 2 ^ 64" "unat g + maxSizeEventIdMap < 2 ^ 64"
    and "getVersion k r g = (v, r', g')"
  shows "realm_ok g' r' \<and>
    (if k = 0 \<or> unat k + maxSizeEventIdMap \<le> unat (latestKey r) then v = nullVersion else known r' k = Some v) \<and>
    (\<forall>k' v'. known r k' = Some v' \<longrightarrow> known r' k' \<in> {None, Some v'}) \<and>
    (\<forall>a b x y. a < b \<longrightarrow> known r' a = Some x \<longrightarrow> known r' b = Some y \<longrightarrow> x < y)"
proof -
  let ?h = "versionHistory r" and ?l = "latestKey r"
  have w: "unat (k + of_nat maxSizeEventIdMap) = unat k + maxSizeEventIdMap" using assms(2) by (simp add: unat_word_ariths)
  have goal: ?thesis if "realm_ok g' r'"
    "if k = 0 \<or> unat k + maxSizeEventIdMap \<le> unat ?l then v = nullVersion else known r' k = Some v"
    "\<forall>k' v'. known r k' = Some v' \<longrightarrow> known r' k' \<in> {None, Some v'}"
    using that known_increasing by blast
  have same: "\<forall>k' v'. known r k' = Some v' \<longrightarrow> known r k' \<in> {None, Some v'}" by simp
  consider (zero) "k = 0" | (window) "k \<noteq> 0" "k \<le> ?l" "unat ?l < unat k + maxSizeEventIdMap"
    | (old) "k \<noteq> 0" "unat k + maxSizeEventIdMap \<le> unat ?l" | (new) "k \<noteq> 0" "unat ?l < unat k"
    using word_le_nat_alt[of k ?l] by (meson not_le)
  then show ?thesis
  proof cases
    case zero
    then show ?thesis using assms by (intro goal) (auto simp: getVersion_def)
  next
    case window
    have "unat k \<le> unat ?l" "0 < unat k" using window by (simp_all add: word_le_nat_alt unat_gt_0)
    moreover have len: "length ?h = min (unat ?l) maxSizeEventIdMap" using assms(1) by (simp add: realm_ok_def)
    moreover have "unat (?l - k) = unat ?l - unat k" using window(2) by (rule unat_sub)
    moreover have "unat (of_nat (length ?h) :: 64 word) = length ?h" using len by (simp add: unat_of_nat take_bit_nat_eq_self)
    moreover from calculation have "unat (of_nat (length ?h) - (?l - k)) = length ?h - (unat ?l - unat k)"
      using window(3) by (subst unat_sub) (auto simp: word_le_nat_alt)
    ultimately have "unat (of_nat (length ?h) - (?l - k) - 1) = length ?h - (unat ?l - unat k) - 1"
      using window(3) by (subst unat_sub) (auto simp: word_le_nat_alt)
    then have "known r k = Some v" "r' = r" "g' = g"
      using assms(4) window w \<open>0 < unat k\<close> by (auto simp: getVersion_def known_def word_less_nat_alt Let_def)
    then show ?thesis using assms(1) window same by (intro goal) auto
  next
    case old
    then have "?h \<noteq> []" using assms(1) by (auto simp: realm_ok_def)
    then have "v = nullVersion" "r' = r" "g' = g"
      using assms(4) old w by (auto simp: getVersion_def word_less_nat_alt word_le_nat_alt Let_def)
    then show ?thesis using assms(1) old same by (intro goal) auto
  next
    case new
    have e: "?h = [] \<Longrightarrow> unat ?l = 0" using assms(1) by (auto simp: realm_ok_def)
    have "unat (min (k - ?l) (of_nat maxSizeEventIdMap)) = min (unat k - unat ?l) maxSizeEventIdMap"
      using new(2) by (auto simp: min_def word_le_nat_alt unat_sub)
    moreover have "unat (min k (of_nat maxSizeEventIdMap)) = min (unat k) maxSizeEventIdMap"
      by (auto simp: min_def word_le_nat_alt)
    ultimately obtain h where push: "push_new_versions (min (unat k - unat ?l) maxSizeEventIdMap) ?h g = (h, g')"
      "v = last h" "r' = Realm h k"
      using assms(4) new w e
      by (auto simp: getVersion_def word_less_nat_alt word_le_nat_alt Let_def split: if_splits prod.splits)
    from push_to_realm[OF assms(1) new(2) assms(2,3) push(1)] show ?thesis
      using new push(2,3) by (intro goal) auto
  qed
qed

theorem realm_getVersion_witness:
  "\<exists>v r g. getVersion 3 empty_realm 7 = (v, r, g) \<and> known r 3 = Some v \<and> (\<exists>u. known r 2 = Some u \<and> u < v)"
proof -
  obtain v r g where r: "getVersion 3 empty_realm 7 = (v, r, g)" by (rule prod_cases3)
  have "realm_ok 7 empty_realm" by (simp add: realm_ok_def empty_realm_def)
  from realm_getVersion[OF this _ _ r] have t: "realm_ok g r" "known r 3 = Some v"
    "\<forall>a b x y. a < b \<longrightarrow> known r a = Some x \<longrightarrow> known r b = Some y \<longrightarrow> x < y"
    by (simp_all add: empty_realm_def)
  moreover have "latestKey r = 3" using r by (auto simp: getVersion_def empty_realm_def Let_def split: prod.splits)
  then obtain u where "known r 2 = Some u" by (auto simp: known_def)
  moreover from this have "u < v" using t(2) t(3)[rule_format, of 2 3] by simp
  ultimately show ?thesis using r by blast
qed

end
