(* ===== verification/AsyncVariables.thy ===== *)
theory AsyncVariables
  imports TransferElements DataConsistencyRealms
begin

text \<open>
  \<^verbatim>\<open>include/async/AsyncAccessorManager.h\<close>, \<^verbatim>\<open>src/async/AsyncAccessorManager.cc\<close>,
  \<^verbatim>\<open>include/async/VariableDistributor.h\<close>, \<^verbatim>\<open>src/async/TriggeredPollDistributor.cc\<close> and
  \<^verbatim>\<open>src/async/AsyncNDRegisterAccessor.cc\<close>: the distributors and the subscribed accessors
  they send data, versions and exceptions to.

  The transport queue of an accessor is not part of the repository: what is pushed into it is
  recorded in order.  The device, and everything else outside the distributors, is a value of
  type \<open>'h\<close>, which the functions in \<open>async_env\<close> read and change.
\<close>

section \<open>Data\<close>

datatype 'd queue_item = QueueData 'd version_number data_validity | QueueException exn

text \<open>An \<open>AsyncVariable\<close>: \<open>subscribed\<close> tells whether its accessor still exists.\<close>

record 'd async_variable =
  subscribed :: bool
  pushed :: "'d queue_item list"
  lastSentVersion :: version_number

text \<open>
  \<open>isHoldingDomainLock\<close>: the thread-local pointer of the distributing thread points to this
  manager.  \<open>currentVersion\<close> is \<open>_version\<close>.
\<close>

record 'd manager =
  asyncVariables :: "(nat \<times> 'd async_variable) list"
  delayedUnsubscriptions :: "nat list"
  isHoldingDomainLock :: bool
  currentVersion :: version_number

record 'd poll_distributor = "'d manager" +
  dataConsistencyRealm :: "string option"
  forceFaulty :: bool
  lastVersion :: version_number

record 'h async_world =
  lastGenerated :: "64 word"
  realms :: "string \<Rightarrow> realm"
  device :: 'h

text \<open>
  The number of a sub domain is the list of indices that leads to it.  \<open>lastOwner\<close>: when a
  distributor locks the weak pointer to an accessor, it holds the last pointer to it.
\<close>

record ('d, 'b, 'h) async_env =
  readGroup :: "nat list \<Rightarrow> 'h \<Rightarrow> unit outcome \<times> 'h"
  keyValue :: "nat list \<Rightarrow> 'h \<Rightarrow> consistency_key"
  syncBuffer :: "nat list \<Rightarrow> nat \<Rightarrow> 'h \<Rightarrow> 'd \<times> data_validity"
  nullData :: 'b
  sourceValue :: "'b \<Rightarrow> nat \<Rightarrow> 'd"
  lastOwner :: "nat \<Rightarrow> 'h \<Rightarrow> bool"
  writeRegister :: "nat list \<Rightarrow> string \<Rightarrow> 32 word \<Rightarrow> 'h \<Rightarrow> unit outcome \<times> 'h"
  readRegister :: "nat list \<Rightarrow> string \<Rightarrow> 'h \<Rightarrow> 32 word outcome \<times> 'h"

definition new_variable :: "'d async_variable" where
  "new_variable = \<lparr>subscribed = True, pushed = [], lastSentVersion = nullVersion\<rparr>"

section \<open>Sending\<close>

text \<open>\<open>AsyncNDRegisterAccessor::sendDestructively\<close>\<close>

definition sendDestructively :: "bool \<Rightarrow> 'd \<times> version_number \<times> data_validity \<Rightarrow> 'd async_variable \<Rightarrow> 'd async_variable" where
  "sendDestructively isActive data x =
     (if isActive then x\<lparr>pushed := pushed x @ [case data of (d, v, ok) \<Rightarrow> QueueData d v ok]\<rparr> else x)"

text \<open>
  \<open>AsyncVariableImpl::send\<close>.  The message of the exception asks the subscriber for its name,
  through a null pointer when it is gone: \<open>Terminated\<close>.
\<close>

definition decreasedVersion :: exn where
  "decreasedVersion = LogicError ''Trying to send decreased version''"

definition send :: "bool \<Rightarrow> 'd \<times> version_number \<times> data_validity \<Rightarrow> 'd async_variable \<Rightarrow> unit outcome \<times> 'd async_variable" where
  "send isActive data x =
     (let v = fst (snd data) in
      if lastSentVersion x > v then (if subscribed x then Throw decreasedVersion else Terminated, x)
      else
        let x = x\<lparr>lastSentVersion := v\<rparr>
        in (Ret (), if subscribed x then sendDestructively isActive data x else x))"

definition send_variable_exception :: "exn \<Rightarrow> 'd async_variable \<Rightarrow> 'd async_variable" where
  "send_variable_exception e x = (if subscribed x then x\<lparr>pushed := pushed x @ [QueueException e]\<rparr> else x)"

section \<open>Subscriptions\<close>

definition unsubscribeImpl :: "nat \<Rightarrow> ('d, 'z) manager_scheme \<Rightarrow> ('d, 'z) manager_scheme" where
  "unsubscribeImpl i m = m\<lparr>asyncVariables := filter (\<lambda>p. fst p \<noteq> i) (asyncVariables m)\<rparr>"

text \<open>
  \<open>unsubscribe\<close>, called by the destructor of the accessor.  Taking the lock of the domain again
  in the thread that holds it does not return.
\<close>

definition unsubscribe :: "bool \<Rightarrow> nat \<Rightarrow> ('d, 'z) manager_scheme \<Rightarrow> unit outcome \<times> ('d, 'z) manager_scheme" where
  "unsubscribe domainLocked i m =
     (if isHoldingDomainLock m then (Ret (), m\<lparr>delayedUnsubscriptions := delayedUnsubscriptions m @ [i]\<rparr>)
      else if domainLocked then (NoReturn, m)
      else (Ret (), unsubscribeImpl i m))"

definition runDelayed :: "('d, 'z) manager_scheme \<Rightarrow> ('d, 'z) manager_scheme" where
  "runDelayed m = (fold unsubscribeImpl (delayedUnsubscriptions m) m)\<lparr>delayedUnsubscriptions := []\<rparr>"

definition setVariable :: "nat \<Rightarrow> 'd async_variable \<Rightarrow> ('d, 'z) manager_scheme \<Rightarrow> ('d, 'z) manager_scheme" where
  "setVariable i x m = m\<lparr>asyncVariables := map (\<lambda>p. if fst p = i then (i, x) else p) (asyncVariables m)\<rparr>"

text \<open>
  What happens to a variable while its distributor works on it: \<open>act\<close> with the weak pointer
  locked, then, if that was the last pointer, the destructor of the accessor.
\<close>

definition withSubscriber ::
  "bool \<Rightarrow> ('d async_variable \<Rightarrow> unit outcome \<times> 'd async_variable) \<Rightarrow> nat \<Rightarrow> ('d, 'z) manager_scheme \<Rightarrow>
     unit outcome \<times> ('d, 'z) manager_scheme" where
  "withSubscriber isLast act i m =
     (case map_of (asyncVariables m) i of
        None \<Rightarrow> (Ret (), m)
      | Some x \<Rightarrow>
          let (r, x') = act x in
          if subscribed x \<and> isLast then
            case unsubscribe True i (setVariable i (x'\<lparr>subscribed := False\<rparr>) m) of
              (Ret _, m) \<Rightarrow> (r, m)
            | (q, m) \<Rightarrow> (q, m)
          else (r, setVariable i x' m))"

text \<open>The loop of \<open>SourceTypedAsyncAccessorManager::distribute\<close>; \<open>fill\<close> is \<open>fillSendBuffer\<close>.\<close>

definition sendOne ::
  "bool \<Rightarrow> (nat \<Rightarrow> bool) \<Rightarrow> (nat \<Rightarrow> ('d, 'z) manager_scheme \<Rightarrow> 'd \<times> version_number \<times> data_validity) \<Rightarrow>
     nat \<Rightarrow> ('d, 'z) manager_scheme \<Rightarrow> unit outcome \<times> ('d, 'z) manager_scheme" where
  "sendOne isActive isLast fill i m =
     (let data = fill i m in
      andThen (withSubscriber (isLast i) (send isActive data) i (m\<lparr>isHoldingDomainLock := True\<rparr>))
        (\<lambda>_ m. (Ret (), m\<lparr>isHoldingDomainLock := False\<rparr>)))"

definition sendAll ::
  "bool \<Rightarrow> (nat \<Rightarrow> bool) \<Rightarrow> (nat \<Rightarrow> ('d, 'z) manager_scheme \<Rightarrow> 'd \<times> version_number \<times> data_validity) \<Rightarrow>
     ('d, 'z) manager_scheme \<Rightarrow> unit outcome \<times> ('d, 'z) manager_scheme" where
  "sendAll isActive isLast fill m =
     andThen (forEach (sendOne isActive isLast fill) (map fst (asyncVariables m)) m) (\<lambda>_ m. (Ret (), runDelayed m))"

definition manager_sendException :: "(nat \<Rightarrow> bool) \<Rightarrow> exn \<Rightarrow> ('d, 'z) manager_scheme \<Rightarrow> ('d, 'z) manager_scheme" where
  "manager_sendException isLast e m =
     (let m = m\<lparr>isHoldingDomainLock := True\<rparr>;
          m = snd (forEach (\<lambda>i. withSubscriber (isLast i) (\<lambda>x. (Ret (), send_variable_exception e x)) i)
                (map fst (asyncVariables m)) m)
      in runDelayed (m\<lparr>isHoldingDomainLock := False\<rparr>))"

text \<open>
  The end of \<open>subscribe\<close>: the variable made by \<open>createAsyncVariable\<close> is sent its initial value
  when the domain is active, and gets its place in the map, which is ordered by the number.
\<close>

fun insert_variable :: "nat \<Rightarrow> 'v \<Rightarrow> (nat \<times> 'v) list \<Rightarrow> (nat \<times> 'v) list" where
  "insert_variable i x [] = [(i, x)]"
| "insert_variable i x ((j, y) # rest) =
     (if i < j then (i, x) # (j, y) # rest else if i = j then (i, x) # rest else (j, y) # insert_variable i x rest)"

definition manager_subscribe ::
  "bool \<Rightarrow> (nat \<Rightarrow> ('d, 'z) manager_scheme \<Rightarrow> 'd \<times> version_number \<times> data_validity) \<Rightarrow> nat \<Rightarrow> ('d, 'z) manager_scheme \<Rightarrow>
     unit outcome \<times> ('d, 'z) manager_scheme" where
  "manager_subscribe isActive fill i m =
     (case (if isActive then send isActive (fill i m) new_variable else (Ret (), new_variable)) of
        (Ret _, x) \<Rightarrow> (Ret (), m\<lparr>asyncVariables := insert_variable i x (asyncVariables m)\<rparr>)
      | (r, x) \<Rightarrow> (r, m))"

section \<open>The two distributors\<close>

definition variable_fill :: "('d, 'b, 'h) async_env \<Rightarrow> 'b \<Rightarrow> nat \<Rightarrow> 'd manager \<Rightarrow> 'd \<times> version_number \<times> data_validity" where
  "variable_fill E data i m = (sourceValue E data i, currentVersion m, ok)"

definition variable_distribute ::
  "('d, 'b, 'h) async_env \<Rightarrow> bool \<Rightarrow> 'b \<Rightarrow> version_number \<Rightarrow> 'd manager \<times> 'h async_world \<Rightarrow>
     version_number outcome \<times> 'd manager \<times> 'h async_world" where
  "variable_distribute E isActive data version s =
     (let (m, w) = s in
      if \<not> isActive then (Ret version, s)
      else (case sendAll isActive (\<lambda>i. lastOwner E i (device w)) (variable_fill E data) (m\<lparr>currentVersion := version\<rparr>) of
          (r, m) \<Rightarrow> andThen (r, (m, w)) (\<lambda>_ s. (Ret (currentVersion (fst s)), s))))"

text \<open>\<open>TriggeredPollDistributor::prepareIntermediateBuffers\<close>\<close>

definition prepareIntermediateBuffers ::
  "('d, 'b, 'h) async_env \<Rightarrow> nat list \<Rightarrow> 'd poll_distributor \<times> 'h async_world \<Rightarrow>
     bool outcome \<times> 'd poll_distributor \<times> 'h async_world" where
  "prepareIntermediateBuffers E i s =
     (let (m, w) = s in
      case readGroup E i (device w) of
        (Throw x, h) \<Rightarrow> (if is_runtime_error x then Ret False else Throw x, (m, w\<lparr>device := h\<rparr>))
      | (NoReturn, h) \<Rightarrow> (NoReturn, (m, w\<lparr>device := h\<rparr>))
      | (Terminated, h) \<Rightarrow> (Terminated, (m, w\<lparr>device := h\<rparr>))
      | (Ret _, h) \<Rightarrow>
          let w = w\<lparr>device := h\<rparr> in
          (case dataConsistencyRealm m of
             None \<Rightarrow> (Ret True, (m, w))
           | Some name \<Rightarrow>
               let (newVersion, r, g) = getVersion (keyValue E i h) (realms w name) (lastGenerated w);
                   w = w\<lparr>realms := (realms w)(name := r), lastGenerated := g\<rparr>
               in if newVersion \<ge> lastVersion m
                  then (Ret True, (m\<lparr>currentVersion := newVersion, lastVersion := newVersion, forceFaulty := False\<rparr>, w))
                  else (Ret True, (m\<lparr>currentVersion := lastVersion m, forceFaulty := True\<rparr>, w))))"

definition poll_fill ::
  "('d, 'b, 'h) async_env \<Rightarrow> nat list \<Rightarrow> 'h \<Rightarrow> nat \<Rightarrow> 'd poll_distributor \<Rightarrow> 'd \<times> version_number \<times> data_validity" where
  "poll_fill E i h n m =
     (let (d, validity) = syncBuffer E i n h in (d, currentVersion m, if \<not> forceFaulty m then validity else faulty))"

definition poll_distribute ::
  "('d, 'b, 'h) async_env \<Rightarrow> bool \<Rightarrow> nat list \<Rightarrow> version_number \<Rightarrow> 'd poll_distributor \<times> 'h async_world \<Rightarrow>
     version_number outcome \<times> 'd poll_distributor \<times> 'h async_world" where
  "poll_distribute E isActive i version s =
     (let (m, w) = s in
      if \<not> isActive then (Ret version, s)
      else
        andThen (prepareIntermediateBuffers E i (m\<lparr>currentVersion := version\<rparr>, w)) (\<lambda>ready s.
          let (m, w) = s in
          if ready then
            (case sendAll isActive (\<lambda>n. lastOwner E n (device w)) (poll_fill E i (device w)) m of
               (r, m) \<Rightarrow> andThen (r, (m, w)) (\<lambda>_ s. (Ret (currentVersion (fst s)), s)))
          else (Ret (currentVersion m), s)))"

definition new_manager :: "'d manager" where
  "new_manager = \<lparr>asyncVariables = [], delayedUnsubscriptions = [], isHoldingDomainLock = False, currentVersion = nullVersion\<rparr>"

text \<open>\<open>realm\<close> is the realm the catalogue of the backend names for the sub domain.\<close>

definition new_poll_distributor :: "string option \<Rightarrow> 'd poll_distributor" where
  "new_poll_distributor realm =
     \<lparr>asyncVariables = [], delayedUnsubscriptions = [], isHoldingDomainLock = False, currentVersion = nullVersion,
      dataConsistencyRealm = realm, forceFaulty = False, lastVersion = nullVersion\<rparr>"

section \<open>Distribution to all subscribers\<close>

text \<open>
  What is expected of a distribution: every accessor that exists gets the data, those that go
  away meanwhile are unsubscribed, and nobody else is touched.
\<close>

definition sent :: "bool \<Rightarrow> (nat \<Rightarrow> 'd \<times> version_number \<times> data_validity) \<Rightarrow> nat \<times> 'd async_variable \<Rightarrow> nat \<times> 'd async_variable" where
  "sent isActive data p = (fst p, snd (send isActive (data (fst p)) (snd p)))"

definition stays :: "(nat \<Rightarrow> bool) \<Rightarrow> nat \<times> 'd async_variable \<Rightarrow> bool" where
  "stays isLast p = (\<not> (subscribed (snd p) \<and> isLast (fst p)))"

definition idle :: "('d, 'z) manager_scheme \<Rightarrow> bool" where
  "idle m = (\<not> isHoldingDomainLock m \<and> delayedUnsubscriptions m = [] \<and> distinct (map fst (asyncVariables m)))"

definition stable_fill :: "(nat \<Rightarrow> ('d, 'z) manager_scheme \<Rightarrow> 'x) \<Rightarrow> bool" where
  "stable_fill fill = (\<forall>i m a b c. fill i (m\<lparr>asyncVariables := a, delayedUnsubscriptions := b, isHoldingDomainLock := c\<rparr>) = fill i m)"

lemma fills_stable: "stable_fill (variable_fill E data)" "stable_fill (poll_fill E i h)"
  by (simp_all add: stable_fill_def variable_fill_def poll_fill_def)

lemma map_of_middle: "distinct (map fst (xs @ (i, x) # ys)) \<Longrightarrow> map_of (xs @ (i, x) # ys) i = Some x"
  by (rule map_of_is_SomeI) auto

lemma setVariable_middle:
  "distinct (map fst (xs @ (i, x) # ys)) \<Longrightarrow>
   setVariable i y (m\<lparr>asyncVariables := xs @ (i, x) # ys\<rparr>) = m\<lparr>asyncVariables := xs @ (i, y) # ys\<rparr>"
proof -
  assume d: "distinct (map fst (xs @ (i, x) # ys))"
  have "map (\<lambda>p. if fst p = i then (i, y) else p) zs = zs" if "i \<notin> fst ` set zs" for zs
    using that by (intro map_idI) auto
  from this[of xs] this[of ys] d show ?thesis by (simp add: setVariable_def)
qed

definition sent_or_gone ::
  "bool \<Rightarrow> (nat \<Rightarrow> bool) \<Rightarrow> (nat \<Rightarrow> 'd \<times> version_number \<times> data_validity) \<Rightarrow> nat \<times> 'd async_variable \<Rightarrow> nat \<times> 'd async_variable" where
  "sent_or_gone isActive isLast data p =
     (if stays isLast p then sent isActive data p else (fst p, (snd (sent isActive data p))\<lparr>subscribed := False\<rparr>))"

lemma sendAll_loop:
  assumes "stable_fill fill" "distinct (map fst (xs @ ys))"
    and "\<forall>(i, x)\<in>set ys. lastSentVersion x \<le> fst (snd (fill i m))"
  shows "forEach (sendOne isActive isLast fill) (map fst ys)
      (m\<lparr>asyncVariables := xs @ ys, delayedUnsubscriptions := ds, isHoldingDomainLock := False\<rparr>) =
    (Ret (), m\<lparr>asyncVariables := xs @ map (sent_or_gone isActive isLast (\<lambda>i. fill i m)) ys,
      delayedUnsubscriptions := ds @ map fst (filter (\<lambda>p. \<not> stays isLast p) ys), isHoldingDomainLock := False\<rparr>)"
  using assms(2,3)
proof (induction ys arbitrary: xs ds)
  case (Cons p ys)
  obtain i x where p: "p = (i, x)" by fastforce
  let ?m = "m\<lparr>asyncVariables := xs @ p # ys, delayedUnsubscriptions := ds, isHoldingDomainLock := False\<rparr>"
  let ?p' = "sent_or_gone isActive isLast (\<lambda>i. fill i m) p"
  let ?ds = "ds @ map fst (filter (\<lambda>p. \<not> stays isLast p) [p])"
  have f: "fill i ?m = fill i m" using assms(1) by (simp add: stable_fill_def)
  have "\<not> lastSentVersion x > fst (snd (fill i m))" using Cons.prems(2) p by auto
  then obtain y where y: "send isActive (fill i m) x = (Ret (), y)" by (simp add: send_def Let_def)
  have d: "distinct (map fst (xs @ (i, x) # ys))" using Cons.prems(1) p by simp
  have sub: "subscribed y = subscribed x" using y by (auto simp: send_def Let_def sendDestructively_def split: if_splits)
  have "sendOne isActive isLast fill i ?m =
      (Ret (), m\<lparr>asyncVariables := xs @ ?p' # ys, delayedUnsubscriptions := ?ds, isHoldingDomainLock := False\<rparr>)"
  proof -
    let ?h = "m\<lparr>delayedUnsubscriptions := ds, isHoldingDomainLock := True\<rparr>"
    have h: "?m\<lparr>isHoldingDomainLock := True\<rparr> = ?h\<lparr>asyncVariables := xs @ (i, x) # ys\<rparr>" by (simp add: p)
    have set: "setVariable i z (?h\<lparr>asyncVariables := xs @ (i, x) # ys\<rparr>) = ?h\<lparr>asyncVariables := xs @ (i, z) # ys\<rparr>" for z
      by (rule setVariable_middle[OF d])
    have look: "map_of (asyncVariables (?h\<lparr>asyncVariables := xs @ (i, x) # ys\<rparr>)) i = Some x" using map_of_middle[OF d] by simp
    show ?thesis
    proof (cases "stays isLast p")
      case True
      then show ?thesis unfolding sendOne_def Let_def f h withSubscriber_def look y option.case prod.case set
        using p y by (auto simp: stays_def sent_or_gone_def sent_def)
    next
      case False
      then show ?thesis unfolding sendOne_def Let_def f h withSubscriber_def look y option.case prod.case set
        using p y by (simp add: stays_def sent_or_gone_def sent_def unsubscribe_def)
    qed
  qed
  moreover have "fst ?p' = i" by (simp add: p sent_or_gone_def sent_def)
  ultimately show ?case using Cons.IH[of "xs @ [?p']" ?ds] Cons.prems p by simp
qed simp

lemma fold_unsubscribe: "fold unsubscribeImpl ds m = m\<lparr>asyncVariables := filter (\<lambda>p. fst p \<notin> set ds) (asyncVariables m)\<rparr>"
proof (induction ds arbitrary: m)
  case (Cons d ds)
  have "filter (\<lambda>p. fst p \<notin> set ds) (filter (\<lambda>p. fst p \<noteq> d) xs) = filter (\<lambda>p. fst p \<notin> set (d # ds)) xs" for xs :: "(nat \<times> 'a async_variable) list"
    by (auto intro: filter_cong)
  then show ?case using Cons[of "unsubscribeImpl d m"] by (simp add: unsubscribeImpl_def)
qed simp

lemma sendAll_result:
  assumes fill: "stable_fill fill" and m: "idle m"
    and v: "\<forall>(i, x)\<in>set (asyncVariables m). lastSentVersion x \<le> fst (snd (fill i m))"
  shows "sendAll isActive isLast fill m =
    (Ret (), m\<lparr>asyncVariables := map (sent isActive (\<lambda>i. fill i m)) (filter (stays isLast) (asyncVariables m))\<rparr>)"
proof -
  let ?xs = "asyncVariables m" and ?after = "sent_or_gone isActive isLast (\<lambda>i. fill i m)"
  have d: "distinct (map fst ?xs)" and m0: "m = m\<lparr>asyncVariables := [] @ ?xs, delayedUnsubscriptions := [], isHoldingDomainLock := False\<rparr>"
    using m by (simp_all add: idle_def)
  have loop: "forEach (sendOne isActive isLast fill) (map fst ?xs) m =
      (Ret (), m\<lparr>asyncVariables := map ?after ?xs, delayedUnsubscriptions := map fst (filter (\<lambda>p. \<not> stays isLast p) ?xs),
        isHoldingDomainLock := False\<rparr>)"
    using sendAll_loop[OF fill, of "[]" ?xs m isActive isLast "[]"] d v m0 by simp
  have eq: "fst p \<in> fst ` {p \<in> set ?xs. \<not> stays isLast p} \<longleftrightarrow> \<not> stays isLast p" if "p \<in> set ?xs" for p
    using that d inj_on_image_mem_iff[of fst "set ?xs" p "{p \<in> set ?xs. \<not> stays isLast p}"] by (auto simp: distinct_map)
  have "filter (\<lambda>p. fst p \<notin> fst ` {p \<in> set ?xs. \<not> stays isLast p}) (map ?after ?xs) =
      map ?after (filter (\<lambda>p. fst (?after p) \<notin> fst ` {p \<in> set ?xs. \<not> stays isLast p}) ?xs)"
    by (simp add: filter_map comp_def)
  also have "\<dots> = map ?after (filter (stays isLast) ?xs)"
    using eq by (intro arg_cong[where f = "map ?after"] filter_cong) (auto simp: sent_or_gone_def sent_def)
  also have "\<dots> = map (sent isActive (\<lambda>i. fill i m)) (filter (stays isLast) ?xs)"
    by (auto simp: sent_or_gone_def)
  finally have "filter (\<lambda>p. fst p \<notin> fst ` {p \<in> set ?xs. \<not> stays isLast p}) (map ?after ?xs) =
      map (sent isActive (\<lambda>i. fill i m)) (filter (stays isLast) ?xs)" .
  then show ?thesis using loop m by (cases m) (simp add: sendAll_def runDelayed_def fold_unsubscribe idle_def)
qed

end
