(* ===== verification/Strings.thy ===== *)
theory Strings
  imports Prelude "HOL-Library.Sublist"
begin

text \<open>
  The functions of \<^verbatim>\<open>std::string\<close> and of boost's string algorithms the code uses, on
  strings as lists of characters.  \<open>None\<close> is \<open>npos\<close>.
\<close>

section \<open>std::string\<close>

text \<open>\<open>s.find(needle)\<close>\<close>

fun strFind :: "string \<Rightarrow> string \<Rightarrow> nat option" where
  "strFind needle [] = (if needle = [] then Some 0 else None)"
| "strFind needle (c # s) = (if prefix needle (c # s) then Some 0 else map_option Suc (strFind needle s))"

text \<open>\<open>find_first_of\<close> and \<open>find_last_of\<close> look for any of the characters.\<close>

fun findFirst :: "char set \<Rightarrow> string \<Rightarrow> nat option" where
  "findFirst cs [] = None"
| "findFirst cs (c # s) = (if c \<in> cs then Some 0 else map_option Suc (findFirst cs s))"

definition findFirstOf :: "char set \<Rightarrow> nat \<Rightarrow> string \<Rightarrow> nat option" where
  "findFirstOf cs from s = map_option ((+) from) (findFirst cs (drop from s))"

definition findLastOf :: "char set \<Rightarrow> string \<Rightarrow> nat option" where
  "findLastOf cs s = map_option (\<lambda>i. length s - 1 - i) (findFirst cs (rev s))"

definition substr :: "nat \<Rightarrow> nat \<Rightarrow> string \<Rightarrow> string" where
  "substr pos n s = take n (drop pos s)"

definition eraseAt :: "nat \<Rightarrow> string \<Rightarrow> string" where
  "eraseAt pos s = take pos s @ drop (Suc pos) s"

text \<open>\<open>s.replace(pos, 1, r)\<close>\<close>

definition replaceAt :: "nat \<Rightarrow> string \<Rightarrow> string \<Rightarrow> string" where
  "replaceAt pos r s = take pos s @ r @ drop (Suc pos) s"

text \<open>\<open>operator<\<close> compares the characters as unsigned numbers.\<close>

fun str_less :: "string \<Rightarrow> string \<Rightarrow> bool" where
  "str_less _ [] = False"
| "str_less [] (_ # _) = True"
| "str_less (a # as) (b # bs) =
     ((of_char a :: nat) < of_char b \<or> a = b \<and> str_less as bs)"

text \<open>\<open>std::to_string\<close> of a signed integer\<close>

definition to_string :: "int \<Rightarrow> string" where
  "to_string i = (if i < 0 then CHR ''-'' # decimal (nat (- i)) else decimal (nat i))"

section \<open>boost\<close>

definition is_space :: "char \<Rightarrow> bool" where
  "is_space c = (c \<in> {CHR '' '', CHR 0x09, CHR 0x0A, CHR 0x0B, CHR 0x0C, CHR 0x0D})"

definition is_digit :: "char \<Rightarrow> bool" where
  "is_digit c = (48 \<le> (of_char c :: nat) \<and> (of_char c :: nat) \<le> 57)"

definition is_alnum :: "char \<Rightarrow> bool" where
  "is_alnum c = (let n = of_char c :: nat in 48 \<le> n \<and> n \<le> 57 \<or> 65 \<le> n \<and> n \<le> 90 \<or> 97 \<le> n \<and> n \<le> 122)"

definition trim :: "string \<Rightarrow> string" where
  "trim s = rev (dropWhile is_space (rev (dropWhile is_space s)))"

text \<open>\<open>boost::split\<close> without token compression: adjacent separators give empty tokens.\<close>

fun splitOn :: "(char \<Rightarrow> bool) \<Rightarrow> string \<Rightarrow> string list" where
  "splitOn sep [] = [[]]"
| "splitOn sep (c # s) =
     (if sep c then [] # splitOn sep s
      else (case splitOn sep s of t # ts \<Rightarrow> (c # t) # ts | [] \<Rightarrow> [[c]]))"

section \<open>Facts\<close>

lemma strFind_None_iff: "strFind needle s = None \<longleftrightarrow> \<not> sublist needle s"
  by (induction s) (auto simp: sublist_Cons_right)

lemma strFind_Some:
  assumes "strFind needle s = Some i"
  shows "prefix needle (drop i s) \<and> i + length needle \<le> length s"
  using assms
proof (induction s arbitrary: i)
  case (Cons c s)
  then show ?case by (auto split: if_splits dest: prefix_length_le)
qed (auto split: if_splits)

lemma strFind_Some_nth:
  assumes "strFind needle s = Some i" "needle \<noteq> []"
  shows "i < length s \<and> s ! i = hd needle"
proof -
  note p = strFind_Some[OF assms(1)]
  then have "i < length s" using assms(2) by (cases needle) auto
  moreover have "s ! i = hd needle"
    using p assms(2) hd_drop_conv_nth[OF \<open>i < length s\<close>] by (cases needle) (auto simp: prefix_def)
  ultimately show ?thesis by simp
qed

lemma strFind_single: "strFind [c] s = findFirst {c} s"
  by (induction s) auto

lemma findFirst_None: "findFirst cs s = None \<longleftrightarrow> set s \<inter> cs = {}"
  by (induction s) auto

lemma findFirst_append:
  "findFirst cs s = Some i \<Longrightarrow> findFirst cs (s @ t) = Some i"
  "set s \<inter> cs = {} \<Longrightarrow> findFirst cs (s @ t) = map_option ((+) (length s)) (findFirst cs t)"
proof -
  show "findFirst cs s = Some i \<Longrightarrow> findFirst cs (s @ t) = Some i"
    by (induction s arbitrary: i) (auto split: if_splits)
  show "set s \<inter> cs = {} \<Longrightarrow> findFirst cs (s @ t) = map_option ((+) (length s)) (findFirst cs t)"
  proof (induction s)
    case Nil
    then show ?case by (simp add: option.map_ident)
  next
    case (Cons a s)
    then show ?case by (simp add: option.map_comp comp_def)
  qed
qed

lemma findFirst_Some:
  "findFirst cs s = Some i \<Longrightarrow> i < length s \<and> s ! i \<in> cs \<and> set (take i s) \<inter> cs = {}"
  by (induction s arbitrary: i) (auto split: if_splits simp: less_Suc_eq_0_disj)

lemma findFirstOf_Some:
  "findFirstOf cs from s = Some i \<Longrightarrow> from \<le> i \<and> i < length s"
  by (auto simp: findFirstOf_def dest!: findFirst_Some)

lemma splitOn_not_Nil [simp]: "splitOn sep s \<noteq> []"
  by (induction s) (auto split: list.splits)

lemma splitOn_append:
  "sep c \<Longrightarrow> splitOn sep (s @ c # t) = splitOn sep s @ splitOn sep t"
  by (induction s) (auto split: list.splits)

lemma splitOn_no_sep: "\<forall>c\<in>set s. \<not> sep c \<Longrightarrow> splitOn sep s = [s]"
  by (induction s) auto

lemma splitOn_fields: "t \<in> set (splitOn sep s) \<Longrightarrow> c \<in> set t \<Longrightarrow> \<not> sep c"
proof (induction s arbitrary: t)
  case (Cons a s)
  obtain u us where s: "splitOn sep s = u # us" by (meson list.exhaust splitOn_not_Nil)
  then have "c \<in> set u \<Longrightarrow> \<not> sep c" "t \<in> set us \<Longrightarrow> c \<in> set t \<Longrightarrow> \<not> sep c" using Cons.IH by auto
  with Cons.prems s show ?case by (auto split: if_splits)
qed simp

text \<open>The fields with a separator in front of each give the text back.\<close>

lemma concat_splitOn: "sep = (\<lambda>x. x = c) \<Longrightarrow> concat (map ((#) c) (splitOn sep s)) = c # s"
proof (induction s)
  case (Cons a s)
  then show ?case by (cases "splitOn sep s") auto
qed simp

lemma dropWhile_no_space: "\<forall>c\<in>set s. \<not> is_space c \<Longrightarrow> dropWhile is_space s = s"
  by (cases s) auto

lemma trim_no_space: "\<forall>c\<in>set s. \<not> is_space c \<Longrightarrow> trim s = s"
  by (simp add: trim_def dropWhile_no_space)

lemma trim_idem [simp]: "trim (trim s) = trim s"
proof -
  let ?t = "dropWhile is_space s"
  have "dropWhile is_space (trim s) = trim s"
  proof (cases "dropWhile is_space (rev ?t)")
    case Nil
    then have "trim s = []" unfolding trim_def by (simp only: rev.simps)
    then show ?thesis by simp
  next
    case (Cons x xs)
    obtain ys where ys: "rev ?t = ys @ x # xs" using Cons takeWhile_dropWhile_id by metis
    then have t: "?t = rev (x # xs) @ rev ys" by (metis rev_append rev_rev_ident)
    have "rev (x # xs) \<noteq> []" by simp
    then have "hd (rev (x # xs)) = hd ?t" using t by (metis hd_append2)
    moreover have "?t \<noteq> []" using t by auto
    then have "\<not> is_space (hd ?t)" by (rule hd_dropWhile)
    moreover have "trim s = rev (x # xs)" using Cons by (simp add: trim_def)
    ultimately show ?thesis by (metis dropWhile_eq_self_iff)
  qed
  then show ?thesis by (simp add: trim_def)
qed

lemma str_less_total: "\<not> str_less a b \<Longrightarrow> \<not> str_less b a \<Longrightarrow> a = b"
proof (induction a b rule: str_less.induct)
  case (1 a)
  then show ?case by (cases a) auto
next
  case (3 a as b bs)
  then have "(of_char a :: nat) = of_char b" by auto
  then have "a = b" by simp
  with 3 show ?case by auto
qed auto

lemma str_less_irrefl [simp]: "\<not> str_less a a"
  by (induction a) auto

text \<open>Words separated by white space, as \<open>operator>>\<close> reads them from a stream.\<close>

definition stream_words :: "string \<Rightarrow> string list" where
  "stream_words s = filter (\<lambda>t. t \<noteq> []) (splitOn is_space s)"

definition is_word :: "string \<Rightarrow> bool" where
  "is_word s = (s \<noteq> [] \<and> (\<forall>c\<in>set s. \<not> is_space c))"

lemma stream_words_append: "is_space c \<Longrightarrow> stream_words (s @ c # t) = stream_words s @ stream_words t"
  by (simp add: stream_words_def splitOn_append)

lemma stream_words_word: "is_word s \<Longrightarrow> stream_words s = [s]"
  by (simp add: stream_words_def is_word_def splitOn_no_sep)

end
