(* ===== verification/InterruptControllers.thy ===== *)
theory InterruptControllers
  imports AsyncVariables Strings
begin

text \<open>
  \<^verbatim>\<open>src/async/GenericMuxedInterruptDistributor.cc\<close>: the options of an interrupt controller, the
  choice of its registers and the handshake with it.  Parsing JSON is third-party code
  (\<open>json_api\<close>); the registers are written and read through \<open>async_env\<close>, named by their option.
\<close>

section \<open>Options\<close>

datatype option_code = ISR | IER | MER | MIE | GIE | ICR | IAR | IPR | SIE | CIE | IMaskR | IModeR | IVR | ILR | IVAR | IVEAR
  | INVALID_OPTION_CODE

definition OptionCodeMap :: "(string \<times> option_code) list" where
  "OptionCodeMap =
     [(''SIE'', SIE), (''IER'', IER), (''MER'', MER), (''MIE'', MIE), (''GIE'', GIE), (''ISR'', ISR), (''ICR'', ICR),
      (''IAR'', IAR), (''IPR'', IPR), (''CIE'', CIE), (''IMR'', IMaskR), (''IModeR'', IModeR), (''ILR'', ILR), (''IVR'', IVR),
      (''IVAR'', IVAR), (''IVEAR'', IVEAR), (''INVALID_OPTION_CODE'', INVALID_OPTION_CODE)]"

definition getOptionRegisterEnum :: "string \<Rightarrow> option_code" where
  "getOptionRegisterEnum opt = (case map_of OptionCodeMap opt of Some c \<Rightarrow> c | None \<Rightarrow> INVALID_OPTION_CODE)"

definition getOptionRegisterStr :: "option_code \<Rightarrow> string" where
  "getOptionRegisterStr c =
     (case map_of (map (\<lambda>(s, c). (c, s)) OptionCodeMap) c of Some s \<Rightarrow> s | None \<Rightarrow> ''INVALID_OPTION_CODE'')"

text \<open>\<open>0x1U << i\<close>; the index is below 32.\<close>

definition iToMask :: "nat \<Rightarrow> 32 word" where
  "iToMask i = push_bit i 1"

text \<open>Reading the description: \<open>None\<close> stands for an exception of the library.\<close>

record 'j json_api =
  json_parse :: "string \<Rightarrow> 'j option"
  json_keys :: "'j \<Rightarrow> string list"
  json_string :: "string \<Rightarrow> 'j \<Rightarrow> string option"
  json_int :: "string \<Rightarrow> int \<Rightarrow> 'j \<Rightarrow> int option"
  json_strings :: "string \<Rightarrow> string list \<Rightarrow> 'j \<Rightarrow> string list option"

definition parseAndValidateJsonDescriptionStrV0 :: "'j json_api \<Rightarrow> string \<Rightarrow> (option_code set \<times> string) outcome" where
  "parseAndValidateJsonDescriptionStrV0 J descriptionJsonStr =
     (case json_parse J descriptionJsonStr of
        None \<Rightarrow> Throw (LogicError (''unable to parse map file json snippet '' @ descriptionJsonStr))
      | Some j \<Rightarrow>
          if \<not> list_all (\<lambda>k. k \<in> {''path'', ''options'', ''version''}) (json_keys J j)
            then Throw (LogicError ''Unknown JSON key'')
          else (case json_string J ''path'' j of
            None \<Rightarrow> Throw (LogicError ''Map file json register path key error'')
          | Some registerPath \<Rightarrow>
              (case json_int J ''version'' 1 j of
                 None \<Rightarrow> Throw (LogicError ''Map file json version key error'')
               | Some version \<Rightarrow>
                   if version \<noteq> 1 then Throw (LogicError ''unexpected version of the JSON descriptor'')
                   else (case json_strings J ''options'' [''ISR'', ''IER''] j of
                       None \<Rightarrow> Throw (LogicError ''Map file json options key error'')
                     | Some names \<Rightarrow>
                         if list_ex (\<lambda>n. getOptionRegisterEnum n = INVALID_OPTION_CODE) names
                         then Throw (LogicError ''Invalid register options'')
                         else Ret (set (map getOptionRegisterEnum names), registerPath)))))"

text \<open>The checks, in their order.\<close>

definition option_checks :: "option_code set \<Rightarrow> (bool \<times> string) list" where
  "option_checks opts =
     [((SIE \<in> opts) \<noteq> (CIE \<in> opts), ''Only SIE or CIE is set, but not both''),
      (IMaskR \<in> opts \<and> SIE \<in> opts, ''SIE and IMR cannot not both be set''),
      (IMaskR \<in> opts \<and> CIE \<in> opts, ''CIE and IMR cannot not both be set''),
      (ICR \<in> opts \<and> IAR \<in> opts, ''ICR and IAR cannot not both be set''),
      (IMaskR \<in> opts \<and> IER \<in> opts, ''IMR and IER cannot not both be set''),
      (\<not> (IMaskR \<in> opts \<or> IER \<in> opts), ''Neither IMR nor IER are set''),
      (1 < of_bool (MIE \<in> opts) + of_bool (GIE \<in> opts) + (of_bool (MER \<in> opts) :: nat), ''Only one out of MIE, GIE and MER can be set''),
      (IModeR \<in> opts, ''IModeR is not allowed''),
      (IVEAR \<in> opts \<or> IVAR \<in> opts \<or> IVR \<in> opts \<or> ILR \<in> opts \<or> IModeR \<in> opts, ''ILR, IVR, IVAR and IVEAR are not allowed''),
      (IMaskR \<in> opts, ''IMR is not allowed''),
      (ISR \<notin> opts, ''ISR is required'')]"

definition steriliseOptionRegisterSettings :: "option_code set \<Rightarrow> unit outcome" where
  "steriliseOptionRegisterSettings opts =
     (case List.find fst (option_checks opts) of None \<Rightarrow> Ret () | Some (_, reason) \<Rightarrow> Throw (LogicError reason))"

section \<open>The controller\<close>

record interrupt_controller =
  ierIsReallyImaskr :: bool
  haveSieAndCie :: bool
  hasMer :: bool
  activeInterrupts :: "32 word"
  isr_register :: option_code
  ier_register :: option_code
  icr_register :: option_code
  mer_register :: "option_code option"

text \<open>
  The constructor.  \<open>catalogue\<close> tells whether a register can be read and written; there is no
  accessor to a register that it does not have.
\<close>

definition withRequired :: "option_code set \<Rightarrow> option_code set" where
  "withRequired opts = insert ISR (if IMaskR \<in> opts then opts else insert IER opts)"

definition needAccessors :: "(option_code \<Rightarrow> (bool \<times> bool) option) \<Rightarrow> option_code list \<Rightarrow> unit outcome" where
  "needAccessors catalogue regs =
     (if list_all (\<lambda>r. catalogue r \<noteq> None) regs then Ret () else Throw (LogicError ''unknown register''))"

definition needReadable :: "(option_code \<Rightarrow> (bool \<times> bool) option) \<Rightarrow> option_code list \<Rightarrow> unit outcome" where
  "needReadable catalogue regs =
     (if list_all (\<lambda>r. map_option fst (catalogue r) = Some True) regs then Ret ()
      else Throw (LogicError ''Handshake register not readable''))"

definition needWriteable :: "(option_code \<Rightarrow> (bool \<times> bool) option) \<Rightarrow> option_code list \<Rightarrow> unit outcome" where
  "needWriteable catalogue regs =
     (if list_all (\<lambda>r. map_option snd (catalogue r) = Some True) regs then Ret ()
      else Throw (LogicError ''Handshake register not writeable''))"

definition choose_registers :: "option_code set \<Rightarrow> interrupt_controller" where
  "choose_registers opts =
     \<lparr>ierIsReallyImaskr = IMaskR \<in> opts, haveSieAndCie = SIE \<in> opts,
      hasMer = MER \<in> opts \<or> MIE \<in> opts \<or> GIE \<in> opts, activeInterrupts = 0, isr_register = ISR,
      ier_register = (if IMaskR \<in> opts then IMaskR else IER),
      icr_register = (if ICR \<in> opts then ICR else if IAR \<in> opts then IAR else ISR),
      mer_register = (if MER \<in> opts \<or> MIE \<in> opts \<or> GIE \<in> opts
        then Some (if MIE \<in> opts then MIE else if GIE \<in> opts then GIE else MER) else None)\<rparr>"

definition sie_cie :: "interrupt_controller \<Rightarrow> option_code list" where
  "sie_cie c = (if haveSieAndCie c then [SIE, CIE] else [])"

definition new_controller ::
  "(option_code \<Rightarrow> (bool \<times> bool) option) \<Rightarrow> option_code set \<Rightarrow> interrupt_controller outcome" where
  "new_controller catalogue optionRegisterSettings =
     (let opts = withRequired optionRegisterSettings; c = choose_registers opts;
          mer = (case mer_register c of None \<Rightarrow> [] | Some r \<Rightarrow> [r]) in
      bindO (steriliseOptionRegisterSettings opts) (\<lambda>_.
      bindO (needAccessors catalogue ([isr_register c, ier_register c, icr_register c] @ mer @ sie_cie c)) (\<lambda>_.
      bindO (needReadable catalogue [isr_register c]) (\<lambda>_.
      bindO (needWriteable catalogue ([ier_register c, icr_register c] @ mer @ sie_cie c)) (\<lambda>_. Ret c)))))"

definition create_controller ::
  "'j json_api \<Rightarrow> (string \<Rightarrow> option_code \<Rightarrow> (bool \<times> bool) option) \<Rightarrow> string \<Rightarrow> (string \<times> interrupt_controller) outcome" where
  "create_controller J catalogue description =
     bindO (parseAndValidateJsonDescriptionStrV0 J description) (\<lambda>(opts, registerPath).
     bindO (new_controller (catalogue registerPath) opts) (\<lambda>c. Ret (registerPath, c)))"

section \<open>The handshake\<close>

text \<open>\<open>try { ... } catch(runtime_error&) {}\<close>\<close>

definition ignoreRuntimeError :: "unit outcome \<times> 's \<Rightarrow> unit outcome \<times> 's" where
  "ignoreRuntimeError r = (case r of (Throw x, s) \<Rightarrow> (if is_runtime_error x then Ret () else Throw x, s) | p \<Rightarrow> p)"

definition write_reg ::
  "('d, 'b, 'h) async_env \<Rightarrow> nat list \<Rightarrow> option_code \<Rightarrow> 32 word \<Rightarrow> interrupt_controller \<times> 'h \<Rightarrow>
     unit outcome \<times> interrupt_controller \<times> 'h" where
  "write_reg E i r x s = (case writeRegister E i (getOptionRegisterStr r) x (snd s) of (o', h) \<Rightarrow> (o', (fst s, h)))"

definition clearInterruptsFromMask ::
  "('d, 'b, 'h) async_env \<Rightarrow> nat list \<Rightarrow> 32 word \<Rightarrow> interrupt_controller \<times> 'h \<Rightarrow>
     unit outcome \<times> interrupt_controller \<times> 'h" where
  "clearInterruptsFromMask E i bits s = ignoreRuntimeError (write_reg E i (icr_register (fst s)) bits s)"

definition clearAllEnabledInterrupts ::
  "('d, 'b, 'h) async_env \<Rightarrow> nat list \<Rightarrow> interrupt_controller \<times> 'h \<Rightarrow> unit outcome \<times> interrupt_controller \<times> 'h" where
  "clearAllEnabledInterrupts E i s = clearInterruptsFromMask E i (activeInterrupts (fst s)) s"

definition clearOneInterrupt ::
  "('d, 'b, 'h) async_env \<Rightarrow> nat list \<Rightarrow> nat \<Rightarrow> interrupt_controller \<times> 'h \<Rightarrow> unit outcome \<times> interrupt_controller \<times> 'h" where
  "clearOneInterrupt E i n s = clearInterruptsFromMask E i (iToMask n) s"

definition setActiveInterrupts :: "32 word \<Rightarrow> interrupt_controller \<times> 'h \<Rightarrow> interrupt_controller \<times> 'h" where
  "setActiveInterrupts x s = ((fst s)\<lparr>activeInterrupts := x\<rparr>, snd s)"

definition disableInterruptsFromMask ::
  "('d, 'b, 'h) async_env \<Rightarrow> nat list \<Rightarrow> 32 word \<Rightarrow> interrupt_controller \<times> 'h \<Rightarrow>
     unit outcome \<times> interrupt_controller \<times> 'h" where
  "disableInterruptsFromMask E i bits s =
     (let active = activeInterrupts (fst s) AND NOT bits; s = setActiveInterrupts active s; c = fst s in
      ignoreRuntimeError
        (andThen (if ierIsReallyImaskr c then write_reg E i (ier_register c) (NOT active) s
                  else if haveSieAndCie c then write_reg E i CIE bits s
                  else write_reg E i (ier_register c) active s)
           (\<lambda>_. clearInterruptsFromMask E i bits)))"

definition enableInterruptsFromMask ::
  "('d, 'b, 'h) async_env \<Rightarrow> nat list \<Rightarrow> 32 word \<Rightarrow> interrupt_controller \<times> 'h \<Rightarrow>
     unit outcome \<times> interrupt_controller \<times> 'h" where
  "enableInterruptsFromMask E i bits s =
     (let active = activeInterrupts (fst s) OR bits; s = setActiveInterrupts active s; c = fst s in
      ignoreRuntimeError
        (if ierIsReallyImaskr c then write_reg E i (ier_register c) (NOT active) s
         else if haveSieAndCie c then write_reg E i SIE active s
         else write_reg E i (ier_register c) active s))"

text \<open>The destructor, with \<open>functional\<close> as \<open>isFunctional()\<close> of the backend.\<close>

definition destroy_controller ::
  "('d, 'b, 'h) async_env \<Rightarrow> bool \<Rightarrow> nat list \<Rightarrow> interrupt_controller \<times> 'h \<Rightarrow> unit outcome \<times> interrupt_controller \<times> 'h" where
  "destroy_controller E functional i s =
     (if functional then
        (case disableInterruptsFromMask E i (activeInterrupts (fst s)) s of
           (Throw x, s) \<Rightarrow> (Terminated, s) | p \<Rightarrow> p)
      else (Ret (), s))"

text \<open>The part of \<open>activate\<close> and \<open>activateSubDomain\<close> before the sub domains are activated.\<close>

definition activate_controller ::
  "('d, 'b, 'h) async_env \<Rightarrow> nat list \<Rightarrow> nat list \<Rightarrow> interrupt_controller \<times> 'h \<Rightarrow> unit outcome \<times> interrupt_controller \<times> 'h" where
  "activate_controller E i existing s =
     andThen (case mer_register (fst s) of
                None \<Rightarrow> (Ret (), s)
              | Some r \<Rightarrow> ignoreRuntimeError (write_reg E i r 3 s)) (\<lambda>_ s.
     andThen (enableInterruptsFromMask E i (fold (\<lambda>n bits. bits OR iToMask n) existing 0) s) (\<lambda>_ s.
     clearAllEnabledInterrupts E i s))"

definition activate_one ::
  "('d, 'b, 'h) async_env \<Rightarrow> nat list \<Rightarrow> nat \<Rightarrow> interrupt_controller \<times> 'h \<Rightarrow> unit outcome \<times> interrupt_controller \<times> 'h" where
  "activate_one E i n s =
     andThen (enableInterruptsFromMask E i (iToMask n) s) (\<lambda>_ s. clearInterruptsFromMask E i (iToMask n) s)"

section \<open>What is accepted\<close>

text \<open>
  The options that are accepted are those with ISR and IER, with SIE and CIE together or
  neither of them, not both ICR and IAR, at most one of MIE, GIE and MER, and none of the
  unsupported ones; ISR and IER are added when they are missing.
\<close>

theorem accepted_options:
  "steriliseOptionRegisterSettings (withRequired opts) = Ret () \<longleftrightarrow>
     (SIE \<in> opts \<longleftrightarrow> CIE \<in> opts) \<and> \<not> (ICR \<in> opts \<and> IAR \<in> opts) \<and>
     \<not> (MIE \<in> opts \<and> GIE \<in> opts) \<and> \<not> (MIE \<in> opts \<and> MER \<in> opts) \<and> \<not> (GIE \<in> opts \<and> MER \<in> opts) \<and>
     opts \<inter> {IMaskR, IModeR, IVR, ILR, IVAR, IVEAR} = {}"
proof -
  have "steriliseOptionRegisterSettings o' = Ret () \<longleftrightarrow> (\<forall>p\<in>set (option_checks o'). \<not> fst p)" for o'
    by (auto simp: steriliseOptionRegisterSettings_def find_None_iff split: option.splits simp: find_Some_iff)
  then show ?thesis
    by (auto simp: option_checks_def withRequired_def of_bool_def)
qed

section \<open>What the handshake does to the hardware\<close>

text \<open>
  The registers of an interrupt controller as they are documented: IER holds the enabled
  interrupts, SIE and CIE set and clear bits of it, the clear register takes the bits that are
  written out of ISR, and the master enable changes neither.
\<close>

definition intc_hardware ::
  "('d, 'b, 'h) async_env \<Rightarrow> nat list \<Rightarrow> interrupt_controller \<Rightarrow> ('h \<Rightarrow> 32 word) \<Rightarrow> ('h \<Rightarrow> 32 word) \<Rightarrow> bool" where
  "intc_hardware E i c ier isr =
     (\<forall>x h. (\<exists>h'. writeRegister E i ''IER'' x h = (Ret (), h') \<and> ier h' = x \<and> isr h' = isr h) \<and>
       (\<exists>h'. writeRegister E i ''SIE'' x h = (Ret (), h') \<and> ier h' = ier h OR x \<and> isr h' = isr h) \<and>
       (\<exists>h'. writeRegister E i ''CIE'' x h = (Ret (), h') \<and> ier h' = ier h AND NOT x \<and> isr h' = isr h) \<and>
       (\<exists>h'. writeRegister E i (getOptionRegisterStr (icr_register c)) x h = (Ret (), h') \<and> ier h' = ier h \<and> isr h' = isr h AND NOT x) \<and>
       (\<forall>r. mer_register c = Some r \<longrightarrow>
         (\<exists>h'. writeRegister E i (getOptionRegisterStr r) x h = (Ret (), h') \<and> ier h' = ier h \<and> isr h' = isr h)))"

lemma intc_hardwareD:
  assumes "intc_hardware E i c ier isr"
  shows "\<exists>h'. writeRegister E i ''IER'' x h = (Ret (), h') \<and> ier h' = x \<and> isr h' = isr h"
    and "\<exists>h'. writeRegister E i ''SIE'' x h = (Ret (), h') \<and> ier h' = ier h OR x \<and> isr h' = isr h"
    and "\<exists>h'. writeRegister E i ''CIE'' x h = (Ret (), h') \<and> ier h' = ier h AND NOT x \<and> isr h' = isr h"
    and "\<exists>h'. writeRegister E i (getOptionRegisterStr (icr_register c)) x h = (Ret (), h') \<and> ier h' = ier h \<and> isr h' = isr h AND NOT x"
    and "mer_register c = Some r \<Longrightarrow>
      \<exists>h'. writeRegister E i (getOptionRegisterStr r) x h = (Ret (), h') \<and> ier h' = ier h \<and> isr h' = isr h"
  using assms unfolding intc_hardware_def by blast+

lemma option_names [simp]:
  "getOptionRegisterStr IER = ''IER''" "getOptionRegisterStr SIE = ''SIE''" "getOptionRegisterStr CIE = ''CIE''"
  by (simp_all add: getOptionRegisterStr_def OptionCodeMap_def)

text \<open>A controller that uses IER is never one with an inverted mask register.\<close>

definition uses_ier :: "interrupt_controller \<Rightarrow> bool" where
  "uses_ier c = (\<not> ierIsReallyImaskr c \<and> ier_register c = IER)"

lemma new_controller_uses_ier: "new_controller catalogue opts = Ret c \<Longrightarrow> uses_ier c \<and> activeInterrupts c = 0"
  using accepted_options[of opts]
  by (auto simp: new_controller_def choose_registers_def uses_ier_def withRequired_def Let_def bindO_Ret_iff)

lemma intc_hardware_active [simp]: "intc_hardware E i (c\<lparr>activeInterrupts := a\<rparr>) ier isr = intc_hardware E i c ier isr"
  by (simp add: intc_hardware_def)

text \<open>The effects, whatever was enabled before.\<close>

lemma clear_effect:
  assumes "intc_hardware E i c ier isr"
  shows "\<exists>h'. clearInterruptsFromMask E i x (c, h) = (Ret (), (c, h')) \<and> ier h' = ier h \<and> isr h' = isr h AND NOT x"
  using intc_hardwareD(4)[OF assms, of x h] by (auto simp: clearInterruptsFromMask_def write_reg_def ignoreRuntimeError_def)

lemma enable_effect:
  assumes hw: "intc_hardware E i c ier isr" and "uses_ier c"
  shows "\<exists>h'. enableInterruptsFromMask E i x (c, h) = (Ret (), (c\<lparr>activeInterrupts := activeInterrupts c OR x\<rparr>, h')) \<and>
    ier h' = (if haveSieAndCie c then ier h else 0) OR activeInterrupts c OR x \<and> isr h' = isr h"
  using intc_hardwareD(1,2)[OF hw, of "activeInterrupts c OR x" h] assms(2)
  by (auto simp: enableInterruptsFromMask_def setActiveInterrupts_def write_reg_def ignoreRuntimeError_def uses_ier_def
      Let_def or.assoc)

lemma disable_effect:
  assumes hw: "intc_hardware E i c ier isr" and "uses_ier c"
  shows "\<exists>h'. disableInterruptsFromMask E i x (c, h) = (Ret (), (c\<lparr>activeInterrupts := activeInterrupts c AND NOT x\<rparr>, h')) \<and>
    ier h' = (if haveSieAndCie c then ier h else activeInterrupts c) AND NOT x \<and> isr h' = isr h AND NOT x"
proof -
  let ?a = "activeInterrupts c AND NOT x" and ?c = "c\<lparr>activeInterrupts := activeInterrupts c AND NOT x\<rparr>"
  obtain h1 where h1: "(if haveSieAndCie c then write_reg E i CIE x (?c, h) else write_reg E i IER ?a (?c, h)) = (Ret (), (?c, h1))"
    "ier h1 = (if haveSieAndCie c then ier h else activeInterrupts c) AND NOT x" "isr h1 = isr h"
    using intc_hardwareD(1)[OF hw, of ?a h] intc_hardwareD(3)[OF hw, of x h] that
    by (cases "haveSieAndCie c") (fastforce simp: write_reg_def)+
  have "intc_hardware E i ?c ier isr" using hw by simp
  from clear_effect[OF this, of x h1] obtain h2 where h2: "clearInterruptsFromMask E i x (?c, h1) = (Ret (), (?c, h2))"
    "ier h2 = ier h1" "isr h2 = isr h1 AND NOT x" by blast
  have "disableInterruptsFromMask E i x (c, h) = ignoreRuntimeError (clearInterruptsFromMask E i x (?c, h1))"
    using h1(1) assms(2)
    by (simp add: disableInterruptsFromMask_def setActiveInterrupts_def uses_ier_def Let_def del: if_split split: if_split_asm)
  then show ?thesis using h1 h2 by (simp add: ignoreRuntimeError_def)
qed

definition interrupt_mask :: "nat list \<Rightarrow> 32 word" where
  "interrupt_mask ns = fold (\<lambda>n bits. bits OR iToMask n) ns 0"

lemma bit_iToMask: "bit (iToMask i) n = (n = i \<and> n < 32)"
  by (auto simp: iToMask_def bit_simps)

lemma bit_interrupt_mask: "bit (interrupt_mask ns) n = (n < 32 \<and> n \<in> set ns)"
proof -
  have "bit (fold (\<lambda>n bits. bits OR iToMask n) ns a) n = (bit a n \<or> n < 32 \<and> n \<in> set ns)" for a :: "32 word"
    by (induction ns arbitrary: a) (auto simp: bit_or_iff bit_iToMask)
  from this[of 0] show ?thesis by (simp add: interrupt_mask_def)
qed

lemma interrupt_mask_append: "interrupt_mask (ns @ ms) = interrupt_mask ns OR interrupt_mask ms"
  by (rule bit_word_eqI) (auto simp: bit_interrupt_mask bit_or_iff)

lemma iToMask_mask: "iToMask n = interrupt_mask [n]"
  by (simp add: interrupt_mask_def)

text \<open>
  The life of a controller: activations of it and of single sub domains, and the clearing of
  pending interrupts, while the hardware may change in any way and writes may fail.  The list
  holds the interrupts whose sub domains have been activated so far.
\<close>

inductive controller_run ::
  "('d, 'b, 'h) async_env \<Rightarrow> nat list \<Rightarrow> interrupt_controller \<Rightarrow> interrupt_controller \<times> 'h \<Rightarrow> nat list \<Rightarrow> bool"
  for E i c0 where
  created: "controller_run E i c0 (c0, h) []"
| hardware: "controller_run E i c0 (c, h) ns \<Longrightarrow> controller_run E i c0 (c, h') ns"
| activated: "controller_run E i c0 s ns \<Longrightarrow> activate_controller E i ms s = (Ret (), s') \<Longrightarrow> controller_run E i c0 s' (ns @ ms)"
| activated_one: "controller_run E i c0 s ns \<Longrightarrow> activate_one E i n s = (Ret (), s') \<Longrightarrow> controller_run E i c0 s' (ns @ [n])"
| cleared: "controller_run E i c0 s ns \<Longrightarrow> clearOneInterrupt E i n s = (Ret (), s') \<Longrightarrow> controller_run E i c0 s' ns"

lemma ignoreRuntimeError_state: "snd (ignoreRuntimeError r) = snd r"
  by (auto simp: ignoreRuntimeError_def split: prod.splits outcome.splits)

lemma write_reg_keeps: "fst (snd (write_reg E i r x s)) = fst s"
  by (simp add: write_reg_def split: prod.splits)

lemma clear_keeps: "clearInterruptsFromMask E i x s = (r, s') \<Longrightarrow> fst s' = fst s"
  using ignoreRuntimeError_state[of "write_reg E i (icr_register (fst s)) x s"] write_reg_keeps[of E i "icr_register (fst s)" x s]
  by (simp add: clearInterruptsFromMask_def)

lemma enable_keeps:
  assumes "enableInterruptsFromMask E i x s = (r, s')"
  shows "fst s' = (fst s)\<lparr>activeInterrupts := activeInterrupts (fst s) OR x\<rparr>"
proof -
  have "fst (snd (enableInterruptsFromMask E i x s)) = (fst s)\<lparr>activeInterrupts := activeInterrupts (fst s) OR x\<rparr>"
    by (simp add: enableInterruptsFromMask_def Let_def ignoreRuntimeError_state write_reg_keeps setActiveInterrupts_def)
  then show ?thesis using assms by simp
qed

lemma mer_keeps:
  assumes "(case m of None \<Rightarrow> (Ret (), s) | Some r \<Rightarrow> ignoreRuntimeError (write_reg E i r 3 s)) = (q, s')"
  shows "fst s' = fst s"
proof -
  have "fst (snd (case m of None \<Rightarrow> (Ret (), s) | Some r \<Rightarrow> ignoreRuntimeError (write_reg E i r 3 s))) = fst s"
    by (simp add: ignoreRuntimeError_state write_reg_keeps split: option.split)
  then show ?thesis using assms by simp
qed

lemma activation_keeps:
  "activate_controller E i ms s = (Ret (), s') \<Longrightarrow>
    fst s' = (fst s)\<lparr>activeInterrupts := activeInterrupts (fst s) OR interrupt_mask ms\<rparr>"
  "activate_one E i n s = (Ret (), s') \<Longrightarrow>
    fst s' = (fst s)\<lparr>activeInterrupts := activeInterrupts (fst s) OR interrupt_mask [n]\<rparr>"
  by (auto simp: activate_controller_def activate_one_def clearAllEnabledInterrupts_def interrupt_mask_def
      elim!: andThen_cases dest!: mer_keeps enable_keeps clear_keeps)

lemma run_active:
  assumes "activeInterrupts c0 = 0"
  shows "controller_run E i c0 s ns \<Longrightarrow> fst s = c0\<lparr>activeInterrupts := interrupt_mask ns\<rparr>"
proof (induction rule: controller_run.induct)
  case (created h)
  then show ?case using assms by (simp add: interrupt_mask_def)
next
  case (activated s ns ms s')
  then show ?case using activation_keeps(1)[OF activated(2)] by (simp add: interrupt_mask_append)
next
  case (activated_one s ns n s')
  then show ?case using activation_keeps(2)[OF activated_one(2)] by (simp add: interrupt_mask_append)
next
  case (cleared s ns n s')
  then show ?case using clear_keeps by (fastforce simp: clearOneInterrupt_def)
qed simp

lemma activation_effect:
  assumes hw: "intc_hardware E i c ier isr" and u: "uses_ier c"
  shows "\<exists>h'. activate_controller E i ms (c, h) = (Ret (), (c\<lparr>activeInterrupts := activeInterrupts c OR interrupt_mask ms\<rparr>, h')) \<and>
    ier h' = (if haveSieAndCie c then ier h else 0) OR activeInterrupts c OR interrupt_mask ms \<and>
    isr h' = isr h AND NOT (activeInterrupts c OR interrupt_mask ms)"
proof -
  obtain h1 where h1: "(case mer_register c of None \<Rightarrow> (Ret (), (c, h))
      | Some r \<Rightarrow> ignoreRuntimeError (write_reg E i r 3 (c, h))) = (Ret (), (c, h1))" "ier h1 = ier h" "isr h1 = isr h"
  proof (cases "mer_register c")
    case (Some r)
    from intc_hardwareD(5)[OF hw Some, of 3 h] Some that show thesis
      by (auto simp: write_reg_def ignoreRuntimeError_def)
  qed (use that in simp)
  let ?c = "c\<lparr>activeInterrupts := activeInterrupts c OR interrupt_mask ms\<rparr>"
  obtain h2 where h2: "enableInterruptsFromMask E i (interrupt_mask ms) (c, h1) = (Ret (), (?c, h2))"
    "ier h2 = (if haveSieAndCie c then ier h1 else 0) OR activeInterrupts c OR interrupt_mask ms" "isr h2 = isr h1"
    using enable_effect[OF hw u] by blast
  have "intc_hardware E i ?c ier isr" using hw by simp
  from clear_effect[OF this, of "activeInterrupts ?c" h2] obtain h3 where
    "clearAllEnabledInterrupts E i (?c, h2) = (Ret (), (?c, h3))" "ier h3 = ier h2" "isr h3 = isr h2 AND NOT (activeInterrupts ?c)"
    unfolding clearAllEnabledInterrupts_def fst_conv by blast
  then show ?thesis using h1 h2 by (simp add: activate_controller_def flip: interrupt_mask_def)
qed

text \<open>
  C32: an activation puts the interrupt controller into a definite state, whatever
  its registers held and whichever writes failed before, as soon as its registers can be written:
  with IER alone the enabled interrupts are those of the sub domains that exist or have
  been activated before, also if these are gone by now; with SIE and CIE they are enabled in addition to
  what was enabled.  Their pending flags are cleared, no others.  Activating one more
  sub domain adds its interrupt and clears its flag only, and the destructor disables all of them and none
  besides.
\<close>

theorem activation_enables_interrupts:
  assumes "new_controller catalogue opts = Ret c0" "controller_run E i c0 (c, h) ns" "intc_hardware E i c0 ier isr"
  shows "(\<exists>c' h'. activate_controller E i ms (c, h) = (Ret (), (c', h')) \<and>
      (\<forall>n<32. (bit (ier h') n \<longleftrightarrow> n \<in> set (ns @ ms) \<or> haveSieAndCie c0 \<and> bit (ier h) n) \<and>
        (bit (isr h') n \<longleftrightarrow> bit (isr h) n \<and> n \<notin> set (ns @ ms))) \<and>
      (\<exists>s h''. destroy_controller E True i (c', h') = (Ret (), (s, h'')) \<and>
        (\<forall>n<32. bit (ier h'') n \<longleftrightarrow> n \<notin> set (ns @ ms) \<and> haveSieAndCie c0 \<and> bit (ier h) n))) \<and>
    (\<exists>c' h'. activate_one E i k (c, h) = (Ret (), (c', h')) \<and>
      (\<forall>n<32. (bit (ier h') n \<longleftrightarrow> n \<in> set (ns @ [k]) \<or> haveSieAndCie c0 \<and> bit (ier h) n) \<and>
        (bit (isr h') n \<longleftrightarrow> bit (isr h) n \<and> n \<noteq> k)))"
proof -
  note new = new_controller_uses_ier[OF assms(1)]
  have c: "c = c0\<lparr>activeInterrupts := interrupt_mask ns\<rparr>" using run_active[OF conjunct2[OF new] assms(2)] by simp
  have hw: "intc_hardware E i c ier isr" and u: "uses_ier c" using assms(3) new by (simp_all add: c uses_ier_def)
  let ?c = "c\<lparr>activeInterrupts := activeInterrupts c OR interrupt_mask ms\<rparr>"
  obtain h1 where h1: "activate_controller E i ms (c, h) = (Ret (), (?c, h1))"
    "ier h1 = (if haveSieAndCie c then ier h else 0) OR activeInterrupts c OR interrupt_mask ms"
    "isr h1 = isr h AND NOT (activeInterrupts c OR interrupt_mask ms)"
    using activation_effect[OF hw u] by blast
  have "intc_hardware E i ?c ier isr" "uses_ier ?c" using hw u by (simp_all add: uses_ier_def)
  from disable_effect[OF this, of "activeInterrupts ?c" h1] obtain c2 h2 where
    h2: "destroy_controller E True i (?c, h1) = (Ret (), (c2, h2))"
    "ier h2 = (if haveSieAndCie c then ier h1 else activeInterrupts ?c) AND NOT (activeInterrupts ?c)"
    by (auto simp: destroy_controller_def)
  let ?c3 = "c\<lparr>activeInterrupts := activeInterrupts c OR iToMask k\<rparr>"
  obtain h3 where h3: "enableInterruptsFromMask E i (iToMask k) (c, h) = (Ret (), (?c3, h3))"
    "ier h3 = (if haveSieAndCie c then ier h else 0) OR activeInterrupts c OR iToMask k" "isr h3 = isr h"
    using enable_effect[OF hw u] by blast
  have "intc_hardware E i ?c3 ier isr" using hw by simp
  from clear_effect[OF this, of "iToMask k" h3] obtain h4 where
    h4: "activate_one E i k (c, h) = (Ret (), (?c3, h4))" "ier h4 = ier h3" "isr h4 = isr h3 AND NOT (iToMask k)"
    using h3(1) by (auto simp: activate_one_def)
  have s: "haveSieAndCie c = haveSieAndCie c0" "activeInterrupts c = interrupt_mask ns" by (simp_all add: c)
  note bits = bit_interrupt_mask bit_or_iff bit_and_iff bit_not_iff
  have "\<forall>n<32. (bit (ier h1) n \<longleftrightarrow> n \<in> set (ns @ ms) \<or> haveSieAndCie c0 \<and> bit (ier h) n) \<and>
      (bit (isr h1) n \<longleftrightarrow> bit (isr h) n \<and> n \<notin> set (ns @ ms))"
    unfolding h1(2,3) s by (auto simp: bits)
  moreover have "\<forall>n<32. bit (ier h2) n \<longleftrightarrow> n \<notin> set (ns @ ms) \<and> haveSieAndCie c0 \<and> bit (ier h) n"
    unfolding h2(2) h1(2) using s by (auto simp: bits)
  moreover have "\<forall>n<32. (bit (ier h4) n \<longleftrightarrow> n \<in> set (ns @ [k]) \<or> haveSieAndCie c0 \<and> bit (ier h) n) \<and>
      (bit (isr h4) n \<longleftrightarrow> bit (isr h) n \<and> n \<noteq> k)"
    unfolding h4(2,3) h3(2,3) s iToMask_mask by (auto simp: bits)
  ultimately show ?thesis using h1(1) h2(1) h4(1) by blast
qed

text \<open>A controller in software: the values of IER and ISR.\<close>

definition soft_write :: "string \<Rightarrow> 32 word \<Rightarrow> 32 word \<times> 32 word \<Rightarrow> unit outcome \<times> 32 word \<times> 32 word" where
  "soft_write name x s =
     (Ret (), if name = ''IER'' then (x, snd s) else if name = ''SIE'' then (fst s OR x, snd s)
      else if name = ''CIE'' then (fst s AND NOT x, snd s) else if name \<in> {''ICR'', ''IAR'', ''ISR''} then (fst s, snd s AND NOT x) else s)"

definition soft_env :: "(32 word \<times> 32 word \<Rightarrow> bool) \<Rightarrow> (unit, unit, 32 word \<times> 32 word) async_env" where
  "soft_env gone =
     \<lparr>readGroup = (\<lambda>i h. (Ret (), h)), keyValue = (\<lambda>i h. 0), syncBuffer = (\<lambda>i n h. ((), ok)), nullData = (), sourceValue = (\<lambda>b n. ()),
      lastOwner = (\<lambda>n h. gone h), writeRegister = (\<lambda>i. soft_write), readRegister = (\<lambda>i name h. (Ret (snd h), h))\<rparr>"

theorem activation_enables_interrupts_witness:
  "\<exists>c h. activate_controller (soft_env (\<lambda>_. False)) [0] [2] (choose_registers {ISR, IER, SIE, CIE, MER}, (8, 5)) = (Ret (), (c, h)) \<and>
    bit (fst h) 2 \<and> bit (fst h) 3 \<and> \<not> bit (fst h) 0 \<and> bit (snd h) 0 \<and> \<not> bit (snd h) 2"
proof -
  let ?c = "choose_registers {ISR, IER, SIE, CIE, MER}" and ?E = "soft_env (\<lambda>_. False)"
  have new: "new_controller (\<lambda>_. Some (True, True)) {ISR, IER, SIE, CIE, MER} = Ret ?c"
    by (simp add: new_controller_def withRequired_def choose_registers_def steriliseOptionRegisterSettings_def option_checks_def
        needAccessors_def needReadable_def needWriteable_def sie_cie_def insert_commute Let_def)
  have hw: "intc_hardware ?E [0] ?c fst snd"
    by (auto simp: intc_hardware_def soft_env_def soft_write_def choose_registers_def getOptionRegisterStr_def OptionCodeMap_def)
  have sie: "haveSieAndCie ?c" by (simp add: choose_registers_def)
  obtain c h where r: "activate_controller ?E [0] [2] (?c, (8, 5)) = (Ret (), (c, h))" and
    b: "\<forall>n<32. (bit (fst h) n \<longleftrightarrow> n \<in> set ([] @ [2]) \<or> haveSieAndCie ?c \<and> bit (fst (8 :: 32 word, 5 :: 32 word)) n) \<and>
      (bit (snd h) n \<longleftrightarrow> bit (snd (8 :: 32 word, 5 :: 32 word)) n \<and> n \<notin> set ([] @ [2]))"
    using activation_enables_interrupts[OF new controller_run.created hw, of "[2]" "(8, 5)" 0] by blast
  have "bit (8 :: 32 word) 3" "\<not> bit (8 :: 32 word) 0" "bit (5 :: 32 word) 0" by simp_all
  then have "bit (fst h) 2 \<and> bit (fst h) 3 \<and> \<not> bit (fst h) 0 \<and> bit (snd h) 0 \<and> \<not> bit (snd h) 2"
    using b sie by simp
  with r show ?thesis by blast
qed

end
