(* ===== verification/AsyncDomains.thy ===== *)
theory AsyncDomains
  imports InterruptControllers
begin

text \<open>
  \<^verbatim>\<open>include/async/SubDomain.h\<close>, \<^verbatim>\<open>include/async/DomainImpl.h\<close>,
  \<^verbatim>\<open>src/async/MuxedInterruptDistributor.cc\<close> and the distribution of
  \<^verbatim>\<open>src/async/GenericMuxedInterruptDistributor.cc\<close>: the tree of sub domains through which data,
  versions and exceptions of an asynchronous domain reach the distributors.

  The weak pointers of the tree are options: \<open>None\<close> when nobody holds the object any more.  All
  operations of a domain run under its mutex, so each of them is one step.
\<close>

section \<open>The tree\<close>

datatype 'd sub_domain =
  SubDomain (sd_id: "nat list") (pollDistributor: "'d poll_distributor option")
    (muxedInterruptDistributor: "(interrupt_controller \<times> (nat \<times> 'd sub_domain option) list) option")
    (variableDistributor: "'d manager option")

definition new_sub_domain :: "nat list \<Rightarrow> 'd sub_domain" where
  "new_sub_domain i = SubDomain i None None None"

text \<open>A loop over the entries of the map of sub domains, which the body may change.\<close>

fun mapEach :: "('x \<Rightarrow> 's \<Rightarrow> unit outcome \<times> 'x \<times> 's) \<Rightarrow> 'x list \<Rightarrow> 's \<Rightarrow> unit outcome \<times> 'x list \<times> 's" where
  "mapEach f [] s = (Ret (), [], s)"
| "mapEach f (x # xs) s =
     (case f x s of
        (Ret _, x', s') \<Rightarrow> (case mapEach f xs s' of (r, xs', s'') \<Rightarrow> (r, x' # xs', s''))
      | (r, x', s') \<Rightarrow> (r, x' # xs, s'))"

lemma mapEach_cong [fundef_cong]:
  "xs = ys \<Longrightarrow> s = t \<Longrightarrow> (\<And>x s. x \<in> set ys \<Longrightarrow> f x s = g x s) \<Longrightarrow> mapEach f xs s = mapEach g ys t"
proof (induction xs arbitrary: ys s t)
  case (Cons x xs)
  then show ?case by (auto split: prod.splits outcome.splits)
qed simp

text \<open>The body for one sub domain; the weak pointer may be gone.\<close>

definition ifAlive :: "('x \<Rightarrow> 's \<Rightarrow> unit outcome \<times> 'x \<times> 's) \<Rightarrow> nat \<times> 'x option \<Rightarrow> 's \<Rightarrow> unit outcome \<times> (nat \<times> 'x option) \<times> 's" where
  "ifAlive f e s = (case snd e of None \<Rightarrow> (Ret (), e, s) | Some x \<Rightarrow> (case f x s of (r, x', s') \<Rightarrow> (r, (fst e, Some x'), s')))"

lemma ifAlive_cong [fundef_cong]:
  "e = e' \<Longrightarrow> s = t \<Longrightarrow> (\<And>x s. snd e' = Some x \<Longrightarrow> f x s = g x s) \<Longrightarrow> ifAlive f e s = ifAlive g e' t"
  by (auto simp: ifAlive_def split: option.splits)

text \<open>The device is part of the world, the controller of the distributor.\<close>

definition onDevice ::
  "(interrupt_controller \<times> 'h \<Rightarrow> 'a outcome \<times> interrupt_controller \<times> 'h) \<Rightarrow> interrupt_controller \<times> 'h async_world \<Rightarrow>
     'a outcome \<times> interrupt_controller \<times> 'h async_world" where
  "onDevice f s = (case f (fst s, device (snd s)) of (r, k, h) \<Rightarrow> (r, k, (snd s)\<lparr>device := h\<rparr>))"

definition inWorld :: "('x \<Rightarrow> 'w \<Rightarrow> unit outcome \<times> 'x \<times> 'w) \<Rightarrow> 'x \<Rightarrow> 'k \<times> 'w \<Rightarrow> unit outcome \<times> 'x \<times> 'k \<times> 'w" where
  "inWorld f x s = (case f x (snd s) of (r, x', w) \<Rightarrow> (r, x', fst s, w))"

lemma inWorld_cong [fundef_cong]:
  "x = y \<Longrightarrow> s = t \<Longrightarrow> (\<And>w. f y w = g y w) \<Longrightarrow> inWorld f x s = inWorld g y t"
  by (simp add: inWorld_def)

text \<open>\<open>GenericMuxedInterruptDistributor::handle\<close>; \<open>f\<close> distributes to a sub domain.\<close>

definition handleOne ::
  "('d, 'b, 'h) async_env \<Rightarrow> nat list \<Rightarrow> 32 word \<Rightarrow> ('x \<Rightarrow> 'h async_world \<Rightarrow> unit outcome \<times> 'x \<times> 'h async_world) \<Rightarrow>
     nat \<times> 'x option \<Rightarrow> interrupt_controller \<times> 'h async_world \<Rightarrow> unit outcome \<times> (nat \<times> 'x option) \<times> interrupt_controller \<times> 'h async_world" where
  "handleOne E i ipr f e s =
     (if ipr AND iToMask (fst e) \<noteq> 0 then
        ifAlive (\<lambda>x s. case inWorld f x s of
            (Ret _, x', s') \<Rightarrow> (case onDevice (clearOneInterrupt E i (fst e)) s' of (r, s'') \<Rightarrow> (r, x', s''))
          | p \<Rightarrow> p) e s
      else (Ret (), e, s))"

definition handle_interrupts ::
  "('d, 'b, 'h) async_env \<Rightarrow> nat list \<Rightarrow> ('x \<Rightarrow> 'h async_world \<Rightarrow> unit outcome \<times> 'x \<times> 'h async_world) \<Rightarrow>
     interrupt_controller \<times> (nat \<times> 'x option) list \<Rightarrow> 'h async_world \<Rightarrow>
     unit outcome \<times> (interrupt_controller \<times> (nat \<times> 'x option) list) \<times> 'h async_world" where
  "handle_interrupts E i f m w =
     (case readRegister E i (getOptionRegisterStr (isr_register (fst m))) (device w) of
        (Ret isr, h) \<Rightarrow>
          (case mapEach (handleOne E i (activeInterrupts (fst m) AND isr) f) (snd m) (fst m, w\<lparr>device := h\<rparr>) of
             (r, subs, k, w) \<Rightarrow> ignoreRuntimeError (r, (k, subs), w))
      | (Throw x, h) \<Rightarrow> ignoreRuntimeError (Throw x, m, w\<lparr>device := h\<rparr>)
      | (NoReturn, h) \<Rightarrow> (NoReturn, m, w\<lparr>device := h\<rparr>)
      | (Terminated, h) \<Rightarrow> (Terminated, m, w\<lparr>device := h\<rparr>))"

lemma handle_interrupts_cong [fundef_cong]:
  assumes "m = m'" "w = w'" "\<And>n x w. (n, Some x) \<in> set (snd m') \<Longrightarrow> f x w = g x w"
  shows "handle_interrupts E i f m w = handle_interrupts E i g m' w'"
proof -
  have one: "handleOne E i ipr f e s = handleOne E i ipr g e s" if "e \<in> set (snd m')" for ipr e s
  proof -
    have "inWorld f x t = inWorld g x t" if "snd e = Some x" for x and t :: "interrupt_controller \<times> _"
      using assms(3)[of "fst e" x] that \<open>e \<in> set (snd m')\<close> by (cases e) (simp add: inWorld_def)
    then show ?thesis unfolding handleOne_def ifAlive_def by (cases "snd e") simp_all
  qed
  have "mapEach (handleOne E i ipr f) (snd m') s = mapEach (handleOne E i ipr g) (snd m') s" for ipr s
    by (rule mapEach_cong[OF refl refl]) (rule one)
  then show ?thesis by (simp only: handle_interrupts_def assms(1,2))
qed

text \<open>\<open>GenericMuxedInterruptDistributor::activate\<close>\<close>

definition existing :: "(nat \<times> 'x option) list \<Rightarrow> nat list" where
  "existing subs = map fst (filter (\<lambda>e. snd e \<noteq> None) subs)"

definition mux_activate ::
  "('d, 'b, 'h) async_env \<Rightarrow> nat list \<Rightarrow> ('x \<Rightarrow> 'h async_world \<Rightarrow> unit outcome \<times> 'x \<times> 'h async_world) \<Rightarrow>
     interrupt_controller \<times> (nat \<times> 'x option) list \<Rightarrow> 'h async_world \<Rightarrow>
     unit outcome \<times> (interrupt_controller \<times> (nat \<times> 'x option) list) \<times> 'h async_world" where
  "mux_activate E i f m w =
     (case onDevice (activate_controller E i (existing (snd m))) (fst m, w) of
        (Ret _, k, w) \<Rightarrow> (case mapEach (ifAlive f) (snd m) w of (r, subs, w) \<Rightarrow> (r, (k, subs), w))
      | (r, k, w) \<Rightarrow> (r, (k, snd m), w))"

lemma mux_activate_cong [fundef_cong]:
  assumes "m = m'" "w = w'" "\<And>n x w. (n, Some x) \<in> set (snd m') \<Longrightarrow> f x w = g x w"
  shows "mux_activate E i f m w = mux_activate E i g m' w'"
proof -
  have "ifAlive f e s = ifAlive g e s" if "e \<in> set (snd m')" for e s
    using assms(3)[of "fst e"] that by (cases e) (auto simp: ifAlive_def split: option.splits)
  then have "mapEach (ifAlive f) (snd m') s = mapEach (ifAlive g) (snd m') s" for s
    by (intro mapEach_cong[OF refl refl])
  then show ?thesis by (simp only: mux_activate_def assms(1,2))
qed

section \<open>Distribution\<close>

text \<open>
  The common body of \<open>distribute\<close> and \<open>activate\<close> of a sub domain: the poll distributor first,
  which may change the version, then the interrupt controller, then the variable distributor.
\<close>

definition ifPresent :: "('x \<Rightarrow> 's \<Rightarrow> 'a outcome \<times> 'x \<times> 's) \<Rightarrow> 'a \<Rightarrow> 'x option \<Rightarrow> 's \<Rightarrow> 'a outcome \<times> 'x option \<times> 's" where
  "ifPresent f a x s = (case x of None \<Rightarrow> (Ret a, None, s) | Some x \<Rightarrow> (case f x s of (r, x, s) \<Rightarrow> (r, Some x, s)))"

lemma ifPresent_cong [fundef_cong]:
  "a = b \<Longrightarrow> x = y \<Longrightarrow> s = t \<Longrightarrow> (\<And>z. y = Some z \<Longrightarrow> f z t = g z t) \<Longrightarrow> ifPresent f a x s = ifPresent g b y t"
  by (auto simp: ifPresent_def split: option.splits)

definition inOrder ::
  "('p option \<Rightarrow> 's \<Rightarrow> 'a outcome \<times> 'p option \<times> 's) \<Rightarrow> ('a \<Rightarrow> 'm option \<Rightarrow> 's \<Rightarrow> unit outcome \<times> 'm option \<times> 's) \<Rightarrow>
   ('a \<Rightarrow> 'c option \<Rightarrow> 's \<Rightarrow> 'a outcome \<times> 'c option \<times> 's) \<Rightarrow> 'p option \<Rightarrow> 'm option \<Rightarrow> 'c option \<Rightarrow> 's \<Rightarrow>
   unit outcome \<times> ('p option \<times> 'm option \<times> 'c option) \<times> 's" where
  "inOrder poll mux var p m c w =
     (case poll p w of
        (rp, p, w) \<Rightarrow> andThen (rp, ((p, m, c), w)) (\<lambda>version s.
          (case mux version m w of
             (rm, m, w) \<Rightarrow> andThen (rm, ((p, m, c), w)) (\<lambda>_ s.
               (case var version c w of
                  (rc, c, w) \<Rightarrow> andThen (rc, ((p, m, c), w)) (\<lambda>_ s. (Ret (), s)))))))"

lemma inOrder_cong [fundef_cong]:
  assumes "p = p'" "m = m'" "c = c'" "w = w'" "\<And>v w. mux v m' w = mux' v m' w"
  shows "inOrder poll mux var p m c w = inOrder poll mux' var p' m' c' w'"
  by (simp only: inOrder_def assms)

text \<open>
  \<open>SubDomain::distribute\<close>.  Sub domains behind an interrupt controller have no data of their own.
\<close>

fun sd_distribute ::
  "('d, 'b, 'h) async_env \<Rightarrow> bool \<Rightarrow> 'b \<Rightarrow> version_number \<Rightarrow> 'd sub_domain \<Rightarrow> 'h async_world \<Rightarrow>
     unit outcome \<times> 'd sub_domain \<times> 'h async_world" where
  "sd_distribute E isActive data version (SubDomain i p m c) w =
     (if \<not> isActive then (Ret (), SubDomain i p m c, w)
      else
        (case inOrder
            (ifPresent (\<lambda>x w. poll_distribute E isActive i version (x, w)) version)
            (\<lambda>version. ifPresent (handle_interrupts E i (sd_distribute E isActive (nullData E) version)) ())
            (\<lambda>version. ifPresent (\<lambda>x w. variable_distribute E isActive data version (x, w)) version) p m c w of
           (r, (p, m, c), w) \<Rightarrow> (r, SubDomain i p m c, w)))"

text \<open>\<open>SubDomain::activate\<close>, in a domain that is active already.\<close>

fun sd_activate ::
  "('d, 'b, 'h) async_env \<Rightarrow> 'b \<Rightarrow> version_number \<Rightarrow> 'd sub_domain \<Rightarrow> 'h async_world \<Rightarrow>
     unit outcome \<times> 'd sub_domain \<times> 'h async_world" where
  "sd_activate E data version (SubDomain i p m c) w =
     (case inOrder
         (ifPresent (\<lambda>x w. poll_distribute E True i version (x, w)) version)
         (\<lambda>version. ifPresent (mux_activate E i (sd_activate E (nullData E) version)) ())
         (\<lambda>version. ifPresent (\<lambda>x w. variable_distribute E True data version (x, w)) version) p m c w of
        (r, (p, m, c), w) \<Rightarrow> (r, SubDomain i p m c, w))"

fun sd_sendException :: "(nat \<Rightarrow> bool) \<Rightarrow> exn \<Rightarrow> 'd sub_domain \<Rightarrow> 'd sub_domain" where
  "sd_sendException isLast e (SubDomain i p m c) =
     SubDomain i (map_option (manager_sendException isLast e) p)
       (map_option (\<lambda>(k, subs). (k, map (\<lambda>(n, x). (n, map_option (sd_sendException isLast e) x)) subs)) m)
       (map_option (manager_sendException isLast e) c)"

section \<open>Subscription\<close>

text \<open>
  What the catalogue says about the subscribed register, and the creation of its synchronous
  accessor, which is read when the domain is active and added to the transfer group.
\<close>

record 'h subscription =
  nodata :: bool
  subscriberId :: nat
  createSyncAccessor :: "bool \<Rightarrow> 'h \<Rightarrow> unit outcome \<times> 'h"

text \<open>
  \<open>MuxedInterruptDistributorFactory\<close>: \<open>json_ids\<close> reads a list of numbers, \<open>json_first\<close> the first
  key of an object and its value as text; \<open>None\<close> stands for a parse error.
\<close>

definition getInterruptControllerNameAndDescription ::
  "(string \<Rightarrow> nat list option) \<Rightarrow> (string \<Rightarrow> (string \<times> string) option) \<Rightarrow> nat list \<Rightarrow> (string \<times> string) list \<Rightarrow>
     (string \<times> string) outcome" where
  "getInterruptControllerNameAndDescription json_ids json_first i catalogue =
     foldr (\<lambda>(key, data) rest.
         if take 1 key \<noteq> ''!'' then rest
         else (case json_ids (tl key) of
             None \<Rightarrow> Throw (LogicError (''Json parse error in '' @ key))
           | Some j \<Rightarrow>
               if j \<noteq> i then rest
               else (case json_first data of
                   None \<Rightarrow> Throw (LogicError (''Json parse error in '' @ key))
                 | Some p \<Rightarrow> Ret p)))
       catalogue (Throw (LogicError ''No interrupt controller description in MetadataCatalogue''))"

definition createMuxedInterruptDistributor ::
  "(string \<Rightarrow> nat list option) \<Rightarrow> (string \<Rightarrow> (string \<times> string) option) \<Rightarrow> (string \<Rightarrow> (string \<Rightarrow> 'k outcome) option) \<Rightarrow>
     (string \<times> string) list \<Rightarrow> nat list \<Rightarrow> 'k outcome" where
  "createMuxedInterruptDistributor json_ids json_first creatorFunctions catalogue i =
     bindO (getInterruptControllerNameAndDescription json_ids json_first i catalogue) (\<lambda>(name, description).
       case creatorFunctions name of
         None \<Rightarrow> Throw (LogicError (''Unknown interrupt controller type '' @ name))
       | Some create \<Rightarrow> create description)"

text \<open>An object that was created on the way exists afterwards only if an accessor holds it.\<close>

definition keepIfHeld :: "unit outcome \<Rightarrow> 'x option \<Rightarrow> 'x \<Rightarrow> 'x option" where
  "keepIfHeld r old x = (if old = None \<and> r \<noteq> Ret () then None else Some x)"

definition fresh_version :: "'h async_world \<Rightarrow> version_number \<times> 'h async_world" where
  "fresh_version w = (case newVersion (lastGenerated w) of (v, g) \<Rightarrow> (v, w\<lparr>lastGenerated := g\<rparr>))"

text \<open>
  \<open>SubDomain::getAccessorManager\<close> for the sub domain itself, with the subscription: the distributor
  is made when there is none, and distributes when the domain is active.
\<close>

definition subscribeVariable ::
  "('d, 'b, 'h) async_env \<Rightarrow> bool \<Rightarrow> 'h subscription \<Rightarrow> 'd manager option \<Rightarrow> 'h async_world \<Rightarrow>
     unit outcome \<times> 'd manager option \<times> 'h async_world" where
  "subscribeVariable E isActive S c w =
     (let old = c in
      case (case c of
          Some x \<Rightarrow> (Ret nullVersion, x, w)
        | None \<Rightarrow> (if isActive then (case fresh_version w of (v, w) \<Rightarrow> variable_distribute E True (nullData E) v (new_manager, w))
                   else (Ret nullVersion, new_manager, w))) of
        (r, x, w) \<Rightarrow> (case andThen (r, x) (\<lambda>_ x. manager_subscribe isActive (variable_fill E (nullData E)) (subscriberId S) x) of
           (r, x) \<Rightarrow> (r, keepIfHeld r old x, w)))"

definition subscribePoll ::
  "('d, 'b, 'h) async_env \<Rightarrow> (nat list \<Rightarrow> string option) \<Rightarrow> bool \<Rightarrow> nat list \<Rightarrow> 'h subscription \<Rightarrow>
     'd poll_distributor option \<Rightarrow> 'h async_world \<Rightarrow> unit outcome \<times> 'd poll_distributor option \<times> 'h async_world" where
  "subscribePoll E realmOf isActive i S p w =
     (let old = p in
      case (case p of
          Some x \<Rightarrow> (Ret nullVersion, x, w)
        | None \<Rightarrow> (if isActive then
              (case fresh_version w of (v, w) \<Rightarrow> poll_distribute E True i v (new_poll_distributor (realmOf i), w))
            else (Ret nullVersion, new_poll_distributor (realmOf i), w))) of
        (r, s) \<Rightarrow> (case andThen (r, s) (\<lambda>_ s.
             (case createSyncAccessor S isActive (device (snd s)) of
                (q, h) \<Rightarrow> andThen (ignoreRuntimeError (q, (fst s, (snd s)\<lparr>device := h\<rparr>))) (\<lambda>_ s.
                  (case manager_subscribe isActive (poll_fill E i (device (snd s))) (subscriberId S) (fst s) of
                     (r, x) \<Rightarrow> (r, (x, snd s)))))) of
           (r, (x, w)) \<Rightarrow> (r, keepIfHeld r old x, w)))"

text \<open>The interrupt controller below a sub domain and the sub domain below it, made when missing.\<close>

definition getController ::
  "('d, 'b, 'h) async_env \<Rightarrow> (nat list \<Rightarrow> interrupt_controller outcome) \<Rightarrow> bool \<Rightarrow> nat list \<Rightarrow>
     (interrupt_controller \<times> (nat \<times> 'd sub_domain option) list) option \<Rightarrow> 'h async_world \<Rightarrow>
     (interrupt_controller \<times> (nat \<times> 'd sub_domain option) list) outcome \<times> 'h async_world" where
  "getController E mk isActive i m w =
     (case m of
        Some k \<Rightarrow> (Ret k, w)
      | None \<Rightarrow> andThen (mk i, w) (\<lambda>k w.
          if \<not> isActive then (Ret (k, []), w)
          else (case fresh_version w of
              (v, w) \<Rightarrow> (case mux_activate E i (sd_activate E (nullData E) v) (k, []) w of
                (r, k, w) \<Rightarrow> andThen (r, w) (\<lambda>_ w. (Ret k, w))))))"

definition getSubDomain ::
  "('d, 'b, 'h) async_env \<Rightarrow> bool \<Rightarrow> nat list \<Rightarrow> nat \<Rightarrow> interrupt_controller \<times> (nat \<times> 'd sub_domain option) list \<Rightarrow>
     'h async_world \<Rightarrow> 'd sub_domain outcome \<times> interrupt_controller \<times> 'h async_world" where
  "getSubDomain E isActive i n m w =
     (case map_of (snd m) n of
        Some (Some x) \<Rightarrow> (Ret x, fst m, w)
      | _ \<Rightarrow>
          if \<not> isActive then (Ret (new_sub_domain (i @ [n])), fst m, w)
          else (case fresh_version w of
              (v, w) \<Rightarrow> andThen (onDevice (activate_one E i n) (fst m, w)) (\<lambda>_ s.
                (case sd_activate E (nullData E) v (new_sub_domain (i @ [n])) (snd s) of
                   (r, x, w) \<Rightarrow> andThen (r, (fst s, w)) (\<lambda>_ s. (Ret x, s))))))"

definition alive :: "nat \<Rightarrow> (nat \<times> 'x option) list \<Rightarrow> 'x option" where
  "alive n subs = (case map_of subs n of Some x \<Rightarrow> x | None \<Rightarrow> None)"

text \<open>
  \<open>subscribe\<close> and \<open>getAccessorManager\<close> along the qualified number of the register, which starts
  with the number of the sub domain itself; an empty one has no defined behaviour.
\<close>

fun sd_subscribe ::
  "('d, 'b, 'h) async_env \<Rightarrow> (nat list \<Rightarrow> interrupt_controller outcome) \<Rightarrow> (nat list \<Rightarrow> string option) \<Rightarrow> bool \<Rightarrow>
     'h subscription \<Rightarrow> nat list \<Rightarrow> 'd sub_domain \<Rightarrow> 'h async_world \<Rightarrow> unit outcome \<times> 'd sub_domain \<times> 'h async_world" where
  "sd_subscribe E mk realmOf isActive S [] d w = (Terminated, d, w)"
| "sd_subscribe E mk realmOf isActive S [_] (SubDomain i p m c) w =
     (if nodata S then (case subscribeVariable E isActive S c w of (r, c, w) \<Rightarrow> (r, SubDomain i p m c, w))
      else (case subscribePoll E realmOf isActive i S p w of (r, p, w) \<Rightarrow> (r, SubDomain i p m c, w)))"
| "sd_subscribe E mk realmOf isActive S (_ # n # rest) (SubDomain i p m c) w =
     (case getController E mk isActive i m w of
        (Ret k, w) \<Rightarrow>
          (case getSubDomain E isActive i n k w of
             (Ret x, k', w) \<Rightarrow>
               (case sd_subscribe E mk realmOf isActive S (n # rest) x w of
                  (r, x, w) \<Rightarrow> (r, SubDomain i p (keepIfHeld r m (k', insert_variable n (keepIfHeld r (alive n (snd k)) x) (snd k))) c, w))
           | (Throw e, k', w) \<Rightarrow> (Throw e, SubDomain i p (keepIfHeld (Throw e) m (k', insert_variable n None (snd k))) c, w)
           | (NoReturn, k', w) \<Rightarrow> (NoReturn, SubDomain i p m c, w)
           | (Terminated, k', w) \<Rightarrow> (Terminated, SubDomain i p m c, w))
      | (Throw e, w) \<Rightarrow> (Throw e, SubDomain i p m c, w)
      | (NoReturn, w) \<Rightarrow> (NoReturn, SubDomain i p m c, w)
      | (Terminated, w) \<Rightarrow> (Terminated, SubDomain i p m c, w))"

section \<open>The domain\<close>

record ('d, 'b) domain =
  isActive :: bool
  subDomain :: "'d sub_domain option"
  domainId :: nat
  notDistributedData :: 'b
  notDistributedVersion :: version_number
  activationVersion :: version_number

definition new_domain :: "'b \<Rightarrow> nat \<Rightarrow> ('d, 'b) domain" where
  "new_domain noData i =
     \<lparr>isActive = False, subDomain = None, domainId = i, notDistributedData = noData, notDistributedVersion = nullVersion,
      activationVersion = nullVersion\<rparr>"

definition orFresh :: "version_number \<Rightarrow> 'h async_world \<Rightarrow> version_number \<times> 'h async_world" where
  "orFresh version w = (if version = nullVersion then fresh_version w else (version, w))"

definition withSubDomain ::
  "('d sub_domain \<Rightarrow> 'h async_world \<Rightarrow> unit outcome \<times> 'd sub_domain \<times> 'h async_world) \<Rightarrow>
   ('d, 'b) domain \<times> 'h async_world \<Rightarrow> 'd sub_domain \<Rightarrow> unit outcome \<times> ('d, 'b) domain \<times> 'h async_world" where
  "withSubDomain f s d = (case f d (snd s) of (r, d, w) \<Rightarrow> (r, (fst s)\<lparr>subDomain := Some d\<rparr>, w))"

definition domain_distribute ::
  "('d, 'b, 'h) async_env \<Rightarrow> 'b \<Rightarrow> version_number \<Rightarrow> ('d, 'b) domain \<times> 'h async_world \<Rightarrow>
     version_number outcome \<times> ('d, 'b) domain \<times> 'h async_world" where
  "domain_distribute E data version s =
     (case orFresh version (snd s) of
        (version, w) \<Rightarrow>
          let D = fst s in
          if \<not> isActive D then (Ret nullVersion, D\<lparr>notDistributedData := data, notDistributedVersion := version\<rparr>, w)
          else if version < activationVersion D then (Ret nullVersion, D, w)
          else (case subDomain D of
              None \<Rightarrow> (Ret nullVersion, D, w)
            | Some d \<Rightarrow> andThen (withSubDomain (sd_distribute E True data version) (D, w) d) (\<lambda>_ s. (Ret version, s))))"

definition domain_activate ::
  "('d, 'b, 'h) async_env \<Rightarrow> 'b \<Rightarrow> version_number \<Rightarrow> ('d, 'b) domain \<times> 'h async_world \<Rightarrow>
     version_number outcome \<times> ('d, 'b) domain \<times> 'h async_world" where
  "domain_activate E data version s =
     (if isActive (fst s) then (Ret nullVersion, s)
      else (case orFresh version (snd s) of
        (version, w) \<Rightarrow>
          let D = (fst s)\<lparr>isActive := True\<rparr> in
          (case subDomain D of
             None \<Rightarrow> (Ret nullVersion, D, w)
           | Some d \<Rightarrow>
               let (data, version) = (if version \<ge> notDistributedVersion D then (data, version)
                                      else (notDistributedData D, notDistributedVersion D)) in
               andThen (withSubDomain (sd_activate E data version) (D, w) d)
                 (\<lambda>_ s. (Ret version, (fst s)\<lparr>activationVersion := version\<rparr>, snd s)))))"

definition domain_deactivate :: "('d, 'b) domain \<Rightarrow> ('d, 'b) domain" where
  "domain_deactivate D = D\<lparr>isActive := False\<rparr>"

definition domain_sendException :: "(nat \<Rightarrow> bool) \<Rightarrow> exn \<Rightarrow> ('d, 'b) domain \<Rightarrow> ('d, 'b) domain" where
  "domain_sendException isLast e D =
     (if \<not> isActive D then D
      else D\<lparr>isActive := False, subDomain := map_option (sd_sendException isLast e) (subDomain D)\<rparr>)"

definition domain_subscribe ::
  "('d, 'b, 'h) async_env \<Rightarrow> (nat list \<Rightarrow> interrupt_controller outcome) \<Rightarrow> (nat list \<Rightarrow> string option) \<Rightarrow>
     'h subscription \<Rightarrow> nat list \<Rightarrow> ('d, 'b) domain \<times> 'h async_world \<Rightarrow> unit outcome \<times> ('d, 'b) domain \<times> 'h async_world" where
  "domain_subscribe E mk realmOf S path s =
     (let D = fst s; d = (case subDomain D of None \<Rightarrow> new_sub_domain [domainId D] | Some d \<Rightarrow> d) in
      case sd_subscribe E mk realmOf (isActive D) S path d (snd s) of
        (r, x, w) \<Rightarrow> (r, D\<lparr>subDomain := keepIfHeld r (subDomain D) x\<rparr>, w))"

end
