(* ===== verification/AsyncDelivery.thy ===== *)
theory AsyncDelivery
  imports AsyncDomains
begin

text \<open>
  What the subscribers of a domain receive: exceptions end the distribution, the newest data
  arrives in the right order around the activation, and a case in which a realm makes the version
  numbers decrease.
\<close>

section \<open>All distributors of a tree\<close>

fun sd_all :: "('d poll_distributor \<Rightarrow> bool) \<Rightarrow> ('d manager \<Rightarrow> bool) \<Rightarrow> 'd sub_domain \<Rightarrow> bool" where
  "sd_all P Q (SubDomain i p m c) =
     ((case p of None \<Rightarrow> True | Some x \<Rightarrow> P x) \<and>
      (case m of None \<Rightarrow> True | Some (k, subs) \<Rightarrow> list_all (\<lambda>(n, x). case x of None \<Rightarrow> True | Some d \<Rightarrow> sd_all P Q d) subs) \<and>
      (case c of None \<Rightarrow> True | Some x \<Rightarrow> Q x))"

fun sd_variables :: "'d sub_domain \<Rightarrow> (nat \<times> 'd async_variable) list" where
  "sd_variables (SubDomain i p m c) =
     (case p of None \<Rightarrow> [] | Some x \<Rightarrow> asyncVariables x) @
     (case m of None \<Rightarrow> [] | Some (k, subs) \<Rightarrow> concat (map (\<lambda>(n, x). case x of None \<Rightarrow> [] | Some d \<Rightarrow> sd_variables d) subs)) @
     (case c of None \<Rightarrow> [] | Some x \<Rightarrow> asyncVariables x)"

lemma sub_domain_induct [case_names SubDomain]:
  assumes "\<And>i p m c. (\<And>k subs n d. m = Some (k, subs) \<Longrightarrow> (n, Some d) \<in> set subs \<Longrightarrow> P d) \<Longrightarrow> P (SubDomain i p m c)"
  shows "P d"
proof (induction d)
  case (SubDomain i p m c)
  show ?case
  proof (rule assms)
    fix k subs n d
    assume "m = Some (k, subs)" "(n, Some d) \<in> set subs"
    then show "P d" by (intro SubDomain[of "(k, subs)" subs "(n, Some d)" "Some d" d]) auto
  qed
qed

section \<open>Exceptions\<close>

definition told :: "exn \<Rightarrow> nat \<times> 'd async_variable \<Rightarrow> nat \<times> 'd async_variable" where
  "told e p = (fst p, send_variable_exception e (snd p))"

lemma exception_loop:
  fixes m :: "('d, 'z) manager_scheme"
  assumes "distinct (map fst (xs @ ys))"
  shows "forEach (\<lambda>i. withSubscriber (isLast i) (\<lambda>x. (Ret (), send_variable_exception e x)) i) (map fst ys)
      (m\<lparr>asyncVariables := xs @ ys, delayedUnsubscriptions := ds, isHoldingDomainLock := True\<rparr>) =
    (Ret (), m\<lparr>asyncVariables := xs @ map (\<lambda>p. if stays isLast p then told e p else (fst p, (snd (told e p))\<lparr>subscribed := False\<rparr>)) ys,
      delayedUnsubscriptions := ds @ map fst (filter (\<lambda>p. \<not> stays isLast p) ys), isHoldingDomainLock := True\<rparr>)"
  using assms
proof (induction ys arbitrary: xs ds)
  case (Cons p ys)
  obtain i x where p: "p = (i, x)" by fastforce
  have d: "distinct (map fst (xs @ (i, x) # ys))" using Cons.prems p by simp
  let ?h = "m\<lparr>delayedUnsubscriptions := ds, isHoldingDomainLock := True\<rparr>"
  define after :: "nat \<times> 'd async_variable \<Rightarrow> nat \<times> 'd async_variable" where
    "after = (\<lambda>p. if stays isLast p then told e p else (fst p, (snd (told e p))\<lparr>subscribed := False\<rparr>))"
  define ds' where "ds' = ds @ map fst (filter (\<lambda>p. \<not> stays isLast p) [p])"
  have look: "map_of (asyncVariables (?h\<lparr>asyncVariables := xs @ (i, x) # ys\<rparr>)) i = Some x" using map_of_middle[OF d] by simp
  have set: "setVariable i z (?h\<lparr>asyncVariables := xs @ (i, x) # ys\<rparr>) = ?h\<lparr>asyncVariables := xs @ (i, z) # ys\<rparr>" for z
    by (rule setVariable_middle[OF d])
  have h: "m\<lparr>asyncVariables := xs @ p # ys, delayedUnsubscriptions := ds, isHoldingDomainLock := True\<rparr> =
      ?h\<lparr>asyncVariables := xs @ (i, x) # ys\<rparr>" by (simp add: p)
  have step: "withSubscriber (isLast i) (\<lambda>x. (Ret (), send_variable_exception e x)) i
      (m\<lparr>asyncVariables := xs @ p # ys, delayedUnsubscriptions := ds, isHoldingDomainLock := True\<rparr>) =
      (Ret (), m\<lparr>asyncVariables := xs @ after p # ys, delayedUnsubscriptions := ds', isHoldingDomainLock := True\<rparr>)"
    unfolding h withSubscriber_def look option.case prod.case Let_def set
    by (auto simp: p stays_def told_def unsubscribe_def after_def ds'_def)
  have i: "fst p = i" "fst (after p) = i" by (simp_all add: p told_def after_def)
  have "ds' @ map fst (filter (\<lambda>p. \<not> stays isLast p) ys) = ds @ map fst (filter (\<lambda>p. \<not> stays isLast p) (p # ys))"
    by (simp add: ds'_def)
  moreover have "distinct (map fst ((xs @ [after p]) @ ys))" using Cons.prems i by simp
  ultimately show ?case using Cons.IH[of "xs @ [after p]" ds'] unfolding after_def[symmetric]
    by (simp only: list.map(2) forEach.simps(2) i(1) step andThen_simps append_assoc append_Cons append_Nil)
qed simp

lemma drop_unsubscribed:
  assumes "distinct (map fst xs)" "\<And>p. fst (f p) = fst p"
  shows "filter (\<lambda>p. fst p \<notin> fst ` {p \<in> set xs. \<not> P p}) (map f xs) = map f (filter P xs)"
proof -
  have "fst p \<in> fst ` {p \<in> set xs. \<not> P p} \<longleftrightarrow> \<not> P p" if "p \<in> set xs" for p
    using that assms(1) inj_on_image_mem_iff[of fst "set xs" p "{p \<in> set xs. \<not> P p}"] by (auto simp: distinct_map)
  then show ?thesis by (auto simp: filter_map comp_def assms(2) intro!: arg_cong[where f = "map f"] filter_cong)
qed

lemma manager_sendException_result:
  assumes "idle m"
  shows "manager_sendException isLast e m = m\<lparr>asyncVariables := map (told e) (filter (stays isLast) (asyncVariables m))\<rparr>"
proof -
  let ?xs = "asyncVariables m"
  let ?after = "\<lambda>p. if stays isLast p then told e p else (fst p, (snd (told e p))\<lparr>subscribed := False\<rparr>)"
  have d: "distinct (map fst ?xs)" and m: "m\<lparr>isHoldingDomainLock := True\<rparr> =
      m\<lparr>asyncVariables := [] @ ?xs, delayedUnsubscriptions := [], isHoldingDomainLock := True\<rparr>"
    using assms by (simp_all add: idle_def)
  have loop: "forEach (\<lambda>i. withSubscriber (isLast i) (\<lambda>x. (Ret (), send_variable_exception e x)) i) (map fst ?xs) (m\<lparr>isHoldingDomainLock := True\<rparr>) =
      (Ret (), m\<lparr>asyncVariables := map ?after ?xs, delayedUnsubscriptions := map fst (filter (\<lambda>p. \<not> stays isLast p) ?xs),
        isHoldingDomainLock := True\<rparr>)"
    unfolding m using exception_loop[where m = m and xs = "[]" and ys = ?xs and ds = "[]" and isLast = isLast and e = e] d by simp
  have "filter (\<lambda>p. fst p \<notin> fst ` {p \<in> set ?xs. \<not> stays isLast p}) (map ?after ?xs) = map ?after (filter (stays isLast) ?xs)"
    by (rule drop_unsubscribed[OF d]) (simp add: told_def)
  also have "\<dots> = map (told e) (filter (stays isLast) ?xs)" by auto
  finally have gone: "filter (\<lambda>p. fst p \<notin> fst ` {p \<in> set ?xs. \<not> stays isLast p}) (map ?after ?xs) =
      map (told e) (filter (stays isLast) ?xs)" .
  show ?thesis unfolding manager_sendException_def Let_def m[symmetric]
    using assms gone by (simp add: loop runDelayed_def fold_unsubscribe idle_def)
qed

lemma sd_sendException_variables:
  "sd_all idle idle d \<Longrightarrow> sd_variables (sd_sendException isLast e d) = map (told e) (filter (stays isLast) (sd_variables d))"
proof (induction d rule: sub_domain_induct)
  case (SubDomain i p m c)
  have "concat (map (\<lambda>(n, x). case x of None \<Rightarrow> [] | Some d \<Rightarrow> sd_variables d)
        (map (\<lambda>(n, x). (n, map_option (sd_sendException isLast e) x)) subs)) =
      map (told e) (filter (stays isLast) (concat (map (\<lambda>(n, x). case x of None \<Rightarrow> [] | Some d \<Rightarrow> sd_variables d) subs)))"
    if m: "m = Some (k, subs)" for k subs
  proof -
    have "(case map_option (sd_sendException isLast e) x of None \<Rightarrow> [] | Some d \<Rightarrow> sd_variables d) =
        map (told e) (filter (stays isLast) (case x of None \<Rightarrow> [] | Some d \<Rightarrow> sd_variables d))" if "(n, x) \<in> set subs" for n x
    proof (cases x)
      case (Some d)
      with SubDomain.prems m that have "sd_all idle idle d" by (auto simp: list_all_iff)
      with SubDomain.IH[OF m] that Some show ?thesis by simp
    qed simp
    then have "\<forall>(n, x)\<in>set subs. (case map_option (sd_sendException isLast e) x of None \<Rightarrow> [] | Some d \<Rightarrow> sd_variables d) =
        map (told e) (filter (stays isLast) (case x of None \<Rightarrow> [] | Some d \<Rightarrow> sd_variables d))" by blast
    then show ?thesis by (induction subs) (auto simp: case_prod_beta)
  qed
  then show ?case using SubDomain.prems
    by (auto simp: manager_sendException_result split: option.splits)
qed

lemma inactive_distributes_nothing:
  "\<not> isActive D \<Longrightarrow> \<exists>D' w'. domain_distribute E data v (D, w) = (Ret nullVersion, D', w') \<and> \<not> isActive D' \<and> subDomain D' = subDomain D"
  by (cases "orFresh v w") (simp add: domain_distribute_def)

text \<open>
  C29: when an exception is sent to an active domain, it is the last thing every subscriber
  receives: all accessors of the tree that still exist get it once, the domain is inactive, and
  neither data nor another exception is passed on until the domain is activated again.
\<close>

theorem exception_ends_distribution:
  fixes D :: "('a, 'b) domain"
  assumes "isActive D" "subDomain D = Some d" "sd_all idle idle d"
  shows "\<exists>D' d'. domain_sendException isLast e D = D' \<and> \<not> isActive D' \<and> subDomain D' = Some d' \<and>
    sd_variables d' = map (told e) (filter (stays isLast) (sd_variables d)) \<and>
    (\<forall>(E :: ('a, 'b, 'c) async_env) data v w. \<exists>D'' w'. domain_distribute E data v (D', w) = (Ret nullVersion, D'', w') \<and>
      \<not> isActive D'' \<and> subDomain D'' = Some d') \<and>
    domain_sendException isLast' e' D' = D'"
proof -
  let ?d = "sd_sendException isLast e d"
  let ?D = "D\<lparr>isActive := False, subDomain := Some ?d\<rparr>"
  have "domain_sendException isLast e D = ?D" "domain_sendException isLast' e' ?D = ?D"
    using assms by (simp_all add: domain_sendException_def)
  moreover have "\<exists>D'' w'. domain_distribute E data v (?D, w) = (Ret nullVersion, D'', w') \<and>
      \<not> isActive D'' \<and> subDomain D'' = Some ?d" for E :: "('a, 'b, 'c) async_env" and data v w
    using inactive_distributes_nothing[of ?D] by simp
  ultimately show ?thesis using sd_sendException_variables[OF assms(3), of isLast e] by (intro exI[of _ ?D] exI[of _ ?d]) simp
qed

text \<open>The accessor 7 of an active domain is told about an error.\<close>

definition one_accessor :: "'d manager" where
  "one_accessor = new_manager\<lparr>asyncVariables := [(7, new_variable)]\<rparr>"

definition domain_with :: "'d manager \<Rightarrow> ('d, unit) domain" where
  "domain_with m = (new_domain () 0)\<lparr>subDomain := Some (SubDomain [0] None None (Some m))\<rparr>"

lemma one_accessor_idle: "idle one_accessor" "asyncVariables one_accessor = [(7, new_variable)]"
  by (simp_all add: one_accessor_def idle_def new_manager_def)

theorem exception_ends_distribution_witness:
  "\<exists>d'. subDomain (domain_sendException (\<lambda>_. False) (RuntimeError ''gone'') ((domain_with one_accessor :: (unit, unit) domain)\<lparr>isActive := True\<rparr>)) = Some d' \<and>
     map (\<lambda>(n, x). (n, pushed x)) (sd_variables d') = [(7, [QueueException (RuntimeError ''gone'')])]"
proof -
  let ?D = "(domain_with one_accessor :: (unit, unit) domain)\<lparr>isActive := True\<rparr>"
  let ?d = "SubDomain [0] None None (Some one_accessor)"
  have "isActive ?D" "subDomain ?D = Some ?d" "sd_all idle idle ?d"
    by (simp_all add: domain_with_def one_accessor_idle)
  from exception_ends_distribution[OF this, of "\<lambda>_. False" "RuntimeError ''gone''"] obtain d' where
    "subDomain (domain_sendException (\<lambda>_. False) (RuntimeError ''gone'') ?D) = Some d'"
    "sd_variables d' = map (told (RuntimeError ''gone'')) (filter (stays (\<lambda>_. False)) (sd_variables ?d))" by blast
  then show ?thesis
    by (simp add: one_accessor_idle stays_def told_def send_variable_exception_def new_variable_def)
qed

section \<open>The initial value\<close>

text \<open>One thread activates a domain with the initial value while another one distributes.\<close>

datatype 'b domain_call = Distribute 'b version_number | Activate 'b version_number

fun domain_run ::
  "('d, 'b, 'h) async_env \<Rightarrow> 'b domain_call list \<Rightarrow> ('d, 'b) domain \<times> 'h async_world \<Rightarrow> unit outcome \<times> ('d, 'b) domain \<times> 'h async_world" where
  "domain_run E [] s = (Ret (), s)"
| "domain_run E (Distribute d v # ops) s = andThen (domain_distribute E d v s) (\<lambda>_. domain_run E ops)"
| "domain_run E (Activate d v # ops) s = andThen (domain_activate E d v s) (\<lambda>_. domain_run E ops)"

lemma domain_run_append: "domain_run E (xs @ ys) s = andThen (domain_run E xs s) (\<lambda>_. domain_run E ys)"
proof (induction E xs s rule: domain_run.induct)
  case (2 E d v ops s)
  then have "domain_run E (ops @ ys) = (\<lambda>s. andThen (domain_run E ops s) (\<lambda>_. domain_run E ys))" by (simp add: fun_eq_iff)
  then show ?case by (simp add: andThen_assoc)
next
  case (3 E d v ops s)
  then have "domain_run E (ops @ ys) = (\<lambda>s. andThen (domain_run E ops s) (\<lambda>_. domain_run E ys))" by (simp add: fun_eq_iff)
  then show ?case by (simp add: andThen_assoc)
qed simp

definition delivery :: "('d, 'b, 'h) async_env \<Rightarrow> nat \<Rightarrow> 'b \<times> version_number \<Rightarrow> 'd queue_item" where
  "delivery E n p = QueueData (sourceValue E (fst p) n) (snd p) ok"

definition deliver :: "('d, 'b, 'h) async_env \<Rightarrow> 'b \<times> version_number \<Rightarrow> 'd manager \<Rightarrow> 'd manager" where
  "deliver E p m = m\<lparr>currentVersion := snd p,
     asyncVariables := map (\<lambda>(n, x). (n, x\<lparr>lastSentVersion := snd p, pushed := pushed x @ [delivery E n p]\<rparr>)) (asyncVariables m)\<rparr>"

definition nobody_leaves :: "('d, 'b, 'h) async_env \<Rightarrow> bool" where
  "nobody_leaves E = (\<forall>n h. \<not> lastOwner E n h)"

definition ready_for :: "version_number \<Rightarrow> 'd manager \<Rightarrow> bool" where
  "ready_for v m = (idle m \<and> list_all (\<lambda>(n, x). subscribed x \<and> lastSentVersion x \<le> v) (asyncVariables m))"

lemma ready_deliver: "ready_for v m \<Longrightarrow> snd p \<le> v' \<Longrightarrow> ready_for v' (deliver E p m)"
  by (auto simp: ready_for_def deliver_def idle_def list_all_iff comp_def case_prod_beta)

lemma variable_distribute_ready:
  assumes "nobody_leaves E" "ready_for v m"
  shows "variable_distribute E True data v (m, w) = (Ret v, deliver E (data, v) m, w)"
proof -
  let ?m = "m\<lparr>currentVersion := v\<rparr>"
  have "idle ?m" "\<forall>(i, x)\<in>set (asyncVariables ?m). lastSentVersion x \<le> fst (snd (variable_fill E data i ?m))"
    using assms(2) by (auto simp: ready_for_def idle_def list_all_iff variable_fill_def)
  from sendAll_result[OF fills_stable(1) this, of True "\<lambda>i. lastOwner E i (device w)"]
  have "sendAll True (\<lambda>i. lastOwner E i (device w)) (variable_fill E data) ?m = (Ret (), ?m\<lparr>asyncVariables :=
      map (sent True (\<lambda>i. variable_fill E data i ?m)) (asyncVariables m)\<rparr>)"
    using assms(1) by (simp add: stays_def nobody_leaves_def)
  moreover have "map (sent True (\<lambda>i. variable_fill E data i ?m)) (asyncVariables m) = asyncVariables (deliver E (data, v) m)"
    using assms(2) by (auto simp: deliver_def sent_def variable_fill_def send_def sendDestructively_def delivery_def ready_for_def list_all_iff)
  ultimately show ?thesis by (simp add: variable_distribute_def deliver_def)
qed

lemmas only_variables = inOrder_def ifPresent_def withSubDomain_def

lemma distribute_ready:
  assumes "nobody_leaves E" "ready_for v m" "isActive D" "subDomain D = Some (SubDomain i None None (Some m))"
    and "v \<noteq> nullVersion" "activationVersion D \<le> v"
  shows "domain_distribute E data v (D, w) = (Ret v, D\<lparr>subDomain := Some (SubDomain i None None (Some (deliver E (data, v) m)))\<rparr>, w)"
  using assms by (simp add: domain_distribute_def orFresh_def only_variables variable_distribute_ready)

lemma activate_ready:
  assumes "nobody_leaves E" "ready_for (max v (notDistributedVersion D)) m" "\<not> isActive D"
    and "subDomain D = Some (SubDomain i None None (Some m))" "v \<noteq> nullVersion"
    and p: "p = (if notDistributedVersion D \<le> v then (data, v) else (notDistributedData D, notDistributedVersion D))"
  shows "domain_activate E data v (D, w) = (Ret (snd p), D\<lparr>isActive := True,
      subDomain := Some (SubDomain i None None (Some (deliver E p m))), activationVersion := snd p\<rparr>, w)"
  using assms(1-5) unfolding p
  by (auto simp: domain_activate_def orFresh_def only_variables variable_distribute_ready max_def split: if_splits)

lemma stored_until_activation:
  assumes "\<not> isActive D" "\<forall>p\<in>set pre. snd p \<noteq> nullVersion"
  shows "domain_run E (map (\<lambda>p. Distribute (fst p) (snd p)) pre) (D, w) =
    (Ret (), if pre = [] then D else D\<lparr>notDistributedData := fst (last pre), notDistributedVersion := snd (last pre)\<rparr>, w)"
  using assms
proof (induction pre arbitrary: D)
  case (Cons p pre)
  have "domain_distribute E (fst p) (snd p) (D, w) = (Ret nullVersion, D\<lparr>notDistributedData := fst p, notDistributedVersion := snd p\<rparr>, w)"
    using Cons.prems by (simp add: domain_distribute_def orFresh_def)
  then show ?case using Cons by simp
qed simp

lemma delivered_in_order:
  assumes "nobody_leaves E" "ready_for b m" "isActive D" "subDomain D = Some (SubDomain i None None (Some m))"
    and "\<forall>p\<in>set post. snd p \<noteq> nullVersion \<and> (activationVersion D \<le> snd p \<longrightarrow> b \<le> snd p)" "sorted_wrt (\<lambda>p q. snd p < snd q) post"
  shows "domain_run E (map (\<lambda>p. Distribute (fst p) (snd p)) post) (D, w) =
    (Ret (), D\<lparr>subDomain := Some (SubDomain i None None (Some (fold (deliver E) (filter (\<lambda>p. activationVersion D \<le> snd p) post) m)))\<rparr>, w)"
  using assms(2-)
proof (induction post arbitrary: D m b)
  case (Cons p post)
  show ?case
  proof (cases "activationVersion D \<le> snd p")
    case False
    then have "domain_distribute E (fst p) (snd p) (D, w) = (Ret nullVersion, D, w)"
      using Cons.prems by (simp add: domain_distribute_def orFresh_def not_le)
    then show ?thesis using Cons.IH[OF Cons.prems(1-3)] Cons.prems False by simp
  next
    case True
    have r: "ready_for (snd p) m" using Cons.prems(1,4) True by (auto simp: ready_for_def list_all_iff)
    let ?D = "D\<lparr>subDomain := Some (SubDomain i None None (Some (deliver E p m)))\<rparr>"
    have "domain_distribute E (fst p) (snd p) (D, w) = (Ret (snd p), ?D, w)"
      using distribute_ready[OF assms(1) r Cons.prems(2,3), of "fst p" w] Cons.prems(4) True by simp
    moreover have "ready_for (snd p) (deliver E p m)" by (rule ready_deliver[OF r]) simp
    ultimately show ?thesis using Cons.IH[of "snd p" "deliver E p m" ?D] Cons.prems(2,4,5) True by (auto simp: less_imp_le)
  qed
next
  case Nil
  then show ?case by simp
qed

lemma delivered: "map (\<lambda>(n, x). (n, pushed x)) (asyncVariables (fold (deliver E) ps m)) =
    map (\<lambda>(n, x). (n, pushed x @ map (delivery E n) ps)) (asyncVariables m)"
  by (induction ps arbitrary: m) (auto simp: deliver_def)

text \<open>
  C28: whatever has been distributed before the activation of a domain and whatever comes after
  it, every subscriber gets the newest of the data first -- the stored one when it is newer than
  the initial value of the activation -- and then everything that is not older, in the order in
  which it is distributed; older data are dropped, and no version number is refused.
\<close>

theorem initial_value_race:
  fixes d :: 'b and v :: version_number and pre post :: "('b \<times> version_number) list"
  assumes "nobody_leaves E" "\<not> isActive D" "subDomain D = Some (SubDomain i None None (Some m))" "notDistributedVersion D = nullVersion"
    and "idle m" "\<forall>(n, x)\<in>set (asyncVariables m). subscribed x \<and> lastSentVersion x \<le> v"
    and "v \<noteq> nullVersion" "\<forall>p\<in>set (pre @ post). snd p \<noteq> nullVersion" "sorted_wrt (\<lambda>p q. snd p < snd q) (pre @ post)"
    and first: "first = (if pre \<noteq> [] \<and> v < snd (last pre) then last pre else (d, v))"
  shows "\<exists>D' m'. domain_run E (map (\<lambda>p. Distribute (fst p) (snd p)) pre @ [Activate d v] @ map (\<lambda>p. Distribute (fst p) (snd p)) post) (D, w) =
      (Ret (), D', w) \<and>
    isActive D' \<and> subDomain D' = Some (SubDomain i None None (Some m')) \<and>
    map (\<lambda>(n, x). (n, pushed x)) (asyncVariables m') =
      map (\<lambda>(n, x). (n, pushed x @ map (delivery E n) (first # filter (\<lambda>p. snd first \<le> snd p) post))) (asyncVariables m)"
proof -
  let ?D = "if pre = [] then D else D\<lparr>notDistributedData := fst (last pre), notDistributedVersion := snd (last pre)\<rparr>"
  have pre: "domain_run E (map (\<lambda>p. Distribute (fst p) (snd p)) pre) (D, w) = (Ret (), ?D, w)"
    using stored_until_activation[OF assms(2), of pre E w] assms(8) by simp
  have le: "v \<le> snd first" unfolding first by auto
  have "ready_for (max v (notDistributedVersion ?D)) m"
    using assms(5,6) unfolding ready_for_def list_all_iff by (auto simp: le_max_iff_disj)
  moreover have "first = (if notDistributedVersion ?D \<le> v then (d, v) else (notDistributedData ?D, notDistributedVersion ?D))"
    unfolding first by (auto simp: assms(4) not_le leD[OF null_least])
  ultimately have act: "domain_activate E d v (?D, w) = (Ret (snd first), ?D\<lparr>isActive := True,
      subDomain := Some (SubDomain i None None (Some (deliver E first m))), activationVersion := snd first\<rparr>, w)"
    using activate_ready[OF assms(1), of v ?D m i first d w] assms(2,3,7) by simp
  define A where "A = ?D\<lparr>isActive := True, subDomain := Some (SubDomain i None None (Some (deliver E first m))), activationVersion := snd first\<rparr>"
  define later where "later = filter (\<lambda>p. snd first \<le> snd p) post"
  have "ready_for (snd first) m" using assms(5,6) le unfolding ready_for_def list_all_iff by fastforce
  then have ready: "ready_for (snd first) (deliver E first m)" by (rule ready_deliver) simp
  have A: "isActive A" "subDomain A = Some (SubDomain i None None (Some (deliver E first m)))" "activationVersion A = snd first"
    by (simp_all add: A_def)
  have "sorted_wrt (\<lambda>p q. snd p < snd q) post" "\<forall>p\<in>set post. snd p \<noteq> nullVersion \<and> (activationVersion A \<le> snd p \<longrightarrow> snd first \<le> snd p)"
    using assms(8,9) by (simp_all add: sorted_wrt_append A)
  from delivered_in_order[OF assms(1) ready A(1,2) this(2,1), of w]
  have "domain_run E (map (\<lambda>p. Distribute (fst p) (snd p)) post) (A, w) = (Ret (), A\<lparr>subDomain :=
      Some (SubDomain i None None (Some (fold (deliver E) (first # later) m)))\<rparr>, w)"
    by (simp only: A(3) later_def fold_Cons comp_apply)
  then have "domain_run E (map (\<lambda>p. Distribute (fst p) (snd p)) pre @ [Activate d v] @ map (\<lambda>p. Distribute (fst p) (snd p)) post) (D, w) =
      (Ret (), A\<lparr>subDomain := Some (SubDomain i None None (Some (fold (deliver E) (first # later) m)))\<rparr>, w)"
    unfolding domain_run_append pre andThen_simps domain_run.simps act A_def .
  moreover have "isActive (A\<lparr>subDomain := s\<rparr>)" "subDomain (A\<lparr>subDomain := s\<rparr>) = s" for s using A(1) by simp_all
  ultimately show ?thesis unfolding later_def[symmetric] using delivered[of E "first # later" m] by blast
qed

text \<open>The data of version 5 are distributed before the activation with an initial value of version 3.\<close>

definition echo_env :: "(nat, nat, unit) async_env" where
  "echo_env =
     \<lparr>readGroup = (\<lambda>i h. (Ret (), h)), keyValue = (\<lambda>i h. 0), syncBuffer = (\<lambda>i n h. (0, ok)), nullData = 0, sourceValue = (\<lambda>b n. b),
      lastOwner = (\<lambda>n h. False), writeRegister = (\<lambda>i name x h. (Ret (), h)), readRegister = (\<lambda>i name h. (Ret 0, h))\<rparr>"

theorem initial_value_race_witness:
  "\<exists>D' m'. domain_run echo_env [Distribute 50 (VersionNumber 5), Activate 30 (VersionNumber 3), Distribute 60 (VersionNumber 6)]
      ((new_domain 0 0)\<lparr>subDomain := Some (SubDomain [0] None None (Some one_accessor))\<rparr>, \<lparr>lastGenerated = 9, realms = (\<lambda>_. empty_realm), device = ()\<rparr>) = (Ret (), D', \<lparr>lastGenerated = 9, realms = (\<lambda>_. empty_realm), device = ()\<rparr>) \<and>
    subDomain D' = Some (SubDomain [0] None None (Some m')) \<and>
    map (\<lambda>(n, x). (n, pushed x)) (asyncVariables m') =
      [(7, [QueueData 50 (VersionNumber 5) ok, QueueData 60 (VersionNumber 6) ok])]"
proof -
  let ?D = "(new_domain 0 0 :: (nat, nat) domain)\<lparr>subDomain := Some (SubDomain [0] None None (Some one_accessor))\<rparr>"
  have "nobody_leaves echo_env" by (simp add: nobody_leaves_def echo_env_def)
  from initial_value_race[OF this, of ?D "[0]" one_accessor "VersionNumber 3" "[(50, VersionNumber 5)]" "[(60, VersionNumber 6)]"
      "(50, VersionNumber 5)" 30 "\<lparr>lastGenerated = 9, realms = (\<lambda>_. empty_realm), device = ()\<rparr>"] show ?thesis
    by (auto simp: one_accessor_idle new_variable_def new_domain_def nullVersion_def less_version_number_def less_eq_version_number_def
        delivery_def echo_env_def)
qed

section \<open>Versions of a realm\<close>

lemma older_version_refused:
  assumes "nobody_leaves E" "asyncVariables m = (n, x) # xs" "subscribed x" "v < lastSentVersion x"
  shows "\<exists>c. variable_distribute E True data v (m, w) = (Throw decreasedVersion, c, w) \<and> isHoldingDomainLock c"
  using assms
  by (simp add: variable_distribute_def sendAll_def sendOne_def withSubscriber_def send_def variable_fill_def nobody_leaves_def setVariable_def)

lemma failed_poll:
  assumes "readGroup E i (device w) = (Throw x, h)" "is_runtime_error x"
  shows "poll_distribute E True i v (p, w) = (Ret v, p\<lparr>currentVersion := v\<rparr>, w\<lparr>device := h\<rparr>)"
  using assms by (simp add: poll_distribute_def prepareIntermediateBuffers_def)

text \<open>A poll that succeeds sends the version of the realm, or the last one if that is newer.\<close>

lemma realm_poll_sends:
  assumes E: "nobody_leaves E" and r: "readGroup E i (device w) = (Ret (), h)" "dataConsistencyRealm p = Some name"
    and g: "getVersion (keyValue E i h) (realms w name) (lastGenerated w) = (u, rest)"
    and p: "idle p" "\<forall>(n, x)\<in>set (asyncVariables p). lastSentVersion x \<le> lastVersion p"
  shows "\<exists>p' w'. poll_distribute E True i v (p, w) = (Ret (max u (lastVersion p)), p', w')"
proof -
  obtain r' g' where g': "getVersion (keyValue E i h) (realms w name) (lastGenerated w) = (u, r', g')" using g by (cases rest) auto
  define w1 where "w1 = w\<lparr>device := h, realms := (realms w)(name := r'), lastGenerated := g'\<rparr>"
  define q where "q = (if lastVersion p \<le> u then p\<lparr>currentVersion := u, lastVersion := u, forceFaulty := False\<rparr>
    else p\<lparr>currentVersion := lastVersion p, forceFaulty := True\<rparr>)"
  have prep: "prepareIntermediateBuffers E i (p\<lparr>currentVersion := v\<rparr>, w) = (Ret True, (q, w1))"
    using r g' by (simp add: prepareIntermediateBuffers_def q_def w1_def Let_def)
  have q: "idle q" "currentVersion q = max u (lastVersion p)" "asyncVariables q = asyncVariables p"
    using p(1) by (auto simp: q_def idle_def max_def)
  have "fst (snd (poll_fill E i k n q)) = max u (lastVersion p)" for k n
    using q(2) by (simp add: poll_fill_def case_prod_beta)
  then have "\<forall>(n, x)\<in>set (asyncVariables q). lastSentVersion x \<le> fst (snd (poll_fill E i (device w1) n q))"
    using p(2) q(3) by (auto simp: max_def intro: order_trans)
  from sendAll_result[OF fills_stable(2) q(1) this, of True "\<lambda>n. lastOwner E n (device w1)"]
  show ?thesis using prep q(2) by (simp add: poll_distribute_def)
qed

lemma activation_refused:
  assumes D: "\<not> isActive D" "subDomain D = Some (SubDomain i (Some p) None (Some c))" "dataConsistencyRealm p = Some name"
    and p: "nobody_leaves E" "idle p" "\<forall>(n, x)\<in>set (asyncVariables p). lastSentVersion x \<le> lastVersion p"
    and c: "asyncVariables c = (n, y) # ys" "subscribed y" "u < lastSentVersion y" "lastVersion p < lastSentVersion y"
    and poll: "orFresh given w = (v, wa)" "readGroup E i (device wa) = (Ret (), h)"
      "getVersion (keyValue E i h) (realms wa name) (lastGenerated wa) = (u, rest)"
  shows "\<exists>D' w' p' c'. domain_activate E data given (D, w) = (Throw decreasedVersion, D', w') \<and> isActive D' \<and>
    subDomain D' = Some (SubDomain i (Some p') None (Some c')) \<and> isHoldingDomainLock c'"
proof -
  have old: "max u (lastVersion p) < lastSentVersion y" using c(3,4) by (simp add: max_def)
  have refused: "\<exists>p' c' w'. sd_activate E b a (SubDomain i (Some p) None (Some c)) wa =
      (Throw decreasedVersion, SubDomain i (Some p') None (Some c'), w') \<and> isHoldingDomainLock c'" for b a
  proof -
    obtain p' w' where p': "poll_distribute E True i a (p, wa) = (Ret (max u (lastVersion p)), p', w')"
      using realm_poll_sends[OF p(1) poll(2) D(3) poll(3) p(2,3)] by blast
    obtain c' where "variable_distribute E True b (max u (lastVersion p)) (c, w') = (Throw decreasedVersion, c', w')" "isHoldingDomainLock c'"
      using older_version_refused[OF p(1) c(1,2) old] by blast
    with p' show ?thesis by (simp add: only_variables)
  qed
  show ?thesis
  proof (cases "notDistributedVersion D \<le> v")
    case True
    obtain p' c' w' where "sd_activate E data v (SubDomain i (Some p) None (Some c)) wa =
      (Throw decreasedVersion, SubDomain i (Some p') None (Some c'), w')" "isHoldingDomainLock c'" using refused by blast
    then show ?thesis using True D(1,2) poll(1)
      by (simp add: domain_activate_def withSubDomain_def del: sd_activate.simps)
  next
    case False
    obtain p' c' w' where "sd_activate E (notDistributedData D) (notDistributedVersion D) (SubDomain i (Some p) None (Some c)) wa =
      (Throw decreasedVersion, SubDomain i (Some p') None (Some c'), w')" "isHoldingDomainLock c'" using refused by blast
    then show ?thesis using False D(1,2) poll(1)
      by (simp add: domain_activate_def withSubDomain_def del: sd_activate.simps)
  qed
qed

text \<open>
  C30: an active domain with subscribers of its trigger, and a poll distributor with a realm.  A poll fails
  while an interrupt is distributed, so the subscribers of the trigger get the version number of the
  distribution, which is newer than the last one of the realm.  After the error has been
  reported, the domain cannot be activated again as long as the key that is read has an older version in
  its realm, as the same key has (\<open>realm_getVersion\<close>): \<open>send\<close> refuses the older version, its
  \<open>logic_error\<close> leaves \<open>activate\<close>, and the domain counts as active with the pointer to the distributor
  still set.  Nobody unsubscribes meanwhile.
\<close>

theorem reactivation_refused:
  fixes D :: "('d, 'b) domain" and E :: "('d, 'b, 'h) async_env"
  assumes tree: "isActive D" "subDomain D = Some (SubDomain i (Some p) None (Some c))" "dataConsistencyRealm p = Some name"
    and subscribers: "nobody_leaves E" "idle p" "\<forall>(n, x)\<in>set (asyncVariables p). lastSentVersion x \<le> lastVersion p"
      "ready_for v c" "asyncVariables c \<noteq> []"
    and failing: "orFresh given w = (v, wd)" "activationVersion D \<le> v" "readGroup E i (device wd) = (Throw x, h)" "is_runtime_error x"
    and later: "orFresh given' wr = (v', wa)" "readGroup E i (device wa) = (Ret (), h')"
    and key: "getVersion (keyValue E i h') (realms wa name) (lastGenerated wa) = (u, rest)" "u < v" "lastVersion p < v"
  shows "\<exists>D1 w1 D' w' p' c'. domain_distribute E data given (D, w) = (Ret v, D1, w1) \<and>
    domain_activate E data' given' (domain_sendException (\<lambda>_. False) e D1, wr) = (Throw decreasedVersion, D', w') \<and>
    isActive D' \<and> subDomain D' = Some (SubDomain i (Some p') None (Some c')) \<and> isHoldingDomainLock c'"
proof -
  let ?p1 = "p\<lparr>currentVersion := v\<rparr>" and ?c1 = "deliver E (data, v) c" and ?w1 = "wd\<lparr>device := h\<rparr>"
  let ?D1 = "D\<lparr>subDomain := Some (SubDomain i (Some ?p1) None (Some ?c1))\<rparr>"
  have dist: "domain_distribute E data given (D, w) = (Ret v, ?D1, ?w1)"
    using tree(1,2) failing(1,2)
    by (simp add: domain_distribute_def only_variables leD[OF failing(2)] failed_poll[OF failing(3,4)] variable_distribute_ready[OF subscribers(1,4)])
  define p2 where "p2 = manager_sendException (\<lambda>_. False) e ?p1"
  define c2 where "c2 = manager_sendException (\<lambda>_. False) e ?c1"
  let ?D2 = "?D1\<lparr>isActive := False, subDomain := Some (SubDomain i (Some p2) None (Some c2))\<rparr>"
  have exc: "domain_sendException (\<lambda>_. False) e ?D1 = ?D2"
    using tree(1) by (simp add: domain_sendException_def p2_def c2_def)
  have all: "filter (stays (\<lambda>_. False)) xs = xs" for xs :: "(nat \<times> 'd async_variable) list"
    by (simp add: stays_def)
  have told: "lastSentVersion (snd (told e y)) = lastSentVersion (snd y)" "subscribed (snd (told e y)) = subscribed (snd y)"
    "fst (told e y) = fst y" for y
    by (simp_all add: told_def send_variable_exception_def)
  have "idle ?p1" using subscribers(2) by (simp add: idle_def)
  then have p2: "p2 = ?p1\<lparr>asyncVariables := map (told e) (asyncVariables p)\<rparr>"
    by (simp add: p2_def manager_sendException_result all)
  have p2': "idle p2" "dataConsistencyRealm p2 = Some name" "lastVersion p2 = lastVersion p"
    "\<forall>(n, x)\<in>set (asyncVariables p2). lastSentVersion x \<le> lastVersion p2"
    using subscribers(2,3) tree(3) by (simp_all add: p2 idle_def comp_def case_prod_beta told)
  have "idle ?c1" using ready_deliver[OF subscribers(4), of "(data, v)" v E] by (simp add: ready_for_def)
  then have c2: "asyncVariables c2 = map (told e) (asyncVariables ?c1)"
    by (simp add: c2_def manager_sendException_result all)
  obtain n y ys where y: "asyncVariables c2 = (n, y) # ys" "subscribed y" "lastSentVersion y = v"
  proof -
    obtain n z zs where z: "asyncVariables c = (n, z) # zs" using subscribers(5) by (cases "asyncVariables c") auto
    then have "subscribed z" using subscribers(4) by (simp add: ready_for_def)
    moreover define z' where "z' = send_variable_exception e (z\<lparr>lastSentVersion := v, pushed := pushed z @ [delivery E n (data, v)]\<rparr>)"
    moreover have "asyncVariables c2 = (n, z') # map (told e) (tl (asyncVariables ?c1))" by (simp add: c2 deliver_def z told_def z'_def)
    ultimately show thesis by (intro that[of n z' "map (told e) (tl (asyncVariables ?c1))"]) (simp_all add: send_variable_exception_def)
  qed
  have "\<exists>D' w' p' c'. domain_activate E data' given' (?D2, wr) = (Throw decreasedVersion, D', w') \<and> isActive D' \<and>
      subDomain D' = Some (SubDomain i (Some p') None (Some c')) \<and> isHoldingDomainLock c'"
    by (rule activation_refused[where p = p2 and c = c2, OF _ _ p2'(2) subscribers(1) p2'(1,4) y(1,2) _ _ later key(1)])
      (simp_all add: key(2,3) y(3) p2'(3))
  then show ?thesis using dist exc by (metis (no_types, lifting))
qed

text \<open>A realm that was asked for the key 1 once; the next poll fails.\<close>

definition realm_env :: "(unit, unit, nat) async_env" where
  "realm_env =
     \<lparr>readGroup = (\<lambda>i h. (if h = 1 then Throw (RuntimeError ''read'') else Ret (), h + 1)), keyValue = (\<lambda>i h. 1),
      syncBuffer = (\<lambda>i n h. ((), ok)), nullData = (), sourceValue = (\<lambda>b n. ()), lastOwner = (\<lambda>n h. False),
      writeRegister = (\<lambda>i name x h. (Ret (), h)), readRegister = (\<lambda>i name h. (Ret 0, h))\<rparr>"

definition realm_poll :: "unit poll_distributor" where
  "realm_poll = (new_poll_distributor (Some ''r''))\<lparr>currentVersion := VersionNumber 2, lastVersion := VersionNumber 2\<rparr>"

definition realm_domain :: "(unit, unit) domain" where
  "realm_domain = (new_domain () 0)\<lparr>isActive := True, activationVersion := VersionNumber 1,
     subDomain := Some (SubDomain [0] (Some realm_poll) None (Some (deliver realm_env ((), VersionNumber 2) one_accessor)))\<rparr>"

definition realm_world :: "64 word \<Rightarrow> nat \<Rightarrow> nat async_world" where
  "realm_world g h = \<lparr>lastGenerated = g, realms = (\<lambda>_. Realm [VersionNumber 2] 1), device = h\<rparr>"

theorem reactivation_refused_witness:
  "\<exists>D1 w1 D' w' p' c'. domain_distribute realm_env () nullVersion (realm_domain, realm_world 2 1) = (Ret (VersionNumber 3), D1, w1) \<and>
    domain_activate realm_env () nullVersion (domain_sendException (\<lambda>_. False) (RuntimeError ''read'') D1, realm_world 3 2) =
      (Throw decreasedVersion, D', w') \<and>
    isActive D' \<and> subDomain D' = Some (SubDomain [0] (Some p') None (Some c')) \<and> isHoldingDomainLock c'"
proof (rule reactivation_refused[where name = "''r''" and wd = "realm_world 3 1" and wa = "realm_world 4 2" and v' = "VersionNumber 4"])
  show "orFresh nullVersion (realm_world 2 1) = (VersionNumber 3, realm_world 3 1)"
    "orFresh nullVersion (realm_world 3 2) = (VersionNumber 4, realm_world 4 2)"
    by (simp_all add: orFresh_def fresh_version_def newVersion_def realm_world_def)
  show "readGroup realm_env [0] (device (realm_world 3 1)) = (Throw (RuntimeError ''read''), 2)"
    "readGroup realm_env [0] (device (realm_world 4 2)) = (Ret (), 3)" by (simp_all add: realm_env_def realm_world_def)
  show "getVersion (keyValue realm_env [0] 3) (realms (realm_world 4 2) ''r'') (lastGenerated (realm_world 4 2)) =
      (VersionNumber 2, Realm [VersionNumber 2] 1, 4)"
    by (simp add: realm_env_def realm_world_def getVersion_def)
  show "isActive realm_domain" "activationVersion realm_domain \<le> VersionNumber 3" "subDomain realm_domain =
      Some (SubDomain [0] (Some realm_poll) None (Some (deliver realm_env ((), VersionNumber 2) one_accessor)))"
    by (simp_all add: realm_domain_def less_eq_version_number_def)
  show "dataConsistencyRealm realm_poll = Some ''r''" "idle realm_poll" "\<forall>(n, x)\<in>set (asyncVariables realm_poll). lastSentVersion x \<le> lastVersion realm_poll"
    "lastVersion realm_poll < VersionNumber 3"
    by (simp_all add: realm_poll_def new_poll_distributor_def idle_def less_version_number_def)
  show "nobody_leaves realm_env" "is_runtime_error (RuntimeError ''read'')" "VersionNumber 2 < VersionNumber 3"
    by (simp_all add: nobody_leaves_def realm_env_def less_version_number_def)
  show "ready_for (VersionNumber 3) (deliver realm_env ((), VersionNumber 2) one_accessor)"
    "asyncVariables (deliver realm_env ((), VersionNumber 2) one_accessor) \<noteq> []"
    by (simp_all add: ready_for_def idle_def deliver_def one_accessor_idle one_accessor_def new_manager_def new_variable_def
        less_eq_version_number_def)
qed

end
