(* ===== verification/TransferStages.thy ===== *)
theory TransferStages
  imports TransferElements
begin

text \<open>
  The stages of an operation of a transfer element (\<^verbatim>\<open>doc/spec_TransferElement.dox\<close>,
  sections B.4 to B.6, B.9.1 and B.11): the interface the base class relies on as the
  locale \<open>te_contract\<close>, and what its operations then do.
\<close>

section \<open>What an operation does to its own element\<close>

definition own_calls :: "nat \<Rightarrow> 'x world \<Rightarrow> te_call list" where
  "own_calls e w = filter (\<lambda>c. call_of c = e) (calls w)"

text \<open>The members of an element that no stage of a transfer changes.\<close>

definition same_setup :: "te \<Rightarrow> te \<Rightarrow> bool" where
  "same_setup t t' = (te_name t' = te_name t \<and> te_flags t' = te_flags t \<and>
     isInTransferGroup t' = isInTransferGroup t \<and> inReadAnyGroup t' = inReadAnyGroup t \<and>
     exceptionBackend t' = exceptionBackend t)"

definition advances :: "nat \<Rightarrow> te_call list \<Rightarrow> 'x world \<Rightarrow> 'x world \<Rightarrow> bool" where
  "advances e cs w w' = (own_calls e w' = own_calls e w @ cs \<and> same_setup (elem w e) (elem w' e))"

text \<open>The members private to the base class are as before.\<close>

definition shielded :: "nat \<Rightarrow> 'x world \<Rightarrow> 'x world \<Rightarrow> bool" where
  "shielded e w w' = (advances e [] w w' \<and>
     readTransactionInProgress (elem w' e) = readTransactionInProgress (elem w e) \<and>
     writeTransactionInProgress (elem w' e) = writeTransactionInProgress (elem w e))"

definition same_exception :: "nat \<Rightarrow> 'x world \<Rightarrow> 'x world \<Rightarrow> bool" where
  "same_exception e w w' = (activeException (elem w' e) = activeException (elem w e))"

definition same_version :: "nat \<Rightarrow> 'x world \<Rightarrow> 'x world \<Rightarrow> bool" where
  "same_version e w w' = (versionNumber (elem w' e) = versionNumber (elem w e))"

named_theorems stage_defs \<open>definitions of the frame conditions of the stages\<close>

lemmas frame_defs [stage_defs] =
  advances_def shielded_def same_exception_def same_version_def same_setup_def

lemma own_calls_logged [simp]:
  "own_calls e (logged c w) = own_calls e w @ (if call_of c = e then [c] else [])"
  by (simp add: own_calls_def logged_def)

lemma own_calls_upd [simp]: "own_calls e (upd e' f w) = own_calls e w"
  by (simp add: own_calls_def upd_def)

lemma elem_logged [simp]: "elem (logged c w) = elem w"
  by (simp add: logged_def)

lemma elem_upd [simp]: "elem (upd e f w) e = f (elem w e)"
  by (simp add: upd_def)

lemma elem_upd_other [simp]: "e' \<noteq> e \<Longrightarrow> elem (upd e f w) e' = elem w e'"
  by (simp add: upd_def)

lemma heap_upd [simp]: "heap (upd e f w) = heap w"
  by (simp add: upd_def)

lemma heap_logged [simp]: "heap (logged c w) = heap w"
  by (simp add: logged_def)

lemma advances_refl [simp]: "advances e [] w w"
  by (simp add: stage_defs)

lemma advances_trans: "advances e cs w w1 \<Longrightarrow> advances e ds w1 w2 \<Longrightarrow> advances e (cs @ ds) w w2"
  by (simp add: stage_defs)

lemma advances_logged: "call_of c = e \<Longrightarrow> advances e cs (logged c w) w' = advances e (c # cs) w w'"
  by (simp add: stage_defs)

lemma shielded_refl [simp]: "shielded e w w"
  by (simp add: stage_defs)

lemma shielded_trans: "shielded e w w1 \<Longrightarrow> shielded e w1 w2 \<Longrightarrow> shielded e w w2"
  by (simp add: stage_defs)

text \<open>A step of one element leaves the base class of another element \<open>e\<close> alone.\<close>

definition untouched :: "nat \<Rightarrow> 'x world \<Rightarrow> 'x world \<Rightarrow> bool" where
  "untouched e w w' = (elem w' e = elem w e \<and> own_calls e w' = own_calls e w)"

lemma untouched_refl [simp]: "untouched e w w"
  by (simp add: untouched_def)

lemma untouched_trans: "untouched e w w1 \<Longrightarrow> untouched e w1 w2 \<Longrightarrow> untouched e w w2"
  by (simp add: untouched_def)

lemma untouched_upds [simp]:
  "e \<noteq> f \<Longrightarrow> untouched e w (upd f g v) = untouched e w v"
  "call_of c \<noteq> e \<Longrightarrow> untouched e w (logged c v) = untouched e w v"
  "e \<noteq> f \<Longrightarrow> untouched e (upd f g v) w = untouched e v w"
  "call_of c \<noteq> e \<Longrightarrow> untouched e (logged c v) w = untouched e v w"
  by (simp_all add: untouched_def own_calls_def upd_def logged_def)

lemma untouched_frames:
  "untouched e w w' \<Longrightarrow> shielded e w w'" "untouched e w w' \<Longrightarrow> same_exception e w w'"
  "untouched e w w' \<Longrightarrow> same_version e w w'"
  by (simp_all add: untouched_def stage_defs)

lemma untouched_shielded: "untouched e w w' \<Longrightarrow> shielded e w w' \<and> same_exception e w w' \<and> same_version e w w'"
  by (simp add: untouched_frames)

text \<open>The report of an operation that ends with the outcome \<open>r\<close> to the backend \<open>b\<close>.\<close>

definition reports :: "nat \<Rightarrow> nat option \<Rightarrow> 'a outcome \<Rightarrow> te_call list" where
  "reports e b r = (case (r, b) of
      (Throw x, Some be) \<Rightarrow> (if is_runtime_error x then [CallSetException e be (what x)] else [])
    | _ \<Rightarrow> [])"

text \<open>
  The stages an operation runs when the pre stage has the outcome \<open>p\<close> and the transfer,
  if it takes place, the outcome \<open>t\<close>; \<open>post\<close> is given the result of a transfer that
  succeeded.
\<close>

definition stage_script ::
  "te_call \<Rightarrow> te_call \<Rightarrow> ('a option \<Rightarrow> te_call) \<Rightarrow> unit outcome \<Rightarrow> 'a outcome \<Rightarrow> te_call list" where
  "stage_script pre transfer post p t = (case p of
      Ret _ \<Rightarrow> pre # transfer # (case t of
          Ret a \<Rightarrow> [post (Some a)]
        | Throw x \<Rightarrow> (if caught_in_transfer x then [post None] else [])
        | _ \<Rightarrow> [])
    | Throw x \<Rightarrow> pre # (if caught_in_pre x then [post None] else [])
    | _ \<Rightarrow> [pre])"

text \<open>The state in which a read operation enters \<open>doPreRead\<close>.\<close>

definition read_started :: "transfer_type \<Rightarrow> nat \<Rightarrow> 'x world \<Rightarrow> 'x world" where
  "read_started ty e w = logged (CallPreRead e ty)
     (upd e (\<lambda>t. t\<lparr>readTransactionInProgress := True\<rparr>)
     (upd e (\<lambda>t. t\<lparr>activeException := None\<rparr>)
     (upd e (\<lambda>t. t\<lparr>readTransactionInProgress := False\<rparr>) w)))"

text \<open>The state in which a write operation enters \<open>doPreWrite\<close>.\<close>

definition write_started :: "transfer_type \<Rightarrow> version_number \<Rightarrow> nat \<Rightarrow> 'x world \<Rightarrow> 'x world" where
  "write_started ty v e w = logged (CallPreWrite e ty v)
     (upd e (\<lambda>t. t\<lparr>writeTransactionInProgress := True\<rparr>)
     (upd e (\<lambda>t. t\<lparr>activeException := None\<rparr>)
     (upd e (\<lambda>t. t\<lparr>writeTransactionInProgress := False\<rparr>) w)))"

text \<open>The post stage of \<open>readNonBlocking\<close>, cut out of its definition.\<close>

definition nonBlocking_post :: "'x te_impl \<Rightarrow> nat \<Rightarrow> bool \<Rightarrow> ('x, bool) action" where
  "nonBlocking_post V e updateDataBuffer w =
     (if \<not> noException e w then
        let previousVersionNumber = versionNumber (elem w e);
            previousDataValidity = dataValidity (elem w e)
        in andThen (postReadAndHandleExceptions V TT_readNonBlocking False e w) (\<lambda>_ w.
             (Ret (previousVersionNumber \<noteq> versionNumber (elem w e) \<or>
                   previousDataValidity \<noteq> dataValidity (elem w e)), w))
      else
        andThen (postReadAndHandleExceptions V TT_readNonBlocking updateDataBuffer e w) (\<lambda>_ w.
          (Ret updateDataBuffer, w)))"

text \<open>The part \<open>write()\<close> and \<open>writeDestructively()\<close> have in common.\<close>

definition write_body ::
  "'x te_impl \<Rightarrow> transfer_type \<Rightarrow> ('x, bool) action \<Rightarrow> version_number \<Rightarrow> nat \<Rightarrow> ('x, bool) action" where
  "write_body V ty T v e w =
     andThen (preWriteAndHandleExceptions V ty v e
         (upd e (\<lambda>t. t\<lparr>writeTransactionInProgress := False\<rparr>) w)) (\<lambda>_ w.
     andThen (if noException e w then handleTransferException e True T w else (Ret True, w))
       (\<lambda>previousDataLost w.
     andThen (postWriteAndHandleExceptions V ty v e w) (\<lambda>_ w. (Ret previousDataLost, w))))"

lemma write_as_body:
  "write_te V v e w = (if isInTransferGroup (elem w e)
     then (Throw (inTransferGroupError (elem w e)), w)
     else write_body V TT_write (writeTransfer V v e) v e w)"
  "writeDestructively_te V v e w = (if isInTransferGroup (elem w e)
     then (Throw (inTransferGroupError (elem w e)), w)
     else write_body V TT_writeDestructively (writeTransferDestructively V v e) v e w)"
  by (simp_all add: write_te_def writeDestructively_te_def write_body_def)

section \<open>The interface of the derived classes\<close>

text \<open>
  The virtual functions of an element cannot reach the private members of their base
  class and run no stage of the element itself; exceptions leave them by being thrown,
  so only the post stage may replace the stored one (a decorator hands it to its target).
  The version number changes in \<open>doPostRead\<close> only.  \<open>setException\<close> returns
  (\<open>setException_never_terminates\<close>).
\<close>

locale te_contract =
  fixes V :: "'x te_impl" and e :: nat
  assumes pre_read: "doPreRead V e ty w = (r, w') \<Longrightarrow> shielded e w w' \<and> same_exception e w w'"
    and sync_read: "doReadTransferSynchronously V e w = (r, w') \<Longrightarrow>
      shielded e w w' \<and> same_exception e w w'"
    and post_read: "doPostRead V e ty u w = (r, w') \<Longrightarrow> shielded e w w'"
    and pre_write: "doPreWrite V e ty v w = (r, w') \<Longrightarrow>
      shielded e w w' \<and> same_exception e w w' \<and> same_version e w w'"
    and write_transfer: "doWriteTransfer V e v w = (br, w') \<Longrightarrow>
      shielded e w w' \<and> same_exception e w w' \<and> same_version e w w'"
    and write_transfer_destructively: "doWriteTransferDestructively V e v w = (br, w') \<Longrightarrow>
      shielded e w w' \<and> same_exception e w w' \<and> same_version e w w'"
    and post_write: "doPostWrite V e ty v w = (r, w') \<Longrightarrow> shielded e w w' \<and> same_version e w w'"
    and pop_wait: "queuePopWait V e w = (r, w') \<Longrightarrow> shielded e w w' \<and> same_exception e w w'"
    and pop: "queuePop V e w = (br, w') \<Longrightarrow> shielded e w w' \<and> same_exception e w w'"
    and set_exception: "backendSetException V be m w = (r, w') \<Longrightarrow>
      r = Ret () \<and> shielded e w w' \<and> same_version e w w'"
begin

lemma async_transfer_frame:
  assumes "\<And>w r w'. action w = (r, w') \<Longrightarrow> shielded e w w' \<and> same_exception e w w'"
    and "orNoReturn (retryOnDiscard action w) w = (r, w')"
  shows "shielded e w w' \<and> same_exception e w w'"
proof (cases "retryOnDiscard action w")
  case None
  then show ?thesis using assms(2) by (simp add: orNoReturn_def stage_defs)
next
  case (Some p)
  have "shielded e w (snd p) \<and> same_exception e w (snd p)"
    by (rule retryOnDiscard_rel[OF Some assms(1)]) (auto simp: stage_defs)
  then show ?thesis using assms(2) Some by (simp add: orNoReturn_def)
qed

lemma readTransfer_frame:
  assumes "readTransfer V e w = (r, w')"
  shows "shielded e (logged (CallReadTransfer e) w) w' \<and> same_exception e w w'"
proof -
  let ?w = "logged (CallReadTransfer e) w"
  have "shielded e ?w w' \<and> same_exception e ?w w'"
  proof (cases "has (te_flags (elem w e)) wait_for_new_data")
    case True
    with assms have "orNoReturn (retryOnDiscard (queuePopWait V e) ?w) ?w = (r, w')"
      by (simp add: readTransfer_def readTransferAsyncWaitingImpl_def Let_def)
    then show ?thesis using async_transfer_frame[of "queuePopWait V e" ?w r w'] pop_wait by blast
  next
    case False
    with assms show ?thesis by (intro sync_read[where r = r]) (simp add: readTransfer_def Let_def)
  qed
  then show ?thesis by (simp add: same_exception_def)
qed

lemma readTransferNonBlocking_frame:
  assumes "readTransferNonBlocking V e w = (r, w')"
  shows "shielded e (logged (CallReadTransferNonBlocking e) w) w' \<and> same_exception e w w'"
proof -
  let ?w = "logged (CallReadTransferNonBlocking e) w"
  have "shielded e ?w w' \<and> same_exception e ?w w'"
  proof (cases "has (te_flags (elem w e)) wait_for_new_data")
    case True
    with assms have "orNoReturn (retryOnDiscard (queuePop V e) ?w) ?w = (r, w')"
      by (simp add: readTransferNonBlocking_def readTransferAsyncNonWaitingImpl_def Let_def)
    then show ?thesis using async_transfer_frame[of "queuePop V e" ?w r w'] pop by blast
  next
    case False
    with assms have a: "andThen (doReadTransferSynchronously V e ?w) (\<lambda>_ w. (Ret True, w)) = (r, w')"
      by (simp add: readTransferNonBlocking_def Let_def)
    obtain q v where q: "doReadTransferSynchronously V e ?w = (q, v)" by fastforce
    with a have "w' = v" by (cases q) auto
    with sync_read[OF q] show ?thesis by simp
  qed
  then show ?thesis by (simp add: same_exception_def)
qed

lemma handleTransfer_stage:
  assumes f: "act w = (t, w1)" and sh: "shielded e (logged c w) w1" "same_exception e w w1"
    and c: "call_of c = e" and h: "handleTransferException e d act w = (r, w')"
  shows "advances e [c] w w' \<and>
    readTransactionInProgress (elem w' e) = readTransactionInProgress (elem w e) \<and>
    writeTransactionInProgress (elem w' e) = writeTransactionInProgress (elem w e) \<and>
    versionNumber (elem w' e) = versionNumber (elem w1 e) \<and>
    r = (case t of Throw x \<Rightarrow> (if caught_in_transfer x then Ret d else Throw x) | _ \<Rightarrow> t) \<and>
    activeException (elem w' e) = (case t of
      Throw x \<Rightarrow> (if caught_in_transfer x then Some x else activeException (elem w e))
    | _ \<Rightarrow> activeException (elem w e))"
proof (cases "\<exists>x. t = Throw x \<and> caught_in_transfer x")
  case True
  then obtain x where "t = Throw x" "caught_in_transfer x" by blast
  moreover from this have "r = Ret d" "w' = storeException e x w1"
    using f h by (simp_all add: handleTransferException_def)
  ultimately show ?thesis using sh c by (simp add: storeException_def stage_defs)
next
  case False
  then have "r = t" "w' = w1"
    using f h by (cases t, simp_all add: handleTransferException_def split: if_splits)+
  with False show ?thesis using sh c by (cases t) (simp_all add: stage_defs)
qed

lemma handlePre_stage:
  assumes f: "function w = (p, w1)" and sh: "shielded e w0 w1" "activeException (elem w1 e) = None"
    and h: "handlePreException e function w = (r, w')"
  shows "shielded e w0 w' \<and> versionNumber (elem w' e) = versionNumber (elem w1 e) \<and>
    r = (case p of Throw x \<Rightarrow> (if caught_in_pre x then Ret () else Terminated) | _ \<Rightarrow> p) \<and>
    activeException (elem w' e) =
      (case p of Throw x \<Rightarrow> (if caught_in_pre x then Some x else None) | _ \<Rightarrow> None) \<and>
    (p = Ret () \<longrightarrow> w' = w1)"
proof (cases "\<exists>x. p = Throw x \<and> caught_in_pre x")
  case True
  then obtain x where "p = Throw x" "caught_in_pre x" by blast
  moreover from this have "r = Ret ()" "w' = storeException e x w1"
    using f h by (simp_all add: handlePreException_def)
  ultimately show ?thesis using sh by (simp add: storeException_def stage_defs)
next
  case False
  then have "w' = w1 \<and> r = (case p of Throw x \<Rightarrow> Terminated | _ \<Rightarrow> p)"
    using f h by (cases p) (auto simp: handlePreException_def split: if_splits)
  with False show ?thesis using sh by (cases p) (auto simp: stage_defs)
qed

lemma report_stage:
  assumes f: "function w = (q, w1)" and h: "reportException V e function w = (r, w')"
  shows "r = q \<and> advances e (reports e (exceptionBackend (elem w1 e)) q) w1 w' \<and>
    readTransactionInProgress (elem w' e) = readTransactionInProgress (elem w1 e) \<and>
    writeTransactionInProgress (elem w' e) = writeTransactionInProgress (elem w1 e) \<and>
    versionNumber (elem w' e) = versionNumber (elem w1 e)"
proof (cases "\<exists>x b. q = Throw x \<and> is_runtime_error x \<and> exceptionBackend (elem w1 e) = Some b")
  case True
  then obtain x b where x: "q = Throw x" "is_runtime_error x" "exceptionBackend (elem w1 e) = Some b"
    by blast
  let ?c = "CallSetException e b (what x)"
  obtain s w2 where s: "backendSetException V b (what x) (logged ?c w1) = (s, w2)" by fastforce
  have "s = Ret ()" "shielded e (logged ?c w1) w2" "same_version e (logged ?c w1) w2"
    using set_exception[OF s] by auto
  moreover from this have "r = q" "w' = w2"
    using f h x s by (simp_all add: reportException_def)
  ultimately show ?thesis using x by (simp add: reports_def stage_defs)
next
  case False
  then have "r = q" "w' = w1" "reports e (exceptionBackend (elem w1 e)) q = []"
    using f h
    by (auto simp: reportException_def reports_def split: outcome.splits option.splits bool.splits)
  then show ?thesis by (simp add: stage_defs)
qed

lemma postRead_stage:
  assumes t: "readTransactionInProgress (elem w e)" and p: "postRead V ty u e w = (r, w')"
  shows "advances e [CallPostRead e ty u] w w' \<and> \<not> readTransactionInProgress (elem w' e) \<and>
    writeTransactionInProgress (elem w' e) = writeTransactionInProgress (elem w e) \<and>
    (r = Ret () \<longrightarrow> activeException (elem w' e) = None)"
proof -
  let ?w = "logged (CallPostRead e ty u) (upd e (\<lambda>t. t\<lparr>readTransactionInProgress := False\<rparr>) w)"
  obtain q w1 where q: "doPostRead V e ty u ?w = (q, w1)" by fastforce
  have "w' = w1 \<and> (r = Ret () \<longrightarrow> activeException (elem w' e) = None)"
    using t p q by (cases q) (auto simp: postRead_def rethrowActive_def split: option.splits)
  with post_read[OF q] show ?thesis by (auto simp: stage_defs)
qed

lemma postReadAndHandle_stage:
  assumes t: "readTransactionInProgress (elem w e)"
    and p: "postReadAndHandleExceptions V ty u e w = (r, w')"
  shows "advances e (CallPostRead e ty u # reports e (exceptionBackend (elem w e)) r) w w' \<and>
    \<not> readTransactionInProgress (elem w' e)"
proof -
  obtain q w1 where q: "postRead V ty u e w = (q, w1)" by fastforce
  note post = postRead_stage[OF t q]
  have "reportException V e (postRead V ty u e) w = (r, w')"
    using p by (simp add: postReadAndHandleExceptions_def)
  note report = report_stage[OF q this]
  have "exceptionBackend (elem w1 e) = exceptionBackend (elem w e)"
    using post by (simp add: stage_defs)
  with post report show ?thesis by (simp add: stage_defs)
qed

lemma preRead_stage:
  assumes p: "doPreRead V e ty (read_started ty e w) = (p, w1)"
    and h: "preReadAndHandleExceptions V ty e (upd e (\<lambda>t. t\<lparr>readTransactionInProgress := False\<rparr>) w) = (r, w')"
  shows "advances e [CallPreRead e ty] w w' \<and> readTransactionInProgress (elem w' e) \<and>
    r = (case p of Throw x \<Rightarrow> (if caught_in_pre x then Ret () else Terminated) | _ \<Rightarrow> p) \<and>
    activeException (elem w' e) =
      (case p of Throw x \<Rightarrow> (if caught_in_pre x then Some x else None) | _ \<Rightarrow> None) \<and>
    (p = Ret () \<longrightarrow> w' = w1)"
proof -
  let ?w = "upd e (\<lambda>t. t\<lparr>readTransactionInProgress := False\<rparr>) w"
  have f: "preRead V ty e ?w = (p, w1)"
    using p by (simp add: preRead_def read_started_def)
  have h': "handlePreException e (preRead V ty e) ?w = (r, w')"
    using h by (simp add: preReadAndHandleExceptions_def)
  have "shielded e (read_started ty e w) w1" "activeException (elem w1 e) = None"
    using pre_read[OF p] by (simp_all add: same_exception_def read_started_def)
  note pre = handlePre_stage[OF f this h']
  have "shielded e (read_started ty e w) w'" using pre by blast
  then have "advances e [CallPreRead e ty] w w' \<and> readTransactionInProgress (elem w' e)"
    by (simp add: stage_defs read_started_def)
  with pre show ?thesis by blast
qed

text \<open>
  The three stages in sequence, for the pre stage with outcome \<open>p\<close>, the transfer with
  outcome \<open>t\<close>, and a post stage that runs only while the transaction is in progress.
\<close>

lemma staged:
  fixes d :: 'a and r :: "'b outcome"
  assumes pre: "advances e [c1] w v1 \<and> busy (elem v1 e) \<and>
      r1 = (case p of Throw x \<Rightarrow> (if caught_in_pre x then Ret () else Terminated) | _ \<Rightarrow> p) \<and>
      activeException (elem v1 e) =
        (case p of Throw x \<Rightarrow> (if caught_in_pre x then Some x else None) | _ \<Rightarrow> None) \<and>
      (p = Ret () \<longrightarrow> v1 = w1)"
    and transfer: "transfer w1 = (t, w2)" "shielded e (logged c2 w1) w2" "same_exception e w1 w2"
      "call_of c2 = e"
    and busy: "busy = readTransactionInProgress \<or> busy = writeTransactionInProgress"
    and post: "\<And>a v r u. busy (elem v e) \<Longrightarrow> post a v = (r, u) \<Longrightarrow>
      advances e (c3 (if noException e v then Some a else None) #
        reports e (exceptionBackend (elem v e)) r) v u"
    and run: "andThen (r1, v1) (\<lambda>_ w. andThen (if noException e w
      then handleTransferException e d transfer w else (Ret d, w)) post) = (r, w')"
  shows "advances e (stage_script c1 c2 c3 p t @ reports e (exceptionBackend (elem w e)) r) w w'"
proof -
  have adv1: "advances e [c1] w v1" and busy1: "busy (elem v1 e)"
    and eb1: "exceptionBackend (elem v1 e) = exceptionBackend (elem w e)"
    using pre by (simp_all add: stage_defs)
  obtain r2 v2 where h: "handleTransferException e d transfer w1 = (r2, v2)" by fastforce
  note tr = handleTransfer_stage[OF transfer h]
  consider (transferred) a where "p = Ret a" | (failed) x where "p = Throw x" "caught_in_pre x"
    | (dead) "\<nexists>a. p = Ret a" "\<nexists>x. p = Throw x \<and> caught_in_pre x"
    by blast
  then show ?thesis
  proof cases
    case transferred
    then have v1: "r1 = Ret ()" "v1 = w1" "noException e w1"
      using pre by (auto simp: noException_def)
    have adv2: "advances e [c1, c2] w v2"
      using advances_trans[OF adv1, of "[c2]" v2] tr v1 by simp
    have busy2: "busy (elem v2 e)" using busy busy1 tr v1 by auto
    have eb2: "exceptionBackend (elem v2 e) = exceptionBackend (elem w e)"
      using tr eb1 v1 by (simp add: stage_defs)
    have run2: "andThen (r2, v2) post = (r, w')" using run v1 h by simp
    show ?thesis
    proof (cases "\<exists>a. r2 = Ret a")
      case True
      then obtain a where a: "r2 = Ret a" ..
      have "noException e v2 \<longrightarrow> t = Ret a" "\<not> noException e v2 \<longrightarrow> (\<exists>x. t = Throw x \<and> caught_in_transfer x)"
        using tr v1 a by (cases t; auto simp: noException_def split: if_splits)+
      with advances_trans[OF adv2 post[OF busy2]] run2 a eb2 transferred show ?thesis
        by (auto simp: stage_script_def split: if_splits)
    next
      case False
      then have "w' = v2 \<and> (\<forall>x. r = Throw x \<longrightarrow> t = Throw x \<and> \<not> caught_in_transfer x) \<and>
          (\<exists>a. t = Ret a) = False \<and> (\<forall>x. t = Throw x \<longrightarrow> \<not> caught_in_transfer x)"
        using run2 tr by (cases t) (auto split: if_splits)
      with transferred adv2 show ?thesis
        by (cases t; cases r) (auto simp: stage_script_def reports_def caught_in_transfer_def split: option.splits)
    qed
  next
    case failed
    then have "r1 = Ret ()" "\<not> noException e v1" using pre by (auto simp: noException_def)
    with advances_trans[OF adv1 post[OF busy1]] run eb1 failed show ?thesis
      by (simp add: stage_script_def)
  next
    case dead
    then have "w' = v1 \<and> (\<forall>x. r \<noteq> Throw x)" using pre run by (cases p) (auto split: if_splits)
    with dead adv1 show ?thesis
      by (cases p; cases r) (auto simp: stage_script_def reports_def)
  qed
qed

lemma read_stages:
  assumes "\<not> isInTransferGroup (elem w e)" "inReadAnyGroup (elem w e) = None"
    and p: "doPreRead V e TT_read (read_started TT_read e w) = (p, w1)"
    and t: "readTransfer V e w1 = (t, w2)"
    and "read_te V e w = (r, w')"
  shows "advances e (stage_script (CallPreRead e TT_read) (CallReadTransfer e)
      (\<lambda>t. CallPostRead e TT_read (t \<noteq> None)) p t @ reports e (exceptionBackend (elem w e)) r) w w'"
proof -
  obtain r1 v1 where p1: "preReadAndHandleExceptions V TT_read e
      (upd e (\<lambda>t. t\<lparr>readTransactionInProgress := False\<rparr>) w) = (r1, v1)" by fastforce
  show ?thesis
    by (rule staged[where busy = readTransactionInProgress and d = "()" and transfer = "readTransfer V e"
          and post = "\<lambda>_ w. postReadAndHandleExceptions V TT_read (noException e w) e w",
          OF preRead_stage[OF p p1] t])
      (use assms p1 readTransfer_frame[OF t] postReadAndHandle_stage in \<open>auto simp: read_te_def\<close>)
qed

lemma readNonBlocking_stages:
  assumes "\<not> isInTransferGroup (elem w e)" "inReadAnyGroup (elem w e) = None"
    and p: "doPreRead V e TT_readNonBlocking (read_started TT_readNonBlocking e w) = (p, w1)"
    and t: "readTransferNonBlocking V e w1 = (t, w2)"
    and r: "readNonBlocking_te V e w = (r, w')"
  shows "advances e (stage_script (CallPreRead e TT_readNonBlocking) (CallReadTransferNonBlocking e)
      (\<lambda>t. CallPostRead e TT_readNonBlocking (t = Some True)) p t @
      reports e (exceptionBackend (elem w e)) r) w w'"
proof -
  obtain r1 v1 where p1: "preReadAndHandleExceptions V TT_readNonBlocking e
      (upd e (\<lambda>t. t\<lparr>readTransactionInProgress := False\<rparr>) w) = (r1, v1)" by fastforce
  show ?thesis
  proof (rule staged[where busy = readTransactionInProgress and d = False
        and transfer = "readTransferNonBlocking V e", OF preRead_stage[OF p p1] t])
    show "shielded e (logged (CallReadTransferNonBlocking e) w1) w2" "same_exception e w1 w2"
      using readTransferNonBlocking_frame[OF t] by auto
    show "andThen (r1, v1) (\<lambda>_ w. andThen (if noException e w
        then handleTransferException e False (readTransferNonBlocking V e) w else (Ret False, w))
        (nonBlocking_post V e)) = (r, w')"
      using assms p1 by (simp add: readNonBlocking_te_def nonBlocking_post_def[abs_def])
  next
    fix a v q u
    assume busy: "readTransactionInProgress (elem v e)" and post: "nonBlocking_post V e a v = (q, u)"
    let ?b = "(if noException e v then Some a else None) = Some True"
    obtain s u1 where s: "postReadAndHandleExceptions V TT_readNonBlocking ?b e v = (s, u1)" by fastforce
    have "u = u1" "reports e (exceptionBackend (elem v e)) q = reports e (exceptionBackend (elem v e)) s"
      using post s by (cases s; auto simp: nonBlocking_post_def reports_def Let_def split: if_splits)+
    with postReadAndHandle_stage[OF busy s]
    show "advances e (CallPostRead e TT_readNonBlocking ?b #
        reports e (exceptionBackend (elem v e)) q) v u" by simp
  qed simp_all
qed

text \<open>Write operations.\<close>

lemma preWrite_stage:
  assumes p: "doPreWrite V e ty v (write_started ty v e w) = (p, w1)"
    and new: "\<not> v < versionNumber (elem w e)"
    and h: "preWriteAndHandleExceptions V ty v e (upd e (\<lambda>t. t\<lparr>writeTransactionInProgress := False\<rparr>) w) = (r, w')"
  shows "advances e [CallPreWrite e ty v] w w' \<and> writeTransactionInProgress (elem w' e) \<and>
    r = (case p of Throw x \<Rightarrow> (if caught_in_pre x then Ret () else Terminated) | _ \<Rightarrow> p) \<and>
    activeException (elem w' e) =
      (case p of Throw x \<Rightarrow> (if caught_in_pre x then Some x else None) | _ \<Rightarrow> None) \<and>
    (p = Ret () \<longrightarrow> w' = w1)" "same_version e w w'"
proof -
  let ?w = "upd e (\<lambda>t. t\<lparr>writeTransactionInProgress := False\<rparr>) w"
  have f: "preWrite V ty v e ?w = (p, w1)"
    using p new by (simp add: preWrite_def write_started_def)
  have h': "handlePreException e (preWrite V ty v e) ?w = (r, w')"
    using h by (simp add: preWriteAndHandleExceptions_def)
  have sh: "shielded e (write_started ty v e w) w1" "activeException (elem w1 e) = None"
    and ver: "same_version e (write_started ty v e w) w1"
    using pre_write[OF p] by (simp_all add: same_exception_def write_started_def)
  note pre = handlePre_stage[OF f sh h']
  have "shielded e (write_started ty v e w) w'" using pre by blast
  then have "advances e [CallPreWrite e ty v] w w' \<and> writeTransactionInProgress (elem w' e)"
    by (simp add: stage_defs write_started_def)
  with pre show "advances e [CallPreWrite e ty v] w w' \<and> writeTransactionInProgress (elem w' e) \<and>
    r = (case p of Throw x \<Rightarrow> (if caught_in_pre x then Ret () else Terminated) | _ \<Rightarrow> p) \<and>
    activeException (elem w' e) =
      (case p of Throw x \<Rightarrow> (if caught_in_pre x then Some x else None) | _ \<Rightarrow> None) \<and>
    (p = Ret () \<longrightarrow> w' = w1)" by blast
  show "same_version e w w'" using pre ver by (simp add: stage_defs write_started_def)
qed

lemma postWrite_stage:
  assumes p: "postWriteAndHandleExceptions V ty v e w = (r, w')"
  shows "advances e ((if writeTransactionInProgress (elem w e) then [CallPostWrite e ty v] else []) @
      reports e (exceptionBackend (elem w e)) r) w w'"
    and "versionNumber (elem w' e) = (if r = Ret () then v else versionNumber (elem w e))"
    and "\<not> writeTransactionInProgress (elem w e) \<Longrightarrow> activeException (elem w e) = Some x \<Longrightarrow> r = Throw x"
proof -
  let ?w = "upd e (\<lambda>t. t\<lparr>writeTransactionInProgress := False\<rparr>) w"
  define cs where "cs = (if writeTransactionInProgress (elem w e) then [CallPostWrite e ty v] else [])"
  define hook where "hook = (if writeTransactionInProgress (elem w e)
    then doPostWrite V e ty v (logged (CallPostWrite e ty v) ?w) else (Ret (), w))"
  obtain h v1 where hv: "hook = (h, v1)" by fastforce
  have adv1: "advances e cs w v1" and ver1: "same_version e w v1"
    using hv post_write[of ty v "logged (CallPostWrite e ty v) ?w" h v1]
    unfolding hook_def cs_def by (auto simp: stage_defs split: if_splits)
  obtain q w1 where q: "postWrite V ty v e w = (q, w1)" by fastforce
  then have body: "andThen hook (\<lambda>_ w. andThen (rethrowActive e w) (\<lambda>_ w.
      (Ret (), upd e (\<lambda>t. t\<lparr>versionNumber := v\<rparr>) w))) = (q, w1)"
    by (simp add: postWrite_def hook_def Let_def split: if_splits)
  have w1: "w1 = (if q = Ret () then upd e (\<lambda>t. t\<lparr>versionNumber := v\<rparr>) v1 else v1)"
    using body hv by (cases h) (auto simp: rethrowActive_def split: option.splits)
  have "reportException V e (postWrite V ty v e) w = (r, w')"
    using p by (simp add: postWriteAndHandleExceptions_def)
  note rep = report_stage[OF q this]
  have eb: "exceptionBackend (elem w1 e) = exceptionBackend (elem w e)"
    and adv2: "advances e cs w w1"
    using adv1 w1 by (simp_all add: stage_defs)
  show "advances e ((if writeTransactionInProgress (elem w e) then [CallPostWrite e ty v] else []) @
      reports e (exceptionBackend (elem w e)) r) w w'"
    using advances_trans[OF adv2] rep eb unfolding cs_def by auto
  show "versionNumber (elem w' e) = (if r = Ret () then v else versionNumber (elem w e))"
    using rep w1 ver1 by (simp add: stage_defs)
  show "r = Throw x" if "\<not> writeTransactionInProgress (elem w e)" "activeException (elem w e) = Some x"
    using that body rep unfolding hook_def by (simp add: rethrowActive_def)
qed

text \<open>
  \<open>write()\<close> and \<open>writeDestructively()\<close> without the check for the transfer group; they
  differ in the type of the transfer and in the function \<open>T\<close> of the transfer stage.
\<close>

lemma write_body_stages:
  assumes T: "\<And>w r w'. T w = (r, w') \<Longrightarrow>
      shielded e (logged c w) w' \<and> same_exception e w w' \<and> same_version e w w'" "call_of c = e"
    and new: "\<not> v < versionNumber (elem w e)"
    and p: "doPreWrite V e ty v (write_started ty v e w) = (p, w1)" and t: "T w1 = (t, w2)"
    and r: "write_body V ty T v e w = (r, w')"
  shows "advances e (stage_script (CallPreWrite e ty v) c (\<lambda>_. CallPostWrite e ty v) p t @
      reports e (exceptionBackend (elem w e)) r) w w'"
proof -
  obtain r1 v1 where p1: "preWriteAndHandleExceptions V ty v e
      (upd e (\<lambda>t. t\<lparr>writeTransactionInProgress := False\<rparr>) w) = (r1, v1)" by fastforce
  let ?post = "\<lambda>previousDataLost w. andThen (postWriteAndHandleExceptions V ty v e w) (\<lambda>_ w.
          (Ret previousDataLost, w))"
  show ?thesis
  proof (rule staged[where busy = writeTransactionInProgress and d = True and transfer = T
        and post = ?post, OF preWrite_stage(1)[OF p new p1] t])
    show "shielded e (logged c w1) w2" "same_exception e w1 w2" "call_of c = e"
      using T t by auto
    show "andThen (r1, v1) (\<lambda>_ w. andThen (if noException e w
        then handleTransferException e True T w else (Ret True, w)) ?post) = (r, w')"
      using r p1 by (simp add: write_body_def)
  next
    fix a x q u
    assume busy: "writeTransactionInProgress (elem x e)" and post: "?post a x = (q, u)"
    obtain s u1 where s: "postWriteAndHandleExceptions V ty v e x = (s, u1)" by fastforce
    have "u = u1 \<and> reports e (exceptionBackend (elem x e)) q = reports e (exceptionBackend (elem x e)) s"
      using post s by (cases s) (auto simp: reports_def)
    with postWrite_stage(1)[OF s] busy show "advances e (CallPostWrite e ty v #
        reports e (exceptionBackend (elem x e)) q) x u" by simp
  qed simp
qed

lemma write_body_old_version:
  assumes old: "v < versionNumber (elem w e)" and r: "write_body V ty T v e w = (r, w')"
  shows "r = Throw (oldVersionError v (elem w e)) \<and> advances e [] w w'"
proof -
  let ?x = "oldVersionError v (elem w e)"
  define w1 where "w1 = storeException e ?x (upd e (\<lambda>t. t\<lparr>activeException := None\<rparr>)
      (upd e (\<lambda>t. t\<lparr>writeTransactionInProgress := False\<rparr>) w))"
  have "oldVersionError v (t\<lparr>writeTransactionInProgress := a, activeException := b\<rparr>) = oldVersionError v t"
    for t a b by (simp add: oldVersionError_def)
  then have pre: "preWriteAndHandleExceptions V ty v e
      (upd e (\<lambda>t. t\<lparr>writeTransactionInProgress := False\<rparr>) w) = (Ret (), w1)"
    using old unfolding w1_def
    by (simp add: preWriteAndHandleExceptions_def handlePreException_def preWrite_def
        caught_in_pre_def oldVersionError_def)
  have act: "activeException (elem w1 e) = Some ?x" "\<not> writeTransactionInProgress (elem w1 e)"
    and same: "advances e [] w w1"
    by (simp_all add: w1_def storeException_def stage_defs)
  obtain s u where s: "postWriteAndHandleExceptions V ty v e w1 = (s, u)" by fastforce
  have "s = Throw ?x" using postWrite_stage(3)[OF s act(2,1)] .
  moreover have "advances e [] w1 u"
    using postWrite_stage(1)[OF s] act \<open>s = Throw ?x\<close> by (simp add: reports_def oldVersionError_def split: option.splits)
  ultimately show ?thesis
    using r pre s act advances_trans[OF same] by (simp add: write_body_def noException_def)
qed

lemma write_body_version:
  assumes T: "\<And>w r w'. T w = (r, w') \<Longrightarrow>
      shielded e (logged c w) w' \<and> same_exception e w w' \<and> same_version e w w'" "call_of c = e"
    and r: "write_body V ty T v e w = (r, w')"
  shows "versionNumber (elem w' e) = (if \<exists>b. r = Ret b then v else versionNumber (elem w e))"
proof -
  let ?w = "upd e (\<lambda>t. t\<lparr>writeTransactionInProgress := False\<rparr>) w"
  obtain r1 v1 where p1: "preWriteAndHandleExceptions V ty v e ?w = (r1, v1)" by fastforce
  have ver1: "same_version e w v1"
  proof (cases "v < versionNumber (elem w e)")
    case True
    then show ?thesis using p1
      by (auto simp: preWriteAndHandleExceptions_def handlePreException_def preWrite_def
          caught_in_pre_def oldVersionError_def storeException_def stage_defs)
  next
    case False
    obtain p w1 where p: "doPreWrite V e ty v (write_started ty v e w) = (p, w1)" by fastforce
    show ?thesis by (rule preWrite_stage(2)[OF p False p1])
  qed
  define tr where "tr = (if noException e v1 then handleTransferException e True T v1 else (Ret True, v1))"
  obtain r2 v2 where t2: "tr = (r2, v2)" by fastforce
  have ver2: "same_version e w v2"
  proof -
    obtain t w2 where t: "T v1 = (t, w2)" by fastforce
    have "same_version e v1 w2" "same_exception e v1 w2" "shielded e (logged c v1) w2" using T t by auto
    with handleTransfer_stage[where act = T, OF t _ _ T(2), of True r2 v2] t2 ver1 show ?thesis
      unfolding tr_def by (auto simp: same_version_def split: if_splits)
  qed
  have body: "andThen (r1, v1) (\<lambda>_ w. andThen (if noException e w
      then handleTransferException e True T w else (Ret True, w)) (\<lambda>b w.
      andThen (postWriteAndHandleExceptions V ty v e w) (\<lambda>_ w. (Ret b, w)))) = (r, w')"
    using r p1 by (simp add: write_body_def)
  obtain s u where s: "postWriteAndHandleExceptions V ty v e v2 = (s, u)" by fastforce
  show ?thesis
  proof (cases "r1 = Ret () \<and> (\<exists>b. r2 = Ret b)")
    case True
    then obtain b where "r2 = Ret b" by blast
    with True have "andThen (s, u) (\<lambda>_ w. (Ret b, w)) = (r, w')"
      using body t2 s unfolding tr_def by simp
    then show ?thesis
      using postWrite_stage(2)[OF s] ver2 by (cases s) (auto simp: same_version_def)
  next
    case False
    then have "(\<nexists>b. r = Ret b) \<and> (w' = v1 \<or> w' = v2)"
      using body t2 unfolding tr_def by (cases r1; cases r2) (auto split: if_splits)
    then show ?thesis using ver1 ver2 by (auto simp: same_version_def)
  qed
qed

lemma writeTransfer_frame:
  "writeTransfer V v e w = (r, w') \<Longrightarrow> shielded e (logged (CallWriteTransfer e v) w) w' \<and>
    same_exception e w w' \<and> same_version e w w'"
  unfolding writeTransfer_def by (drule write_transfer) (simp add: same_exception_def same_version_def)

lemma writeTransferDestructively_frame:
  "writeTransferDestructively V v e w = (r, w') \<Longrightarrow>
    shielded e (logged (CallWriteTransferDestructively e v) w) w' \<and>
    same_exception e w w' \<and> same_version e w w'"
  unfolding writeTransferDestructively_def
  by (drule write_transfer_destructively) (simp add: same_exception_def same_version_def)

end

section \<open>Properties\<close>

text \<open>
  C1: \<open>read()\<close> runs the stages pre, transfer and post of the element in this order and each
  at most once (B.4, B.5): the transfer only after a pre stage without exception, the
  post stage also after an exception that was caught, and then with
  \<open>updateDataBuffer\<close> false; a runtime error that comes out of the post stage has been
  reported to the backend (B.9.1).
\<close>

theorem read_runs_stages:
  assumes "te_contract V e" "\<not> isInTransferGroup (elem w e)" "inReadAnyGroup (elem w e) = None"
    and "doPreRead V e TT_read (read_started TT_read e w) = (p, w1)"
    and "readTransfer V e w1 = (t, w2)" and "read_te V e w = (r, w')"
  shows "own_calls e w' = own_calls e w @
    stage_script (CallPreRead e TT_read) (CallReadTransfer e)
      (\<lambda>t. CallPostRead e TT_read (t \<noteq> None)) p t @
    reports e (exceptionBackend (elem w e)) r"
  using te_contract.read_stages[OF assms] by (simp add: advances_def)

text \<open>An element whose hardware can be made to fail, as an instance of the interface.\<close>

definition sample_impl :: "unit outcome \<Rightarrow> (unit outcome \<times> bool) te_impl" where
  "sample_impl hardware =
     \<lparr>doPreRead = (\<lambda>e ty w. (Ret (), w)),
      doReadTransferSynchronously = (\<lambda>e w. (hardware, w)),
      doPostRead = (\<lambda>e ty u w. (Ret (), w\<lparr>heap := (hardware, u)\<rparr>)),
      doPreWrite = (\<lambda>e ty v w. (Ret (), w)),
      doWriteTransfer = (\<lambda>e v w. (case hardware of Ret _ \<Rightarrow> Ret False | Throw x \<Rightarrow> Throw x
          | NoReturn \<Rightarrow> NoReturn | Terminated \<Rightarrow> Terminated, w)),
      doWriteTransferDestructively = (\<lambda>e v w. (Ret False, w)),
      doPostWrite = (\<lambda>e ty v w. (Ret (), w)),
      queuePopWait = (\<lambda>e w. (Ret (), w)),
      queuePop = (\<lambda>e w. (Ret False, w)),
      backendSetException = (\<lambda>b m w. (Ret (), w))\<rparr>"

lemma sample_contract: "te_contract (sample_impl hardware) e"
  by unfold_locales (auto simp: sample_impl_def stage_defs own_calls_def)

definition sample_world :: "(unit outcome \<times> bool) world" where
  "sample_world =
     \<lparr>elem = (\<lambda>e. (new_te ''adc'' {})\<lparr>exceptionBackend := Some 7, versionNumber := VersionNumber 5\<rparr>),
      calls = [], heap = (Ret (), True)\<rparr>"

lemmas sample_defs = sample_impl_def sample_world_def new_te_def

theorem read_runs_stages_witness:
  "own_calls 1 (snd (read_te (sample_impl (Throw (RuntimeError ''bus''))) 1 sample_world)) =
     [CallPreRead 1 TT_read, CallReadTransfer 1, CallPostRead 1 TT_read False,
      CallSetException 1 7 ''bus'']"
proof -
  let ?V = "sample_impl (Throw (RuntimeError ''bus''))"
  have t: "readTransfer ?V 1 (read_started TT_read 1 sample_world) =
      (Throw (RuntimeError ''bus''), logged (CallReadTransfer 1) (read_started TT_read 1 sample_world))"
    by (simp add: readTransfer_def sample_defs read_started_def upd_def logged_def has_def)
  have r: "fst (read_te ?V 1 sample_world) = Throw (RuntimeError ''bus'')"
    by (simp add: read_te_def preReadAndHandleExceptions_def handlePreException_def preRead_def
        readTransfer_def handleTransferException_def postReadAndHandleExceptions_def
        reportException_def postRead_def rethrowActive_def storeException_def noException_def
        caught_in_transfer_def sample_defs upd_def logged_def has_def)
  have "own_calls 1 (snd (read_te ?V 1 sample_world)) = own_calls 1 sample_world @
      stage_script (CallPreRead 1 TT_read) (CallReadTransfer 1)
        (\<lambda>t. CallPostRead 1 TT_read (t \<noteq> None)) (Ret ()) (Throw (RuntimeError ''bus'') :: unit outcome) @
      reports 1 (exceptionBackend (elem sample_world 1)) (fst (read_te ?V 1 sample_world))"
    by (rule read_runs_stages[OF sample_contract _ _ _ t])
      (simp_all add: sample_defs)
  then show ?thesis
    unfolding r by (simp add: stage_script_def reports_def caught_in_transfer_def own_calls_def sample_defs)
qed

text \<open>
  \<open>readNonBlocking()\<close> runs the same stages; the post stage is told to update the user
  buffer exactly when the transfer delivered a value.
\<close>

theorem readNonBlocking_runs_stages:
  assumes "te_contract V e" "\<not> isInTransferGroup (elem w e)" "inReadAnyGroup (elem w e) = None"
    and "doPreRead V e TT_readNonBlocking (read_started TT_readNonBlocking e w) = (p, w1)"
    and "readTransferNonBlocking V e w1 = (t, w2)" and "readNonBlocking_te V e w = (r, w')"
  shows "own_calls e w' = own_calls e w @
    stage_script (CallPreRead e TT_readNonBlocking) (CallReadTransferNonBlocking e)
      (\<lambda>t. CallPostRead e TT_readNonBlocking (t = Some True)) p t @
    reports e (exceptionBackend (elem w e)) r"
  using te_contract.readNonBlocking_stages[OF assms] by (simp add: advances_def)

theorem readNonBlocking_runs_stages_witness:
  "let r = readNonBlocking_te (sample_impl (Ret ())) 1 sample_world
   in own_calls 1 (snd r) = [CallPreRead 1 TT_readNonBlocking, CallReadTransferNonBlocking 1,
      CallPostRead 1 TT_readNonBlocking True]"
proof -
  let ?V = "sample_impl (Ret ())"
  let ?w = "read_started TT_readNonBlocking 1 sample_world"
  have t: "readTransferNonBlocking ?V 1 ?w = (Ret True, logged (CallReadTransferNonBlocking 1) ?w)"
    by (simp add: readTransferNonBlocking_def sample_defs read_started_def upd_def logged_def has_def)
  have r: "fst (readNonBlocking_te ?V 1 sample_world) = Ret True"
    by (simp add: readNonBlocking_te_def preReadAndHandleExceptions_def handlePreException_def preRead_def
        readTransferNonBlocking_def handleTransferException_def postReadAndHandleExceptions_def
        reportException_def postRead_def rethrowActive_def storeException_def noException_def
        caught_in_transfer_def sample_defs upd_def logged_def has_def)
  have "own_calls 1 (snd (readNonBlocking_te ?V 1 sample_world)) = own_calls 1 sample_world @
      stage_script (CallPreRead 1 TT_readNonBlocking) (CallReadTransferNonBlocking 1)
        (\<lambda>t. CallPostRead 1 TT_readNonBlocking (t = Some True)) (Ret ()) (Ret True) @
      reports 1 (exceptionBackend (elem sample_world 1)) (fst (readNonBlocking_te ?V 1 sample_world))"
    by (rule readNonBlocking_runs_stages[OF sample_contract _ _ _ t]) (simp_all add: sample_defs)
  then show ?thesis
    unfolding r by (simp add: stage_script_def reports_def own_calls_def sample_defs)
qed

text \<open>
  C2: \<open>write()\<close> with a version number that is not older than the element's runs the stages
  pre, transfer and post in this order, each with this version number, and reports a
  runtime error that comes out of the post stage.
\<close>

theorem write_runs_stages:
  assumes "te_contract V e" "\<not> isInTransferGroup (elem w e)" "versionNumber (elem w e) \<le> v"
    and "doPreWrite V e TT_write v (write_started TT_write v e w) = (p, w1)"
    and "writeTransfer V v e w1 = (t, w2)" and "write_te V v e w = (r, w')"
  shows "own_calls e w' = own_calls e w @
    stage_script (CallPreWrite e TT_write v) (CallWriteTransfer e v)
      (\<lambda>_. CallPostWrite e TT_write v) p t @
    reports e (exceptionBackend (elem w e)) r"
proof -
  have "write_body V TT_write (writeTransfer V v e) v e w = (r, w')"
    using assms by (simp add: write_as_body)
  from te_contract.write_body_stages[OF assms(1) te_contract.writeTransfer_frame[OF assms(1)] _ _ assms(4,5) this]
  show ?thesis using assms(3) by (simp add: advances_def)
qed

theorem write_runs_stages_witness:
  "let r = write_te (sample_impl (Throw (RuntimeError ''bus''))) (VersionNumber 9) 1 sample_world
   in own_calls 1 (snd r) = [CallPreWrite 1 TT_write (VersionNumber 9),
      CallWriteTransfer 1 (VersionNumber 9), CallPostWrite 1 TT_write (VersionNumber 9),
      CallSetException 1 7 ''bus'']"
proof -
  let ?V = "sample_impl (Throw (RuntimeError ''bus''))" and ?v = "VersionNumber 9"
  let ?w = "write_started TT_write ?v 1 sample_world"
  have t: "writeTransfer ?V ?v 1 ?w =
      (Throw (RuntimeError ''bus''), logged (CallWriteTransfer 1 ?v) ?w)"
    by (simp add: writeTransfer_def sample_defs)
  have r: "fst (write_te ?V ?v 1 sample_world) = Throw (RuntimeError ''bus'')"
    by (simp add: write_te_def preWriteAndHandleExceptions_def handlePreException_def preWrite_def
        writeTransfer_def handleTransferException_def postWriteAndHandleExceptions_def
        reportException_def postWrite_def rethrowActive_def storeException_def noException_def
        caught_in_transfer_def sample_defs upd_def logged_def less_version_number_def)
  have "own_calls 1 (snd (write_te ?V ?v 1 sample_world)) = own_calls 1 sample_world @
      stage_script (CallPreWrite 1 TT_write ?v) (CallWriteTransfer 1 ?v)
        (\<lambda>_. CallPostWrite 1 TT_write ?v) (Ret ()) (Throw (RuntimeError ''bus'') :: bool outcome) @
      reports 1 (exceptionBackend (elem sample_world 1)) (fst (write_te ?V ?v 1 sample_world))"
    by (rule write_runs_stages[OF sample_contract _ _ _ t])
      (simp_all add: sample_defs less_eq_version_number_def)
  then show ?thesis
    unfolding r by (simp add: stage_script_def reports_def caught_in_transfer_def own_calls_def sample_defs)
qed

text \<open>
  C3: the version number of an element becomes that of the write if the write returns, and
  stays what it was if it throws (B.11.5); a write with an older version number throws
  a \<open>logic_error\<close> before any stage of the implementation runs (B.11.4.1), so version
  numbers never go back.
\<close>

theorem write_version:
  assumes "te_contract V e" and "write_te V v e w = (r, w')"
  shows "versionNumber (elem w' e) = (if \<exists>b. r = Ret b then v else versionNumber (elem w e)) \<and>
    (v < versionNumber (elem w e) \<longrightarrow> (\<exists>x. r = Throw x \<and> is_logic_error x) \<and> own_calls e w' = own_calls e w) \<and>
    versionNumber (elem w e) \<le> versionNumber (elem w' e)"
proof (cases "isInTransferGroup (elem w e)")
  case True
  then show ?thesis using assms(2) by (auto simp: write_te_def inTransferGroupError_def)
next
  case False
  then have body: "write_body V TT_write (writeTransfer V v e) v e w = (r, w')"
    using assms by (simp add: write_as_body)
  have ver: "versionNumber (elem w' e) = (if \<exists>b. r = Ret b then v else versionNumber (elem w e))"
    by (rule te_contract.write_body_version[OF assms(1) _ _ body])
      (rule te_contract.writeTransfer_frame[OF assms(1)], assumption, simp)
  note old = te_contract.write_body_old_version[OF assms(1) _ body]
  show ?thesis
    using ver old by (cases "v < versionNumber (elem w e)")
      (auto simp: advances_def oldVersionError_def not_less)
qed

theorem write_version_witness:
  "let r = write_te (sample_impl (Ret ())) (VersionNumber 9) 1 sample_world
   in versionNumber (elem (snd r) 1) = (if \<exists>b. fst r = Ret b then VersionNumber 9 else versionNumber (elem sample_world 1)) \<and>
     versionNumber (elem sample_world 1) \<le> versionNumber (elem (snd r) 1)"
  using write_version[OF sample_contract[of "Ret ()" 1] prod.collapse[symmetric],
      of "VersionNumber 9" sample_world]
  unfolding Let_def by blast

end
