(* ===== verification/TransferGroups.thy ===== *)
theory TransferGroups
  imports TransferStages
begin

text \<open>
  \<^verbatim>\<open>src/TransferGroup.cc\<close>: a group of transfer elements that are read or written together.
  The sets of the group are ordered by the address of the elements, for which the number
  of the element stands.  What the group asks the elements for is in \<open>group_impl\<close>.
\<close>

section \<open>Data\<close>

record transfer_group =
  highLevelElements :: "nat list"
  lowLevelElements :: "nat list"
  copyDecorators :: "nat list"
  nRuntimeErrors :: nat
  cachedReadableWriteableIsValid :: bool
  group_readable :: bool
  group_writeable :: bool

text \<open>
  The exception flags stored with the low-level elements are set to false and never used,
  so they are left out.  \<open>isCopyDecorator\<close> is the \<open>dynamic_pointer_cast\<close> to
  \<open>CopyRegisterDecoratorTrait\<close>; \<open>replaceIn\<close> is \<open>replaceTransferElement\<close> of an element, and
  \<open>replaceInAbstractor\<close> that of an abstractor, which may get another implementation.
\<close>

record 'x group_impl =
  hardwareElements :: "nat \<Rightarrow> 'x world \<Rightarrow> nat list"
  internalElements :: "nat \<Rightarrow> 'x world \<Rightarrow> nat list"
  elem_isReadable :: "nat \<Rightarrow> 'x world \<Rightarrow> bool"
  elem_isWriteable :: "nat \<Rightarrow> 'x world \<Rightarrow> bool"
  isCopyDecorator :: "nat \<Rightarrow> bool"
  replaceIn :: "nat \<Rightarrow> nat \<Rightarrow> ('x, unit) action"
  replaceInAbstractor :: "nat \<Rightarrow> nat \<Rightarrow> ('x, nat) action"

type_synonym 'x gstate = "transfer_group \<times> 'x world"

definition empty_group :: transfer_group where
  "empty_group = \<lparr>highLevelElements = [], lowLevelElements = [], copyDecorators = [], nRuntimeErrors = 0,
     cachedReadableWriteableIsValid = False, group_readable = False, group_writeable = False\<rparr>"

definition in_world :: "('x, 'a) action \<Rightarrow> 'x gstate \<Rightarrow> 'a outcome \<times> 'x gstate" where
  "in_world f s = (case f (snd s) of (r, w) \<Rightarrow> (r, (fst s, w)))"

section \<open>Read and write\<close>

text \<open>One turn of the loops that look for the first exception.\<close>

definition noteFirst :: "(nat \<Rightarrow> ('x, unit) action) \<Rightarrow> nat \<Rightarrow> exn option \<Rightarrow> 'x world \<Rightarrow> exn option outcome \<times> 'x world" where
  "noteFirst act e first w =
     andThen (act e w) (\<lambda>_ w. (Ret (if first = None then activeException (elem w e) else first), w))"

definition copyLowLevelException :: "nat \<Rightarrow> nat \<Rightarrow> 'x world \<Rightarrow> 'x world" where
  "copyLowLevelException e low w =
     (case activeException (elem w low) of Some x \<Rightarrow> storeException e x w | None \<Rightarrow> w)"

text \<open>
  The loop body of the post stages: \<open>post\<close> is \<open>postReadAndHandleExceptions\<close> or \<open>postWrite\<close>;
  runtime errors are counted, everything else leaves the function.
\<close>

definition countingPost ::
  "'x group_impl \<Rightarrow> (nat \<Rightarrow> ('x, unit) action) \<Rightarrow> nat \<Rightarrow> 'x gstate \<Rightarrow> unit outcome \<times> 'x gstate" where
  "countingPost G post e s =
     (let (g, w) = s;
          w = fold (copyLowLevelException e) (hardwareElements G e w) w
      in case post e w of
           (Throw x, w) \<Rightarrow>
             (if is_runtime_error x then (Ret (), (g\<lparr>nRuntimeErrors := nRuntimeErrors g + 1\<rparr>, w))
              else (Throw x, (g, w)))
         | (r, w) \<Rightarrow> (r, (g, w)))"

definition runPostReads ::
  "'x te_impl \<Rightarrow> 'x group_impl \<Rightarrow> nat list \<Rightarrow> exn option \<Rightarrow> 'x gstate \<Rightarrow> unit outcome \<times> 'x gstate" where
  "runPostReads V G elements firstDetectedRuntimeError s =
     forEach (countingPost G (postReadAndHandleExceptions V TT_read (firstDetectedRuntimeError = None))) elements s"

definition resetErrors :: "'x gstate \<Rightarrow> 'x gstate" where
  "resetErrors s = ((fst s)\<lparr>nRuntimeErrors := 0\<rparr>, snd s)"

text \<open>
  \<open>rethrow_exception\<close> of the first exception; rethrowing a null pointer is undefined, the
  assertion before it stands for \<open>Terminated\<close>.
\<close>

definition rethrowFirst :: "exn option \<Rightarrow> 'x gstate \<Rightarrow> unit outcome \<times> 'x gstate" where
  "rethrowFirst first s =
     (if nRuntimeErrors (fst s) \<noteq> 0 then
        (case first of
           None \<Rightarrow> (Terminated, s)
         | Some x \<Rightarrow> (Throw x, ((fst s)\<lparr>cachedReadableWriteableIsValid := False\<rparr>, snd s)))
      else (Ret (), s))"

definition group_read :: "'x te_impl \<Rightarrow> 'x group_impl \<Rightarrow> 'x gstate \<Rightarrow> unit outcome \<times> 'x gstate" where
  "group_read V G s =
     (let g = fst s in
      andThen (in_world (foldEach (noteFirst (preReadAndHandleExceptions V TT_read)) (highLevelElements g) None) s) (\<lambda>first s.
      andThen (in_world (foldEach (noteFirst (preReadAndHandleExceptions V TT_read)) (copyDecorators g) first) s) (\<lambda>first s.
      andThen (if first = None
               then in_world (foldEach (noteFirst (\<lambda>e. handleTransferException e () (readTransfer V e)))
                 (lowLevelElements g) first) s
               else (Ret first, s)) (\<lambda>first s.
      andThen (runPostReads V G (copyDecorators g) first (resetErrors s)) (\<lambda>_ s.
      andThen (runPostReads V G (highLevelElements g) first (resetErrors s)) (\<lambda>_ s.
      rethrowFirst first s))))))"

definition group_write :: "'x te_impl \<Rightarrow> 'x group_impl \<Rightarrow> version_number \<Rightarrow> 'x gstate \<Rightarrow> unit outcome \<times> 'x gstate" where
  "group_write V G v s =
     (let g = fst s in
      andThen (in_world (foldEach (noteFirst (preWriteAndHandleExceptions V TT_write v)) (highLevelElements g) None) s) (\<lambda>first s.
      andThen (if first = None
               then in_world (foldEach (noteFirst (\<lambda>e. handleTransferException e ()
                   (\<lambda>w. andThen (writeTransfer V v e w) (\<lambda>_ w. (Ret (), w)))))
                 (lowLevelElements g) first) s
               else (Ret first, s)) (\<lambda>first s.
      andThen (forEach (countingPost G (postWrite V TT_write v)) (highLevelElements g) (resetErrors s)) (\<lambda>_ s.
      rethrowFirst first s))))"

section \<open>Members\<close>

definition updateIsReadableWriteable :: "'x group_impl \<Rightarrow> 'x gstate \<Rightarrow> 'x gstate" where
  "updateIsReadableWriteable G s =
     ((fst s)\<lparr>group_readable := list_all (\<lambda>e. elem_isReadable G e (snd s)) (highLevelElements (fst s)),
              group_writeable := list_all (\<lambda>e. elem_isWriteable G e (snd s)) (highLevelElements (fst s)),
              cachedReadableWriteableIsValid := True\<rparr>, snd s)"

definition refreshed :: "'x group_impl \<Rightarrow> 'x gstate \<Rightarrow> 'x gstate" where
  "refreshed G s = (if \<not> cachedReadableWriteableIsValid (fst s) then updateIsReadableWriteable G s else s)"

definition group_isReadable :: "'x group_impl \<Rightarrow> 'x gstate \<Rightarrow> bool \<times> 'x gstate" where
  "group_isReadable G s = (let s = refreshed G s in (group_readable (fst s), s))"

definition group_isWriteable :: "'x group_impl \<Rightarrow> 'x gstate \<Rightarrow> bool \<times> 'x gstate" where
  "group_isWriteable G s = (let s = refreshed G s in (group_writeable (fst s), s))"

definition group_isReadOnly :: "'x group_impl \<Rightarrow> 'x gstate \<Rightarrow> bool \<times> 'x gstate" where
  "group_isReadOnly G s =
     (let (readable, s) = group_isReadable G s; (writeable, s) = (if readable then group_isWriteable G s else (True, s))
      in (readable \<and> \<not> writeable, s))"

definition alreadyInGroup :: exn where
  "alreadyInGroup = LogicError ''The given accessor is already in a TransferGroup and cannot be added to another.''"

definition waitingElement :: exn where
  "waitingElement = LogicError ''A TransferGroup can only be used with transfer elements that don't have aAccessMode::wait_for_new_data.''"

text \<open>\<open>getInternalElements()\<close> with the element itself in front.\<close>

definition replacements :: "'x group_impl \<Rightarrow> nat \<Rightarrow> 'x world \<Rightarrow> nat list" where
  "replacements G e w = e # internalElements G e w"

definition rebuildSets :: "'x group_impl \<Rightarrow> 'x gstate \<Rightarrow> 'x gstate" where
  "rebuildSets G s =
     (let (g, w) = s; hl = highLevelElements g;
          low = fold (\<lambda>e. fold set_insert (hardwareElements G e w)) hl [];
          copies = fold (\<lambda>e. fold set_insert (filter (isCopyDecorator G) (e # internalElements G e w))) hl []
      in (g\<lparr>lowLevelElements := low, copyDecorators := copies, cachedReadableWriteableIsValid := False\<rparr>, w))"

definition addAccessorImpl ::
  "'x group_impl \<Rightarrow> nat \<Rightarrow> bool \<Rightarrow> 'x gstate \<Rightarrow> nat outcome \<times> 'x gstate" where
  "addAccessorImpl G impl isTemporary s =
     (let (g, w) = s; hl = highLevelElements g in
      if isInTransferGroup (elem w impl) then (Throw alreadyInGroup, s)
      else if has (te_flags (elem w impl)) wait_for_new_data then (Throw waitingElement, s)
      else
        let w = upd impl (\<lambda>t. t\<lparr>isInTransferGroup := True\<rparr>) w in
        case andThen (if \<not> isTemporary
                 then foldEach (\<lambda>e impl w. foldEach (\<lambda>r impl. replaceInAbstractor G impl r) (replacements G e w) impl w) hl impl w
                 else (Ret impl, w)) (\<lambda>impl w.
             andThen (forEach (\<lambda>e w. forEach (\<lambda>r w.
                 andThen (replaceIn G impl r w) (\<lambda>_ w. forEach (\<lambda>h. replaceIn G h r) hl w))
               (replacements G e w) w) (set_insert impl hl) w) (\<lambda>_ w.
             (Ret impl, w))) of
          (Ret impl, w) \<Rightarrow> (Ret impl, rebuildSets G (g\<lparr>highLevelElements := set_insert impl hl\<rparr>, w))
        | (r, w) \<Rightarrow> (r, (g, w)))"

end
