(* ===== verification/GroupStages.thy ===== *)
theory GroupStages
  imports TransferGroups
begin

text \<open>
  The operations of a transfer group run the stages of their elements (sections B.12.9 to
  B.12.12 of \<^verbatim>\<open>doc/spec_TransferElement.dox\<close>): locale \<open>group_contract\<close> is what the group
  relies on of its elements.
\<close>

section \<open>Loops seen from one element\<close>

lemma forEach_foldEach: "forEach body xs w = foldEach (\<lambda>x _ . body x) xs () w"
  by (induction xs arbitrary: w) (auto intro!: arg_cong2[where f = andThen] ext)

lemma foldEach_throws:
  assumes "\<And>x a w y w'. body x a w = (Throw y, w') \<Longrightarrow> P y" and "foldEach body es a w = (Throw y, w')"
  shows "P y"
  using assms(2) by (induction es arbitrary: a w) (auto elim!: andThen_cases intro: assms(1))

lemma forEach_throws:
  assumes "\<And>x w y w'. body x w = (Throw y, w') \<Longrightarrow> P y" and "forEach body es w = (Throw y, w')"
  shows "P y"
  using foldEach_throws[of "\<lambda>x _. body x" P es "()" w y w'] assms by (simp add: forEach_foldEach)

text \<open>Only exceptions that are no runtime errors leave the loops early.\<close>

lemma countingPost_throws: "countingPost G post x s = (Throw y, s') \<Longrightarrow> \<not> is_runtime_error y"
  by (auto simp: countingPost_def Let_def split: prod.splits outcome.splits if_splits)

lemma transfer_throws:
  assumes "foldEach (noteFirst (\<lambda>e. handleTransferException e () (act e))) es a w = (Throw y, w')"
  shows "\<not> is_runtime_error y"
proof (rule foldEach_throws[OF _ assms])
  fix x a w y w'
  assume "noteFirst (\<lambda>e. handleTransferException e () (act e)) x a w = (Throw y, w')"
  then show "\<not> is_runtime_error y"
    by (auto simp: noteFirst_def handleTransferException_def caught_in_transfer_def
        split: prod.splits outcome.splits if_splits elim!: andThen_cases)
qed

lemma in_world_cases:
  assumes "in_world f s = (r, s')"
  obtains w' where "f (snd s) = (r, w')" "s' = (fst s, w')"
  using assms by (auto simp: in_world_def split: prod.splits)

section \<open>What the group relies on\<close>

text \<open>The functions of element \<open>f\<close> leave the base class of element \<open>e\<close> alone.\<close>

definition leaves_alone :: "'x te_impl \<Rightarrow> nat \<Rightarrow> nat \<Rightarrow> bool" where
  "leaves_alone V f e \<longleftrightarrow>
     (\<forall>ty w r w'. doPreRead V f ty w = (r, w') \<longrightarrow> untouched e w w') \<and>
     (\<forall>w r w'. doReadTransferSynchronously V f w = (r, w') \<longrightarrow> untouched e w w') \<and>
     (\<forall>ty u w r w'. doPostRead V f ty u w = (r, w') \<longrightarrow> untouched e w w') \<and>
     (\<forall>ty v w r w'. doPreWrite V f ty v w = (r, w') \<longrightarrow> untouched e w w') \<and>
     (\<forall>v w r w'. doWriteTransfer V f v w = (r, w') \<longrightarrow> untouched e w w') \<and>
     (\<forall>ty v w r w'. doPostWrite V f ty v w = (r, w') \<longrightarrow> untouched e w w') \<and>
     (\<forall>w r w'. queuePopWait V f w = (r, w') \<longrightarrow> untouched e w w') \<and>
     (\<forall>b m w r w'. backendSetException V b m w = (r, w') \<longrightarrow> untouched e w w')"

lemma leaves_aloneD:
  assumes "leaves_alone V f e"
  shows "doPreRead V f ty w = (r, w') \<Longrightarrow> untouched e w w'"
    and "doReadTransferSynchronously V f w = (r, w') \<Longrightarrow> untouched e w w'"
    and "doPostRead V f ty u w = (r, w') \<Longrightarrow> untouched e w w'"
    and "doPreWrite V f ty v w = (r, w') \<Longrightarrow> untouched e w w'"
    and "doWriteTransfer V f v w = (rb, w') \<Longrightarrow> untouched e w w'"
    and "doPostWrite V f ty v w = (r, w') \<Longrightarrow> untouched e w w'"
    and "queuePopWait V f w = (r, w') \<Longrightarrow> untouched e w w'"
    and "backendSetException V b m w = (r, w') \<Longrightarrow> untouched e w w'"
  using assms unfolding leaves_alone_def by auto

lemma handlePreException_untouched:
  assumes "f \<noteq> e" "\<And>r w'. act w = (r, w') \<Longrightarrow> untouched e w w'" "handlePreException f act w = (r, w')"
  shows "untouched e w w'"
  using assms by (auto simp: handlePreException_def storeException_def split: prod.splits outcome.splits if_splits)

lemma rethrowActive_same: "rethrowActive f w = (r, w') \<Longrightarrow> w' = w"
  by (simp add: rethrowActive_def split: option.splits)

text \<open>The log of an element without its reports to the backend.\<close>

fun is_report :: "te_call \<Rightarrow> bool" where
  "is_report (CallSetException e b m) = True"
| "is_report _ = False"

definition stage_calls :: "nat \<Rightarrow> 'x world \<Rightarrow> te_call list" where
  "stage_calls e w = filter (\<lambda>c. \<not> is_report c) (own_calls e w)"

lemma reports_is_report: "filter (\<lambda>c. \<not> is_report c) (reports e b r) = []"
  by (auto simp: reports_def split: outcome.splits option.splits)

lemma stage_calls_simps [simp]:
  "stage_calls e (upd f h w) = stage_calls e w"
  "stage_calls e (storeException f x w) = stage_calls e w"
  by (simp_all add: stage_calls_def storeException_def)

lemma untouched_view:
  assumes "untouched e w w'"
  shows "stage_calls e w' = stage_calls e w" "elem w' e = elem w e"
  using assms by (simp_all add: untouched_def stage_calls_def)

lemma upd_idle:
  "\<not> readTransactionInProgress (elem w e) \<Longrightarrow> upd e (\<lambda>t. t\<lparr>readTransactionInProgress := False\<rparr>) w = w"
  "\<not> writeTransactionInProgress (elem w e) \<Longrightarrow> upd e (\<lambda>t. t\<lparr>writeTransactionInProgress := False\<rparr>) w = w"
  by (simp_all add: upd_def fun_upd_idem)

locale group_contract =
  fixes V :: "'x te_impl" and S :: "nat set"
  assumes contract: "e \<in> S \<Longrightarrow> te_contract V e"
    and isolated: "e \<in> S \<Longrightarrow> f \<noteq> e \<Longrightarrow> leaves_alone V f e"
begin

lemma preRead_other:
  assumes "e \<in> S" "f \<noteq> e" "preReadAndHandleExceptions V ty f w = (r, w')"
  shows "untouched e w w'"
proof -
  note alone = leaves_aloneD(1)[OF isolated[OF assms(1,2)]]
  have "untouched e w w'" if "preRead V ty f w = (r, w')" for r w'
    using that assms(2) by (auto simp: preRead_def Let_def split: if_splits dest!: alone)
  then show ?thesis using assms(2,3) handlePreException_untouched
    unfolding preReadAndHandleExceptions_def by metis
qed

lemma postRead_other:
  assumes "e \<in> S" "f \<noteq> e" "postReadAndHandleExceptions V ty u f w = (r, w')"
  shows "untouched e w w'"
proof -
  note alone = leaves_aloneD[OF isolated[OF assms(1,2)]]
  have p: "untouched e w w'" if "postRead V ty u f w = (r, w')" for r w'
    using that assms(2) by (auto simp: postRead_def Let_def split: if_splits elim!: andThen_cases
        dest!: alone(3) rethrowActive_same)
  show ?thesis using assms(2,3)
    by (auto simp: postReadAndHandleExceptions_def reportException_def split: prod.splits outcome.splits
        option.splits bool.splits elim!: andThen_cases dest!: p alone(8) intro: untouched_trans)
qed

text \<open>What a stage adds to the log of its own element.\<close>

abbreviation (input) read_view :: "nat \<Rightarrow> 'x world \<Rightarrow> te_call list \<times> bool" where
  "read_view e w \<equiv> (stage_calls e w, readTransactionInProgress (elem w e))"

lemma advances_stage_calls: "advances e cs w w' \<Longrightarrow> stage_calls e w' = stage_calls e w @ filter (\<lambda>c. \<not> is_report c) cs"
  by (simp add: advances_def stage_calls_def)

lemma preRead_own:
  assumes e: "e \<in> S" and r: "preReadAndHandleExceptions V ty e w = (Ret (), w')"
  shows "read_view e w' = (\<lambda>(l, b). (if b then l else l @ [CallPreRead e ty], True)) (read_view e w)"
proof (cases "readTransactionInProgress (elem w e)")
  case True
  then show ?thesis using r by (simp add: preReadAndHandleExceptions_def handlePreException_def preRead_def)
next
  case False
  obtain p w1 where p: "doPreRead V e ty (read_started ty e w) = (p, w1)" by fastforce
  from te_contract.preRead_stage[OF contract[OF e] p, of "Ret ()" w'] r False show ?thesis
    by (auto simp: upd_idle dest!: advances_stage_calls)
qed

lemma postRead_own:
  assumes e: "e \<in> S" and r: "postReadAndHandleExceptions V ty u e w = (r, w')"
  shows "read_view e w' = (\<lambda>(l, b). (if b then l @ [CallPostRead e ty u] else l, False)) (read_view e w)"
proof (cases "readTransactionInProgress (elem w e)")
  case True
  then show ?thesis using te_contract.postReadAndHandle_stage[OF contract[OF e] True r]
    by (auto dest!: advances_stage_calls simp: reports_is_report)
next
  case False
  obtain q w1 where q: "postRead V ty u e w = (q, w1)" by fastforce
  then have "w1 = w" using False by (auto simp: postRead_def dest: rethrowActive_same)
  moreover have "reportException V e (postRead V ty u e) w = (r, w')"
    using r by (simp add: postReadAndHandleExceptions_def)
  note te_contract.report_stage[OF contract[OF e] q this]
  ultimately show ?thesis using False by (auto dest!: advances_stage_calls simp: reports_is_report)
qed

end

end
