(* ===== verification/ReadAnyGroups.thy ===== *)
theory ReadAnyGroups
  imports GroupStages
begin

text \<open>
  \<^verbatim>\<open>include/ReadAnyGroup.h\<close>: waiting for an update of any element of a group.  The queue
  of notifications (\<^verbatim>\<open>cppext::when_any\<close>) and the look into the queue of an element are
  parameters (\<open>any_queues\<close>); \<open>pop_wait\<close> on the queue of an element is that of \<open>te_impl\<close>.
  The ID of an element is its number.
\<close>

section \<open>Data\<close>

text \<open>
  \<open>_lastOperationIndex\<close>: \<open>NoOperation\<close> stands for \<open>numeric_limits<size_t>::max()\<close> and
  \<open>Discarded\<close> for the value below it.
\<close>

datatype last_operation = NoOperation | Discarded | LastIndex nat

record read_any_group =
  groupId :: nat
  isFinalised :: bool
  push_elements :: "nat list"
  poll_elements :: "nat list"
  lastOperation :: last_operation

record notification =
  accepted :: bool
  index :: nat
  valid :: bool

record 'x any_queues =
  notificationPopWait :: "('x, nat) action"
  notificationEmpty :: "'x world \<Rightarrow> bool"
  notificationFront :: "'x world \<Rightarrow> nat"
  notificationPop :: "'x world \<Rightarrow> 'x world"
  elementFront :: "nat \<Rightarrow> ('x, unit) action"
  elementPop :: "nat \<Rightarrow> ('x, unit) action"

type_synonym 'x ragstate = "read_any_group \<times> 'x world"

definition new_group :: "nat \<Rightarrow> read_any_group" where
  "new_group i = \<lparr>groupId = i, isFinalised = False, push_elements = [], poll_elements = [], lastOperation = NoOperation\<rparr>"

definition emptyNotification :: notification where
  "emptyNotification = \<lparr>accepted = False, index = 0, valid = False\<rparr>"

definition newNotification :: "nat \<Rightarrow> notification" where
  "newNotification i = \<lparr>accepted = False, index = i, valid = True\<rparr>"

definition isReady :: "notification \<Rightarrow> bool" where
  "isReady n = (valid n \<and> \<not> accepted n)"

definition invalidNotification :: exn where
  "invalidNotification = LogicError ''This notification object is invalid.''"

definition getIndex :: "notification \<Rightarrow> nat outcome" where
  "getIndex n = (if \<not> valid n then Throw invalidNotification else Ret (index n))"

definition getId :: "read_any_group \<Rightarrow> notification \<Rightarrow> nat outcome" where
  "getId g n = (if \<not> valid n then Throw invalidNotification else Ret (push_elements g ! index n))"

section \<open>Building the group\<close>

definition add_element :: "(nat \<Rightarrow> bool) \<Rightarrow> nat \<Rightarrow> 'x ragstate \<Rightarrow> unit outcome \<times> 'x ragstate" where
  "add_element isReadable e s =
     (let (g, w) = s in
      if isFinalised g then (Throw (LogicError ''ReadAnyGroup has already been finalised, calling add() is no longer allowed.''), s)
      else if \<not> isReadable e then (Throw (LogicError (''Cannot add non-readable accessor for register '' @ te_name (elem w e) @ '' to ReadAnyGroup.'')), s)
      else if inReadAnyGroup (elem w e) = Some (groupId g) then (Ret (), s)
      else if inReadAnyGroup (elem w e) \<noteq> None then (Throw (LogicError (te_name (elem w e) @ '' is already in a different ReadAnyGroup'')), s)
      else
        let g = (if has (te_flags (elem w e)) wait_for_new_data then g\<lparr>push_elements := push_elements g @ [e]\<rparr>
                 else g\<lparr>poll_elements := poll_elements g @ [e]\<rparr>);
            w = (if has (te_flags (elem w e)) wait_for_new_data then upd e (\<lambda>t. t\<lparr>inReadAnyGroup := Some (groupId g)\<rparr>) w
                 else w)
        in (Ret (), (g, w)))"

definition finalise :: "'x ragstate \<Rightarrow> unit outcome \<times> 'x ragstate" where
  "finalise s =
     (let (g, w) = s in
      if isFinalised g then (Throw (LogicError ''ReadAnyGroup has already been finalised, calling finalise() is no longer allowed.''), s)
      else if push_elements g = [] then (Throw (LogicError ''no element with AccessMode::wait_for_new_data''), s)
      else (Ret (), (g\<lparr>isFinalised := True\<rparr>, w)))"

text \<open>The constructors from a list of elements.\<close>

definition group_of :: "(nat \<Rightarrow> bool) \<Rightarrow> nat \<Rightarrow> nat list \<Rightarrow> 'x world \<Rightarrow> unit outcome \<times> 'x ragstate" where
  "group_of isReadable i es w =
     andThen (forEach (add_element isReadable) es (new_group i, w)) (\<lambda>_ s. finalise s)"

text \<open>The move assignment of group \<open>i\<close> from \<open>other\<close>, which loses its elements.\<close>

definition move_group :: "nat \<Rightarrow> 'x ragstate \<Rightarrow> read_any_group \<times> 'x ragstate" where
  "move_group i s =
     (let (other, w) = s
      in (other\<lparr>push_elements := [], poll_elements := []\<rparr>,
          (other\<lparr>groupId := i\<rparr>, fold (\<lambda>e. upd e (\<lambda>t. t\<lparr>inReadAnyGroup := Some i\<rparr>)) (push_elements other) w)))"

section \<open>Waiting and accepting\<close>

definition in_rag :: "('x, 'a) action \<Rightarrow> 'x ragstate \<Rightarrow> 'a outcome \<times> 'x ragstate" where
  "in_rag f s = (case f (snd s) of (r, w) \<Rightarrow> (r, (fst s, w)))"

definition handlePreRead :: "'x te_impl \<Rightarrow> 'x ragstate \<Rightarrow> unit outcome \<times> 'x ragstate" where
  "handlePreRead V s =
     (case lastOperation (fst s) of
        NoOperation \<Rightarrow> in_rag (forEach (preRead V TT_read) (push_elements (fst s))) s
      | Discarded \<Rightarrow> (Ret (), s)
      | LastIndex i \<Rightarrow> in_rag (preRead V TT_read (push_elements (fst s) ! i)) s)"

definition waitAny :: "'x te_impl \<Rightarrow> 'x any_queues \<Rightarrow> 'x ragstate \<Rightarrow> notification outcome \<times> 'x ragstate" where
  "waitAny V Q s =
     andThen (handlePreRead V s) (\<lambda>_ s.
     andThen (in_rag (notificationPopWait Q) s) (\<lambda>i s. (Ret (newNotification i), s)))"

definition setLast :: "last_operation \<Rightarrow> 'x ragstate \<Rightarrow> 'x ragstate" where
  "setLast l s = ((fst s)\<lparr>lastOperation := l\<rparr>, snd s)"

definition acceptPost :: "'x te_impl \<Rightarrow> nat \<Rightarrow> bool \<Rightarrow> 'x ragstate \<Rightarrow> bool outcome \<times> 'x ragstate" where
  "acceptPost V i hasSeenException s =
     andThen (in_rag (postRead V TT_read (\<not> hasSeenException) (push_elements (fst s) ! i)) (setLast (LastIndex i) s))
       (\<lambda>_ s. (Ret True, s))"

definition accept :: "'x te_impl \<Rightarrow> notification \<Rightarrow> 'x ragstate \<Rightarrow> bool outcome \<times> 'x ragstate" where
  "accept V n s =
     (if \<not> valid n then (Throw invalidNotification, s)
      else if accepted n then (Throw (LogicError ''This notification has already been accepted.''), s)
      else
        let e = push_elements (fst s) ! index n in
        case in_rag (queuePopWait V e) s of
          (Ret _, s) \<Rightarrow> acceptPost V (index n) False s
        | (Throw x, s) \<Rightarrow>
            (if caught_in_transfer x then acceptPost V (index n) True (fst s, storeException e x (snd s))
             else if x = DiscardValue then (Ret False, setLast Discarded s)
             else (Throw x, s))
        | (NoReturn, s) \<Rightarrow> (NoReturn, s)
        | (Terminated, s) \<Rightarrow> (Terminated, s))"

text \<open>The destructor and the assignment of a notification, which must not throw.\<close>

definition acceptOrTerminate :: "'x te_impl \<Rightarrow> notification \<Rightarrow> 'x ragstate \<Rightarrow> unit outcome \<times> 'x ragstate" where
  "acceptOrTerminate V n s =
     (if isReady n then
        (case accept V n s of (Throw x, s) \<Rightarrow> (Terminated, s) | (Ret _, s) \<Rightarrow> (Ret (), s)
         | (NoReturn, s) \<Rightarrow> (NoReturn, s) | (Terminated, s) \<Rightarrow> (Terminated, s))
      else (Ret (), s))"

text \<open>The assignment \<open>n = std::move(other)\<close>: the new values of \<open>n\<close> and \<open>other\<close>.\<close>

definition assignNotification ::
  "'x te_impl \<Rightarrow> notification \<Rightarrow> notification \<Rightarrow> 'x ragstate \<Rightarrow> (notification \<times> notification) outcome \<times> 'x ragstate" where
  "assignNotification V n other s =
     andThen (acceptOrTerminate V n s) (\<lambda>_ s. (Ret (other, other\<lparr>valid := False\<rparr>), s))"

definition processPolled :: "'x te_impl \<Rightarrow> 'x ragstate \<Rightarrow> unit outcome \<times> 'x ragstate" where
  "processPolled V s = in_rag (forEach (\<lambda>e w.
       if \<not> has (te_flags (elem w e)) wait_for_new_data then andThen (readLatest_te V e w) (\<lambda>_ w. (Ret (), w))
       else (Ret (), w)) (poll_elements (fst s))) s"

text \<open>\<open>do { notification = waitAny(); } while(!notification.accept());\<close>\<close>

partial_function (option) acceptLoop ::
  "'x te_impl \<Rightarrow> 'x any_queues \<Rightarrow> 'x ragstate \<Rightarrow> (notification outcome \<times> 'x ragstate) option" where
  "acceptLoop V Q s =
     (case waitAny V Q s of
        (Ret n, s) \<Rightarrow>
          (case accept V n s of
             (Ret b, s) \<Rightarrow> if b then Some (Ret (n\<lparr>accepted := True\<rparr>), s) else acceptLoop V Q s
           | (Throw x, s) \<Rightarrow> Some (Throw x, s)
           | (NoReturn, s) \<Rightarrow> Some (NoReturn, s)
           | (Terminated, s) \<Rightarrow> Some (Terminated, s))
      | (r, s) \<Rightarrow> Some (r, s))"

definition readAny :: "'x te_impl \<Rightarrow> 'x any_queues \<Rightarrow> 'x ragstate \<Rightarrow> nat outcome \<times> 'x ragstate" where
  "readAny V Q s =
     andThen (orNoReturn (acceptLoop V Q s) s) (\<lambda>n s.
     andThen (processPolled V s) (\<lambda>_ s. (getId (fst s) n, s)))"

text \<open>
  \<open>waitAnyNonBlocking()\<close> with the label \<open>restart_after_discard_value\<close>; the failing assertion
  after a \<open>pop\<close> that throws nothing is \<open>Terminated\<close>.
\<close>

partial_function (option) waitAnyNonBlocking ::
  "'x te_impl \<Rightarrow> 'x any_queues \<Rightarrow> 'x ragstate \<Rightarrow> (notification outcome \<times> 'x ragstate) option" where
  "waitAnyNonBlocking V Q s =
     (if notificationEmpty Q (snd s) then Some (Ret emptyNotification, s)
      else
        let e = push_elements (fst s) ! notificationFront Q (snd s) in
        case in_rag (elementFront Q e) s of
          (Ret _, s) \<Rightarrow> Some (waitAny V Q s)
        | (Throw x, s) \<Rightarrow>
            (if x = DiscardValue then
               (case in_rag (elementPop Q e) (fst s, notificationPop Q (snd s)) of
                  (Throw y, s) \<Rightarrow> if y = DiscardValue then waitAnyNonBlocking V Q s else Some (Throw y, s)
                | (Ret _, s) \<Rightarrow> Some (Terminated, s)
                | (NoReturn, s) \<Rightarrow> Some (NoReturn, s)
                | (Terminated, s) \<Rightarrow> Some (Terminated, s))
             else if caught_in_transfer x then Some (waitAny V Q s)
             else Some (Terminated, s))
        | (NoReturn, s) \<Rightarrow> Some (NoReturn, s)
        | (Terminated, s) \<Rightarrow> Some (Terminated, s))"

text \<open>The loop of \<open>readAnyNonBlocking()\<close>; its result is the accepted notification, or one that is not ready.\<close>

partial_function (option) acceptLoopNonBlocking ::
  "'x te_impl \<Rightarrow> 'x any_queues \<Rightarrow> 'x ragstate \<Rightarrow> (notification outcome \<times> 'x ragstate) option" where
  "acceptLoopNonBlocking V Q s =
     (case orNoReturn (waitAnyNonBlocking V Q s) s of
        (Ret n, s) \<Rightarrow>
          if \<not> isReady n then Some (Ret n, s)
          else (case accept V n s of
             (Ret b, s) \<Rightarrow> if b then Some (Ret (n\<lparr>accepted := True\<rparr>), s) else acceptLoopNonBlocking V Q s
           | (Throw x, s) \<Rightarrow> Some (Throw x, s)
           | (NoReturn, s) \<Rightarrow> Some (NoReturn, s)
           | (Terminated, s) \<Rightarrow> Some (Terminated, s))
      | (r, s) \<Rightarrow> Some (r, s))"

text \<open>\<open>None\<close> is the invalid ID.\<close>

definition readAnyNonBlocking :: "'x te_impl \<Rightarrow> 'x any_queues \<Rightarrow> 'x ragstate \<Rightarrow> nat option outcome \<times> 'x ragstate" where
  "readAnyNonBlocking V Q s =
     andThen (orNoReturn (acceptLoopNonBlocking V Q s) s) (\<lambda>n s.
     andThen (processPolled V s) (\<lambda>_ s.
       if \<not> valid n then (Ret None, s)
       else (case getId (fst s) n of Ret i \<Rightarrow> Ret (Some i) | Throw x \<Rightarrow> Throw x | NoReturn \<Rightarrow> NoReturn
         | Terminated \<Rightarrow> Terminated, s)))"

partial_function (option) readUntil ::
  "'x te_impl \<Rightarrow> 'x any_queues \<Rightarrow> nat \<Rightarrow> 'x ragstate \<Rightarrow> (unit outcome \<times> 'x ragstate) option" where
  "readUntil V Q i s =
     (case readAny V Q s of
        (Ret j, s) \<Rightarrow> if j = i then Some (Ret (), s) else readUntil V Q i s
      | (Throw x, s) \<Rightarrow> Some (Throw x, s)
      | (NoReturn, s) \<Rightarrow> Some (NoReturn, s)
      | (Terminated, s) \<Rightarrow> Some (Terminated, s))"

text \<open>The loop of \<open>readUntilAll\<close>; \<open>found\<close> is the map, \<open>leftToFind\<close> a \<open>size_t\<close>.\<close>

partial_function (option) readUntilAllLoop ::
  "'x te_impl \<Rightarrow> 'x any_queues \<Rightarrow> (nat \<Rightarrow> bool option) \<Rightarrow> 64 word \<Rightarrow> 'x ragstate \<Rightarrow> (unit outcome \<times> 'x ragstate) option" where
  "readUntilAllLoop V Q found leftToFind s =
     (case readAny V Q s of
        (Ret i, s) \<Rightarrow>
          if found i = None then readUntilAllLoop V Q found leftToFind s
          else if found i = Some True then readUntilAllLoop V Q found leftToFind s
          else if leftToFind - 1 = 0 then Some (Ret (), s)
          else readUntilAllLoop V Q (found(i \<mapsto> True)) (leftToFind - 1) s
      | (Throw x, s) \<Rightarrow> Some (Throw x, s)
      | (NoReturn, s) \<Rightarrow> Some (NoReturn, s)
      | (Terminated, s) \<Rightarrow> Some (Terminated, s))"

definition readUntilAll ::
  "'x te_impl \<Rightarrow> 'x any_queues \<Rightarrow> nat list \<Rightarrow> 'x ragstate \<Rightarrow> unit outcome \<times> 'x ragstate" where
  "readUntilAll V Q ids s =
     orNoReturn (readUntilAllLoop V Q (\<lambda>i. if i \<in> set ids then Some False else None) (of_nat (length ids)) s) s"

section \<open>Reading until all elements have been updated\<close>

text \<open>A sequence of \<open>readAny()\<close> calls with these results.\<close>

fun any_reads :: "'x te_impl \<Rightarrow> 'x any_queues \<Rightarrow> nat list \<Rightarrow> 'x ragstate \<Rightarrow> 'x ragstate option" where
  "any_reads V Q [] s = Some s"
| "any_reads V Q (i # ids) s = (case readAny V Q s of
      (Ret j, s') \<Rightarrow> if j = i then any_reads V Q ids s' else None
    | _ \<Rightarrow> None)"

lemma readUntilAllLoop_reads:
  assumes "readUntilAllLoop V Q found leftToFind s = Some (Ret (), s')" and "finite {i. found i = Some False}"
  shows "\<exists>ids. any_reads V Q ids s = Some s' \<and>
    0 < card {i. found i = Some False} \<and> unat (leftToFind - 1) < card {i. found i = Some False} \<and>
    (unat (leftToFind - 1) + 1 = card {i. found i = Some False} \<longrightarrow> {i. found i = Some False} \<subseteq> set ids)"
proof -
  let ?P = "\<lambda>(found :: nat \<Rightarrow> bool option) n s p. finite {i. found i = Some False} \<longrightarrow> fst p = Ret () \<longrightarrow>
    (\<exists>ids. any_reads V Q ids s = Some (snd p) \<and>
      0 < card {i. found i = Some False} \<and> unat ((n :: 64 word) - 1) < card {i. found i = Some False} \<and>
      (unat (n - 1) + 1 = card {i. found i = Some False} \<longrightarrow> {i. found i = Some False} \<subseteq> set ids))"
  have "V' = V \<longrightarrow> Q' = Q \<longrightarrow> ?P found n s p"
    if "readUntilAllLoop V' Q' found n s = Some p" for V' Q' found n s p
  proof (rule readUntilAllLoop.raw_induct[OF _ that])
    fix rec V' Q' found n s p
    assume IH: "\<And>V' Q' found n s p. rec V' Q' found n s = Some p \<Longrightarrow> V' = V \<longrightarrow> Q' = Q \<longrightarrow> ?P found n s p"
      and body: "(case readAny V' Q' s of
        (Ret i, s) \<Rightarrow>
          if found i = None then rec V' Q' found n s
          else if found i = Some True then rec V' Q' found n s
          else if n - 1 = 0 then Some (Ret (), s)
          else rec V' Q' (found(i \<mapsto> True)) (n - 1) s
      | (Throw x, s) \<Rightarrow> Some (Throw x, s)
      | (NoReturn, s) \<Rightarrow> Some (NoReturn, s)
      | (Terminated, s) \<Rightarrow> Some (Terminated, s)) = Some p"
    show "V' = V \<longrightarrow> Q' = Q \<longrightarrow> ?P found n s p"
    proof (intro impI)
      assume [simp]: "V' = V" "Q' = Q" and fin: "finite {i. found i = Some False}" and ret: "fst p = Ret ()"
      obtain r s1 where r: "readAny V Q s = (r, s1)" by (rule prod.exhaust)
      obtain i where i: "r = Ret i" using body ret r by (cases r) auto
      show "\<exists>ids. any_reads V Q ids s = Some (snd p) \<and>
        0 < card {i. found i = Some False} \<and> unat (n - 1) < card {i. found i = Some False} \<and>
        (unat (n - 1) + 1 = card {i. found i = Some False} \<longrightarrow> {i. found i = Some False} \<subseteq> set ids)"
      proof (cases "found i = Some False")
        case False
        then have "rec V Q found n s1 = Some p" using body r i by (auto split: if_splits bool.splits)
        with IH[OF this] fin ret obtain ids where "any_reads V Q ids s1 = Some (snd p)"
          "0 < card {i. found i = Some False}" "unat (n - 1) < card {i. found i = Some False}"
          "unat (n - 1) + 1 = card {i. found i = Some False} \<longrightarrow> {i. found i = Some False} \<subseteq> set ids" by blast
        then show ?thesis using r i by (intro exI[of _ "i # ids"]) auto
      next
        case True
        let ?F = "{i. found i = Some False}" and ?F' = "{j. (found(i \<mapsto> True)) j = Some False}"
        have F': "?F' = ?F - {i}" by auto
        have "card ?F = Suc (card (?F - {i}))" using True fin by (intro card.remove) auto
        then have card: "card ?F = card ?F' + 1" "0 < card ?F" unfolding F' by simp_all
        show ?thesis
        proof (cases "n - 1 = 0")
          case n: True
          then have "p = (Ret (), s1)" using body r i True by simp
          moreover have "card ?F = 1 \<longrightarrow> ?F \<subseteq> {i}" using True by (metis (mono_tags, lifting) card_1_singletonE mem_Collect_eq singletonD subset_singletonD subset_refl)
          ultimately show ?thesis using r i card n by (intro exI[of _ "[i]"]) auto
        next
          case n: False
          then have "rec V Q (found(i \<mapsto> True)) (n - 1) s1 = Some p" using body r i True by simp
          with IH[OF this] fin ret obtain ids where ids: "any_reads V Q ids s1 = Some (snd p)" "0 < card ?F'"
            "unat (n - 1 - 1) < card ?F'" "unat (n - 1 - 1) + 1 = card ?F' \<longrightarrow> ?F' \<subseteq> set ids"
            by (auto simp: F' simp del: fun_upd_apply)
          have "unat (n - 1) = unat (n - 1 - 1) + 1"
            using n by (metis Suc_eq_plus1 add.commute diff_add_cancel unatSuc)
          then show ?thesis using ids r i card unfolding F'
            by (intro exI[of _ "i # ids"]) auto
        qed
      qed
    qed
  qed
  from this[OF assms(1)] assms(2) show ?thesis by simp
qed

text \<open>
  C36: \<open>readUntilAll()\<close> returns only after every element of the list has been updated.  It
  never returns for an empty list, nor for a list with the same element twice.
\<close>

theorem readUntilAll_reads_all:
  assumes "readUntilAll V Q ids s = (Ret (), s')" "length ids < 2 ^ 64"
  shows "distinct ids \<and> ids \<noteq> [] \<and> (\<exists>reads. any_reads V Q reads s = Some s' \<and> set ids \<subseteq> set reads)"
proof -
  let ?found = "\<lambda>i. if i \<in> set ids then Some False else None" and ?n = "of_nat (length ids) :: 64 word"
  have loop: "readUntilAllLoop V Q ?found ?n s = Some (Ret (), s')"
    using assms(1) by (auto simp: readUntilAll_def orNoReturn_def split: option.splits)
  have F: "{i. ?found i = Some False} = set ids" by auto
  from readUntilAllLoop_reads[OF loop] obtain reads where r: "any_reads V Q reads s = Some s'" "0 < card (set ids)"
    "unat (?n - 1) < card (set ids)" "unat (?n - 1) + 1 = card (set ids) \<longrightarrow> set ids \<subseteq> set reads"
    unfolding F by auto
  then have ne: "ids \<noteq> []" by auto
  have "unat ?n = length ids" using assms(2) by (simp add: unat_of_nat take_bit_nat_eq_self)
  moreover have "?n \<noteq> 0" using ne assms(2) \<open>unat ?n = length ids\<close> by auto
  ultimately have n: "unat (?n - 1) + 1 = length ids" by (metis Suc_eq_plus1 add.commute diff_add_cancel unatSuc)
  have "card (set ids) \<le> length ids" by (rule card_length)
  with n r(3) have "card (set ids) = length ids" by linarith
  then show ?thesis using r n ne by (auto simp: card_distinct)
qed

definition sample_queues :: "'x any_queues" where
  "sample_queues =
     \<lparr>notificationPopWait = (\<lambda>w. (Ret 0, w)), notificationEmpty = (\<lambda>w. False), notificationFront = (\<lambda>w. 0),
      notificationPop = (\<lambda>w. w), elementFront = (\<lambda>e w. (Ret (), w)), elementPop = (\<lambda>e w. (Ret (), w))\<rparr>"

definition sample_rag :: read_any_group where
  "sample_rag = (new_group 0)\<lparr>isFinalised := True, push_elements := [1]\<rparr>"

lemma sample_readAny:
  "fst (readAny (sample_impl (Ret ())) sample_queues (sample_rag, sample_world)) = Ret 1"
  by (simp add: readAny_def orNoReturn_def acceptLoop.simps waitAny_def handlePreRead_def in_rag_def sample_rag_def
      new_group_def preRead_def sample_queues_def accept_def acceptPost_def setLast_def newNotification_def sample_defs
      postRead_def rethrowActive_def processPolled_def getId_def)

theorem readUntilAll_reads_all_witness:
  "\<exists>s'. readUntilAll (sample_impl (Ret ())) sample_queues [1] (sample_rag, sample_world) = (Ret (), s') \<and>
    (\<exists>reads. any_reads (sample_impl (Ret ())) sample_queues reads (sample_rag, sample_world) = Some s' \<and> set [1] \<subseteq> set reads)"
proof -
  obtain s1 where "readAny (sample_impl (Ret ())) sample_queues (sample_rag, sample_world) = (Ret 1, s1)"
    using sample_readAny by (metis prod.collapse)
  then have "readUntilAll (sample_impl (Ret ())) sample_queues [1] (sample_rag, sample_world) = (Ret (), s1)"
    by (simp add: readUntilAll_def orNoReturn_def readUntilAllLoop.simps)
  with readUntilAll_reads_all[OF this] show ?thesis by simp
qed

section \<open>Pairs of preRead and postRead\<close>

text \<open>The queues leave the base class of the elements alone.\<close>

definition queues_leave_alone :: "'x any_queues \<Rightarrow> nat set \<Rightarrow> bool" where
  "queues_leave_alone Q S = (\<forall>e\<in>S. \<forall>w r w'. notificationPopWait Q w = (r, w') \<longrightarrow> untouched e w w')"

text \<open>Which elements have their \<open>preRead\<close> done when no operation runs.\<close>

definition prepared :: "'x ragstate \<Rightarrow> bool" where
  "prepared s = (case lastOperation (fst s) of
      NoOperation \<Rightarrow> True
    | Discarded \<Rightarrow> \<forall>e\<in>set (push_elements (fst s)). readTransactionInProgress (elem (snd s) e)
    | LastIndex i \<Rightarrow> i < length (push_elements (fst s)) \<and>
        (\<forall>e\<in>set (push_elements (fst s)). e \<noteq> push_elements (fst s) ! i \<longrightarrow> readTransactionInProgress (elem (snd s) e)))"

definition all_prepared :: "'x ragstate \<Rightarrow> bool" where
  "all_prepared s = ((\<forall>i. lastOperation (fst s) = LastIndex i \<longrightarrow> i < length (push_elements (fst s))) \<and>
    (\<forall>e\<in>set (push_elements (fst s)). readTransactionInProgress (elem (snd s) e)))"

context group_contract
begin

lemma preRead_marks:
  assumes e: "e \<in> S" and r: "preRead V ty f w = (r, w')"
  shows "readTransactionInProgress (elem w' e) = (readTransactionInProgress (elem w e) \<or> e = f)"
proof (cases "e = f")
  case True
  then show ?thesis using r te_contract.pre_read[OF contract[OF e]]
    by (auto simp: preRead_def Let_def stage_defs split: if_splits dest!: te_contract.pre_read[OF contract[OF e]])
next
  case False
  then have "untouched e w w'" using r
    by (auto simp: preRead_def Let_def split: if_splits dest!: leaves_aloneD(1)[OF isolated[OF e False[symmetric]]])
  with False show ?thesis by (auto dest: untouched_view)
qed

lemma forEach_preRead_marks:
  assumes e: "e \<in> S" and r: "forEach (preRead V ty) es w = (Ret (), w')"
  shows "readTransactionInProgress (elem w' e) = (readTransactionInProgress (elem w e) \<or> e \<in> set es)"
  using r by (induction es arbitrary: w) (auto elim!: andThen_cases dest!: preRead_marks[OF e])

lemma postRead_others:
  assumes e: "e \<in> S" and ef: "e \<noteq> f" and r: "postRead V ty u f w = (r, w')"
  shows "untouched e w w'"
  using r ef by (auto simp: postRead_def Let_def split: if_splits elim!: andThen_cases
      dest!: leaves_aloneD(3)[OF isolated[OF e ef[symmetric]]] rethrowActive_same)

lemma popWait_frame:
  assumes e: "e \<in> S" and r: "queuePopWait V f w = (r, w')"
  shows "stage_calls e w' = stage_calls e w \<and> readTransactionInProgress (elem w' e) = readTransactionInProgress (elem w e)"
proof (cases "e = f")
  case True
  then show ?thesis using te_contract.pop_wait[OF contract[OF e]] r by (auto simp: stage_defs stage_calls_def)
next
  case False
  then have "untouched e w w'" using leaves_aloneD(7)[OF isolated[OF e, of f] r] by auto
  then show ?thesis by (auto dest: untouched_view)
qed

lemma waitAny_prepares:
  assumes S: "set (push_elements (fst s)) \<subseteq> S" and q: "queues_leave_alone Q S" and p: "prepared s"
    and r: "waitAny V Q s = (Ret n, s')"
  shows "all_prepared s' \<and> fst s' = fst s \<and> valid n \<and> \<not> accepted n"
proof -
  from r obtain s1 i w where h: "handlePreRead V s = (Ret (), s1)" and n: "notificationPopWait Q (snd s1) = (Ret i, w)"
    "s' = (fst s1, w)" "n = newNotification i"
    by (auto simp: waitAny_def in_rag_def split: prod.splits elim!: andThen_cases)
  have g: "fst s1 = fst s" using h by (auto simp: handlePreRead_def in_rag_def split: last_operation.splits prod.splits)
  have "readTransactionInProgress (elem (snd s1) e)" if e: "e \<in> set (push_elements (fst s))" for e
  proof -
    have eS: "e \<in> S" using S e by auto
    show ?thesis
    proof (cases "lastOperation (fst s)")
      case NoOperation
      then show ?thesis using h e forEach_preRead_marks[OF eS]
        by (auto simp: handlePreRead_def in_rag_def split: prod.splits)
    next
      case Discarded
      then show ?thesis using h e p by (auto simp: handlePreRead_def prepared_def)
    next
      case (LastIndex i)
      then show ?thesis using h e p
        by (auto simp: handlePreRead_def in_rag_def prepared_def split: prod.splits dest!: preRead_marks[OF eS])
    qed
  qed
  moreover have "elem w e = elem (snd s1) e" if "e \<in> set (push_elements (fst s))" for e
    using q n(1) S that untouched_view(2) unfolding queues_leave_alone_def by blast
  moreover have "i < length (push_elements (fst s))" if "lastOperation (fst s) = LastIndex i" for i
    using p that by (simp add: prepared_def)
  ultimately show ?thesis using n g by (simp add: all_prepared_def newNotification_def)
qed

lemma accept_pairs:
  assumes S: "set (push_elements (fst s)) \<subseteq> S" and p: "all_prepared s" and i: "index n < length (push_elements (fst s))"
    and r: "accept V n s = (r, s')" and ok: "valid n" "\<not> accepted n"
  shows "prepared s' \<and> fst s' = (fst s)\<lparr>lastOperation := lastOperation (fst s')\<rparr> \<and>
    (\<forall>b. r = Ret b \<longrightarrow> (\<exists>u. stage_calls (push_elements (fst s) ! index n) (snd s') =
      stage_calls (push_elements (fst s) ! index n) (snd s) @
        (if b then [CallPostRead (push_elements (fst s) ! index n) TT_read u] else [])))"
proof -
  let ?es = "push_elements (fst s)" and ?e = "push_elements (fst s) ! index n"
  have e: "?e \<in> set ?es" using i by simp
  obtain q w where q: "queuePopWait V ?e (snd s) = (q, w)" by fastforce
  have w: "stage_calls x w = stage_calls x (snd s) \<and> readTransactionInProgress (elem w x)" if "x \<in> set ?es" for x
    using popWait_frame[OF _ q, of x] that S p by (auto simp: all_prepared_def)
  have keep: "prepared (fst s, w)" using p w i by (cases "lastOperation (fst s)") (auto simp: prepared_def all_prepared_def)
  have post: "prepared s' \<and> fst s' = (fst s)\<lparr>lastOperation := lastOperation (fst s')\<rparr> \<and>
      (\<forall>b. r = Ret b \<longrightarrow> b \<and> stage_calls ?e (snd s') = stage_calls ?e (snd s) @ [CallPostRead ?e TT_read (\<not> h)])"
    if a: "acceptPost V (index n) h (fst s, v) = (r, s')" and v: "v = w \<or> (\<exists>x. v = storeException ?e x w)" for h v
  proof -
    obtain o' v' where o': "postRead V TT_read (\<not> h) ?e v = (o', v')" by fastforce
    have t: "readTransactionInProgress (elem v ?e)" "stage_calls ?e v = stage_calls ?e (snd s)"
      using v w[OF e] by (auto simp: storeException_def)
    have "elem v x = elem w x" if "x \<noteq> ?e" for x using v that by (auto simp: storeException_def)
    then have others: "readTransactionInProgress (elem v' x)" if "x \<in> set ?es" "x \<noteq> ?e" for x
      using untouched_view(2)[OF postRead_others[OF subsetD[OF S that(1)] that(2) o']] w[OF that(1)] that by simp
    have "stage_calls ?e v' = stage_calls ?e (snd s) @ [CallPostRead ?e TT_read (\<not> h)]"
      using advances_stage_calls[OF conjunct1[OF te_contract.postRead_stage[OF contract[OF subsetD[OF S e]] t(1) o']]] t(2)
      by simp
    then show ?thesis
      using a o' others i by (cases o') (auto simp: acceptPost_def in_rag_def setLast_def prepared_def)
  qed
  show ?thesis
  proof (cases q)
    case (Ret u)
    then have "acceptPost V (index n) False (fst s, w) = (r, s')" using r q ok by (simp add: accept_def in_rag_def Let_def)
    from post[OF this] show ?thesis by auto
  next
    case (Throw x)
    consider "caught_in_transfer x" | "x = DiscardValue" | "\<not> caught_in_transfer x" "x \<noteq> DiscardValue" by blast
    then show ?thesis
    proof cases
      case 1
      then have "acceptPost V (index n) True (fst s, storeException ?e x w) = (r, s')"
        using r q ok Throw by (simp add: accept_def in_rag_def Let_def)
      from post[OF this] show ?thesis by auto
    next
      case 2
      then have "r = Ret False" "s' = setLast Discarded (fst s, w)"
        using r q ok Throw by (simp_all add: accept_def in_rag_def Let_def caught_in_transfer_def)
      then show ?thesis using w e by (simp add: prepared_def setLast_def)
    next
      case 3
      then have "r = Throw x" "s' = (fst s, w)" using r q ok Throw by (simp_all add: accept_def in_rag_def Let_def)
      then show ?thesis using keep by simp
    qed
  qed (use r q ok keep in \<open>auto simp: accept_def in_rag_def Let_def\<close>)
qed

end

text \<open>
  C35: an update that was waited for and accepted runs \<open>postRead\<close> of its element exactly once,
  one that was discarded does not, and after that every element whose turn it is not has its
  \<open>preRead\<close> done, so that the next wait finds the group prepared again, whatever was thrown.
\<close>

theorem accepted_update_is_paired:
  assumes "group_contract V S" and "queues_leave_alone Q S"
    and "set (push_elements (fst s)) \<subseteq> S" "prepared s"
    and "waitAny V Q s = (Ret n, s1)" "index n < length (push_elements (fst s))" "accept V n s1 = (r, s2)"
  shows "prepared s2 \<and> push_elements (fst s2) = push_elements (fst s) \<and>
    (\<forall>b. r = Ret b \<longrightarrow> (\<exists>u. stage_calls (push_elements (fst s) ! index n) (snd s2) =
      stage_calls (push_elements (fst s) ! index n) (snd s1) @
        (if b then [CallPostRead (push_elements (fst s) ! index n) TT_read u] else [])))"
proof -
  note w = group_contract.waitAny_prepares[OF assms(1,3,2,4,5)]
  have "set (push_elements (fst s1)) \<subseteq> S" "index n < length (push_elements (fst s1))" using w assms(3,6) by auto
  note a = group_contract.accept_pairs[OF assms(1) this(1) _ this(2) assms(7)]
  have "all_prepared s1" "valid n" "\<not> accepted n" using w by simp_all
  note b = a[OF this]
  have "push_elements (fst s2) = push_elements (fst s1)"
    using arg_cong[OF conjunct1[OF conjunct2[OF b]], of push_elements] w by simp
  moreover have "fst s1 = fst s" using w by simp
  ultimately show ?thesis using b by metis
qed

lemma sample_group: "group_contract (sample_impl hardware) {1}"
proof (rule group_contract.intro)
  show "leaves_alone (sample_impl hardware) f e" for f e :: nat
    by (simp add: leaves_alone_def sample_impl_def untouched_def own_calls_def)
qed (rule sample_contract)

theorem accepted_update_is_paired_witness:
  "\<exists>n s1 s2. waitAny (sample_impl (Ret ())) sample_queues (sample_rag, sample_world) = (Ret n, s1) \<and>
    accept (sample_impl (Ret ())) n s1 = (Ret True, s2) \<and> prepared s2"
proof -
  let ?V = "sample_impl (Ret ())" and ?s = "(sample_rag, sample_world)"
  obtain n s1 where w: "waitAny ?V sample_queues ?s = (Ret n, s1)" "index n = 0"
    by (auto simp: waitAny_def handlePreRead_def in_rag_def sample_rag_def new_group_def preRead_def sample_queues_def
        sample_defs newNotification_def)
  obtain s2 where a: "accept ?V n s1 = (Ret True, s2)"
    using w by (auto simp: waitAny_def handlePreRead_def in_rag_def sample_rag_def new_group_def preRead_def sample_queues_def
        sample_defs newNotification_def accept_def acceptPost_def setLast_def postRead_def rethrowActive_def)
  have "queues_leave_alone (sample_queues :: (unit outcome \<times> bool) any_queues) {1}"
    by (auto simp: queues_leave_alone_def sample_queues_def)
  moreover have "set (push_elements (fst ?s)) \<subseteq> {1}" "prepared ?s" "index n < length (push_elements (fst ?s))"
    using w(2) by (simp_all add: sample_rag_def new_group_def prepared_def)
  ultimately have "prepared s2" using accepted_update_is_paired[OF sample_group _ _ _ w(1) _ a] by blast
  then show ?thesis using w(1) a by blast
qed

section \<open>The members of a group\<close>

definition is_push :: "'x world \<Rightarrow> nat \<Rightarrow> bool" where
  "is_push w e = has (te_flags (elem w e)) wait_for_new_data"

definition members_ok :: "'x ragstate \<Rightarrow> bool" where
  "members_ok s = (distinct (push_elements (fst s)) \<and>
     (\<forall>e. e \<in> set (push_elements (fst s)) \<longleftrightarrow> inReadAnyGroup (elem (snd s) e) = Some (groupId (fst s))) \<and>
     (\<forall>e\<in>set (push_elements (fst s)). is_push (snd s) e) \<and> lastOperation (fst s) = NoOperation)"

lemma add_all_members:
  assumes "forEach (add_element R) es s = (Ret (), s')" "members_ok s"
  shows "members_ok s' \<and> groupId (fst s') = groupId (fst s) \<and> is_push (snd s') = is_push (snd s) \<and>
    set (push_elements (fst s')) = set (push_elements (fst s)) \<union> set (filter (is_push (snd s)) es) \<and>
    poll_elements (fst s') = poll_elements (fst s) @ filter (\<lambda>e. \<not> is_push (snd s) e) es"
  using assms
proof (induction es arbitrary: s)
  case (Cons e es)
  then obtain s1 where a: "add_element R e s = (Ret (), s1)" and rest: "forEach (add_element R) es s1 = (Ret (), s')"
    by (auto elim: andThen_cases)
  have "members_ok s1 \<and> groupId (fst s1) = groupId (fst s) \<and> is_push (snd s1) = is_push (snd s) \<and>
      set (push_elements (fst s1)) = set (push_elements (fst s)) \<union> set (filter (is_push (snd s)) [e]) \<and>
      poll_elements (fst s1) = poll_elements (fst s) @ filter (\<lambda>e. \<not> is_push (snd s) e) [e]"
    using a Cons.prems(2)
    by (cases s) (auto simp: add_element_def members_ok_def is_push_def upd_def fun_eq_iff Let_def split: if_splits)
  with Cons.IH[OF rest] show ?case by auto
qed simp

text \<open>
  A group made of readable elements, none of them in another group, holds each push-type
  element of the list once, whatever the list repeats, knows it as its own, and is prepared for
  the first wait; poll-type elements are kept as often as they are listed.  The constructor
  throws when there is no push-type element.
\<close>

theorem group_of_members:
  assumes "group_of R i es w = (r, (g, w'))" and "\<And>e. inReadAnyGroup (elem w e) \<noteq> Some i" and "r = Ret ()"
  shows "isFinalised g \<and> distinct (push_elements g) \<and> push_elements g \<noteq> [] \<and> set (push_elements g) = set (filter (is_push w) es) \<and>
    poll_elements g = filter (\<lambda>e. \<not> is_push w e) es \<and> (\<forall>e\<in>set (push_elements g). inReadAnyGroup (elem w' e) = Some i) \<and>
    prepared (g, w')"
proof -
  from assms(1,3) obtain s1 where a: "forEach (add_element R) es (new_group i, w) = (Ret (), s1)" and f: "finalise s1 = (Ret (), (g, w'))"
    by (auto simp: group_of_def elim: andThen_cases)
  have "members_ok (new_group i, w)" using assms(2) by (simp add: members_ok_def new_group_def)
  from add_all_members[OF a this] f show ?thesis
    by (cases s1) (auto simp: finalise_def members_ok_def new_group_def prepared_def Let_def split: if_splits)
qed

theorem group_of_members_witness:
  "let w = sample_world\<lparr>elem := (\<lambda>e. new_te ''adc'' (if e < 2 then {wait_for_new_data} else {}))\<rparr>;
       g = fst (snd (group_of (\<lambda>_. True) 5 [1, 2, 1] w))
   in distinct (push_elements g) \<and> set (push_elements g) = {1} \<and> poll_elements g = [2]"
proof -
  let ?w = "sample_world\<lparr>elem := (\<lambda>e. new_te ''adc'' (if e < 2 then {wait_for_new_data} else {}))\<rparr>"
  obtain r g w' where g: "group_of (\<lambda>_. True) 5 [1, 2, 1] ?w = (r, (g, w'))" by (metis prod.exhaust)
  moreover have "fst (group_of (\<lambda>_. True) 5 [1, 2, 1] ?w) = Ret ()"
    by (simp add: group_of_def add_element_def finalise_def new_group_def new_te_def upd_def has_def)
  ultimately have "r = Ret ()" by simp
  with group_of_members[OF g _ this] g show ?thesis
    by (simp add: new_te_def is_push_def has_def)
qed

end
