(* ===== verification/ConsistencyGroups.thy ===== *)
theory ConsistencyGroups
  imports ReadAnyGroups AsyncVariables
begin

text \<open>
  \<^verbatim>\<open>src/DataConsistencyGroup.cc\<close>, \<^verbatim>\<open>src/DataConsistencyGroupSimpleMatcher.cc\<close>,
  \<^verbatim>\<open>src/DataConsistencyGroupHistorizedMatcher.cc\<close>, \<^verbatim>\<open>src/DataConsistencyDecorator.cc\<close> and the read
  stages of \<^verbatim>\<open>include/async/AsyncNDRegisterAccessor.h\<close>: groups that match the data of several
  accessors by their version numbers.

  A member of a group in historized mode is a decorator; the accessor it decorates, its target, is
  another transfer element with the same ID, so both maps of the matcher have the members as keys.
\<close>

section \<open>Matching the current values\<close>

record simple_matcher =
  simple_elements :: "nat list"
  consistentElements :: "nat list"
  versionNumberToBeConsistentTo :: version_number

text \<open>
  \<open>vn\<close> is the version number of the element, which must be in the group; the assertion that it
  is not the null version is \<open>Terminated\<close> when it fails.
\<close>

definition simple_update :: "nat \<Rightarrow> version_number \<Rightarrow> simple_matcher \<Rightarrow> bool outcome \<times> simple_matcher" where
  "simple_update i vn m =
     (if vn = nullVersion then (Terminated, m)
      else if vn < versionNumberToBeConsistentTo m then (Ret False, m)
      else
        let m = (if versionNumberToBeConsistentTo m \<noteq> vn
                 then m\<lparr>versionNumberToBeConsistentTo := vn, consistentElements := []\<rparr> else m);
            m = m\<lparr>consistentElements := List.insert i (consistentElements m)\<rparr>
        in (Ret (length (consistentElements m) = length (simple_elements m)), m))"

definition simple_isConsistent :: "simple_matcher \<Rightarrow> bool" where
  "simple_isConsistent m = (length (consistentElements m) = length (simple_elements m))"

section \<open>State of the historized matcher\<close>

record 'd target_element =
  histLen :: nat
  histBuffer :: "'d list"
  versionNumbers :: "version_number list"
  dataValidities :: "data_validity list"
  lastMatchingIndex :: nat

text \<open>
  \<open>incoming\<close> is the transport queue of a target, \<open>receiveBuffer\<close> the buffer its data are moved to
  first.  \<open>userBuffer\<close> is the buffer of an element, decorator or target.
\<close>

record 'd historized =
  members :: "nat list"
  targetOf :: "nat \<Rightarrow> nat"
  deviceOpen :: bool
  incoming :: "nat \<Rightarrow> 'd queue_item list"
  receiveBuffer :: "nat \<Rightarrow> 'd \<times> version_number \<times> data_validity"
  userBuffer :: "nat \<Rightarrow> 'd"
  targetElement :: "nat \<Rightarrow> 'd target_element"
  decoratorsNeedPreRead :: bool
  handleMissingPreReadsCalled :: bool
  handleMissingPostReadsCalled :: bool
  lastMatchingVersionNumber :: version_number
  updateCalledId :: "nat option"

definition updHeap :: "('x \<Rightarrow> 'x) \<Rightarrow> 'x world \<Rightarrow> 'x world" where
  "updHeap f w = w\<lparr>heap := f (heap w)\<rparr>"

definition updTarget :: "nat \<Rightarrow> ('d target_element \<Rightarrow> 'd target_element) \<Rightarrow> 'd historized world \<Rightarrow> 'd historized world" where
  "updTarget e f = updHeap (\<lambda>h. h\<lparr>targetElement := (targetElement h)(e := f (targetElement h e))\<rparr>)"

definition swapBuffers :: "nat \<Rightarrow> nat \<Rightarrow> 'd historized world \<Rightarrow> 'd historized world" where
  "swapBuffers a b = updHeap (\<lambda>h. h\<lparr>userBuffer := (userBuffer h)(a := userBuffer h b, b := userBuffer h a)\<rparr>)"

section \<open>The targets\<close>

text \<open>The read stages of \<open>AsyncNDRegisterAccessor\<close>; it cannot be written.\<close>

definition async_doPreRead :: "nat \<Rightarrow> transfer_type \<Rightarrow> ('d historized, unit) action" where
  "async_doPreRead t ty w = (if \<not> deviceOpen (heap w) then Throw (LogicError ''Device not opened.'') else Ret (), w)"

definition async_doPostRead :: "nat \<Rightarrow> transfer_type \<Rightarrow> bool \<Rightarrow> ('d historized, unit) action" where
  "async_doPostRead t ty updateDataBuffer w =
     (if updateDataBuffer then
        (case receiveBuffer (heap w) t of (d, vn, validity) \<Rightarrow>
           (Ret (), updHeap (\<lambda>h. h\<lparr>receiveBuffer := (receiveBuffer h)(t := (userBuffer h t, vn, validity)),
                                userBuffer := (userBuffer h)(t := d)\<rparr>)
                     (upd t (\<lambda>x. x\<lparr>versionNumber := vn, dataValidity := validity\<rparr>) w)))
      else (Ret (), w))"

definition async_pop :: "nat \<Rightarrow> ('d historized, unit) action" where
  "async_pop t w =
     (case incoming (heap w) t of
        [] \<Rightarrow> (NoReturn, w)
      | item # rest \<Rightarrow>
          let w = updHeap (\<lambda>h. h\<lparr>incoming := (incoming h)(t := rest)\<rparr>) w in
          (case item of
             QueueException x \<Rightarrow> (Throw x, w)
           | QueueData d vn validity \<Rightarrow>
               (Ret (), updHeap (\<lambda>h. h\<lparr>receiveBuffer := (receiveBuffer h)(t := (d, vn, validity))\<rparr>) w)))"

definition notWritable :: "('x, 'a) action" where
  "notWritable w = (Throw (LogicError ''Writing is not supported''), w)"

definition asyncImpl :: "'d historized te_impl" where
  "asyncImpl =
     \<lparr>doPreRead = async_doPreRead, doReadTransferSynchronously = (\<lambda>e w. (NoReturn, w)), doPostRead = async_doPostRead,
      doPreWrite = (\<lambda>e ty v. notWritable), doWriteTransfer = (\<lambda>e v. notWritable), doWriteTransferDestructively = (\<lambda>e v. notWritable),
      doPostWrite = (\<lambda>e ty v w. (Ret (), w)), queuePopWait = async_pop,
      queuePop = (\<lambda>e w. if incoming (heap w) e = [] then (Ret False, w) else andThen (async_pop e w) (\<lambda>_ w. (Ret True, w))),
      backendSetException = (\<lambda>b s w. (Ret (), w))\<rparr>"

section \<open>History and matching\<close>

text \<open>The loop of \<open>updateHistory\<close>, from index \<open>i\<close> down to 1.\<close>

fun shiftHistory :: "nat \<Rightarrow> 'd target_element \<Rightarrow> 'd target_element" where
  "shiftHistory 0 p = p"
| "shiftHistory (Suc i) p =
     shiftHistory i (p\<lparr>histBuffer := (histBuffer p)[Suc i := histBuffer p ! i, i := histBuffer p ! Suc i],
       versionNumbers := (versionNumbers p)[Suc i := versionNumbers p ! i],
       dataValidities := (dataValidities p)[Suc i := dataValidities p ! i]\<rparr>)"

definition updateHistory :: "nat \<Rightarrow> 'd historized world \<Rightarrow> 'd historized world" where
  "updateHistory e w =
     (let p = targetElement (heap w) e; t = targetOf (heap w) e in
      if histLen p = 0 then w
      else
        let vn = versionNumber (elem w t); dv = dataValidity (elem w t);
            p = (if versionNumbers p ! 0 > nullVersion then shiftHistory (length (histBuffer p) - 1) p else p)
        in updHeap (\<lambda>h. h\<lparr>userBuffer := (userBuffer h)(t := histBuffer p ! 0)\<rparr>)
             (updTarget e (\<lambda>_. p\<lparr>histBuffer := (histBuffer p)[0 := userBuffer (heap w) t],
               versionNumbers := (versionNumbers p)[0 := vn], dataValidities := (dataValidities p)[0 := dv]\<rparr>) w))"

fun position :: "'a \<Rightarrow> 'a list \<Rightarrow> nat option" where
  "position x [] = None"
| "position x (y # ys) = (if y = x then Some 0 else map_option Suc (position x ys))"

fun findMatchLoop :: "nat \<Rightarrow> version_number \<Rightarrow> nat list \<Rightarrow> 'd historized world \<Rightarrow> bool \<times> 'd historized world" where
  "findMatchLoop e vn [] w = (True, w)"
| "findMatchLoop e vn (i # is) w =
     (let p = targetElement (heap w) i in
      if i = e then findMatchLoop e vn is w
      else if versionNumber (elem w (targetOf (heap w) i)) = vn then
        findMatchLoop e vn is (updTarget i (\<lambda>p. p\<lparr>lastMatchingIndex := 0\<rparr>) w)
      else if histLen p > 0 then
        (case position vn (versionNumbers p) of
           None \<Rightarrow> (False, w)
         | Some pos \<Rightarrow> findMatchLoop e vn is (updTarget i (\<lambda>p. p\<lparr>lastMatchingIndex := pos + 1\<rparr>) w))
      else (False, w))"

definition findMatch :: "nat \<Rightarrow> 'd historized world \<Rightarrow> bool \<times> 'd historized world" where
  "findMatch e w =
     (if e \<notin> set (members (heap w)) then (False, w)
      else
        let vn = versionNumber (elem w (targetOf (heap w) e)) in
        (case findMatchLoop e vn (members (heap w)) w of
           (True, w) \<Rightarrow> (True, updHeap (\<lambda>h. h\<lparr>lastMatchingVersionNumber := vn\<rparr>) (updTarget e (\<lambda>p. p\<lparr>lastMatchingIndex := 0\<rparr>) w))
         | r \<Rightarrow> r))"

definition checkUpdate :: "nat \<Rightarrow> 'd historized world \<Rightarrow> bool \<times> 'd historized world" where
  "checkUpdate e w =
     (let p = targetElement (heap w) e; vn = versionNumber (elem w (targetOf (heap w) e)) in
      findMatch e
        (if histLen p > 0 \<and> vn = versionNumbers p ! 0
         then updTarget e (\<lambda>p. p\<lparr>versionNumbers := (versionNumbers p)[0 := nullVersion]\<rparr>) w else w))"

definition getMatchingInfo :: "nat \<Rightarrow> 'd historized world \<Rightarrow> version_number \<times> data_validity" where
  "getMatchingInfo e w =
     (let p = targetElement (heap w) e; t = elem w (targetOf (heap w) e) in
      if lastMatchingIndex p > 0 then (versionNumbers p ! (lastMatchingIndex p - 1), dataValidities p ! (lastMatchingIndex p - 1))
      else (versionNumber t, dataValidity t))"

text \<open>The buffer of the decorator is swapped with \<open>getMatchingBuffer\<close>.\<close>

definition swapMatching :: "nat \<Rightarrow> 'd historized world \<Rightarrow> 'd historized world" where
  "swapMatching e w =
     (let p = targetElement (heap w) e; k = lastMatchingIndex p in
      if k > 0 then
        updHeap (\<lambda>h. h\<lparr>userBuffer := (userBuffer h)(e := histBuffer p ! (k - 1))\<rparr>)
          (updTarget e (\<lambda>p. p\<lparr>histBuffer := (histBuffer p)[k - 1 := userBuffer (heap w) e]\<rparr>) w)
      else swapBuffers e (targetOf (heap w) e) w)"

section \<open>The decorators\<close>

text \<open>
  \<open>DataConsistencyDecorator::doPostRead\<close>; \<open>missing\<close> is \<open>handleMissingPostReads\<close>.  Handing the
  exception on to the target takes it out of the decorator.
\<close>

definition decorator_doPostRead ::
  "(nat \<Rightarrow> bool \<Rightarrow> ('d historized, unit) action) \<Rightarrow> nat \<Rightarrow> transfer_type \<Rightarrow> bool \<Rightarrow> ('d historized, unit) action" where
  "decorator_doPostRead missing e ty updateDataBuffer w =
     andThen (if lastMatchingVersionNumber (heap w) > versionNumber (elem w e) then missing e updateDataBuffer w else (Ret (), w)) (\<lambda>_ w.
     andThen
       (case activeException (elem w e) of
          None \<Rightarrow> (Ret (), w)
        | Some x \<Rightarrow>
            (case setActiveException (targetOf (heap w) e) (Some x) w of
               (rest, w) \<Rightarrow> postRead asyncImpl ty False (targetOf (heap w) e) (upd e (\<lambda>t. t\<lparr>activeException := rest\<rparr>) w))) (\<lambda>_ w.
     case getMatchingInfo e w of (vs, dv) \<Rightarrow>
       let w = upd e (\<lambda>t. t\<lparr>versionNumber := vs, dataValidity := dv\<rparr>) w
       in (Ret (), if updateDataBuffer then swapMatching e w else w)))"

definition decorator_doPreRead ::
  "(nat \<Rightarrow> ('d historized, unit) action) \<Rightarrow> nat \<Rightarrow> transfer_type \<Rightarrow> ('d historized, unit) action" where
  "decorator_doPreRead missing e ty w =
     andThen (missing e w) (\<lambda>_ w. preRead asyncImpl ty (targetOf (heap w) e) w)"

text \<open>
  The decorators as the matcher calls them: \<open>handleMissingPreReads\<close> and \<open>handleMissingPostReads\<close>
  return at once because their flags are set.
\<close>

definition nestedImpl :: "'d historized te_impl" where
  "nestedImpl = asyncImpl\<lparr>
     doPreRead := (\<lambda>e ty w. if e \<in> set (members (heap w))
       then decorator_doPreRead (\<lambda>_ w. (if handleMissingPreReadsCalled (heap w) then Ret () else NoReturn, w)) e ty w
       else async_doPreRead e ty w),
     doPostRead := (\<lambda>e ty u w. if e \<in> set (members (heap w))
       then decorator_doPostRead (\<lambda>_ _ w. (if handleMissingPostReadsCalled (heap w) then Ret () else NoReturn, w)) e ty u w
       else async_doPostRead e ty u w)\<rparr>"

definition setFlags :: "('d historized \<Rightarrow> 'd historized) \<Rightarrow> unit outcome \<times> 'd historized world \<Rightarrow> unit outcome \<times> 'd historized world" where
  "setFlags f r = (fst r, updHeap f (snd r))"

definition handleMissingPreReads :: "nat \<Rightarrow> ('d historized, unit) action" where
  "handleMissingPreReads callerId w =
     (if handleMissingPreReadsCalled (heap w) then (Ret (), w)
      else
        setFlags (\<lambda>h. h\<lparr>handleMissingPreReadsCalled := False\<rparr>)
          (let w = updHeap (\<lambda>h. h\<lparr>handleMissingPreReadsCalled := True\<rparr>) w in
           if decoratorsNeedPreRead (heap w) \<and> updateCalledId (heap w) \<noteq> Some callerId
           then (Throw (LogicError ''updates from ReadAnyGroup must be processed by DataConsistencyGroup::update''), w)
           else
             andThen (forEach (\<lambda>i w. if i \<noteq> callerId then preRead nestedImpl TT_read i w else (Ret (), w)) (members (heap w)) w)
               (\<lambda>_ w. (Ret (), updHeap (\<lambda>h. h\<lparr>decoratorsNeedPreRead := False\<rparr>) w))))"

definition handleMissingPostReads :: "nat \<Rightarrow> bool \<Rightarrow> ('d historized, unit) action" where
  "handleMissingPostReads callerId updateBuffer w =
     (if handleMissingPostReadsCalled (heap w) then (Ret (), w)
      else
        setFlags (\<lambda>h. h\<lparr>handleMissingPostReadsCalled := False\<rparr>)
          (let w = updHeap (\<lambda>h. h\<lparr>handleMissingPostReadsCalled := True\<rparr>) w in
           andThen (forEach (\<lambda>i w.
               if i \<noteq> callerId \<and> lastMatchingVersionNumber (heap w) > versionNumber (elem w i)
               then postRead nestedImpl TT_read updateBuffer i w else (Ret (), w)) (members (heap w)) w)
             (\<lambda>_ w. (Ret (), updHeap (\<lambda>h. h\<lparr>decoratorsNeedPreRead := True\<rparr>) w))))"

definition readCallback :: "nat \<Rightarrow> ('d historized, unit) action" where
  "readCallback e w =
     (let t = targetOf (heap w) e in
      andThen (preRead asyncImpl TT_read t w) (\<lambda>_ w.
      andThen (postRead asyncImpl TT_read True t (updateHistory e w)) (\<lambda>_ w.
      case checkUpdate e w of
        (True, w) \<Rightarrow> (Ret (), w)
      | (False, w) \<Rightarrow> andThen (preRead asyncImpl TT_read t w) (\<lambda>_ w. (Throw DiscardValue, w)))))"

text \<open>The decorators as the application and the \<open>ReadAnyGroup\<close> call them.\<close>

definition historizedImpl :: "'d historized te_impl" where
  "historizedImpl = asyncImpl\<lparr>
     doPreRead := (\<lambda>e ty w. if e \<in> set (members (heap w)) then decorator_doPreRead handleMissingPreReads e ty w
       else async_doPreRead e ty w),
     doPostRead := (\<lambda>e ty u w. if e \<in> set (members (heap w)) then decorator_doPostRead handleMissingPostReads e ty u w
       else async_doPostRead e ty u w),
     queuePopWait := (\<lambda>e w. if e \<in> set (members (heap w))
       then andThen (async_pop (targetOf (heap w) e) w) (\<lambda>_ w. readCallback e w) else async_pop e w)\<rparr>"

section \<open>The group\<close>

datatype matching_mode = Matching_none | Matching_exact | Matching_historized

definition checkAccess :: "(nat \<Rightarrow> bool) \<Rightarrow> nat \<Rightarrow> 'x world \<Rightarrow> unit outcome" where
  "checkAccess isReadable e w =
     (if \<not> isReadable e then Throw (LogicError (''Cannot add non-readable accessor for register '' @ te_name (elem w e)))
      else if \<not> has (te_flags (elem w e)) wait_for_new_data then Throw (LogicError (''Cannot add poll type accessor for register '' @ te_name (elem w e)))
      else Ret ())"

text \<open>
  \<open>add\<close> in historized mode: the element \<open>t\<close> of the accessor gets the decorator \<open>e\<close>, whose buffer
  it swaps with its own, new one (\<open>blank\<close>), unless it is a decorator of such a group already.
\<close>

definition setupHistory :: "'d \<Rightarrow> nat \<Rightarrow> 'd target_element" where
  "setupHistory blank n =
     \<lparr>histLen = n, histBuffer = replicate n blank, versionNumbers = replicate n nullVersion, dataValidities = replicate n ok,
      lastMatchingIndex = 0\<rparr>"

definition add_historized ::
  "(nat \<Rightarrow> bool) \<Rightarrow> 'd \<Rightarrow> nat \<Rightarrow> nat \<Rightarrow> nat \<Rightarrow> ('d historized, unit) action" where
  "add_historized isReadable blank t e histLen' w =
     (case checkAccess isReadable t w of
        Ret _ \<Rightarrow>
          if t \<in> set (members (heap w)) then
            (Throw (LogicError (''accessor is already in historized DataConsistencyGroup: '' @ te_name (elem w t))), w)
          else
            (Ret (), updHeap (\<lambda>h. h\<lparr>members := insort e (members h), targetOf := (targetOf h)(e := t),
                userBuffer := (userBuffer h)(e := userBuffer h t, t := blank),
                targetElement := (targetElement h)(e := setupHistory blank histLen')\<rparr>)
              (upd e (\<lambda>_. (elem w t)\<lparr>readTransactionInProgress := False, activeException := None\<rparr>) w))
      | r \<Rightarrow> (r, w))"

definition historized_isConsistent :: "'d historized world \<Rightarrow> bool" where
  "historized_isConsistent w =
     (case members (heap w) of [] \<Rightarrow> True | e # es \<Rightarrow> list_all (\<lambda>i. versionNumber (elem w i) = versionNumber (elem w e)) (e # es))"

definition updateCalled :: "nat \<Rightarrow> 'd historized world \<Rightarrow> 'd historized world" where
  "updateCalled e = updHeap (\<lambda>h. h\<lparr>updateCalledId := Some e\<rparr>)"

text \<open>\<open>update\<close>, \<open>isConsistent\<close> and \<open>setMatchingMode\<close> of \<open>DataConsistencyGroup\<close>.\<close>

type_synonym 'd consistency_group = "matching_mode \<times> simple_matcher \<times> 'd historized world"

definition group_update :: "nat \<Rightarrow> 'd consistency_group \<Rightarrow> bool outcome \<times> 'd consistency_group" where
  "group_update i G =
     (case G of (mode, m, w) \<Rightarrow>
        if i \<notin> set (if mode = Matching_historized then members (heap w) else simple_elements m) then (Ret False, G)
        else case mode of
            Matching_none \<Rightarrow> (Ret True, G)
          | Matching_exact \<Rightarrow> (case simple_update i (versionNumber (elem w i)) m of (r, m) \<Rightarrow> (r, mode, m, w))
          | Matching_historized \<Rightarrow> (Ret True, mode, m, updateCalled i w))"

definition group_isConsistent :: "'d consistency_group \<Rightarrow> bool" where
  "group_isConsistent G =
     (case G of (mode, m, w) \<Rightarrow>
        (case mode of Matching_none \<Rightarrow> True | Matching_exact \<Rightarrow> simple_isConsistent m | Matching_historized \<Rightarrow> historized_isConsistent w))"

definition setMatchingMode :: "matching_mode \<Rightarrow> 'd consistency_group \<Rightarrow> unit outcome \<times> 'd consistency_group" where
  "setMatchingMode newMode G =
     (if fst G = Matching_historized \<or> newMode = Matching_historized
      then (Throw (LogicError ''setMatchingMode cannot be used to switch to or from MatchingMode::historized''), G)
      else (Ret (), newMode, snd G))"

end
