(* ===== verification/AsyncReads.thy ===== *)
theory AsyncReads
  imports ConsistencyGroups
begin

text \<open>
  \<open>readNonBlocking()\<close> and \<open>readLatest()\<close> of an accessor with \<open>wait_for_new_data\<close>
  (\<^verbatim>\<open>include/TransferElement.h\<close> on \<^verbatim>\<open>include/async/AsyncNDRegisterAccessor.h\<close>): which of the
  values in its transport queue it shows afterwards.
\<close>

section \<open>What an accessor shows\<close>

fun is_data :: "'d queue_item \<Rightarrow> bool" where
  "is_data (QueueData d vn q) = True"
| "is_data (QueueException x) = False"

text \<open>The user buffer with its version number and validity, as an item of the queue.\<close>

definition shown :: "'d historized world \<Rightarrow> nat \<Rightarrow> 'd queue_item" where
  "shown w e = QueueData (userBuffer (heap w) e) (versionNumber (elem w e)) (dataValidity (elem w e))"

text \<open>An accessor of an opened device that is free to be read.\<close>

definition readable :: "nat \<Rightarrow> 'd historized world \<Rightarrow> bool" where
  "readable e w = (\<not> isInTransferGroup (elem w e) \<and> inReadAnyGroup (elem w e) = None \<and>
     has (te_flags (elem w e)) wait_for_new_data \<and> deviceOpen (heap w))"

text \<open>\<open>w'\<close> is \<open>w\<close> with the queue of \<open>e\<close> shortened to \<open>queue\<close> and \<open>item\<close> shown by \<open>e\<close>.\<close>

definition reads_into :: "nat \<Rightarrow> 'd historized world \<Rightarrow> 'd queue_item list \<Rightarrow> 'd queue_item \<Rightarrow> 'd historized world \<Rightarrow> bool" where
  "reads_into e w queue item w' = (readable e w' \<and>
     incoming (heap w') = (incoming (heap w))(e := queue) \<and> shown w' = (shown w)(e := item))"

lemma reads_into_trans:
  "reads_into e w q i w1 \<Longrightarrow> reads_into e w1 q' i' w2 \<Longrightarrow> reads_into e w q' i' w2"
  by (simp add: reads_into_def)

lemmas stage_definitions =
  readNonBlocking_te_def preReadAndHandleExceptions_def handlePreException_def preRead_def noException_def
  readTransferNonBlocking_def readTransferAsyncNonWaitingImpl_def orNoReturn_def handleTransferException_def
  storeException_def postReadAndHandleExceptions_def reportException_def postRead_def rethrowActive_def Let_def
  asyncImpl_def async_doPreRead_def async_doPostRead_def async_pop_def upd_def logged_def updHeap_def

section \<open>One call of readNonBlocking\<close>

lemma readNonBlocking_empty:
  assumes "readable e w" "incoming (heap w) e = []"
  shows "\<exists>w'. readNonBlocking_te asyncImpl e w = (Ret False, w') \<and> reads_into e w [] (shown w e) w'"
  using assms
  by (simp add: stage_definitions retryOnDiscard.simps readable_def reads_into_def shown_def fun_eq_iff)

lemma readNonBlocking_data:
  assumes "readable e w" "incoming (heap w) e = QueueData d vn q # rest"
  shows "\<exists>w'. readNonBlocking_te asyncImpl e w = (Ret True, w') \<and> reads_into e w rest (QueueData d vn q) w'"
  using assms
  by (simp add: stage_definitions retryOnDiscard.simps readable_def reads_into_def shown_def fun_eq_iff)

lemma readNonBlocking_exception:
  assumes "readable e w" "incoming (heap w) e = QueueException x # rest" "x \<noteq> DiscardValue"
  shows "\<exists>w'. readNonBlocking_te asyncImpl e w = (Throw x, w') \<and> reads_into e w rest (shown w e) w'"
  using assms
  by (cases "exceptionBackend (elem w e)"; cases "is_runtime_error x"; cases "caught_in_transfer x")
    (simp_all add: stage_definitions retryOnDiscard.simps readable_def reads_into_def shown_def fun_eq_iff)

section \<open>All of the queue\<close>

text \<open>The data before the first exception, and the queue from there on.\<close>

definition newData :: "nat \<Rightarrow> 'd historized world \<Rightarrow> 'd queue_item list" where
  "newData e w = takeWhile is_data (incoming (heap w) e)"

definition fromException :: "nat \<Rightarrow> 'd historized world \<Rightarrow> 'd queue_item list" where
  "fromException e w = dropWhile is_data (incoming (heap w) e)"

definition latest_result :: "bool \<Rightarrow> 'd queue_item list \<Rightarrow> bool outcome" where
  "latest_result new rest = (case rest of QueueException x # _ \<Rightarrow> Throw x | _ \<Rightarrow> Ret new)"

lemma readLatestLoop_queue:
  assumes "readable e w" "incoming (heap w) e = queue" "QueueException DiscardValue \<notin> set queue"
  shows "\<exists>w'. readLatestLoop asyncImpl e b w = Some (latest_result (b \<or> takeWhile is_data queue \<noteq> []) (dropWhile is_data queue), w') \<and>
    reads_into e w (tl (dropWhile is_data queue)) (last (shown w e # takeWhile is_data queue)) w'"
  using assms
proof (induction queue arbitrary: w b)
  case Nil
  then obtain w' where "readNonBlocking_te asyncImpl e w = (Ret False, w')" "reads_into e w [] (shown w e) w'"
    using readNonBlocking_empty by blast
  then show ?case by (subst readLatestLoop.simps) (simp add: latest_result_def)
next
  case (Cons item queue)
  show ?case
  proof (cases item)
    case (QueueData d vn q)
    obtain w1 where w1: "readNonBlocking_te asyncImpl e w = (Ret True, w1)" "reads_into e w queue item w1"
      using readNonBlocking_data[OF Cons.prems(1), of d vn q queue] Cons.prems(2) QueueData by auto
    then have "readable e w1" "incoming (heap w1) e = queue" "shown w1 e = item" by (simp_all add: reads_into_def)
    moreover obtain w' where w': "readLatestLoop asyncImpl e True w1 = Some (latest_result True (dropWhile is_data queue), w')"
      "reads_into e w1 (tl (dropWhile is_data queue)) (last (shown w1 e # takeWhile is_data queue)) w'"
      using Cons.IH[of w1 True] Cons.prems(3) calculation by auto
    ultimately show ?thesis using w1 reads_into_trans[OF w1(2) w'(2)] QueueData
      by (intro exI[of _ w']) (subst readLatestLoop.simps, simp)
  next
    case (QueueException x)
    then obtain w1 where w1: "readNonBlocking_te asyncImpl e w = (Throw x, w1)" "reads_into e w queue (shown w e) w1"
      using readNonBlocking_exception[OF Cons.prems(1), of x queue] Cons.prems(2,3) by auto
    then show ?thesis using QueueException
      by (intro exI[of _ w1]) (subst readLatestLoop.simps, simp add: latest_result_def)
  qed
qed

text \<open>
  C4: \<open>readLatest()\<close> of a subscribed accessor of an opened device, on the values that wait in
  its transport queue (nothing is pushed while it runs).  Without an exception in the queue it
  empties the queue, returns whether there was any value, and shows the newest one with its
  version number and validity, or what it showed before.  The first exception in the queue is
  taken out and thrown, and what was pushed after it stays in the queue; the accessor then
  shows the newest value before the exception.  No other accessor and no other queue changes.
  \<open>DiscardValue\<close>, which makes the transfer take the next value, is not sent by the distributors.
\<close>

theorem readLatest_shows_newest:
  assumes "\<not> isInTransferGroup (elem w e)" "inReadAnyGroup (elem w e) = None"
    and "has (te_flags (elem w e)) wait_for_new_data" "deviceOpen (heap w)"
    and "QueueException DiscardValue \<notin> set (incoming (heap w) e)"
  shows "\<exists>w'. readLatest_te asyncImpl e w =
      (case fromException e w of QueueException x # _ \<Rightarrow> Throw x | _ \<Rightarrow> Ret (newData e w \<noteq> []), w') \<and>
    incoming (heap w') = (incoming (heap w))(e := tl (fromException e w)) \<and>
    shown w' = (shown w)(e := last (shown w e # newData e w))"
proof -
  have free: "readable e w" and flag: "has (te_flags (elem w e)) wait_for_new_data"
    using assms by (simp_all add: readable_def)
  from readLatestLoop_queue[OF free refl assms(5), of False] obtain w' where
    run: "readLatestLoop asyncImpl e False w = Some (latest_result (newData e w \<noteq> []) (fromException e w), w')"
    and to: "reads_into e w (tl (fromException e w)) (last (shown w e # newData e w)) w'"
    by (auto simp only: newData_def fromException_def simp_thms)
  have "readLatest_te asyncImpl e w = (latest_result (newData e w \<noteq> []) (fromException e w), w')"
    unfolding readLatest_te_def using flag by (simp only: run orNoReturn_def option.case if_True)
  then show ?thesis using to unfolding latest_result_def reads_into_def by blast
qed

text \<open>Two values, an exception, and a value behind it.\<close>

definition waiting_world :: "int historized world" where
  "waiting_world =
     \<lparr>elem = (\<lambda>_. new_te ''/APP/spectrum'' {wait_for_new_data}), calls = [],
      heap = \<lparr>members = [], targetOf = id, deviceOpen = True,
        incoming = (\<lambda>_. [QueueData 7 (VersionNumber 4) ok, QueueData 8 (VersionNumber 5) faulty,
          QueueException (RuntimeError ''timeout''), QueueData 9 (VersionNumber 6) ok]),
        receiveBuffer = (\<lambda>_. (0, nullVersion, ok)), userBuffer = (\<lambda>_. 0), targetElement = (\<lambda>_. setupHistory 0 0),
        decoratorsNeedPreRead = False, handleMissingPreReadsCalled = False, handleMissingPostReadsCalled = False,
        lastMatchingVersionNumber = nullVersion, updateCalledId = None\<rparr>\<rparr>"

theorem readLatest_shows_newest_witness:
  "\<exists>w'. readLatest_te asyncImpl 3 waiting_world = (Throw (RuntimeError ''timeout''), w') \<and>
    incoming (heap w') 3 = [QueueData 9 (VersionNumber 6) ok] \<and> shown w' 3 = QueueData 8 (VersionNumber 5) faulty"
proof -
  have "\<not> isInTransferGroup (elem waiting_world 3)" "inReadAnyGroup (elem waiting_world 3) = None"
    "has (te_flags (elem waiting_world 3)) wait_for_new_data" "deviceOpen (heap waiting_world)"
    "QueueException DiscardValue \<notin> set (incoming (heap waiting_world) 3)"
    by (simp_all add: waiting_world_def new_te_def has_def)
  from readLatest_shows_newest[OF this] show ?thesis
    by (auto simp: fromException_def newData_def waiting_world_def)
qed

end
