(* ===== verification/ConsistencyMatching.thy ===== *)
theory ConsistencyMatching
  imports ConsistencyGroups
begin

text \<open>
  What a data consistency group guarantees: in exact mode \<open>update\<close> tells when the last values of
  all elements have the newest version number; in historized mode all members change together, to
  data they have received with one version number.
\<close>

section \<open>Read transactions\<close>

abbreviation reading :: "'x world \<Rightarrow> nat \<Rightarrow> bool" where
  "reading w x \<equiv> readTransactionInProgress (elem w x)"

text \<open>Members and their targets are different elements, the device is open and nothing has failed.\<close>

definition well_formed :: "'d historized world \<Rightarrow> bool" where
  "well_formed w =
     (distinct (members (heap w)) \<and> inj_on (targetOf (heap w)) (set (members (heap w))) \<and>
      targetOf (heap w) ` set (members (heap w)) \<inter> set (members (heap w)) = {} \<and> deviceOpen (heap w) \<and>
      (\<forall>x. activeException (elem w x) = None))"

text \<open>A pre stage changes the flags of transactions only.\<close>

definition data_of :: "'d historized world \<Rightarrow> _" where
  "data_of w =
     ((members (heap w), targetOf (heap w), deviceOpen (heap w), incoming (heap w), receiveBuffer (heap w), userBuffer (heap w)),
      (targetElement (heap w), lastMatchingVersionNumber (heap w), updateCalledId (heap w), handleMissingPostReadsCalled (heap w)),
      (\<lambda>x. versionNumber (elem w x)), (\<lambda>x. dataValidity (elem w x)), (\<lambda>x. activeException (elem w x)))"

lemma data_of_eq:
  assumes "data_of w' = data_of w"
  shows "members (heap w') = members (heap w)" "targetOf (heap w') = targetOf (heap w)" "deviceOpen (heap w') = deviceOpen (heap w)"
    "incoming (heap w') = incoming (heap w)" "receiveBuffer (heap w') = receiveBuffer (heap w)"
    "userBuffer (heap w') = userBuffer (heap w)" "targetElement (heap w') = targetElement (heap w)"
    "lastMatchingVersionNumber (heap w') = lastMatchingVersionNumber (heap w)" "updateCalledId (heap w') = updateCalledId (heap w)"
    "handleMissingPostReadsCalled (heap w') = handleMissingPostReadsCalled (heap w)"
    "versionNumber (elem w' x) = versionNumber (elem w x)" "dataValidity (elem w' x) = dataValidity (elem w x)"
    "activeException (elem w' x) = activeException (elem w x)"
  using assms unfolding data_of_def prod.inject fun_eq_iff by blast+

definition quiet :: "'d historized world \<Rightarrow> 'd historized world \<Rightarrow> bool" where
  "quiet w w' = (data_of w' = data_of w \<and> (\<forall>x. reading w x \<longrightarrow> reading w' x))"

lemma quiet_refl [simp]: "quiet w w"
  by (simp add: quiet_def)

lemma quiet_trans: "quiet a b \<Longrightarrow> quiet b c \<Longrightarrow> quiet a c"
  by (simp add: quiet_def)

lemma quiet_well_formed: "quiet w w' \<Longrightarrow> well_formed w' = well_formed w"
proof -
  assume "quiet w w'"
  then have d: "data_of w' = data_of w" by (simp add: quiet_def)
  show ?thesis by (simp add: well_formed_def data_of_eq[OF d])
qed

text \<open>A member, other than those of \<open>X\<close>, whose transaction is open has an open transaction of its target.\<close>

definition covered :: "nat set \<Rightarrow> 'd historized world \<Rightarrow> bool" where
  "covered X w = (\<forall>e\<in>set (members (heap w)) - X. reading w e \<longrightarrow> reading w (targetOf (heap w) e))"

lemma target_preRead:
  assumes "well_formed w"
  shows "\<exists>w'. preRead asyncImpl ty x w = (Ret (), w') \<and> quiet w w' \<and> (\<forall>y. reading w' y = (reading w y \<or> y = x)) \<and>
    decoratorsNeedPreRead (heap w') = decoratorsNeedPreRead (heap w) \<and>
    handleMissingPreReadsCalled (heap w') = handleMissingPreReadsCalled (heap w)"
proof (cases "reading w x")
  case True
  then show ?thesis by (auto simp: preRead_def)
next
  case False
  then show ?thesis using assms
    by (simp add: preRead_def asyncImpl_def async_doPreRead_def well_formed_def upd_def logged_def quiet_def data_of_def fun_eq_iff)
qed

lemma open_quiet:
  "activeException (elem w e) = None \<Longrightarrow>
   quiet w (logged c (upd e (\<lambda>t. t\<lparr>readTransactionInProgress := True\<rparr>) (upd e (\<lambda>t. t\<lparr>activeException := None\<rparr>) w)))"
  by (auto simp: quiet_def data_of_def upd_def logged_def fun_eq_iff)

lemma nested_stages:
  "doPreRead nestedImpl e ty w = (if e \<in> set (members (heap w))
     then decorator_doPreRead (\<lambda>_ w. (if handleMissingPreReadsCalled (heap w) then Ret () else NoReturn, w)) e ty w
     else async_doPreRead e ty w)"
  "doPostRead nestedImpl e ty u w = (if e \<in> set (members (heap w))
     then decorator_doPostRead (\<lambda>_ _ w. (if handleMissingPostReadsCalled (heap w) then Ret () else NoReturn, w)) e ty u w
     else async_doPostRead e ty u w)"
  by (simp_all add: nestedImpl_def)

lemma nested_preRead:
  assumes "well_formed w" "covered X w" "e \<in> set (members (heap w))" "handleMissingPreReadsCalled (heap w)"
  shows "\<exists>w'. preRead nestedImpl ty e w = (Ret (), w') \<and> quiet w w' \<and> covered X w' \<and> reading w' e \<and>
    (\<forall>x\<in>set (members (heap w)). x \<noteq> e \<longrightarrow> reading w' x = reading w x) \<and>
    decoratorsNeedPreRead (heap w') = decoratorsNeedPreRead (heap w) \<and> handleMissingPreReadsCalled (heap w')"
proof (cases "reading w e")
  case True
  then show ?thesis using assms(2,4) by (auto simp: preRead_def)
next
  case False
  define w1 where "w1 = logged (CallPreRead e ty) (upd e (\<lambda>t. t\<lparr>readTransactionInProgress := True\<rparr>) (upd e (\<lambda>t. t\<lparr>activeException := None\<rparr>) w))"
  have q: "quiet w w1" using assms(1) unfolding w1_def by (intro open_quiet) (simp add: well_formed_def)
  have r: "reading w1 y = (reading w y \<or> y = e)" for y by (simp add: w1_def logged_def upd_def)
  have h: "heap w1 = heap w" by (simp add: w1_def logged_def upd_def)
  obtain w' where w': "preRead asyncImpl ty (targetOf (heap w1) e) w1 = (Ret (), w')" "quiet w1 w'"
    "\<forall>y. reading w' y = (reading w1 y \<or> y = targetOf (heap w) e)" "decoratorsNeedPreRead (heap w') = decoratorsNeedPreRead (heap w1)"
    "handleMissingPreReadsCalled (heap w')"
    using target_preRead[of w1 ty "targetOf (heap w1) e"] quiet_well_formed[OF q] assms(1,4) h by auto
  have "preRead nestedImpl ty e w = (Ret (), w')"
    using False assms(3,4) w'(1) h
    by (simp add: preRead_def[of nestedImpl] nested_stages Let_def w1_def[symmetric] decorator_doPreRead_def)
  moreover have qq: "quiet w w'" using quiet_trans[OF q w'(2)] .
  moreover have nm: "targetOf (heap w) e \<noteq> x" if "x \<in> set (members (heap w))" for x
    using assms(1,3) that unfolding well_formed_def by blast
  moreover have "covered X w'"
  proof -
    have d: "data_of w' = data_of w" using qq by (simp add: quiet_def)
    show ?thesis using assms(2) w'(3) r nm unfolding covered_def data_of_eq[OF d] by auto
  qed
  ultimately show ?thesis using w'(3-5) r h by auto
qed

lemma missing_preReads:
  assumes "well_formed w" "covered X w" "\<not> handleMissingPreReadsCalled (heap w)"
    and "decoratorsNeedPreRead (heap w) \<longrightarrow> updateCalledId (heap w) = Some e"
  shows "\<exists>w'. handleMissingPreReads e w = (Ret (), w') \<and> quiet w w' \<and> covered X w' \<and>
    (\<forall>i\<in>set (members (heap w)). i \<noteq> e \<longrightarrow> reading w' i) \<and> \<not> decoratorsNeedPreRead (heap w') \<and>
    \<not> handleMissingPreReadsCalled (heap w')"
proof -
  define w0 where "w0 = updHeap (\<lambda>h. h\<lparr>handleMissingPreReadsCalled := True\<rparr>) w"
  have q0: "quiet w w0" "handleMissingPreReadsCalled (heap w0)" "covered X w0" "decoratorsNeedPreRead (heap w0) = decoratorsNeedPreRead (heap w)"
    "updateCalledId (heap w0) = updateCalledId (heap w)" "members (heap w0) = members (heap w)"
    using assms(2) by (simp_all add: w0_def quiet_def data_of_def updHeap_def covered_def)
  let ?f = "\<lambda>i w. if i \<noteq> e then preRead nestedImpl TT_read i w else (Ret (), w)"
  have "\<exists>w'. forEach ?f is v = (Ret (), w') \<and> quiet v w' \<and> covered X w' \<and> handleMissingPreReadsCalled (heap w') \<and>
      (\<forall>i\<in>set is. i \<noteq> e \<longrightarrow> reading w' i)"
    if "well_formed v" "covered X v" "handleMissingPreReadsCalled (heap v)" "set is \<subseteq> set (members (heap v))" for "is" and v :: "'a historized world"
    using that
  proof (induction "is" arbitrary: v)
    case (Cons i "is")
    obtain v1 where v1: "?f i v = (Ret (), v1)" "quiet v v1" "covered X v1" "handleMissingPreReadsCalled (heap v1)" "i \<noteq> e \<longrightarrow> reading v1 i"
    proof (cases "i = e")
      case False
      with nested_preRead[OF Cons.prems(1,2) _ Cons.prems(3), of i TT_read] Cons.prems(4) that show thesis by auto
    qed (use Cons.prems that[of v] in simp)
    have d: "data_of v1 = data_of v" using v1(2) by (simp add: quiet_def)
    obtain w' where "forEach ?f is v1 = (Ret (), w')" "quiet v1 w'" "covered X w'" "handleMissingPreReadsCalled (heap w')"
      "\<forall>i\<in>set is. i \<noteq> e \<longrightarrow> reading w' i"
      using Cons.IH[of v1] quiet_well_formed[OF v1(2)] Cons.prems(1,4) v1(3,4) data_of_eq(1)[OF d] by auto
    then show ?case using v1 quiet_trans[OF v1(2)] by (auto simp: quiet_def)
  qed simp
  from this[of w0 "members (heap w0)"] obtain w1 where w1: "forEach ?f (members (heap w0)) w0 = (Ret (), w1)" "quiet w0 w1" "covered X w1"
    "\<forall>i\<in>set (members (heap w0)). i \<noteq> e \<longrightarrow> reading w1 i"
    using q0 quiet_well_formed[OF q0(1)] assms(1) by auto
  define w2 where "w2 = updHeap (\<lambda>h. h\<lparr>handleMissingPreReadsCalled := False\<rparr>) (updHeap (\<lambda>h. h\<lparr>decoratorsNeedPreRead := False\<rparr>) w1)"
  have "handleMissingPreReads e w = (Ret (), w2)"
    using assms(3,4) q0 w1(1) by (simp add: handleMissingPreReads_def w0_def[symmetric] setFlags_def w2_def)
  moreover have "quiet w1 w2" "covered X w2" "reading w2 = reading w1" using w1(3) by (simp_all add: w2_def quiet_def data_of_def updHeap_def covered_def fun_eq_iff)
  ultimately show ?thesis using q0 w1 quiet_trans[OF quiet_trans[OF q0(1) w1(2)]] by (auto simp: w2_def updHeap_def)
qed

lemma historized_stages:
  "doPreRead historizedImpl e ty w = (if e \<in> set (members (heap w)) then decorator_doPreRead handleMissingPreReads e ty w
     else async_doPreRead e ty w)"
  "doPostRead historizedImpl e ty u w = (if e \<in> set (members (heap w)) then decorator_doPostRead handleMissingPostReads e ty u w
     else async_doPostRead e ty u w)"
  "queuePopWait historizedImpl e w = (if e \<in> set (members (heap w))
     then andThen (async_pop (targetOf (heap w) e) w) (\<lambda>_ w. readCallback e w) else async_pop e w)"
  by (simp_all add: historizedImpl_def)

text \<open>Everything is ready to receive.\<close>

definition all_reading :: "'d historized world \<Rightarrow> bool" where
  "all_reading w = ((\<forall>e\<in>set (members (heap w)). reading w e \<and> reading w (targetOf (heap w) e)) \<and>
     \<not> decoratorsNeedPreRead (heap w) \<and> \<not> handleMissingPreReadsCalled (heap w))"

lemma member_preRead:
  assumes "well_formed w" "covered {} w" "e \<in> set (members (heap w))" "\<not> handleMissingPreReadsCalled (heap w)"
    and "decoratorsNeedPreRead (heap w) \<longrightarrow> updateCalledId (heap w) = Some e" "\<not> reading w e"
  shows "\<exists>w'. preRead historizedImpl TT_read e w = (Ret (), w') \<and> quiet w w' \<and> all_reading w'"
proof -
  define w1 where "w1 = logged (CallPreRead e TT_read) (upd e (\<lambda>t. t\<lparr>readTransactionInProgress := True\<rparr>) (upd e (\<lambda>t. t\<lparr>activeException := None\<rparr>) w))"
  let ?t = "targetOf (heap w) e"
  have q: "quiet w w1" using assms(1) unfolding w1_def by (intro open_quiet) (simp add: well_formed_def)
  have r: "reading w1 y = (reading w y \<or> y = e)" for y by (simp add: w1_def logged_def upd_def)
  have h: "heap w1 = heap w" by (simp add: w1_def logged_def upd_def)
  have wf: "well_formed w1" using quiet_well_formed[OF q] assms(1) by simp
  have "covered {e} w1" using assms(2) r h by (auto simp: covered_def)
  from missing_preReads[OF wf this, of e] obtain w2 where w2: "handleMissingPreReads e w1 = (Ret (), w2)" "quiet w1 w2" "covered {e} w2"
    "\<forall>i\<in>set (members (heap w)). i \<noteq> e \<longrightarrow> reading w2 i" "\<not> decoratorsNeedPreRead (heap w2)" "\<not> handleMissingPreReadsCalled (heap w2)"
    using assms(4,5) h by auto
  have wf2: "well_formed w2" using quiet_well_formed[OF w2(2)] wf by simp
  have d: "data_of w2 = data_of w" using q w2(2) by (simp add: quiet_def)
  obtain w3 where w3: "preRead asyncImpl TT_read (targetOf (heap w2) e) w2 = (Ret (), w3)" "quiet w2 w3"
    "\<forall>y. reading w3 y = (reading w2 y \<or> y = targetOf (heap w) e)" "decoratorsNeedPreRead (heap w3) = decoratorsNeedPreRead (heap w2)"
    "handleMissingPreReadsCalled (heap w3) = handleMissingPreReadsCalled (heap w2)"
    using target_preRead[OF wf2, of TT_read "targetOf (heap w2) e"] unfolding data_of_eq[OF d] by auto
  have d3: "data_of w3 = data_of w" using d w3(2) by (simp add: quiet_def)
  have "preRead historizedImpl TT_read e w = (Ret (), w3)"
    using assms(3,6) w2(1) w3(1) h
    by (simp add: preRead_def[of historizedImpl] historized_stages Let_def w1_def[symmetric] decorator_doPreRead_def)
  moreover have "quiet w w3" using quiet_trans[OF quiet_trans[OF q w2(2)] w3(2)] .
  moreover have "reading w2 e" using w2(2) r by (simp add: quiet_def)
  with w2(3,4) w3(3) have "reading w3 i \<and> reading w3 (targetOf (heap w) i)" if "i \<in> set (members (heap w))" for i
    using that unfolding covered_def data_of_eq[OF d] by (cases "i = e") auto
  ultimately show ?thesis using w2(5,6) w3(4,5) by (auto simp: all_reading_def data_of_eq[OF d3])
qed

section \<open>Between two updates\<close>

text \<open>What holds before the group waits, and when it has something to accept.\<close>

definition wait_ok :: "'d historized ragstate \<Rightarrow> bool" where
  "wait_ok s = (case s of (g, w) \<Rightarrow>
     well_formed w \<and> covered {} w \<and> members (heap w) \<noteq> [] \<and> set (push_elements g) = set (members (heap w)) \<and>
     \<not> handleMissingPreReadsCalled (heap w) \<and> \<not> handleMissingPostReadsCalled (heap w) \<and>
     (case lastOperation g of
        NoOperation \<Rightarrow> (\<forall>e\<in>set (members (heap w)). \<not> reading w e) \<and> \<not> decoratorsNeedPreRead (heap w)
      | Discarded \<Rightarrow> all_reading w
      | LastIndex i \<Rightarrow> i < length (push_elements g) \<and> \<not> reading w (push_elements g ! i) \<and>
          (decoratorsNeedPreRead (heap w) \<longrightarrow> updateCalledId (heap w) = Some (push_elements g ! i))))"

lemma handlePreRead_ready:
  assumes "wait_ok (g, w)"
  shows "\<exists>w'. handlePreRead historizedImpl (g, w) = (Ret (), (g, w')) \<and> quiet w w' \<and> all_reading w'"
proof (cases "lastOperation g")
  case Discarded
  then show ?thesis using assms by (auto simp: wait_ok_def handlePreRead_def)
next
  case (LastIndex i)
  then have "push_elements g ! i \<in> set (members (heap w))" using assms nth_mem[of i "push_elements g"] by (simp add: wait_ok_def)
  with member_preRead[of w "push_elements g ! i"] assms LastIndex show ?thesis
    by (auto simp: wait_ok_def handlePreRead_def in_rag_def)
next
  case NoOperation
  from assms obtain e es where es: "push_elements g = e # es" by (cases "push_elements g") (auto simp: wait_ok_def)
  then have e: "e \<in> set (members (heap w))" "set es \<subseteq> set (members (heap w))" using assms by (auto simp: wait_ok_def)
  from member_preRead[of w e] assms NoOperation e obtain w1 where
    w1: "preRead historizedImpl TT_read e w = (Ret (), w1)" "quiet w w1" "all_reading w1" by (auto simp: wait_ok_def)
  have d: "data_of w1 = data_of w" using w1(2) by (simp add: quiet_def)
  have "forEach (preRead historizedImpl TT_read) xs w1 = (Ret (), w1)" if "set xs \<subseteq> set (members (heap w))" for xs
    using that by (induction xs) (use w1(3) in \<open>auto simp: preRead_def all_reading_def data_of_eq[OF d]\<close>)
  then show ?thesis using NoOperation w1 es e by (auto simp: handlePreRead_def in_rag_def)
qed

section \<open>What a member holds\<close>

type_synonym 'd vitem = "version_number \<times> 'd \<times> data_validity"

definition current_value :: "'d historized world \<Rightarrow> nat \<Rightarrow> 'd vitem" where
  "current_value w x = (versionNumber (elem w x), userBuffer (heap w) x, dataValidity (elem w x))"

definition past_value :: "'d target_element \<Rightarrow> nat \<Rightarrow> 'd vitem" where
  "past_value p k = (versionNumbers p ! k, histBuffer p ! k, dataValidities p ! k)"

text \<open>The value a match refers to.\<close>

definition matching_value :: "'d historized world \<Rightarrow> nat \<Rightarrow> 'd vitem" where
  "matching_value w e = (let p = targetElement (heap w) e; k = lastMatchingIndex p in
     if k = 0 then current_value w (targetOf (heap w) e) else past_value p (k - 1))"

definition matched :: "version_number \<Rightarrow> 'd historized world \<Rightarrow> nat \<Rightarrow> bool" where
  "matched vn w e = (fst (matching_value w e) = vn \<and> lastMatchingIndex (targetElement (heap w) e) \<le> histLen (targetElement (heap w) e))"

text \<open>The target has, now or in its history, a value of the version.\<close>

definition holds_version :: "version_number \<Rightarrow> 'd historized world \<Rightarrow> nat \<Rightarrow> bool" where
  "holds_version vn w e = (versionNumber (elem w (targetOf (heap w) e)) = vn \<or>
     histLen (targetElement (heap w) e) > 0 \<and> vn \<in> set (versionNumbers (targetElement (heap w) e)))"

text \<open>
  Values of the target and its history that are newer than the last match \<open>L\<close> have been received
  (\<open>R\<close>); older ones may have been swapped out.
\<close>

definition slots_ok :: "'d vitem set \<Rightarrow> version_number \<Rightarrow> 'd historized world \<Rightarrow> nat \<Rightarrow> bool" where
  "slots_ok R L w e = (let p = targetElement (heap w) e; t = targetOf (heap w) e in
     length (histBuffer p) = histLen p \<and> length (versionNumbers p) = histLen p \<and> length (dataValidities p) = histLen p \<and>
     (L < versionNumber (elem w t) \<longrightarrow> current_value w t \<in> R) \<and> L \<le> versionNumber (elem w t) \<and>
     versionNumber (elem w t) \<in> insert nullVersion (fst ` R) \<and>
     (\<forall>k<histLen p. (L < versionNumbers p ! k \<longrightarrow> past_value p k \<in> R) \<and> versionNumbers p ! k \<le> versionNumber (elem w t)))"

definition dec_ok :: "'d vitem set \<Rightarrow> version_number \<Rightarrow> 'd historized world \<Rightarrow> nat \<Rightarrow> bool" where
  "dec_ok R L w e = (versionNumber (elem w e) = L \<and> (nullVersion < L \<longrightarrow> current_value w e \<in> R))"

text \<open>What belongs to a member as a target and as a decorator.\<close>

definition slot_view :: "'d historized world \<Rightarrow> nat \<Rightarrow> _" where
  "slot_view w e = (targetElement (heap w) e, current_value w (targetOf (heap w) e))"

definition frame :: "nat set \<Rightarrow> nat set \<Rightarrow> 'd historized world \<Rightarrow> 'd historized world \<Rightarrow> bool" where
  "frame A B w w' =
     (members (heap w') = members (heap w) \<and> targetOf (heap w') = targetOf (heap w) \<and> deviceOpen (heap w') = deviceOpen (heap w) \<and>
      incoming (heap w') = incoming (heap w) \<and> (\<forall>x. activeException (elem w' x) = activeException (elem w x)) \<and>
      (\<forall>i\<in>set (members (heap w)) - A. slot_view w' i = slot_view w i) \<and>
      (\<forall>i\<in>set (members (heap w)) - B. current_value w' i = current_value w i))"

lemma frame_refl [simp]: "frame A B w w"
  by (simp add: frame_def)

lemma frame_trans: "frame A B u v \<Longrightarrow> frame A B v w \<Longrightarrow> frame A B u w"
  by (simp add: frame_def)

lemma frame_mono: "frame A B w w' \<Longrightarrow> A \<subseteq> A' \<Longrightarrow> B \<subseteq> B' \<Longrightarrow> frame A' B' w w'"
  unfolding frame_def by blast

lemma frame_well_formed: "frame A B w w' \<Longrightarrow> well_formed w' = well_formed w"
  by (simp add: frame_def well_formed_def)

lemma quiet_frame: "quiet w w' \<Longrightarrow> frame {} {} w w'"
proof -
  assume "quiet w w'"
  then have d: "data_of w' = data_of w" by (simp add: quiet_def)
  show ?thesis unfolding frame_def slot_view_def current_value_def data_of_eq[OF d] by simp
qed

lemma view_slots:
  assumes "slot_view w' e = slot_view w e" "targetOf (heap w') e = targetOf (heap w) e"
  shows "slots_ok R L w' e = slots_ok R L w e" "matching_value w' e = matching_value w e" "matched vn w' e = matched vn w e"
    "holds_version vn w' e = holds_version vn w e"
proof -
  have 1: "targetElement (heap w') e = targetElement (heap w) e" "current_value w' (targetOf (heap w) e) = current_value w (targetOf (heap w) e)"
    using assms by (simp_all add: slot_view_def)
  then have 2: "versionNumber (elem w' (targetOf (heap w) e)) = versionNumber (elem w (targetOf (heap w) e))" by (simp add: current_value_def)
  show "slots_ok R L w' e = slots_ok R L w e" by (simp add: slots_ok_def assms(2) 1 2 Let_def)
  show 3: "matching_value w' e = matching_value w e" by (simp add: matching_value_def assms(2) 1 Let_def)
  show "matched vn w' e = matched vn w e" by (simp add: matched_def 3 1)
  show "holds_version vn w' e = holds_version vn w e" by (simp add: holds_version_def assms(2) 1 2)
qed

lemma view_dec: "current_value w' e = current_value w e \<Longrightarrow> dec_ok R L w' e = dec_ok R L w e"
  by (simp add: dec_ok_def current_value_def)

lemma slots_ok_mono: "slots_ok R L w e \<Longrightarrow> R \<subseteq> R' \<Longrightarrow> slots_ok R' L w e"
  unfolding slots_ok_def Let_def by blast

lemma slots_ok_bound: "slots_ok R L w e \<Longrightarrow> L \<le> versionNumber (elem w (targetOf (heap w) e))"
  by (simp add: slots_ok_def Let_def)

section \<open>Receiving a value\<close>

lemma shiftHistory_facts:
  assumes "i < histLen p" "length (histBuffer p) = histLen p" "length (versionNumbers p) = histLen p" "length (dataValidities p) = histLen p"
  shows "histLen (shiftHistory i p) = histLen p \<and> length (histBuffer (shiftHistory i p)) = histLen p \<and>
    length (versionNumbers (shiftHistory i p)) = histLen p \<and> length (dataValidities (shiftHistory i p)) = histLen p \<and>
    (\<forall>k. 0 < k \<longrightarrow> past_value (shiftHistory i p) k = (if k \<le> i then past_value p (k - 1) else past_value p k))"
  using assms
proof (induction i arbitrary: p)
  case (Suc i)
  let ?p = "p\<lparr>histBuffer := (histBuffer p)[Suc i := histBuffer p ! i, i := histBuffer p ! Suc i],
       versionNumbers := (versionNumbers p)[Suc i := versionNumbers p ! i], dataValidities := (dataValidities p)[Suc i := dataValidities p ! i]\<rparr>"
  have swapped: "past_value ?p (Suc i) = past_value p i" "k \<noteq> i \<Longrightarrow> k \<noteq> Suc i \<Longrightarrow> past_value ?p k = past_value p k" for k
    using Suc.prems by (simp_all add: past_value_def)
  have IH: "histLen (shiftHistory i ?p) = histLen p \<and> length (histBuffer (shiftHistory i ?p)) = histLen p \<and>
    length (versionNumbers (shiftHistory i ?p)) = histLen p \<and> length (dataValidities (shiftHistory i ?p)) = histLen p \<and>
    (\<forall>k. 0 < k \<longrightarrow> past_value (shiftHistory i ?p) k = (if k \<le> i then past_value ?p (k - 1) else past_value ?p k))"
    using Suc.IH[of ?p] Suc.prems by simp
  have "past_value (shiftHistory i ?p) k = (if k \<le> Suc i then past_value p (k - 1) else past_value p k)" if k: "0 < k" for k
  proof -
    consider "k \<le> i" | "k = Suc i" | "Suc i < k" by linarith
    then show ?thesis
    proof cases
      case 1
      then have "past_value (shiftHistory i ?p) k = past_value ?p (k - 1)" using IH k by simp
      also have "\<dots> = past_value p (k - 1)" using 1 k by (intro swapped(2)) auto
      finally show ?thesis using 1 by simp
    next
      case 2
      then show ?thesis using IH k swapped(1) by simp
    next
      case 3
      then show ?thesis using IH k swapped(2)[of k] by simp
    qed
  qed
  then show ?case using IH by simp
qed simp

text \<open>The history after the value of the target has been put into it.\<close>

definition pushed_history :: "'d vitem \<Rightarrow> 'd target_element \<Rightarrow> 'd target_element" where
  "pushed_history x p =
     (let p = (if versionNumbers p ! 0 > nullVersion then shiftHistory (length (histBuffer p) - 1) p else p)
      in p\<lparr>histBuffer := (histBuffer p)[0 := fst (snd x)], versionNumbers := (versionNumbers p)[0 := fst x],
           dataValidities := (dataValidities p)[0 := snd (snd x)]\<rparr>)"

lemma pushed_history_facts:
  assumes "0 < histLen p" "length (histBuffer p) = histLen p" "length (versionNumbers p) = histLen p" "length (dataValidities p) = histLen p"
  shows "histLen (pushed_history x p) = histLen p" "length (histBuffer (pushed_history x p)) = histLen p"
    "length (versionNumbers (pushed_history x p)) = histLen p" "length (dataValidities (pushed_history x p)) = histLen p"
    "past_value (pushed_history x p) 0 = x"
    "k < histLen p \<Longrightarrow> 0 < k \<Longrightarrow> \<exists>j<histLen p. past_value (pushed_history x p) k = past_value p j"
proof -
  define q where "q = (if versionNumbers p ! 0 > nullVersion then shiftHistory (length (histBuffer p) - 1) p else p)"
  have sh: "histLen (shiftHistory (length (histBuffer p) - 1) p) = histLen p \<and> length (histBuffer (shiftHistory (length (histBuffer p) - 1) p)) = histLen p \<and>
    length (versionNumbers (shiftHistory (length (histBuffer p) - 1) p)) = histLen p \<and>
    length (dataValidities (shiftHistory (length (histBuffer p) - 1) p)) = histLen p \<and>
    (\<forall>k. 0 < k \<longrightarrow> past_value (shiftHistory (length (histBuffer p) - 1) p) k = (if k \<le> length (histBuffer p) - 1 then past_value p (k - 1) else past_value p k))"
    by (rule shiftHistory_facts) (use assms in simp_all)
  then have q: "histLen q = histLen p" "length (histBuffer q) = histLen p" "length (versionNumbers q) = histLen p" "length (dataValidities q) = histLen p"
    using assms unfolding q_def by simp_all
  have qk: "\<exists>j<histLen p. past_value q k = past_value p j" if "k < histLen p" "0 < k" for k
    using sh that assms(2) unfolding q_def by (auto intro: exI[of _ "k - 1"] exI[of _ k])
  have ph: "pushed_history x p = q\<lparr>histBuffer := (histBuffer q)[0 := fst (snd x)], versionNumbers := (versionNumbers q)[0 := fst x],
           dataValidities := (dataValidities q)[0 := snd (snd x)]\<rparr>"
    by (simp add: pushed_history_def q_def Let_def)
  show "histLen (pushed_history x p) = histLen p" "length (histBuffer (pushed_history x p)) = histLen p"
    "length (versionNumbers (pushed_history x p)) = histLen p" "length (dataValidities (pushed_history x p)) = histLen p"
    "past_value (pushed_history x p) 0 = x"
    using q assms(1) by (simp_all add: ph past_value_def)
  show "\<exists>j<histLen p. past_value (pushed_history x p) k = past_value p j" if "k < histLen p" "0 < k"
    using qk[OF that] that by (simp add: ph past_value_def)
qed

lemma updateHistory_eq:
  assumes "histLen (targetElement (heap w) e) > 0"
  shows "\<exists>d. updateHistory e w = updHeap (\<lambda>h. h\<lparr>userBuffer := (userBuffer h)(targetOf (heap w) e := d)\<rparr>)
    (updTarget e (\<lambda>_. pushed_history (current_value w (targetOf (heap w) e)) (targetElement (heap w) e)) w)"
  using assms by (auto simp: updateHistory_def pushed_history_def current_value_def Let_def)

lemma receive:
  assumes wf: "well_formed w" and e: "e \<in> set (members (heap w))" and t: "t = targetOf (heap w) e" and rd: "reading w t"
    and rb: "receiveBuffer (heap w) t = (d, vn, q)" and s: "slots_ok R L w e" and v: "versionNumber (elem w t) \<le> vn"
  shows "\<exists>w2. postRead asyncImpl TT_read True t (updateHistory e w) = (Ret (), w2) \<and> slots_ok (insert (vn, d, q) R) L w2 e \<and>
    current_value w2 t = (vn, d, q) \<and> frame {e} {} w w2 \<and> (\<forall>x. reading w2 x = (reading w x \<and> x \<noteq> t)) \<and>
    lastMatchingVersionNumber (heap w2) = lastMatchingVersionNumber (heap w) \<and> updateCalledId (heap w2) = updateCalledId (heap w) \<and>
    decoratorsNeedPreRead (heap w2) = decoratorsNeedPreRead (heap w) \<and> handleMissingPreReadsCalled (heap w2) = handleMissingPreReadsCalled (heap w) \<and>
    handleMissingPostReadsCalled (heap w2) = handleMissingPostReadsCalled (heap w)"
proof -
  let ?p = "targetElement (heap w) e"
  define p' where "p' = (if histLen ?p > 0 then pushed_history (current_value w t) ?p else ?p)"
  obtain b where b: "updateHistory e w = updHeap (\<lambda>h. h\<lparr>userBuffer := (userBuffer h)(t := b)\<rparr>) (updTarget e (\<lambda>_. p') w)"
  proof (cases "histLen ?p > 0")
    case True
    then show thesis using updateHistory_eq[of w e] that unfolding t p'_def by auto
  next
    case False
    have "updateHistory e w = updHeap (\<lambda>h. h\<lparr>userBuffer := (userBuffer h)(t := userBuffer (heap w) t)\<rparr>) (updTarget e (\<lambda>_. p') w)"
      using False by (simp add: updateHistory_def p'_def updHeap_def updTarget_def)
    then show thesis by (rule that)
  qed
  define w2 where "w2 = updHeap (\<lambda>h. h\<lparr>receiveBuffer := (receiveBuffer h)(t := (b, vn, q)), userBuffer := (userBuffer h)(t := d)\<rparr>)
      (upd t (\<lambda>x. x\<lparr>versionNumber := vn, dataValidity := q\<rparr>)
        (logged (CallPostRead t TT_read True) (upd t (\<lambda>x. x\<lparr>readTransactionInProgress := False\<rparr>) (updateHistory e w))))"
  have post: "postRead asyncImpl TT_read True t (updateHistory e w) = (Ret (), w2)"
    using rd wf rb by (simp add: postRead_def b updHeap_def updTarget_def asyncImpl_def async_doPostRead_def rethrowActive_def well_formed_def
        upd_def logged_def w2_def)
  have te: "i \<in> set (members (heap w)) \<Longrightarrow> targetOf (heap w) i = t \<longleftrightarrow> i = e" "t \<notin> set (members (heap w))" for i
    using wf e unfolding well_formed_def t by (auto simp: inj_on_def)
  have val: "current_value w2 x = (if x = t then (vn, d, q) else current_value w x)" for x
    by (simp add: current_value_def w2_def b updHeap_def updTarget_def upd_def logged_def)
  have tel: "targetElement (heap w2) = (targetElement (heap w))(e := p')" "targetOf (heap w2) = targetOf (heap w)"
    by (simp_all add: w2_def b updHeap_def updTarget_def upd_def logged_def)
  have fr: "frame {e} {} w w2"
    using te by (auto simp: frame_def slot_view_def val tel) (auto simp: w2_def b updHeap_def updTarget_def upd_def logged_def)
  have lens: "length (histBuffer ?p) = histLen ?p" "length (versionNumbers ?p) = histLen ?p" "length (dataValidities ?p) = histLen ?p"
    and cur: "L < versionNumber (elem w t) \<longrightarrow> current_value w t \<in> R" "L \<le> versionNumber (elem w t)"
    and past: "\<forall>k<histLen ?p. (L < fst (past_value ?p k) \<longrightarrow> past_value ?p k \<in> R) \<and> fst (past_value ?p k) \<le> versionNumber (elem w t)"
    using s unfolding slots_ok_def Let_def t past_value_def by simp_all
  have len: "histLen p' = histLen ?p" "length (histBuffer p') = histLen ?p" "length (versionNumbers p') = histLen ?p" "length (dataValidities p') = histLen ?p"
    using lens pushed_history_facts(1-4)[of ?p "current_value w t"] unfolding p'_def by (cases "histLen ?p > 0"; simp)+
  have hist: "(L < fst (past_value p' k) \<longrightarrow> past_value p' k \<in> R) \<and> fst (past_value p' k) \<le> vn" if "k < histLen ?p" for k
  proof (cases "k = 0")
    case True
    then have "past_value p' k = current_value w t"
      using that lens pushed_history_facts(5)[of ?p "current_value w t"] unfolding p'_def by simp
    then show ?thesis using cur v by (simp add: current_value_def)
  next
    case False
    then have "\<exists>j<histLen ?p. past_value p' k = past_value ?p j"
      using that lens pushed_history_facts(6)[of ?p k "current_value w t"] unfolding p'_def by simp
    then obtain j where "j < histLen ?p" "past_value p' k = past_value ?p j" by blast
    then show ?thesis using past v by (metis order.trans)
  qed
  have "slots_ok (insert (vn, d, q) R) L w2 e"
    using len hist v cur(2) val[of t] unfolding slots_ok_def Let_def tel t[symmetric]
    by (auto simp: past_value_def current_value_def)
  moreover have "\<forall>x. reading w2 x = (reading w x \<and> x \<noteq> t)"
    by (simp add: w2_def b updHeap_def updTarget_def upd_def logged_def)
  ultimately show ?thesis using post fr val[of t] by (intro exI[of _ w2]) (auto simp: w2_def b updHeap_def updTarget_def upd_def logged_def)
qed

section \<open>Looking for a match\<close>

lemma position_spec: "position x xs = Some k \<Longrightarrow> k < length xs \<and> xs ! k = x" "position x xs = None \<longleftrightarrow> x \<notin> set xs"
proof (induction xs arbitrary: k)
  case (Cons y xs)
  case 1
  then show ?case using Cons(1) by (cases k) (auto split: if_splits)
next
  case (Cons y xs)
  case 2
  show ?case using Cons(2) by (cases "y = x") auto
qed simp_all

text \<open>The search changes the indices of the last match only.\<close>

definition reindexed :: "(nat \<Rightarrow> nat) \<Rightarrow> 'd historized world \<Rightarrow> 'd historized world" where
  "reindexed m w = w\<lparr>heap := (heap w)\<lparr>targetElement := (\<lambda>i. (targetElement (heap w) i)\<lparr>lastMatchingIndex := m i\<rparr>)\<rparr>\<rparr>"

abbreviation matchIndex :: "'d historized world \<Rightarrow> nat \<Rightarrow> nat" where
  "matchIndex w i \<equiv> lastMatchingIndex (targetElement (heap w) i)"

lemma reindexed_same: "reindexed (matchIndex w) w = w"
proof -
  have "(\<lambda>i. (targetElement (heap w) i)\<lparr>lastMatchingIndex := matchIndex w i\<rparr>) = targetElement (heap w)" by (simp add: fun_eq_iff)
  then show ?thesis by (simp add: reindexed_def)
qed

lemma reindexed_twice [simp]: "reindexed m (reindexed m' w) = reindexed m w"
  by (simp add: reindexed_def)

lemma reindexed_simps [simp]:
  "elem (reindexed m w) = elem w" "members (heap (reindexed m w)) = members (heap w)" "targetOf (heap (reindexed m w)) = targetOf (heap w)"
  "matchIndex (reindexed m w) i = m i" "current_value (reindexed m w) x = current_value w x"
  "holds_version vn (reindexed m w) i = holds_version vn w i" "slots_ok R L (reindexed m w) i = slots_ok R L w i"
  "past_value (targetElement (heap (reindexed m w)) i) k = past_value (targetElement (heap w) i) k"
  "histLen (targetElement (heap (reindexed m w)) i) = histLen (targetElement (heap w) i)"
  "versionNumbers (targetElement (heap (reindexed m w)) i) = versionNumbers (targetElement (heap w) i)"
  by (simp_all add: reindexed_def current_value_def holds_version_def slots_ok_def past_value_def Let_def)

lemma updTarget_index: "updTarget i (\<lambda>p. p\<lparr>lastMatchingIndex := k\<rparr>) w = reindexed ((matchIndex w)(i := k)) w"
proof -
  have "(targetElement (heap w))(i := (targetElement (heap w) i)\<lparr>lastMatchingIndex := k\<rparr>) =
      (\<lambda>j. (targetElement (heap w) j)\<lparr>lastMatchingIndex := ((matchIndex w)(i := k)) j\<rparr>)" by (simp add: fun_eq_iff)
  then show ?thesis unfolding updTarget_def updHeap_def reindexed_def by simp
qed

lemma matched_reindexed:
  "matched vn (reindexed m w) i = ((if m i = 0 then versionNumber (elem w (targetOf (heap w) i)) = vn
     else versionNumbers (targetElement (heap w) i) ! (m i - 1) = vn) \<and> m i \<le> histLen (targetElement (heap w) i))"
proof -
  have "matching_value (reindexed m w) i = (if m i = 0 then current_value w (targetOf (heap w) i) else past_value (targetElement (heap w) i) (m i - 1))"
    by (simp add: matching_value_def Let_def)
  then show ?thesis by (simp add: matched_def current_value_def past_value_def)
qed

lemma findMatchLoop_spec:
  assumes "distinct is" "\<forall>i\<in>set is. length (versionNumbers (targetElement (heap w) i)) = histLen (targetElement (heap w) i)"
  shows "\<exists>m. findMatchLoop e vn is w = ((\<forall>i\<in>set is. i \<noteq> e \<longrightarrow> holds_version vn w i), reindexed m w) \<and>
    (\<forall>i. i \<notin> set is \<or> i = e \<longrightarrow> m i = matchIndex w i) \<and>
    ((\<forall>i\<in>set is. i \<noteq> e \<longrightarrow> holds_version vn w i) \<longrightarrow> (\<forall>i\<in>set is. i \<noteq> e \<longrightarrow> matched vn (reindexed m w) i))"
  using assms
proof (induction "is" arbitrary: w)
  case Nil
  then show ?case by (auto intro!: exI[of _ "matchIndex w"] simp: reindexed_same)
next
  case (Cons i "is")
  let ?p = "targetElement (heap w) i"
  consider (self) "i = e" | (none) "i \<noteq> e" "\<not> holds_version vn w i" | (found) "i \<noteq> e" "holds_version vn w i" by blast
  then show ?case
  proof cases
    case self
    then show ?thesis using Cons.IH[of w] Cons.prems by auto
  next
    case none
    then have "findMatchLoop e vn (i # is) w = (False, w)"
      using position_spec(2)[of vn "versionNumbers ?p"] by (auto simp: holds_version_def Let_def split: option.splits)
    then show ?thesis using none by (intro exI[of _ "matchIndex w"]) (auto simp: reindexed_same)
  next
    case found
    obtain k where k: "findMatchLoop e vn (i # is) w = findMatchLoop e vn is (reindexed ((matchIndex w)(i := k)) w)"
      "matched vn (reindexed ((matchIndex w)(i := k)) w) i"
    proof (cases "versionNumber (elem w (targetOf (heap w) i)) = vn")
      case True
      then show thesis using that[of 0] found(1) by (simp add: updTarget_index matched_reindexed)
    next
      case False
      with found(2) obtain pos where "position vn (versionNumbers ?p) = Some pos" "0 < histLen ?p"
        using position_spec(2)[of vn "versionNumbers ?p"] by (cases "position vn (versionNumbers ?p)") (auto simp: holds_version_def)
      then show thesis using that[of "Suc pos"] False found(1) position_spec(1)[of vn "versionNumbers ?p" pos] Cons.prems(2)
        by (auto simp: updTarget_index matched_reindexed Let_def)
    qed
    let ?w = "reindexed ((matchIndex w)(i := k)) w"
    obtain m where m: "findMatchLoop e vn is ?w = ((\<forall>i\<in>set is. i \<noteq> e \<longrightarrow> holds_version vn w i), reindexed m w)"
      "\<forall>j. j \<notin> set is \<or> j = e \<longrightarrow> m j = matchIndex ?w j"
      "(\<forall>i\<in>set is. i \<noteq> e \<longrightarrow> holds_version vn w i) \<longrightarrow> (\<forall>i\<in>set is. i \<noteq> e \<longrightarrow> matched vn (reindexed m w) i)"
      using Cons.IH[of ?w] Cons.prems by auto
    have "m i = k" using m(2) Cons.prems(1) by simp
    then have "matched vn (reindexed m w) i" using k(2) by (cases "k = 0") (simp_all add: matched_reindexed)
    then show ?thesis using k(1) m found by (intro exI[of _ m]) (auto simp: matched_reindexed)
  qed
qed

lemma invalidated_slots:
  assumes "slots_ok R L w i"
  shows "slots_ok R L (updTarget e (\<lambda>p. p\<lparr>versionNumbers := (versionNumbers p)[0 := nullVersion]\<rparr>) w) i"
proof (cases "i = e")
  case False
  then show ?thesis using assms by (simp add: updTarget_def updHeap_def slots_ok_def current_value_def Let_def)
next
  case True
  let ?p = "targetElement (heap w) e" and ?q = "(targetElement (heap w) e)\<lparr>versionNumbers := (versionNumbers (targetElement (heap w) e))[0 := nullVersion]\<rparr>"
  have "(L < versionNumbers ?q ! k \<longrightarrow> past_value ?q k \<in> R) \<and> versionNumbers ?q ! k \<le> versionNumber (elem w (targetOf (heap w) e))"
    if "k < histLen ?p" for k
  proof (cases "k = 0")
    case zero: True
    then have "versionNumbers ?q ! k = nullVersion" using assms True that by (simp add: slots_ok_def Let_def)
    then show ?thesis using leD[OF null_least[of L]] by simp
  next
    case False
    then have "versionNumbers ?q ! k = versionNumbers ?p ! k" "past_value ?q k = past_value ?p k" by (simp_all add: past_value_def)
    then show ?thesis using assms True that by (simp add: slots_ok_def Let_def)
  qed
  then show ?thesis using assms True by (simp add: updTarget_def updHeap_def slots_ok_def current_value_def Let_def)
qed

lemma checkUpdate_spec:
  assumes "well_formed w" "e \<in> set (members (heap w))" "\<forall>i\<in>set (members (heap w)). slots_ok (R i) L w i"
  shows "\<exists>w'. checkUpdate e w = ((\<forall>i\<in>set (members (heap w)). i \<noteq> e \<longrightarrow> holds_version (versionNumber (elem w (targetOf (heap w) e))) w i), w') \<and>
    elem w' = elem w \<and> (\<exists>p. heap w' = (heap w)\<lparr>targetElement := p,
      lastMatchingVersionNumber := (if \<forall>i\<in>set (members (heap w)). i \<noteq> e \<longrightarrow> holds_version (versionNumber (elem w (targetOf (heap w) e))) w i
        then versionNumber (elem w (targetOf (heap w) e)) else lastMatchingVersionNumber (heap w))\<rparr>) \<and>
    (\<forall>i\<in>set (members (heap w)). slots_ok (R i) L w' i) \<and>
    ((\<forall>i\<in>set (members (heap w)). i \<noteq> e \<longrightarrow> holds_version (versionNumber (elem w (targetOf (heap w) e))) w i) \<longrightarrow>
      (\<forall>i\<in>set (members (heap w)). matched (versionNumber (elem w (targetOf (heap w) e))) w' i) \<and> matchIndex w' e = 0)"
proof -
  let ?vn = "versionNumber (elem w (targetOf (heap w) e))" and ?p = "targetElement (heap w) e"
  let ?all = "\<forall>i\<in>set (members (heap w)). i \<noteq> e \<longrightarrow> holds_version ?vn w i"
  define w1 where "w1 = (if histLen ?p > 0 \<and> ?vn = versionNumbers ?p ! 0
    then updTarget e (\<lambda>p. p\<lparr>versionNumbers := (versionNumbers p)[0 := nullVersion]\<rparr>) w else w)"
  have w1: "elem w1 = elem w" "members (heap w1) = members (heap w)" "targetOf (heap w1) = targetOf (heap w)"
    "i \<noteq> e \<Longrightarrow> holds_version vn w1 i = holds_version vn w i" "\<exists>p. heap w1 = (heap w)\<lparr>targetElement := p\<rparr>" for i vn
    unfolding w1_def by (auto simp: updTarget_def updHeap_def holds_version_def intro: exI[of _ "targetElement (heap w)"])
  have slots: "slots_ok (R i) L w1 i" if "i \<in> set (members (heap w))" for i
    using assms(3) that invalidated_slots[of "R i" L w i e] unfolding w1_def by simp
  have "distinct (members (heap w1))" "\<forall>i\<in>set (members (heap w1)). length (versionNumbers (targetElement (heap w1) i)) = histLen (targetElement (heap w1) i)"
    using assms(1) slots w1(2) by (auto simp: well_formed_def slots_ok_def Let_def)
  from findMatchLoop_spec[OF this, of e ?vn] obtain m where
    m: "findMatchLoop e ?vn (members (heap w)) w1 = (?all, reindexed m w1)" "?all \<longrightarrow> (\<forall>i\<in>set (members (heap w)). i \<noteq> e \<longrightarrow> matched ?vn (reindexed m w1) i)"
    using w1 by auto
  show ?thesis
  proof (cases ?all)
    case False
    then have "findMatchLoop e ?vn (members (heap w)) w1 = (False, reindexed m w1)" using m(1) by simp
    then have "checkUpdate e w = (False, reindexed m w1)"
      using assms(2) w1 by (simp add: checkUpdate_def w1_def[symmetric] findMatch_def Let_def)
    moreover have "\<exists>p. heap (reindexed m w1) = (heap w)\<lparr>targetElement := p, lastMatchingVersionNumber := lastMatchingVersionNumber (heap w)\<rparr>"
      using w1(5) by (auto simp: reindexed_def)
    ultimately show ?thesis using False slots w1(1) by (intro exI[of _ "reindexed m w1"]) auto
  next
    case True
    let ?w = "updHeap (\<lambda>h. h\<lparr>lastMatchingVersionNumber := ?vn\<rparr>) (reindexed (m(e := 0)) w1)"
    have "findMatchLoop e ?vn (members (heap w)) w1 = (True, reindexed m w1)" using m(1) True by simp
    then have "checkUpdate e w = (True, ?w)"
      using assms(2) w1 by (simp add: checkUpdate_def w1_def[symmetric] findMatch_def Let_def updTarget_index)
    moreover have "\<exists>p. heap ?w = (heap w)\<lparr>targetElement := p, lastMatchingVersionNumber := ?vn\<rparr>"
      using w1(5) by (auto simp: reindexed_def updHeap_def)
    moreover have "slots_ok R' L ?w i = slots_ok R' L (reindexed (m(e := 0)) w1) i" "matched vn ?w i = matched vn (reindexed (m(e := 0)) w1) i" for R' i vn
      by (simp_all add: updHeap_def slots_ok_def matched_def matching_value_def current_value_def Let_def)
    moreover have "matched ?vn (reindexed (m(e := 0)) w1) i" if "i \<in> set (members (heap w))" for i
      using m(2) True that w1(1,3) by (auto simp: matched_reindexed)
    ultimately show ?thesis using True slots w1(1) by (intro exI[of _ ?w]) (auto simp: updHeap_def)
  qed
qed

lemma checkUpdate_acc:
  assumes "well_formed w" "e \<in> set (members (heap w))" "\<forall>i\<in>set (members (heap w)). slots_ok (R i) L w i"
    and vn: "versionNumber (elem w (targetOf (heap w) e)) = vn" and acc: "(\<forall>i\<in>set (members (heap w)). i \<noteq> e \<longrightarrow> holds_version vn w i) = acc"
  shows "\<exists>w'. checkUpdate e w = (acc, w') \<and> elem w' = elem w \<and>
    (\<exists>p. heap w' = (heap w)\<lparr>targetElement := p, lastMatchingVersionNumber := (if acc then vn else lastMatchingVersionNumber (heap w))\<rparr>) \<and>
    (\<forall>i\<in>set (members (heap w)). slots_ok (R i) L w' i) \<and>
    (acc \<longrightarrow> (\<forall>i\<in>set (members (heap w)). matched vn w' i) \<and> matchIndex w' e = 0)"
  by (rule checkUpdate_spec[OF assms(1-3), unfolded vn acc])

section \<open>Taking the matching values\<close>

definition take_match :: "nat \<Rightarrow> 'd historized world \<Rightarrow> 'd historized world" where
  "take_match e w = (case getMatchingInfo e w of (vs, dv) \<Rightarrow> swapMatching e (upd e (\<lambda>t. t\<lparr>versionNumber := vs, dataValidity := dv\<rparr>) w))"

text \<open>The fields of the matcher that only the handling of missing stages changes.\<close>

definition control :: "'d historized world \<Rightarrow> _" where
  "control w = (lastMatchingVersionNumber (heap w), updateCalledId (heap w), decoratorsNeedPreRead (heap w),
     handleMissingPreReadsCalled (heap w), handleMissingPostReadsCalled (heap w))"

lemma take_match_ok:
  assumes wf: "well_formed w" and e: "e \<in> set (members (heap w))" and s: "slots_ok R L w e" and m: "matched vn w e"
    and val: "matching_value w e \<in> R" and L: "L \<le> vn"
  shows "slots_ok R vn (take_match e w) e" "current_value (take_match e w) e = matching_value w e" "dec_ok R vn (take_match e w) e"
    "frame {e} {e} w (take_match e w)" "reading (take_match e w) = reading w" "control (take_match e w) = control w"
proof -
  let ?p = "targetElement (heap w) e" and ?t = "targetOf (heap w) e"
  let ?k = "lastMatchingIndex ?p" and ?w' = "take_match e w"
  have te: "i \<in> set (members (heap w)) \<Longrightarrow> targetOf (heap w) i = ?t \<longleftrightarrow> i = e" "?t \<notin> set (members (heap w))"
    "i \<in> set (members (heap w)) \<Longrightarrow> targetOf (heap w) i \<noteq> e" for i
    using wf e unfolding well_formed_def by (auto simp: inj_on_def)
  have vn: "fst (matching_value w e) = vn" "?k \<le> histLen ?p" using m by (simp_all add: matched_def)
  have fields: "members (heap ?w') = members (heap w)" "targetOf (heap ?w') = targetOf (heap w)" "deviceOpen (heap ?w') = deviceOpen (heap w)"
    "incoming (heap ?w') = incoming (heap w)" "activeException (elem ?w' x) = activeException (elem w x)"
    "reading ?w' x = reading w x" "control ?w' = control w" for x
    by (simp_all add: take_match_def swapMatching_def swapBuffers_def updHeap_def updTarget_def upd_def control_def Let_def case_prod_beta)
  have tel: "targetElement (heap ?w') i = (if i = e \<and> ?k > 0 then ?p\<lparr>histBuffer := (histBuffer ?p)[?k - 1 := userBuffer (heap w) e]\<rparr>
      else targetElement (heap w) i)" for i
    by (auto simp: take_match_def swapMatching_def swapBuffers_def updHeap_def updTarget_def upd_def Let_def case_prod_beta)
  have own: "current_value ?w' e = matching_value w e"
    using te(2) e by (auto simp: take_match_def swapMatching_def swapBuffers_def updHeap_def updTarget_def upd_def Let_def case_prod_beta
        getMatchingInfo_def matching_value_def current_value_def past_value_def)
  have other: "current_value ?w' x = current_value w x" if "x \<noteq> e" "x \<noteq> ?t" for x
    using that by (auto simp: take_match_def swapMatching_def swapBuffers_def updHeap_def updTarget_def upd_def Let_def case_prod_beta current_value_def)
  have vt: "versionNumber (elem ?w' ?t) = versionNumber (elem w ?t)" "?k > 0 \<Longrightarrow> current_value ?w' ?t = current_value w ?t"
    using te(2) e by (auto simp: take_match_def swapMatching_def swapBuffers_def updHeap_def updTarget_def upd_def Let_def case_prod_beta current_value_def)
  have le: "vn \<le> versionNumber (elem w ?t)"
    using vn s by (auto simp: matching_value_def current_value_def past_value_def slots_ok_def Let_def split: if_splits)
  have "past_value (targetElement (heap ?w') e) k \<in> R" if "k < histLen ?p" "vn < versionNumbers ?p ! k" for k
  proof -
    have "k \<noteq> ?k - 1 \<or> ?k = 0" using vn(1) that(2) by (auto simp: matching_value_def past_value_def Let_def split: if_splits)
    then have "past_value (targetElement (heap ?w') e) k = past_value ?p k" by (auto simp: tel past_value_def)
    then show ?thesis using s that L by (auto simp: slots_ok_def Let_def)
  qed
  moreover have "vn < versionNumber (elem w ?t) \<Longrightarrow> current_value ?w' ?t \<in> R"
  proof -
    assume a: "vn < versionNumber (elem w ?t)"
    then have "?k > 0" using vn(1) by (auto simp: matching_value_def current_value_def Let_def split: if_splits)
    then show "current_value ?w' ?t \<in> R" using vt(2) a s L by (simp add: slots_ok_def Let_def)
  qed
  moreover have "histLen (targetElement (heap ?w') e) = histLen ?p" "versionNumbers (targetElement (heap ?w') e) = versionNumbers ?p"
    "length (histBuffer (targetElement (heap ?w') e)) = length (histBuffer ?p)" "dataValidities (targetElement (heap ?w') e) = dataValidities ?p"
    by (simp_all add: tel)
  ultimately show "slots_ok R vn ?w' e" using s le vt(1) by (simp add: slots_ok_def Let_def fields)
  show "current_value ?w' e = matching_value w e" by (rule own)
  have "versionNumber (elem ?w' e) = fst (current_value ?w' e)" by (simp add: current_value_def)
  then show "dec_ok R vn ?w' e" using own val vn(1) by (simp add: dec_ok_def)
  have "slot_view ?w' i = slot_view w i" if "i \<in> set (members (heap w))" "i \<noteq> e" for i
    using that te other[of "targetOf (heap w) i"] by (simp add: slot_view_def tel fields)
  moreover have "current_value ?w' i = current_value w i" if "i \<in> set (members (heap w))" "i \<noteq> e" for i
    using that te(2) other[of i] by auto
  ultimately show "frame {e} {e} w ?w'" by (auto simp: frame_def fields)
  show "reading ?w' = reading w" "control ?w' = control w" using fields by auto
qed

lemma decorator_post:
  assumes "activeException (elem w1 e) = None" "missing e True w = (Ret (), w1)"
    and "\<not> lastMatchingVersionNumber (heap w) > versionNumber (elem w e) \<Longrightarrow> w1 = w"
  shows "decorator_doPostRead missing e ty True w = (Ret (), take_match e w1)"
proof -
  have "(if lastMatchingVersionNumber (heap w) > versionNumber (elem w e) then missing e True w else (Ret (), w)) = (Ret (), w1)"
    using assms(2,3) by auto
  then show ?thesis
    using assms(1) by (simp add: decorator_doPostRead_def take_match_def case_prod_beta Let_def)
qed

lemma nested_postRead:
  assumes wf: "well_formed w" and e: "e \<in> set (members (heap w))" and rd: "reading w e" and flag: "handleMissingPostReadsCalled (heap w)"
    and s: "slots_ok R L w e" and m: "matched vn w e" and L: "L < vn"
  shows "\<exists>w'. postRead nestedImpl TT_read True e w = (Ret (), w') \<and> slots_ok R vn w' e \<and> dec_ok R vn w' e \<and> frame {e} {e} w w' \<and>
    (\<forall>x. reading w' x = (reading w x \<and> x \<noteq> e)) \<and> control w' = control w"
proof -
  define w1 where "w1 = logged (CallPostRead e TT_read True) (upd e (\<lambda>t. t\<lparr>readTransactionInProgress := False\<rparr>) w)"
  have 1: "heap w1 = heap w" "activeException (elem w1 x) = activeException (elem w x)" "versionNumber (elem w1 x) = versionNumber (elem w x)"
    "dataValidity (elem w1 x) = dataValidity (elem w x)" "reading w1 x = (reading w x \<and> x \<noteq> e)" for x
    by (auto simp: w1_def logged_def upd_def)
  have cv: "current_value w1 x = current_value w x" for x by (simp add: current_value_def 1)
  have fr: "frame {} {} w w1" by (simp add: frame_def slot_view_def cv 1)
  have mv: "matching_value w1 e = matching_value w e" "matched vn w1 e = matched vn w e" "slots_ok R L w1 e = slots_ok R L w e"
    using view_slots[of w1 e w] fr e by (simp_all add: frame_def)
  have "matching_value w e \<in> R"
    using m s L by (auto simp: matched_def matching_value_def slots_ok_def current_value_def past_value_def Let_def split: if_splits)
  then have t: "slots_ok R vn (take_match e w1) e" "dec_ok R vn (take_match e w1) e" "frame {e} {e} w1 (take_match e w1)"
    "reading (take_match e w1) = reading w1" "control (take_match e w1) = control w1"
    using take_match_ok[of w1 e R L vn] frame_well_formed[OF fr] wf e s m mv L 1(1) by auto
  have "doPostRead nestedImpl e TT_read True w1 = (Ret (), take_match e w1)"
    using e flag wf 1 by (auto simp: nested_stages well_formed_def intro: decorator_post)
  moreover have "activeException (elem (take_match e w1) e) = None" using t(3) wf 1(2) by (simp add: frame_def well_formed_def)
  ultimately have "postRead nestedImpl TT_read True e w = (Ret (), take_match e w1)"
    using rd by (simp add: postRead_def[of nestedImpl] w1_def[symmetric] rethrowActive_def)
  moreover have "frame {e} {e} w (take_match e w1)" using frame_trans[OF frame_mono[OF fr] t(3)] by simp
  moreover have "control w1 = control w" by (simp add: control_def 1)
  moreover have "\<forall>x. reading (take_match e w1) x = (reading w x \<and> x \<noteq> e)" using t(4) 1(5) by metis
  ultimately show ?thesis using t(1,2,5) by (intro exI[of _ "take_match e w1"]) simp
qed

lemma missing_postReads:
  assumes wf: "well_formed w" and flag: "\<not> handleMissingPostReadsCalled (heap w)" and vn: "lastMatchingVersionNumber (heap w) = vn"
    and rd: "\<forall>i\<in>set (members (heap w)). i \<noteq> e \<longrightarrow> reading w i" and L: "L < vn"
    and s: "\<forall>i\<in>set (members (heap w)). i \<noteq> e \<longrightarrow> slots_ok (R i) L w i \<and> matched vn w i \<and> versionNumber (elem w i) = L"
  shows "\<exists>w'. handleMissingPostReads e True w = (Ret (), w') \<and>
    (\<forall>i\<in>set (members (heap w)). i \<noteq> e \<longrightarrow> slots_ok (R i) vn w' i \<and> dec_ok (R i) vn w' i \<and> \<not> reading w' i) \<and>
    frame (- {e}) (- {e}) w w' \<and> (\<forall>x. x \<in> set (members (heap w)) - {e} \<or> reading w' x = reading w x) \<and>
    control w' = (vn, updateCalledId (heap w), True, handleMissingPreReadsCalled (heap w), False)"
proof -
  define w0 where "w0 = updHeap (\<lambda>h. h\<lparr>handleMissingPostReadsCalled := True\<rparr>) w"
  have 0: "elem w0 = elem w" "members (heap w0) = members (heap w)" "control w0 = (vn, updateCalledId (heap w), decoratorsNeedPreRead (heap w),
      handleMissingPreReadsCalled (heap w), True)" "frame {} {} w w0"
    by (simp_all add: w0_def updHeap_def control_def vn frame_def slot_view_def current_value_def)
  let ?f = "\<lambda>i w. if i \<noteq> e \<and> lastMatchingVersionNumber (heap w) > versionNumber (elem w i) then postRead nestedImpl TT_read True i w else (Ret (), w)"
  have loop: "\<exists>w'. forEach ?f is v = (Ret (), w') \<and> (\<forall>i\<in>set is. i \<noteq> e \<longrightarrow> slots_ok (R i) vn w' i \<and> dec_ok (R i) vn w' i \<and> \<not> reading w' i) \<and>
      frame (set is - {e}) (set is - {e}) v w' \<and> (\<forall>x. x \<in> set is - {e} \<or> reading w' x = reading v x) \<and> control w' = control v"
    if "well_formed v" "distinct is" "set is \<subseteq> set (members (heap v))" "lastMatchingVersionNumber (heap v) = vn" "handleMissingPostReadsCalled (heap v)"
      "\<forall>i\<in>set is. i \<noteq> e \<longrightarrow> reading v i \<and> slots_ok (R i) L v i \<and> matched vn v i \<and> versionNumber (elem v i) = L"
    for "is" and v :: "'a historized world"
    using that
  proof (induction "is" arbitrary: v)
    case (Cons i "is")
    show ?case
    proof (cases "i = e")
      case True
      then show ?thesis using Cons.IH[of v] Cons.prems by auto
    next
      case False
      have p: "reading v i" "slots_ok (R i) L v i" "matched vn v i" "versionNumber (elem v i) = L" "i \<in> set (members (heap v))"
        using Cons.prems(3,6) False by auto
      obtain v1 where v1: "postRead nestedImpl TT_read True i v = (Ret (), v1)" "slots_ok (R i) vn v1 i" "dec_ok (R i) vn v1 i"
        "frame {i} {i} v v1" "\<forall>x. reading v1 x = (reading v x \<and> x \<noteq> i)" "control v1 = control v"
        using nested_postRead[OF Cons.prems(1) p(5,1) Cons.prems(5) p(2,3) L] by blast
      have m1: "members (heap v1) = members (heap v)" "targetOf (heap v1) = targetOf (heap v)"
        "lastMatchingVersionNumber (heap v1) = vn" "handleMissingPostReadsCalled (heap v1)"
        using v1(4,6) Cons.prems(4,5) by (simp_all add: frame_def control_def)
      have later: "reading v1 j \<and> slots_ok (R j) L v1 j \<and> matched vn v1 j \<and> versionNumber (elem v1 j) = L" if "j \<in> set is" "j \<noteq> e" for j
      proof -
        have "j \<noteq> i" "j \<in> set (members (heap v))" using that(1) Cons.prems(2,3) by auto
        then have "slot_view v1 j = slot_view v j" "current_value v1 j = current_value v j" using v1(4) by (simp_all add: frame_def)
        then show ?thesis using Cons.prems(6) that v1(5) \<open>j \<noteq> i\<close> view_slots[of v1 j v] m1(2) by (simp add: current_value_def)
      qed
      obtain w' where w': "forEach ?f is v1 = (Ret (), w')" "\<forall>j\<in>set is. j \<noteq> e \<longrightarrow> slots_ok (R j) vn w' j \<and> dec_ok (R j) vn w' j \<and> \<not> reading w' j"
        "frame (set is - {e}) (set is - {e}) v1 w'" "\<forall>x. x \<in> set is - {e} \<or> reading w' x = reading v1 x" "control w' = control v1"
        using Cons.IH[of v1] frame_well_formed[OF v1(4)] Cons.prems(1,2,3) m1 later by auto
      have "i \<notin> set is" using Cons.prems(2) by simp
      then have "slot_view w' i = slot_view v1 i" "current_value w' i = current_value v1 i" "targetOf (heap w') = targetOf (heap v1)"
        using w'(3) p(5) m1(1) by (simp_all add: frame_def)
      then have "slots_ok (R i) vn w' i \<and> dec_ok (R i) vn w' i \<and> \<not> reading w' i"
        using v1(2,3,5) w'(4) \<open>i \<notin> set is\<close> view_slots(1)[of w' i v1] view_dec[of w' i v1] by auto
      moreover have "frame (set (i # is) - {e}) (set (i # is) - {e}) v w'"
        by (rule frame_trans[OF frame_mono[OF v1(4)] frame_mono[OF w'(3)]]) (use False in auto)
      moreover have "\<forall>x. x \<in> set (i # is) - {e} \<or> reading w' x = reading v x" using v1(5) w'(4) False by auto
      ultimately show ?thesis using False v1(1,6) w'(1,2,5) Cons.prems(4) p(4) L by auto
    qed
  qed simp
  have wf0: "well_formed w0" using frame_well_formed[OF 0(4)] wf by simp
  have "slot_view w0 i = slot_view w i" "targetOf (heap w0) = targetOf (heap w)" for i
    by (simp_all add: w0_def updHeap_def slot_view_def current_value_def)
  then have "\<forall>i\<in>set (members (heap w0)). i \<noteq> e \<longrightarrow> reading w0 i \<and> slots_ok (R i) L w0 i \<and> matched vn w0 i \<and> versionNumber (elem w0 i) = L"
    using rd s 0(1,2) view_slots(1,3)[of w0 _ w] by simp
  with loop[OF wf0, of "members (heap w0)"] obtain w1 where w1: "forEach ?f (members (heap w)) w0 = (Ret (), w1)"
    "\<forall>i\<in>set (members (heap w)). i \<noteq> e \<longrightarrow> slots_ok (R i) vn w1 i \<and> dec_ok (R i) vn w1 i \<and> \<not> reading w1 i"
    "frame (set (members (heap w)) - {e}) (set (members (heap w)) - {e}) w0 w1"
    "\<forall>x. x \<in> set (members (heap w)) - {e} \<or> reading w1 x = reading w x" "control w1 = control w0"
    using wf wf0 0 by (auto simp: well_formed_def control_def)
  define w' where "w' = updHeap (\<lambda>h. h\<lparr>handleMissingPostReadsCalled := False\<rparr>) (updHeap (\<lambda>h. h\<lparr>decoratorsNeedPreRead := True\<rparr>) w1)"
  have "handleMissingPostReads e True w = (Ret (), w')"
    using flag w1(1) 0(2) by (simp add: handleMissingPostReads_def w0_def[symmetric] setFlags_def w'_def)
  moreover have 1: "elem w' = elem w1" "slot_view w' i = slot_view w1 i" "current_value w' i = current_value w1 i" "targetOf (heap w') = targetOf (heap w1)"
    "frame {} {} w1 w'" for i
    by (simp_all add: w'_def updHeap_def slot_view_def current_value_def frame_def)
  moreover have "control w' = (vn, updateCalledId (heap w), True, handleMissingPreReadsCalled (heap w), False)"
    using w1(5) 0(3) by (simp add: w'_def updHeap_def control_def)
  moreover have "frame (- {e}) (- {e}) w w'"
    by (rule frame_trans[OF frame_mono[OF 0(4)] frame_trans[OF frame_mono[OF w1(3)] frame_mono[OF 1(5)]]]) auto
  moreover have "\<forall>i\<in>set (members (heap w)). i \<noteq> e \<longrightarrow> slots_ok (R i) vn w' i \<and> dec_ok (R i) vn w' i \<and> \<not> reading w' i"
    using w1(2) 1 view_slots(1)[of w' _ w1] view_dec[of w' _ w1] by auto
  ultimately show ?thesis using w1(4) by (intro exI[of _ w']) auto
qed

section \<open>One update\<close>

lemma readCallback_spec:
  assumes wf: "well_formed w" and e: "e \<in> set (members (heap w))" and t: "t = targetOf (heap w) e" and rd: "reading w t"
    and rb: "receiveBuffer (heap w) t = (d, vn, q)" and v: "versionNumber (elem w t) \<le> vn"
    and s: "\<forall>i\<in>set (members (heap w)). slots_ok (R i) L w i"
    and acc: "acc = (\<forall>j\<in>set (members (heap w)). j \<noteq> e \<longrightarrow> holds_version vn w j)"
  shows "\<exists>w'. readCallback e w = (if acc then Ret () else Throw DiscardValue, w') \<and>
    (\<forall>i\<in>set (members (heap w)). slots_ok ((R(e := insert (vn, d, q) (R e))) i) L w' i \<and> current_value w' i = current_value w i) \<and>
    current_value w' t = (vn, d, q) \<and> frame UNIV {} w w' \<and> (\<forall>x. reading w' x = (reading w x \<and> (x = t \<longrightarrow> \<not> acc))) \<and>
    control w' = (if acc then vn else lastMatchingVersionNumber (heap w), snd (control w)) \<and>
    (acc \<longrightarrow> (\<forall>i\<in>set (members (heap w)). matched vn w' i) \<and> matchIndex w' e = 0)"
proof -
  let ?R = "R(e := insert (vn, d, q) (R e))"
  obtain w2 where w2: "postRead asyncImpl TT_read True t (updateHistory e w) = (Ret (), w2)" "slots_ok (insert (vn, d, q) (R e)) L w2 e"
    "current_value w2 t = (vn, d, q)" "frame {e} {} w w2" "\<forall>x. reading w2 x = (reading w x \<and> x \<noteq> t)" "control w2 = control w"
    using receive[OF wf e t rd rb bspec[OF s e] v] unfolding control_def prod.inject by blast
  have fm: "members (heap w2) = members (heap w)" "targetOf (heap w2) = targetOf (heap w)" using w2(4) by (simp_all add: frame_def)
  have view: "slot_view w2 i = slot_view w i" if "i \<in> set (members (heap w))" "i \<noteq> e" for i using w2(4) that by (simp add: frame_def)
  have slots2: "\<forall>i\<in>set (members (heap w2)). slots_ok (?R i) L w2 i"
  proof
    fix i
    assume "i \<in> set (members (heap w2))"
    then show "slots_ok (?R i) L w2 i" using s w2(2) view fm view_slots(1)[of w2 i w] by (cases "i = e") auto
  qed
  have "holds_version vn w2 i = holds_version vn w i" if "i \<in> set (members (heap w))" "i \<noteq> e" for i
    using that view fm view_slots(4)[of w2 i w] by simp
  then have acc2: "(\<forall>i\<in>set (members (heap w2)). i \<noteq> e \<longrightarrow> holds_version vn w2 i) = acc" using acc fm(1) by auto
  have vn2: "versionNumber (elem w2 (targetOf (heap w2) e)) = vn" using w2(3) t fm by (simp add: current_value_def)
  obtain w3 where w3: "checkUpdate e w2 = (acc, w3)" "elem w3 = elem w2"
    "\<exists>p. heap w3 = (heap w2)\<lparr>targetElement := p, lastMatchingVersionNumber := (if acc then vn else lastMatchingVersionNumber (heap w2))\<rparr>"
    "\<forall>i\<in>set (members (heap w)). slots_ok (?R i) L w3 i" "acc \<longrightarrow> (\<forall>i\<in>set (members (heap w)). matched vn w3 i) \<and> matchIndex w3 e = 0"
    using checkUpdate_acc[OF _ _ slots2 vn2 acc2] frame_well_formed[OF w2(4)] wf e unfolding fm by blast
  have h3: "members (heap w3) = members (heap w2)" "targetOf (heap w3) = targetOf (heap w2)" "deviceOpen (heap w3) = deviceOpen (heap w2)"
    "incoming (heap w3) = incoming (heap w2)" "userBuffer (heap w3) = userBuffer (heap w2)"
    "control w3 = (if acc then vn else lastMatchingVersionNumber (heap w), snd (control w))"
    using w3(3) w2(6) by (auto simp: control_def)
  have cv3: "current_value w3 x = current_value w2 x" for x by (simp add: current_value_def w3(2) h3(5))
  have f3: "frame UNIV {} w w3" using w2(4) by (simp add: frame_def h3 cv3 w3(2))
  have cv: "current_value w3 i = current_value w i" if "i \<in> set (members (heap w))" for i using f3 that by (simp add: frame_def)
  have pre: "preRead asyncImpl TT_read t w = (Ret (), w)" using rd by (simp add: preRead_def)
  show ?thesis
  proof (cases acc)
    case True
    have "readCallback e w = (Ret (), w3)" using pre w2(1) w3(1) True by (simp add: readCallback_def t[symmetric])
    then show ?thesis using True w3(2,4,5) w2(3,5) h3(6) cv3 cv f3 by (intro exI[of _ w3]) auto
  next
    case False
    have wf3: "well_formed w3" using frame_well_formed[OF f3] wf by simp
    obtain w4 where w4: "preRead asyncImpl TT_read t w3 = (Ret (), w4)" "quiet w3 w4" "\<forall>y. reading w4 y = (reading w3 y \<or> y = t)"
      "decoratorsNeedPreRead (heap w4) = decoratorsNeedPreRead (heap w3)" "handleMissingPreReadsCalled (heap w4) = handleMissingPreReadsCalled (heap w3)"
      using target_preRead[OF wf3, of TT_read t] by blast
    have d4: "data_of w4 = data_of w3" using w4(2) by (simp add: quiet_def)
    have "readCallback e w = (Throw DiscardValue, w4)" using pre w2(1) w3(1) False w4(1) by (simp add: readCallback_def t[symmetric])
    moreover have f4: "frame {} {} w3 w4" by (rule quiet_frame[OF w4(2)])
    moreover have "slots_ok (?R i) L w4 i" "current_value w4 i = current_value w i" if "i \<in> set (members (heap w))" for i
      using that f4 w3(4) view_slots(1)[of w4 i w3] cv[of i] h3(1) fm by (auto simp: frame_def)
    moreover have "current_value w4 t = (vn, d, q)" using w2(3) cv3 unfolding current_value_def data_of_eq[OF d4] by simp
    moreover have "frame UNIV {} w w4" by (rule frame_trans[OF f3 frame_mono[OF f4]]) simp_all
    moreover have "control w4 = control w3" using w4(4,5) by (simp add: control_def data_of_eq[OF d4])
    moreover have "\<forall>x. reading w4 x = reading w x" using w4(3) w3(2) w2(5) rd by auto
    ultimately show ?thesis using False h3(6) by (intro exI[of _ w4]) auto
  qed
qed

text \<open>The post stage of the member whose value completes a match.\<close>

lemma member_postRead:
  assumes wf: "well_formed w" and e: "e \<in> set (members (heap w))" and rd: "\<forall>j\<in>set (members (heap w)). reading w j"
    and tr: "\<forall>j\<in>set (members (heap w)). j \<noteq> e \<longrightarrow> reading w (targetOf (heap w) j)"
    and c: "control w = (vn, u, n, False, False)" and Lvn: "L \<le> vn"
    and s: "\<forall>j\<in>set (members (heap w)). slots_ok (R j) L w j \<and> dec_ok (R j) L w j \<and> matched vn w j"
    and own: "matching_value w e \<in> R e"
  shows "\<exists>w'. postRead historizedImpl TT_read True e w = (Ret (), w') \<and>
    (\<forall>j\<in>set (members (heap w)). slots_ok (R j) vn w' j \<and> dec_ok (R j) vn w' j) \<and> frame UNIV UNIV w w' \<and>
    covered {} w' \<and> \<not> reading w' e \<and> (\<exists>n. control w' = (vn, u, n, False, False))"
proof -
  define w1 where "w1 = logged (CallPostRead e TT_read True) (upd e (\<lambda>t. t\<lparr>readTransactionInProgress := False\<rparr>) w)"
  have 1: "heap w1 = heap w" "activeException (elem w1 x) = activeException (elem w x)" "versionNumber (elem w1 x) = versionNumber (elem w x)"
    "dataValidity (elem w1 x) = dataValidity (elem w x)" "reading w1 x = (reading w x \<and> x \<noteq> e)" for x
    by (auto simp: w1_def logged_def upd_def)
  have cv1: "current_value w1 x = current_value w x" for x by (simp add: current_value_def 1)
  have f1: "frame {} {} w w1" by (simp add: frame_def slot_view_def cv1 1)
  have s1: "slots_ok (R j) L w1 j \<and> dec_ok (R j) L w1 j \<and> matched vn w1 j \<and> matching_value w1 j = matching_value w j" if "j \<in> set (members (heap w))" for j
    using that s view_slots[of w1 j w] view_dec[of w1 j w] cv1 by (simp add: slot_view_def 1)
  have wf1: "well_formed w1" using frame_well_formed[OF f1] wf by simp
  have nt: "targetOf (heap w) j \<notin> set (members (heap w))" if "j \<in> set (members (heap w))" for j
    using wf that by (auto simp: well_formed_def)
  have Le: "versionNumber (elem w1 e) = L" using s e 1 by (simp add: dec_ok_def)
  obtain w2 where w2: "(vn > L \<longrightarrow> handleMissingPostReads e True w1 = (Ret (), w2)) \<and> (\<not> vn > L \<longrightarrow> w2 = w1)"
    "frame (- {e}) (- {e}) w1 w2" "\<forall>j\<in>set (members (heap w)). j \<noteq> e \<longrightarrow> slots_ok (R j) vn w2 j \<and> dec_ok (R j) vn w2 j"
    "\<forall>j\<in>set (members (heap w)). j \<noteq> e \<longrightarrow> reading w2 j \<longrightarrow> reading w2 (targetOf (heap w) j)" "\<not> reading w2 e"
    "\<exists>n. control w2 = (vn, u, n, False, False)"
  proof (cases "vn > L")
    case True
    have "\<exists>w'. handleMissingPostReads e True w1 = (Ret (), w') \<and>
      (\<forall>i\<in>set (members (heap w1)). i \<noteq> e \<longrightarrow> slots_ok (R i) vn w' i \<and> dec_ok (R i) vn w' i \<and> \<not> reading w' i) \<and>
      frame (- {e}) (- {e}) w1 w' \<and> (\<forall>x. x \<in> set (members (heap w1)) - {e} \<or> reading w' x = reading w1 x) \<and>
      control w' = (vn, updateCalledId (heap w1), True, handleMissingPreReadsCalled (heap w1), False)"
      by (rule missing_postReads[OF wf1]) (use c rd s1 1 True in \<open>auto simp: control_def dec_ok_def\<close>)
    then obtain w' where w': "handleMissingPostReads e True w1 = (Ret (), w')"
      "\<forall>i\<in>set (members (heap w1)). i \<noteq> e \<longrightarrow> slots_ok (R i) vn w' i \<and> dec_ok (R i) vn w' i \<and> \<not> reading w' i"
      "frame (- {e}) (- {e}) w1 w'" "\<forall>x. x \<in> set (members (heap w1)) - {e} \<or> reading w' x = reading w1 x"
      "control w' = (vn, updateCalledId (heap w1), True, handleMissingPreReadsCalled (heap w1), False)" by blast
    have "control w' = (vn, u, True, False, False)" using w'(5) c 1(1) by (simp add: control_def)
    moreover have "\<not> reading w' e" using w'(4) 1(5) by blast
    ultimately show thesis by (intro that[of w']) (use w'(1-3) True 1(1) in auto)
  next
    case False
    then have "vn = L" using Lvn by simp
    moreover have "reading w1 (targetOf (heap w) j)" if "j \<in> set (members (heap w))" "j \<noteq> e" for j
      using tr nt[OF that(1)] e that 1(5) by auto
    ultimately show thesis using that[of w1] s1 c 1(1,5) by (auto simp: control_def)
  qed
  have wf2: "well_formed w2" using frame_well_formed[OF w2(2)] wf1 by simp
  have m2: "members (heap w2) = members (heap w)" "targetOf (heap w2) = targetOf (heap w)" "slot_view w2 e = slot_view w1 e"
    "activeException (elem w2 x) = None" for x
    using w2(2) e 1(1) wf1 by (simp_all add: frame_def well_formed_def)
  have se: "slots_ok (R e) L w2 e" "matched vn w2 e" "matching_value w2 e \<in> R e"
    using view_slots[of w2 e w1] m2 s1[OF e] own 1(1) by simp_all
  let ?w' = "take_match e w2"
  note t = take_match_ok[OF wf2 _ se Lvn]
  have e2: "e \<in> set (members (heap w2))" using e m2(1) by simp
  have "decorator_doPostRead handleMissingPostReads e TT_read True w1 = (Ret (), ?w')"
  proof (cases "vn > L")
    case True
    then show ?thesis using w2(1) Le c 1(1) by (intro decorator_post) (auto simp: control_def m2(4))
  next
    case False
    then show ?thesis using w2(1) Le c 1(1) m2(4) wf1
      by (auto simp: decorator_doPostRead_def take_match_def case_prod_beta Let_def control_def well_formed_def)
  qed
  then have "doPostRead historizedImpl e TT_read True w1 = (Ret (), ?w')" using e 1(1) by (simp add: historized_stages)
  moreover have f2: "frame {e} {e} w2 ?w'" by (rule t(4)[OF e2])
  ultimately have "postRead historizedImpl TT_read True e w = (Ret (), ?w')"
    using rd e m2(4) by (simp add: postRead_def[of historizedImpl] w1_def[symmetric] rethrowActive_def frame_def)
  moreover have "slots_ok (R j) vn ?w' j \<and> dec_ok (R j) vn ?w' j" if "j \<in> set (members (heap w))" for j
  proof (cases "j = e")
    case True
    then show ?thesis using t(1,3)[OF e2] by simp
  next
    case False
    then have "slot_view ?w' j = slot_view w2 j" "current_value ?w' j = current_value w2 j" "targetOf (heap ?w') = targetOf (heap w2)"
      using f2 that m2(1) by (simp_all add: frame_def)
    then show ?thesis using w2(3) that False view_slots(1)[of ?w' j w2] view_dec[of ?w' j w2] by simp
  qed
  moreover have "frame UNIV UNIV w ?w'"
    by (rule frame_trans[OF frame_mono[OF f1] frame_trans[OF frame_mono[OF w2(2)] frame_mono[OF f2]]]) simp_all
  moreover have "reading ?w' x = reading w2 x" for x using fun_cong[OF t(5)[OF e2]] .
  then have "covered {} ?w'" "\<not> reading ?w' e" "members (heap ?w') = members (heap w)"
    using w2(4,5) f2 m2 by (auto simp: covered_def frame_def)
  ultimately show ?thesis using w2(6) t(6)[OF e2] by (intro exI[of _ ?w']) simp
qed

lemma accept_spec:
  assumes wf: "well_formed w" and rd: "all_reading w" and post: "\<not> handleMissingPostReadsCalled (heap w)"
    and i: "i < length (push_elements g)" and e: "e = push_elements g ! i" "e \<in> set (members (heap w))"
    and q: "incoming (heap w) (targetOf (heap w) e) = [QueueData d vn q]" and v: "versionNumber (elem w (targetOf (heap w) e)) \<le> vn"
    and s: "\<forall>j\<in>set (members (heap w)). slots_ok (R j) (lastMatchingVersionNumber (heap w)) w j \<and> dec_ok (R j) (lastMatchingVersionNumber (heap w)) w j"
    and acc: "acc = (\<forall>j\<in>set (members (heap w)). j \<noteq> e \<longrightarrow> holds_version vn w j)"
  shows "\<exists>w' n. accept historizedImpl (newNotification i) (g, w) = (Ret acc, setLast (if acc then LastIndex i else Discarded) (g, w')) \<and>
    (\<forall>j\<in>set (members (heap w)). slots_ok ((R(e := insert (vn, d, q) (R e))) j) (lastMatchingVersionNumber (heap w')) w' j \<and>
      dec_ok ((R(e := insert (vn, d, q) (R e))) j) (lastMatchingVersionNumber (heap w')) w' j \<and>
      (\<not> acc \<longrightarrow> current_value w' j = current_value w j)) \<and>
    frame UNIV UNIV (updHeap (\<lambda>h. h\<lparr>incoming := (incoming h)(targetOf h e := [])\<rparr>) w) w' \<and>
    covered {} w' \<and> (if acc then \<not> reading w' e else all_reading w') \<and>
    control w' = (if acc then vn else lastMatchingVersionNumber (heap w), updateCalledId (heap w), n, False, False)"
proof -
  let ?t = "targetOf (heap w) e" and ?R = "R(e := insert (vn, d, q) (R e))" and ?L = "lastMatchingVersionNumber (heap w)"
  define w0 where "w0 = updHeap (\<lambda>h. h\<lparr>incoming := (incoming h)(targetOf h e := [])\<rparr>) w"
  define w1 where "w1 = updHeap (\<lambda>h. h\<lparr>receiveBuffer := (receiveBuffer h)(?t := (d, vn, q))\<rparr>) w0"
  have pop: "async_pop ?t w = (Ret (), w1)" using q by (simp add: async_pop_def w1_def w0_def updHeap_def)
  have 1: "elem w1 = elem w" "members (heap w1) = members (heap w)" "targetOf (heap w1) = targetOf (heap w)" "control w1 = control w"
    "current_value w1 x = current_value w x" "slot_view w1 x = slot_view w x" "receiveBuffer (heap w1) ?t = (d, vn, q)" for x
    by (simp_all add: w1_def w0_def updHeap_def control_def current_value_def slot_view_def)
  have f1: "frame {} {} w0 w1" by (simp add: w1_def w0_def updHeap_def frame_def slot_view_def current_value_def)
  have wf1: "well_formed w1" using wf by (simp add: well_formed_def 1(1-3)) (simp add: w1_def w0_def updHeap_def)
  have c: "control w = (?L, updateCalledId (heap w), False, False, False)" using rd post by (simp add: control_def all_reading_def)
  have rde: "reading w j" "reading w (targetOf (heap w) j)" if "j \<in> set (members (heap w))" for j using rd that by (simp_all add: all_reading_def)
  have nt: "targetOf (heap w) j \<notin> set (members (heap w))" "targetOf (heap w) j = ?t \<longleftrightarrow> j = e" if "j \<in> set (members (heap w))" for j
    using wf that e(2) unfolding well_formed_def by (auto simp: inj_on_def)
  have L1: "lastMatchingVersionNumber (heap w1) = ?L" using 1(4) by (simp add: control_def)
  have s1: "\<forall>j\<in>set (members (heap w1)). slots_ok (R j) ?L w1 j" using s view_slots(1)[of w1 _ w] 1 by simp
  have acc1: "acc = (\<forall>j\<in>set (members (heap w1)). j \<noteq> e \<longrightarrow> holds_version vn w1 j)" using acc view_slots(4)[of w1 _ w] 1 by simp
  have "\<exists>w'. readCallback e w1 = (if acc then Ret () else Throw DiscardValue, w') \<and>
    (\<forall>j\<in>set (members (heap w1)). slots_ok (?R j) ?L w' j \<and> current_value w' j = current_value w1 j) \<and>
    current_value w' ?t = (vn, d, q) \<and> frame UNIV {} w1 w' \<and> (\<forall>x. reading w' x = (reading w1 x \<and> (x = ?t \<longrightarrow> \<not> acc))) \<and>
    control w' = (if acc then vn else lastMatchingVersionNumber (heap w1), snd (control w1)) \<and>
    (acc \<longrightarrow> (\<forall>j\<in>set (members (heap w1)). matched vn w' j) \<and> matchIndex w' e = 0)"
    by (rule readCallback_spec[OF wf1 _ _ _ 1(7) _ s1 acc1]) (use e(2) 1 rde v in simp_all)
  then obtain w2 where w2: "readCallback e w1 = (if acc then Ret () else Throw DiscardValue, w2)"
    "\<forall>j\<in>set (members (heap w)). slots_ok (?R j) ?L w2 j \<and> current_value w2 j = current_value w j" "current_value w2 ?t = (vn, d, q)"
    "frame UNIV {} w1 w2" "\<forall>x. reading w2 x = (reading w x \<and> (x = ?t \<longrightarrow> \<not> acc))"
    "control w2 = (if acc then vn else ?L, snd (control w))" "acc \<longrightarrow> (\<forall>j\<in>set (members (heap w)). matched vn w2 j) \<and> matchIndex w2 e = 0"
    unfolding 1(1-5) L1 by blast
  have popped: "queuePopWait historizedImpl e w = (if acc then Ret () else Throw DiscardValue, w2)"
    using e(2) pop w2(1) by (simp add: historized_stages)
  have m2: "members (heap w2) = members (heap w)" "targetOf (heap w2) = targetOf (heap w)" using w2(4) 1 by (simp_all add: frame_def)
  have wf2: "well_formed w2" using frame_well_formed[OF w2(4)] wf1 by simp
  have f2: "frame UNIV UNIV w0 w2" by (rule frame_trans[OF frame_mono[OF f1] frame_mono[OF w2(4)]]) simp_all
  have d2: "\<forall>j\<in>set (members (heap w)). dec_ok (?R j) ?L w2 j"
    using s w2(2) view_dec[of w2 _ w] by (auto simp: dec_ok_def)
  show ?thesis
  proof (cases acc)
    case True
    have "\<exists>w'. postRead historizedImpl TT_read True e w2 = (Ret (), w') \<and>
      (\<forall>j\<in>set (members (heap w2)). slots_ok (?R j) vn w' j \<and> dec_ok (?R j) vn w' j) \<and> frame UNIV UNIV w2 w' \<and>
      covered {} w' \<and> \<not> reading w' e \<and> (\<exists>n. control w' = (vn, updateCalledId (heap w), n, False, False))"
    proof (rule member_postRead[OF wf2])
      show "matching_value w2 e \<in> ?R e" using w2(3,7) True m2 by (simp add: matching_value_def Let_def)
      show "?L \<le> vn" using order.trans[OF slots_ok_bound v] s e(2) by blast
    next
      show "\<forall>j\<in>set (members (heap w2)). reading w2 j" using m2 w2(5) rde(1) nt(1)[OF e(2)] by auto
    qed (use e(2) m2 w2(2,5,6,7) rde nt True c d2 in simp_all)
    then obtain w' n where w': "postRead historizedImpl TT_read True e w2 = (Ret (), w')"
      "\<forall>j\<in>set (members (heap w)). slots_ok (?R j) vn w' j \<and> dec_ok (?R j) vn w' j" "frame UNIV UNIV w2 w'"
      "covered {} w'" "\<not> reading w' e" "control w' = (vn, updateCalledId (heap w), n, False, False)" unfolding m2 by blast
    have "lastMatchingVersionNumber (heap w') = vn" using w'(6) by (simp add: control_def)
    moreover have "accept historizedImpl (newNotification i) (g, w) = (Ret True, setLast (LastIndex i) (g, w'))"
      using popped True w'(1) e(1) by (simp add: accept_def newNotification_def in_rag_def acceptPost_def setLast_def)
    ultimately show ?thesis
      using True w' frame_trans[OF f2 w'(3)] unfolding w0_def[symmetric] by (intro exI[of _ w'] exI[of _ n]) simp
  next
    case False
    have "lastMatchingVersionNumber (heap w2) = ?L" "control w2 = (?L, updateCalledId (heap w), False, False, False)"
      using w2(6) False c by (simp_all add: control_def)
    moreover have "accept historizedImpl (newNotification i) (g, w) = (Ret False, setLast Discarded (g, w2))"
      using popped False e(1) by (simp add: accept_def newNotification_def in_rag_def setLast_def caught_in_transfer_def)
    moreover have "all_reading w2" "covered {} w2"
      using w2(5) False rde nt m2 calculation(2) by (auto simp: all_reading_def covered_def control_def)
    ultimately show ?thesis
      using False w2(2) d2 f2 unfolding w0_def[symmetric] by (intro exI[of _ w2] exI[of _ False]) simp
  qed
qed

end
