(* ===== verification/ConsistencyUpdates.thy ===== *)
theory ConsistencyUpdates
  imports ConsistencyMatching
begin

text \<open>
  The updates of a data consistency group: in exact mode \<open>update\<close> tells when the last values of all
  elements have the newest version number; in historized mode all members change together, to data
  they have received with one version number.
\<close>

section \<open>Updates in historized mode\<close>

text \<open>
  A value arrives at member \<open>i\<close> of the \<open>ReadAnyGroup\<close>, which waits for it and accepts it, and the
  application calls \<open>update\<close> when the member has been updated.
\<close>

definition arrive :: "nat \<Rightarrow> 'd queue_item \<Rightarrow> 'd historized world \<Rightarrow> 'd historized world" where
  "arrive e x w = updHeap (\<lambda>h. h\<lparr>incoming := (incoming h)(targetOf h e := incoming h (targetOf h e) @ [x])\<rparr>) w"

definition process_update :: "nat \<times> 'd vitem \<Rightarrow> 'd historized ragstate \<Rightarrow> bool outcome \<times> 'd historized ragstate" where
  "process_update u s =
     (case u of (i, vn, d, q) \<Rightarrow>
        let (g, w) = s; e = push_elements g ! i in
        andThen (handlePreRead historizedImpl (g, arrive e (QueueData d vn q) w)) (\<lambda>_ s.
        andThen (accept historizedImpl (newNotification i) s) (\<lambda>acc s.
          (Ret acc, if acc then (fst s, updateCalled e (snd s)) else s))))"

definition hist_ok :: "(nat \<Rightarrow> 'd vitem set) \<Rightarrow> 'd historized ragstate \<Rightarrow> bool" where
  "hist_ok R s = (wait_ok s \<and> (case s of (g, w) \<Rightarrow>
     \<forall>e\<in>set (members (heap w)). incoming (heap w) (targetOf (heap w) e) = [] \<and>
       slots_ok (R e) (lastMatchingVersionNumber (heap w)) w e \<and> dec_ok (R e) (lastMatchingVersionNumber (heap w)) w e))"


lemma arrived:
  assumes "hist_ok R (g, w)" "e \<in> set (members (heap w))"
  shows "wait_ok (g, arrive e x w)" "incoming (heap (arrive e x w)) (targetOf (heap w) e) = [x]"
    "updHeap (\<lambda>h. h\<lparr>incoming := (incoming h)(targetOf h e := [])\<rparr>) (arrive e x w) = w"
proof -
  have "wait_ok (g, w)" "incoming (heap w) (targetOf (heap w) e) = []" using assms by (auto simp: hist_ok_def)
  then show "wait_ok (g, arrive e x w)" "incoming (heap (arrive e x w)) (targetOf (heap w) e) = [x]"
    by (simp_all add: arrive_def updHeap_def wait_ok_def well_formed_def covered_def all_reading_def split: last_operation.splits)
  have "(incoming (heap w))(targetOf (heap w) e := []) = incoming (heap w)" using assms by (auto simp: hist_ok_def)
  then show "updHeap (\<lambda>h. h\<lparr>incoming := (incoming h)(targetOf h e := [])\<rparr>) (arrive e x w) = w"
    by (simp add: arrive_def updHeap_def)
qed

lemma process_step:
  assumes h: "hist_ok R (g, w)" and i: "i < length (push_elements g)" and e: "e = push_elements g ! i"
    and v: "versionNumber (elem w (targetOf (heap w) e)) \<le> vn"
    and acc: "acc = (\<forall>j\<in>set (members (heap w)). j \<noteq> e \<longrightarrow> holds_version vn w j)"
  shows "\<exists>w' l. process_update (i, vn, d, q) (g, w) = (Ret acc, (g\<lparr>lastOperation := l\<rparr>, w')) \<and>
    hist_ok (R(e := insert (vn, d, q) (R e))) (g\<lparr>lastOperation := l\<rparr>, w') \<and> members (heap w') = members (heap w) \<and>
    targetOf (heap w') = targetOf (heap w) \<and>
    lastMatchingVersionNumber (heap w') = (if acc then vn else lastMatchingVersionNumber (heap w)) \<and>
    (\<not> acc \<longrightarrow> (\<forall>j\<in>set (members (heap w)). current_value w' j = current_value w j))"
proof -
  let ?R = "R(e := insert (vn, d, q) (R e))" and ?L = "lastMatchingVersionNumber (heap w)"
  have em: "e \<in> set (members (heap w))" using h i e by (auto simp: hist_ok_def wait_ok_def)
  define w0 where "w0 = arrive e (QueueData d vn q) w"
  note ar = arrived[OF h em, of "QueueData d vn q", folded w0_def]
  obtain w1 where w1: "handlePreRead historizedImpl (g, w0) = (Ret (), (g, w1))" "quiet w0 w1" "all_reading w1"
    using handlePreRead_ready[OF ar(1)] by blast
  have d1: "data_of w1 = data_of w0" using w1(2) by (simp add: quiet_def)
  have w: "wait_ok (g, w)" using h by (simp add: hist_ok_def)
  have 1: "members (heap w1) = members (heap w)" "targetOf (heap w1) = targetOf (heap w)" "lastMatchingVersionNumber (heap w1) = ?L"
    "slot_view w1 j = slot_view w j" "current_value w1 j = current_value w j" "handleMissingPostReadsCalled (heap w1) = handleMissingPostReadsCalled (heap w)"
    "versionNumber (elem w1 x) = versionNumber (elem w x)" for j x
    unfolding slot_view_def current_value_def data_of_eq[OF d1] by (simp_all add: w0_def arrive_def updHeap_def)
  have inc: "incoming (heap w1) = incoming (heap w0)" by (rule data_of_eq[OF d1])
  have wf: "well_formed w1" using quiet_well_formed[OF w1(2)] ar(1) by (simp add: wait_ok_def)
  have slots: "\<forall>j\<in>set (members (heap w1)). slots_ok (R j) (lastMatchingVersionNumber (heap w1)) w1 j \<and> dec_ok (R j) (lastMatchingVersionNumber (heap w1)) w1 j"
    using h view_slots(1)[of w1 _ w] view_dec[of w1 _ w] 1 by (simp add: hist_ok_def)
  have acc1: "acc = (\<forall>j\<in>set (members (heap w1)). j \<noteq> e \<longrightarrow> holds_version vn w1 j)"
    using acc view_slots(4)[of w1 _ w] 1 by simp
  obtain w2 n where w2: "accept historizedImpl (newNotification i) (g, w1) = (Ret acc, setLast (if acc then LastIndex i else Discarded) (g, w2))"
    "\<forall>j\<in>set (members (heap w)). slots_ok (?R j) (lastMatchingVersionNumber (heap w2)) w2 j \<and> dec_ok (?R j) (lastMatchingVersionNumber (heap w2)) w2 j \<and>
      (\<not> acc \<longrightarrow> current_value w2 j = current_value w1 j)"
    "frame UNIV UNIV (updHeap (\<lambda>h. h\<lparr>incoming := (incoming h)(targetOf h e := [])\<rparr>) w1) w2"
    "covered {} w2" "if acc then \<not> reading w2 e else all_reading w2"
    "control w2 = (if acc then vn else ?L, updateCalledId (heap w1), n, False, False)"
    using accept_spec[OF wf w1(3) _ i e _ _ _ slots acc1, of d q] em ar(2) inc v w 1 by (auto simp: wait_ok_def)
  have m2: "members (heap w2) = members (heap w)" "targetOf (heap w2) = targetOf (heap w)" using w2(3) 1 by (simp_all add: frame_def updHeap_def)
  have "incoming (heap w2) = (incoming (heap w0))(targetOf (heap w) e := [])" using w2(3) inc 1(2) by (simp add: frame_def updHeap_def)
  also have "\<dots> = incoming (heap w)" using arg_cong[OF ar(3), of "\<lambda>w. incoming (heap w)"] by (simp add: updHeap_def w0_def arrive_def)
  finally have in2: "incoming (heap w2) = incoming (heap w)" .
  have "well_formed (updHeap (\<lambda>h. h\<lparr>incoming := (incoming h)(targetOf h e := [])\<rparr>) w1)" using wf by (simp add: well_formed_def updHeap_def)
  then have wf2: "well_formed w2" using frame_well_formed[OF w2(3)] by simp
  have c2: "lastMatchingVersionNumber (heap w2) = (if acc then vn else ?L)" "\<not> handleMissingPreReadsCalled (heap w2)" "\<not> handleMissingPostReadsCalled (heap w2)"
    using w2(6) by (simp_all add: control_def)
  define w3 where "w3 = (if acc then updateCalled e w2 else w2)"
  define l where "l = (if acc then LastIndex i else Discarded)"
  have 3: "elem w3 = elem w2" "members (heap w3) = members (heap w)" "targetOf (heap w3) = targetOf (heap w)" "incoming (heap w3) = incoming (heap w)"
    "lastMatchingVersionNumber (heap w3) = (if acc then vn else ?L)" "handleMissingPreReadsCalled (heap w3) = handleMissingPreReadsCalled (heap w2)"
    "handleMissingPostReadsCalled (heap w3) = handleMissingPostReadsCalled (heap w2)" "deviceOpen (heap w3) = deviceOpen (heap w2)"
    "decoratorsNeedPreRead (heap w3) = decoratorsNeedPreRead (heap w2)"
    "acc \<longrightarrow> updateCalledId (heap w3) = Some e" "\<not> acc \<longrightarrow> w3 = w2" "slot_view w3 j = slot_view w2 j" "current_value w3 x = current_value w2 x" for j x
    using m2 in2 c2 by (simp_all add: w3_def updateCalled_def updHeap_def slot_view_def current_value_def)
  have "process_update (i, vn, d, q) (g, w) = (Ret acc, (g\<lparr>lastOperation := l\<rparr>, w3))"
    using w1(1) w2(1) by (simp add: process_update_def e[symmetric] w0_def[symmetric] setLast_def w3_def l_def)
  moreover have "wait_ok (g\<lparr>lastOperation := l\<rparr>, w3)"
  proof -
    have "well_formed w3" using wf2 m2 by (simp add: well_formed_def 3)
    moreover have "covered {} w3" using w2(4) m2 by (simp add: covered_def 3)
    moreover have "\<not> acc \<longrightarrow> all_reading w3" using w2(5) 3(11) by (cases acc) auto
    ultimately show ?thesis using w i e w2(5) c2 3 by (cases acc) (simp_all add: wait_ok_def l_def)
  qed
  moreover have "slots_ok (?R j) (lastMatchingVersionNumber (heap w3)) w3 j \<and> dec_ok (?R j) (lastMatchingVersionNumber (heap w3)) w3 j"
    if "j \<in> set (members (heap w))" for j
    using w2(2) that view_slots(1)[of w3 j w2] view_dec[of w3 j w2] 3 c2(1) m2 by simp
  moreover have "\<forall>j\<in>set (members (heap w)). incoming (heap w) (targetOf (heap w) j) = []" using h by (simp add: hist_ok_def)
  ultimately show ?thesis using 3 w2(2) 1(5) by (intro exI[of _ w3] exI[of _ l]) (auto simp: hist_ok_def)
qed

text \<open>The values member \<open>e\<close> receives in a sequence of updates, which come in the order of their versions.\<close>

definition received :: "read_any_group \<Rightarrow> (nat \<times> 'd vitem) list \<Rightarrow> nat \<Rightarrow> 'd vitem set" where
  "received g us e = snd ` {u \<in> set us. push_elements g ! fst u = e}"

lemma received_Cons:
  "received g (u # us) e = (if push_elements g ! fst u = e then insert (snd u) (received g us e) else received g us e)"
proof -
  have "{v \<in> set (u # us). push_elements g ! fst v = e} =
      (if push_elements g ! fst u = e then insert u {v \<in> set us. push_elements g ! fst v = e} else {v \<in> set us. push_elements g ! fst v = e})"
    by auto
  then show ?thesis by (simp add: received_def)
qed

definition in_order :: "read_any_group \<Rightarrow> (nat \<times> 'd vitem) list \<Rightarrow> bool" where
  "in_order g us =
     (list_all (\<lambda>u. fst u < length (push_elements g)) us \<and>
      sorted_wrt (\<lambda>u u'. push_elements g ! fst u = push_elements g ! fst u' \<longrightarrow> fst (snd u) \<le> fst (snd u')) us)"

fun process_updates :: "(nat \<times> 'd vitem) list \<Rightarrow> 'd historized ragstate \<Rightarrow> bool list outcome \<times> 'd historized ragstate" where
  "process_updates [] s = (Ret [], s)"
| "process_updates (u # us) s =
     andThen (process_update u s) (\<lambda>b s. andThen (process_updates us s) (\<lambda>bs s. (Ret (b # bs), s)))"

lemma process_updates_ok:
  assumes "hist_ok R (g, w)" "in_order g us"
    and "\<forall>u\<in>set us. \<forall>x\<in>R (push_elements g ! fst u). fst x \<le> fst (snd u)"
  shows "\<exists>bs l w'. process_updates us (g, w) = (Ret bs, (g\<lparr>lastOperation := l\<rparr>, w')) \<and> length bs = length us \<and>
    hist_ok (\<lambda>e. R e \<union> received g us e) (g\<lparr>lastOperation := l\<rparr>, w') \<and> members (heap w') = members (heap w)"
  using assms
proof (induction us arbitrary: R g w)
  case Nil
  then show ?case by (intro exI[of _ "[]"] exI[of _ "lastOperation g"] exI[of _ w]) (simp add: received_def)
next
  case (Cons u us)
  obtain i vn d q where u: "u = (i, vn, d, q)" by (metis prod_cases4)
  define e where "e = push_elements g ! i"
  have i: "i < length (push_elements g)" using Cons.prems(2) by (simp add: in_order_def u)
  then have e: "e \<in> set (members (heap w))" using Cons.prems(1) by (auto simp: hist_ok_def wait_ok_def e_def)
  then have "versionNumber (elem w (targetOf (heap w) e)) \<in> insert nullVersion (fst ` R e)"
    using Cons.prems(1) by (simp add: hist_ok_def slots_ok_def Let_def)
  then have v: "versionNumber (elem w (targetOf (heap w) e)) \<le> vn"
    using Cons.prems(3) null_least[of vn] by (auto simp: u e_def)
  let ?R = "R(e := insert (vn, d, q) (R e))"
  obtain l1 w1 where 1: "process_update (i, vn, d, q) (g, w) = (Ret (\<forall>j\<in>set (members (heap w)). j \<noteq> e \<longrightarrow> holds_version vn w j), (g\<lparr>lastOperation := l1\<rparr>, w1))"
    "hist_ok ?R (g\<lparr>lastOperation := l1\<rparr>, w1)" "members (heap w1) = members (heap w)"
    using process_step[OF Cons.prems(1) i e_def v refl] by blast
  let ?g = "g\<lparr>lastOperation := l1\<rparr>"
  have r: "received ?g us = received g us" "in_order ?g us" using Cons.prems(2) by (simp_all add: received_def in_order_def fun_eq_iff)
  have "\<forall>u'\<in>set us. \<forall>x\<in>?R (push_elements ?g ! fst u'). fst x \<le> fst (snd u')"
    using Cons.prems(2,3) by (auto simp: in_order_def u e_def)
  from Cons.IH[OF 1(2) r(2) this] obtain bs l w' where
    2: "process_updates us (?g, w1) = (Ret bs, (g\<lparr>lastOperation := l\<rparr>, w'))" "length bs = length us"
      "hist_ok (\<lambda>x. ?R x \<union> received g us x) (g\<lparr>lastOperation := l\<rparr>, w')" "members (heap w') = members (heap w1)"
    unfolding r by auto
  moreover have "(\<lambda>x. ?R x \<union> received g us x) = (\<lambda>x. R x \<union> received g (u # us) x)"
    by (auto simp: received_Cons u e_def fun_eq_iff)
  ultimately show ?case using 1(1,3) by (auto simp: u)
qed

section \<open>Updates in exact mode\<close>

definition exact_group :: "nat list \<Rightarrow> simple_matcher" where
  "exact_group es = \<lparr>simple_elements = es, consistentElements = [], versionNumberToBeConsistentTo = nullVersion\<rparr>"

definition exact_updates :: "(nat \<times> version_number) list \<Rightarrow> simple_matcher \<Rightarrow> simple_matcher" where
  "exact_updates us m = fold (\<lambda>(i, vn) m. snd (simple_update i vn m)) us m"

lemma exact_updates_state:
  assumes "m = exact_updates us (exact_group es)" "nullVersion \<notin> snd ` set us"
  shows "simple_elements m = es \<and> distinct (consistentElements m) \<and>
    set (consistentElements m) = {e. (e, versionNumberToBeConsistentTo m) \<in> set us} \<and>
    (\<forall>(e, v)\<in>set us. v \<le> versionNumberToBeConsistentTo m) \<and>
    versionNumberToBeConsistentTo m \<in> insert nullVersion (snd ` set us)"
  using assms
proof (induction us arbitrary: m rule: rev_induct)
  case Nil
  then show ?case by (simp add: exact_updates_def exact_group_def)
next
  case (snoc u us)
  obtain i vn where u: "u = (i, vn)" by force
  define m0 where "m0 = exact_updates us (exact_group es)"
  have IH: "simple_elements m0 = es" "distinct (consistentElements m0)" "set (consistentElements m0) = {e. (e, versionNumberToBeConsistentTo m0) \<in> set us}"
    "\<forall>(e, v)\<in>set us. v \<le> versionNumberToBeConsistentTo m0" "versionNumberToBeConsistentTo m0 \<in> insert nullVersion (snd ` set us)"
    using snoc.IH[OF m0_def] snoc.prems(2) by simp_all
  have null: "vn \<noteq> nullVersion" using snoc.prems(2) by (auto simp: u)
  have m: "m = snd (simple_update i vn m0)" using snoc.prems(1) by (simp add: exact_updates_def m0_def u)
  consider "vn < versionNumberToBeConsistentTo m0" | "vn = versionNumberToBeConsistentTo m0" | "versionNumberToBeConsistentTo m0 < vn" by fastforce
  then show ?case
  proof cases
    case 1
    then show ?thesis using IH null by (auto simp: m simple_update_def u)
  next
    case 2
    then show ?thesis using IH null by (auto simp: m simple_update_def u)
  next
    case 3
    then have "(e, vn) \<notin> set us" for e using IH(4) by fastforce
    then show ?thesis using IH null 3 by (auto simp: m simple_update_def u Let_def not_less intro: order.trans)
  qed
qed

section \<open>What the groups promise\<close>

lemma hist_ok_consistent:
  assumes "hist_ok R (g, w)"
  shows "historized_isConsistent w"
    "e \<in> set (members (heap w)) \<Longrightarrow> versionNumber (elem w e) = nullVersion \<or> current_value w e \<in> R e"
proof -
  have *: "\<forall>e\<in>set (members (heap w)). versionNumber (elem w e) = lastMatchingVersionNumber (heap w) \<and>
      (nullVersion < lastMatchingVersionNumber (heap w) \<longrightarrow> current_value w e \<in> R e)"
    using assms by (simp add: hist_ok_def dec_ok_def)
  then show "historized_isConsistent w" by (simp add: historized_isConsistent_def list_all_iff split: list.split)
  show "versionNumber (elem w e) = nullVersion \<or> current_value w e \<in> R e" if "e \<in> set (members (heap w))"
    using bspec[OF * that] null_least[of "lastMatchingVersionNumber (heap w)"] le_neq_trans by metis
qed

lemma fresh_hist_ok:
  assumes "well_formed w" "members (heap w) \<noteq> []" "set (push_elements g) = set (members (heap w))" "lastOperation g = NoOperation"
    and "\<forall>x. \<not> reading w x" "\<not> decoratorsNeedPreRead (heap w)" "\<not> handleMissingPreReadsCalled (heap w)" "\<not> handleMissingPostReadsCalled (heap w)"
    and "lastMatchingVersionNumber (heap w) = nullVersion"
    and "\<forall>e\<in>set (members (heap w)). incoming (heap w) (targetOf (heap w) e) = [] \<and> versionNumber (elem w e) = nullVersion \<and>
      versionNumber (elem w (targetOf (heap w) e)) = nullVersion \<and> (\<exists>b n. targetElement (heap w) e = setupHistory b n)"
  shows "hist_ok (\<lambda>_. {}) (g, w)"
proof -
  have "slots_ok {} nullVersion w e" if "e \<in> set (members (heap w))" for e
    using assms(10) that by (auto simp: slots_ok_def setupHistory_def)
  then show ?thesis using assms by (simp add: hist_ok_def wait_ok_def covered_def dec_ok_def)
qed

text \<open>
  C33: Whatever is received, in each member in the order of its versions, the group handles every
  update without failing, all members have one version number afterwards, and the value of each is
  one the member has received with this version number (or none has been accepted yet).
\<close>

theorem historized_group_consistent:
  assumes "hist_ok (\<lambda>_. {}) (g, w)" "in_order g us"
  shows "\<exists>bs g' w'. process_updates us (g, w) = (Ret bs, (g', w')) \<and> length bs = length us \<and> historized_isConsistent w' \<and>
    (\<forall>e\<in>set (members (heap w)). versionNumber (elem w' e) = nullVersion \<or> current_value w' e \<in> received g us e)"
proof -
  obtain bs l w' where s: "process_updates us (g, w) = (Ret bs, (g\<lparr>lastOperation := l\<rparr>, w'))" "length bs = length us"
    "hist_ok (received g us) (g\<lparr>lastOperation := l\<rparr>, w')" "members (heap w') = members (heap w)"
    using process_updates_ok[OF assms] by auto
  then show ?thesis using hist_ok_consistent(1)[OF s(3)] hist_ok_consistent(2)[OF s(3), unfolded s(4)] by blast
qed

text \<open>Members 0 and 1 with targets 2 and 3, and histories of length 2.\<close>

definition sample_historized :: "nat historized world" where
  "sample_historized =
     \<lparr>elem = (\<lambda>e. new_te ''adc'' {wait_for_new_data}), calls = [],
      heap = \<lparr>members = [0, 1], targetOf = (\<lambda>e. e + 2), deviceOpen = True, incoming = (\<lambda>_. []), receiveBuffer = (\<lambda>_. (0, nullVersion, ok)),
        userBuffer = (\<lambda>_. 0), targetElement = (\<lambda>_. setupHistory 0 2), decoratorsNeedPreRead = False, handleMissingPreReadsCalled = False,
        handleMissingPostReadsCalled = False, lastMatchingVersionNumber = nullVersion, updateCalledId = None\<rparr>\<rparr>"

definition sample_hrag :: read_any_group where
  "sample_hrag = (new_group 0)\<lparr>isFinalised := True, push_elements := [0, 1]\<rparr>"

definition sample_updates :: "(nat \<times> nat vitem) list" where
  "sample_updates = [(0, VersionNumber 1, 10, ok), (0, VersionNumber 2, 20, ok), (1, VersionNumber 1, 11, ok)]"

lemma sample_hist_ok: "hist_ok (\<lambda>_. {}) (sample_hrag, sample_historized)"
  by (rule fresh_hist_ok)
    (auto simp: sample_historized_def sample_hrag_def new_group_def well_formed_def new_te_def)

theorem historized_group_consistent_witness:
  "\<exists>bs g' w'. process_updates sample_updates (sample_hrag, sample_historized) = (Ret bs, (g', w')) \<and> length bs = length sample_updates \<and>
    historized_isConsistent w' \<and>
    (versionNumber (elem w' 0) = nullVersion \<or> current_value w' 0 \<in> {(VersionNumber 1, 10, ok), (VersionNumber 2, 20, ok)})"
proof -
  have "in_order sample_hrag sample_updates"
    by (simp add: in_order_def sample_updates_def sample_hrag_def new_group_def less_eq_version_number_def)
  moreover have "received sample_hrag sample_updates 0 = {(VersionNumber 1, 10, ok), (VersionNumber 2, 20, ok)}"
    by (simp add: received_Cons sample_updates_def sample_hrag_def new_group_def) (auto simp: received_def)
  moreover have "0 \<in> set (members (heap sample_historized))" by (simp add: sample_historized_def)
  ultimately show ?thesis using historized_group_consistent[OF sample_hist_ok] by metis
qed

text \<open>
  C34: An update is accepted exactly when every other member has a value of the received version,
  now or in its history; then all members get this version number at once, and otherwise no member
  changes.
\<close>

theorem historized_update_all_or_none:
  assumes "hist_ok R (g, w)" "i < length (push_elements g)" "versionNumber (elem w (targetOf (heap w) (push_elements g ! i))) \<le> vn"
  shows "\<exists>acc g' w'. process_update (i, vn, d, q) (g, w) = (Ret acc, (g', w')) \<and>
    acc = (\<forall>j\<in>set (members (heap w)). j \<noteq> push_elements g ! i \<longrightarrow> holds_version vn w j) \<and>
    (\<forall>j\<in>set (members (heap w)). if acc then versionNumber (elem w' j) = vn else current_value w' j = current_value w j)"
proof -
  define acc where "acc = (\<forall>j\<in>set (members (heap w)). j \<noteq> push_elements g ! i \<longrightarrow> holds_version vn w j)"
  let ?R = "R(push_elements g ! i := insert (vn, d, q) (R (push_elements g ! i)))"
  obtain w' l where s: "process_update (i, vn, d, q) (g, w) = (Ret acc, (g\<lparr>lastOperation := l\<rparr>, w'))"
    "hist_ok ?R (g\<lparr>lastOperation := l\<rparr>, w')" "members (heap w') = members (heap w)"
    "lastMatchingVersionNumber (heap w') = (if acc then vn else lastMatchingVersionNumber (heap w))"
    "\<not> acc \<longrightarrow> (\<forall>j\<in>set (members (heap w)). current_value w' j = current_value w j)"
    using process_step[OF assms(1,2) refl assms(3) acc_def, of d q] by blast
  have "\<forall>j\<in>set (members (heap w)). if acc then versionNumber (elem w' j) = vn else current_value w' j = current_value w j"
    using s(2-5) by (cases acc) (simp_all add: hist_ok_def dec_ok_def)
  then show ?thesis using s(1) acc_def by (intro exI[of _ acc] exI[of _ "g\<lparr>lastOperation := l\<rparr>"] exI[of _ w']) simp
qed

theorem historized_update_all_or_none_witness:
  "\<exists>g' w'. process_update (0, VersionNumber 1, 10, ok) (sample_hrag, sample_historized) = (Ret False, (g', w')) \<and>
    current_value w' 1 = current_value sample_historized 1"
proof -
  have "0 < length (push_elements sample_hrag)" by (simp add: sample_hrag_def)
  moreover have "versionNumber (elem sample_historized (targetOf (heap sample_historized) (push_elements sample_hrag ! 0))) \<le> VersionNumber 1"
    by (simp add: sample_historized_def new_te_def)
  ultimately obtain acc g' w' where s: "process_update (0, VersionNumber 1, 10, ok) (sample_hrag, sample_historized) = (Ret acc, (g', w'))"
    "acc = (\<forall>j\<in>set (members (heap sample_historized)). j \<noteq> push_elements sample_hrag ! 0 \<longrightarrow> holds_version (VersionNumber 1) sample_historized j)"
    "\<forall>j\<in>set (members (heap sample_historized)). if acc then versionNumber (elem w' j) = VersionNumber 1 else current_value w' j = current_value sample_historized j"
    using historized_update_all_or_none[OF sample_hist_ok] by blast
  have "\<not> holds_version (VersionNumber 1) sample_historized 1"
    by (simp add: holds_version_def sample_historized_def new_te_def setupHistory_def nullVersion_def)
  moreover have "set (members (heap sample_historized)) = {0, 1}" "push_elements sample_hrag ! 0 = 0"
    by (simp_all add: sample_historized_def sample_hrag_def)
  ultimately have "acc = False" using s(2) by simp
  with s show ?thesis by (intro exI[of _ g'] exI[of _ w']) (simp add: sample_historized_def)
qed

text \<open>
  In exact mode an update returns true exactly when no element had a newer version number
  before and all elements have been updated with the version of this one.
\<close>

theorem exact_update_iff:
  assumes "distinct es" "i \<in> set es" "fst ` set us \<subseteq> set es"
    and null: "nullVersion \<notin> snd ` set us" "vn \<noteq> nullVersion"
  shows "fst (simple_update i vn (exact_updates us (exact_group es))) = Ret
    ((\<forall>u\<in>set us. snd u \<le> vn) \<and> (\<forall>e\<in>set es. e = i \<or> (e, vn) \<in> set us))"
proof -
  define m where "m = exact_updates us (exact_group es)"
  note st = exact_updates_state[OF m_def null(1)]
  define m' where "m' = snd (simple_update i vn m)"
  have "m' = exact_updates (us @ [(i, vn)]) (exact_group es)" by (simp add: m'_def m_def exact_updates_def)
  note st' = exact_updates_state[OF this, simplified, OF conjI[OF null(2)[symmetric] null(1)]]
  show ?thesis
  proof (cases "vn < versionNumberToBeConsistentTo m")
    case True
    moreover have "versionNumberToBeConsistentTo m \<noteq> nullVersion" using True leD[OF null_least[of vn]] by auto
    ultimately obtain u where "u \<in> set us" "snd u = versionNumberToBeConsistentTo m" using st by auto
    then have "\<not> (\<forall>u\<in>set us. snd u \<le> vn)" using True leD by metis
    then show ?thesis using True null(2) by (simp add: m_def[symmetric] simple_update_def)
  next
    case False
    then have vn: "versionNumberToBeConsistentTo m' = vn" and r: "fst (simple_update i vn m) = Ret (length (consistentElements m') = length es)"
      using st null(2) by (auto simp: m'_def simple_update_def Let_def)
    have sub: "set (consistentElements m') = {e. e = i \<or> (e, vn) \<in> set us}" using st' vn by auto
    then have "set (consistentElements m') \<subseteq> set es" using assms(2,3) by force
    moreover have "card (set (consistentElements m')) = length (consistentElements m')" "card (set es) = length es"
      by (rule distinct_card[OF conjunct1[OF conjunct2[OF st']]], rule distinct_card[OF assms(1)])
    ultimately have "length (consistentElements m') = length es \<longleftrightarrow> set (consistentElements m') = set es"
      using card_subset_eq[of "set es" "set (consistentElements m')"] by auto
    also have "\<dots> = (\<forall>e\<in>set es. e = i \<or> (e, vn) \<in> set us)" using sub \<open>set (consistentElements m') \<subseteq> set es\<close> by auto
    finally have "fst (simple_update i vn m) = Ret (\<forall>e\<in>set es. e = i \<or> (e, vn) \<in> set us)" using r by simp
    moreover have "\<forall>u\<in>set us. snd u \<le> versionNumberToBeConsistentTo m" using st by auto
    then have "\<forall>u\<in>set us. snd u \<le> vn" using order.trans[OF _ leI[OF False]] by blast
    ultimately show ?thesis by (simp add: m_def[symmetric])
  qed
qed

theorem exact_update_iff_witness:
  "fst (simple_update 1 (VersionNumber 5) (exact_updates [(0, VersionNumber 4), (0, VersionNumber 5)] (exact_group [0, 1]))) = Ret True"
  by (subst exact_update_iff) (auto simp: less_eq_version_number_def nullVersion_def)

end
