(* ===== verification/Descriptors.thy ===== *)
theory Descriptors
  imports Strings
begin

text \<open>
  \<^verbatim>\<open>src/Utilities.cpp\<close>: parsing of device descriptors (CDD), of SDM addresses and of the old
  device strings.  What a descriptor means is described in \<^verbatim>\<open>doc/deviceMapping.dox\<close>.
\<close>

section \<open>Device descriptors\<close>

record device_descriptor =
  backendType :: string
  address :: string
  parameters :: "string \<Rightarrow> string option"

datatype token_type = TokenBackendType | TokenAddress | TokenParameters

text \<open>The local variables of the loop over the characters.\<close>

record cdd_state =
  result :: device_descriptor
  parenthesesLevel :: nat
  currentTokenType :: token_type
  escapeNext :: bool
  token :: string

definition invalidCdd :: "string \<Rightarrow> string \<Rightarrow> exn" where
  "invalidCdd reason cddString = LogicError (''Invalid ChimeraTK device descriptor ('' @ reason @ ''): '' @ cddString)"

definition isDeviceDescriptor :: "string \<Rightarrow> bool" where
  "isDeviceDescriptor theString =
     (let s = trim theString in
      if length s < 3 then False
      else if substr 0 1 s \<noteq> ''('' then False
      else if substr (length s - 1) 1 s \<noteq> '')'' then False
      else True)"

text \<open>The branches of a character inside the outer parentheses but not in a deeper level.\<close>

definition endOfBackendType :: "string \<Rightarrow> char \<Rightarrow> cdd_state \<Rightarrow> cdd_state outcome" where
  "endOfBackendType cddString c s =
     (let token' = trim (token s) in
      if length token' = 0 then Throw (invalidCdd ''backend type must be non-empty'' cddString)
      else if \<not> list_all is_alnum token' then Throw (invalidCdd ''backend type must be alphanumeric'' cddString)
      else Ret (s\<lparr>result := (result s)\<lparr>backendType := token'\<rparr>, token := [],
        currentTokenType := (if c = CHR '':'' then TokenAddress else if c = CHR ''?'' then TokenParameters
          else currentTokenType s)\<rparr>))"

definition endOfAddress :: "cdd_state \<Rightarrow> cdd_state outcome" where
  "endOfAddress s = Ret (s\<lparr>result := (result s)\<lparr>address := trim (token s)\<rparr>, token := [],
     currentTokenType := TokenParameters\<rparr>)"

definition endOfParameter :: "string \<Rightarrow> cdd_state \<Rightarrow> cdd_state outcome" where
  "endOfParameter cddString s =
     (let token' = trim (token s) in
      if length token' = 0 then Ret (s\<lparr>token := token'\<rparr>)
      else (case findFirst {CHR ''=''} token' of
          None \<Rightarrow> Throw (invalidCdd ''parameters must be specified as key=value pairs'' cddString)
        | Some equalSign \<Rightarrow>
            let key = trim (substr 0 equalSign token'); value' = trim (drop (equalSign + 1) token') in
            if length key = 0 then Throw (invalidCdd ''parameter key names must not be empty'' cddString)
            else if \<not> list_all is_alnum key
              then Throw (invalidCdd ''parameter key names must contain only alphanumeric characters'' cddString)
            else if parameters (result s) key \<noteq> None
              then Throw (invalidCdd (''parameter '' @ [CHR 39] @ key @ [CHR 39] @ '' specified multiple times'') cddString)
            else Ret (s\<lparr>result := (result s)\<lparr>parameters := (parameters (result s))(key \<mapsto> value')\<rparr>, token := []\<rparr>)))"

definition escapable :: "char set" where
  "escapable = {CHR '' '', CHR ''?'', CHR ''&'', CHR ''('', CHR '')'', CHR 92}"

definition topLevelChar :: "string \<Rightarrow> char \<Rightarrow> cdd_state \<Rightarrow> cdd_state outcome" where
  "topLevelChar cddString c s =
     (if c = CHR 92 then Ret (s\<lparr>escapeNext := True\<rparr>)
      else if currentTokenType s = TokenBackendType \<and> c \<in> {CHR '':'', CHR ''?'', CHR '')''} then endOfBackendType cddString c s
      else if currentTokenType s = TokenAddress \<and> c \<in> {CHR ''?'', CHR '')''} then endOfAddress s
      else if currentTokenType s = TokenParameters \<and> c \<in> {CHR ''&'', CHR '')''} then endOfParameter cddString s
      else Ret (s\<lparr>token := token s @ [c]\<rparr>))"

text \<open>The end of the loop body; \<open>further\<close> tells that this is not the last character.\<close>

definition countParentheses :: "string \<Rightarrow> bool \<Rightarrow> char \<Rightarrow> cdd_state \<Rightarrow> cdd_state outcome" where
  "countParentheses cddString further c s =
     (if c = CHR ''('' then Ret (s\<lparr>parenthesesLevel := parenthesesLevel s + 1\<rparr>)
      else if c = CHR '')'' then
        let level = parenthesesLevel s - 1 in
        if level = 0 \<and> further then Throw (invalidCdd ''additional characters after last closing parenthesis'' cddString)
        else Ret (s\<lparr>parenthesesLevel := level\<rparr>)
      else Ret s)"

definition cdd_char :: "string \<Rightarrow> bool \<Rightarrow> char \<Rightarrow> cdd_state \<Rightarrow> cdd_state outcome" where
  "cdd_char cddString further c s =
     (if parenthesesLevel s = 1 then
        if escapeNext s then
          if c \<in> escapable then Ret (s\<lparr>token := token s @ [c], escapeNext := False\<rparr>)
          else Throw (invalidCdd ''bad escape character'' cddString)
        else bindO (topLevelChar cddString c s) (countParentheses cddString further c)
      else if parenthesesLevel s > 1 then countParentheses cddString further c (s\<lparr>token := token s @ [c]\<rparr>)
      else countParentheses cddString further c s)"

fun cdd_loop :: "string \<Rightarrow> string \<Rightarrow> cdd_state \<Rightarrow> cdd_state outcome" where
  "cdd_loop cddString [] s = Ret s"
| "cdd_loop cddString (c # cs) s = bindO (cdd_char cddString (cs \<noteq> []) c s) (cdd_loop cddString cs)"

definition cdd_start :: cdd_state where
  "cdd_start = \<lparr>result = \<lparr>backendType = [], address = [], parameters = (\<lambda>_. None)\<rparr>, parenthesesLevel = 0,
     currentTokenType = TokenBackendType, escapeNext = False, token = []\<rparr>"

definition parseDeviceDesciptor :: "string \<Rightarrow> device_descriptor outcome" where
  "parseDeviceDesciptor string =
     (let cddString = trim string in
      if length cddString < 3 then Throw (LogicError (''Invalid ChimeraTK device descriptor (too short): '' @ cddString))
      else if substr 0 1 cddString \<noteq> ''('' then Throw (invalidCdd ''missing opening parenthesis'' cddString)
      else if substr (length cddString - 1) 1 cddString \<noteq> '')'' then Throw (invalidCdd ''missing opening parenthesis'' cddString)
      else bindO (cdd_loop cddString cddString cdd_start) (\<lambda>s.
        if parenthesesLevel s \<noteq> 0 then Throw (invalidCdd ''unmatched parenthesis'' cddString) else Ret (result s)))"

section \<open>SDM addresses\<close>

text \<open>The version number, always 0.1, is left out.\<close>

record sdm =
  host :: string
  interface :: string
  sdm_instance :: string
  protocol :: string
  sdm_parameters :: "string list"

definition empty_sdm :: sdm where
  "empty_sdm = \<lparr>host = [], interface = [], sdm_instance = [], protocol = [], sdm_parameters = []\<rparr>"

definition countOccurence :: "string \<Rightarrow> char \<Rightarrow> nat" where
  "countOccurence theString delimiter = count_list theString delimiter"

definition isSdm :: "string \<Rightarrow> bool" where
  "isSdm theString = (if length theString < 6 then False else if substr 0 6 theString \<noteq> ''sdm://'' then False else True)"

definition invalidSdm :: exn where
  "invalidSdm = LogicError ''Invalid sdm.''"

text \<open>The tokens after the interface, in turn; \<open>counter\<close> counts the used ones.\<close>

definition sdmInstance :: "string \<Rightarrow> string list \<Rightarrow> nat \<times> sdm \<Rightarrow> nat \<times> sdm" where
  "sdmInstance sdmString tokens r =
     (let (counter, d) = r in
      if counter < length tokens \<and> findFirstOf {CHR '':''} 6 sdmString \<noteq> None
      then (counter + 1, d\<lparr>sdm_instance := tokens ! counter\<rparr>) else r)"

definition sdmProtocol :: "string \<Rightarrow> string list \<Rightarrow> nat \<times> sdm \<Rightarrow> nat \<times> sdm" where
  "sdmProtocol sdmString tokens r =
     (let (counter, d) = r in
      if counter < length tokens \<and> findFirstOf {CHR '';''} 6 sdmString \<noteq> None
      then (counter + 1, d\<lparr>protocol := tokens ! counter\<rparr>) else r)"

definition sdmParameters :: "string \<Rightarrow> string list \<Rightarrow> nat \<times> sdm \<Rightarrow> nat \<times> sdm" where
  "sdmParameters sdmString tokens r =
     (let (counter, d) = r in
      if counter < length tokens \<and> findFirstOf {CHR ''=''} 6 sdmString \<noteq> None
      then (counter, d\<lparr>sdm_parameters := splitOn (\<lambda>c. c = CHR '','') (tokens ! counter)\<rparr>) else r)"

definition parseSdm :: "string \<Rightarrow> sdm outcome" where
  "parseSdm sdmString =
     (if length sdmString < 6 then Throw invalidSdm
      else if substr 0 6 sdmString \<noteq> ''sdm://'' then Throw invalidSdm
      else (case findFirstOf {CHR ''/''} 6 sdmString of
          None \<Rightarrow> Throw invalidSdm
        | Some found \<Rightarrow>
            let sdmInfo = empty_sdm\<lparr>host := substr 6 (found - 6) sdmString\<rparr> in
            if length sdmString < found + 1 then Ret sdmInfo
            else
              let subUri = drop (found + 1) sdmString in
              if countOccurence subUri (CHR '':'') > 1 then Throw invalidSdm
              else if countOccurence subUri (CHR '';'') > 1 then Throw invalidSdm
              else if countOccurence subUri (CHR ''='') > 1 then Throw invalidSdm
              else
                let tokens = splitOn (\<lambda>c. c \<in> {CHR '':'', CHR '';'', CHR ''=''}) subUri in
                if length tokens < 1 then Ret sdmInfo
                else Ret (snd (sdmParameters sdmString tokens (sdmProtocol sdmString tokens (sdmInstance sdmString tokens
                  (1, sdmInfo\<lparr>interface := tokens ! 0\<rparr>)))))))"

text \<open>\<open>parseDeviceString\<close>\<close>

definition parseDeviceString :: "string \<Rightarrow> sdm" where
  "parseDeviceString deviceString =
     (if substr 0 5 deviceString = ''/dev/'' then
        empty_sdm\<lparr>interface := ''pci'', sdm_instance := (if length deviceString > 5 then drop 5 deviceString else []),
          host := ''.'', protocol := []\<rparr>
      else if suffix ''.map'' deviceString \<or> suffix ''.mapp'' deviceString then
        empty_sdm\<lparr>interface := ''dummy'', sdm_instance := deviceString, sdm_parameters := [deviceString],
          host := ''.'', protocol := []\<rparr>
      else empty_sdm)"

section \<open>Writing a descriptor\<close>

definition escape :: "string \<Rightarrow> string" where
  "escape s = concat (map (\<lambda>c. if c \<in> escapable then [CHR 92, c] else [c]) s)"

definition print_parameter :: "string \<times> string \<Rightarrow> string" where
  "print_parameter p = fst p @ ''='' @ escape (snd p) @ ''&''"

definition print_descriptor :: "string \<Rightarrow> string \<Rightarrow> (string \<times> string) list \<Rightarrow> string" where
  "print_descriptor t a ps = ''('' @ t @ '':'' @ escape a @ ''?'' @ concat (map print_parameter ps) @ '')''"

definition is_name :: "string \<Rightarrow> bool" where
  "is_name s = (s \<noteq> [] \<and> list_all is_alnum s)"

lemma alnum_facts:
  "is_alnum c \<Longrightarrow> \<not> is_space c" "is_alnum c \<Longrightarrow> c \<notin> escapable" "is_alnum c \<Longrightarrow> c \<noteq> CHR '':'' \<and> c \<noteq> CHR ''=''"
  by (auto simp: is_alnum_def is_space_def escapable_def Let_def)

lemma name_facts:
  assumes "is_name s"
  shows "trim s = s" "escape s = s" "set s \<inter> escapable = {}" "CHR '':'' \<notin> set s" "CHR ''='' \<notin> set s"
proof -
  have a: "is_alnum c" if "c \<in> set s" for c using assms that by (simp add: is_name_def list_all_iff)
  then show "trim s = s" by (intro trim_no_space) (auto dest: alnum_facts)
  show "set s \<inter> escapable = {}" using a alnum_facts by blast
  show "CHR '':'' \<notin> set s" "CHR ''='' \<notin> set s" using a alnum_facts by blast+
  have "map (\<lambda>c. if c \<in> escapable then [CHR 92, c] else [c]) s = map (\<lambda>c. [c]) s"
    using a alnum_facts(2) by (intro map_cong) auto
  then show "escape s = s" unfolding escape_def by (simp only: concat_map_singleton map_ident)
qed

text \<open>Escaped text is added to the token.\<close>

lemma cdd_loop_escaped:
  assumes "parenthesesLevel s = 1" "\<not> escapeNext s" "currentTokenType s \<noteq> TokenBackendType" "ys \<noteq> []"
  shows "cdd_loop t (escape xs @ ys) s = cdd_loop t ys (s\<lparr>token := token s @ xs\<rparr>)"
  using assms
proof (induction xs arbitrary: s)
  case (Cons x xs)
  show ?case
  proof (cases "x \<in> escapable")
    case True
    then have "cdd_loop t (escape (x # xs) @ ys) s = cdd_loop t (escape xs @ ys) (s\<lparr>token := token s @ [x]\<rparr>)"
      using Cons.prems by (cases s) (simp add: escape_def cdd_char_def topLevelChar_def countParentheses_def)
    with Cons show ?thesis by simp
  next
    case False
    then have "cdd_loop t (escape (x # xs) @ ys) s = cdd_loop t (escape xs @ ys) (s\<lparr>token := token s @ [x]\<rparr>)"
      using Cons.prems by (simp add: escape_def cdd_char_def topLevelChar_def countParentheses_def escapable_def)
    with Cons show ?thesis by simp
  qed
qed (simp add: escape_def)

lemma cdd_loop_name:
  assumes "is_name xs" "parenthesesLevel s = 1" "\<not> escapeNext s" "ys \<noteq> []"
  shows "cdd_loop t (xs @ ys) s = cdd_loop t ys (s\<lparr>token := token s @ xs\<rparr>)"
proof -
  have "\<forall>c\<in>set xs. c \<notin> escapable \<and> c \<noteq> CHR '':''" using name_facts[OF assms(1)] by auto
  then show ?thesis using assms(2-)
    by (induction xs arbitrary: s) (auto simp: cdd_char_def topLevelChar_def countParentheses_def escapable_def)
qed

text \<open>One parameter of a printed descriptor.\<close>

lemma trim_parameter:
  assumes "is_name k" "trim v = v"
  shows "trim (k @ CHR ''='' # v) = k @ CHR ''='' # v"
proof -
  obtain c k' where k: "k = c # k'" "\<not> is_space c" using assms(1) alnum_facts(1) by (cases k) (auto simp: is_name_def)
  have "dropWhile is_space (rev v @ CHR ''='' # rev k) = rev v @ CHR ''='' # rev k"
  proof (cases v rule: rev_cases)
    case Nil
    then show ?thesis by (simp add: is_space_def)
  next
    case (snoc u d)
    have "\<not> is_space d"
    proof
      assume "is_space d"
      then have "length (trim v) < length v"
        using snoc length_dropWhile_le[of is_space "u"] length_dropWhile_le[of is_space "rev (dropWhile is_space u)"]
          length_dropWhile_le[of is_space "rev (dropWhile is_space u @ [d])"]
        by (cases "\<forall>c\<in>set u. is_space c") (auto simp: trim_def dropWhile_append)
      with assms(2) show False by simp
    qed
    then show ?thesis using snoc by simp
  qed
  then show ?thesis using k by (simp add: trim_def)
qed

lemma cdd_loop_parameters:
  assumes "\<forall>(k, v)\<in>set ps. is_name k \<and> trim v = v" "distinct (map fst ps)"
    and "\<forall>k\<in>fst ` set ps. parameters (result s) k = None" "ys \<noteq> []"
    and "parenthesesLevel s = 1" "\<not> escapeNext s" "currentTokenType s = TokenParameters" "token s = []"
  shows "cdd_loop t (concat (map print_parameter ps) @ ys) s =
    cdd_loop t ys (s\<lparr>result := (result s)\<lparr>parameters := parameters (result s) ++ map_of ps\<rparr>\<rparr>)"
  using assms
proof (induction ps arbitrary: s)
  case (Cons p ps)
  obtain k v where p: "p = (k, v)" by fastforce
  let ?rest = "concat (map print_parameter ps) @ ys"
  have "map_of ps k = None" using Cons.prems(2) p by (simp add: map_of_eq_None_iff)
  then have maps: "(parameters (result s))(k \<mapsto> v) ++ map_of ps = parameters (result s) ++ map_of (p # ps)"
    by (auto simp: p map_add_def split: option.splits)
  note nm = name_facts(1,4,5)[of k] trim_parameter[of k v]
  have kv: "is_name k" "trim v = v" "parameters (result s) k = None" using Cons.prems p by auto
  let ?s1 = "s\<lparr>token := k @ CHR ''='' # v\<rparr>"
  let ?s2 = "s\<lparr>result := (result s)\<lparr>parameters := (parameters (result s))(k \<mapsto> v)\<rparr>\<rparr>"
  have "cdd_loop t (concat (map print_parameter (p # ps)) @ ys) s =
      cdd_loop t (k @ CHR ''='' # escape v @ CHR ''&'' # ?rest) s"
    by (simp add: p print_parameter_def)
  also have "\<dots> = cdd_loop t (CHR ''='' # escape v @ CHR ''&'' # ?rest) (s\<lparr>token := k\<rparr>)"
    using cdd_loop_name[OF kv(1)] Cons.prems by simp
  also have "\<dots> = cdd_loop t (escape v @ CHR ''&'' # ?rest) (s\<lparr>token := k @ ''=''\<rparr>)"
    using Cons.prems by (simp add: cdd_char_def topLevelChar_def countParentheses_def)
  also have "\<dots> = cdd_loop t (CHR ''&'' # ?rest) ?s1"
    using cdd_loop_escaped[of "s\<lparr>token := k @ ''=''\<rparr>" "CHR ''&'' # ?rest" t v] Cons.prems by simp
  also have "endOfParameter t ?s1 = Ret ?s2"
  proof -
    have "findFirst {CHR ''=''} (k @ CHR ''='' # v) = Some (length k)"
      using nm kv by (subst findFirst_append(2)) auto
    then show ?thesis using nm kv Cons.prems(8)
      by (cases s) (simp add: endOfParameter_def substr_def is_name_def)
  qed
  then have "cdd_loop t (CHR ''&'' # ?rest) ?s1 = cdd_loop t ?rest ?s2"
    using Cons.prems by (simp add: cdd_char_def topLevelChar_def countParentheses_def)
  also have "\<dots> = cdd_loop t ys (?s2\<lparr>result := (result ?s2)\<lparr>parameters := parameters (result ?s2) ++ map_of ps\<rparr>\<rparr>)"
    using Cons.prems p by (intro Cons.IH) auto
  finally show ?case unfolding maps[symmetric] by simp
qed simp

lemma parse_print:
  assumes "is_name t" "trim a = a" "\<forall>(k, v)\<in>set ps. is_name k \<and> trim v = v" "distinct (map fst ps)"
  shows "parseDeviceDesciptor (print_descriptor t a ps) = Ret \<lparr>backendType = t, address = a, parameters = map_of ps\<rparr>"
proof -
  let ?w = "print_descriptor t a ps"
  have ends: "?w = CHR ''('' # butlast (tl ?w) @ '')''" by (simp add: print_descriptor_def butlast_append)
  have trim: "trim ?w = ?w" by (subst (1 2) ends) (simp add: trim_def is_space_def)
  have pre: "\<not> length ?w < 3" "substr 0 1 ?w = ''(''" "substr (length ?w - 1) 1 ?w = '')''"
    by (simp_all add: print_descriptor_def substr_def)
  let ?s = "cdd_start\<lparr>parenthesesLevel := 1\<rparr>"
  let ?ps = "concat (map print_parameter ps) @ '')''"
  have "cdd_loop ?w ?w cdd_start = cdd_loop ?w (t @ CHR '':'' # escape a @ CHR ''?'' # ?ps) ?s"
    by (subst (2) print_descriptor_def) (simp add: cdd_char_def countParentheses_def cdd_start_def)
  also have "\<dots> = cdd_loop ?w (CHR '':'' # escape a @ CHR ''?'' # ?ps) (?s\<lparr>token := t\<rparr>)"
    using cdd_loop_name[OF assms(1), of ?s] by (simp add: cdd_start_def)
  also have "\<dots> = cdd_loop ?w (escape a @ CHR ''?'' # ?ps)
      (?s\<lparr>result := (result ?s)\<lparr>backendType := t\<rparr>, currentTokenType := TokenAddress\<rparr>)"
    using name_facts(1)[OF assms(1)] assms(1)
    by (simp add: cdd_char_def topLevelChar_def countParentheses_def cdd_start_def endOfBackendType_def is_name_def)
  also have "\<dots> = cdd_loop ?w (CHR ''?'' # ?ps)
      (?s\<lparr>result := (result ?s)\<lparr>backendType := t\<rparr>, currentTokenType := TokenAddress, token := a\<rparr>)"
    by (subst cdd_loop_escaped) (simp_all add: cdd_start_def)
  also have "\<dots> = cdd_loop ?w ?ps
      (?s\<lparr>result := (result ?s)\<lparr>backendType := t, address := a\<rparr>, currentTokenType := TokenParameters\<rparr>)"
    using assms(2) by (simp add: cdd_char_def topLevelChar_def countParentheses_def cdd_start_def endOfAddress_def)
  also have "\<dots> = cdd_loop ?w '')''
      (?s\<lparr>result := \<lparr>backendType = t, address = a, parameters = map_of ps\<rparr>, currentTokenType := TokenParameters\<rparr>)"
    using assms(3,4) by (subst cdd_loop_parameters) (simp_all add: cdd_start_def empty_def[symmetric])
  also have "\<dots> = Ret (cdd_start\<lparr>result := \<lparr>backendType = t, address = a, parameters = map_of ps\<rparr>,
      currentTokenType := TokenParameters\<rparr>)"
    by (simp add: cdd_char_def topLevelChar_def countParentheses_def cdd_start_def endOfParameter_def trim_def)
  finally have "cdd_loop ?w ?w cdd_start = \<dots>" .
  note run = this
  show ?thesis
    by (simp only: parseDeviceDesciptor_def Let_def trim pre run if_False simp_thms bindO_simps) (simp add: cdd_start_def)
qed

text \<open>
  C39: a descriptor whose special characters are escaped is read back as it was: backend type,
  address and all parameters, whatever they contain, as long as they do not begin or end with
  blanks.
\<close>

theorem parse_print_descriptor:
  assumes "is_name t" "trim a = a" "\<forall>(k, v)\<in>set ps. is_name k \<and> trim v = v" "distinct (map fst ps)"
  shows "parseDeviceDesciptor (print_descriptor t a ps) = Ret \<lparr>backendType = t, address = a, parameters = map_of ps\<rparr>"
  by (rule parse_print[OF assms])

theorem parse_print_descriptor_witness:
  "parseDeviceDesciptor (print_descriptor ''logicalNameMap'' ''a b?'' [(''map'', ''x&y=(z)''), (''mode'', [])]) =
    Ret \<lparr>backendType = ''logicalNameMap'', address = ''a b?'', parameters = [''map'' \<mapsto> ''x&y=(z)'', ''mode'' \<mapsto> []]\<rparr>"
proof -
  have "is_name ''logicalNameMap''" "trim ''a b?'' = ''a b?''" "is_name ''map''" "is_name ''mode''"
    "trim ''x&y=(z)'' = ''x&y=(z)''" "trim [] = []"
    by (simp_all add: is_name_def is_alnum_def trim_def is_space_def)
  then show ?thesis
    by (subst parse_print_descriptor) (auto simp: fun_eq_iff)
qed

section \<open>What a descriptor can be\<close>

definition good_params :: "(string \<Rightarrow> string option) \<Rightarrow> bool" where
  "good_params m = (finite (dom m) \<and> (\<forall>k v. m k = Some v \<longrightarrow> is_name k \<and> trim v = v))"

definition good :: "cdd_state \<Rightarrow> bool" where
  "good s = (trim (address (result s)) = address (result s) \<and> good_params (parameters (result s)) \<and>
     (currentTokenType s \<noteq> TokenBackendType \<longrightarrow> is_name (backendType (result s))))"

lemma good_token [simp]: "good (s\<lparr>token := x\<rparr>) = good s" "good (s\<lparr>parenthesesLevel := n\<rparr>) = good s"
  "good (s\<lparr>escapeNext := b\<rparr>) = good s"
  by (simp_all add: good_def)

lemma good_params_update:
  "good_params m \<Longrightarrow> k \<noteq> [] \<Longrightarrow> list_all is_alnum k \<Longrightarrow> trim v = v \<Longrightarrow> good_params (m(k \<mapsto> v))"
  by (auto simp: good_params_def is_name_def)

lemma endOfParameter_good:
  assumes "endOfParameter t s = Ret s'" "good s"
  shows "good s' \<and> parenthesesLevel s' = parenthesesLevel s \<and> backendType (result s') = backendType (result s)"
proof (cases "length (trim (token s)) = 0")
  case True
  then show ?thesis using assms by (auto simp: endOfParameter_def)
next
  case False
  let ?t = "trim (token s)"
  obtain e where e: "findFirst {CHR ''=''} ?t = Some e"
    using assms(1) False by (cases "findFirst {CHR ''=''} ?t") (auto simp: endOfParameter_def Let_def)
  let ?k = "trim (substr 0 e ?t)" and ?v = "trim (drop (e + 1) ?t)"
  have s': "?k \<noteq> []" "list_all is_alnum ?k"
    "s' = s\<lparr>result := (result s)\<lparr>parameters := (parameters (result s))(?k \<mapsto> ?v)\<rparr>, token := []\<rparr>"
    using assms(1) False e by (auto simp: endOfParameter_def Let_def split: if_splits)
  have "good_params ((parameters (result s))(?k \<mapsto> ?v))"
    using assms(2) s'(1,2) by (intro good_params_update) (simp_all add: good_def)
  then show ?thesis using assms(2) unfolding s'(3) by (simp add: good_def)
qed

lemma endOfBackendType_good:
  assumes "endOfBackendType t c s = Ret s'" "good s"
  shows "good s' \<and> parenthesesLevel s' = parenthesesLevel s \<and> is_name (backendType (result s'))"
proof -
  let ?t = "trim (token s)"
  have t: "\<not> length ?t = 0" "list_all is_alnum ?t" using assms(1)
    by (cases "length ?t = 0"; cases "list_all is_alnum ?t"; simp add: endOfBackendType_def Let_def)+
  then have "is_name ?t" by (simp add: is_name_def)
  moreover have "s' = s\<lparr>result := (result s)\<lparr>backendType := ?t\<rparr>, token := [],
      currentTokenType := (if c = CHR '':'' then TokenAddress else if c = CHR ''?'' then TokenParameters else currentTokenType s)\<rparr>"
    using assms(1) t by (simp only: endOfBackendType_def Let_def if_False not_True_eq_False outcome.inject)
  ultimately show ?thesis using assms(2) by (simp add: good_def)
qed

lemma topLevelChar_good:
  assumes "topLevelChar t c s = Ret s'" "good s"
  shows "good s' \<and> parenthesesLevel s' = parenthesesLevel s \<and> (c = CHR '')'' \<longrightarrow> is_name (backendType (result s')))"
proof -
  have "good s' \<and> parenthesesLevel s' = parenthesesLevel s \<and> is_name (backendType (result s'))"
    if "endOfBackendType t c s = Ret s'"
    by (rule endOfBackendType_good[OF that assms(2)])
  moreover have "good s' \<and> parenthesesLevel s' = parenthesesLevel s \<and> is_name (backendType (result s'))"
    if "endOfAddress s = Ret s'" "currentTokenType s = TokenAddress"
    using that assms(2) by (auto simp: endOfAddress_def good_def)
  moreover have "good s' \<and> parenthesesLevel s' = parenthesesLevel s \<and> is_name (backendType (result s'))"
    if "endOfParameter t s = Ret s'" "currentTokenType s = TokenParameters"
    using endOfParameter_good[OF that(1) assms(2)] that(2) assms(2) by (simp add: good_def)
  moreover have "good s' \<and> parenthesesLevel s' = parenthesesLevel s" if "Ret (s\<lparr>escapeNext := True\<rparr>) = Ret s'"
    using that assms(2) by auto
  moreover have "good s' \<and> parenthesesLevel s' = parenthesesLevel s" if "Ret (s\<lparr>token := token s @ [c]\<rparr>) = Ret s'"
    using that assms(2) by auto
  ultimately show ?thesis using assms(1) unfolding topLevelChar_def
    by (cases "currentTokenType s"; cases "c = CHR '')''") (simp_all split: if_splits)
qed

lemma cdd_char_good:
  assumes "cdd_char t further c s = Ret s'" "good s" "1 \<le> parenthesesLevel s"
  shows "good s' \<and> (parenthesesLevel s' = 0 \<longrightarrow> \<not> further \<and> is_name (backendType (result s')))"
proof (cases "parenthesesLevel s = 1 \<and> \<not> escapeNext s")
  case True
  then obtain s1 where s1: "topLevelChar t c s = Ret s1" "countParentheses t further c s1 = Ret s'"
    using assms(1) by (auto simp: cdd_char_def bindO_Ret_iff)
  from topLevelChar_good[OF s1(1) assms(2)] s1(2) True show ?thesis
    by (auto simp: countParentheses_def Let_def split: if_splits)
next
  case False
  then show ?thesis using assms
    by (auto simp: cdd_char_def countParentheses_def Let_def split: if_splits)
qed

lemma cdd_loop_good:
  assumes "cdd_loop t cs s = Ret s'" "good s" "1 \<le> parenthesesLevel s \<or> cs = []"
    and "parenthesesLevel s = 0 \<longrightarrow> is_name (backendType (result s))"
  shows "good s' \<and> (parenthesesLevel s' = 0 \<longrightarrow> is_name (backendType (result s')))"
  using assms
proof (induction cs arbitrary: s)
  case (Cons c cs)
  then obtain s1 where s1: "cdd_char t (cs \<noteq> []) c s = Ret s1" "cdd_loop t cs s1 = Ret s'" by (auto simp: bindO_Ret_iff)
  from cdd_char_good[OF s1(1)] Cons.prems have "good s1" "parenthesesLevel s1 = 0 \<longrightarrow> cs = [] \<and> is_name (backendType (result s1))"
    by auto
  then show ?case using s1(2) by (intro Cons.IH) (auto simp: Suc_le_eq)
qed simp

text \<open>
  Whatever text is accepted as a descriptor, its backend type and the keys of its
  parameters are non-empty and alphanumeric, nothing begins or ends with blanks, and there is a
  text in normal form that is read as the same descriptor.
\<close>

theorem parsed_descriptor_normal:
  assumes "parseDeviceDesciptor s = Ret d"
  shows "is_name (backendType d) \<and> (\<forall>k v. parameters d k = Some v \<longrightarrow> is_name k \<and> trim v = v) \<and>
    (\<exists>ps. parameters d = map_of ps \<and> parseDeviceDesciptor (print_descriptor (backendType d) (address d) ps) = Ret d)"
proof -
  let ?w = "trim s"
  obtain u where run: "cdd_loop ?w ?w cdd_start = Ret u" "parenthesesLevel u = 0" "d = result u" and open1: "substr 0 1 ?w = ''(''"
    using assms by (auto simp: parseDeviceDesciptor_def Let_def bindO_Ret_iff split: if_splits)
  obtain cs where w: "?w = CHR ''('' # cs" using open1 by (cases ?w) (auto simp: substr_def)
  let ?s = "cdd_start\<lparr>parenthesesLevel := 1\<rparr>"
  have "cdd_loop ?w cs ?s = Ret u" using run(1) unfolding w by (simp add: cdd_char_def countParentheses_def cdd_start_def)
  from cdd_loop_good[OF this] have u: "good u" "is_name (backendType (result u))"
    using run(2) by (simp_all add: good_def good_params_def cdd_start_def trim_def)
  let ?m = "parameters d"
  obtain ks where ks: "set ks = dom ?m" "distinct ks"
    using finite_distinct_list[of "dom ?m"] u(1) run(3) by (auto simp: good_def good_params_def)
  define ps where "ps = map (\<lambda>k. (k, the (?m k))) ks"
  have ps: "map_of ps = ?m"
    using ks by (auto simp: ps_def map_of_map_restrict restrict_map_def fun_eq_iff dom_def)
  have vals: "\<forall>(k, v)\<in>set ps. is_name k \<and> trim v = v"
    using u(1) run(3) ks by (auto simp: ps_def good_def good_params_def)
  have "distinct (map fst ps)" using ks by (simp add: ps_def comp_def)
  moreover have "is_name (backendType d)" "trim (address d) = address d" using u run(3) by (simp_all add: good_def)
  ultimately have "parseDeviceDesciptor (print_descriptor (backendType d) (address d) ps) = Ret d"
    using parse_print[OF _ _ vals, of "backendType d" "address d"] ps by simp
  moreover have "\<forall>k v. parameters d k = Some v \<longrightarrow> is_name k \<and> trim v = v" using u run(3) by (simp add: good_def good_params_def)
  ultimately show ?thesis using u(2) run(3) ps by metis
qed

theorem parsed_descriptor_normal_witness:
  "\<exists>d. parseDeviceDesciptor ''( dummy : x ? map = y )'' = Ret d \<and> is_name (backendType d) \<and> address d = ''x'' \<and>
     (\<exists>ps. parameters d = map_of ps \<and> parseDeviceDesciptor (print_descriptor (backendType d) (address d) ps) = Ret d)"
proof -
  let ?d = "\<lparr>backendType = ''dummy'', address = ''x'', parameters = [''map'' \<mapsto> ''y'']\<rparr>"
  have "parseDeviceDesciptor ''( dummy : x ? map = y )'' = Ret ?d"
    by (simp add: parseDeviceDesciptor_def trim_def is_space_def substr_def cdd_char_def topLevelChar_def countParentheses_def
        cdd_start_def endOfBackendType_def endOfAddress_def endOfParameter_def is_alnum_def)
  from parsed_descriptor_normal[OF this] this show ?thesis by auto
qed

section \<open>SDM addresses\<close>

definition print_sdm :: "sdm \<Rightarrow> string" where
  "print_sdm d = ''sdm://'' @ host d @ ''/'' @ interface d @ '':'' @ sdm_instance d @ '';'' @ protocol d @ ''='' @
     concat (map (\<lambda>p. p @ '','') (butlast (sdm_parameters d))) @ last (sdm_parameters d)"

abbreviation sdm_separators :: "char set" where
  "sdm_separators \<equiv> {CHR '':'', CHR '';'', CHR ''=''}"

lemma splitOn_commas:
  assumes "ps \<noteq> []" "\<forall>p\<in>set ps. CHR '','' \<notin> set p"
  shows "splitOn (\<lambda>c. c = CHR '','') (concat (map (\<lambda>p. p @ '','') (butlast ps)) @ last ps) = ps"
  using assms
proof (induction ps)
  case (Cons p ps)
  have p: "splitOn (\<lambda>c. c = CHR '','') p = [p]" using Cons.prems by (intro splitOn_no_sep) auto
  then show ?case using Cons by (cases ps) (auto simp: splitOn_append)
qed simp

lemma splitOn_fields4:
  assumes "\<forall>c\<in>set i. \<not> sep c" "\<forall>c\<in>set n. \<not> sep c" "\<forall>c\<in>set p. \<not> sep c" "\<forall>c\<in>set q. \<not> sep c" "sep a" "sep b" "sep e"
  shows "splitOn sep (i @ a # n @ b # p @ e # q) = [i, n, p, q]"
  using assms by (simp add: splitOn_append splitOn_no_sep)

lemma count_absent: "x \<notin> set s \<Longrightarrow> count_list s x = 0"
  by (simp add: count_list_0_iff)

lemma count_fields:
  assumes "c \<notin> set i" "c \<notin> set n" "c \<notin> set p" "c \<notin> set q"
  shows "count_list (i @ CHR '':'' # n @ CHR '';'' # p @ CHR ''='' # q) c \<le> 1"
  using assms by (auto simp: count_absent)

text \<open>
  An SDM address with all its parts is read back as it was, if no part contains a separator.
\<close>

theorem parse_print_sdm:
  assumes "CHR ''/'' \<notin> set (host d)" "sdm_parameters d \<noteq> []"
    and parts: "\<forall>s\<in>{interface d, sdm_instance d, protocol d} \<union> set (sdm_parameters d). set s \<inter> sdm_separators = {}"
    and commas: "\<forall>s\<in>set (sdm_parameters d). CHR '','' \<notin> set s"
  shows "parseSdm (print_sdm d) = Ret d"
proof -
  let ?q = "concat (map (\<lambda>p. p @ '','') (butlast (sdm_parameters d))) @ last (sdm_parameters d)"
  let ?sub = "interface d @ CHR '':'' # sdm_instance d @ CHR '';'' # protocol d @ CHR ''='' # ?q"
  have w: "print_sdm d = ''sdm://'' @ host d @ CHR ''/'' # ?sub" by (simp add: print_sdm_def)
  have "\<forall>c\<in>set (last (sdm_parameters d)). c \<notin> sdm_separators" using parts assms(2) last_in_set by blast
  moreover have "\<forall>c\<in>set s. c \<notin> sdm_separators" if "s \<in> set (butlast (sdm_parameters d))" for s
    using parts in_set_butlastD[OF that] by blast
  ultimately have q: "\<forall>c\<in>set ?q. c \<notin> sdm_separators" by auto
  have others: "\<forall>c\<in>set (interface d). c \<notin> sdm_separators" "\<forall>c\<in>set (sdm_instance d). c \<notin> sdm_separators"
    "\<forall>c\<in>set (protocol d). c \<notin> sdm_separators" using parts by blast+
  have tokens: "splitOn (\<lambda>c. c \<in> sdm_separators) ?sub = [interface d, sdm_instance d, protocol d, ?q]"
    using others q by (intro splitOn_fields4) auto
  have counts: "countOccurence ?sub c \<le> 1" if "c \<in> sdm_separators" for c
    unfolding countOccurence_def
    by (rule count_fields) (rule notI, drule bspec[OF others(1)] bspec[OF others(2)] bspec[OF others(3)] bspec[OF q], erule notE, rule that)+
  have slash: "findFirstOf {CHR ''/''} 6 (print_sdm d) = Some (6 + length (host d))"
    using assms(1) unfolding w by (simp add: findFirstOf_def findFirst_append(2))
  have found: "findFirstOf {c} 6 (print_sdm d) \<noteq> None" if "c \<in> sdm_separators" for c
    using that unfolding w by (auto simp: findFirstOf_def findFirst_None)
  have sub: "drop (6 + length (host d) + 1) (print_sdm d) = ?sub" "substr 6 (6 + length (host d) - 6) (print_sdm d) = host d"
    "substr 0 6 (print_sdm d) = ''sdm://''" "\<not> length (print_sdm d) < 6" "\<not> length (print_sdm d) < 6 + length (host d) + 1"
    unfolding w by (simp_all add: substr_def drop_Cons')
  have few: "(countOccurence ?sub (CHR '':'') > 1) = False" "(countOccurence ?sub (CHR '';'') > 1) = False"
    "(countOccurence ?sub (CHR ''='') > 1) = False"
    using counts[of "CHR '':''"] counts[of "CHR '';''"] counts[of "CHR ''=''"] by simp_all
  have there: "findFirstOf {CHR '':''} 6 (print_sdm d) \<noteq> None" "findFirstOf {CHR '';''} 6 (print_sdm d) \<noteq> None"
    "findFirstOf {CHR ''=''} 6 (print_sdm d) \<noteq> None" by (rule found, simp)+
  show ?thesis
    by (simp only: parseSdm_def Let_def sub slash option.case if_False tokens few not_True_eq_False simp_thms)
      (use there splitOn_commas[OF assms(2) commas] in \<open>simp add: sdmInstance_def sdmProtocol_def sdmParameters_def empty_sdm_def\<close>)
qed

theorem parse_print_sdm_witness:
  "parseSdm ''sdm://./pci:mps0s4;x=par1,par2'' = Ret \<lparr>host = ''.'', interface = ''pci'', sdm_instance = ''mps0s4'', protocol = ''x'',
     sdm_parameters = [''par1'', ''par2'']\<rparr>"
  using parse_print_sdm[of "\<lparr>host = ''.'', interface = ''pci'', sdm_instance = ''mps0s4'', protocol = ''x'',
     sdm_parameters = [''par1'', ''par2'']\<rparr>"]
  by (simp add: print_sdm_def)

text \<open>The separators are also searched for in the host.\<close>

lemma sdm_host_with_port:
  "parseSdm ''sdm://h:80/rebot;tcp'' = Ret (empty_sdm\<lparr>host := ''h:80'', interface := ''rebot'', sdm_instance := ''tcp''\<rparr>)"
  by (simp add: parseSdm_def substr_def findFirstOf_def countOccurence_def sdmInstance_def sdmProtocol_def sdmParameters_def
      empty_sdm_def)

text \<open>The tab that \<^verbatim>\<open>doc/deviceMapping.dox\<close> announces is refused.\<close>

lemma no_escaped_tab:
  "parseDeviceDesciptor (''(dummy:a'' @ [CHR 92] @ ''tb)'') =
    Throw (invalidCdd ''bad escape character'' (''(dummy:a'' @ [CHR 92] @ ''tb)''))"
  by (simp add: parseDeviceDesciptor_def trim_def is_space_def substr_def cdd_char_def topLevelChar_def countParentheses_def
      cdd_start_def endOfBackendType_def is_alnum_def escapable_def)

end
