(* ===== verification/DeviceMaps.thy ===== *)
theory DeviceMaps
  imports Strings "HOL-Library.Multiset"
begin

text \<open>
  \<^verbatim>\<open>src/DMapFileParser.cpp\<close>, \<^verbatim>\<open>src/DeviceInfoMap.cc\<close>, \<^verbatim>\<open>src/parserUtilities.cc\<close>: the file of
  device aliases and the map made from it.  The file system is a parameter: the lines of a
  file, or \<open>None\<close> for a file that cannot be opened, and the current directory.
\<close>

section \<open>Paths of files\<close>

definition appendForwardSlash :: "string \<Rightarrow> string" where
  "appendForwardSlash p = (if p = [] then ''/'' else if last p = CHR ''/'' then p else p @ ''/'')"

definition concatenatePaths :: "string \<Rightarrow> string \<Rightarrow> string" where
  "concatenatePaths path1 path2 =
     (if path2 = [] \<or> hd path2 \<noteq> CHR ''/'' then appendForwardSlash path1 @ path2 else path2)"

definition convertToAbsolutePath :: "string \<Rightarrow> string \<Rightarrow> string" where
  "convertToAbsolutePath cwd relativePath = concatenatePaths (appendForwardSlash cwd) relativePath"

definition extractDirectory :: "string \<Rightarrow> string" where
  "extractDirectory p = (case findLastOf {CHR ''/''} p of None \<Rightarrow> ''./'' | Some pos \<Rightarrow> substr 0 (pos + 1) p)"

definition extractFileName :: "string \<Rightarrow> string" where
  "extractFileName p = (case findLastOf {CHR ''/''} p of None \<Rightarrow> p | Some pos \<Rightarrow> drop (pos + 1) p)"

section \<open>The map\<close>

record device_info =
  deviceName :: string
  uri :: string
  mapFileName :: string
  dmapFileName :: string
  dmapFileLineNumber :: nat

record device_info_map =
  mapDmapFileName :: string
  deviceInfoElements :: "device_info list"
  pluginLibraries :: "string list"

definition new_map :: "string \<Rightarrow> device_info_map" where
  "new_map fileName = \<lparr>mapDmapFileName = fileName, deviceInfoElements = [], pluginLibraries = []\<rparr>"

definition getSize :: "device_info_map \<Rightarrow> nat" where
  "getSize m = length (deviceInfoElements m)"

definition insert_info :: "device_info \<Rightarrow> device_info_map \<Rightarrow> device_info_map" where
  "insert_info e m = m\<lparr>deviceInfoElements := deviceInfoElements m @ [e]\<rparr>"

definition addPluginLibrary :: "string \<Rightarrow> device_info_map \<Rightarrow> device_info_map" where
  "addPluginLibrary soFile m = m\<lparr>pluginLibraries := pluginLibraries m @ [soFile]\<rparr>"

definition getDeviceFileAndMapFileName :: "device_info \<Rightarrow> string \<times> string" where
  "getDeviceFileAndMapFileName d = (uri d, mapFileName d)"

definition getDeviceInfo :: "string \<Rightarrow> device_info_map \<Rightarrow> device_info outcome" where
  "getDeviceInfo name m =
     (case List.find (\<lambda>e. deviceName e = name) (deviceInfoElements m) of
        None \<Rightarrow> Throw (LogicError (''Cannot find device '' @ [CHR 34] @ name @ [CHR 34] @ '' in DMAP file:'' @ mapDmapFileName m))
      | Some e \<Rightarrow> Ret e)"

text \<open>\<open>check()\<close>: the devices whose neighbour in the sorted list has the same name but differs.\<close>

definition conflicting :: "device_info \<Rightarrow> device_info \<Rightarrow> bool" where
  "conflicting a b = (deviceName a = deviceName b \<and> (uri a \<noteq> uri b \<or> mapFileName a \<noteq> mapFileName b))"

fun check_pairs :: "device_info list \<Rightarrow> (device_info \<times> device_info) list" where
  "check_pairs (p # n # rest) = (if conflicting p n then [(p, n)] else []) @ check_pairs (n # rest)"
| "check_pairs _ = []"

definition check ::
  "(device_info list \<Rightarrow> device_info list) \<Rightarrow> device_info_map \<Rightarrow> bool \<times> (device_info \<times> device_info) list" where
  "check std_sort m =
     (let dmaps = deviceInfoElements m in
      if length dmaps < 2 then (True, [])
      else let err = check_pairs (std_sort dmaps) in (err = [], err))"

section \<open>The parser\<close>

definition raiseException :: "string \<Rightarrow> string \<Rightarrow> nat \<Rightarrow> exn" where
  "raiseException file_name line line_nr =
     LogicError (''Error in dmap file: '' @ [CHR 34] @ file_name @ [CHR 34] @ '' in line ('' @ decimal line_nr @ '') '' @
       [CHR 34] @ line @ [CHR 34])"

definition absPathOfDMapContent :: "string \<Rightarrow> string \<Rightarrow> string \<Rightarrow> string" where
  "absPathOfDMapContent cwd dmapContent file_name =
     concatenatePaths (extractDirectory (convertToAbsolutePath cwd file_name)) dmapContent"

definition parseForLoadLib ::
  "string \<Rightarrow> string \<Rightarrow> string \<Rightarrow> nat \<Rightarrow> device_info_map \<Rightarrow> device_info_map outcome" where
  "parseForLoadLib cwd file_name line line_nr dmap =
     (case stream_words line of
        key # value # _ \<Rightarrow>
          if key = ''@LOAD_LIB'' then Ret (addPluginLibrary (absPathOfDMapContent cwd value file_name) dmap)
          else Throw (raiseException file_name line line_nr)
      | _ \<Rightarrow> Throw (raiseException file_name line line_nr))"

definition parseRegularLine ::
  "string \<Rightarrow> string \<Rightarrow> string \<Rightarrow> nat \<Rightarrow> device_info_map \<Rightarrow> device_info_map outcome" where
  "parseRegularLine cwd file_name line line_nr dmap =
     (case stream_words line of
        name # u # m # _ \<Rightarrow>
          Ret (insert_info \<lparr>deviceName = name, uri = u, mapFileName = absPathOfDMapContent cwd m file_name,
            dmapFileName = convertToAbsolutePath cwd file_name, dmapFileLineNumber = line_nr\<rparr> dmap)
      | [name, u] \<Rightarrow>
          Ret (insert_info \<lparr>deviceName = name, uri = u, mapFileName = [],
            dmapFileName = convertToAbsolutePath cwd file_name, dmapFileLineNumber = line_nr\<rparr> dmap)
      | _ \<Rightarrow> Throw (raiseException file_name line line_nr))"

definition dmap_line ::
  "string \<Rightarrow> string \<Rightarrow> string \<Rightarrow> nat \<Rightarrow> device_info_map \<Rightarrow> device_info_map outcome" where
  "dmap_line cwd file_name text line_nr dmap =
     (let line = dropWhile is_space text in
      if line = [] then Ret dmap
      else if hd line = CHR ''#'' then Ret dmap
      else if hd line = CHR ''@'' then parseForLoadLib cwd file_name line line_nr dmap
      else parseRegularLine cwd file_name line line_nr dmap)"

fun dmap_lines ::
  "string \<Rightarrow> string \<Rightarrow> string list \<Rightarrow> nat \<Rightarrow> device_info_map \<Rightarrow> device_info_map outcome" where
  "dmap_lines cwd file_name [] line_nr dmap = Ret dmap"
| "dmap_lines cwd file_name (line # lines) line_nr dmap =
     bindO (dmap_line cwd file_name line (line_nr + 1) dmap) (dmap_lines cwd file_name lines (line_nr + 1))"

definition dmap_parse :: "(string \<Rightarrow> string list option) \<Rightarrow> string \<Rightarrow> string \<Rightarrow> device_info_map outcome" where
  "dmap_parse files cwd file_name =
     (let absPathToDMapFile = convertToAbsolutePath cwd file_name in
      case files absPathToDMapFile of
        None \<Rightarrow> Throw (LogicError (''Cannot open dmap file: '' @ [CHR 34] @ absPathToDMapFile @ [CHR 34]))
      | Some lines \<Rightarrow>
          bindO (dmap_lines cwd file_name lines 0 (new_map absPathToDMapFile)) (\<lambda>dmap.
          if getSize dmap = 0 then Throw (LogicError (''No data in in dmap file: '' @ [CHR 34] @ file_name @ [CHR 34]))
          else Ret dmap))"

definition aliasLookUp :: "(string \<Rightarrow> string list option) \<Rightarrow> string \<Rightarrow> string \<Rightarrow> string \<Rightarrow> device_info outcome" where
  "aliasLookUp files cwd aliasName dmapFilePath =
     bindO (dmap_parse files cwd dmapFilePath) (getDeviceInfo aliasName)"

definition getAliasList :: "(string \<Rightarrow> string list option) \<Rightarrow> string \<Rightarrow> string \<Rightarrow> string list outcome" where
  "getAliasList files cwd file_name =
     (if file_name = [] then Throw (LogicError ''Dmap file not set'')
      else (case dmap_parse files cwd file_name of
          Ret m \<Rightarrow> Ret (map deviceName (deviceInfoElements m))
        | Throw x \<Rightarrow> if is_runtime_error x then Ret [] else Throw x
        | NoReturn \<Rightarrow> NoReturn
        | Terminated \<Rightarrow> Terminated))"

section \<open>Reading back what was written\<close>

text \<open>The line of a device, in a file as the documentation describes it.\<close>

definition print_device :: "string \<times> string \<times> string option \<Rightarrow> string" where
  "print_device d = (case d of (n, u, m) \<Rightarrow> n @ '' '' @ u @ (case m of None \<Rightarrow> [] | Some f \<Rightarrow> '' '' @ f))"

definition printable :: "string \<times> string \<times> string option \<Rightarrow> bool" where
  "printable d = (case d of (n, u, m) \<Rightarrow>
     is_word n \<and> hd n \<noteq> CHR ''#'' \<and> hd n \<noteq> CHR ''@'' \<and> is_word u \<and> (case m of None \<Rightarrow> True | Some f \<Rightarrow> is_word f))"

definition read_device :: "string \<Rightarrow> string \<Rightarrow> string \<times> string \<times> string option \<Rightarrow> nat \<Rightarrow> device_info" where
  "read_device cwd file_name d line_nr = (case d of (n, u, m) \<Rightarrow>
     \<lparr>deviceName = n, uri = u, mapFileName = (case m of None \<Rightarrow> [] | Some f \<Rightarrow> absPathOfDMapContent cwd f file_name),
      dmapFileName = convertToAbsolutePath cwd file_name, dmapFileLineNumber = line_nr\<rparr>)"

lemma dmap_line_device:
  assumes "printable d"
  shows "dmap_line cwd f (print_device d) nr dmap = Ret (insert_info (read_device cwd f d nr) dmap)"
proof -
  obtain n u m where d: "d = (n, u, m)" by (rule prod_cases3)
  from assms d have w: "is_word n" "hd n \<noteq> CHR ''#''" "hd n \<noteq> CHR ''@''" "is_word u" by (auto simp: printable_def)
  then have n: "n \<noteq> []" "\<not> is_space (hd n)" by (auto simp: is_word_def)
  have sp: "is_space (CHR '' '')" by (simp add: is_space_def)
  have "dropWhile is_space (print_device d) = print_device d" "hd (print_device d) = hd n" "print_device d \<noteq> []"
    using n by (cases n; simp add: d print_device_def)+
  moreover have "stream_words (print_device d) = n # u # (case m of None \<Rightarrow> [] | Some x \<Rightarrow> [x])"
    using assms w by (auto simp: d print_device_def printable_def stream_words_append[OF sp] stream_words_word split: option.splits)
  ultimately show ?thesis using w
    by (auto simp: dmap_line_def parseRegularLine_def d read_device_def split: option.splits)
qed

lemma dmap_lines_devices:
  assumes "list_all printable ds"
  shows "dmap_lines cwd f (map print_device ds) nr dmap =
    Ret (dmap\<lparr>deviceInfoElements := deviceInfoElements dmap @ map2 (read_device cwd f) ds [Suc nr..<Suc nr + length ds]\<rparr>)"
  using assms
proof (induction ds arbitrary: nr dmap)
  case (Cons d ds)
  have "[Suc nr..<Suc nr + length (d # ds)] = Suc nr # [Suc (Suc nr)..<Suc (Suc nr) + length ds]"
    using upt_conv_Cons[of "Suc nr" "Suc (Suc nr) + length ds"] by (simp del: upt_Suc)
  then show ?case using Cons dmap_line_device[of d] by (simp add: insert_info_def del: upt_Suc)
qed simp

text \<open>
  C40: a file with one line for each device gives the map with these devices in this order,
  with the absolute names of the files and the numbers of the lines.
\<close>

theorem dmap_parse_written:
  assumes "list_all printable ds" "ds \<noteq> []" "files (convertToAbsolutePath cwd f) = Some (map print_device ds)"
  shows "\<exists>m. dmap_parse files cwd f = Ret m \<and>
    deviceInfoElements m = map2 (read_device cwd f) ds [1..<Suc (length ds)] \<and> pluginLibraries m = []"
proof -
  obtain xs where xs: "xs = map2 (read_device cwd f) ds [1..<Suc (length ds)]" by simp
  then have "length xs = length ds" by (simp only: length_map length_zip length_upt diff_Suc_1 min.idem)
  then have "xs \<noteq> []" using assms(2) by auto
  moreover have "dmap_lines cwd f (map print_device ds) 0 (new_map (convertToAbsolutePath cwd f)) =
      Ret ((new_map (convertToAbsolutePath cwd f))\<lparr>deviceInfoElements := xs\<rparr>)"
    using dmap_lines_devices[OF assms(1), of cwd f 0] by (simp add: new_map_def xs del: upt_Suc)
  ultimately show ?thesis using assms(3) unfolding xs[symmetric] by (simp add: dmap_parse_def getSize_def new_map_def)
qed

theorem dmap_parse_written_witness:
  "\<exists>m. dmap_parse [''/home/x/devs.dmap'' \<mapsto> [''ADC (dummy) adc.map'', ''DAC (pci:p)'']] ''/home'' ''x/devs.dmap'' = Ret m \<and>
    map mapFileName (deviceInfoElements m) = [''/home/x/adc.map'', []]"
proof -
  let ?ds = "[(''ADC'', ''(dummy)'', Some ''adc.map''), (''DAC'', ''(pci:p)'', None)]"
  have "list_all printable ?ds" by (simp add: printable_def is_word_def is_space_def)
  moreover have "map print_device ?ds = [''ADC (dummy) adc.map'', ''DAC (pci:p)'']" by (simp add: print_device_def)
  moreover have "convertToAbsolutePath ''/home'' ''x/devs.dmap'' = ''/home/x/devs.dmap''"
    by (simp add: convertToAbsolutePath_def concatenatePaths_def appendForwardSlash_def)
  ultimately show ?thesis
    using dmap_parse_written[of ?ds "[''/home/x/devs.dmap'' \<mapsto> [''ADC (dummy) adc.map'', ''DAC (pci:p)'']]" "''/home''" "''x/devs.dmap''"]
    by (auto simp: read_device_def absPathOfDMapContent_def concatenatePaths_def appendForwardSlash_def extractDirectory_def
        findLastOf_def substr_def upt_conv_Cons simp del: upt_Suc)
qed

section \<open>Names that are not unique\<close>

definition by_name :: "device_info list \<Rightarrow> bool" where
  "by_name ds = sorted_wrt (\<lambda>a b. \<not> str_less (deviceName b) (deviceName a)) ds"

lemma check_pairs_sorted:
  assumes "by_name ds"
  shows "check_pairs ds = [] \<longleftrightarrow> (\<forall>a\<in>set ds. \<forall>b\<in>set ds. \<not> conflicting a b)"
  using assms
proof (induction ds rule: check_pairs.induct)
  case (1 p n rest)
  from 1 have IH: "check_pairs (n # rest) = [] \<longleftrightarrow> (\<forall>a\<in>set (n # rest). \<forall>b\<in>set (n # rest). \<not> conflicting a b)"
    by (simp add: by_name_def)
  have "\<not> conflicting p b" if ok: "check_pairs (p # n # rest) = []" "b \<in> set rest" for b
  proof
    assume c: "conflicting p b"
    then have "deviceName p = deviceName b" by (simp add: conflicting_def)
    moreover have "\<not> str_less (deviceName n) (deviceName p)" "\<not> str_less (deviceName b) (deviceName n)"
      using 1 that by (auto simp: by_name_def)
    ultimately have "deviceName n = deviceName p" using str_less_total by metis
    moreover have "\<not> conflicting p n" using ok by (auto split: if_splits)
    moreover have "\<not> conflicting n b" using ok IH by (auto split: if_splits)
    ultimately show False using c by (auto simp: conflicting_def)
  qed
  moreover have "conflicting a b \<Longrightarrow> conflicting b a" "\<not> conflicting a a" for a b by (auto simp: conflicting_def)
  moreover have "check_pairs (p # n # rest) = [] \<longleftrightarrow> \<not> conflicting p n \<and> check_pairs (n # rest) = []" by simp
  ultimately show ?case using IH unfolding list.set by blast
qed (auto simp: conflicting_def)

text \<open>
  \<open>check()\<close> accepts a map exactly when no two of its devices have the same name and
  different addresses or map files, whatever order \<open>std::sort\<close> gives devices of one name.
\<close>

theorem check_finds_conflicts:
  assumes "mset (std_sort (deviceInfoElements m)) = mset (deviceInfoElements m)" "by_name (std_sort (deviceInfoElements m))"
  shows "fst (check std_sort m) \<longleftrightarrow> (\<forall>a\<in>set (deviceInfoElements m). \<forall>b\<in>set (deviceInfoElements m). \<not> conflicting a b)"
proof (cases "length (deviceInfoElements m) < 2")
  case True
  then have "deviceInfoElements m = [] \<or> (\<exists>a. deviceInfoElements m = [a])"
    by (cases "deviceInfoElements m"; cases "tl (deviceInfoElements m)") auto
  then show ?thesis using True by (auto simp: check_def conflicting_def)
next
  case False
  then show ?thesis
    using check_pairs_sorted[OF assms(2)] mset_eq_setD[OF assms(1)] by (simp add: check_def Let_def)
qed

theorem check_finds_conflicts_witness:
  "let d = \<lparr>deviceName = ''A'', uri = ''(dummy)'', mapFileName = [], dmapFileName = [], dmapFileLineNumber = 1\<rparr>;
       m = (new_map [])\<lparr>deviceInfoElements := [d, d\<lparr>deviceName := ''B''\<rparr>, d\<lparr>uri := ''(pci)''\<rparr>]\<rparr>
   in \<not> fst (check (\<lambda>ds. [ds ! 0, ds ! 2, ds ! 1]) m)"
proof -
  let ?d = "\<lparr>deviceName = ''A'', uri = ''(dummy)'', mapFileName = [], dmapFileName = [], dmapFileLineNumber = 1\<rparr>"
  let ?m = "(new_map [])\<lparr>deviceInfoElements := [?d, ?d\<lparr>deviceName := ''B''\<rparr>, ?d\<lparr>uri := ''(pci)''\<rparr>]\<rparr>"
  show ?thesis
    using check_finds_conflicts[of "\<lambda>ds. [ds ! 0, ds ! 2, ds ! 1]" ?m]
    by (simp add: by_name_def conflicting_def)
qed

end
