(* ===== verification/RawConversion.thy ===== *)
theory RawConversion
  imports Prelude
begin

text \<open>
  \<^verbatim>\<open>include/NumericConverter.h\<close> and \<^verbatim>\<open>include/RawConverter.h\<close>: the conversion between
  the raw words of a register and the values the user sees, for integral user types and
  \<open>Boolean\<close>.  A raw word of the register is an \<open>'r word\<close>, whose length is the width of
  the \<open>RawType\<close>; values of integral types are integers in the range of their type.
  The cases that compute with floating point are not modelled.
\<close>

section \<open>NumericConverter\<close>

datatype num_type = IntType nat bool | BoolType

fun type_signed :: "num_type \<Rightarrow> bool" where
  "type_signed (IntType n s) = s"
| "type_signed BoolType = False"

fun type_max :: "num_type \<Rightarrow> int" where
  "type_max (IntType n s) = (if s then 2 ^ (n - 1) - 1 else 2 ^ n - 1)"
| "type_max BoolType = 1"

fun type_lowest :: "num_type \<Rightarrow> int" where
  "type_lowest (IntType n s) = (if s then - (2 ^ (n - 1)) else 0)"
| "type_lowest BoolType = 0"

definition in_type :: "num_type \<Rightarrow> int \<Rightarrow> bool" where
  "in_type t v = (type_lowest t \<le> v \<and> v \<le> type_max t)"

text \<open>The integral types of the platform.\<close>

fun type_ok :: "num_type \<Rightarrow> bool" where
  "type_ok (IntType n s) = (n \<in> {8, 16, 32, 64})"
| "type_ok BoolType = True"

text \<open>A conversion \<open>T(value)\<close> between integral types, modulo the width of the target.\<close>

fun cast_to :: "num_type \<Rightarrow> int \<Rightarrow> int" where
  "cast_to (IntType n s) v = (if s then signed_take_bit (n - 1) v else take_bit n v)"
| "cast_to BoolType v = (if v = 0 then 0 else 1)"

definition greaterMaximum :: "num_type \<Rightarrow> num_type \<Rightarrow> bool" where
  "greaterMaximum left right =
     (if left = right \<or> left = BoolType then False
      else if right = BoolType then True
      else type_max left > type_max right)"

definition lesserMinimum :: "num_type \<Rightarrow> num_type \<Rightarrow> bool" where
  "lesserMinimum left right = (if left = right then False else type_lowest left < type_lowest right)"

text \<open>\<open>convert<TO, FROM>(value)\<close>\<close>

definition convert :: "num_type \<Rightarrow> num_type \<Rightarrow> int \<Rightarrow> int" where
  "convert TO FROM v =
     (if FROM = TO then v
      else if greaterMaximum FROM TO \<and> v \<ge> cast_to FROM (type_max TO) then type_max TO
      else if type_signed FROM \<and> \<not> type_signed TO \<and> TO \<noteq> BoolType \<and> v < 0 then cast_to TO 0
      else if type_signed FROM \<and> type_signed TO \<and> lesserMinimum FROM TO \<and>
        v \<le> cast_to FROM (type_lowest TO) then type_lowest TO
      else cast_to TO v)"

text \<open>What the documentation of \<open>convert\<close> promises.\<close>

fun clamp_to :: "num_type \<Rightarrow> int \<Rightarrow> int" where
  "clamp_to (IntType n s) v = max (type_lowest (IntType n s)) (min (type_max (IntType n s)) v)"
| "clamp_to BoolType v = (if v = 0 then 0 else 1)"

lemma cast_in_type:
  assumes "type_ok t" "in_type t v"
  shows "cast_to t v = v"
proof (cases t)
  case (IntType n s)
  show ?thesis
  proof (cases s)
    case True
    then have "- (2 ^ (n - 1)) \<le> v" "v < 2 ^ (n - 1)"
      using assms IntType by (auto simp: in_type_def)
    then show ?thesis using IntType True by (simp add: signed_take_bit_int_eq_self)
  next
    case False
    then show ?thesis using IntType assms by (simp add: in_type_def take_bit_int_eq_self)
  qed
next
  case BoolType
  then show ?thesis using assms by (auto simp: in_type_def)
qed

lemma type_bounds: "type_lowest t \<le> 0 \<and> (type_ok t \<longrightarrow> 0 < type_max t) \<and>
    (\<not> type_signed t \<longrightarrow> type_lowest t = 0)"
  by (cases t) auto

lemma clamp_in_type: "type_ok t \<Longrightarrow> in_type t (clamp_to t v)"
  by (cases t) (auto simp: in_type_def)

lemma clamp_id: "in_type t v \<Longrightarrow> clamp_to t v = v"
  by (cases t) (auto simp: in_type_def)

text \<open>
  The conversion between numeric types clamps to the range of the target type, and
  every nonzero value becomes true, as its documentation says.
\<close>

theorem convert_clamps:
  assumes ok: "type_ok TO" "type_ok FROM" and v: "in_type FROM v"
  shows "convert TO FROM v = clamp_to TO v"
proof (cases "FROM = TO")
  case True
  then show ?thesis using v by (simp add: convert_def clamp_id)
next
  case False
  have one: "cast_to FROM 1 = 1" if "FROM \<noteq> BoolType"
    using that type_bounds[of FROM] ok by (intro cast_in_type) (auto simp: in_type_def)
  show ?thesis
  proof (cases "TO = BoolType")
    case True
    then show ?thesis using False v one type_bounds[of FROM]
      by (auto simp: convert_def greaterMaximum_def)
  next
    case int: False
    then have clamp: "clamp_to TO v = max (type_lowest TO) (min (type_max TO) v)"
      by (cases TO) auto
    have hi: "cast_to FROM (type_max TO) = type_max TO" if "greaterMaximum FROM TO"
      using that False int ok type_bounds[of FROM] type_bounds[of TO]
      by (intro cast_in_type) (auto simp: greaterMaximum_def in_type_def split: if_splits)
    have le_hi: "v \<le> type_max TO" if "\<not> greaterMaximum FROM TO"
    proof (cases "FROM = BoolType")
      case True
      then show ?thesis using v type_bounds[of TO] ok by (auto simp: in_type_def)
    next
      case F: False
      then show ?thesis using that False int v by (auto simp: greaterMaximum_def in_type_def)
    qed
    have lo: "cast_to FROM (type_lowest TO) = type_lowest TO" if "lesserMinimum FROM TO"
      using that False ok type_bounds[of FROM] type_bounds[of TO]
      by (intro cast_in_type) (auto simp: lesserMinimum_def in_type_def split: if_splits)
    have fin: "cast_to TO x = clamp_to TO v" if "type_lowest TO \<le> x" "x \<le> type_max TO" "x = max (type_lowest TO) v" for x
      using that ok clamp by (simp add: cast_in_type in_type_def)
    show ?thesis
    proof (cases "greaterMaximum FROM TO \<and> v \<ge> type_max TO")
      case True
      then show ?thesis using False hi clamp type_bounds[of TO] ok by (simp add: convert_def max_def)
    next
      case small: False
      then have le: "v \<le> type_max TO" using le_hi by auto
      have "0 \<le> v" if "\<not> type_signed FROM" using that v type_bounds[of FROM] by (simp add: in_type_def)
      moreover have "type_lowest FROM \<le> v" using v by (simp add: in_type_def)
      ultimately show ?thesis
        using small False int hi lo le type_bounds[of TO] ok fin[of 0] fin[of v] clamp
        by (auto simp: convert_def lesserMinimum_def max_def not_less)
    qed
  qed
qed

theorem convert_clamps_witness:
  "convert (IntType 8 False) (IntType 32 True) (- 5) = 0 \<and>
   convert (IntType 8 False) (IntType 32 True) 300 = 255"
  using convert_clamps[of "IntType 8 False" "IntType 32 True" "- 5"]
    convert_clamps[of "IntType 8 False" "IntType 32 True" 300]
  by (simp add: in_type_def)

section \<open>RawConverter\<close>

datatype significant_bits_case = bit8 | bit16 | bit32 | bit64 | generic

datatype fractional_case = integer | fixedPositive | fixedNegative | fixedNegativeFast | ieee754_32

datatype register_type = FIXED_POINT | IEEE754 | VOID_TYPE | ASCII

record channel_info =
  bitOffset :: nat
  dataType :: register_type
  width :: nat
  nFractionalBits :: int
  signedFlag :: bool

fun significant_bits :: "significant_bits_case \<Rightarrow> nat" where
  "significant_bits bit8 = 8"
| "significant_bits bit16 = 16"
| "significant_bits bit32 = 32"
| "significant_bits bit64 = 64"
| "significant_bits generic = 0"

text \<open>
  \<open>callForSignificantBitsCase\<close>: the cases of the \<open>switch\<close> fall through to the next one
  when the \<open>RawType\<close> is too narrow for their own.
\<close>

definition significantBitsCase :: "nat \<Rightarrow> nat \<Rightarrow> significant_bits_case" where
  "significantBitsCase rawBits w =
     (if w = 8 \<and> rawBits \<ge> 8 then bit8
      else if w \<in> {8, 16} \<and> rawBits \<ge> 16 then bit16
      else if w \<in> {8, 16, 32} \<and> rawBits \<ge> 32 then bit32
      else if w \<in> {8, 16, 32, 64} \<and> rawBits \<ge> 64 then bit64
      else generic)"

text \<open>\<open>callForFractionalCase\<close>; the exception is a \<open>std::logic_error\<close>.\<close>

fun num_bits :: "num_type \<Rightarrow> nat" where
  "num_bits (IntType n s) = n"
| "num_bits BoolType = 1"

definition fractionalCase :: "nat \<Rightarrow> num_type \<Rightarrow> channel_info \<Rightarrow> fractional_case outcome" where
  "fractionalCase rawBits userType info =
     (case dataType info of
        FIXED_POINT \<Rightarrow>
          (if nFractionalBits info = 0 then Ret integer
           else if nFractionalBits info > 0 then Ret fixedPositive
           else if userType \<noteq> BoolType \<and>
             int (num_bits userType) \<ge> int (width info) - nFractionalBits info \<and>
             type_signed userType = signedFlag info then Ret fixedNegativeFast
           else Ret fixedNegative)
      | IEEE754 \<Rightarrow> if rawBits \<ge> 32 then Ret ieee754_32 else Throw (OtherExn ''NOT IMPLEMENTED'')
      | _ \<Rightarrow> Throw (OtherExn ''NOT IMPLEMENTED''))"

text \<open>
  The mask tables.  The index is the width of the channel; the arrays end at 64 and must
  not be read beyond.
\<close>

definition unusedBitMaskTable :: "nat \<Rightarrow> 64 word" where
  "unusedBitMaskTable i = (if i < 64 then push_bit i (NOT 0) else 0)"

definition usedBitMaskTable :: "nat \<Rightarrow> 64 word" where
  "usedBitMaskTable i = (if i < 64 then NOT (push_bit i (NOT 0)) else NOT 0)"

definition signBitMaskTable :: "nat \<Rightarrow> 64 word" where
  "signBitMaskTable i = (if i > 0 then push_bit (i - 1) 1 else 0)"

text \<open>\<open>PromotedRawType(w)\<close>: the same bits, read with the signedness of the channel.\<close>

definition promoted :: "bool \<Rightarrow> 'r::len word \<Rightarrow> int" where
  "promoted isSigned w = (if isSigned then sint w else uint w)"

definition interpretArbitraryBitInteger ::
  "significant_bits_case \<Rightarrow> bool \<Rightarrow> 'r::len word \<Rightarrow> 'r word \<Rightarrow> 'r word \<Rightarrow> 'r word \<Rightarrow> int" where
  "interpretArbitraryBitInteger sc isSigned signBitMask usedBitMask unusedBitMask rawValue =
     (if sc = generic then
        (if isSigned then
           (if rawValue AND signBitMask = 0 then promoted True (rawValue AND usedBitMask)
            else promoted True (rawValue OR unusedBitMask))
         else promoted False (rawValue AND usedBitMask))
      else
        cast_to (IntType LENGTH('r) isSigned)
          (cast_to (IntType (significant_bits sc) isSigned) (uint rawValue)))"

record 'w converter =
  conv_sc :: significant_bits_case
  conv_fc :: fractional_case
  conv_signed :: bool
  signBitMask :: 'w
  usedBitMask :: 'w
  unusedBitMask :: 'w
  minRawValue :: 'w
  maxRawValue :: 'w
  minPromotedRawValue :: int
  maxPromotedRawValue :: int
  nNegativeFractionalBits :: nat

text \<open>The constructor, with the template parameters of the class as arguments.\<close>

definition makeConverter ::
  "significant_bits_case \<Rightarrow> fractional_case \<Rightarrow> bool \<Rightarrow> channel_info \<Rightarrow> ('r::len word) converter outcome" where
  "makeConverter sc fc isSigned info =
     (let signMask = (if isSigned then ucast (signBitMaskTable (width info)) else 0) :: 'r word;
          usedMask = ucast (usedBitMaskTable (width info)) :: 'r word;
          unusedMask = ucast (unusedBitMaskTable (width info)) :: 'r word;
          fixed = (fc \<in> {fixedPositive, fixedNegative, fixedNegativeFast});
          maxRaw = (if isSigned then usedMask XOR signMask else usedMask);
          minRaw = (if isSigned then signMask else 0)
      in if fixed \<and> width info > 64 then
           Throw (LogicError ''RawConverter cannot deal with the bit width.'')
         else if fixed \<and> nFractionalBits info > int (width info) then
           Throw (LogicError ''RawConverter cannot deal with that many fractional bits (larger than total width).'')
         else if fixed \<and> nFractionalBits info < - int (64 - width info) then
           Throw (LogicError ''RawConverter cannot deal with that many fractional bits (too negative).'')
         else Ret \<lparr>conv_sc = sc, conv_fc = fc, conv_signed = isSigned,
           signBitMask = signMask, usedBitMask = usedMask, unusedBitMask = unusedMask,
           minRawValue = minRaw, maxRawValue = maxRaw,
           minPromotedRawValue = interpretArbitraryBitInteger sc isSigned signMask usedMask unusedMask minRaw,
           maxPromotedRawValue = promoted isSigned maxRaw,
           nNegativeFractionalBits = (if fc \<in> {fixedNegative, fixedNegativeFast}
             then nat (- nFractionalBits info) else 0)\<rparr>)"

text \<open>
  \<open>callWithConverterParamsFixedRaw\<close> for a \<open>RawType\<close> of the width of \<open>'r\<close>: the template
  parameters a channel is converted with, and the converter built from them.
\<close>

definition converterFor :: "num_type \<Rightarrow> channel_info \<Rightarrow> ('r::len word) converter outcome" where
  "converterFor userType info =
     (case fractionalCase LENGTH('r) userType info of
        Ret fc \<Rightarrow>
          (if LENGTH('r) \<ge> (if fc = ieee754_32 then 32 else 8) then
             makeConverter (significantBitsCase LENGTH('r) (width info)) fc
               (if fc = ieee754_32 then True
                else if fc = fixedNegativeFast then type_signed userType
                else signedFlag info) info
           else Throw (LogicError ''Specified raw data width does not fit into the significant bit width.''))
      | Throw x \<Rightarrow> Throw x
      | NoReturn \<Rightarrow> NoReturn
      | Terminated \<Rightarrow> Terminated)"

definition conv_interpret :: "('r::len word) converter \<Rightarrow> 'r word \<Rightarrow> int" where
  "conv_interpret c rawValue = interpretArbitraryBitInteger (conv_sc c) (conv_signed c)
     (signBitMask c) (usedBitMask c) (unusedBitMask c) rawValue"

text \<open>
  \<open>toCooked\<close> for an integral user type.  \<open>None\<close>: the case computes with floating point.
\<close>

definition toCooked :: "num_type \<Rightarrow> ('r::len word) converter \<Rightarrow> 'r word \<Rightarrow> int option" where
  "toCooked userType c rawValue =
     (case conv_fc c of
        integer \<Rightarrow>
          Some (convert userType (IntType LENGTH('r) (conv_signed c)) (conv_interpret c rawValue))
      | fixedNegative \<Rightarrow>
          (let intermediateUnsigned = push_bit (nNegativeFractionalBits c)
                 (word_of_int (conv_interpret c rawValue) :: 64 word)
           in Some (convert userType (IntType 64 (conv_signed c))
                (promoted (conv_signed c) intermediateUnsigned)))
      | fixedNegativeFast \<Rightarrow>
          (let value = cast_to userType (conv_interpret c rawValue);
               intermediateUnsigned = take_bit (num_bits userType)
                 (push_bit (nNegativeFractionalBits c) (take_bit (num_bits userType) value))
           in Some (cast_to userType intermediateUnsigned))
      | _ \<Rightarrow> None)"

text \<open>\<open>toRaw\<close> for an integral user type and a channel without fractional bits.\<close>

definition toRaw :: "num_type \<Rightarrow> ('r::len word) converter \<Rightarrow> int \<Rightarrow> 'r word option" where
  "toRaw userType c cookedValue =
     (if conv_fc c = integer then
        (let promotedRawValue = convert (IntType LENGTH('r) (conv_signed c)) userType cookedValue
         in if promotedRawValue < minPromotedRawValue c then Some (minRawValue c)
            else if promotedRawValue > maxPromotedRawValue c then Some (maxRawValue c)
            else Some (word_of_int promotedRawValue AND usedBitMask c))
      else None)"

section \<open>Properties of the converter\<close>

text \<open>The number a raw word of the given width stands for.\<close>

definition interpreted :: "nat \<Rightarrow> bool \<Rightarrow> 'r::len word \<Rightarrow> int" where
  "interpreted w isSigned rawValue =
     (if isSigned then signed_take_bit (w - 1) (uint rawValue) else take_bit w (uint rawValue))"

lemma used_mask: "n \<le> 64 \<Longrightarrow> usedBitMaskTable n = mask n"
  by (auto simp: usedBitMaskTable_def intro!: bit_word_eqI) (auto simp: bit_simps)

lemma unused_mask: "n \<le> 64 \<Longrightarrow> unusedBitMaskTable n = NOT (mask n)"
  by (auto simp: unusedBitMaskTable_def intro!: bit_word_eqI) (auto simp: bit_simps)

lemma used_mask_cast:
  "n \<le> 64 \<Longrightarrow> LENGTH('r) \<le> 64 \<Longrightarrow> (ucast (usedBitMaskTable n) :: 'r::len word) = mask n"
  by (intro bit_word_eqI) (auto simp: used_mask bit_simps)

lemma unused_mask_cast:
  "n \<le> 64 \<Longrightarrow> LENGTH('r) \<le> 64 \<Longrightarrow> (ucast (unusedBitMaskTable n) :: 'r::len word) = NOT (mask n)"
  by (intro bit_word_eqI) (auto simp: unused_mask bit_simps)

lemma sign_mask_cast:
  "n \<le> 64 \<Longrightarrow> LENGTH('r) \<le> 64 \<Longrightarrow> (ucast (signBitMaskTable n) :: 'r::len word) =
     (if n = 0 then 0 else push_bit (n - 1) 1)"
  by (intro bit_word_eqI) (auto simp: signBitMaskTable_def bit_simps)

lemma and_sign_mask_zero:
  "(w AND push_bit k 1 = (0 :: 'r::len word)) = (\<not> bit w k)"
  by (simp only: bit_iff_and_push_bit_not_eq_0 not_not)

lemma interpret_generic_unsigned:
  "promoted False (w AND mask n) = take_bit n (uint w)"
  by (auto simp: promoted_def bit_eq_iff bit_simps dest: bit_imp_le_length)

lemma interpret_generic_signed:
  fixes w :: "'r::len word"
  assumes "0 < n" "n \<le> LENGTH('r)"
  shows "(if w AND push_bit (n - 1) 1 = 0 then promoted True (w AND mask n)
    else promoted True (w OR NOT (mask n))) = signed_take_bit (n - 1) (uint w)"
proof (cases "bit w (n - 1)")
  case True
  have "bit (sint (w OR NOT (mask n))) k = bit (signed_take_bit (n - 1) (uint w)) k" for k
    using True assms by (auto simp: bit_simps bit_sint_iff min_def le_less not_less_eq)
  then have "sint (w OR NOT (mask n)) = signed_take_bit (n - 1) (uint w)" by (rule bit_eqI)
  with True show ?thesis by (simp only: and_sign_mask_zero promoted_def) simp
next
  case False
  have "bit (sint (w AND mask n)) k = bit (signed_take_bit (n - 1) (uint w)) k" for k
    using False assms by (auto simp: bit_simps bit_sint_iff min_def le_less not_less_eq)
  then have "sint (w AND mask n) = signed_take_bit (n - 1) (uint w)" by (rule bit_eqI)
  with False show ?thesis by (simp only: and_sign_mask_zero promoted_def) simp
qed

definition raw_width :: "nat \<Rightarrow> bool" where
  "raw_width n = (n \<in> {8, 16, 32, 64})"

text \<open>The range of numbers a channel can hold.\<close>

definition channel_min :: "nat \<Rightarrow> bool \<Rightarrow> int" where
  "channel_min w s = (if s then - (2 ^ (w - 1)) else 0)"

definition channel_max :: "nat \<Rightarrow> bool \<Rightarrow> int" where
  "channel_max w s = (if s then 2 ^ (w - 1) - 1 else 2 ^ w - 1)"

lemma interpreted_range:
  "channel_min w s \<le> interpreted w s raw \<and> interpreted w s raw \<le> channel_max w s"
  using signed_take_bit_int_less_exp[of "w - 1" "uint raw"] take_bit_int_less_exp[of w "uint raw"]
  by (auto simp: interpreted_def channel_min_def channel_max_def signed_take_bit_int_greater_eq_minus_exp)

lemma channel_range_mono:
  assumes "0 < w" "w \<le> n"
  shows "channel_min n s \<le> channel_min w s \<and> channel_max w s \<le> channel_max n s"
proof -
  have "(2 :: int) ^ (w - 1) \<le> 2 ^ (n - 1)" "(2 :: int) ^ w \<le> 2 ^ n"
    using assms by (simp_all add: power_increasing)
  then show ?thesis
    by (cases s) (simp_all only: channel_min_def channel_max_def if_True if_False neg_le_iff_le
        diff_right_mono simp_thms order_refl)
qed

lemma in_raw_type: "in_type (IntType n s) v = (channel_min n s \<le> v \<and> v \<le> channel_max n s)"
  by (auto simp: in_type_def channel_min_def channel_max_def)

text \<open>The optimised branches agree with the masks.\<close>

lemma interpret_correct:
  fixes raw :: "'r::len word"
  assumes r: "raw_width LENGTH('r)" and w: "0 < w" "w \<le> LENGTH('r)"
    and sc: "sc = generic \<or> significant_bits sc = w"
  shows "interpretArbitraryBitInteger sc s (if s then push_bit (w - 1) 1 else 0) (mask w) (NOT (mask w)) raw
    = interpreted w s raw"
proof (cases "sc = generic")
  case True
  then show ?thesis
    using interpret_generic_signed[OF w, of raw] interpret_generic_unsigned[of raw w]
    by (simp add: interpretArbitraryBitInteger_def interpreted_def)
next
  case False
  then have b: "significant_bits sc = w" using sc by simp
  have "in_type (IntType LENGTH('r) s) (interpreted w s raw)"
    using interpreted_range[of w s raw] channel_range_mono[OF w, of s] by (auto simp: in_raw_type)
  then have "cast_to (IntType LENGTH('r) s) (interpreted w s raw) = interpreted w s raw"
    using r by (intro cast_in_type) (auto simp: raw_width_def)
  then show ?thesis
    using False b by (simp add: interpretArbitraryBitInteger_def interpreted_def)
qed

lemma significantBitsCase_width:
  "significantBitsCase rawBits w = generic \<or> significant_bits (significantBitsCase rawBits w) = w"
  if "raw_width rawBits" "w \<le> rawBits"
  using that by (auto simp: significantBitsCase_def raw_width_def)

text \<open>What a converter built for a channel holds.\<close>

lemma makeConverter_fields:
  fixes c :: "'r::len word converter"
  assumes c: "makeConverter sc fc s info = Ret c" and r: "raw_width LENGTH('r)"
    and w: "0 < width info" "width info \<le> LENGTH('r)"
    and sc: "sc = generic \<or> significant_bits sc = width info"
  shows "conv_fc c = fc" "conv_signed c = s" "usedBitMask c = mask (width info)"
    "conv_interpret c raw = interpreted (width info) s raw"
    "minPromotedRawValue c = interpreted (width info) s (minRawValue c)"
    "maxPromotedRawValue c = promoted s (maxRawValue c)"
    "minRawValue c = (if s then push_bit (width info - 1) 1 else 0)"
    "maxRawValue c = (if s then mask (width info) XOR push_bit (width info - 1) 1 else mask (width info))"
    "nNegativeFractionalBits c = (if fc \<in> {fixedNegative, fixedNegativeFast} then nat (- nFractionalBits info) else 0)"
    "fc \<in> {fixedNegative, fixedNegativeFast} \<Longrightarrow> - int (64 - width info) \<le> nFractionalBits info"
proof -
  have le: "width info \<le> 64" "LENGTH('r) \<le> 64" using r w by (auto simp: raw_width_def)
  note masks = used_mask_cast[OF le] unused_mask_cast[OF le] sign_mask_cast[OF le]
  note defs = c[unfolded makeConverter_def Let_def, symmetric] masks w
  note i = interpret_correct[OF r w sc, of s]
  show "conv_fc c = fc" "conv_signed c = s" "usedBitMask c = mask (width info)"
    "maxPromotedRawValue c = promoted s (maxRawValue c)"
    "minRawValue c = (if s then push_bit (width info - 1) 1 else 0)"
    "maxRawValue c = (if s then mask (width info) XOR push_bit (width info - 1) 1 else mask (width info))"
    "nNegativeFractionalBits c = (if fc \<in> {fixedNegative, fixedNegativeFast} then nat (- nFractionalBits info) else 0)"
    "fc \<in> {fixedNegative, fixedNegativeFast} \<Longrightarrow> - int (64 - width info) \<le> nFractionalBits info"
    using c masks w by (auto simp: makeConverter_def Let_def split: if_splits)
  have f: "conv_sc c = sc" "conv_signed c = s" "signBitMask c = (if s then push_bit (width info - 1) 1 else 0)"
    "usedBitMask c = mask (width info)" "unusedBitMask c = NOT (mask (width info))"
    using c masks w by (auto simp: makeConverter_def Let_def split: if_splits)
  show "conv_interpret c raw = interpreted (width info) s raw"
    unfolding conv_interpret_def f by (rule i)
  have "minPromotedRawValue c = interpretArbitraryBitInteger sc s
      (if s then push_bit (width info - 1) 1 else 0) (mask (width info)) (NOT (mask (width info))) (minRawValue c)"
    using c masks w by (auto simp: makeConverter_def Let_def split: if_splits)
  then show "minPromotedRawValue c = interpreted (width info) s (minRawValue c)"
    by (simp only: i)
qed

text \<open>What the dispatch selects for a fixed point channel.\<close>

lemma converterFor_fixed:
  fixes c :: "'r::len word converter"
  assumes "converterFor userType info = Ret c" "dataType info = FIXED_POINT"
    and r: "raw_width LENGTH('r)"
  obtains fc where "fractionalCase LENGTH('r) userType info = Ret fc" "fc \<noteq> ieee754_32"
    "makeConverter (significantBitsCase LENGTH('r) (width info)) fc (signedFlag info) info = Ret c"
    "fc = integer \<longleftrightarrow> nFractionalBits info = 0"
    "fc \<in> {fixedNegative, fixedNegativeFast} \<longleftrightarrow> nFractionalBits info < 0"
    "fc = fixedNegativeFast \<Longrightarrow> userType \<noteq> BoolType \<and> type_signed userType = signedFlag info \<and>
      int (width info) - nFractionalBits info \<le> int (num_bits userType)"
  using assms by (auto simp: converterFor_def fractionalCase_def raw_width_def split: if_splits)

text \<open>
  C9: reading a channel without fractional bits gives the number its bits stand for,
  sign-extended from the width of the channel, clamped to the range of the user type;
  the branches optimised for 8, 16, 32 and 64 significant bits and the one with the
  masks agree on this.
\<close>

theorem toCooked_integer:
  fixes c :: "'r::len word converter"
  assumes c: "converterFor userType info = Ret c" and t: "dataType info = FIXED_POINT"
    and n: "nFractionalBits info = 0" and r: "raw_width LENGTH('r)"
    and w: "0 < width info" "width info \<le> LENGTH('r)" and u: "type_ok userType"
  shows "toCooked userType c raw = Some (clamp_to userType (interpreted (width info) (signedFlag info) raw))"
proof -
  obtain fc where fc: "fc = integer"
    and mk: "makeConverter (significantBitsCase LENGTH('r) (width info)) fc (signedFlag info) info = Ret c"
    using converterFor_fixed[OF c t r] n by metis
  note f = makeConverter_fields[OF mk r w significantBitsCase_width[OF r w(2)]]
  have "in_type (IntType LENGTH('r) (signedFlag info)) (interpreted (width info) (signedFlag info) raw)"
    using interpreted_range[of "width info" "signedFlag info" raw] channel_range_mono[OF w, of "signedFlag info"]
    by (auto simp: in_raw_type)
  then show ?thesis
    using f r u by (simp add: toCooked_def fc convert_clamps raw_width_def)
qed

theorem toCooked_integer_witness:
  "toCooked (IntType 16 True)
     (case converterFor (IntType 16 True)
        \<lparr>bitOffset = 0, dataType = FIXED_POINT, width = 18, nFractionalBits = 0, signedFlag = True\<rparr>
      of Ret c \<Rightarrow> c) (0x2FFFF :: 32 word) = Some (- 32768)"
proof -
  let ?i = "\<lparr>bitOffset = 0, dataType = FIXED_POINT, width = 18, nFractionalBits = 0, signedFlag = True\<rparr>"
  obtain c :: "32 word converter" where c: "converterFor (IntType 16 True) ?i = Ret c"
    by (simp add: converterFor_def fractionalCase_def makeConverter_def Let_def)
  have "toCooked (IntType 16 True) c 0x2FFFF =
      Some (clamp_to (IntType 16 True) (interpreted (width ?i) (signedFlag ?i) (0x2FFFF :: 32 word)))"
    by (rule toCooked_integer[OF c]) (simp_all add: raw_width_def)
  also have "interpreted (width ?i) (signedFlag ?i) (0x2FFFF :: 32 word) = - 65537"
    by (simp add: interpreted_def)
  finally show ?thesis using c by simp
qed

text \<open>The limits a converter clamps to are those of its channel.\<close>

lemma interpreted_min:
  assumes "raw_width LENGTH('r)" "0 < w" "w \<le> LENGTH('r)"
  shows "interpreted w s (if s then push_bit (w - 1) 1 else 0 :: 'r::len word) = channel_min w s"
proof (cases s)
  case True
  have "uint (push_bit (w - 1) 1 :: 'r word) = push_bit (w - 1) 1"
    using assms by (intro bit_eqI) (auto simp: bit_simps)
  then have "uint (push_bit (w - 1) 1 :: 'r word) = 2 ^ (w - 1)"
    by (simp add: push_bit_eq_mult)
  moreover have "signed_take_bit (w - 1) (2 ^ (w - 1) :: int) = - (2 ^ (w - 1))"
    by (simp add: signed_take_bit_def bit_exp_iff take_bit_eq_mod not_eq_complement mask_eq_exp_minus_1)
  ultimately show ?thesis using True by (simp add: interpreted_def channel_min_def)
next
  case False
  then show ?thesis by (simp add: interpreted_def channel_min_def)
qed

lemma mask_xor_sign:
  assumes "0 < w"
  shows "mask w XOR push_bit (w - 1) 1 = (mask (w - 1) :: 'r::len word)"
  using assms by (intro bit_word_eqI) (auto simp: bit_simps)

lemma interpreted_limits:
  fixes c :: "'r::len word converter"
  assumes mk: "makeConverter sc fc s info = Ret c" and r: "raw_width LENGTH('r)"
    and w: "0 < width info" "width info \<le> LENGTH('r)"
    and sc: "sc = generic \<or> significant_bits sc = width info"
  shows "minPromotedRawValue c = channel_min (width info) s"
    "maxPromotedRawValue c = channel_max (width info) s"
    "interpreted (width info) s (minRawValue c) = channel_min (width info) s"
    "interpreted (width info) s (maxRawValue c) = channel_max (width info) s"
proof -
  note f = makeConverter_fields[OF mk r w sc]
  show "minPromotedRawValue c = channel_min (width info) s"
    "interpreted (width info) s (minRawValue c) = channel_min (width info) s"
    by (simp_all only: f(5,7) interpreted_min[OF r w])
  have "maxRawValue c = mask (if s then width info - 1 else width info)"
    by (simp only: f(8) mask_xor_sign[OF w(1)] if_distrib[of mask])
  then have m: "uint (maxRawValue c) = channel_max (width info) s"
    using w by (simp only: uint_mask_eq) (auto simp: channel_max_def mask_eq_exp_minus_1 min_def)
  have pw: "(2 :: int) ^ (width info - 1) \<le> 2 ^ (LENGTH('r) - 1)" using w by (simp add: power_increasing)
  have lo: "0 \<le> channel_max (width info) s" by (simp add: channel_max_def)
  have "sint (maxRawValue c) = channel_max (width info) s" if s
  proof -
    have "sint (maxRawValue c) = signed_take_bit (LENGTH('r) - 1) (channel_max (width info) s)"
      by (simp only: sint_uint m One_nat_def)
    also have "\<dots> = channel_max (width info) s"
    proof (rule signed_take_bit_int_eq_self)
      have "channel_max (width info) s = 2 ^ (width info - 1) - 1" using that by (simp add: channel_max_def)
      then show "channel_max (width info) s < 2 ^ (LENGTH('r) - 1)" using pw by linarith
      have "(0 :: int) \<le> 2 ^ (LENGTH('r) - 1)" by simp
      then show "- (2 ^ (LENGTH('r) - 1)) \<le> channel_max (width info) s" using lo by linarith
    qed
    finally show ?thesis .
  qed
  then show "maxPromotedRawValue c = channel_max (width info) s"
    using f(6) m by (simp add: promoted_def)
  show "interpreted (width info) s (maxRawValue c) = channel_max (width info) s"
  proof (cases s)
    case True
    then have "signed_take_bit (width info - 1) (channel_max (width info) s) = channel_max (width info) s"
      by (intro signed_take_bit_int_eq_self) (auto simp: channel_max_def)
    then show ?thesis using True by (simp add: interpreted_def m)
  next
    case False
    then have "take_bit (width info) (channel_max (width info) s) = channel_max (width info) s"
      by (intro take_bit_int_eq_self) (auto simp: channel_max_def)
    then show ?thesis using False by (simp add: interpreted_def m)
  qed
qed

lemma interpreted_and_mask: "interpreted w s (raw AND mask w) = interpreted w s raw" if "0 < w"
proof -
  have "uint (raw AND mask w) = take_bit w (uint raw)"
    using interpret_generic_unsigned[of raw w] by (simp add: promoted_def)
  moreover have "w - 1 < w" using that by simp
  ultimately show ?thesis by (simp add: interpreted_def signed_take_bit_take_bit del: One_nat_def)
qed

lemma interpreted_word_of_int:
  assumes "0 < w" "w \<le> LENGTH('r)" "channel_min w s \<le> v" "v \<le> channel_max w s"
  shows "interpreted w s (word_of_int v :: 'r::len word) = v"
proof -
  have "uint (word_of_int v :: 'r word) = take_bit LENGTH('r) v" by (simp add: unsigned_of_int)
  then show ?thesis
    using assms by (auto simp: interpreted_def channel_min_def channel_max_def signed_take_bit_take_bit
        signed_take_bit_int_eq_self take_bit_int_eq_self min_def)
qed

text \<open>
  C10: writing to a channel without fractional bits stores a word whose bits stand for the
  value clamped to the range of the channel, with no bit set beyond its width.
\<close>

theorem toRaw_integer:
  fixes c :: "'r::len word converter"
  assumes c: "converterFor userType info = Ret c" and t: "dataType info = FIXED_POINT"
    and n: "nFractionalBits info = 0" and r: "raw_width LENGTH('r)"
    and w: "0 < width info" "width info \<le> LENGTH('r)"
    and u: "type_ok userType" and v: "in_type userType v"
  shows "\<exists>raw. toRaw userType c v = Some raw \<and>
    interpreted (width info) (signedFlag info) raw =
      max (channel_min (width info) (signedFlag info)) (min (channel_max (width info) (signedFlag info)) v) \<and>
    raw AND mask (width info) = raw"
proof -
  let ?w = "width info" and ?s = "signedFlag info"
  obtain fc where fc: "fc = integer"
    and mk: "makeConverter (significantBitsCase LENGTH('r) ?w) fc ?s info = Ret c"
    using converterFor_fixed[OF c t r] n by metis
  note sc = significantBitsCase_width[OF r w(2)]
  note f = makeConverter_fields[OF mk r w sc] and lim = interpreted_limits[OF mk r w sc]
  define q where "q = convert (IntType LENGTH('r) ?s) userType v"
  define lo where "lo = channel_min ?w ?s"
  define hi where "hi = channel_max ?w ?s"
  have q: "q = max (channel_min LENGTH('r) ?s) (min (channel_max LENGTH('r) ?s) v)"
    using r u v unfolding q_def
    by (subst convert_clamps) (auto simp: raw_width_def channel_min_def channel_max_def)
  have le: "channel_min LENGTH('r) ?s \<le> lo" "hi \<le> channel_max LENGTH('r) ?s"
    unfolding lo_def hi_def using channel_range_mono[OF w] by auto
  have ord: "lo \<le> hi"
    by (auto simp: lo_def hi_def channel_min_def channel_max_def intro: order.trans[of _ 0])
  have run: "toRaw userType c v = Some (if q < lo then minRawValue c
      else if q > hi then maxRawValue c else word_of_int q AND mask ?w)"
    using f(1,2,3) lim(1,2) fc unfolding toRaw_def q_def lo_def hi_def by simp
  have limits: "minRawValue c AND mask ?w = minRawValue c" "maxRawValue c AND mask ?w = maxRawValue c"
    using w by (auto simp: f(7,8) intro!: bit_word_eqI) (auto simp: bit_simps)
  consider (low) "q < lo" "v < lo" | (high) "hi < q" "\<not> q < lo" "hi < v"
    | (fits) "lo \<le> q" "q \<le> hi" "max lo (min hi v) = q"
    using q le ord by linarith
  then show ?thesis
  proof cases
    case low
    then show ?thesis
      using run lim(3) limits(1) ord unfolding lo_def hi_def by auto
  next
    case high
    then show ?thesis
      using run lim(4) limits(2) ord unfolding lo_def hi_def by auto
  next
    case fits
    have "interpreted ?w ?s (word_of_int q :: 'r word) = q"
      using fits unfolding lo_def hi_def by (intro interpreted_word_of_int w) auto
    then have "interpreted ?w ?s (word_of_int q AND mask ?w :: 'r word) = q"
      using w by (simp only: interpreted_and_mask)
    moreover have "toRaw userType c v = Some (word_of_int q AND mask ?w)"
      using run fits by simp
    moreover have "(word_of_int q AND mask ?w :: 'r word) AND mask ?w = word_of_int q AND mask ?w"
      by (simp add: and.assoc)
    ultimately show ?thesis using fits unfolding lo_def hi_def by auto
  qed
qed

theorem toRaw_integer_witness:
  "\<exists>c raw. (converterFor (IntType 32 True)
        \<lparr>bitOffset = 0, dataType = FIXED_POINT, width = 12, nFractionalBits = 0, signedFlag = True\<rparr>
        :: 16 word converter outcome) = Ret c \<and>
     toRaw (IntType 32 True) c 5000 = Some raw \<and> interpreted 12 True raw = 2047"
proof -
  let ?i = "\<lparr>bitOffset = 0, dataType = FIXED_POINT, width = 12, nFractionalBits = 0, signedFlag = True\<rparr>"
  obtain c :: "16 word converter" where c: "converterFor (IntType 32 True) ?i = Ret c"
    by (simp add: converterFor_def fractionalCase_def makeConverter_def Let_def)
  have "\<exists>raw. toRaw (IntType 32 True) c 5000 = Some raw \<and>
    interpreted (width ?i) (signedFlag ?i) raw =
      max (channel_min (width ?i) (signedFlag ?i)) (min (channel_max (width ?i) (signedFlag ?i)) 5000) \<and>
    raw AND mask (width ?i) = raw"
    by (rule toRaw_integer[OF c]) (simp_all add: raw_width_def in_type_def)
  then show ?thesis using c by (auto simp: channel_min_def channel_max_def)
qed

lemma raw_from_interpreted:
  fixes x y :: "'r::len word"
  assumes "0 < w" "w \<le> LENGTH('r)" "x AND mask w = x" "y AND mask w = y"
    and "interpreted w s x = interpreted w s y"
  shows "x = y"
proof -
  have "take_bit w (uint x) = take_bit w (uint y)"
  proof (cases s)
    case True
    then have "take_bit w (signed_take_bit (w - 1) (uint x)) = take_bit w (signed_take_bit (w - 1) (uint y))"
      using assms by (simp add: interpreted_def)
    then show ?thesis using assms(1) by (simp add: take_bit_signed_take_bit)
  next
    case False
    then show ?thesis using assms by (simp add: interpreted_def)
  qed
  then have "uint (x AND mask w) = uint (y AND mask w)"
    using interpret_generic_unsigned[of x w] interpret_generic_unsigned[of y w] by (simp add: promoted_def)
  then show ?thesis using assms by (metis word_uint_eqI)
qed

text \<open>
  C11: writing back the value read from a channel without fractional bits restores the bits
  of the channel, and reading back a written value gives the value, whenever the user
  type can hold what the channel holds and the channel the value.
\<close>

theorem conversion_round_trip:
  fixes c :: "'r::len word converter"
  assumes c: "converterFor userType info = Ret c" and t: "dataType info = FIXED_POINT"
    and n: "nFractionalBits info = 0" and r: "raw_width LENGTH('r)"
    and w: "0 < width info" "width info \<le> LENGTH('r)" and u: "type_ok userType"
    and fits: "type_lowest userType \<le> channel_min (width info) (signedFlag info)"
      "channel_max (width info) (signedFlag info) \<le> type_max userType" "userType \<noteq> BoolType"
  shows "Option.bind (toCooked userType c raw) (toRaw userType c) = Some (raw AND mask (width info)) \<and>
    (channel_min (width info) (signedFlag info) \<le> v \<and> v \<le> channel_max (width info) (signedFlag info) \<longrightarrow>
      Option.bind (toRaw userType c v) (toCooked userType c) = Some v)"
proof -
  let ?w = "width info" and ?s = "signedFlag info"
  have in_user: "in_type userType x" if "channel_min ?w ?s \<le> x" "x \<le> channel_max ?w ?s" for x
    using that fits by (auto simp: in_type_def)
  let ?v = "interpreted ?w ?s raw"
  have range: "channel_min ?w ?s \<le> ?v" "?v \<le> channel_max ?w ?s" using interpreted_range by auto
  obtain raw' where raw': "toRaw userType c ?v = Some raw'" "interpreted ?w ?s raw' = ?v"
      "raw' AND mask ?w = raw'"
    using toRaw_integer[OF c t n r w u in_user[OF range]] range by auto
  have "raw' = raw AND mask ?w"
    by (rule raw_from_interpreted[OF w raw'(3), where s = ?s])
      (simp_all add: and.assoc raw'(2) interpreted_and_mask w)
  then have restored: "Option.bind (toCooked userType c raw) (toRaw userType c) = Some (raw AND mask ?w)"
    using toCooked_integer[OF c t n r w u, of raw] clamp_id[OF in_user[OF range]] raw'(1) by simp
  have "Option.bind (toRaw userType c v) (toCooked userType c) = Some v"
    if v: "channel_min ?w ?s \<le> v" "v \<le> channel_max ?w ?s"
  proof -
    obtain rawv where "toRaw userType c v = Some rawv" "interpreted ?w ?s rawv = v"
      using toRaw_integer[OF c t n r w u in_user[OF v]] v by auto
    then show ?thesis
      using toCooked_integer[OF c t n r w u, of rawv] clamp_id[OF in_user[OF v]] by simp
  qed
  with restored show ?thesis by blast
qed

theorem conversion_round_trip_witness:
  "\<exists>c. (converterFor (IntType 32 True)
        \<lparr>bitOffset = 0, dataType = FIXED_POINT, width = 12, nFractionalBits = 0, signedFlag = True\<rparr>
        :: 16 word converter outcome) = Ret c \<and>
     Option.bind (toCooked (IntType 32 True) c 0xFABC) (toRaw (IntType 32 True) c) = Some (0xFABC AND mask 12) \<and>
     Option.bind (toRaw (IntType 32 True) c (- 7)) (toCooked (IntType 32 True) c) = Some (- 7)"
proof -
  let ?i = "\<lparr>bitOffset = 0, dataType = FIXED_POINT, width = 12, nFractionalBits = 0, signedFlag = True\<rparr>"
  obtain c :: "16 word converter" where c: "converterFor (IntType 32 True) ?i = Ret c"
    by (simp add: converterFor_def fractionalCase_def makeConverter_def Let_def)
  have "Option.bind (toCooked (IntType 32 True) c 0xFABC) (toRaw (IntType 32 True) c) = Some (0xFABC AND mask (width ?i)) \<and>
    (channel_min (width ?i) (signedFlag ?i) \<le> (- 7) \<and> (- 7) \<le> channel_max (width ?i) (signedFlag ?i) \<longrightarrow>
      Option.bind (toRaw (IntType 32 True) c (- 7)) (toCooked (IntType 32 True) c) = Some (- 7))"
    by (rule conversion_round_trip[OF c]) (simp_all add: raw_width_def channel_min_def channel_max_def)
  then show ?thesis using c by (auto simp: channel_min_def channel_max_def)
qed

lemma scaled_in_type:
  assumes "0 < w" "w + n \<le> b" "channel_min w s \<le> v \<and> v \<le> channel_max w s"
  shows "in_type (IntType b s) (v * 2 ^ n)"
proof -
  have p: "(2 :: int) ^ (w - 1) * 2 ^ n \<le> 2 ^ (b - 1)" "(2 :: int) ^ w * 2 ^ n \<le> 2 ^ b"
    using assms by (simp_all add: power_increasing flip: power_add)
  have pos: "(0 :: int) < 2 ^ n" by simp
  show ?thesis
  proof (cases s)
    case True
    then have "- (2 ^ (w - 1)) \<le> v" "v + 1 \<le> 2 ^ (w - 1)"
      using assms(3) by (auto simp: channel_min_def channel_max_def)
    then have "- (2 ^ (w - 1)) * 2 ^ n \<le> v * 2 ^ n" "(v + 1) * 2 ^ n \<le> 2 ^ (w - 1) * 2 ^ n"
      using mult_right_mono[of "- (2 ^ (w - 1))" v "2 ^ n"] mult_right_mono[of "v + 1" "2 ^ (w - 1)" "2 ^ n"]
      by simp_all
    then have "- (2 ^ (b - 1)) \<le> v * 2 ^ n" "v * 2 ^ n < 2 ^ (b - 1)"
      using p pos by (simp_all only: minus_mult_left [symmetric] distrib_right mult_1_left, (linarith+)?)
    with True show ?thesis by (simp add: in_type_def)
  next
    case False
    then have "0 \<le> v" "v + 1 \<le> 2 ^ w"
      using assms(3) by (auto simp: channel_min_def channel_max_def)
    then have "0 \<le> v * 2 ^ n" "(v + 1) * 2 ^ n \<le> 2 ^ w * 2 ^ n"
      using mult_right_mono[of "v + 1" "2 ^ w" "2 ^ n"] by simp_all
    then have "0 \<le> v * 2 ^ n" "v * 2 ^ n < 2 ^ b"
      using p pos by (simp_all only: distrib_right mult_1_left, (linarith+)?)
    with False show ?thesis by (simp add: in_type_def)
  qed
qed

lemma promoted_of_int:
  assumes "in_type (IntType LENGTH('r) s) x"
  shows "promoted s (word_of_int x :: 'r::len word) = x"
proof (cases s)
  case True
  then have "signed_take_bit (LENGTH('r) - 1) x = x"
    using assms by (intro signed_take_bit_int_eq_self) (auto simp: in_type_def)
  then show ?thesis using True by (simp add: promoted_def signed_of_int)
next
  case False
  then show ?thesis
    using assms by (simp add: promoted_def in_type_def unsigned_of_int take_bit_int_eq_self)
qed

text \<open>
  A channel with negative fractional bits reads as the number of its bits multiplied by
  the power of two, clamped to the range of the user type; the shortcut that shifts
  within the user type computes the same as the path through 64 bits.
\<close>

theorem toCooked_negative_fractional:
  fixes c :: "'r::len word converter"
  assumes c: "converterFor userType info = Ret c" and t: "dataType info = FIXED_POINT"
    and n: "nFractionalBits info < 0" and r: "raw_width LENGTH('r)"
    and w: "0 < width info" "width info \<le> LENGTH('r)" and u: "type_ok userType"
  shows "toCooked userType c raw = Some (clamp_to userType
    (interpreted (width info) (signedFlag info) raw * 2 ^ nat (- nFractionalBits info)))"
proof -
  let ?w = "width info" and ?s = "signedFlag info" and ?n = "nat (- nFractionalBits info)"
  obtain fc where fc: "fc = fixedNegative \<or> fc = fixedNegativeFast"
    and mk: "makeConverter (significantBitsCase LENGTH('r) ?w) fc ?s info = Ret c"
    and fast: "fc = fixedNegativeFast \<Longrightarrow> userType \<noteq> BoolType \<and> type_signed userType = ?s \<and>
      int ?w - nFractionalBits info \<le> int (num_bits userType)"
    using converterFor_fixed[OF c t r] n by (metis insertCI insertE singletonD)
  note sc = significantBitsCase_width[OF r w(2)]
  note f = makeConverter_fields[OF mk r w sc]
  let ?v = "interpreted ?w ?s raw"
  let ?x = "?v * 2 ^ ?n"
  have fits: "in_type (IntType b ?s) ?x" if "?w + ?n \<le> b" for b
    using interpreted_range[of ?w ?s raw] scaled_in_type[OF w(1) that] by blast
  have w64: "?w + ?n \<le> 64" using f(10) fc n w r by (auto simp: raw_width_def)
  show ?thesis
  proof (cases "fc = fixedNegative")
    case True
    have "promoted ?s (push_bit ?n (word_of_int ?v :: 64 word)) = ?x"
    proof -
      have "push_bit ?n (word_of_int ?v :: 64 word) = word_of_int ?x"
        by (simp add: push_bit_eq_mult wi_hom_mult [symmetric] of_int_power)
      then show ?thesis
        using promoted_of_int[where 'r = 64, of ?s ?x] fits[OF w64] by (simp del: of_int_mult)
    qed
    then show ?thesis
      using f True u fits[OF w64] by (simp add: toCooked_def convert_clamps)
  next
    case False
    then obtain b where b: "userType = IntType b ?s" "?w + ?n \<le> b"
      using fc fast n by (cases userType) auto
    have v_in: "in_type (IntType b ?s) ?v"
      using interpreted_range[of ?w ?s raw] channel_range_mono[OF w(1), of b ?s] b by (auto simp: in_raw_type)
    have "cast_to userType (take_bit b (push_bit ?n (take_bit b ?v))) = ?x"
    proof -
      have "take_bit b (push_bit ?n (take_bit b ?v)) = take_bit b ?x"
        by (simp add: push_bit_eq_mult take_bit_eq_mod mod_mult_left_eq)
      moreover have "cast_to userType (take_bit b ?x) = cast_to userType ?x"
        using b u by (auto simp: signed_take_bit_take_bit)
      ultimately show ?thesis using cast_in_type[OF u] fits[OF b(2)] b(1) by simp
    qed
    then show ?thesis
      using f False fc u b cast_in_type[OF u] v_in fits[OF b(2)] clamp_id[of userType ?x]
      by (simp add: toCooked_def del: cast_to.simps clamp_to.simps)
  qed
qed

theorem toCooked_negative_fractional_witness:
  "\<exists>c. (converterFor (IntType 32 True)
        \<lparr>bitOffset = 0, dataType = FIXED_POINT, width = 16, nFractionalBits = - 4, signedFlag = True\<rparr>
        :: 16 word converter outcome) = Ret c \<and> conv_fc c = fixedNegativeFast \<and>
     toCooked (IntType 32 True) c 0xFFFE = Some (- 32)"
proof -
  let ?i = "\<lparr>bitOffset = 0, dataType = FIXED_POINT, width = 16, nFractionalBits = - 4, signedFlag = True\<rparr>"
  obtain c :: "16 word converter" where c: "converterFor (IntType 32 True) ?i = Ret c" "conv_fc c = fixedNegativeFast"
    by (simp add: converterFor_def fractionalCase_def makeConverter_def Let_def)
  have "toCooked (IntType 32 True) c 0xFFFE = Some (clamp_to (IntType 32 True)
    (interpreted (width ?i) (signedFlag ?i) (0xFFFE :: 16 word) * 2 ^ nat (- nFractionalBits ?i)))"
    by (rule toCooked_negative_fractional[OF c(1)]) (simp_all add: raw_width_def)
  moreover have "interpreted 16 True (0xFFFE :: 16 word) = - 2" by (simp add: interpreted_def)
  ultimately show ?thesis using c by simp
qed

end
