(* ===== verification/NumericAddressed.thy ===== *)
theory NumericAddressed
  imports TransferStages RawConversion
begin

text \<open>
  \<^verbatim>\<open>include/NumericAddressedLowLevelTransferElement.h\<close>,
  \<^verbatim>\<open>src/NumericAddressedBackendRegisterAccessor.cc\<close> and the register description of
  \<^verbatim>\<open>include/NumericAddressedRegisterCatalogue.h\<close>: accessors to registers at an address,
  on top of low-level elements that do the aligned transfers and can be shared.

  Accessor \<open>k\<close> is the transfer element \<open>2 * k\<close>, the low-level element \<open>i\<close> is the
  transfer element \<open>2 * i + 1\<close>.
\<close>

section \<open>Register information\<close>

datatype register_access = READ_ONLY | WRITE_ONLY | READ_WRITE | INTERRUPT

record na_info =
  reg_bar :: nat
  reg_address :: nat
  nElements :: nat
  elementPitchBits :: nat
  registerAccess :: register_access
  channels :: "channel_info list"

definition info_isReadable :: "na_info \<Rightarrow> bool" where
  "info_isReadable r = (registerAccess r = READ_ONLY \<or> registerAccess r = READ_WRITE \<or> registerAccess r = INTERRUPT)"

definition info_isWriteable :: "na_info \<Rightarrow> bool" where
  "info_isWriteable r = (registerAccess r = WRITE_ONLY \<or> registerAccess r = READ_WRITE)"

section \<open>State\<close>

record lle =
  lle_dev :: nat
  lle_bar :: nat
  startAddress :: nat
  numberOfBytes :: nat
  isShared :: bool
  isUnaligned :: bool
  ownsLock :: bool
  rawDataBuffer :: "8 word list"

text \<open>
  The accessor: \<open>rawSize\<close> is \<open>sizeof(RawType)\<close>, 0 for \<open>Void\<close>; \<open>cook\<close> and \<open>uncook\<close> are
  the converter between the bytes of a raw value and the user type, \<open>memcpy\<close> for a raw
  accessor.  \<open>isRaw\<close>: a raw accessor whose user type is not a string.
\<close>

record 'u nacc =
  acc_dev :: nat
  acc_info :: na_info
  rawAccessor :: nat
  isRaw :: bool
  rawSize :: nat
  cook :: "8 word list \<Rightarrow> 'u"
  uncook :: "'u \<Rightarrow> 8 word list"
  buffer :: "'u list"

record ('h, 'u) na_heap =
  hw :: "nat \<Rightarrow> 'h"
  unalignedAccess :: "nat \<Rightarrow> bool"
  raws :: "nat \<Rightarrow> lle"
  accs :: "nat \<Rightarrow> 'u nacc"
  na_lastGenerated :: "64 word"

text \<open>The virtual functions of \<open>NumericAddressedBackend\<close>; \<open>unalignedAccess\<close> is its mutex.\<close>

record 'h na_device =
  dev_isOpen :: "'h \<Rightarrow> bool"
  dev_alignment :: "nat \<Rightarrow> nat"
  dev_canMergeRequests :: bool
  dev_barIndexValid :: "nat \<Rightarrow> bool"
  dev_read :: "nat \<Rightarrow> nat \<Rightarrow> nat \<Rightarrow> 8 word list \<Rightarrow> 'h \<Rightarrow> unit outcome \<times> 8 word list"
  dev_write :: "nat \<Rightarrow> nat \<Rightarrow> 8 word list \<Rightarrow> 'h \<Rightarrow> unit outcome \<times> 'h"
  dev_setException :: "string \<Rightarrow> 'h \<Rightarrow> 'h"

section \<open>The low-level element\<close>

definition resize :: "nat \<Rightarrow> 8 word list \<Rightarrow> 8 word list" where
  "resize n xs = take n xs @ replicate (n - length xs) 0"

definition setAddress :: "nat \<Rightarrow> nat \<Rightarrow> nat \<Rightarrow> lle \<Rightarrow> lle" where
  "setAddress alignment start bytes l =
     (let start_padding = start mod alignment;
          unaligned = (start_padding > 0);
          start = start - start_padding;
          bytes = bytes + start_padding;
          end_padding = alignment - bytes mod alignment;
          (unaligned, bytes) = (if end_padding \<noteq> alignment then (True, bytes + end_padding) else (unaligned, bytes))
      in l\<lparr>startAddress := start, numberOfBytes := bytes, isUnaligned := unaligned,
           rawDataBuffer := resize bytes (rawDataBuffer l)\<rparr>)"

definition new_lle :: "'h na_device \<Rightarrow> nat \<Rightarrow> nat \<Rightarrow> nat \<Rightarrow> nat \<Rightarrow> lle outcome" where
  "new_lle D dev bar start bytes =
     (if \<not> dev_barIndexValid D bar then Throw (LogicError ''Invalid bar number'')
      else Ret (setAddress (dev_alignment D bar) start bytes
        \<lparr>lle_dev = dev, lle_bar = bar, startAddress = 0, numberOfBytes = 0, isShared = False,
         isUnaligned = False, ownsLock = False, rawDataBuffer = []\<rparr>))"

definition changeAddress :: "nat \<Rightarrow> nat \<Rightarrow> nat \<Rightarrow> lle \<Rightarrow> lle" where
  "changeAddress alignment start bytes l = (setAddress alignment start bytes l)\<lparr>isShared := True\<rparr>"

definition isMergeable :: "'h na_device \<Rightarrow> lle \<Rightarrow> lle \<Rightarrow> bool" where
  "isMergeable D l rhs =
     (if \<not> dev_canMergeRequests D then False
      else if lle_dev l \<noteq> lle_dev rhs then False
      else if lle_bar l \<noteq> lle_bar rhs then False
      else if startAddress l + numberOfBytes l < startAddress rhs then False
      else if startAddress l > startAddress rhs + numberOfBytes rhs then False
      else True)"

definition upd_raw :: "nat \<Rightarrow> (lle \<Rightarrow> lle) \<Rightarrow> ('h, 'u) na_heap world \<Rightarrow> ('h, 'u) na_heap world" where
  "upd_raw i f w = w\<lparr>heap := (heap w)\<lparr>raws := (raws (heap w))(i := f (raws (heap w) i))\<rparr>\<rparr>"

definition upd_acc :: "nat \<Rightarrow> ('u nacc \<Rightarrow> 'u nacc) \<Rightarrow> ('h, 'u) na_heap world \<Rightarrow> ('h, 'u) na_heap world" where
  "upd_acc k f w = w\<lparr>heap := (heap w)\<lparr>accs := (accs (heap w))(k := f (accs (heap w) k))\<rparr>\<rparr>"

definition upd_hw :: "nat \<Rightarrow> 'h \<Rightarrow> ('h, 'u) na_heap world \<Rightarrow> ('h, 'u) na_heap world" where
  "upd_hw dev h w = w\<lparr>heap := (heap w)\<lparr>hw := (hw (heap w))(dev := h)\<rparr>\<rparr>"

definition set_mutex :: "nat \<Rightarrow> bool \<Rightarrow> ('h, 'u) na_heap world \<Rightarrow> ('h, 'u) na_heap world" where
  "set_mutex dev b w = w\<lparr>heap := (heap w)\<lparr>unalignedAccess := (unalignedAccess (heap w))(dev := b)\<rparr>\<rparr>"

definition read_into_buffer :: "'h na_device \<Rightarrow> nat \<Rightarrow> (('h, 'u) na_heap, unit) action" where
  "read_into_buffer D i w =
     (let l = raws (heap w) i;
          (r, buf) = dev_read D (lle_bar l) (startAddress l) (numberOfBytes l) (rawDataBuffer l)
            (hw (heap w) (lle_dev l))
      in (r, upd_raw i (\<lambda>l. l\<lparr>rawDataBuffer := buf\<rparr>) w))"

definition ll_doReadTransferSynchronously :: "'h na_device \<Rightarrow> nat \<Rightarrow> (('h, 'u) na_heap, unit) action" where
  "ll_doReadTransferSynchronously D e w = read_into_buffer D (e div 2) w"

definition ll_doWriteTransfer :: "'h na_device \<Rightarrow> nat \<Rightarrow> version_number \<Rightarrow> (('h, 'u) na_heap, bool) action" where
  "ll_doWriteTransfer D e v w =
     (let l = raws (heap w) (e div 2);
          (r, h) = dev_write D (lle_bar l) (startAddress l) (rawDataBuffer l) (hw (heap w) (lle_dev l))
      in andThen (r, upd_hw (lle_dev l) h w) (\<lambda>_ w. (Ret False, w)))"

definition ll_doPostRead :: "nat \<Rightarrow> transfer_type \<Rightarrow> bool \<Rightarrow> (('h, 'u) na_heap, unit) action" where
  "ll_doPostRead e ty hasNewData w =
     (if hasNewData then
        (let (v, g) = newVersion (na_lastGenerated (heap w))
         in (Ret (), upd e (\<lambda>t. t\<lparr>versionNumber := v\<rparr>) (w\<lparr>heap := (heap w)\<lparr>na_lastGenerated := g\<rparr>\<rparr>)))
      else (Ret (), w))"

text \<open>
  \<open>_unalignedAccess.lock()\<close> on a \<open>unique_lock\<close> that owns the mutex already throws a
  \<open>system_error\<close>; when another owner holds the mutex it waits for it to be unlocked.
\<close>

definition ll_doPreWrite ::
  "'h na_device \<Rightarrow> nat \<Rightarrow> transfer_type \<Rightarrow> version_number \<Rightarrow> (('h, 'u) na_heap, unit) action" where
  "ll_doPreWrite D e ty v w =
     (let i = e div 2; l = raws (heap w) i
      in if isUnaligned l then
           (if ownsLock l then (Throw (OtherExn ''system_error''), w)
            else if unalignedAccess (heap w) (lle_dev l) then (NoReturn, w)
            else read_into_buffer D i (upd_raw i (\<lambda>l. l\<lparr>ownsLock := True\<rparr>) (set_mutex (lle_dev l) True w)))
         else (Ret (), w))"

definition ll_doPostWrite :: "nat \<Rightarrow> transfer_type \<Rightarrow> version_number \<Rightarrow> (('h, 'u) na_heap, unit) action" where
  "ll_doPostWrite e ty v w =
     (let i = e div 2; l = raws (heap w) i
      in if ownsLock l then (Ret (), set_mutex (lle_dev l) False (upd_raw i (\<lambda>l. l\<lparr>ownsLock := False\<rparr>) w))
         else (Ret (), w))"

definition na_setException :: "'h na_device \<Rightarrow> nat \<Rightarrow> string \<Rightarrow> (('h, 'u) na_heap, unit) action" where
  "na_setException D b m w = (Ret (), upd_hw b (dev_setException D m (hw (heap w) b)) w)"

text \<open>
  The class without the functions it does not override: \<open>doPreRead\<close> does nothing,
  \<open>doWriteTransferDestructively\<close> is \<open>doWriteTransfer\<close>; its queue is never used.
\<close>

definition ll_impl :: "'h na_device \<Rightarrow> (('h, 'u) na_heap) te_impl" where
  "ll_impl D = \<lparr>doPreRead = (\<lambda>e ty w. (Ret (), w)),
     doReadTransferSynchronously = ll_doReadTransferSynchronously D,
     doPostRead = ll_doPostRead, doPreWrite = ll_doPreWrite D,
     doWriteTransfer = ll_doWriteTransfer D, doWriteTransferDestructively = ll_doWriteTransfer D,
     doPostWrite = ll_doPostWrite,
     queuePopWait = (\<lambda>e w. (NoReturn, w)), queuePop = (\<lambda>e w. (Ret False, w)),
     backendSetException = na_setException D\<rparr>"

section \<open>The accessor\<close>

definition raw_elem :: "nat \<Rightarrow> nat" where
  "raw_elem i = 2 * i + 1"

definition overwrite :: "nat \<Rightarrow> 8 word list \<Rightarrow> 8 word list \<Rightarrow> 8 word list" where
  "overwrite offset bytes buf = take offset buf @ bytes @ drop (offset + length bytes) buf"

text \<open>
  The constructor, from the description \<open>r\<close> of the whole register: the description and the
  low-level element of the accessor.  \<open>rawTypeMatches\<close> is the comparison of the user type
  with the raw type of the register, \<open>conversion\<close> the outcome of making the converter.
  The sizes are a \<open>size_t\<close> and, for \<open>nElements * elementPitchBits\<close>, a \<open>uint32_t\<close>.
\<close>

definition checkRequest :: "na_info \<Rightarrow> nat \<Rightarrow> nat \<Rightarrow> nat outcome" where
  "checkRequest r numberOfWords wordOffsetInRegister =
     (if dataType (hd (channels r)) = VOID_TYPE then
        let n = (if numberOfWords = 0 then 1 else numberOfWords)
        in if n > 1 then Throw (LogicError ''Requested number of words is larger than 1 in VOID register'')
           else if wordOffsetInRegister > 0 then Throw (LogicError ''No offset allowed in VOID register'')
           else Ret n
      else
        let n = (if numberOfWords = 0 then nElements r else numberOfWords)
        in if (n + wordOffsetInRegister) mod 2 ^ 64 > nElements r then
             Throw (LogicError ''Requested number of words exceeds the size of the register'')
           else if wordOffsetInRegister \<ge> nElements r then
             Throw (LogicError ''Requested offset exceeds the size of the register'')
           else Ret n)"

definition new_accessor ::
  "'h na_device \<Rightarrow> nat \<Rightarrow> na_info \<Rightarrow> nat \<Rightarrow> nat \<Rightarrow> access_mode_flags \<Rightarrow> bool \<Rightarrow> bool \<Rightarrow> unit outcome \<Rightarrow>
     (na_info \<times> lle) outcome" where
  "new_accessor D dev r numberOfWords wordOffsetInRegister flags isRawAccessor rawTypeMatches conversion =
     bindO (checkForUnknownFlags flags {raw}) (\<lambda>_.
     if elementPitchBits r mod 8 \<noteq> 0 then Throw (LogicError ''Elements must be byte aligned.'')
     else if length (channels r) > 1 then Throw (LogicError ''2D register'')
     else if bitOffset (hd (channels r)) > 0 then Throw (LogicError ''Registers must be byte aligned.'')
     else bindO (checkRequest r numberOfWords wordOffsetInRegister) (\<lambda>n.
       let info = r\<lparr>reg_address := reg_address r + wordOffsetInRegister * elementPitchBits r div 8,
                    nElements := n mod 2 ^ 32\<rparr>
       in bindO (new_lle D dev (reg_bar info) (reg_address info)
                  (nElements info * elementPitchBits info mod 2 ^ 32 div 8)) (\<lambda>l.
          bindO (if isRawAccessor then Ret () else conversion) (\<lambda>_.
          if has flags raw \<and> \<not> rawTypeMatches then
            Throw (LogicError ''Given UserType does not match the expected type'')
          else Ret (info, l)))))"

text \<open>\<open>_rawAccessor->begin(_registerInfo.address)\<close>, as an offset in the raw buffer.\<close>

definition begin_offset :: "'u nacc \<Rightarrow> lle \<Rightarrow> nat" where
  "begin_offset a l = reg_address (acc_info a) - startAddress l"

definition cooked_values :: "'u nacc \<Rightarrow> lle \<Rightarrow> 'u list" where
  "cooked_values a l = (if rawSize a = 0 then buffer a else map (\<lambda>i. cook a (take (rawSize a)
     (drop (begin_offset a l + i * rawSize a) (rawDataBuffer l)))) [0 ..< length (buffer a)])"

definition raw_bytes :: "'u nacc \<Rightarrow> 8 word list" where
  "raw_bytes a = (if rawSize a = 0 then [] else concat (map (uncook a) (buffer a)))"

definition notOpened :: exn where
  "notOpened = LogicError ''Device not opened.''"

definition acc_doPreRead :: "'h na_device \<Rightarrow> nat \<Rightarrow> transfer_type \<Rightarrow> (('h, 'u) na_heap, unit) action" where
  "acc_doPreRead D e ty w =
     (let a = accs (heap w) (e div 2)
      in if \<not> dev_isOpen D (hw (heap w) (acc_dev a)) then (Throw notOpened, w)
         else if \<not> info_isReadable (acc_info a) then
           (Throw (LogicError ''Reading from a non-readable register is not allowed''), w)
         else preRead (ll_impl D) ty (raw_elem (rawAccessor a)) w)"

definition acc_doReadTransferSynchronously :: "'h na_device \<Rightarrow> nat \<Rightarrow> (('h, 'u) na_heap, unit) action" where
  "acc_doReadTransferSynchronously D e w =
     readTransfer (ll_impl D) (raw_elem (rawAccessor (accs (heap w) (e div 2)))) w"

definition acc_doWriteTransfer :: "'h na_device \<Rightarrow> nat \<Rightarrow> version_number \<Rightarrow> (('h, 'u) na_heap, bool) action" where
  "acc_doWriteTransfer D e v w =
     andThen (writeTransfer (ll_impl D) v (raw_elem (rawAccessor (accs (heap w) (e div 2)))) w)
       (\<lambda>_ w. (Ret False, w))"

text \<open>\<open>_rawAccessor->setActiveException(this->_activeException)\<close>, which clears the argument.\<close>

definition handOver :: "nat \<Rightarrow> nat \<Rightarrow> 'x world \<Rightarrow> 'x world" where
  "handOver e target w =
     (let (left, w) = setActiveException target (activeException (elem w e)) w
      in upd e (\<lambda>t. t\<lparr>activeException := left\<rparr>) w)"

definition acc_doPostRead ::
  "'h na_device \<Rightarrow> nat \<Rightarrow> transfer_type \<Rightarrow> bool \<Rightarrow> (('h, 'u) na_heap, unit) action" where
  "acc_doPostRead D e ty hasNewData w =
     (let k = e div 2; a = accs (heap w) k; i = rawAccessor a
      in if \<not> dev_isOpen D (hw (heap w) (acc_dev a)) then (Ret (), w)
         else andThen (postRead (ll_impl D) ty hasNewData (raw_elem i) (handOver e (raw_elem i) w)) (\<lambda>_ w.
           if \<not> hasNewData then (Ret (), w)
           else
             let w = upd_acc k (\<lambda>a. a\<lparr>buffer := cooked_values a (raws (heap w) i)\<rparr>) w;
                 w = upd e (\<lambda>t. t\<lparr>versionNumber := versionNumber (elem w (raw_elem i))\<rparr>) w;
                 w = upd e (\<lambda>t. t\<lparr>dataValidity := dataValidity (elem w (raw_elem i))\<rparr>) w
             in (Ret (), w)))"

definition acc_doPreWrite ::
  "'h na_device \<Rightarrow> nat \<Rightarrow> transfer_type \<Rightarrow> version_number \<Rightarrow> (('h, 'u) na_heap, unit) action" where
  "acc_doPreWrite D e ty v w =
     (let a = accs (heap w) (e div 2); i = rawAccessor a
      in if \<not> dev_isOpen D (hw (heap w) (acc_dev a)) then (Throw notOpened, w)
         else andThen (preWrite (ll_impl D) ty v (raw_elem i) w) (\<lambda>_ w.
           if \<not> isRaw a \<and> \<not> info_isWriteable (acc_info a) then
             (Throw (LogicError ''Writing to a non-writeable register is not allowed''), w)
           else
             let w = upd_raw i (\<lambda>l. l\<lparr>rawDataBuffer := overwrite (begin_offset a l) (raw_bytes a) (rawDataBuffer l)\<rparr>) w;
                 w = upd (raw_elem i) (\<lambda>t. t\<lparr>dataValidity := dataValidity (elem w e)\<rparr>) w
             in (Ret (), w)))"

definition acc_doPostWrite ::
  "'h na_device \<Rightarrow> nat \<Rightarrow> transfer_type \<Rightarrow> version_number \<Rightarrow> (('h, 'u) na_heap, unit) action" where
  "acc_doPostWrite D e ty v w =
     (let a = accs (heap w) (e div 2); i = rawAccessor a
      in if \<not> dev_isOpen D (hw (heap w) (acc_dev a)) then (Ret (), w)
         else postWrite (ll_impl D) ty v (raw_elem i) (handOver e (raw_elem i) w))"

text \<open>The virtual functions of all elements: accessors have even numbers.\<close>

definition na_impl :: "'h na_device \<Rightarrow> (('h, 'u) na_heap) te_impl" where
  "na_impl D = \<lparr>
     doPreRead = (\<lambda>e. if even e then acc_doPreRead D e else doPreRead (ll_impl D) e),
     doReadTransferSynchronously = (\<lambda>e. if even e then acc_doReadTransferSynchronously D e
       else doReadTransferSynchronously (ll_impl D) e),
     doPostRead = (\<lambda>e. if even e then acc_doPostRead D e else doPostRead (ll_impl D) e),
     doPreWrite = (\<lambda>e. if even e then acc_doPreWrite D e else doPreWrite (ll_impl D) e),
     doWriteTransfer = (\<lambda>e. if even e then acc_doWriteTransfer D e else doWriteTransfer (ll_impl D) e),
     doWriteTransferDestructively = (\<lambda>e. if even e then acc_doWriteTransfer D e
       else doWriteTransferDestructively (ll_impl D) e),
     doPostWrite = (\<lambda>e. if even e then acc_doPostWrite D e else doPostWrite (ll_impl D) e),
     queuePopWait = (\<lambda>e w. (NoReturn, w)), queuePop = (\<lambda>e w. (Ret False, w)),
     backendSetException = na_setException D\<rparr>"

text \<open>
  \<open>replaceTransferElement(newElement)\<close> of accessor \<open>k\<close> with low-level element \<open>c\<close>:
  the two areas are merged into one that covers both.
\<close>

definition replaceTransferElement ::
  "'h na_device \<Rightarrow> nat \<Rightarrow> nat \<Rightarrow> ('h, 'u) na_heap world \<Rightarrow> ('h, 'u) na_heap world" where
  "replaceTransferElement D k c w =
     (let own = raws (heap w) (rawAccessor (accs (heap w) k)); casted = raws (heap w) c;
          w = (if isMergeable D casted own then
                 (let newStart = min (startAddress casted) (startAddress own);
                      newStop = max (startAddress casted + numberOfBytes casted) (startAddress own + numberOfBytes own);
                      w = upd_raw c (changeAddress (dev_alignment D (lle_bar casted)) newStart (newStop - newStart)) w
                  in upd_acc k (\<lambda>a. a\<lparr>rawAccessor := c\<rparr>) w)
               else w)
      in upd (raw_elem (rawAccessor (accs (heap w) k)))
           (\<lambda>t. t\<lparr>exceptionBackend := exceptionBackend (elem w (2 * k))\<rparr>) w)"

end
