(* ===== verification/NumericContract.thy ===== *)
theory NumericContract
  imports NumericAddressed
begin

text \<open>
  Accessors and low-level elements (\<^verbatim>\<open>NumericAddressed\<close>) obey the interface of the base
  class, so that the theorems on the stages of an operation hold for them: each hook
  leaves the private members of its own element alone, although the hooks of an accessor
  run whole stages of its low-level element.
\<close>

section \<open>The elements obey the contract of the base class\<close>

named_theorems na_defs \<open>definitions of the hooks of the numeric addressed elements\<close>

lemmas world_defs [na_defs] = upd_raw_def upd_acc_def upd_hw_def set_mutex_def

lemmas ll_defs [na_defs] = read_into_buffer_def ll_doReadTransferSynchronously_def ll_doWriteTransfer_def
  ll_doPostRead_def ll_doPreWrite_def ll_doPostWrite_def na_setException_def

lemmas acc_defs [na_defs] = acc_doPreRead_def acc_doReadTransferSynchronously_def acc_doWriteTransfer_def
  acc_doPostRead_def acc_doPreWrite_def acc_doPostWrite_def

lemma untouched_world [simp]:
  "untouched e w (upd_raw i h v') = untouched e w v'"
  "untouched e w (upd_acc k h' v') = untouched e w v'"
  "untouched e w (upd_hw dev x v') = untouched e w v'"
  "untouched e w (set_mutex dev b v') = untouched e w v'"
  "untouched e w (v'\<lparr>heap := y\<rparr>) = untouched e w v'"
  by (simp_all add: untouched_def own_calls_def world_defs)

lemma elem_world [simp]:
  "elem (upd_raw i h v) = elem v" "elem (upd_acc k h' v) = elem v"
  "elem (upd_hw dev x v) = elem v" "elem (set_mutex dev b v) = elem v"
  by (simp_all add: world_defs)

lemma own_calls_world [simp]:
  "own_calls e (upd_raw i h v) = own_calls e v" "own_calls e (upd_acc k h' v) = own_calls e v"
  "own_calls e (upd_hw dev x v) = own_calls e v" "own_calls e (set_mutex dev b v) = own_calls e v"
  "own_calls e (v\<lparr>heap := y\<rparr>) = own_calls e v"
  by (simp_all add: world_defs own_calls_def)

text \<open>The hooks of a low-level element \<open>f\<close>.\<close>

lemma read_into_buffer_frame [intro]: "read_into_buffer D i w = (r, w') \<Longrightarrow> untouched e w w'"
  by (auto simp: read_into_buffer_def Let_def split: prod.splits)

lemma ll_hooks_frame:
  "doPreRead (ll_impl D) f ty w = (r, w') \<Longrightarrow> untouched e w w'"
  "doReadTransferSynchronously (ll_impl D) f w = (r, w') \<Longrightarrow> untouched e w w'"
  "doPreWrite (ll_impl D) f ty v w = (r, w') \<Longrightarrow> untouched e w w'"
  "doWriteTransfer (ll_impl D) f v w = (rb, w') \<Longrightarrow> untouched e w w'"
  "doWriteTransferDestructively (ll_impl D) f v w = (rb, w') \<Longrightarrow> untouched e w w'"
  "doPostWrite (ll_impl D) f ty v w = (r, w') \<Longrightarrow> untouched e w w'"
  "backendSetException (ll_impl D) b m w = (r, w') \<Longrightarrow> r = Ret () \<and> untouched e w w'"
  by (auto simp: ll_impl_def ll_defs Let_def split: prod.splits if_splits elim!: andThen_cases)

lemma ll_postRead_frame:
  "doPostRead (ll_impl D) f ty u w = (r, w') \<Longrightarrow> f \<noteq> e \<Longrightarrow> untouched e w w'"
  "doPostRead (ll_impl D) f ty u w = (r, w') \<Longrightarrow> shielded f w w' \<and> same_exception f w w'"
  by (auto simp: ll_impl_def ll_doPostRead_def newVersion_def stage_defs Let_def split: if_splits prod.splits)

text \<open>The stages of a low-level element, run by an accessor \<open>e\<close>.\<close>

lemma rethrowActive_frame: "rethrowActive f w = (r, w') \<Longrightarrow> w' = w"
  by (simp add: rethrowActive_def split: option.splits)

lemma ll_stages_frame:
  assumes "f \<noteq> e"
  shows "preRead (ll_impl D) ty f w = (r, w') \<Longrightarrow> untouched e w w'"
    and "postRead (ll_impl D) ty u f w = (r, w') \<Longrightarrow> untouched e w w'"
    and "preWrite (ll_impl D) ty v f w = (r, w') \<Longrightarrow> untouched e w w'"
    and "postWrite (ll_impl D) ty v f w = (r, w') \<Longrightarrow> untouched e w w'"
    and "writeTransfer (ll_impl D) v f w = (rb, w') \<Longrightarrow> untouched e w w'"
proof -
  show "preRead (ll_impl D) ty f w = (r, w') \<Longrightarrow> untouched e w w'"
    using assms by (auto simp: preRead_def Let_def split: if_splits dest!: ll_hooks_frame(1)[where e = e])
  show "postRead (ll_impl D) ty u f w = (r, w') \<Longrightarrow> untouched e w w'"
    using assms by (auto simp: postRead_def Let_def split: if_splits elim!: andThen_cases
        dest!: ll_postRead_frame(1)[where e = e] rethrowActive_frame)
  show "preWrite (ll_impl D) ty v f w = (r, w') \<Longrightarrow> untouched e w w'"
    using assms by (auto simp: preWrite_def Let_def split: if_splits dest!: ll_hooks_frame(3)[where e = e])
  show "postWrite (ll_impl D) ty v f w = (r, w') \<Longrightarrow> untouched e w w'"
    using assms by (auto simp: postWrite_def Let_def split: if_splits elim!: andThen_cases
        dest!: ll_hooks_frame(6)[where e = e] rethrowActive_frame)
  show "writeTransfer (ll_impl D) v f w = (rb, w') \<Longrightarrow> untouched e w w'"
    using assms by (auto simp: writeTransfer_def dest!: ll_hooks_frame(4)[where e = e])
qed

lemma ll_readTransfer_frame:
  assumes "f \<noteq> e" and "readTransfer (ll_impl D) f w = (r, w')"
  shows "untouched e w w'"
proof -
  have [simp]: "retryOnDiscard (\<lambda>w. (NoReturn, w)) v = Some (NoReturn :: unit outcome, v)" for v :: "('h, 'u) na_heap world"
    by (subst retryOnDiscard.simps) simp
  show ?thesis
    using assms by (auto simp: readTransfer_def readTransferAsyncWaitingImpl_def ll_impl_def orNoReturn_def Let_def
        split: if_splits dest!: ll_hooks_frame(2)[where e = e, unfolded ll_impl_def te_impl.simps])
qed

lemma raw_elem_parity: "even e \<Longrightarrow> raw_elem i \<noteq> e"
  by (auto simp: raw_elem_def)

lemma handOver_frame:
  assumes "f \<noteq> e"
  shows "shielded e w (handOver e f w)" "same_version e w (handOver e f w)"
  using assms by (auto simp: handOver_def setActiveException_def stage_defs split: option.splits)

lemma acc_hooks_frame:
  assumes e: "even e"
  shows "acc_doPreRead D e ty w = (r, w') \<Longrightarrow> untouched e w w'"
    and "acc_doReadTransferSynchronously D e w = (r, w') \<Longrightarrow> untouched e w w'"
    and "acc_doPostRead D e ty u w = (r, w') \<Longrightarrow> shielded e w w'"
    and "acc_doPreWrite D e ty v w = (r, w') \<Longrightarrow> untouched e w w'"
    and "acc_doWriteTransfer D e v w = (rb, w') \<Longrightarrow> untouched e w w'"
    and "acc_doPostWrite D e ty v w = (r, w') \<Longrightarrow> shielded e w w' \<and> same_version e w w'"
proof -
  note ne = raw_elem_parity[OF e]
  note frames = ll_stages_frame[OF ne] ll_readTransfer_frame[OF ne] handOver_frame[OF ne]
  show "acc_doPreRead D e ty w = (r, w') \<Longrightarrow> untouched e w w'"
    by (auto simp: acc_doPreRead_def Let_def split: if_splits intro: frames)
  show "acc_doReadTransferSynchronously D e w = (r, w') \<Longrightarrow> untouched e w w'"
    by (auto simp: acc_doReadTransferSynchronously_def intro: frames)
  show "acc_doWriteTransfer D e v w = (rb, w') \<Longrightarrow> untouched e w w'"
    by (auto simp: acc_doWriteTransfer_def elim!: andThen_cases intro: frames)
  show "acc_doPreWrite D e ty v w = (r, w') \<Longrightarrow> untouched e w w'"
    using ne ne[symmetric] by (auto simp: acc_doPreWrite_def Let_def split: if_splits elim!: andThen_cases dest!: frames(3))
  have h: "shielded e w (handOver e (raw_elem i) w)" "same_version e w (handOver e (raw_elem i) w)" for i
    by (rule handOver_frame[OF ne])+
  show "shielded e w w'" if r: "acc_doPostRead D e ty u w = (r, w')"
  proof -
    have "w' = w \<or> (\<exists>v. untouched e (handOver e (raw_elem (rawAccessor (accs (heap w) (e div 2)))) w) v \<and> shielded e v w')"
      using r ne frames(2)
      by (fastforce simp: acc_doPostRead_def Let_def stage_defs split: if_splits elim!: andThen_cases)
    then show ?thesis using h by (metis untouched_shielded shielded_trans shielded_refl)
  qed
  show "shielded e w w' \<and> same_version e w w'" if r: "acc_doPostWrite D e ty v w = (r, w')"
  proof -
    have "w' = w \<or> untouched e (handOver e (raw_elem (rawAccessor (accs (heap w) (e div 2)))) w) w'"
      using r by (auto simp: acc_doPostWrite_def Let_def split: if_splits dest!: frames(4))
    then show ?thesis using h by (auto dest!: untouched_shielded dest: shielded_trans simp: same_version_def)
  qed
qed

lemma na_hooks:
  "doPreRead (na_impl D) e = (if even e then acc_doPreRead D e else doPreRead (ll_impl D) e)"
  "doReadTransferSynchronously (na_impl D) e = (if even e then acc_doReadTransferSynchronously D e
     else doReadTransferSynchronously (ll_impl D) e)"
  "doPostRead (na_impl D) e = (if even e then acc_doPostRead D e else doPostRead (ll_impl D) e)"
  "doPreWrite (na_impl D) e = (if even e then acc_doPreWrite D e else doPreWrite (ll_impl D) e)"
  "doWriteTransfer (na_impl D) e = (if even e then acc_doWriteTransfer D e else doWriteTransfer (ll_impl D) e)"
  "doWriteTransferDestructively (na_impl D) e = (if even e then acc_doWriteTransfer D e
     else doWriteTransferDestructively (ll_impl D) e)"
  "doPostWrite (na_impl D) e = (if even e then acc_doPostWrite D e else doPostWrite (ll_impl D) e)"
  "queuePopWait (na_impl D) e = (\<lambda>w. (NoReturn, w))" "queuePop (na_impl D) e = (\<lambda>w. (Ret False, w))"
  "backendSetException (na_impl D) = backendSetException (ll_impl D)"
  by (simp_all add: na_impl_def ll_impl_def)

interpretation na_elements: te_contract "na_impl D" e
  for D :: "'h na_device" and e
  by unfold_locales
    (cases "even e"; auto simp: na_hooks intro: untouched_frames
      dest: acc_hooks_frame ll_hooks_frame[where e = e] ll_postRead_frame(2))+

end
