(* ===== verification/NumericAreas.thy ===== *)
theory NumericAreas
  imports NumericAddressed
begin

text \<open>
  The areas of the low-level elements: alignment, padding and merging.
\<close>

section \<open>Address areas\<close>

text \<open>An area of \<open>n\<close> bytes from \<open>start\<close> that can be transferred as it is.\<close>

definition aligned_area :: "nat \<Rightarrow> lle \<Rightarrow> bool" where
  "aligned_area alignment l = (alignment dvd startAddress l \<and> alignment dvd numberOfBytes l)"

lemma length_resize [simp]: "length (resize n xs) = n"
  by (simp add: resize_def)

lemma setAddress_fields:
  assumes "0 < alignment"
  shows "startAddress (setAddress alignment start n l) = start - start mod alignment"
    and "startAddress (setAddress alignment start n l) + numberOfBytes (setAddress alignment start n l) =
      (start + n + alignment - 1) div alignment * alignment"
    and "isUnaligned (setAddress alignment start n l) = (\<not> (alignment dvd start \<and> alignment dvd (start + n)))"
    and "rawDataBuffer (setAddress alignment start n l) = resize (numberOfBytes (setAddress alignment start n l)) (rawDataBuffer l)"
    and "lle_dev (setAddress alignment start n l) = lle_dev l" "lle_bar (setAddress alignment start n l) = lle_bar l"
      "ownsLock (setAddress alignment start n l) = ownsLock l"
proof -
  let ?p = "start mod alignment"
  have pad: "(n + ?p) mod alignment = (start + n) mod alignment"
    by (metis add.commute mod_add_left_eq)
  have le: "?p \<le> start" by simp
  show "startAddress (setAddress alignment start n l) = start - start mod alignment"
    by (simp add: setAddress_def Let_def)
  have lt: "(start + n) mod alignment < alignment" using assms by simp
  have eq: "alignment - (n + ?p) mod alignment = alignment \<longleftrightarrow> alignment dvd start + n"
    unfolding pad using assms lt by (simp add: dvd_eq_mod_eq_0) linarith
  show "isUnaligned (setAddress alignment start n l) = (\<not> (alignment dvd start \<and> alignment dvd (start + n)))"
    using eq by (auto simp: setAddress_def Let_def dvd_eq_mod_eq_0)
  let ?q = "(start + n) div alignment" and ?r = "(start + n) mod alignment"
  have qr: "start + n = ?q * alignment + ?r" by simp
  have up: "(start + n + alignment - 1) div alignment * alignment =
      (if ?r = 0 then start + n else start + n + (alignment - ?r))"
  proof (cases "?r = 0")
    case True
    have "(start + n + alignment - 1) div alignment = ?q + (alignment - 1) div alignment"
      using True qr assms by (metis Nat.add_diff_assoc One_nat_def Suc_leI add.commute add.right_neutral div_mult_self3 less_numeral_extra(3))
    then show ?thesis using True qr assms by simp
  next
    case False
    then have "0 < start + n" by (metis gr0I mod_0)
    moreover have "(?q + 1) * alignment = ?q * alignment + alignment" by simp
    ultimately have "start + n + alignment - 1 = (?q + 1) * alignment + (?r - 1)"
      using qr False by linarith
    moreover have "?r - 1 < alignment" using lt by simp
    ultimately have "(start + n + alignment - 1) div alignment = ?q + 1"
      using assms by (metis div_less div_mult_self3 add.right_neutral less_numeral_extra(3))
    moreover have "(?q + 1) * alignment = ?q * alignment + alignment" by simp
    ultimately have "(start + n + alignment - 1) div alignment * alignment = ?q * alignment + alignment" by metis
    also have "\<dots> = start + n + (alignment - ?r)" using qr lt by linarith
    finally show ?thesis using False by simp
  qed
  show "startAddress (setAddress alignment start n l) + numberOfBytes (setAddress alignment start n l) =
      (start + n + alignment - 1) div alignment * alignment"
    unfolding up using eq pad le by (auto simp: setAddress_def Let_def dvd_eq_mod_eq_0)
qed (simp_all add: setAddress_def Let_def)

lemma setAddress_area:
  assumes "0 < alignment"
  shows "aligned_area alignment (setAddress alignment start n l)"
    and "startAddress (setAddress alignment start n l) \<le> start"
    and "start < startAddress (setAddress alignment start n l) + alignment"
    and "start + n \<le> startAddress (setAddress alignment start n l) + numberOfBytes (setAddress alignment start n l)"
    and "startAddress (setAddress alignment start n l) + numberOfBytes (setAddress alignment start n l) < start + n + alignment"
proof -
  note f = setAddress_fields[OF assms]
  let ?l = "setAddress alignment start n l"
  have s: "alignment dvd startAddress ?l" unfolding f(1) by (simp add: dvd_minus_mod)
  have e: "alignment dvd startAddress ?l + numberOfBytes ?l" unfolding f(2) by simp
  from s e show "aligned_area alignment ?l" by (simp add: aligned_area_def dvd_add_right_iff)
  show "startAddress ?l \<le> start" unfolding f(1) by simp
  show "start < startAddress ?l + alignment" unfolding f(1) using assms
    by (metis add.commute add_less_cancel_left le_add_diff_inverse2 mod_less_divisor mod_less_eq_dividend)
  let ?m = "start + n + alignment - 1"
  have "?m = ?m div alignment * alignment + ?m mod alignment" by simp
  moreover have "?m mod alignment < alignment" using assms by simp
  ultimately show "start + n \<le> startAddress ?l + numberOfBytes ?l"
    and "startAddress ?l + numberOfBytes ?l < start + n + alignment" unfolding f(2) using assms by linarith+
qed

text \<open>Two areas that have been aligned are merged to an area that needs no padding.\<close>

lemma merged_area:
  assumes "0 < alignment" "aligned_area alignment l" "aligned_area alignment l'"
    and "s = min (startAddress l) (startAddress l')"
    and "e = max (startAddress l + numberOfBytes l) (startAddress l' + numberOfBytes l')"
  shows "startAddress (changeAddress alignment s (e - s) m) = s"
    and "startAddress (changeAddress alignment s (e - s) m) + numberOfBytes (changeAddress alignment s (e - s) m) = e"
    and "\<not> isUnaligned (changeAddress alignment s (e - s) m)"
proof -
  have d: "alignment dvd s" "alignment dvd e" "s \<le> e"
    using assms(2-5) by (auto simp: aligned_area_def min_def max_def)
  note f = setAddress_fields[OF assms(1), of s "e - s" m]
  have up: "(e + alignment - 1) div alignment * alignment = e"
    using d(2) assms(1) by (auto simp: dvd_def) (metis Nat.add_diff_assoc One_nat_def Suc_leI add.right_neutral
        diff_Suc_less div_less div_mult_self3 less_numeral_extra(3) mult.commute)
  show "startAddress (changeAddress alignment s (e - s) m) = s"
    using f(1) d by (simp add: changeAddress_def)
  show "startAddress (changeAddress alignment s (e - s) m) + numberOfBytes (changeAddress alignment s (e - s) m) = e"
    using f(2) d up by (simp add: changeAddress_def)
  show "\<not> isUnaligned (changeAddress alignment s (e - s) m)"
    using f(3) d by (simp add: changeAddress_def)
qed

end
