(* ===== verification/DeviceBackends.thy ===== *)
theory DeviceBackends
  imports VersionNumbers
begin

text \<open>
  \<^verbatim>\<open>include/DeviceBackendImpl.h\<close>, \<^verbatim>\<open>src/DeviceBackendImpl.cc\<close> and the exception
  side of \<^verbatim>\<open>include/async/DomainsContainer.h\<close>, \<^verbatim>\<open>src/async/DomainsContainer.cc\<close>:
  the exception state of a backend and the distribution of exceptions to its
  asynchronous domains by a separate thread.

  The queue between the two (\<^verbatim>\<open>cppext::future_queue<std::string>\<close>, not part of the
  repository) is a value of type \<open>'q\<close> with the operations \<open>push\<close> and \<open>pop\<close> as
  parameters.  A domain is a value of type \<open>'d\<close> with its \<open>sendException\<close> as parameter,
  \<open>'m\<close> holds the data members of the concrete backend.
\<close>

section \<open>State\<close>

record ('d, 'q) domains_container =
  isSendingExceptions :: bool
  startExceptionDistribution :: 'q
  threadIsRunning :: bool
  domains :: "(nat \<times> 'd option) list"

text \<open>
  \<open>domains\<close> is the \<open>std::map\<close> from key to weak pointer in key order; \<open>None\<close> is a weak
  pointer whose domain has been deleted.
\<close>

record ('d, 'q, 'm) device_backend =
  opened :: bool
  hasActiveException :: bool
  versionOnOpen :: version_number
  activeExceptionMessage :: string
  asyncDomainsContainer :: "('d, 'q) domains_container"
  backend_data :: 'm

definition initial_backend :: "'q \<Rightarrow> 'm \<Rightarrow> ('d, 'q, 'm) device_backend" where
  "initial_backend q m =
     \<lparr>opened = False, hasActiveException = False, versionOnOpen = nullVersion,
      activeExceptionMessage = [],
      asyncDomainsContainer =
        \<lparr>isSendingExceptions = False, startExceptionDistribution = q,
         threadIsRunning = False, domains = []\<rparr>,
      backend_data = m\<rparr>"

section \<open>Operations\<close>

definition sendExceptions ::
  "('q \<Rightarrow> string \<Rightarrow> 'q) \<Rightarrow> string \<Rightarrow> ('d, 'q) domains_container \<Rightarrow>
     unit outcome \<times> ('d, 'q) domains_container" where
  "sendExceptions push exceptionMessage c =
     (if isSendingExceptions c then
        (Throw (LogicError ''DomainsContainer::sendExceptions() called before previous distribution was ready.''), c)
      else if \<not> threadIsRunning c then (Ret (), c)
      else (Ret (), c\<lparr>isSendingExceptions := True,
              startExceptionDistribution := push (startExceptionDistribution c) exceptionMessage\<rparr>))"

text \<open>One round of the endless loop \<open>distributeExceptions\<close>; \<open>None\<close> while it waits.\<close>

definition distributeExceptions_round ::
  "('q \<Rightarrow> (string \<times> 'q) option) \<Rightarrow> (exn \<Rightarrow> 'd \<Rightarrow> 'd) \<Rightarrow> ('d, 'q) domains_container \<Rightarrow>
     ('d, 'q) domains_container option" where
  "distributeExceptions_round pop sendException c =
     (case pop (startExceptionDistribution c) of
        None \<Rightarrow> None
      | Some (exceptionMessage, q) \<Rightarrow>
          Some (c\<lparr>startExceptionDistribution := q,
                  domains := map (\<lambda>(key, domain).
                    (key, map_option (sendException (RuntimeError exceptionMessage)) domain)) (domains c),
                  isSendingExceptions := False\<rparr>))"

text \<open>\<open>subscribe\<close> starts the distributor thread when it creates a domain.\<close>

definition startDistributorThread :: "('d, 'q) domains_container \<Rightarrow> ('d, 'q) domains_container" where
  "startDistributorThread c = c\<lparr>threadIsRunning := True\<rparr>"

text \<open>\<open>_domains[key] = domain\<close> and the look-up of \<open>getDomain\<close>, which creates the entry.\<close>

fun domains_assign :: "nat \<Rightarrow> 'd option \<Rightarrow> (nat \<times> 'd option) list \<Rightarrow> (nat \<times> 'd option) list" where
  "domains_assign key d [] = [(key, d)]"
| "domains_assign key d ((k, e) # rest) =
     (if key < k then (key, d) # (k, e) # rest
      else if key = k then (key, d) # rest
      else (k, e) # domains_assign key d rest)"

definition getDomain ::
  "nat \<Rightarrow> ('d, 'q) domains_container \<Rightarrow> 'd option \<times> ('d, 'q) domains_container" where
  "getDomain key c = (case map_of (domains c) key of
      None \<Rightarrow> (None, c\<lparr>domains := domains_assign key None (domains c)\<rparr>)
    | Some d \<Rightarrow> (d, c))"

text \<open>
  \<open>setException\<close> is \<open>noexcept\<close>: an exception that would leave it terminates the process.
\<close>

definition setException ::
  "('q \<Rightarrow> string \<Rightarrow> 'q) \<Rightarrow> (('d, 'q, 'm) device_backend \<Rightarrow> ('d, 'q, 'm) device_backend) \<Rightarrow>
     string \<Rightarrow> ('d, 'q, 'm) device_backend \<Rightarrow> unit outcome \<times> ('d, 'q, 'm) device_backend" where
  "setException push setExceptionImpl message b =
     (let hadExceptionBefore = hasActiveException b;
          b = b\<lparr>hasActiveException := True\<rparr>
      in if hadExceptionBefore then (Ret (), b)
         else
           let b = b\<lparr>activeExceptionMessage := message\<rparr>;
               b = setExceptionImpl b;
               (r, c) = sendExceptions push message (asyncDomainsContainer b);
               b = b\<lparr>asyncDomainsContainer := c\<rparr>
           in (case r of Ret _ \<Rightarrow> (Ret (), b) | _ \<Rightarrow> (Terminated, b)))"

text \<open>
  \<open>setOpenedAndClearException\<close> waits as long as exceptions are being distributed
  (\<open>None\<close>: it is still in its waiting loop); then it draws a version number.
\<close>

definition setOpenedAndClearException ::
  "64 word \<Rightarrow> ('d, 'q, 'm) device_backend \<Rightarrow> (('d, 'q, 'm) device_backend \<times> 64 word) option" where
  "setOpenedAndClearException lastGenerated b =
     (if isSendingExceptions (asyncDomainsContainer b) then None
      else let (v, g) = newVersion lastGenerated
           in Some (b\<lparr>versionOnOpen := v, opened := True, hasActiveException := False,
                      activeExceptionMessage := ''(exception cleared)''\<rparr>, g))"

definition isFunctional :: "('d, 'q, 'm) device_backend \<Rightarrow> bool" where
  "isFunctional b = (if \<not> opened b then False else if hasActiveException b then False else True)"

definition checkActiveException :: "('d, 'q, 'm) device_backend \<Rightarrow> unit outcome" where
  "checkActiveException b =
     (if hasActiveException b then Throw (RuntimeError (activeExceptionMessage b)) else Ret ())"

definition getActiveExceptionMessage :: "('d, 'q, 'm) device_backend \<Rightarrow> string" where
  "getActiveExceptionMessage b = activeExceptionMessage b"

definition getVersionOnOpen :: "('d, 'q, 'm) device_backend \<Rightarrow> version_number" where
  "getVersionOnOpen b = versionOnOpen b"

section \<open>The operations as atomic steps\<close>

text \<open>
  What the code relies on of the queue: \<open>contents\<close> lists the messages waiting in it, and
  a queue that is not full (its length is 2) takes one more message.
\<close>

definition queue_laws ::
  "('q \<Rightarrow> string \<Rightarrow> 'q) \<Rightarrow> ('q \<Rightarrow> (string \<times> 'q) option) \<Rightarrow> ('q \<Rightarrow> string list) \<Rightarrow> bool" where
  "queue_laws push pop contents =
     ((\<forall>q m. length (contents q) < 2 \<longrightarrow> contents (push q m) = contents q @ [m]) \<and>
      (\<forall>q. contents q = [] \<longrightarrow> pop q = None) \<and>
      (\<forall>q m ms. contents q = m # ms \<longrightarrow> (\<exists>q'. pop q = Some (m, q') \<and> contents q' = ms)))"

text \<open>A backend's \<open>setExceptionImpl\<close> cannot reach the private members of its base class.\<close>

definition impl_respects_base ::
  "(('d, 'q, 'm) device_backend \<Rightarrow> ('d, 'q, 'm) device_backend) \<Rightarrow> bool" where
  "impl_respects_base f = (\<forall>b.
     hasActiveException (f b) = hasActiveException b \<and>
     activeExceptionMessage (f b) = activeExceptionMessage b \<and>
     asyncDomainsContainer (f b) = asyncDomainsContainer b)"

inductive backend_step ::
  "('q \<Rightarrow> string \<Rightarrow> 'q) \<Rightarrow> ('q \<Rightarrow> (string \<times> 'q) option) \<Rightarrow> (exn \<Rightarrow> 'd \<Rightarrow> 'd) \<Rightarrow>
   (('d, 'q, 'm) device_backend \<Rightarrow> ('d, 'q, 'm) device_backend) \<Rightarrow>
   ('d, 'q, 'm) device_backend \<Rightarrow> ('d, 'q, 'm) device_backend \<Rightarrow> bool"
  for push pop sendExc impl where
  SetException: "setException push impl message b = (r, b') \<Longrightarrow> backend_step push pop sendExc impl b b'"
| Open: "setOpenedAndClearException g b = Some (b', g') \<Longrightarrow> backend_step push pop sendExc impl b b'"
| Close: "backend_step push pop sendExc impl b (b\<lparr>opened := False\<rparr>)"
| Distribute: "distributeExceptions_round pop sendExc (asyncDomainsContainer b) = Some c \<Longrightarrow>
    backend_step push pop sendExc impl b (b\<lparr>asyncDomainsContainer := c\<rparr>)"
| Subscribe: "backend_step push pop sendExc impl b
    (b\<lparr>asyncDomainsContainer := (startDistributorThread (asyncDomainsContainer b))
        \<lparr>domains := domains_assign key d (domains (asyncDomainsContainer b))\<rparr>\<rparr>)"

inductive backend_reachable ::
  "('q \<Rightarrow> string \<Rightarrow> 'q) \<Rightarrow> ('q \<Rightarrow> (string \<times> 'q) option) \<Rightarrow> (exn \<Rightarrow> 'd \<Rightarrow> 'd) \<Rightarrow>
   (('d, 'q, 'm) device_backend \<Rightarrow> ('d, 'q, 'm) device_backend) \<Rightarrow> 'q \<Rightarrow>
   ('d, 'q, 'm) device_backend \<Rightarrow> bool"
  for push pop sendExc impl q0 where
  init: "backend_reachable push pop sendExc impl q0 (initial_backend q0 m)"
| step: "backend_reachable push pop sendExc impl q0 b \<Longrightarrow> backend_step push pop sendExc impl b b' \<Longrightarrow>
    backend_reachable push pop sendExc impl q0 b'"

text \<open>
  While a distribution is under way the backend is in the exception state, the thread
  runs and exactly one message waits for it; otherwise the queue is empty.
\<close>

definition container_ok ::
  "('q \<Rightarrow> string list) \<Rightarrow> bool \<Rightarrow> ('d, 'q) domains_container \<Rightarrow> bool" where
  "container_ok contents exceptionState c =
     (if isSendingExceptions c
      then exceptionState \<and> threadIsRunning c \<and> length (contents (startExceptionDistribution c)) = 1
      else contents (startExceptionDistribution c) = [])"

definition backend_ok :: "('q \<Rightarrow> string list) \<Rightarrow> ('d, 'q, 'm) device_backend \<Rightarrow> bool" where
  "backend_ok contents b = container_ok contents (hasActiveException b) (asyncDomainsContainer b)"

lemma queue_laws_pop:
  assumes "queue_laws push pop contents" "contents q = m # ms"
  obtains q' where "pop q = Some (m, q')" "contents q' = ms"
  using assms unfolding queue_laws_def by blast

lemma setException_ok:
  assumes q: "queue_laws push pop contents" and impl: "impl_respects_base impl"
    and ok: "backend_ok contents b"
  shows "fst (setException push impl message b) = Ret ()"
    and "backend_ok contents (snd (setException push impl message b))"
    and "hasActiveException (snd (setException push impl message b))"
  using assms
  by (auto simp: setException_def sendExceptions_def backend_ok_def container_ok_def
      impl_respects_base_def queue_laws_def Let_def split: if_splits)

lemma open_ok:
  "backend_ok contents b \<Longrightarrow> setOpenedAndClearException g b = Some (b', g') \<Longrightarrow> backend_ok contents b'"
  by (auto simp: setOpenedAndClearException_def backend_ok_def container_ok_def split: if_splits)

lemma distribute_ok:
  assumes q: "queue_laws push pop contents" and ok: "container_ok contents x c"
    and d: "distributeExceptions_round pop sendExc c = Some c'"
  shows "container_ok contents x c'" "isSendingExceptions c"
proof -
  obtain m q' where pop: "pop (startExceptionDistribution c) = Some (m, q')"
    using d by (auto simp: distributeExceptions_round_def split: option.splits)
  then have "contents (startExceptionDistribution c) \<noteq> []"
    using q by (auto simp: queue_laws_def)
  then show s: "isSendingExceptions c"
    using ok by (auto simp: container_ok_def split: if_splits)
  then obtain m' where "contents (startExceptionDistribution c) = [m']"
    using ok by (auto simp: container_ok_def length_Suc_conv)
  then have "contents q' = []"
    using q pop by (fastforce simp: queue_laws_def)
  then show "container_ok contents x c'"
    using d pop by (auto simp: distributeExceptions_round_def container_ok_def)
qed

lemma step_ok:
  assumes q: "queue_laws push pop contents" and impl: "impl_respects_base impl"
    and s: "backend_step push pop sendExc impl b b'" and ok: "backend_ok contents b"
  shows "backend_ok contents b'"
  using s
proof (cases rule: backend_step.cases)
  case (SetException message r)
  then show ?thesis using setException_ok(2)[OF q impl ok] by (metis snd_conv)
next
  case (Open g g')
  then show ?thesis using open_ok ok by blast
next
  case Close
  then show ?thesis using ok by (simp add: backend_ok_def)
next
  case (Distribute c)
  then show ?thesis using ok distribute_ok(1)[OF q] by (fastforce simp: backend_ok_def)
next
  case (Subscribe key d)
  then show ?thesis
    using ok by (auto simp: backend_ok_def container_ok_def startDistributorThread_def split: if_splits)
qed

lemma reachable_ok:
  assumes q: "queue_laws push pop contents" and impl: "impl_respects_base impl"
    and q0: "contents q0 = []"
    and r: "backend_reachable push pop sendExc impl q0 b"
  shows "backend_ok contents b"
  using r
proof induction
  case (init m)
  then show ?case using q0 by (simp add: backend_ok_def container_ok_def initial_backend_def)
next
  case (step b b')
  then show ?case using step_ok[OF q impl] by blast
qed

lemma list_queue_laws:
  "queue_laws (\<lambda>q m. if length q < 2 then q @ [m] else q)
     (\<lambda>q. case q of [] \<Rightarrow> None | m # ms \<Rightarrow> Some (m, ms)) (\<lambda>q. q)"
  by (simp add: queue_laws_def)

text \<open>
  C5: as long as the operations of a backend do not overlap, \<open>setException\<close> never
  terminates the process: whatever sequence of openings, closings, exceptions,
  subscriptions and distributions led to the state, it returns and leaves the
  backend in the exception state.
\<close>

theorem setException_never_terminates:
  assumes "queue_laws push pop contents" "impl_respects_base impl" "contents q0 = []"
    and "backend_reachable push pop sendExc impl q0 b"
  shows "fst (setException push impl message b) = Ret () \<and>
    \<not> isFunctional (snd (setException push impl message b))"
  using setException_ok[OF assms(1,2) reachable_ok[OF assms]]
  by (simp add: isFunctional_def)

theorem setException_never_terminates_witness:
  "fst (setException (\<lambda>q m. if length q < 2 then q @ [m] else q) (\<lambda>b. b) ''lost''
       (initial_backend ([] :: string list) () :: (unit, string list, unit) device_backend)) = Ret () \<and>
   \<not> isFunctional (snd (setException (\<lambda>q m. if length q < 2 then q @ [m] else q) (\<lambda>b. b) ''lost''
       (initial_backend ([] :: string list) () :: (unit, string list, unit) device_backend)))"
  by (rule setException_never_terminates[OF list_queue_laws _ _ backend_reachable.init])
    (simp_all add: impl_respects_base_def)

text \<open>What can happen to a backend until it is opened again; the last two change other domains.\<close>

datatype 'd backend_event = Report string | Distribution | Closing | Creation nat 'd | Deletion nat

fun backend_event_step ::
  "('q \<Rightarrow> string \<Rightarrow> 'q) \<Rightarrow> ('q \<Rightarrow> (string \<times> 'q) option) \<Rightarrow> (exn \<Rightarrow> 'd \<Rightarrow> 'd) \<Rightarrow>
   (('d, 'q, 'm) device_backend \<Rightarrow> ('d, 'q, 'm) device_backend) \<Rightarrow>
   'd backend_event \<Rightarrow> ('d, 'q, 'm) device_backend \<Rightarrow> ('d, 'q, 'm) device_backend" where
  "backend_event_step push pop sendExc impl (Report message) b = snd (setException push impl message b)"
| "backend_event_step push pop sendExc impl Distribution b =
     (case distributeExceptions_round pop sendExc (asyncDomainsContainer b) of
        None \<Rightarrow> b | Some c \<Rightarrow> b\<lparr>asyncDomainsContainer := c\<rparr>)"
| "backend_event_step push pop sendExc impl Closing b = b\<lparr>opened := False\<rparr>"
| "backend_event_step push pop sendExc impl (Creation key d) b =
     b\<lparr>asyncDomainsContainer := (startDistributorThread (asyncDomainsContainer b))
        \<lparr>domains := domains_assign key (Some d) (domains (asyncDomainsContainer b))\<rparr>\<rparr>"
| "backend_event_step push pop sendExc impl (Deletion key) b =
     b\<lparr>asyncDomainsContainer := (asyncDomainsContainer b)
        \<lparr>domains := domains_assign key None (domains (asyncDomainsContainer b))\<rparr>\<rparr>"

fun about_domain :: "nat \<Rightarrow> 'd backend_event \<Rightarrow> bool" where
  "about_domain k (Creation key d) = (key = k)"
| "about_domain k (Deletion key) = (key = k)"
| "about_domain k _ = False"

lemma domains_assign_other: "key \<noteq> k \<Longrightarrow> map_of (domains_assign key d ds) k = map_of ds k"
  by (induction ds) auto

text \<open>
  Between the first report and the next opening: \<open>waiting\<close> tells whether the message still
  waits for the thread, and domain \<open>k\<close> is \<open>d\<close>.
\<close>

definition reported ::
  "('q \<Rightarrow> string list) \<Rightarrow> string \<Rightarrow> nat \<Rightarrow> bool \<Rightarrow> 'd \<Rightarrow> ('d, 'q, 'm) device_backend \<Rightarrow> bool" where
  "reported contents first k waiting d b =
     (hasActiveException b \<and> activeExceptionMessage b = first \<and> map_of (domains (asyncDomainsContainer b)) k = Some (Some d) \<and>
      isSendingExceptions (asyncDomainsContainer b) = waiting \<and>
      contents (startExceptionDistribution (asyncDomainsContainer b)) = (if waiting then [first] else []))"

lemma reported_step:
  assumes q: "queue_laws push pop contents" and r: "reported contents first k waiting d b" and ev: "\<not> about_domain k ev"
  shows "reported contents first k (waiting \<and> ev \<noteq> Distribution)
    (if waiting \<and> ev = Distribution then sendExc (RuntimeError first) d else d) (backend_event_step push pop sendExc impl ev b)"
proof (cases ev)
  case (Report m)
  then show ?thesis using r by (simp add: reported_def setException_def)
next
  case Distribution
  show ?thesis
  proof (cases waiting)
    case True
    then obtain q' where "pop (startExceptionDistribution (asyncDomainsContainer b)) = Some (first, q')" "contents q' = []"
      using r queue_laws_pop[OF q, of _ first "[]"] by (auto simp: reported_def)
    then show ?thesis using Distribution True r
      by (auto simp: reported_def distributeExceptions_round_def map_of_map comp_def)
  next
    case False
    then have "pop (startExceptionDistribution (asyncDomainsContainer b)) = None"
      using q r by (simp add: reported_def queue_laws_def)
    then show ?thesis using Distribution False r by (simp add: distributeExceptions_round_def)
  qed
next
  case Closing
  then show ?thesis using r by (simp add: reported_def)
next
  case (Creation key d')
  then show ?thesis using r ev by (simp add: reported_def domains_assign_other startDistributorThread_def)
next
  case (Deletion key)
  then show ?thesis using r ev by (simp add: reported_def domains_assign_other)
qed

lemma reported_run:
  assumes q: "queue_laws push pop contents"
  shows "reported contents first k waiting d b \<Longrightarrow> \<forall>ev\<in>set evs. \<not> about_domain k ev \<Longrightarrow>
    reported contents first k (waiting \<and> Distribution \<notin> set evs)
      (if waiting \<and> Distribution \<in> set evs then sendExc (RuntimeError first) d else d)
      (fold (backend_event_step push pop sendExc impl) evs b)"
proof (induction evs arbitrary: waiting d b)
  case (Cons ev evs)
  have "reported contents first k (waiting \<and> ev \<noteq> Distribution)
      (if waiting \<and> ev = Distribution then sendExc (RuntimeError first) d else d) (backend_event_step push pop sendExc impl ev b)"
    by (rule reported_step[OF q]) (use Cons.prems in auto)
  from Cons.IH[OF this] Cons.prems(2) show ?case by (cases "ev = Distribution") (auto split: if_splits)
qed simp

text \<open>
  C6: a living domain gets the exception of the first report after an opening exactly once,
  at the next round of the distributor thread: in whatever order further reports, rounds of the
  thread, closings and changes of other domains follow until the next opening, the domain has
  received this exception and nothing else once a round has taken place, and nothing before.
\<close>

theorem exception_distributed_once:
  assumes q: "queue_laws push pop contents" and impl: "impl_respects_base impl" and q0: "contents q0 = []"
    and reachable: "backend_reachable push pop sendExc impl q0 b"
    and running: "threadIsRunning (asyncDomainsContainer b)" and fresh: "\<not> hasActiveException b"
    and living: "map_of (domains (asyncDomainsContainer b)) k = Some (Some d)"
    and others: "\<forall>ev\<in>set evs. \<not> about_domain k ev"
    and b': "b' = fold (backend_event_step push pop sendExc impl) (Report first # evs) b"
  shows "map_of (domains (asyncDomainsContainer b')) k =
      Some (Some (if Distribution \<in> set evs then sendExc (RuntimeError first) d else d)) \<and>
    isSendingExceptions (asyncDomainsContainer b') = (Distribution \<notin> set evs) \<and>
    checkActiveException b' = Throw (RuntimeError first)"
proof -
  have "backend_ok contents b" by (rule reachable_ok[OF q impl q0 reachable])
  then have empty: "\<not> isSendingExceptions (asyncDomainsContainer b)"
    "contents (startExceptionDistribution (asyncDomainsContainer b)) = []"
    using fresh by (auto simp: backend_ok_def container_ok_def split: if_splits)
  then have "contents (push (startExceptionDistribution (asyncDomainsContainer b)) first) = [first]"
    using q by (simp add: queue_laws_def)
  then have "reported contents first k True d (snd (setException push impl first b))"
    using impl fresh running living empty
    by (simp add: reported_def setException_def sendExceptions_def impl_respects_base_def)
  from reported_run[OF q this others] show ?thesis
    by (simp add: b' reported_def checkActiveException_def)
qed

theorem exception_distributed_once_witness:
  "let push = (\<lambda>q m. if length q < 2 then q @ [m] else q);
       pop = (\<lambda>q :: string list. case q of [] \<Rightarrow> None | m # ms \<Rightarrow> Some (m, ms));
       b = (initial_backend [] () :: (exn list, string list, unit) device_backend)
         \<lparr>asyncDomainsContainer := \<lparr>isSendingExceptions = False, startExceptionDistribution = [],
            threadIsRunning = True, domains = [(3, Some [])]\<rparr>\<rparr>
   in map_of (domains (asyncDomainsContainer (fold (backend_event_step push pop (\<lambda>x ex. ex @ [x]) (\<lambda>b. b))
       (Report ''one'' # [Report ''two'', Distribution, Report ''three'', Creation 8 [], Distribution]) b))) 3 =
     Some (Some [RuntimeError ''one''])"
proof -
  let ?push = "\<lambda>(q :: string list) m. if length q < 2 then q @ [m] else q"
  let ?pop = "\<lambda>q :: string list. case q of [] \<Rightarrow> None | m # ms \<Rightarrow> Some (m, ms)"
  let ?evs = "[Report ''two'', Distribution, Report ''three'', Creation 8 [], Distribution] :: exn list backend_event list"
  let ?b = "(initial_backend [] () :: (exn list, string list, unit) device_backend)
         \<lparr>asyncDomainsContainer := \<lparr>isSendingExceptions = False, startExceptionDistribution = [],
            threadIsRunning = True, domains = [(3, Some [])]\<rparr>\<rparr>"
  have "backend_step ?push ?pop (\<lambda>x ex. ex @ [x]) (\<lambda>b. b) (initial_backend [] ()) ?b"
    using backend_step.Subscribe[of ?push ?pop "\<lambda>x ex. ex @ [x]" "\<lambda>b. b"
        "initial_backend [] () :: (exn list, string list, unit) device_backend" 3 "Some []"]
    by (simp add: initial_backend_def startDistributorThread_def)
  then have "backend_reachable ?push ?pop (\<lambda>x ex. ex @ [x]) (\<lambda>b. b) [] ?b"
    by (rule backend_reachable.step[OF backend_reachable.init])
  from exception_distributed_once[OF list_queue_laws _ _ this _ _ _ _ refl, where k = 3 and d = "[]" and evs = ?evs and first = "''one''"]
  show ?thesis unfolding Let_def by (simp add: impl_respects_base_def initial_backend_def del: fold.simps)
qed

section \<open>The operations interleaved\<close>

text \<open>
  The flags are atomics, and no lock is held across \<open>setException\<close> or
  \<open>setOpenedAndClearException\<close>: calls in different threads interleave at the accesses
  to them.  A thread is the stage it has reached; one micro step of a thread does one
  access.
\<close>

datatype call_stage =
    SetEntry string
  | SetMessage string
  | SetImpl string
  | SendCheck string
  | SendThread string
  | SendFlag string
  | SendPush string
  | OpenWait
  | OpenVersion
  | OpenFlag
  | OpenClear
  | OpenMessage
  | Finished
  | Crashed

fun micro_step ::
  "('q \<Rightarrow> string \<Rightarrow> 'q) \<Rightarrow> (('d, 'q, 'm) device_backend \<Rightarrow> ('d, 'q, 'm) device_backend) \<Rightarrow>
     call_stage \<Rightarrow> ('d, 'q, 'm) device_backend \<times> 64 word \<Rightarrow>
     call_stage \<times> ('d, 'q, 'm) device_backend \<times> 64 word" where
  "micro_step push impl (SetEntry m) (b, g) =
     (if hasActiveException b then (Finished, b, g) else (SetMessage m, b\<lparr>hasActiveException := True\<rparr>, g))"
| "micro_step push impl (SetMessage m) (b, g) = (SetImpl m, b\<lparr>activeExceptionMessage := m\<rparr>, g)"
| "micro_step push impl (SetImpl m) (b, g) = (SendCheck m, impl b, g)"
| "micro_step push impl (SendCheck m) (b, g) =
     (if isSendingExceptions (asyncDomainsContainer b) then (Crashed, b, g) else (SendThread m, b, g))"
| "micro_step push impl (SendThread m) (b, g) =
     (if \<not> threadIsRunning (asyncDomainsContainer b) then (Finished, b, g) else (SendFlag m, b, g))"
| "micro_step push impl (SendFlag m) (b, g) =
     (SendPush m, b\<lparr>asyncDomainsContainer := (asyncDomainsContainer b)\<lparr>isSendingExceptions := True\<rparr>\<rparr>, g)"
| "micro_step push impl (SendPush m) (b, g) =
     (Finished, b\<lparr>asyncDomainsContainer := (asyncDomainsContainer b)\<lparr>startExceptionDistribution :=
        push (startExceptionDistribution (asyncDomainsContainer b)) m\<rparr>\<rparr>, g)"
| "micro_step push impl OpenWait (b, g) =
     (if isSendingExceptions (asyncDomainsContainer b) then (OpenWait, b, g) else (OpenVersion, b, g))"
| "micro_step push impl OpenVersion (b, g) =
     (let (v, g) = newVersion g in (OpenFlag, b\<lparr>versionOnOpen := v\<rparr>, g))"
| "micro_step push impl OpenFlag (b, g) = (OpenClear, b\<lparr>opened := True\<rparr>, g)"
| "micro_step push impl OpenClear (b, g) = (OpenMessage, b\<lparr>hasActiveException := False\<rparr>, g)"
| "micro_step push impl OpenMessage (b, g) =
     (Finished, b\<lparr>activeExceptionMessage := ''(exception cleared)''\<rparr>, g)"
| "micro_step push impl Finished s = (Finished, s)"
| "micro_step push impl Crashed s = (Crashed, s)"

text \<open>Threads run by a schedule, which names the thread that does the next access.\<close>

fun run_schedule ::
  "('q \<Rightarrow> string \<Rightarrow> 'q) \<Rightarrow> (('d, 'q, 'm) device_backend \<Rightarrow> ('d, 'q, 'm) device_backend) \<Rightarrow>
     nat list \<Rightarrow> call_stage list \<Rightarrow> ('d, 'q, 'm) device_backend \<times> 64 word \<Rightarrow>
     call_stage list \<times> ('d, 'q, 'm) device_backend \<times> 64 word" where
  "run_schedule push impl [] ts s = (ts, s)"
| "run_schedule push impl (t # sched) ts s =
     (let (c, s) = micro_step push impl (ts ! t) s in run_schedule push impl sched (ts[t := c]) s)"

text \<open>Run without interruption, the micro steps are the operations above.\<close>

lemma micro_setException:
  assumes "impl_respects_base impl"
  shows "(case setException push impl m b of
      (Ret _, b') \<Rightarrow> run_schedule push impl (replicate 7 0) [SetEntry m] (b, g) = ([Finished], b', g)
    | (_, b') \<Rightarrow> run_schedule push impl (replicate 7 0) [SetEntry m] (b, g) = ([Crashed], b', g))"
  using assms
  by (simp add: setException_def sendExceptions_def impl_respects_base_def numeral_eq_Suc Let_def)

lemma micro_open:
  "(case setOpenedAndClearException g b of
      Some (b', g') \<Rightarrow> run_schedule push impl (replicate 5 0) [OpenWait] (b, g) = ([Finished], b', g')
    | None \<Rightarrow> run_schedule push impl (replicate 5 0) [OpenWait] (b, g) = ([OpenWait], b, g))"
  by (simp add: setOpenedAndClearException_def numeral_eq_Suc Let_def)

text \<open>
  C7: when they do overlap, the process can be terminated: an opening that has already seen
  that nothing is being distributed clears the exception flag under a \<open>setException\<close>
  that has just set it, a second \<open>setException\<close> starts its distribution, and the
  first one runs into the check of \<open>sendExceptions\<close>, whose \<open>logic_error\<close> leaves a
  function declared \<open>noexcept\<close>.
\<close>

theorem overlapping_setException_terminates:
  fixes b :: "('d, 'q, 'm) device_backend"
  assumes "threadIsRunning (asyncDomainsContainer b)"
    and "\<not> isSendingExceptions (asyncDomainsContainer b)" and "\<not> hasActiveException b"
  shows "\<exists>schedule. fst (run_schedule push (\<lambda>b. b) schedule
      [SetEntry m1, OpenWait, SetEntry m2] (b, g)) = [Crashed, Finished, Finished]"
proof -
  have "fst (run_schedule push (\<lambda>b. b) (0 # replicate 5 1 @ replicate 7 2 @ replicate 3 0)
      [SetEntry m1, OpenWait, SetEntry m2] (b, g)) = [Crashed, Finished, Finished]"
    using assms by (simp add: numeral_eq_Suc Let_def)
  then show ?thesis by blast
qed

theorem overlapping_setException_terminates_witness:
  "\<exists>schedule. fst (run_schedule (\<lambda>q m. q @ [m]) (\<lambda>b. b) schedule
      [SetEntry ''read failed'', OpenWait, SetEntry ''write failed'']
      ((initial_backend [] () :: (unit, string list, unit) device_backend)
        \<lparr>asyncDomainsContainer := \<lparr>isSendingExceptions = False, startExceptionDistribution = [],
           threadIsRunning = True, domains = []\<rparr>\<rparr>, 0)) = [Crashed, Finished, Finished]"
  by (rule overlapping_setException_terminates) (simp_all add: initial_backend_def)

end
