(* ===== verification/DummyBackends.thy ===== *)
theory DummyBackends
  imports DeviceBackends
begin

text \<open>
  \<^verbatim>\<open>backends/DummyBackend/src/DummyBackend.cc\<close> and
  \<^verbatim>\<open>src/DummyBackendBase.cc\<close>: a device simulated by one vector of 32-bit words per
  bar, with read-only addresses and callback functions run after a write.  The
  interface \<open>device_memory\<close> says what the accessors rely on of a device.
\<close>

section \<open>Bytes and words\<close>

text \<open>The bytes of an \<open>int32_t\<close> in memory (little endian).\<close>

definition byte_of :: "32 word \<Rightarrow> nat \<Rightarrow> 8 word" where
  "byte_of w k = ucast (drop_bit (8 * k) w)"

definition word_bytes :: "32 word \<Rightarrow> 8 word list" where
  "word_bytes w = [byte_of w 0, byte_of w 1, byte_of w 2, byte_of w 3]"

definition word_of_bytes :: "8 word list \<Rightarrow> 32 word" where
  "word_of_bytes bs = ucast (bs ! 0) OR push_bit 8 (ucast (bs ! 1)) OR
     push_bit 16 (ucast (bs ! 2)) OR push_bit 24 (ucast (bs ! 3))"

text \<open>\<open>reinterpret_cast<int32_t*>\<close> of a buffer of bytes.\<close>

fun words_of_bytes :: "8 word list \<Rightarrow> 32 word list" where
  "words_of_bytes (a # b # c # d # rest) = word_of_bytes [a, b, c, d] # words_of_bytes rest"
| "words_of_bytes _ = []"

lemma byte_high_bits: "8 \<le> m \<Longrightarrow> \<not> bit (b :: 8 word) m"
  using bit_imp_le_length[of b m] by auto

lemma byte_of_word_of_bytes:
  "byte_of (word_of_bytes [b0, b1, b2, b3]) 0 = b0"
  "byte_of (word_of_bytes [b0, b1, b2, b3]) 1 = b1"
  "byte_of (word_of_bytes [b0, b1, b2, b3]) 2 = b2"
  "byte_of (word_of_bytes [b0, b1, b2, b3]) 3 = b3"
  by (rule bit_word_eqI; auto simp: byte_of_def word_of_bytes_def bit_simps byte_high_bits)+

lemma word_of_word_bytes: "word_of_bytes (word_bytes w) = w"
proof (rule bit_word_eqI)
  fix n assume n: "n < LENGTH(32)"
  consider "n < 8" | "8 \<le> n" "n < 16" | "16 \<le> n" "n < 24" | "24 \<le> n" by linarith
  then show "bit (word_of_bytes (word_bytes w)) n = bit w n"
    using n by cases (auto simp: word_of_bytes_def word_bytes_def byte_of_def bit_simps)
qed

lemma length_word_bytes [simp]: "length (word_bytes w) = 4"
  by (simp add: word_bytes_def)

section \<open>The backend\<close>

record address_range =
  range_bar :: nat
  range_offset :: nat
  range_sizeInBytes :: nat

record ('d, 'q) dummy_device =
  dummy_base :: "('d, 'q, unit) device_backend"
  barContents :: "nat \<Rightarrow> 32 word list"
  readOnlyAddresses :: "(nat \<times> nat) set"
  writeCallbackFunctions :: "(address_range \<times> nat) list"

text \<open>
  \<open>barContents\<close> is the \<open>std::map\<close> of vectors, whose \<open>operator[]\<close> makes an empty vector for
  a missing bar.  \<open>writeCallbackFunctions\<close> is the multimap in the order of its keys
  (bar, offset); a callback is the number of a function \<open>run_callback\<close> knows.
\<close>

definition checkSizeIsMultipleOfWordSize :: "nat \<Rightarrow> unit outcome" where
  "checkSizeIsMultipleOfWordSize sizeInBytes =
     (if sizeInBytes mod 4 \<noteq> 0 then Throw (LogicError ''Read/write size has to be a multiple of 4'')
      else Ret ())"

definition invalidAddress :: exn where
  "invalidAddress = LogicError ''Invalid address offset''"

definition dummy_isReadOnly :: "nat \<Rightarrow> nat \<Rightarrow> ('d, 'q) dummy_device \<Rightarrow> bool" where
  "dummy_isReadOnly bar address d = ((bar, address) \<in> readOnlyAddresses d)"

definition dummy_setReadOnly :: "nat \<Rightarrow> nat \<Rightarrow> nat \<Rightarrow> ('d, 'q) dummy_device \<Rightarrow> ('d, 'q) dummy_device" where
  "dummy_setReadOnly bar address sizeInWords d = d\<lparr>readOnlyAddresses :=
     fold (\<lambda>i s. insert (bar, address + i * 4) s) [0 ..< sizeInWords] (readOnlyAddresses d)\<rparr>"

text \<open>The loop of \<open>read\<close>; its index is an \<open>unsigned int\<close>.\<close>

fun dummy_read_loop :: "32 word list \<Rightarrow> nat \<Rightarrow> nat \<Rightarrow> unit outcome \<times> 32 word list" where
  "dummy_read_loop contents wordIndex 0 = (Ret (), [])"
| "dummy_read_loop contents wordIndex (Suc n) =
     (if wordIndex mod 2 ^ 32 < length contents then
        (let (r, data) = dummy_read_loop contents (wordIndex + 1) n
         in (r, contents ! (wordIndex mod 2 ^ 32) # data))
      else (Throw invalidAddress, []))"

text \<open>
  \<open>read\<close> fills the caller's buffer as far as it gets.  (The assertion that the device is
  open has no effect in a release build.)
\<close>

definition dummy_read ::
  "nat \<Rightarrow> nat \<Rightarrow> nat \<Rightarrow> 8 word list \<Rightarrow> ('d, 'q) dummy_device \<Rightarrow> unit outcome \<times> 8 word list" where
  "dummy_read bar address sizeInBytes buffer d =
     (case checkActiveException (dummy_base d) of
        Ret _ \<Rightarrow>
          (case checkSizeIsMultipleOfWordSize sizeInBytes of
             Ret _ \<Rightarrow>
               (let (r, data) = dummy_read_loop (barContents d bar) (address div 4) (sizeInBytes div 4);
                    bytes = concat (map word_bytes data)
                in (r, bytes @ drop (length bytes) buffer))
           | r \<Rightarrow> (r, buffer))
      | r \<Rightarrow> (r, buffer))"

fun dummy_write_loop ::
  "nat \<Rightarrow> nat \<Rightarrow> 32 word list \<Rightarrow> ('d, 'q) dummy_device \<Rightarrow> unit outcome \<times> ('d, 'q) dummy_device" where
  "dummy_write_loop bar address [] d = (Ret (), d)"
| "dummy_write_loop bar address (w # ws) d =
     (if dummy_isReadOnly bar address d then dummy_write_loop bar (address + 4) ws d
      else if address div 4 < length (barContents d bar) then
        dummy_write_loop bar (address + 4) ws
          (d\<lparr>barContents := (barContents d)(bar := (barContents d bar)[address div 4 := w])\<rparr>)
      else (Throw invalidAddress, d))"

text \<open>The loop of \<open>isWriteRangeOverlap\<close> from \<open>address\<close> to \<open>endAddress\<close>.\<close>

definition writable_in :: "nat \<Rightarrow> nat \<Rightarrow> nat \<Rightarrow> ('d, 'q) dummy_device \<Rightarrow> bool" where
  "writable_in bar startAddress endAddress d =
     (\<exists>i < (endAddress - startAddress + 3) div 4. \<not> dummy_isReadOnly bar (startAddress + 4 * i) d)"

definition isWriteRangeOverlap :: "address_range \<Rightarrow> address_range \<Rightarrow> ('d, 'q) dummy_device \<Rightarrow> bool" where
  "isWriteRangeOverlap first second d =
     (if range_bar first \<noteq> range_bar second then False
      else writable_in (range_bar first)
        (max (range_offset first) (range_offset second))
        (min (range_offset first + range_sizeInBytes first) (range_offset second + range_sizeInBytes second)) d)"

definition findCallbackFunctionsForAddressRange :: "address_range \<Rightarrow> ('d, 'q) dummy_device \<Rightarrow> nat list" where
  "findCallbackFunctionsForAddressRange r d =
     map snd (filter (\<lambda>(key, _). range_bar key = range_bar r \<and>
         range_offset key < range_offset r + range_sizeInBytes r \<and> isWriteRangeOverlap key r d)
       (writeCallbackFunctions d))"

definition runWriteCallbackFunctionsForAddressRange ::
  "(nat \<Rightarrow> ('d, 'q) dummy_device \<Rightarrow> ('d, 'q) dummy_device) \<Rightarrow> address_range \<Rightarrow> ('d, 'q) dummy_device \<Rightarrow> ('d, 'q) dummy_device" where
  "runWriteCallbackFunctionsForAddressRange run_callback r d =
     fold run_callback (findCallbackFunctionsForAddressRange r d) d"

definition dummy_write ::
  "(nat \<Rightarrow> ('d, 'q) dummy_device \<Rightarrow> ('d, 'q) dummy_device) \<Rightarrow> nat \<Rightarrow> nat \<Rightarrow> 8 word list \<Rightarrow> ('d, 'q) dummy_device \<Rightarrow>
     unit outcome \<times> ('d, 'q) dummy_device" where
  "dummy_write run_callback bar address bytes d =
     (case checkActiveException (dummy_base d) of
        Ret _ \<Rightarrow>
          (case checkSizeIsMultipleOfWordSize (length bytes) of
             Ret _ \<Rightarrow>
               (case dummy_write_loop bar address (words_of_bytes bytes) d of
                  (Ret _, d) \<Rightarrow> (Ret (), runWriteCallbackFunctionsForAddressRange run_callback
                    \<lparr>range_bar = bar, range_offset = address, range_sizeInBytes = length bytes\<rparr> d)
                | r \<Rightarrow> r)
           | r \<Rightarrow> (r, d))
      | r \<Rightarrow> (r, d))"

definition dummy_closeImpl :: "('d, 'q) dummy_device \<Rightarrow> ('d, 'q) dummy_device" where
  "dummy_closeImpl d = d\<lparr>dummy_base := (dummy_base d)\<lparr>opened := False\<rparr>\<rparr>"

text \<open>
  \<open>getBarSizesInBytesFromRegisterMapping\<close> for the list of registers (bar, address, number of
  elements, pitch in bits), and \<open>resizeBarContents\<close>.  The product of the last two is a \<open>uint32_t\<close>,
  the sizes are a \<open>size_t\<close>.
\<close>

definition notByteAligned :: exn where
  "notByteAligned = LogicError ''DummyBackendBase: Elements have to be byte aligned.''"

fun barSizesInBytes :: "(nat \<times> nat \<times> nat \<times> nat) list \<Rightarrow> (nat \<rightharpoonup> nat) \<Rightarrow> (nat \<rightharpoonup> nat) outcome" where
  "barSizesInBytes [] sizes = Ret sizes"
| "barSizesInBytes ((bar, address, n, pitch) # regs) sizes =
     (if pitch mod 8 \<noteq> 0 then Throw notByteAligned
      else
        let old = (case sizes bar of None \<Rightarrow> 0 | Some bytes \<Rightarrow> bytes)
        in barSizesInBytes regs (sizes(bar \<mapsto> max old ((address + n * pitch mod 2 ^ 32 div 8) mod 2 ^ 64))))"

definition resizeBarContents ::
  "(nat \<times> nat \<times> nat \<times> nat) list \<Rightarrow> ('d, 'q) dummy_device \<Rightarrow> unit outcome \<times> ('d, 'q) dummy_device" where
  "resizeBarContents regs d =
     andThen (barSizesInBytes regs Map.empty, d) (\<lambda>sizes d.
       (Ret (), d\<lparr>barContents := (\<lambda>bar. case sizes bar of
            None \<Rightarrow> barContents d bar
          | Some bytes \<Rightarrow>
              let nwords = (bytes + 3) mod 2 ^ 64 div 4; old = barContents d bar
              in take nwords old @ replicate (nwords - length old) 0)\<rparr>))"

section \<open>The device as a memory of bytes\<close>

text \<open>
  What the accessors rely on: \<open>mem\<close> is the device seen as bytes (\<open>None\<close>: no such address),
  and a request that is aligned and within the device reads and writes just its bytes.
\<close>

locale device_memory =
  fixes dev_read :: "nat \<Rightarrow> nat \<Rightarrow> nat \<Rightarrow> 8 word list \<Rightarrow> 'h \<Rightarrow> unit outcome \<times> 8 word list"
    and dev_write :: "nat \<Rightarrow> nat \<Rightarrow> 8 word list \<Rightarrow> 'h \<Rightarrow> unit outcome \<times> 'h"
    and mem :: "'h \<Rightarrow> nat \<Rightarrow> nat \<Rightarrow> 8 word option"
    and alignment :: nat
    and ready :: "'h \<Rightarrow> bool"
    and inside :: "nat \<Rightarrow> nat \<Rightarrow> nat \<Rightarrow> 'h \<Rightarrow> bool"
  assumes alignment_pos: "0 < alignment"
    and read_mem: "ready h \<Longrightarrow> inside bar a n h \<Longrightarrow> alignment dvd a \<Longrightarrow> alignment dvd n \<Longrightarrow> length buf = n \<Longrightarrow>
      \<exists>bs. dev_read bar a n buf h = (Ret (), bs) \<and> length bs = n \<and> (\<forall>i < n. mem h bar (a + i) = Some (bs ! i))"
    and write_mem: "ready h \<Longrightarrow> inside bar a (length bs) h \<Longrightarrow> alignment dvd a \<Longrightarrow> alignment dvd length bs \<Longrightarrow>
      \<exists>h'. dev_write bar a bs h = (Ret (), h') \<and> ready h' \<and>
        (\<forall>b x. mem h' b x = (if b = bar \<and> a \<le> x \<and> x < a + length bs then Some (bs ! (x - a)) else mem h b x)) \<and>
        (\<forall>b x n. inside b x n h' = inside b x n h)"
begin

text \<open>A request that was written is read back.\<close>

lemma write_then_read:
  assumes "ready h" "inside bar a (length bs) h" "alignment dvd a" "alignment dvd length bs" "length buf = length bs"
  shows "\<exists>h'. dev_write bar a bs h = (Ret (), h') \<and> dev_read bar a (length bs) buf h' = (Ret (), bs)"
proof -
  obtain h' where w: "dev_write bar a bs h = (Ret (), h')" "ready h'"
    "\<forall>b x. mem h' b x = (if b = bar \<and> a \<le> x \<and> x < a + length bs then Some (bs ! (x - a)) else mem h b x)"
    "\<forall>b x n. inside b x n h' = inside b x n h"
    using write_mem[OF assms(1-4)] by blast
  then obtain bs' where r: "dev_read bar a (length bs) buf h' = (Ret (), bs')" "length bs' = length bs"
    "\<forall>i < length bs. mem h' bar (a + i) = Some (bs' ! i)"
    using read_mem[of h' bar a "length bs" buf] assms by blast
  have "bs' = bs" using r w by (intro nth_equalityI) auto
  with w r show ?thesis by blast
qed

end

lemma length_words_of_bytes: "length (words_of_bytes bs) = length bs div 4"
  by (induction bs rule: words_of_bytes.induct) auto

lemma nth_words_of_bytes:
  assumes "i < length bs" "4 dvd length bs"
  shows "byte_of (words_of_bytes bs ! (i div 4)) (i mod 4) = bs ! i"
  using assms
proof (induction bs arbitrary: i rule: words_of_bytes.induct)
  case (1 a b c d rest)
  show ?case
  proof (cases "i < 4")
    case True
    then have "i = 0 \<or> i = 1 \<or> i = 2 \<or> i = 3" by auto
    then show ?thesis using byte_of_word_of_bytes[of a b c d] by auto
  next
    case False
    then obtain j where j: "i = j + 4" by (metis add.commute le_Suc_ex not_less)
    have "(j + 4) div 4 = Suc (j div 4)" "(j + 4) mod 4 = j mod 4" by auto
    moreover have "4 dvd length rest" "j < length rest" using 1(2,3) j by (simp_all add: dvd_def) presburger
    ultimately show ?thesis using 1(1)[of j] j by simp
  qed
qed (auto dest: dvd_imp_le)

lemma nth_concat_word_bytes:
  "i < 4 * length ws \<Longrightarrow> concat (map word_bytes ws) ! i = byte_of (ws ! (i div 4)) (i mod 4)"
proof (induction ws arbitrary: i)
  case (Cons w ws)
  show ?case
  proof (cases "i < 4")
    case True
    then have "i = 0 \<or> i = 1 \<or> i = 2 \<or> i = 3" by auto
    then show ?thesis by (auto simp: word_bytes_def)
  next
    case False
    then obtain j where j: "i = j + 4" by (metis add.commute le_Suc_ex not_less)
    have "(j + 4) div 4 = Suc (j div 4)" "(j + 4) mod 4 = j mod 4" by auto
    with j show ?thesis using Cons by (simp add: nth_append)
  qed
qed simp

lemma length_concat_word_bytes [simp]: "length (concat (map word_bytes ws)) = 4 * length ws"
  by (induction ws) auto

lemma dummy_read_loop_ok:
  assumes "idx + n \<le> length contents" "length contents \<le> 2 ^ 32"
  shows "dummy_read_loop contents idx n = (Ret (), take n (drop idx contents))"
  using assms
proof (induction n arbitrary: idx)
  case (Suc n)
  then have "idx mod 2 ^ 32 = idx" by simp
  with Suc show ?case by (simp add: Cons_nth_drop_Suc [symmetric])
qed simp

lemma div4_step: "(a + 4) div 4 = Suc (a div 4 :: nat)"
  by simp

lemma dummy_write_loop_ok:
  assumes "4 dvd a" "a div 4 + length ws \<le> length (barContents d bar)"
    and "\<forall>i < length ws. \<not> dummy_isReadOnly bar (a + 4 * i) d"
  shows "dummy_write_loop bar a ws d = (Ret (), d\<lparr>barContents := (barContents d)(bar :=
    take (a div 4) (barContents d bar) @ ws @ drop (a div 4 + length ws) (barContents d bar))\<rparr>)"
  using assms
proof (induction ws arbitrary: a d)
  case Nil
  then show ?case by (simp add: append_take_drop_id)
next
  case (Cons w ws)
  let ?c = "barContents d bar"
  let ?d = "d\<lparr>barContents := (barContents d)(bar := ?c[a div 4 := w])\<rparr>"
  have ro: "\<not> dummy_isReadOnly bar a d" using Cons.prems(3) by auto
  have "dummy_write_loop bar (a + 4) ws ?d = (Ret (), ?d\<lparr>barContents := (barContents ?d)(bar :=
    take ((a + 4) div 4) (barContents ?d bar) @ ws @ drop ((a + 4) div 4 + length ws) (barContents ?d bar))\<rparr>)"
    using Cons.prems by (intro Cons.IH) (auto simp: dummy_isReadOnly_def add.assoc dest: spec[of _ "Suc _"])
  moreover have "take (Suc (a div 4)) (?c[a div 4 := w]) = take (a div 4) ?c @ [w]"
    using Cons.prems(2) by (simp add: take_Suc_conv_app_nth take_update_swap list_update_append min_def)
  ultimately show ?case
    using ro Cons.prems(2) by (simp add: drop_update_cancel fun_upd_def div4_step cong: if_cong)
qed

definition dummy_mem :: "('d, 'q) dummy_device \<Rightarrow> nat \<Rightarrow> nat \<Rightarrow> 8 word option" where
  "dummy_mem d bar a =
     (if a div 4 < length (barContents d bar)
      then Some (byte_of (barContents d bar ! (a div 4)) (a mod 4)) else None)"

definition dummy_ready :: "('d, 'q) dummy_device \<Rightarrow> bool" where
  "dummy_ready d = (opened (dummy_base d) \<and> \<not> hasActiveException (dummy_base d) \<and> writeCallbackFunctions d = [])"

definition dummy_inside :: "nat \<Rightarrow> nat \<Rightarrow> nat \<Rightarrow> ('d, 'q) dummy_device \<Rightarrow> bool" where
  "dummy_inside bar a n d = (a + n \<le> 4 * length (barContents d bar) \<and> length (barContents d bar) \<le> 2 ^ 32 \<and>
     (\<forall>i < n div 4. \<not> dummy_isReadOnly bar (a + 4 * i) d))"

lemma dummy_read_mem:
  assumes "dummy_ready d" "dummy_inside bar a n d" "4 dvd a" "4 dvd n" "length buf = n"
  shows "\<exists>bs. dummy_read bar a n buf d = (Ret (), bs) \<and> length bs = n \<and>
    (\<forall>i < n. dummy_mem d bar (a + i) = Some (bs ! i))"
proof -
  obtain k m where k: "a = 4 * k" "n = 4 * m" using assms(3,4) by (auto simp: dvd_def)
  let ?ws = "take m (drop k (barContents d bar))"
  have le: "k + m \<le> length (barContents d bar)" using assms(2) k by (simp add: dummy_inside_def)
  have "dummy_read bar a n buf d = (Ret (), concat (map word_bytes ?ws))"
    using assms k le by (simp add: dummy_read_def checkActiveException_def dummy_ready_def
        checkSizeIsMultipleOfWordSize_def dummy_read_loop_ok dummy_inside_def)
  moreover have "dummy_mem d bar (a + i) = Some (concat (map word_bytes ?ws) ! i)" if "i < n" for i
  proof -
    have "(a + i) div 4 = k + i div 4" "(a + i) mod 4 = i mod 4" "i div 4 < m"
      using k that by auto
    then show ?thesis using le that k
      by (simp add: dummy_mem_def nth_concat_word_bytes)
  qed
  ultimately show ?thesis using le k by simp
qed

lemma dummy_write_mem:
  assumes "dummy_ready d" "dummy_inside bar a (length bs) d" "4 dvd a" "4 dvd length bs"
  shows "\<exists>d'. dummy_write run bar a bs d = (Ret (), d') \<and> dummy_ready d' \<and>
    (\<forall>b x. dummy_mem d' b x = (if b = bar \<and> a \<le> x \<and> x < a + length bs then Some (bs ! (x - a)) else dummy_mem d b x)) \<and>
    (\<forall>b x n. dummy_inside b x n d' = dummy_inside b x n d)"
proof -
  obtain k m where k: "a = 4 * k" "length bs = 4 * m" using assms(3,4) by (auto simp: dvd_def)
  let ?c = "barContents d bar" and ?ws = "words_of_bytes bs"
  let ?c' = "take k ?c @ ?ws @ drop (k + m) ?c"
  let ?d = "d\<lparr>barContents := (barContents d)(bar := ?c')\<rparr>"
  have le: "k + m \<le> length ?c" using assms(2) k by (simp add: dummy_inside_def)
  have len: "length ?ws = m" using k by (simp add: length_words_of_bytes)
  have "dummy_write run bar a bs d = (Ret (), ?d)"
    using assms k le len by (simp add: dummy_write_def checkActiveException_def dummy_ready_def
        checkSizeIsMultipleOfWordSize_def dummy_write_loop_ok dummy_inside_def
        runWriteCallbackFunctionsForAddressRange_def findCallbackFunctionsForAddressRange_def)
  moreover have "dummy_mem ?d b x = (if b = bar \<and> a \<le> x \<and> x < a + length bs then Some (bs ! (x - a)) else dummy_mem d b x)"
    for b x
  proof (cases "b = bar")
    case True
    consider "x div 4 < k" | "k \<le> x div 4" "x div 4 < k + m" | "k + m \<le> x div 4" by linarith
    then show ?thesis
    proof cases
      case 1
      then have "x < a" using k by auto
      then show ?thesis using 1 True le len by (simp add: dummy_mem_def nth_append)
    next
      case 2
      then have "a \<le> x" using k by auto
      then obtain j where j: "x = 4 * k + j" using k by (auto simp: le_iff_add)
      then have x: "a \<le> x" "x < a + length bs" "(x - a) div 4 = x div 4 - k" "(x - a) mod 4 = x mod 4"
        using k 2 by auto
      have "byte_of (?ws ! (x div 4 - k)) (x mod 4) = bs ! (x - a)"
        using nth_words_of_bytes[of "x - a" bs] x assms(4) by simp
      moreover have "x div 4 - k < m" using 2 by linarith
      ultimately show ?thesis using 2 x True le len by (simp add: dummy_mem_def nth_append)
    next
      case 3
      then have "\<not> x < a + length bs" using k by auto
      moreover have "\<not> x div 4 - k < m" using 3 by linarith
      ultimately show ?thesis using 3 True le len by (simp add: dummy_mem_def nth_append)
    qed
  next
    case False
    then show ?thesis by (simp add: dummy_mem_def)
  qed
  moreover have "dummy_inside b x n ?d = dummy_inside b x n d" for b x n
    using le len by (simp add: dummy_inside_def dummy_isReadOnly_def)
  moreover have "dummy_ready ?d" using assms(1) by (simp add: dummy_ready_def)
  ultimately show ?thesis by blast
qed

interpretation dummy_memory: device_memory dummy_read "dummy_write run" dummy_mem 4 dummy_ready dummy_inside
  for run
  by unfold_locales (simp, rule dummy_read_mem, assumption+, rule dummy_write_mem, assumption+)

text \<open>
  The simulated device is a memory: what is written to an aligned range of writeable
  addresses is read back from there.
\<close>

theorem dummy_write_then_read:
  assumes "dummy_ready d" "dummy_inside bar a (length bs) d" "4 dvd a" "4 dvd length bs"
    and "length buf = length bs"
  shows "\<exists>d'. dummy_write run bar a bs d = (Ret (), d') \<and> dummy_read bar a (length bs) buf d' = (Ret (), bs)"
  by (rule dummy_memory.write_then_read[OF assms])

definition sample_dummy :: "(unit, string list) dummy_device" where
  "sample_dummy = \<lparr>dummy_base = (initial_backend [] ())\<lparr>opened := True\<rparr>, barContents = (\<lambda>_. [1, 2, 3, 4]),
     readOnlyAddresses = {(0, 12)}, writeCallbackFunctions = []\<rparr>"

theorem dummy_write_then_read_witness:
  "\<exists>d'. dummy_write (\<lambda>_ d. d) 0 4 [7, 8, 9, 10] sample_dummy = (Ret (), d') \<and>
     dummy_read 0 4 4 [0, 0, 0, 0] d' = (Ret (), [7, 8, 9, 10])"
proof -
  have len: "length [7, 8, 9, 10 :: 8 word] = 4" by simp
  have "\<exists>d'. dummy_write (\<lambda>_ d. d) 0 4 [7, 8, 9, 10] sample_dummy = (Ret (), d') \<and>
     dummy_read 0 4 (length [7, 8, 9, 10 :: 8 word]) [0, 0, 0, 0] d' = (Ret (), [7, 8, 9, 10])"
    by (rule dummy_write_then_read; (simp only: len)?)
      (simp_all add: sample_dummy_def dummy_ready_def dummy_inside_def dummy_isReadOnly_def initial_backend_def)
  then show ?thesis unfolding len .
qed

end
