(* ===== verification/NumericTransfers.thy ===== *)
theory NumericTransfers
  imports NumericContract NumericAreas DummyBackends
begin

text \<open>
  Whole read and write operations of an accessor on a device that is a memory of bytes
  (locale \<open>na_memory\<close>, on top of \<open>device_memory\<close>).
\<close>

section \<open>A single transfer\<close>

definition register_bytes :: "'u nacc \<Rightarrow> nat" where
  "register_bytes a = rawSize a * length (buffer a)"

text \<open>
  Accessor \<open>k\<close> between two operations: its register lies in the area of its low-level
  element, and nobody holds the lock.
\<close>

definition idle_accessor :: "nat \<Rightarrow> nat \<Rightarrow> ('h, 'u) na_heap world \<Rightarrow> bool" where
  "idle_accessor alignment k w =
     (let a = accs (heap w) k; i = rawAccessor a; l = raws (heap w) i; e = elem w (2 * k); f = elem w (raw_elem i)
      in acc_dev a = lle_dev l \<and> aligned_area alignment l \<and> length (rawDataBuffer l) = numberOfBytes l \<and>
         startAddress l \<le> reg_address (acc_info a) \<and>
         reg_address (acc_info a) + register_bytes a \<le> startAddress l + numberOfBytes l \<and>
         (\<forall>u. length (uncook a u) = rawSize a) \<and>
         \<not> ownsLock l \<and> \<not> unalignedAccess (heap w) (lle_dev l) \<and>
         \<not> isInTransferGroup e \<and> inReadAnyGroup e = None \<and>
         \<not> has (te_flags e) wait_for_new_data \<and> \<not> has (te_flags f) wait_for_new_data \<and>
         \<not> readTransactionInProgress f \<and> \<not> writeTransactionInProgress f)"

text \<open>The bytes of the area of \<open>l\<close> can be reached on the device.\<close>

locale na_memory = device_memory "dev_read D" "dev_write D" mem alignment ready inside
  for D :: "'h na_device" and mem :: "'h \<Rightarrow> nat \<Rightarrow> nat \<Rightarrow> 8 word option" and alignment :: nat
    and ready :: "'h \<Rightarrow> bool" and inside :: "nat \<Rightarrow> nat \<Rightarrow> nat \<Rightarrow> 'h \<Rightarrow> bool" +
  assumes open_when_ready: "ready h \<Longrightarrow> dev_isOpen D h"
begin

definition reachable_area :: "lle \<Rightarrow> 'h \<Rightarrow> bool" where
  "reachable_area l h = (ready h \<and> inside (lle_bar l) (startAddress l) (numberOfBytes l) h \<and>
     aligned_area alignment l \<and> length (rawDataBuffer l) = numberOfBytes l)"

definition shows_area :: "lle \<Rightarrow> 'h \<Rightarrow> 8 word list \<Rightarrow> bool" where
  "shows_area l h bs = (length bs = numberOfBytes l \<and>
     (\<forall>j < numberOfBytes l. mem h (lle_bar l) (startAddress l + j) = Some (bs ! j)))"

lemma read_area:
  assumes "reachable_area (raws (heap w) i) (hw (heap w) (lle_dev (raws (heap w) i)))"
  shows "\<exists>bs. read_into_buffer D i w = (Ret (), upd_raw i (\<lambda>l. l\<lparr>rawDataBuffer := bs\<rparr>) w) \<and>
    shows_area (raws (heap w) i) (hw (heap w) (lle_dev (raws (heap w) i))) bs"
proof -
  let ?l = "raws (heap w) i"
  from assms obtain bs where "dev_read D (lle_bar ?l) (startAddress ?l) (numberOfBytes ?l) (rawDataBuffer ?l)
      (hw (heap w) (lle_dev ?l)) = (Ret (), bs)" "length bs = numberOfBytes ?l"
    "\<forall>j < numberOfBytes ?l. mem (hw (heap w) (lle_dev ?l)) (lle_bar ?l) (startAddress ?l + j) = Some (bs ! j)"
    unfolding reachable_area_def aligned_area_def using read_mem by blast
  then show ?thesis by (intro exI[of _ bs]) (simp add: read_into_buffer_def shows_area_def Let_def)
qed

lemma raw_preWrite:
  fixes w :: "('h, 'u) na_heap world" and i :: nat and v :: version_number
  defines "l \<equiv> raws (heap w) i" and "f \<equiv> raw_elem i"
  assumes r: "reachable_area l (hw (heap w) (lle_dev l))" and lock: "\<not> ownsLock l" "\<not> unalignedAccess (heap w) (lle_dev l)"
    and "\<not> writeTransactionInProgress (elem w f)" "\<not> v < versionNumber (elem w f)"
  shows "\<exists>w1 bs. preWrite (ll_impl D) ty v f w = (Ret (), w1) \<and>
    heap w1 = (heap w)\<lparr>unalignedAccess := (unalignedAccess (heap w))(lle_dev l := isUnaligned l),
      raws := (raws (heap w))(i := l\<lparr>ownsLock := isUnaligned l, rawDataBuffer := bs\<rparr>)\<rparr> \<and>
    elem w1 = (elem w)(f := (elem w f)\<lparr>activeException := None, writeTransactionInProgress := True\<rparr>) \<and>
    (isUnaligned l \<longrightarrow> shows_area l (hw (heap w) (lle_dev l)) bs) \<and> length bs = numberOfBytes l"
proof -
  define w0 where "w0 = logged (CallPreWrite f ty v) (upd f (\<lambda>t. t\<lparr>writeTransactionInProgress := True\<rparr>)
    (upd f (\<lambda>t. t\<lparr>activeException := None\<rparr>) w))"
  have f: "f div 2 = i" by (simp add: f_def raw_elem_def)
  have h0: "heap w0 = heap w" by (simp add: w0_def)
  have e0: "elem w0 = (elem w)(f := (elem w f)\<lparr>activeException := None, writeTransactionInProgress := True\<rparr>)"
    by (auto simp: w0_def upd_def fun_eq_iff)
  have pw: "preWrite (ll_impl D) ty v f w = ll_doPreWrite D f ty v w0"
    using assms(5-) by (simp add: preWrite_def w0_def ll_impl_def)
  show ?thesis
  proof (cases "isUnaligned l")
    case True
    define w1 where "w1 = upd_raw i (\<lambda>l. l\<lparr>ownsLock := True\<rparr>) (set_mutex (lle_dev l) True w0)"
    have l1: "raws (heap w1) i = l\<lparr>ownsLock := True\<rparr>" "hw (heap w1) = hw (heap w)"
      by (simp_all add: w1_def world_defs h0 l_def)
    have "reachable_area (raws (heap w1) i) (hw (heap w1) (lle_dev (raws (heap w1) i)))"
      using r by (simp add: l1 reachable_area_def aligned_area_def)
    then obtain bs where bs: "read_into_buffer D i w1 = (Ret (), upd_raw i (\<lambda>l. l\<lparr>rawDataBuffer := bs\<rparr>) w1)"
      "shows_area (raws (heap w1) i) (hw (heap w1) (lle_dev (raws (heap w1) i))) bs"
      using read_area by blast
    have "ll_doPreWrite D f ty v w0 = (Ret (), upd_raw i (\<lambda>l. l\<lparr>rawDataBuffer := bs\<rparr>) w1)"
      using True lock bs by (simp add: ll_doPreWrite_def f h0 l_def w1_def)
    then show ?thesis using bs(2) True
      by (intro exI[of _ "upd_raw i (\<lambda>l. l\<lparr>rawDataBuffer := bs\<rparr>) w1"] exI[of _ bs])
        (simp add: pw l1 e0 shows_area_def w1_def world_defs h0 l_def)
  next
    case False
    have "l\<lparr>ownsLock := False, rawDataBuffer := rawDataBuffer l\<rparr> = l" using lock by simp
    then have same: "heap w = (heap w)\<lparr>unalignedAccess := (unalignedAccess (heap w))(lle_dev l := isUnaligned l),
        raws := (raws (heap w))(i := l\<lparr>ownsLock := isUnaligned l, rawDataBuffer := rawDataBuffer l\<rparr>)\<rparr>"
      using False lock by (simp add: l_def fun_upd_idem)
    have "ll_doPreWrite D f ty v w0 = (Ret (), w0)"
      using False by (simp add: ll_doPreWrite_def f h0 l_def)
    then show ?thesis using False r same
      by (intro exI[of _ w0] exI[of _ "rawDataBuffer l"]) (simp add: pw e0 h0 reachable_area_def)
  qed
qed


lemma raw_postWrite:
  fixes w :: "('h, 'u) na_heap world" and i :: nat
  defines "l \<equiv> raws (heap w) i" and "f \<equiv> raw_elem i"
  assumes "writeTransactionInProgress (elem w f)" "activeException (elem w f) = None"
    and "unalignedAccess (heap w) (lle_dev l) = ownsLock l"
  shows "\<exists>w1. postWrite (ll_impl D) ty v f w = (Ret (), w1) \<and>
    elem w1 = (elem w)(f := (elem w f)\<lparr>writeTransactionInProgress := False, versionNumber := v\<rparr>) \<and>
    hw (heap w1) = hw (heap w) \<and> accs (heap w1) = accs (heap w) \<and>
    raws (heap w1) = (raws (heap w))(i := l\<lparr>ownsLock := False\<rparr>) \<and>
    unalignedAccess (heap w1) = (unalignedAccess (heap w))(lle_dev l := False)"
proof -
  define w0 where "w0 = logged (CallPostWrite f ty v) (upd f (\<lambda>t. t\<lparr>writeTransactionInProgress := False\<rparr>) w)"
  define w1 where "w1 = (if ownsLock l then set_mutex (lle_dev l) False (upd_raw i (\<lambda>l. l\<lparr>ownsLock := False\<rparr>) w0) else w0)"
  have f: "f div 2 = i" by (simp add: f_def raw_elem_def)
  have h0: "heap w0 = heap w" "activeException (elem w0 f) = None" using assms by (simp_all add: w0_def)
  have p: "ll_doPostWrite f ty v w0 = (Ret (), w1)"
    by (simp add: ll_doPostWrite_def f h0 w1_def l_def)
  have "\<not> ownsLock l \<Longrightarrow> l\<lparr>ownsLock := False\<rparr> = l" by simp
  then have h1: "hw (heap w1) = hw (heap w)" "accs (heap w1) = accs (heap w)"
    "raws (heap w1) = (raws (heap w))(i := l\<lparr>ownsLock := False\<rparr>)"
    "unalignedAccess (heap w1) = (unalignedAccess (heap w))(lle_dev l := False)" "elem w1 = elem w0"
    using assms(5) by (simp_all add: w1_def world_defs h0 l_def fun_upd_idem)
  have "postWrite (ll_impl D) ty v f w = (Ret (), upd f (\<lambda>t. t\<lparr>versionNumber := v\<rparr>) w1)"
    using assms(3) p h0(2) h1(5) by (simp add: postWrite_def w0_def ll_impl_def rethrowActive_def Let_def)
  moreover have "elem (upd f (\<lambda>t. t\<lparr>versionNumber := v\<rparr>) w1) =
      (elem w)(f := (elem w f)\<lparr>writeTransactionInProgress := False, versionNumber := v\<rparr>)"
    using h1(5) by (auto simp: w0_def upd_def logged_def fun_eq_iff)
  ultimately show ?thesis using h1 by simp
qed

text \<open>The accessor's stages, for the element \<open>2 * k\<close> with an idle low-level element.\<close>

lemma accessor_preWrite:
  fixes w :: "('h, 'u) na_heap world" and k :: nat and v :: version_number
  defines "a \<equiv> accs (heap w) k" and "i \<equiv> rawAccessor (accs (heap w) k)"
  defines "l \<equiv> raws (heap w) i"
  assumes idle: "idle_accessor alignment k w" and r: "reachable_area l (hw (heap w) (lle_dev l))"
    and v: "\<not> v < versionNumber (elem w (raw_elem i))" and ok: "isRaw a \<or> info_isWriteable (acc_info a)"
  shows "\<exists>w1 bs t. acc_doPreWrite D (2 * k) ty v w = (Ret (), w1) \<and>
    heap w1 = (heap w)\<lparr>unalignedAccess := (unalignedAccess (heap w))(lle_dev l := isUnaligned l),
      raws := (raws (heap w))(i := l\<lparr>ownsLock := isUnaligned l,
        rawDataBuffer := overwrite (begin_offset a l) (raw_bytes a) bs\<rparr>)\<rparr> \<and>
    elem w1 = (elem w)(raw_elem i := t) \<and> te_flags t = te_flags (elem w (raw_elem i)) \<and>
    activeException t = None \<and> writeTransactionInProgress t \<and>
    readTransactionInProgress t = readTransactionInProgress (elem w (raw_elem i)) \<and>
    (isUnaligned l \<longrightarrow> shows_area l (hw (heap w) (lle_dev l)) bs) \<and> length bs = numberOfBytes l"
proof -
  have idle': "acc_dev a = lle_dev l" "\<not> ownsLock l" "\<not> unalignedAccess (heap w) (lle_dev l)"
    "\<not> writeTransactionInProgress (elem w (raw_elem i))"
    using idle by (simp_all add: idle_accessor_def Let_def a_def l_def i_def)
  from raw_preWrite[OF r[unfolded l_def] idle'(2,3)[unfolded l_def] idle'(4) v]
  obtain w1 bs where w1: "preWrite (ll_impl D) ty v (raw_elem i) w = (Ret (), w1)"
    "heap w1 = (heap w)\<lparr>unalignedAccess := (unalignedAccess (heap w))(lle_dev l := isUnaligned l),
      raws := (raws (heap w))(i := l\<lparr>ownsLock := isUnaligned l, rawDataBuffer := bs\<rparr>)\<rparr>"
    "elem w1 = (elem w)(raw_elem i := (elem w (raw_elem i))\<lparr>activeException := None, writeTransactionInProgress := True\<rparr>)"
    "isUnaligned l \<longrightarrow> shows_area l (hw (heap w) (lle_dev l)) bs" "length bs = numberOfBytes l"
    unfolding l_def by blast
  have open_dev: "dev_isOpen D (hw (heap w) (acc_dev a))"
    using r idle'(1) by (simp add: reachable_area_def open_when_ready)
  define w2 where "w2 = upd (raw_elem i) (\<lambda>t. t\<lparr>dataValidity := dataValidity (elem w1 (2 * k))\<rparr>)
    (upd_raw i (\<lambda>l. l\<lparr>rawDataBuffer := overwrite (begin_offset a l) (raw_bytes a) (rawDataBuffer l)\<rparr>) w1)"
  have "acc_doPreWrite D (2 * k) ty v w = (Ret (), w2)"
    using open_dev w1(1) ok by (auto simp: acc_doPreWrite_def w2_def a_def i_def Let_def)
  moreover have "begin_offset a (l\<lparr>ownsLock := x, rawDataBuffer := y\<rparr>) = begin_offset a l" for x y
    by (simp add: begin_offset_def)
  ultimately show ?thesis using w1
    by (intro exI[of _ w2] exI[of _ bs] exI[of _ "elem w2 (raw_elem i)"])
      (auto simp: w2_def upd_def upd_raw_def fun_eq_iff)
qed


lemma raw_write:
  fixes w :: "('h, 'u) na_heap world" and i :: nat
  defines "l \<equiv> raws (heap w) i"
  assumes r: "reachable_area l (hw (heap w) (lle_dev l))"
  shows "\<exists>h' w1. writeTransfer (ll_impl D) v (raw_elem i) w = (Ret False, w1) \<and>
    heap w1 = (heap w)\<lparr>hw := (hw (heap w))(lle_dev l := h')\<rparr> \<and> elem w1 = elem w \<and> ready h' \<and>
    (\<forall>b x. mem h' b x = (if b = lle_bar l \<and> startAddress l \<le> x \<and> x < startAddress l + numberOfBytes l
       then Some (rawDataBuffer l ! (x - startAddress l)) else mem (hw (heap w) (lle_dev l)) b x)) \<and>
    (\<forall>b x n. inside b x n h' = inside b x n (hw (heap w) (lle_dev l)))"
proof -
  from r obtain h' where h': "dev_write D (lle_bar l) (startAddress l) (rawDataBuffer l) (hw (heap w) (lle_dev l)) = (Ret (), h')"
    "ready h'" "\<forall>b x. mem h' b x = (if b = lle_bar l \<and> startAddress l \<le> x \<and> x < startAddress l + numberOfBytes l
       then Some (rawDataBuffer l ! (x - startAddress l)) else mem (hw (heap w) (lle_dev l)) b x)"
    "\<forall>b x n. inside b x n h' = inside b x n (hw (heap w) (lle_dev l))"
    using write_mem[of "hw (heap w) (lle_dev l)" "lle_bar l" "startAddress l" "rawDataBuffer l"]
    unfolding reachable_area_def aligned_area_def by metis
  let ?w = "logged (CallWriteTransfer (raw_elem i) v) w"
  have "writeTransfer (ll_impl D) v (raw_elem i) w = (Ret False, upd_hw (lle_dev l) h' ?w)"
    using h'(1) by (simp add: writeTransfer_def ll_impl_def ll_doWriteTransfer_def l_def raw_elem_def)
  then show ?thesis using h' by (intro exI[of _ h'] exI[of _ "upd_hw (lle_dev l) h' ?w"]) (simp add: upd_hw_def)
qed

text \<open>What is in the area after a write: the register's bytes are the accessor's.\<close>

lemma overwritten_area:
  assumes "shows_area l h bs \<or> (reg_address (acc_info a) = startAddress l \<and> register_bytes a = numberOfBytes l)"
    and "length bs = numberOfBytes l" and "startAddress l \<le> reg_address (acc_info a)"
    and "reg_address (acc_info a) + register_bytes a \<le> startAddress l + numberOfBytes l"
    and "length (raw_bytes a) = register_bytes a"
    and "startAddress l \<le> x" "x < startAddress l + numberOfBytes l"
  shows "Some (overwrite (begin_offset a l) (raw_bytes a) bs ! (x - startAddress l)) =
    (if reg_address (acc_info a) \<le> x \<and> x < reg_address (acc_info a) + register_bytes a
     then Some (raw_bytes a ! (x - reg_address (acc_info a))) else mem h (lle_bar l) x)"
proof -
  let ?o = "reg_address (acc_info a) - startAddress l" and ?j = "x - startAddress l"
  have j: "?j < numberOfBytes l" "startAddress l + ?j = x" using assms(6,7) by auto
  have len: "length (take ?o bs) = ?o" using assms(2-4) by simp
  consider "?j < ?o" | "?o \<le> ?j" "?j < ?o + register_bytes a" | "?o + register_bytes a \<le> ?j" by linarith
  then show ?thesis
  proof cases
    case 1
    then have "shows_area l h bs" "\<not> reg_address (acc_info a) \<le> x" using assms by auto
    with 1 j len show ?thesis by (auto simp: overwrite_def begin_offset_def shows_area_def nth_append)
  next
    case 2
    then have "reg_address (acc_info a) \<le> x" "x < reg_address (acc_info a) + register_bytes a"
      "?j - ?o = x - reg_address (acc_info a)" "x - reg_address (acc_info a) < register_bytes a"
      using assms(3,6) by auto
    with 2 len assms(5) show ?thesis by (simp add: overwrite_def begin_offset_def nth_append)
  next
    case 3
    then have "shows_area l h bs" "\<not> x < reg_address (acc_info a) + register_bytes a" using assms j(1) by auto
    moreover have "?o + register_bytes a + (?j - ?o - register_bytes a) = ?j" using 3 by linarith
    then have "drop (?o + register_bytes a) bs ! (?j - ?o - register_bytes a) = bs ! ?j"
      using 3 assms(2) j(1) by (subst nth_drop) auto
    ultimately show ?thesis using 3 j len assms(5) by (auto simp: overwrite_def begin_offset_def shows_area_def nth_append)
  qed
qed

lemma length_raw_bytes: "\<forall>u. length (uncook a u) = rawSize a \<Longrightarrow> length (raw_bytes a) = register_bytes a"
  by (simp add: raw_bytes_def register_bytes_def length_concat comp_def sum_list_triv)


text \<open>A whole \<open>write()\<close>.\<close>

lemma write_accessor:
  fixes w :: "('h, 'u) na_heap world" and k :: nat and v :: version_number
  defines "a \<equiv> accs (heap w) k" and "i \<equiv> rawAccessor (accs (heap w) k)"
  defines "l \<equiv> raws (heap w) i"
  assumes idle: "idle_accessor alignment k w" and r: "reachable_area l (hw (heap w) (lle_dev l))"
    and v: "\<not> v < versionNumber (elem w (2 * k))" "\<not> v < versionNumber (elem w (raw_elem i))"
    and ok: "isRaw a \<or> info_isWriteable (acc_info a)"
    and pad: "isUnaligned l \<or> (reg_address (acc_info a) = startAddress l \<and> register_bytes a = numberOfBytes l)"
  shows "\<exists>h' w'. write_te (na_impl D) v (2 * k) w = (Ret False, w') \<and>
    idle_accessor alignment k w' \<and> accs (heap w') = accs (heap w) \<and>
    lle_dev (raws (heap w') i) = lle_dev l \<and> lle_bar (raws (heap w') i) = lle_bar l \<and>
    startAddress (raws (heap w') i) = startAddress l \<and> numberOfBytes (raws (heap w') i) = numberOfBytes l \<and>
    reachable_area (raws (heap w') i) h' \<and>
    hw (heap w') = (hw (heap w))(lle_dev l := h') \<and> unalignedAccess (heap w') = unalignedAccess (heap w) \<and>
    (\<forall>b x. mem h' b x = (if b = lle_bar l \<and> reg_address (acc_info a) \<le> x \<and> x < reg_address (acc_info a) + register_bytes a
       then Some (raw_bytes a ! (x - reg_address (acc_info a))) else mem (hw (heap w) (lle_dev l)) b x))"
proof -
  let ?e = "2 * k" and ?f = "raw_elem i" and ?V = "na_impl D" and ?h = "hw (heap w) (lle_dev l)"
  have ef: "?f \<noteq> ?e" "?e \<noteq> ?f" "?e div 2 = k" by (simp_all add: raw_elem_def, presburger+)
  have ia: "rawAccessor a = i" by (simp add: a_def i_def)
  note idl = idle[unfolded idle_accessor_def Let_def, folded a_def i_def, folded l_def]
  define w0 where "w0 = write_started TT_write v ?e w"
  have w0: "heap w0 = heap w"
    "elem w0 = (elem w)(?e := (elem w ?e)\<lparr>writeTransactionInProgress := True, activeException := None\<rparr>)"
    by (auto simp: w0_def write_started_def upd_def fun_eq_iff)
  have "idle_accessor alignment k w0" "\<not> v < versionNumber (elem w0 (raw_elem (rawAccessor (accs (heap w0) k))))"
    using idle v ef(1) by (simp_all add: idle_accessor_def Let_def w0 i_def raw_elem_def)
  from accessor_preWrite[OF this(1) _ this(2), of TT_write] r ok
  obtain w1 bs t where p: "acc_doPreWrite D ?e TT_write v w0 = (Ret (), w1)"
    "heap w1 = (heap w)\<lparr>unalignedAccess := (unalignedAccess (heap w))(lle_dev l := isUnaligned l),
      raws := (raws (heap w))(i := l\<lparr>ownsLock := isUnaligned l,
        rawDataBuffer := overwrite (begin_offset a l) (raw_bytes a) bs\<rparr>)\<rparr>"
    "elem w1 = (elem w0)(?f := t)" "activeException t = None" "writeTransactionInProgress t"
    "te_flags t = te_flags (elem w0 ?f)" "readTransactionInProgress t = readTransactionInProgress (elem w0 ?f)"
    "isUnaligned l \<longrightarrow> shows_area l ?h bs" "length bs = numberOfBytes l"
    unfolding w0(1) a_def l_def i_def by metis
  let ?l1 = "raws (heap w1) i"
  have l1: "?l1 = l\<lparr>ownsLock := isUnaligned l, rawDataBuffer := overwrite (begin_offset a l) (raw_bytes a) bs\<rparr>"
    "hw (heap w1) = hw (heap w)" "accs (heap w1) = accs (heap w)"
    using p(2) by simp_all
  have len: "length (raw_bytes a) = register_bytes a"
    using idl by (intro length_raw_bytes) blast
  have len1: "length (overwrite (begin_offset a l) (raw_bytes a) bs) = numberOfBytes l"
  proof -
    have "reg_address (acc_info a) - startAddress l + register_bytes a \<le> numberOfBytes l" using idl by linarith
    then show ?thesis using p(9) len by (simp add: overwrite_def begin_offset_def)
  qed
  have r1: "reachable_area ?l1 (hw (heap w1) (lle_dev ?l1))"
    using r len1 by (simp add: l1 reachable_area_def aligned_area_def)
  let ?w1 = "logged (CallWriteTransfer ?e v) w1"
  from raw_write[of ?w1 i v] r1 obtain h' w2 where q: "writeTransfer (ll_impl D) v ?f ?w1 = (Ret False, w2)"
    "heap w2 = (heap w1)\<lparr>hw := (hw (heap w))(lle_dev l := h')\<rparr>" "elem w2 = elem w1" "ready h'"
    "\<forall>b x. mem h' b x = (if b = lle_bar l \<and> startAddress l \<le> x \<and> x < startAddress l + numberOfBytes l
       then Some (rawDataBuffer ?l1 ! (x - startAddress l)) else mem ?h b x)"
    "\<forall>b x n. inside b x n h' = inside b x n ?h"
    by (auto simp: l1)
  define w3 where "w3 = handOver ?e ?f (logged (CallPostWrite ?e TT_write v)
    (upd ?e (\<lambda>t. t\<lparr>writeTransactionInProgress := False\<rparr>) w2))"
  have act2: "activeException (elem w2 ?e) = None" "writeTransactionInProgress (elem w2 ?e)"
    using q(3) p(3) ef(2) by (simp_all add: w0(2))
  have w3: "heap w3 = heap w2" "elem w3 ?f = t"
    "\<forall>x. x \<noteq> ?e \<longrightarrow> elem w3 x = elem w2 x" "same_setup (elem w2 ?e) (elem w3 ?e)"
    "activeException (elem w3 ?e) = None"
    using act2 q(3) p(3) ef by (simp_all add: w3_def handOver_def setActiveException_def same_setup_def)
  from raw_postWrite[of w3 i TT_write v] obtain w4 where s: "postWrite (ll_impl D) TT_write v ?f w3 = (Ret (), w4)"
    "elem w4 = (elem w3)(?f := t\<lparr>writeTransactionInProgress := False, versionNumber := v\<rparr>)"
    "hw (heap w4) = hw (heap w2)" "accs (heap w4) = accs (heap w2)"
    "raws (heap w4) = (raws (heap w2))(i := ?l1\<lparr>ownsLock := False\<rparr>)"
    "unalignedAccess (heap w4) = (unalignedAccess (heap w2))(lle_dev l := False)"
    using p(2,4,5) q(2) w3 l1 by auto
  define w5 where "w5 = upd ?e (\<lambda>t. t\<lparr>versionNumber := v\<rparr>) w4"
  have run: "write_te (na_impl D) v ?e w = (Ret False, w5)"
  proof -
    have pre: "preWriteAndHandleExceptions ?V TT_write v ?e (upd ?e (\<lambda>t. t\<lparr>writeTransactionInProgress := False\<rparr>) w) = (Ret (), w1)"
      using p(1) v by (simp add: preWriteAndHandleExceptions_def handlePreException_def preWrite_def na_hooks
          w0_def write_started_def)
    have "writeTransfer ?V v ?e w1 = (Ret False, w2)"
      using q(1) by (simp add: writeTransfer_def[of ?V] na_hooks acc_doWriteTransfer_def l1(3) flip: i_def)
    then have tr: "handleTransferException ?e True (writeTransfer ?V v ?e) w1 = (Ret False, w2)"
      by (simp add: handleTransferException_def)
    have "dev_isOpen D (hw (heap w2) (acc_dev a))" using q(2,4) idl open_when_ready by simp
    then have "acc_doPostWrite D ?e TT_write v (logged (CallPostWrite ?e TT_write v)
        (upd ?e (\<lambda>t. t\<lparr>writeTransactionInProgress := False\<rparr>) w2)) = (Ret (), w4)"
      using s(1) q(2) l1(3) ia by (simp add: acc_doPostWrite_def w3_def Let_def flip: a_def)
    moreover have "activeException (elem w4 ?e) = None" using s(2) w3(5) ef(2) by simp
    ultimately have post: "postWriteAndHandleExceptions ?V TT_write v ?e w2 = (Ret (), w5)"
      using act2 by (simp add: postWriteAndHandleExceptions_def reportException_def postWrite_def na_hooks
          rethrowActive_def w5_def)
    have "noException ?e w1" using act2 q(3) by (simp add: noException_def)
    then show ?thesis using pre tr post idl by (simp add: write_te_def)
  qed
  have h5: "hw (heap w5) = (hw (heap w))(lle_dev l := h')" "accs (heap w5) = accs (heap w)"
    "raws (heap w5) = (raws (heap w))(i := ?l1\<lparr>ownsLock := False\<rparr>)"
    "unalignedAccess (heap w5) = unalignedAccess (heap w)"
    using s q(2) p(2) idl by (simp_all add: w5_def fun_upd_idem)
  have e5: "same_setup (elem w ?e) (elem w5 ?e)" "te_flags (elem w5 ?f) = te_flags (elem w ?f)"
    "readTransactionInProgress (elem w5 ?f) = readTransactionInProgress (elem w ?f)"
    "\<not> writeTransactionInProgress (elem w5 ?f)"
    using s(2) w3(4) q(3) p(3,6,7) ef by (simp_all add: w5_def w0(2) same_setup_def)
  have idle5: "idle_accessor alignment k w5"
    using idl h5 e5 l1 len1 unfolding idle_accessor_def Let_def
    by (simp add: same_setup_def aligned_area_def ia flip: a_def)
  have "reachable_area (raws (heap w5) i) h'"
    using r len1 q(4,6) h5(3) by (simp add: l1 reachable_area_def aligned_area_def)
  moreover have "mem h' b x = (if b = lle_bar l \<and> reg_address (acc_info a) \<le> x \<and> x < reg_address (acc_info a) + register_bytes a
       then Some (raw_bytes a ! (x - reg_address (acc_info a))) else mem ?h b x)" for b x
    using q(5)[rule_format, of b x] overwritten_area[of l ?h bs a x] p(8,9) pad idl len by (auto simp: l1(1))
  ultimately show ?thesis
    using run idle5 h5 l1(1) by (intro exI[of _ h'] exI[of _ w5]) simp
qed

lemma read_accessor:
  fixes w :: "('h, 'u) na_heap world" and k :: nat
  defines "a \<equiv> accs (heap w) k" and "i \<equiv> rawAccessor (accs (heap w) k)"
  defines "l \<equiv> raws (heap w) i"
  assumes idle: "idle_accessor alignment k w" and r: "reachable_area l (hw (heap w) (lle_dev l))"
    and ok: "info_isReadable (acc_info a)"
  shows "\<exists>w' bs. read_te (na_impl D) (2 * k) w = (Ret (), w') \<and> shows_area l (hw (heap w) (lle_dev l)) bs \<and>
    accs (heap w') = (accs (heap w))(k := a\<lparr>buffer := cooked_values a (l\<lparr>rawDataBuffer := bs\<rparr>)\<rparr>) \<and>
    hw (heap w') = hw (heap w) \<and> unalignedAccess (heap w') = unalignedAccess (heap w)"
proof -
  let ?e = "2 * k" and ?f = "raw_elem i" and ?V = "na_impl D" and ?h = "hw (heap w) (lle_dev l)"
  have ef: "?f \<noteq> ?e" "?e \<noteq> ?f" "?e div 2 = k" "?f div 2 = i" by (simp_all add: raw_elem_def, presburger+)
  have ia: "rawAccessor a = i" by (simp add: a_def i_def)
  note idl = idle[unfolded idle_accessor_def Let_def, folded a_def i_def, folded l_def]
  define w0 where "w0 = read_started TT_read ?e w"
  define w1 where "w1 = logged (CallPreRead ?f TT_read) (upd ?f (\<lambda>t. t\<lparr>readTransactionInProgress := True\<rparr>)
    (upd ?f (\<lambda>t. t\<lparr>activeException := None\<rparr>) w0))"
  have h: "heap w0 = heap w" "heap w1 = heap w" by (simp_all add: w0_def w1_def read_started_def)
  have e0: "elem w0 ?f = elem w ?f" "elem w1 ?e = (elem w ?e)\<lparr>readTransactionInProgress := True, activeException := None\<rparr>"
    "elem w1 ?f = (elem w ?f)\<lparr>readTransactionInProgress := True, activeException := None\<rparr>"
    using ef by (simp_all add: w0_def w1_def read_started_def)
  have open_dev: "dev_isOpen D (hw (heap w) (acc_dev a))"
    using r idl by (simp add: reachable_area_def open_when_ready)
  have "preRead (ll_impl D) TT_read ?f w0 = (Ret (), w1)"
    using idl e0 by (simp add: preRead_def w1_def ll_impl_def)
  then have "acc_doPreRead D ?e TT_read w0 = (Ret (), w1)"
    using open_dev ok by (simp add: acc_doPreRead_def h ia Let_def flip: a_def)
  then have pre: "preReadAndHandleExceptions ?V TT_read ?e (upd ?e (\<lambda>t. t\<lparr>readTransactionInProgress := False\<rparr>) w) = (Ret (), w1)"
    by (simp add: preReadAndHandleExceptions_def handlePreException_def preRead_def na_hooks w0_def read_started_def)
  define w2 where "w2 = logged (CallReadTransfer ?f) (logged (CallReadTransfer ?e) w1)"
  have h2: "heap w2 = heap w" "elem w2 = elem w1" by (simp_all add: w2_def h)
  from read_area[of w2 i] r obtain bs where bs: "read_into_buffer D i w2 = (Ret (), upd_raw i (\<lambda>l. l\<lparr>rawDataBuffer := bs\<rparr>) w2)"
    "shows_area l ?h bs" unfolding h2 l_def by blast
  define w3 where "w3 = upd_raw i (\<lambda>l. l\<lparr>rawDataBuffer := bs\<rparr>) w2"
  have "readTransfer ?V ?e w1 = (Ret (), w3)"
    using idl e0 bs(1) ef by (simp add: readTransfer_def na_hooks acc_doReadTransferSynchronously_def h ia
        ll_impl_def ll_doReadTransferSynchronously_def w3_def w2_def flip: a_def)
  then have tr: "handleTransferException ?e () (readTransfer ?V ?e) w1 = (Ret (), w3)"
    by (simp add: handleTransferException_def)
  have h3: "accs (heap w3) = accs (heap w)" "hw (heap w3) = hw (heap w)" "unalignedAccess (heap w3) = unalignedAccess (heap w)"
    "raws (heap w3) i = l\<lparr>rawDataBuffer := bs\<rparr>" "elem w3 = elem w1"
    by (simp_all add: w3_def upd_raw_def h2 l_def)
  define w4 where "w4 = handOver ?e ?f (logged (CallPostRead ?e TT_read True) (upd ?e (\<lambda>t. t\<lparr>readTransactionInProgress := False\<rparr>) w3))"
  have e4: "heap w4 = heap w3" "readTransactionInProgress (elem w4 ?f)" "activeException (elem w4 ?f) = None"
    "activeException (elem w4 ?e) = None"
    using ef h3(5) e0 by (simp_all add: w4_def handOver_def setActiveException_def)
  define g where "g = snd (newVersion (na_lastGenerated (heap w4)))"
  define v where "v = fst (newVersion (na_lastGenerated (heap w4)))"
  let ?w4 = "logged (CallPostRead ?f TT_read True) (upd ?f (\<lambda>t. t\<lparr>readTransactionInProgress := False\<rparr>) w4)"
  define w5 where "w5 = upd ?f (\<lambda>t. t\<lparr>versionNumber := v\<rparr>) (?w4\<lparr>heap := (heap ?w4)\<lparr>na_lastGenerated := g\<rparr>\<rparr>)"
  have "ll_doPostRead ?f TT_read True ?w4 = (Ret (), w5)"
    by (simp add: ll_doPostRead_def w5_def g_def v_def split_beta)
  then have "postRead (ll_impl D) TT_read True ?f w4 = (Ret (), w5)"
    using e4 by (simp add: postRead_def ll_impl_def rethrowActive_def w5_def Let_def)
  moreover have "heap w5 = (heap w4)\<lparr>na_lastGenerated := g\<rparr>" "activeException (elem w5 ?e) = None"
    using ef e4 by (simp_all add: w5_def upd_def logged_def)
  ultimately obtain w6 where w6: "acc_doPostRead D ?e TT_read True (logged (CallPostRead ?e TT_read True)
      (upd ?e (\<lambda>t. t\<lparr>readTransactionInProgress := False\<rparr>) w3)) = (Ret (), w6)"
    "heap w6 = heap (upd_acc k (\<lambda>a. a\<lparr>buffer := cooked_values a (l\<lparr>rawDataBuffer := bs\<rparr>)\<rparr>) w5)"
    "activeException (elem w6 ?e) = None"
    using open_dev ef h3 e4(1) by (simp add: acc_doPostRead_def w4_def[symmetric] ia Let_def flip: a_def)
  have "postReadAndHandleExceptions ?V TT_read True ?e w3 = (Ret (), w6)"
    using w6 h3(5) e0(2) by (simp add: postReadAndHandleExceptions_def reportException_def postRead_def na_hooks rethrowActive_def)
  moreover have "noException ?e w1" "noException ?e w3" using h3(5) e0 by (simp_all add: noException_def)
  ultimately have "read_te ?V ?e w = (Ret (), w6)" using pre tr idl by (simp add: read_te_def)
  moreover have "accs (heap w6) = (accs (heap w))(k := a\<lparr>buffer := cooked_values a (l\<lparr>rawDataBuffer := bs\<rparr>)\<rparr>)"
    "hw (heap w6) = hw (heap w)" "unalignedAccess (heap w6) = unalignedAccess (heap w)"
    using w6(2) \<open>heap w5 = _\<close> e4(1) h3 by (simp_all add: upd_acc_def a_def)
  ultimately show ?thesis using bs(2) by blast
qed

end

end
