(* ===== verification/NumericAccessors.thy ===== *)
theory NumericAccessors
  imports NumericTransfers
begin

text \<open>
  The simulated device as the memory of the accessors, and the properties of creating,
  merging, writing and reading accessors.
\<close>

section \<open>Accessors of a simulated device\<close>

definition dummy_na_device ::
  "(nat \<Rightarrow> ('d, 'q) dummy_device \<Rightarrow> ('d, 'q) dummy_device) \<Rightarrow> (string \<Rightarrow> ('d, 'q) dummy_device \<Rightarrow> ('d, 'q) dummy_device) \<Rightarrow>
     ('d, 'q) dummy_device na_device" where
  "dummy_na_device run report =
     \<lparr>dev_isOpen = (\<lambda>d. opened (dummy_base d)), dev_alignment = (\<lambda>bar. 4), dev_canMergeRequests = True,
      dev_barIndexValid = (\<lambda>bar. True), dev_read = dummy_read, dev_write = dummy_write run,
      dev_setException = report\<rparr>"

interpretation dummy_na: na_memory "dummy_na_device run report" dummy_mem 4 dummy_ready dummy_inside
  for run report
proof -
  have "device_memory (dev_read (dummy_na_device run report)) (dev_write (dummy_na_device run report)) dummy_mem 4 dummy_ready dummy_inside"
    using dummy_memory.device_memory_axioms[of run] by (simp add: dummy_na_device_def)
  then show "na_memory (dummy_na_device run report) dummy_mem 4 dummy_ready dummy_inside"
    by (intro na_memory.intro na_memory_axioms.intro) (simp_all add: dummy_na_device_def dummy_ready_def)
qed

lemma chunk_of_concat:
  assumes "\<forall>u. length (f u) = n" and "i < length xs"
  shows "take n (drop (i * n) (concat (map f xs))) = f (xs ! i)"
  using assms(2)
proof (induction xs arbitrary: i)
  case (Cons x xs)
  then show ?case using assms(1) by (cases i) auto
qed simp

text \<open>Reading the bytes a buffer was written as gives the buffer.\<close>

lemma cooked_raw_bytes:
  assumes len: "\<forall>u. length (uncook a u) = rawSize a" and inv: "\<forall>u. cook a (uncook a u) = u"
    and bytes: "\<forall>j < register_bytes a. rawDataBuffer l ! (begin_offset a l + j) = raw_bytes a ! j"
    and fit: "begin_offset a l + register_bytes a \<le> length (rawDataBuffer l)"
  shows "cooked_values a l = buffer a"
proof (cases "rawSize a = 0")
  case True
  then show ?thesis by (simp add: cooked_values_def)
next
  case False
  let ?o = "begin_offset a l" and ?n = "rawSize a"
  have raw: "raw_bytes a = concat (map (uncook a) (buffer a))" using False by (simp add: raw_bytes_def)
  have "length (raw_bytes a) = register_bytes a" by (rule dummy_na.length_raw_bytes[OF len])
  then have eq: "take (register_bytes a) (drop ?o (rawDataBuffer l)) = raw_bytes a"
    using bytes fit by (intro nth_equalityI) auto
  have "take ?n (drop (?o + i * ?n) (rawDataBuffer l)) = uncook a (buffer a ! i)" if i: "i < length (buffer a)" for i
  proof -
    have "Suc i * ?n \<le> register_bytes a"
      unfolding register_bytes_def using i by (metis Suc_leI mult.commute mult_le_mono2)
    then have "take ?n (drop (i * ?n) (take (register_bytes a) (drop ?o (rawDataBuffer l)))) =
        take ?n (drop (?o + i * ?n) (rawDataBuffer l))"
      by (simp add: drop_take take_take min_def add.commute)
    then show ?thesis using chunk_of_concat[OF len i] unfolding eq raw by simp
  qed
  then have "cooked_values a l = map (\<lambda>i. buffer a ! i) [0 ..< length (buffer a)]"
    using inv False unfolding cooked_values_def by (auto intro!: map_cong)
  then show ?thesis by (simp add: map_nth)
qed

text \<open>
  C12: a \<open>write()\<close> through an accessor changes the bytes of its register and no other byte of
  the device, although the transfer covers whole aligned words; it gives back the lock;
  and a following \<open>read()\<close> fills the buffer with what was written.
\<close>

theorem accessor_write_then_read:
  fixes w :: "(('d, 'q) dummy_device, 'u) na_heap world" and k :: nat
  defines "l \<equiv> raws (heap w) (rawAccessor (accs (heap w) k))" and "a \<equiv> accs (heap w) k"
  assumes idle: "idle_accessor 4 k w" and ready: "dummy_ready (hw (heap w) (lle_dev l))"
      "dummy_inside (lle_bar l) (startAddress l) (numberOfBytes l) (hw (heap w) (lle_dev l))"
    and v: "versionNumber (elem w (2 * k)) \<le> v" "versionNumber (elem w (raw_elem (rawAccessor a))) \<le> v"
    and access: "info_isReadable (acc_info a)" "info_isWriteable (acc_info a)"
    and pad: "isUnaligned l \<or> (reg_address (acc_info a) = startAddress l \<and> register_bytes a = numberOfBytes l)"
    and inv: "\<forall>u. cook a (uncook a u) = u"
  shows "\<exists>w1 w2. write_te (na_impl (dummy_na_device run report)) v (2 * k) w = (Ret False, w1) \<and>
    (\<forall>b x. dummy_mem (hw (heap w1) (lle_dev l)) b x =
       (if b = lle_bar l \<and> reg_address (acc_info a) \<le> x \<and> x < reg_address (acc_info a) + register_bytes a
        then Some (raw_bytes a ! (x - reg_address (acc_info a))) else dummy_mem (hw (heap w) (lle_dev l)) b x)) \<and>
    unalignedAccess (heap w1) = unalignedAccess (heap w) \<and>
    read_te (na_impl (dummy_na_device run report)) (2 * k) w1 = (Ret (), w2) \<and>
    buffer (accs (heap w2) k) = buffer a"
proof -
  let ?D = "dummy_na_device run report" and ?i = "rawAccessor a"
  note idl = idle[unfolded idle_accessor_def Let_def, folded a_def, folded l_def[folded a_def]]
  have r: "dummy_na.reachable_area l (hw (heap w) (lle_dev l))"
    using idl ready by (simp add: dummy_na.reachable_area_def l_def a_def)
  from dummy_na.write_accessor[OF idle, where report = report and run = run and v = v] r v access pad
  obtain h' w1 where w1: "write_te (na_impl ?D) v (2 * k) w = (Ret False, w1)" "idle_accessor 4 k w1"
    "accs (heap w1) = accs (heap w)" "lle_dev (raws (heap w1) ?i) = lle_dev l"
    "lle_bar (raws (heap w1) ?i) = lle_bar l" "startAddress (raws (heap w1) ?i) = startAddress l"
    "numberOfBytes (raws (heap w1) ?i) = numberOfBytes l"
    "dummy_na.reachable_area (raws (heap w1) ?i) h'" "hw (heap w1) = (hw (heap w))(lle_dev l := h')"
    "unalignedAccess (heap w1) = unalignedAccess (heap w)"
    "\<forall>b x. dummy_mem h' b x = (if b = lle_bar l \<and> reg_address (acc_info a) \<le> x \<and> x < reg_address (acc_info a) + register_bytes a
       then Some (raw_bytes a ! (x - reg_address (acc_info a))) else dummy_mem (hw (heap w) (lle_dev l)) b x)"
    unfolding l_def a_def not_less by blast
  let ?l1 = "raws (heap w1) ?i"
  from dummy_na.read_accessor[OF w1(2), where report = report and run = run] access(1)
  obtain w2 bs where w2: "read_te (na_impl ?D) (2 * k) w1 = (Ret (), w2)" "dummy_na.shows_area ?l1 h' bs"
    "accs (heap w2) = (accs (heap w1))(k := a\<lparr>buffer := cooked_values a (?l1\<lparr>rawDataBuffer := bs\<rparr>)\<rparr>)"
    using w1(3-9) by (auto simp: a_def)
  have "cooked_values a (?l1\<lparr>rawDataBuffer := bs\<rparr>) = buffer a"
  proof (rule cooked_raw_bytes)
    let ?o = "reg_address (acc_info a) - startAddress l"
    show "\<forall>u. length (uncook a u) = rawSize a" "\<forall>u. cook a (uncook a u) = u" using idl inv by auto
    have bs: "length bs = numberOfBytes l" "\<And>j. j < numberOfBytes l \<Longrightarrow> dummy_mem h' (lle_bar l) (startAddress l + j) = Some (bs ! j)"
      using w2(2) w1(4-7) by (simp_all add: dummy_na.shows_area_def)
    show "begin_offset a (?l1\<lparr>rawDataBuffer := bs\<rparr>) + register_bytes a \<le> length (rawDataBuffer (?l1\<lparr>rawDataBuffer := bs\<rparr>))"
    proof -
      have "?o + register_bytes a \<le> numberOfBytes l" using idl by linarith
      then show ?thesis using w1(6) bs by (simp add: begin_offset_def)
    qed
    show "\<forall>j < register_bytes a. rawDataBuffer (?l1\<lparr>rawDataBuffer := bs\<rparr>) ! (begin_offset a (?l1\<lparr>rawDataBuffer := bs\<rparr>) + j) = raw_bytes a ! j"
    proof (intro allI impI)
      fix j assume j: "j < register_bytes a"
      have "?o + j < numberOfBytes l" using idl j by linarith
      then have "Some (bs ! (?o + j)) = Some (raw_bytes a ! j)"
        using bs(2)[of "?o + j"] w1(11)[rule_format, of "lle_bar l" "reg_address (acc_info a) + j"] idl j by simp
      then show "rawDataBuffer (?l1\<lparr>rawDataBuffer := bs\<rparr>) ! (begin_offset a (?l1\<lparr>rawDataBuffer := bs\<rparr>) + j) = raw_bytes a ! j"
        using w1(6) by (simp add: begin_offset_def)
    qed
  qed
  with w1 w2 show ?thesis by (intro exI[of _ w1] exI[of _ w2]) simp
qed

text \<open>A device of which the bytes 5 and 6 of bar 0 are a register of two bytes.\<close>

definition sample_na_world :: "((unit, string list) dummy_device, 8 word) na_heap world" where
  "sample_na_world =
     \<lparr>elem = (\<lambda>e. new_te ''reg'' {}), calls = [],
      heap = \<lparr>hw = (\<lambda>_. sample_dummy), unalignedAccess = (\<lambda>_. False),
        raws = (\<lambda>i. setAddress 4 5 2 \<lparr>lle_dev = 0, lle_bar = 0, startAddress = 0, numberOfBytes = 0,
          isShared = False, isUnaligned = False, ownsLock = False, rawDataBuffer = []\<rparr>),
        accs = (\<lambda>k. \<lparr>acc_dev = 0,
          acc_info = \<lparr>reg_bar = 0, reg_address = 5, nElements = 2, elementPitchBits = 8,
            registerAccess = READ_WRITE, channels = []\<rparr>,
          rawAccessor = 0, isRaw = False, rawSize = 1, cook = hd, uncook = (\<lambda>u. [u]), buffer = [171, 205]\<rparr>),
        na_lastGenerated = 0\<rparr>\<rparr>"

lemma sample_na_area:
  "setAddress 4 5 2 l = l\<lparr>startAddress := 4, numberOfBytes := 4, isUnaligned := True,
     rawDataBuffer := resize 4 (rawDataBuffer l)\<rparr>"
proof -
  have four: "Suc (Suc (Suc (Suc 0))) = 4" by simp
  show ?thesis by (simp add: setAddress_def four)
qed

lemmas sample_na_defs = sample_na_world_def sample_na_area sample_dummy_def new_te_def initial_backend_def

theorem accessor_write_then_read_witness:
  "\<exists>w1 w2. write_te (na_impl (dummy_na_device (\<lambda>_ d. d) (\<lambda>_ d. d))) (VersionNumber 3) (2 * 0) sample_na_world = (Ret False, w1) \<and>
    (\<forall>b x. dummy_mem (hw (heap w1) 0) b x =
       (if b = 0 \<and> 5 \<le> x \<and> x < 7 then Some ([171, 205] ! (x - 5)) else dummy_mem sample_dummy b x)) \<and>
    unalignedAccess (heap w1) = (\<lambda>_. False) \<and>
    read_te (na_impl (dummy_na_device (\<lambda>_ d. d) (\<lambda>_ d. d))) (2 * 0) w1 = (Ret (), w2) \<and>
    buffer (accs (heap w2) 0) = [171, 205]"
proof -
  let ?a = "accs (heap sample_na_world) 0" and ?l = "raws (heap sample_na_world) 0"
  have a: "rawAccessor ?a = 0" "lle_dev ?l = 0" "lle_bar ?l = 0" "reg_address (acc_info ?a) = 5" "register_bytes ?a = 2"
    "raw_bytes ?a = [171, 205]" "buffer ?a = [171, 205]" "hw (heap sample_na_world) 0 = sample_dummy"
    "unalignedAccess (heap sample_na_world) = (\<lambda>_. False)"
    by (simp_all add: sample_na_world_def sample_na_area register_bytes_def raw_bytes_def)
  have "idle_accessor 4 0 sample_na_world"
    by (simp add: idle_accessor_def sample_na_defs aligned_area_def register_bytes_def has_def)
  moreover have "dummy_ready (hw (heap sample_na_world) 0)" "dummy_inside 0 (startAddress ?l) (numberOfBytes ?l) sample_dummy"
    by (simp_all add: sample_na_defs dummy_ready_def dummy_inside_def dummy_isReadOnly_def)
  moreover have "versionNumber (elem sample_na_world x) \<le> VersionNumber 3" for x
    by (simp add: sample_na_defs nullVersion_def less_eq_version_number_def)
  moreover have "info_isReadable (acc_info ?a)" "info_isWriteable (acc_info ?a)" "isUnaligned ?l" "\<forall>u. cook ?a (uncook ?a u) = u"
    by (simp_all add: sample_na_world_def sample_na_area info_isReadable_def info_isWriteable_def)
  ultimately show ?thesis
    using accessor_write_then_read[of 0 sample_na_world "VersionNumber 3" "\<lambda>_ d. d" "\<lambda>_ d. d"] unfolding a by simp
qed

section \<open>Creating and merging accessors\<close>

text \<open>
  A constructor that succeeds gives an accessor whose bytes lie in the register, and a
  low-level element whose area is aligned, covers these bytes with less than one transfer
  unit of padding at each end, and is flagged for the read before a write exactly when
  there is padding.  (The sizes must not wrap around, see \<open>checkRequest\<close>.)
\<close>

theorem new_accessor_area:
  assumes new: "new_accessor D dev r numberOfWords offset flags rawAcc rawOk conv = Ret (info, l)"
    and al: "0 < dev_alignment D (reg_bar r)"
    and small: "numberOfWords + offset < 2 ^ 64" "nElements r + offset < 2 ^ 64"
      "nElements r < 2 ^ 32" "nElements r * elementPitchBits r < 2 ^ 32"
    and data: "dataType (hd (channels r)) \<noteq> VOID_TYPE"
  shows "let n = nElements info * elementPitchBits r div 8; a = dev_alignment D (reg_bar r);
             stop = startAddress l + numberOfBytes l
         in reg_address r \<le> reg_address info \<and>
            reg_address info + n \<le> reg_address r + nElements r * elementPitchBits r div 8 \<and>
            aligned_area a l \<and> length (rawDataBuffer l) = numberOfBytes l \<and>
            startAddress l \<le> reg_address info \<and> reg_address info < startAddress l + a \<and>
            reg_address info + n \<le> stop \<and> stop < reg_address info + n + a \<and>
            (isUnaligned l \<longleftrightarrow> startAddress l \<noteq> reg_address info \<or> stop \<noteq> reg_address info + n) \<and>
            (has flags raw \<longrightarrow> rawOk)"
proof -
  obtain p where p: "elementPitchBits r = 8 * p"
    using new by (auto simp: new_accessor_def bindO_Ret_iff dvd_def mod_0_imp_dvd split: if_splits)
  obtain n where n: "checkRequest r numberOfWords offset = Ret n"
    and info: "info = r\<lparr>reg_address := reg_address r + offset * p, nElements := n mod 2 ^ 32\<rparr>"
    and lle: "new_lle D dev (reg_bar r) (reg_address info) (nElements info * elementPitchBits r mod 2 ^ 32 div 8) = Ret l"
    and raw: "has flags raw \<longrightarrow> rawOk"
    using new p by (auto simp: new_accessor_def bindO_Ret_iff Let_def split: if_splits)
  have le: "n + offset \<le> nElements r"
    using n data small by (auto simp: checkRequest_def Let_def split: if_splits)
  then have n32: "n mod 2 ^ 32 = n" using small(3) by simp
  have "n * elementPitchBits r \<le> nElements r * elementPitchBits r" using le by simp
  then have "n * elementPitchBits r < 2 ^ 32" using small(4) by linarith
  then have size: "nElements info * elementPitchBits r mod 2 ^ 32 div 8 = n * p"
    "nElements info * elementPitchBits r div 8 = n * p" "nElements r * elementPitchBits r div 8 = nElements r * p"
    using n32 by (simp_all add: info p)
  have "(offset + n) * p \<le> nElements r * p" using le by simp
  then have inside: "reg_address info + n * p \<le> reg_address r + nElements r * p"
    by (simp add: info algebra_simps)
  define l0 where "l0 = \<lparr>lle_dev = dev, lle_bar = reg_bar r, startAddress = 0, numberOfBytes = 0, isShared = False,
         isUnaligned = False, ownsLock = False, rawDataBuffer = []\<rparr>"
  let ?a = "dev_alignment D (reg_bar r)"
  have l: "l = setAddress ?a (reg_address info) (n * p) l0"
    using lle unfolding size(1) by (simp add: new_lle_def l0_def split: if_splits)
  note area = setAddress_area[OF al, of "reg_address info" "n * p" l0, folded l]
  note f = setAddress_fields[OF al, of "reg_address info" "n * p" l0, folded l]
  have "isUnaligned l \<longleftrightarrow> startAddress l \<noteq> reg_address info \<or>
      startAddress l + numberOfBytes l \<noteq> reg_address info + n * p"
  proof -
    have al': "?a dvd startAddress l" "?a dvd startAddress l + numberOfBytes l"
      using area(1) by (simp_all add: aligned_area_def)
    have 1: "startAddress l = reg_address info \<longleftrightarrow> ?a dvd reg_address info"
      using al' f(1) by (metis dvd_imp_mod_0 minus_nat.diff_0)
    have 2: "startAddress l + numberOfBytes l = reg_address info + n * p \<longleftrightarrow> ?a dvd reg_address info + n * p"
    proof
      assume "?a dvd reg_address info + n * p"
      with al'(2) have "?a dvd startAddress l + numberOfBytes l - (reg_address info + n * p)"
        by (rule dvd_diff_nat)
      moreover have "startAddress l + numberOfBytes l - (reg_address info + n * p) < ?a" using area(4,5) by linarith
      ultimately have "startAddress l + numberOfBytes l - (reg_address info + n * p) = 0"
        by (metis nat_dvd_not_less not_gr_zero)
      then show "startAddress l + numberOfBytes l = reg_address info + n * p" using area(4) by linarith
    next
      assume "startAddress l + numberOfBytes l = reg_address info + n * p"
      then show "?a dvd reg_address info + n * p" using al'(2) by simp
    qed
    show ?thesis unfolding f(3) 1 2 by blast
  qed
  then show ?thesis
    using area inside raw f(4) size unfolding Let_def by (simp add: info)
qed

definition sample_reg :: na_info where
  "sample_reg = \<lparr>reg_bar = 0, reg_address = 10, nElements = 6, elementPitchBits = 16, registerAccess = READ_WRITE,
     channels = [\<lparr>bitOffset = 0, dataType = FIXED_POINT, width = 16, nFractionalBits = 0, signedFlag = True\<rparr>]\<rparr>"

theorem new_accessor_area_witness:
  "\<exists>info l. new_accessor (dummy_na_device (\<lambda>_ d. d) (\<lambda>_ d. d) :: (unit, string list) dummy_device na_device)
      0 sample_reg 2 1 {} False False (Ret ()) = Ret (info, l) \<and>
    reg_address info = 12 \<and> startAddress l \<le> 12 \<and> 12 + 4 \<le> startAddress l + numberOfBytes l \<and> aligned_area 4 l"
proof -
  let ?D = "dummy_na_device (\<lambda>_ d. d) (\<lambda>_ d. d) :: (unit, string list) dummy_device na_device"
  have "checkForUnknownFlags {} {raw} = Ret ()" by (simp add: checkForUnknownFlags_Ret)
  then obtain info l where n: "new_accessor ?D 0 sample_reg 2 1 {} False False (Ret ()) = Ret (info, l)"
    and i: "reg_address info = 12" "nElements info = 2"
    by (simp add: new_accessor_def sample_reg_def checkRequest_def new_lle_def dummy_na_device_def has_def Let_def)
  have "dev_alignment ?D (reg_bar sample_reg) = 4" by (simp add: dummy_na_device_def)
  with new_accessor_area[OF n] n i show ?thesis
    by (intro exI[of _ info] exI[of _ l]) (simp add: sample_reg_def Let_def)
qed

text \<open>
  \<open>replaceTransferElement\<close> with a mergeable element makes it cover both areas; the
  accessor shares it from then on.  The merged area is aligned, so the element is no
  longer flagged as unaligned, even if one of its registers has padding.
\<close>

theorem replace_merges:
  fixes w :: "('h, 'u) na_heap world" and k c :: nat
  defines "own \<equiv> raws (heap w) (rawAccessor (accs (heap w) k))" and "other \<equiv> raws (heap w) c"
  assumes m: "isMergeable D other own" and al: "0 < dev_alignment D (lle_bar other)"
    and a: "aligned_area (dev_alignment D (lle_bar other)) other" "aligned_area (dev_alignment D (lle_bar other)) own"
  shows "let w' = replaceTransferElement D k c w; l = raws (heap w') c
         in rawAccessor (accs (heap w') k) = c \<and> isShared l \<and> lle_dev l = lle_dev own \<and> lle_bar l = lle_bar own \<and>
            startAddress l = min (startAddress other) (startAddress own) \<and>
            startAddress l + numberOfBytes l =
              max (startAddress other + numberOfBytes other) (startAddress own + numberOfBytes own) \<and>
            length (rawDataBuffer l) = numberOfBytes l \<and> \<not> isUnaligned l \<and>
            exceptionBackend (elem w' (raw_elem c)) = exceptionBackend (elem w (2 * k))"
proof -
  let ?al = "dev_alignment D (lle_bar other)"
  let ?s = "min (startAddress other) (startAddress own)"
  let ?e = "max (startAddress other + numberOfBytes other) (startAddress own + numberOfBytes own)"
  define l where "l = changeAddress ?al ?s (?e - ?s) other"
  have ne: "2 * k \<noteq> raw_elem c" by (simp add: raw_elem_def) presburger
  let ?w' = "replaceTransferElement D k c w"
  have w': "raws (heap ?w') c = l" "rawAccessor (accs (heap ?w') k) = c"
    "exceptionBackend (elem ?w' (raw_elem c)) = exceptionBackend (elem w (2 * k))"
    using m by (simp_all add: replaceTransferElement_def own_def other_def l_def world_defs Let_def)
  have same: "lle_dev own = lle_dev other" "lle_bar own = lle_bar other"
    using m by (simp_all add: isMergeable_def split: if_splits)
  have "isShared l" "lle_dev l = lle_dev own" "lle_bar l = lle_bar own" "length (rawDataBuffer l) = numberOfBytes l"
    using same setAddress_fields[OF al] by (simp_all add: l_def changeAddress_def)
  then show ?thesis
    using w' merged_area[OF al a refl refl, of other] unfolding l_def[symmetric] Let_def by simp
qed

text \<open>
  Accessor 0 has the bytes 2 and 3, in the area of the low-level element 0; accessor 1 has
  the bytes 4 to 7, the area of the low-level element 1.
\<close>

definition blank_lle :: lle where
  "blank_lle = \<lparr>lle_dev = 0, lle_bar = 0, startAddress = 0, numberOfBytes = 0, isShared = False,
     isUnaligned = False, ownsLock = False, rawDataBuffer = []\<rparr>"

definition two_registers :: "((unit, string list) dummy_device, 8 word) na_heap world" where
  "two_registers =
     (let acc = accs (heap sample_na_world) 0; info = acc_info acc;
          acc0 = acc\<lparr>acc_info := info\<lparr>reg_address := 2\<rparr>, rawAccessor := 0, buffer := [171, 205]\<rparr>;
          acc1 = acc\<lparr>acc_info := info\<lparr>reg_address := 4, nElements := 4\<rparr>, rawAccessor := 1, buffer := [1, 2, 3, 4]\<rparr>
      in sample_na_world\<lparr>heap := (heap sample_na_world)\<lparr>
           raws := (\<lambda>i. if i = 0 then setAddress 4 2 2 blank_lle else setAddress 4 4 4 blank_lle),
           accs := (\<lambda>k. if k = 0 then acc0 else acc1)\<rparr>\<rparr>)"

lemma two_registers_areas:
  "setAddress 4 2 2 blank_lle = blank_lle\<lparr>numberOfBytes := 4, isUnaligned := True, rawDataBuffer := [0, 0, 0, 0]\<rparr>"
  "setAddress 4 4 4 blank_lle = blank_lle\<lparr>startAddress := 4, numberOfBytes := 4, rawDataBuffer := [0, 0, 0, 0]\<rparr>"
proof -
  have r: "replicate 4 (0 :: 8 word) = [0, 0, 0, 0]" by (simp add: eval_nat_numeral)
  show "setAddress 4 2 2 blank_lle = blank_lle\<lparr>numberOfBytes := 4, isUnaligned := True, rawDataBuffer := [0, 0, 0, 0]\<rparr>"
    "setAddress 4 4 4 blank_lle = blank_lle\<lparr>startAddress := 4, numberOfBytes := 4, rawDataBuffer := [0, 0, 0, 0]\<rparr>"
    by (simp_all add: setAddress_def resize_def blank_lle_def r)
qed

theorem replace_merges_witness:
  "let w' = replaceTransferElement (dummy_na_device (\<lambda>_ d. d) (\<lambda>_ d. d)) 0 1 two_registers; l = raws (heap w') 1
   in rawAccessor (accs (heap w') 0) = 1 \<and> startAddress l = 0 \<and> numberOfBytes l = 8 \<and> \<not> isUnaligned l"
proof -
  let ?D = "dummy_na_device (\<lambda>_ d. d) (\<lambda>_ d. d) :: (unit, string list) dummy_device na_device"
  have h: "raws (heap two_registers) 0 = blank_lle\<lparr>numberOfBytes := 4, isUnaligned := True, rawDataBuffer := [0, 0, 0, 0]\<rparr>"
    "raws (heap two_registers) 1 = blank_lle\<lparr>startAddress := 4, numberOfBytes := 4, rawDataBuffer := [0, 0, 0, 0]\<rparr>"
    "rawAccessor (accs (heap two_registers) 0) = 0"
    by (simp_all add: two_registers_def two_registers_areas Let_def)
  have "isMergeable ?D (raws (heap two_registers) 1) (raws (heap two_registers) 0)"
    unfolding h by (simp add: isMergeable_def dummy_na_device_def blank_lle_def)
  then show ?thesis
    using replace_merges[of ?D two_registers 1 0]
    unfolding h Let_def by (simp add: dummy_na_device_def aligned_area_def blank_lle_def)
qed

end
