(* ===== verification/GroupAccessors.thy ===== *)
theory GroupAccessors
  imports GroupStages NumericAccessors
begin

text \<open>
  Transfer groups of numeric addressed accessors: the accessors satisfy what the group
  relies on, the members of a group, and what happens to unaligned registers.
\<close>

section \<open>Accessors in a group\<close>

lemma acc_hooks_other:
  assumes e: "even e" and fe: "f \<noteq> e"
  shows "acc_doPreRead D f ty w = (r, w') \<Longrightarrow> untouched e w w'"
    and "acc_doReadTransferSynchronously D f w = (r, w') \<Longrightarrow> untouched e w w'"
    and "acc_doPostRead D f ty u w = (r, w') \<Longrightarrow> untouched e w w'"
    and "acc_doPreWrite D f ty v w = (r, w') \<Longrightarrow> untouched e w w'"
    and "acc_doWriteTransfer D f v w = (rb, w') \<Longrightarrow> untouched e w w'"
    and "acc_doPostWrite D f ty v w = (r, w') \<Longrightarrow> untouched e w w'"
proof -
  note ne = raw_elem_parity[OF e]
  note frames = ll_stages_frame[OF ne] ll_readTransfer_frame[OF ne]
  have h: "untouched e (handOver f (raw_elem i) w) w' = untouched e w w'" for i and w w' :: "'x world"
    using fe[symmetric] ne[symmetric] by (auto simp: handOver_def setActiveException_def split: option.splits)
  show "acc_doPreRead D f ty w = (r, w') \<Longrightarrow> untouched e w w'"
    by (auto simp: acc_doPreRead_def Let_def split: if_splits dest!: frames(1))
  show "acc_doReadTransferSynchronously D f w = (r, w') \<Longrightarrow> untouched e w w'"
    by (auto simp: acc_doReadTransferSynchronously_def dest!: frames(6))
  show "acc_doPostRead D f ty u w = (r, w') \<Longrightarrow> untouched e w w'"
    using fe ne[symmetric] by (auto simp: acc_doPostRead_def Let_def h split: if_splits elim!: andThen_cases dest!: frames(2))
  show "acc_doPreWrite D f ty v w = (r, w') \<Longrightarrow> untouched e w w'"
    using ne ne[symmetric] by (auto simp: acc_doPreWrite_def Let_def split: if_splits elim!: andThen_cases dest!: frames(3))
  show "acc_doWriteTransfer D f v w = (rb, w') \<Longrightarrow> untouched e w w'"
    by (auto simp: acc_doWriteTransfer_def elim!: andThen_cases dest!: frames(5))
  show "acc_doPostWrite D f ty v w = (r, w') \<Longrightarrow> untouched e w w'"
    by (auto simp: acc_doPostWrite_def Let_def h split: if_splits dest!: frames(4))
qed

interpretation accessor_groups: group_contract "na_impl D" "{e. even e}" for D :: "'h na_device"
proof unfold_locales
  fix e f :: nat
  assume e: "e \<in> {e. even e}" and fe: "f \<noteq> e"
  show "leaves_alone (na_impl D) f e"
    unfolding leaves_alone_def na_hooks
    using e fe by (auto split: if_splits dest: acc_hooks_other[of e f] ll_hooks_frame[where e = e] ll_postRead_frame(1)[where e = e])
qed

text \<open>How accessors of different registers are asked by the group.\<close>

definition na_group :: "'h na_device \<Rightarrow> (('h, 'u) na_heap) group_impl" where
  "na_group D =
     \<lparr>hardwareElements = (\<lambda>e w. if even e then [raw_elem (rawAccessor (accs (heap w) (e div 2)))] else [e]),
      internalElements = (\<lambda>e w. if even e then [raw_elem (rawAccessor (accs (heap w) (e div 2)))] else []),
      elem_isReadable = (\<lambda>e w. if even e then info_isReadable (acc_info (accs (heap w) (e div 2))) else True),
      elem_isWriteable = (\<lambda>e w. if even e then info_isWriteable (acc_info (accs (heap w) (e div 2))) else True),
      isCopyDecorator = (\<lambda>e. False),
      replaceIn = (\<lambda>e new w. if even e \<and> odd new then (Ret (), replaceTransferElement D (e div 2) (new div 2) w) else (Ret (), w)),
      replaceInAbstractor = (\<lambda>e new w. if even e \<and> odd new then (Ret e, replaceTransferElement D (e div 2) (new div 2) w) else (Ret e, w))\<rparr>"

definition two_elements :: transfer_group where
  "two_elements = empty_group\<lparr>highLevelElements := [0, 2], lowLevelElements := [1, 3]\<rparr>"

abbreviation sample_device :: "(unit, string list) dummy_device na_device" where
  "sample_device \<equiv> dummy_na_device (\<lambda>_ d. d) (\<lambda>_ d. d)"

text \<open>A device with a few bytes of memory and transfers of whole words of four bytes.\<close>

definition byte_device :: "(8 word list) na_device" where
  "byte_device =
     \<lparr>dev_isOpen = (\<lambda>h. True), dev_alignment = (\<lambda>bar. 4), dev_canMergeRequests = True, dev_barIndexValid = (\<lambda>bar. True),
      dev_read = (\<lambda>bar a n buf h. (Ret (), take n (drop a h))),
      dev_write = (\<lambda>bar a bs h. (Ret (), take a h @ bs @ drop (a + length bs) h)),
      dev_setException = (\<lambda>m h. h)\<rparr>"

definition byte_world :: "(8 word list, 8 word) na_heap world" where
  "byte_world =
     \<lparr>elem = (\<lambda>e. new_te ''reg'' {}), calls = [],
      heap = \<lparr>hw = (\<lambda>_. [9, 9, 9, 9, 9, 9, 9, 9]), unalignedAccess = (\<lambda>_. False),
        raws = raws (heap two_registers), accs = accs (heap two_registers), na_lastGenerated = 0\<rparr>\<rparr>"

lemma two_registers_heap:
  "raws (heap two_registers) = (\<lambda>i. if i = 0 then blank_lle\<lparr>numberOfBytes := 4, isUnaligned := True, rawDataBuffer := [0, 0, 0, 0]\<rparr>
     else blank_lle\<lparr>startAddress := 4, numberOfBytes := 4, rawDataBuffer := [0, 0, 0, 0]\<rparr>)"
  "accs (heap two_registers) = (\<lambda>k. \<lparr>acc_dev = 0,
     acc_info = \<lparr>reg_bar = 0, reg_address = if k = 0 then 2 else 4, nElements = if k = 0 then 2 else 4,
       elementPitchBits = 8, registerAccess = READ_WRITE, channels = []\<rparr>,
     rawAccessor = if k = 0 then 0 else 1, isRaw = False, rawSize = 1, cook = hd, uncook = (\<lambda>u. [u]),
     buffer = if k = 0 then [171, 205] else [1, 2, 3, 4]\<rparr>)"
  by (rule ext, simp add: two_registers_def two_registers_areas sample_na_world_def Let_def)+

lemma version_three: "\<not> VersionNumber 3 < nullVersion"
  by (simp add: nullVersion_def less_version_number_def)

lemmas run_defs = group_write_def in_world_def noteFirst_def preWriteAndHandleExceptions_def handlePreException_def
  preWrite_def na_hooks acc_doPreWrite_def ll_doPreWrite_def ll_impl_def read_into_buffer_def handleTransferException_def
  writeTransfer_def ll_doWriteTransfer_def acc_doWriteTransfer_def countingPost_def postWrite_def acc_doPostWrite_def
  ll_doPostWrite_def handOver_def setActiveException_def rethrowActive_def rethrowFirst_def resetErrors_def
  na_group_def copyLowLevelException_def world_defs upd_def logged_def byte_device_def byte_world_def
  two_elements_def empty_group_def new_te_def version_three blank_lle_def overwrite_def
  begin_offset_def raw_bytes_def info_isWriteable_def raw_elem_def two_registers_heap

lemmas read_defs = group_read_def runPostReads_def preReadAndHandleExceptions_def preRead_def acc_doPreRead_def
  readTransfer_def acc_doReadTransferSynchronously_def ll_doReadTransferSynchronously_def postReadAndHandleExceptions_def
  reportException_def postRead_def acc_doPostRead_def ll_doPostRead_def info_isReadable_def has_def cooked_values_def

text \<open>
  C26: a group write never returns when two of its accessors on the same device have padding
  and their low-level elements were not merged: the pre stage of the first one locks the
  mutex of the backend, and the pre stage of the second one waits for it.
\<close>

theorem unaligned_group_write_blocks:
  fixes w :: "(('d, 'q) dummy_device, 'u) na_heap world" and k1 k2 :: nat
  defines "a1 \<equiv> accs (heap w) k1" and "a2 \<equiv> accs (heap w) k2"
  defines "l1 \<equiv> raws (heap w) (rawAccessor a1)" and "l2 \<equiv> raws (heap w) (rawAccessor a2)"
  assumes idle: "idle_accessor 4 k1 w" "idle_accessor 4 k2 w" and ready: "dummy_ready (hw (heap w) (lle_dev l1))"
      "dummy_inside (lle_bar l1) (startAddress l1) (numberOfBytes l1) (hw (heap w) (lle_dev l1))"
    and pad: "isUnaligned l1" "isUnaligned l2" and dev: "lle_dev l2 = lle_dev l1" "rawAccessor a1 \<noteq> rawAccessor a2"
    and free: "\<forall>e. \<not> writeTransactionInProgress (elem w e)" "\<forall>e. versionNumber (elem w e) \<le> v"
    and access: "info_isWriteable (acc_info a1)" and g: "highLevelElements g = [2 * k1, 2 * k2]"
  shows "fst (group_write (na_impl (dummy_na_device run report)) G v (g, w)) = NoReturn"
proof -
  let ?D = "dummy_na_device run report" and ?V = "na_impl (dummy_na_device run report)"
  let ?e1 = "2 * k1" and ?e2 = "2 * k2" and ?f1 = "raw_elem (rawAccessor a1)" and ?f2 = "raw_elem (rawAccessor a2)"
  have v: "\<not> v < versionNumber (elem w e)" for e using free(2) by (simp add: not_less)
  have ne: "?e1 \<noteq> ?f1" "?e2 \<noteq> ?f1" "?e1 \<noteq> ?f2" "?e2 \<noteq> ?f2" "?f1 \<noteq> ?f2" "?e1 \<noteq> ?e2"
  proof -
    have "k1 \<noteq> k2" using dev(2) by (auto simp: a1_def a2_def)
    then show "?e1 \<noteq> ?e2" by simp
    show "?e1 \<noteq> ?f1" "?e2 \<noteq> ?f1" "?e1 \<noteq> ?f2" "?e2 \<noteq> ?f2" by (simp_all add: raw_elem_def, presburger+)
    show "?f1 \<noteq> ?f2" using dev(2) by (simp add: raw_elem_def)
  qed
  define w0 where "w0 = write_started TT_write v ?e1 w"
  have w0: "heap w0 = heap w" "\<And>e. e \<noteq> ?e1 \<Longrightarrow> elem w0 e = elem w e" "activeException (elem w0 ?e1) = None"
    by (simp_all add: w0_def write_started_def)
  have "idle_accessor 4 k1 w0"
    using idle(1) ne by (simp add: idle_accessor_def Let_def w0_def write_started_def a1_def)
  moreover have "dummy_na.reachable_area l1 (hw (heap w) (lle_dev l1))"
    using idle(1) ready by (simp add: dummy_na.reachable_area_def idle_accessor_def Let_def l1_def a1_def)
  moreover have "\<not> v < versionNumber (elem w0 ?f1)" using v ne by (simp add: w0)
  ultimately obtain w1 t where p: "acc_doPreWrite ?D ?e1 TT_write v w0 = (Ret (), w1)"
    "unalignedAccess (heap w1) (lle_dev l1)" "accs (heap w1) = accs (heap w)" "hw (heap w1) = hw (heap w)"
    "raws (heap w1) (rawAccessor a2) = l2" "elem w1 = (elem w0)(?f1 := t)"
    using dummy_na.accessor_preWrite[where k = k1 and w = w0 and v = v and report = report and run = run and ty = TT_write] access pad(1) dev(2)
    unfolding w0 a1_def[symmetric] l1_def[symmetric] by (auto simp: l2_def a2_def)
  have pre1: "preWriteAndHandleExceptions ?V TT_write v ?e1 w = (Ret (), w1)"
    using p(1) v free(1) by (simp add: preWriteAndHandleExceptions_def handlePreException_def preWrite_def na_hooks
        w0_def write_started_def upd_idle)
  have no_exception: "activeException (elem w1 ?e1) = None" using p(6) w0(3) ne(1) by simp
  have e2: "elem w1 ?e2 = elem w ?e2" "elem w1 ?f2 = elem w ?f2" using p(6) w0(2) ne by auto
  have own2: "\<not> ownsLock l2" "acc_dev a2 = lle_dev l2"
    using idle(2) by (simp_all add: idle_accessor_def Let_def l2_def a2_def)
  have open_dev: "dev_isOpen ?D (hw (heap w) (acc_dev a2))"
    using ready(1) own2(2) dev(1) by (simp add: dummy_na.open_when_ready)
  have lock: "fst (ll_doPreWrite ?D ?f2 TT_write v u) = NoReturn" if "heap u = heap w1" for u
    using that p(2,5) own2 pad(2) dev(1) by (simp add: ll_doPreWrite_def raw_elem_def)
  define u where "u = logged (CallPreWrite ?e2 TT_write v) (upd ?e2 (\<lambda>t. t\<lparr>writeTransactionInProgress := True\<rparr>)
    (upd ?e2 (\<lambda>t. t\<lparr>activeException := None\<rparr>) w1))"
  have u: "heap u = heap w1" "elem u ?f2 = elem w ?f2" using ne e2 by (simp_all add: u_def)
  have "fst (preWrite (ll_impl ?D) TT_write v ?f2 u) = NoReturn"
    using lock u v free(1) by (simp add: preWrite_def ll_impl_def Let_def)
  then obtain u' where "preWrite (ll_impl ?D) TT_write v ?f2 u = (NoReturn, u')" by (metis prod.collapse)
  then have "acc_doPreWrite ?D ?e2 TT_write v u = (NoReturn, u')"
    using open_dev p(3,4) u(1) by (simp add: acc_doPreWrite_def Let_def flip: a2_def)
  then have pre2: "preWriteAndHandleExceptions ?V TT_write v ?e2 w1 = (NoReturn, u')"
    using e2(1) v free(1) by (simp add: preWriteAndHandleExceptions_def handlePreException_def preWrite_def na_hooks u_def)
  show ?thesis
    by (simp add: group_write_def in_world_def noteFirst_def g pre1 pre2 no_exception)
qed

definition two_unaligned :: "((unit, string list) dummy_device, 8 word) na_heap world" where
  "two_unaligned =
     (let w = sample_na_world; acc = accs (heap w) 0; l = raws (heap w) 0
      in w\<lparr>heap := (heap w)\<lparr>
           raws := (\<lambda>i. if i = 0 then l else l\<lparr>startAddress := 8\<rparr>),
           accs := (\<lambda>k. if k = 0 then acc else acc\<lparr>acc_info := (acc_info acc)\<lparr>reg_address := 9\<rparr>, rawAccessor := 1\<rparr>)\<rparr>\<rparr>)"

theorem unaligned_group_write_blocks_witness:
  "fst (group_write (na_impl sample_device) (na_group sample_device) (VersionNumber 3) (two_elements, two_unaligned)) = NoReturn"
proof -
  have h: "accs (heap two_unaligned) 0 = accs (heap sample_na_world) 0" "rawAccessor (accs (heap two_unaligned) 0) = 0"
    "rawAccessor (accs (heap two_unaligned) 1) = 1" "rawAccessor (accs (heap sample_na_world) 0) = 0" "hw (heap two_unaligned) d = sample_dummy"
    "elem two_unaligned e = new_te ''reg'' {}" for d e
    by (simp_all add: two_unaligned_def Let_def sample_na_world_def)
  have idle: "idle_accessor 4 0 two_unaligned" "idle_accessor 4 1 two_unaligned"
    by (simp_all add: idle_accessor_def two_unaligned_def sample_na_defs aligned_area_def register_bytes_def has_def Let_def)
  have area: "dummy_ready sample_dummy" "lle_dev (raws (heap two_unaligned) 0) = 0" "lle_dev (raws (heap two_unaligned) 1) = 0"
    "dummy_inside (lle_bar (raws (heap two_unaligned) 0)) (startAddress (raws (heap two_unaligned) 0))
      (numberOfBytes (raws (heap two_unaligned) 0)) sample_dummy"
    "isUnaligned (raws (heap two_unaligned) 0)" "isUnaligned (raws (heap two_unaligned) 1)"
    "info_isWriteable (acc_info (accs (heap sample_na_world) 0))"
    by (simp_all add: two_unaligned_def sample_na_defs dummy_ready_def dummy_inside_def dummy_isReadOnly_def info_isWriteable_def Let_def)
  have el: "\<not> writeTransactionInProgress (new_te ''reg'' {})" "versionNumber (new_te ''reg'' {}) \<le> VersionNumber 3"
    by (simp_all add: new_te_def nullVersion_def less_eq_version_number_def)
  show ?thesis
    by (rule unaligned_group_write_blocks[of 0 two_unaligned 1])
      (use idle area el in \<open>simp_all add: h two_elements_def empty_group_def del: One_nat_def\<close>)
qed

section \<open>Members of a group\<close>

lemma fold_set_insert:
  "set (fold set_insert xs ys) = set xs \<union> set ys" "distinct ys \<Longrightarrow> distinct (fold set_insert xs ys)"
  by (induction xs arbitrary: ys) auto

lemma fold_fold_set_insert:
  "set (fold (\<lambda>e. fold set_insert (f e)) es ys) = (\<Union>e\<in>set es. set (f e)) \<union> set ys"
  "distinct ys \<Longrightarrow> distinct (fold (\<lambda>e. fold set_insert (f e)) es ys)"
  by (induction es arbitrary: ys) (auto simp: fold_set_insert)

text \<open>
  After an element has been added, the low-level elements of the group are the hardware
  accessing elements of its members and the copy decorators those found among the members
  and their internal elements, each stored once; elements that are in a group already or
  wait for new data are refused.
\<close>

theorem add_accessor_sets:
  assumes "distinct (highLevelElements g)"
    and "addAccessorImpl G impl isTemporary (g, w) = (Ret new, (g', w'))"
  shows "set (highLevelElements g') = insert new (set (highLevelElements g)) \<and>
    set (lowLevelElements g') = (\<Union>e\<in>set (highLevelElements g'). set (hardwareElements G e w')) \<and>
    set (copyDecorators g') = (\<Union>e\<in>set (highLevelElements g'). {c \<in> insert e (set (internalElements G e w')). isCopyDecorator G c}) \<and>
    distinct (highLevelElements g') \<and> distinct (lowLevelElements g') \<and> distinct (copyDecorators g') \<and>
    \<not> cachedReadableWriteableIsValid g' \<and>
    \<not> isInTransferGroup (elem w impl) \<and> \<not> has (te_flags (elem w impl)) wait_for_new_data"
proof -
  have free: "\<not> isInTransferGroup (elem w impl)" "\<not> has (te_flags (elem w impl)) wait_for_new_data"
    using assms(2) by (auto simp: addAccessorImpl_def Let_def split: if_splits)
  from assms(2) obtain v where "rebuildSets G (g\<lparr>highLevelElements := set_insert new (highLevelElements g)\<rparr>, v) = (g', w')"
    unfolding addAccessorImpl_def Let_def using free by (auto split: prod.splits outcome.splits if_splits)
  then show ?thesis
    using assms(1) free by (auto simp: rebuildSets_def Let_def fold_fold_set_insert split: if_splits)
qed

theorem add_accessor_sets_witness:
  "\<exists>new g' w'. addAccessorImpl (na_group byte_device) 0 False (empty_group, byte_world) = (Ret new, (g', w')) \<and>
    set (lowLevelElements g') = (\<Union>e\<in>set (highLevelElements g'). set (hardwareElements (na_group byte_device) e w'))"
proof -
  have "fst (addAccessorImpl (na_group byte_device) 0 False (empty_group, byte_world)) = Ret 0"
    by (simp add: addAccessorImpl_def empty_group_def byte_world_def new_te_def has_def upd_def set_insert_def replacements_def
        na_group_def Let_def raw_elem_def)
  then obtain g' w' where r: "addAccessorImpl (na_group byte_device) 0 False (empty_group, byte_world) = (Ret 0, (g', w'))"
    by (metis prod.collapse)
  from add_accessor_sets[OF _ r] have "set (lowLevelElements g') = (\<Union>e\<in>set (highLevelElements g'). set (hardwareElements (na_group byte_device) e w'))"
    by (simp add: empty_group_def)
  with r show ?thesis by (intro exI[of _ 0] exI[of _ g'] exI[of _ w']) (rule conjI)
qed

end
