(* ===== verification/GroupReads.thy ===== *)
theory GroupReads
  imports GroupAccessors
begin

text \<open>
  Group reads (\<open>TransferGroup::read\<close>) of numeric addressed accessors: the order of the stages of
  all members, the transfers of their low-level elements, and the exception that is thrown.
\<close>

section \<open>The stages of a group read\<close>

text \<open>
  The calls a group read consists of: the pre and post stages of accessors, which have even
  numbers, and the transfers of low-level elements.
\<close>

fun group_stage :: "te_call \<Rightarrow> bool" where
  "group_stage (CallPreRead e ty) = even e"
| "group_stage (CallPostRead e ty u) = even e"
| "group_stage (CallReadTransfer e) = True"
| "group_stage c = False"

definition group_stages :: "'x world \<Rightarrow> te_call list" where
  "group_stages w = filter group_stage (calls w)"

lemma group_stages_logged [simp]: "group_stages (logged c w) = group_stages w @ (if group_stage c then [c] else [])"
  by (simp add: group_stages_def logged_def)

lemma group_stages_upd [simp]:
  "group_stages (upd e f w) = group_stages w" "group_stages (storeException e x w) = group_stages w"
  by (simp_all add: group_stages_def upd_def storeException_def)

lemma group_stages_world [simp]:
  "group_stages (upd_raw i h v) = group_stages v" "group_stages (upd_acc k h' v) = group_stages v"
  "group_stages (upd_hw dev x v) = group_stages v" "group_stages (set_mutex dev b v) = group_stages v"
  "group_stages (v\<lparr>heap := y\<rparr>) = group_stages v"
  by (simp_all add: world_defs group_stages_def)

text \<open>The low-level elements the accessors use.\<close>

definition lowOf :: "('h, 'u) na_heap world \<Rightarrow> nat \<Rightarrow> nat" where
  "lowOf w e = raw_elem (rawAccessor (accs (heap w) (e div 2)))"

lemma lowOf_heap: "heap w = heap v \<Longrightarrow> lowOf w = lowOf v"
  by (simp add: lowOf_def fun_eq_iff)

lemma lowOf_simps [simp]:
  "lowOf (upd e f w) = lowOf w" "lowOf (logged c w) = lowOf w" "lowOf (storeException e x w) = lowOf w"
  "lowOf (upd_raw i h w) = lowOf w" "lowOf (upd_hw dev y w) = lowOf w"
  "lowOf (upd_acc k (\<lambda>a. a\<lparr>buffer := b a\<rparr>) w) = lowOf w" "lowOf (w\<lparr>heap := (heap w)\<lparr>na_lastGenerated := n\<rparr>\<rparr>) = lowOf w"
  by (auto simp: lowOf_def fun_eq_iff storeException_def world_defs)

lemma odd_lowOf: "odd (lowOf w e)"
  by (simp add: lowOf_def raw_elem_def)

text \<open>What the functions of the elements leave as it is.\<close>

definition same_stages :: "('h, 'u) na_heap world \<Rightarrow> ('h, 'u) na_heap world \<Rightarrow> bool" where
  "same_stages w w' = (group_stages w' = group_stages w \<and> lowOf w' = lowOf w)"

lemma handOver_same: "group_stages (handOver e i w) = group_stages w" "lowOf (handOver e i w) = lowOf w"
  by (auto simp: handOver_def setActiveException_def split: option.split)

lemma ll_stages_same:
  "ll_doReadTransferSynchronously D f w = (r, w') \<Longrightarrow> same_stages w w'"
  "ll_doPostRead f ty u w = (r, w') \<Longrightarrow> same_stages w w'"
  "na_setException D b m w = (r, w') \<Longrightarrow> same_stages w w'"
  by (auto simp: ll_defs same_stages_def Let_def split: prod.splits if_splits)

lemma ll_preRead_same: "odd f \<Longrightarrow> preRead (ll_impl D) ty f w = (r, w') \<Longrightarrow> same_stages w w'"
  by (auto simp: preRead_def ll_impl_def same_stages_def Let_def split: if_splits)

lemma ll_postRead_same: "odd f \<Longrightarrow> postRead (ll_impl D) ty u f w = (r, w') \<Longrightarrow> same_stages w w'"
  by (auto simp: postRead_def ll_impl_def same_stages_def Let_def split: if_splits
      elim!: andThen_cases dest!: ll_stages_same(2) rethrowActive_same)

lemma acc_hooks_same:
  "acc_doPreRead D e ty w = (r, w') \<Longrightarrow> same_stages w w'"
  "acc_doPostRead D e ty u w = (r, w') \<Longrightarrow> same_stages w w'"
proof -
  have o: "odd (raw_elem i)" for i by (simp add: raw_elem_def)
  show "acc_doPreRead D e ty w = (r, w') \<Longrightarrow> same_stages w w'"
    by (auto simp: acc_doPreRead_def Let_def same_stages_def split: if_splits dest!: ll_preRead_same[OF o])
  show "acc_doPostRead D e ty u w = (r, w') \<Longrightarrow> same_stages w w'"
    by (auto simp: acc_doPostRead_def Let_def same_stages_def handOver_same split: if_splits
        elim!: andThen_cases dest!: ll_postRead_same[OF o])
qed

lemma pre_stage:
  assumes "even e" "\<not> readTransactionInProgress (elem w e)"
    and "preReadAndHandleExceptions (na_impl D) ty e w = (r, w')"
  shows "group_stages w' = group_stages w @ [CallPreRead e ty]" "lowOf w' = lowOf w"
  using assms
  by (auto simp: preReadAndHandleExceptions_def handlePreException_def preRead_def na_hooks Let_def same_stages_def
      split: prod.splits outcome.splits if_splits dest!: acc_hooks_same(1))

lemma transfer_stage:
  assumes "odd l" "handleTransferException l () (readTransfer (na_impl D) l) w = (r, w')"
  shows "group_stages w' = group_stages w @ [CallReadTransfer l]" "lowOf w' = lowOf w"
    "f \<noteq> l \<Longrightarrow> elem w' f = elem w f"
proof -
  have frame: "elem w' f = elem w f" if "doReadTransferSynchronously (ll_impl D) l w = (r, w')" for f r and w w' :: "('a, 'b) na_heap world"
    using ll_hooks_frame(2)[OF that, of f] by (simp add: untouched_def)
  have same: "same_stages w w'" if "doReadTransferSynchronously (ll_impl D) l w = (r, w')" for r and w w' :: "('a, 'b) na_heap world"
    using that by (simp add: ll_impl_def ll_stages_same(1))
  have [simp]: "retryOnDiscard (\<lambda>w. (NoReturn, w)) v = Some (NoReturn :: unit outcome, v)" for v :: "('a, 'b) na_heap world"
    by (subst retryOnDiscard.simps) simp
  obtain t v where t: "readTransfer (na_impl D) l w = (t, v)" by fastforce
  then have v: "group_stages v = group_stages w @ [CallReadTransfer l]" "lowOf v = lowOf w" "elem v f = elem w f" for f
    using assms(1) by (auto simp: readTransfer_def readTransferAsyncWaitingImpl_def na_hooks orNoReturn_def Let_def same_stages_def
        split: if_splits dest: same frame)
  have w': "w' = v \<or> (\<exists>x. w' = storeException l x v)"
    using assms(2) t by (auto simp: handleTransferException_def split: outcome.splits if_splits)
  then show "group_stages w' = group_stages w @ [CallReadTransfer l]" "lowOf w' = lowOf w"
    using v by auto
  show "f \<noteq> l \<Longrightarrow> elem w' f = elem w f" using w' v by (auto simp: storeException_def)
qed

lemma report_same: "backendSetException (na_impl D) b m w = (r, w') \<Longrightarrow> r = Ret () \<and> same_stages w w' \<and> elem w' = elem w"
  by (auto simp: na_hooks ll_impl_def na_setException_def same_stages_def)

lemma report_cases:
  assumes "reportException (na_impl D) e act w = (r, w')" "act w = (r1, w1)"
  shows "r = r1 \<and> group_stages w' = group_stages w1 \<and> lowOf w' = lowOf w1 \<and> elem w' = elem w1"
proof (cases "\<exists>x b. r1 = Throw x \<and> is_runtime_error x \<and> exceptionBackend (elem w1 e) = Some b")
  case True
  then obtain x b where "r1 = Throw x" "is_runtime_error x" "exceptionBackend (elem w1 e) = Some b" by blast
  then show ?thesis using assms
    by (auto simp: reportException_def same_stages_def elim!: andThen_cases dest!: report_same)
next
  case False
  then show ?thesis using assms
    by (auto simp: reportException_def split: outcome.splits option.splits bool.splits)
qed

lemma post_stage:
  assumes e: "even e" and r: "postReadAndHandleExceptions (na_impl D) ty u e w = (r, w')"
  shows "readTransactionInProgress (elem w e) \<Longrightarrow> group_stages w' = group_stages w @ [CallPostRead e ty u]"
    and "lowOf w' = lowOf w"
proof -
  obtain r1 w1 where p: "postRead (na_impl D) ty u e w = (r1, w1)" by fastforce
  have w': "group_stages w' = group_stages w1" "lowOf w' = lowOf w1"
    using report_cases[OF r[unfolded postReadAndHandleExceptions_def] p] by simp_all
  show "readTransactionInProgress (elem w e) \<Longrightarrow> group_stages w' = group_stages w @ [CallPostRead e ty u]" "lowOf w' = lowOf w"
    unfolding w' using p e by (auto simp: postRead_def na_hooks Let_def same_stages_def split: if_splits
        elim!: andThen_cases dest!: acc_hooks_same(2) rethrowActive_same)
qed

text \<open>
  An exception of an accessor is thrown by its post stage, even when it is handed to the
  low-level element.
\<close>

lemma ll_postRead_throws:
  assumes "activeException (elem w f) = Some x"
  shows "\<exists>w'. postRead (ll_impl D) ty u f w = (Throw x, w')"
proof -
  have "\<exists>w'. ll_doPostRead f ty u v = (Ret (), w') \<and> activeException (elem w' f) = activeException (elem v f)" for v :: "('a, 'b) na_heap world"
    by (auto simp: ll_doPostRead_def newVersion_def Let_def)
  then obtain w' where "ll_doPostRead f ty u (logged (CallPostRead f ty u) (upd f (\<lambda>t. t\<lparr>readTransactionInProgress := False\<rparr>) w)) = (Ret (), w')"
    "activeException (elem w' f) = Some x" using assms by fastforce
  then show ?thesis using assms by (auto simp: postRead_def ll_impl_def rethrowActive_def Let_def)
qed

lemma post_throws:
  assumes e: "even e" and x: "activeException (elem w e) = Some x"
    and r: "postReadAndHandleExceptions (na_impl D) ty u e w = (r, w')"
  shows "r = Throw x"
proof -
  have "\<exists>w1. postRead (na_impl D) ty u e w = (Throw x, w1)"
  proof (cases "readTransactionInProgress (elem w e)")
    case True
    let ?w = "logged (CallPostRead e ty u) (upd e (\<lambda>t. t\<lparr>readTransactionInProgress := False\<rparr>) w)"
    have x': "activeException (elem ?w e) = Some x" using x by simp
    have "\<exists>v. acc_doPostRead D e ty u ?w = (Throw x, v) \<or> acc_doPostRead D e ty u ?w = (Ret (), v) \<and> activeException (elem v e) = Some x"
    proof (cases "dev_isOpen D (hw (heap ?w) (acc_dev (accs (heap ?w) (e div 2))))")
      case True
      let ?f = "raw_elem (rawAccessor (accs (heap ?w) (e div 2)))"
      have "?f \<noteq> e" using raw_elem_parity[OF e] by simp
      then have "activeException (elem (handOver e ?f ?w) ?f) = Some x"
        using x' by (simp add: handOver_def setActiveException_def)
      then obtain v where "postRead (ll_impl D) ty u ?f (handOver e ?f ?w) = (Throw x, v)"
        using ll_postRead_throws by blast
      then show ?thesis using True unfolding acc_doPostRead_def Let_def by simp
    next
      case False
      then show ?thesis using x' by (simp add: acc_doPostRead_def Let_def)
    qed
    then show ?thesis using True e by (auto simp: postRead_def na_hooks rethrowActive_def Let_def)
  next
    case False
    then show ?thesis using x by (simp add: postRead_def rethrowActive_def)
  qed
  then obtain w1 where "postRead (na_impl D) ty u e w = (Throw x, w1)" by blast
  then show ?thesis
    using report_cases[OF r[unfolded postReadAndHandleExceptions_def]] by simp
qed

lemma post_other:
  assumes e: "even e" and f: "f \<noteq> e" "f \<noteq> lowOf w e"
    and r: "postReadAndHandleExceptions (na_impl D) ty u e w = (r, w')"
  shows "elem w' f = elem w f"
proof -
  have other: "elem v f = elem w f" if v: "acc_doPostRead D e ty u w = (q, v)" and g: "f \<noteq> lowOf w e" for w v :: "('a, 'b) na_heap world" and q
  proof -
    have ne: "raw_elem (rawAccessor (accs (heap w) (e div 2))) \<noteq> f" using g by (simp add: lowOf_def)
    have h: "elem (handOver e (raw_elem (rawAccessor (accs (heap w) (e div 2)))) w) f = elem w f"
      using ne f(1) by (auto simp: handOver_def setActiveException_def split: option.split)
    show ?thesis
      using v f(1) h by (auto simp: acc_doPostRead_def Let_def split: if_splits elim!: andThen_cases
          dest!: ll_stages_frame(2)[OF ne] simp: untouched_def)
  qed
  obtain r1 w1 where p: "postRead (na_impl D) ty u e w = (r1, w1)" by fastforce
  have w': "elem w' f = elem w1 f"
    using report_cases[OF r[unfolded postReadAndHandleExceptions_def] p] by simp_all
  show ?thesis
    unfolding w' using p e f by (auto simp: postRead_def na_hooks Let_def split: if_splits
        elim!: andThen_cases dest!: other rethrowActive_same)
qed

section \<open>The loops\<close>

text \<open>The exceptions the elements have after their turn in a loop, in the order of the loop.\<close>

fun exceptions_found :: "(nat \<Rightarrow> ('x, unit) action) \<Rightarrow> nat list \<Rightarrow> 'x world \<Rightarrow> exn list \<times> 'x world" where
  "exceptions_found act [] w = ([], w)"
| "exceptions_found act (e # es) w =
     (case act e w of (_, w1) \<Rightarrow> (case exceptions_found act es w1 of (xs, w2) \<Rightarrow>
        ((case activeException (elem w1 e) of None \<Rightarrow> xs | Some x \<Rightarrow> x # xs), w2)))"

definition first_of :: "'a list \<Rightarrow> 'a option" where
  "first_of xs = (case xs of [] \<Rightarrow> None | x # _ \<Rightarrow> Some x)"

lemma first_of_simps [simp]: "first_of [] = None" "first_of (x # xs) = Some x" "(first_of xs = None) = (xs = [])"
  by (simp_all add: first_of_def split: list.split)

lemma noteFirst_step:
  assumes "foldEach (noteFirst act) (e # es) a w = (Ret b, w')"
  obtains w1 where "act e w = (Ret (), w1)"
    "foldEach (noteFirst act) es (if a = None then activeException (elem w1 e) else a) w1 = (Ret b, w')"
proof -
  from assms obtain c v where c: "noteFirst act e a w = (Ret c, v)" and rest: "foldEach (noteFirst act) es c v = (Ret b, w')"
    by (auto elim: andThen_cases)
  from c have "act e w = (Ret (), v)" "c = (if a = None then activeException (elem v e) else a)"
    by (auto simp: noteFirst_def elim!: andThen_cases)
  then show thesis using that rest by simp
qed

lemma noteFirst_found:
  assumes "foldEach (noteFirst act) es a w = (Ret b, w')"
  shows "snd (exceptions_found act es w) = w' \<and> b = (if a = None then first_of (fst (exceptions_found act es w)) else a)"
  using assms
proof (induction es arbitrary: a w)
  case (Cons e es)
  from Cons.prems obtain w1 where "act e w = (Ret (), w1)"
    and rest: "foldEach (noteFirst act) es (if a = None then activeException (elem w1 e) else a) w1 = (Ret b, w')"
    by (rule noteFirst_step)
  with Cons.IH[OF rest] show ?case by (auto split: prod.splits option.splits)
qed simp

lemma pre_loop:
  assumes "foldEach (noteFirst (preReadAndHandleExceptions (na_impl D) ty)) es a w = (Ret b, w')"
    and "distinct es" "\<forall>e\<in>set es. even e \<and> \<not> readTransactionInProgress (elem w e)"
  shows "group_stages w' = group_stages w @ map (\<lambda>e. CallPreRead e ty) es \<and> lowOf w' = lowOf w \<and>
    (\<forall>e\<in>set es. readTransactionInProgress (elem w' e)) \<and> (\<forall>f. even f \<and> f \<notin> set es \<longrightarrow> elem w' f = elem w f) \<and>
    (fst (exceptions_found (preReadAndHandleExceptions (na_impl D) ty) es w) \<noteq> [] \<longrightarrow> (\<exists>e\<in>set es. activeException (elem w' e) \<noteq> None))"
  using assms
proof (induction es arbitrary: a w)
  case (Cons e es)
  from Cons.prems(1) obtain w1 where act: "preReadAndHandleExceptions (na_impl D) ty e w = (Ret (), w1)"
    and rest: "foldEach (noteFirst (preReadAndHandleExceptions (na_impl D) ty)) es (if a = None then activeException (elem w1 e) else a) w1 = (Ret b, w')"
    by (rule noteFirst_step)
  have e: "even e" "\<not> readTransactionInProgress (elem w e)" using Cons.prems(3) by simp_all
  have other: "elem w1 f = elem w f" if "even f" "f \<noteq> e" for f
    using accessor_groups.preRead_other[of f e D ty w "Ret ()" w1] act that by (simp add: untouched_def)
  have own: "readTransactionInProgress (elem w1 e)"
    using accessor_groups.preRead_own[of e D ty w w1] act e(1) by (simp split: prod.splits)
  have "\<forall>f\<in>set es. even f \<and> \<not> readTransactionInProgress (elem w1 f)"
  proof
    fix f assume f: "f \<in> set es"
    then have "f \<noteq> e" "even f" using Cons.prems(2,3) by auto
    then show "even f \<and> \<not> readTransactionInProgress (elem w1 f)" using Cons.prems(3) other[of f] f by simp
  qed
  note IH = Cons.IH[OF rest _ this]
  have keep: "elem w' e = elem w1 e" using IH Cons.prems(2) e(1) by auto
  show ?case
    using IH pre_stage[OF e act] Cons.prems(2) own other keep act by (auto split: prod.splits option.splits)
qed simp

lemma transfer_loop:
  assumes "foldEach (noteFirst (\<lambda>e. handleTransferException e () (readTransfer (na_impl D) e))) ls a w = (Ret b, w')"
    and "distinct ls" "\<forall>l\<in>set ls. odd l"
  shows "group_stages w' = group_stages w @ map CallReadTransfer ls \<and> lowOf w' = lowOf w \<and>
    (\<forall>f. f \<notin> set ls \<longrightarrow> elem w' f = elem w f) \<and>
    (fst (exceptions_found (\<lambda>e. handleTransferException e () (readTransfer (na_impl D) e)) ls w) \<noteq> [] \<longrightarrow>
      (\<exists>l\<in>set ls. activeException (elem w' l) \<noteq> None))"
  using assms
proof (induction ls arbitrary: a w)
  case (Cons l ls)
  from Cons.prems(1) obtain w1 where act: "handleTransferException l () (readTransfer (na_impl D) l) w = (Ret (), w1)"
    and rest: "foldEach (noteFirst (\<lambda>e. handleTransferException e () (readTransfer (na_impl D) e))) ls (if a = None then activeException (elem w1 l) else a) w1 = (Ret b, w')"
    by (rule noteFirst_step)
  have l: "odd l" using Cons.prems(3) by simp
  note step = transfer_stage[OF l act]
  note IH = Cons.IH[OF rest]
  have keep: "elem w' l = elem w1 l" using IH Cons.prems(2,3) by auto
  show ?case
    using IH step Cons.prems(2,3) keep act by (auto split: prod.splits option.splits)
qed simp

text \<open>A member that has failed, itself or in its low-level element.\<close>

definition has_failed :: "('h, 'u) na_heap world \<Rightarrow> nat \<Rightarrow> bool" where
  "has_failed w e = (activeException (elem w e) \<noteq> None \<or> activeException (elem w (lowOf w e)) \<noteq> None)"

lemma post_turn:
  assumes e: "even e" "readTransactionInProgress (elem w e)"
    and r: "countingPost (na_group D) (postReadAndHandleExceptions (na_impl D) TT_read u) e (g, w) = (Ret (), (g', w'))"
  shows "group_stages w' = group_stages w @ [CallPostRead e TT_read u]" "lowOf w' = lowOf w"
    "\<not> readTransactionInProgress (elem w' e)" "even f \<Longrightarrow> f \<noteq> e \<Longrightarrow> elem w' f = elem w f"
    "nRuntimeErrors g \<le> nRuntimeErrors g'" "has_failed w e \<Longrightarrow> nRuntimeErrors g < nRuntimeErrors g'"
    "\<not> has_failed w e \<Longrightarrow> even f \<Longrightarrow> f \<noteq> e \<Longrightarrow> has_failed w f \<Longrightarrow> has_failed w' f"
proof -
  define v where "v = copyLowLevelException e (lowOf w e) w"
  have v: "group_stages v = group_stages w" "lowOf v = lowOf w" "\<And>f. f \<noteq> e \<Longrightarrow> elem v f = elem w f"
    "readTransactionInProgress (elem v e)" "has_failed w e \<Longrightarrow> activeException (elem v e) \<noteq> None" "\<not> has_failed w e \<Longrightarrow> v = w"
    using e(2) by (auto simp: v_def copyLowLevelException_def has_failed_def storeException_def split: option.split)
  obtain q w1 where post: "postReadAndHandleExceptions (na_impl D) TT_read u e v = (q, w1)" by fastforce
  have "(case q of Throw x \<Rightarrow> (if is_runtime_error x then (Ret (), (g\<lparr>nRuntimeErrors := nRuntimeErrors g + 1\<rparr>, w1)) else (Throw x, (g, w1)))
      | _ \<Rightarrow> (q, (g, w1))) = (Ret (), (g', w'))"
    using r post e(1) by (auto simp: countingPost_def na_group_def v_def lowOf_def Let_def split: outcome.splits)
  then have w': "w' = w1" and n: "nRuntimeErrors g \<le> nRuntimeErrors g'" "(\<exists>x. q = Throw x) \<Longrightarrow> nRuntimeErrors g < nRuntimeErrors g'"
    by (auto split: outcome.splits if_splits)
  show st: "group_stages w' = group_stages w @ [CallPostRead e TT_read u]" "lowOf w' = lowOf w"
    using post_stage[OF e(1) post] v(1,2,4) w' by simp_all
  show "\<not> readTransactionInProgress (elem w' e)"
    using accessor_groups.postRead_own[of e D TT_read u v q w1] post e(1) w' by (simp split: prod.splits)
  have other: "elem w' f = elem w f" if "even f" "f \<noteq> e" for f
    using accessor_groups.postRead_other[of f e D TT_read u v q w1] post that w' v(3) by (simp add: untouched_def)
  then show "even f \<Longrightarrow> f \<noteq> e \<Longrightarrow> elem w' f = elem w f" .
  show "nRuntimeErrors g \<le> nRuntimeErrors g'" by (rule n(1))
  show "nRuntimeErrors g < nRuntimeErrors g'" if "has_failed w e"
    using post_throws[OF e(1) _ post] v(5)[OF that] n(2) by auto
  show "has_failed w' f" if ok: "\<not> has_failed w e" and f: "even f" "f \<noteq> e" "has_failed w f"
  proof (cases "activeException (elem w f) = None")
    case True
    then have low: "activeException (elem w (lowOf w f)) \<noteq> None" using f(3) by (simp add: has_failed_def)
    then have "lowOf w f \<noteq> lowOf w e" using ok by (auto simp: has_failed_def)
    moreover have "lowOf w f \<noteq> e" using odd_lowOf e(1) by metis
    ultimately have "elem w' (lowOf w f) = elem w (lowOf w f)"
      using post_other[OF e(1) _ _ post, of "lowOf w f"] v(6)[OF ok] w' by simp
    with low show ?thesis using st(2) by (simp add: has_failed_def)
  next
    case False
    then show ?thesis using other[OF f(1,2)] by (simp add: has_failed_def)
  qed
qed

lemma post_loop:
  assumes "forEach (countingPost (na_group D) (postReadAndHandleExceptions (na_impl D) TT_read u)) es (g, w) = (Ret (), (g', w'))"
    and "distinct es" "\<forall>e\<in>set es. even e \<and> readTransactionInProgress (elem w e)"
  shows "group_stages w' = group_stages w @ map (\<lambda>e. CallPostRead e TT_read u) es \<and>
    (\<forall>e\<in>set es. \<not> readTransactionInProgress (elem w' e)) \<and> (\<forall>f. even f \<and> f \<notin> set es \<longrightarrow> elem w' f = elem w f) \<and>
    nRuntimeErrors g \<le> nRuntimeErrors g' \<and> ((\<exists>e\<in>set es. has_failed w e) \<longrightarrow> nRuntimeErrors g < nRuntimeErrors g')"
  using assms
proof (induction es arbitrary: g w)
  case (Cons e es)
  then obtain g1 w1 where turn: "countingPost (na_group D) (postReadAndHandleExceptions (na_impl D) TT_read u) e (g, w) = (Ret (), (g1, w1))"
    and rest: "forEach (countingPost (na_group D) (postReadAndHandleExceptions (na_impl D) TT_read u)) es (g1, w1) = (Ret (), (g', w'))"
    by (auto elim!: andThen_cases)
  have e: "even e" "readTransactionInProgress (elem w e)" using Cons.prems(3) by simp_all
  note step = post_turn[OF e turn]
  have "\<forall>f\<in>set es. even f \<and> readTransactionInProgress (elem w1 f)"
  proof
    fix f assume f: "f \<in> set es"
    then have "f \<noteq> e" "even f" using Cons.prems(2,3) by auto
    then show "even f \<and> readTransactionInProgress (elem w1 f)" using Cons.prems(3) step(4)[of f] f by simp
  qed
  note IH = Cons.IH[OF rest _ this]
  have keep: "elem w' e = elem w1 e" using IH Cons.prems(2) e(1) by auto
  have count: "nRuntimeErrors g < nRuntimeErrors g'" if "f \<in> set (e # es)" "has_failed w f" for f
  proof (cases "has_failed w e")
    case True
    then show ?thesis using step(6) IH Cons.prems(2) by simp
  next
    case False
    then have "f \<noteq> e" using that by auto
    then have "f \<in> set es" "even f" using that Cons.prems(3) by auto
    then show ?thesis using step(5) step(7)[OF False \<open>even f\<close> \<open>f \<noteq> e\<close> that(2)] IH Cons.prems(2) by fastforce
  qed
  show ?case
    using IH step(1,3,4,5) Cons.prems(2) keep count by auto
qed simp

section \<open>The group read\<close>

lemma runPostReads_returns:
  assumes "andThen (runPostReads V G es first s) f = (r, s')" "r = Ret () \<or> (\<exists>x. r = Throw x \<and> is_runtime_error x)"
  obtains t where "forEach (countingPost G (postReadAndHandleExceptions V TT_read (first = None))) es s = (Ret (), t)" "f () t = (r, s')"
  using assms by (cases rule: andThen_cases)
    (auto simp: runPostReads_def dest!: forEach_throws[rotated, where P = "\<lambda>y. \<not> is_runtime_error y"] countingPost_throws)

text \<open>The three phases of a group without copy decorators, when no logic error ends it.\<close>

lemma group_read_phases:
  assumes "copyDecorators g = []" "group_read V G (g, w) = (r, s')" "r = Ret () \<or> (\<exists>x. r = Throw x \<and> is_runtime_error x)"
  obtains first w1 first' w2 s4 where
    "foldEach (noteFirst (preReadAndHandleExceptions V TT_read)) (highLevelElements g) None w = (Ret first, w1)"
    "(if first = None then foldEach (noteFirst (\<lambda>e. handleTransferException e () (readTransfer V e))) (lowLevelElements g) first w1
      else (Ret first, w1)) = (Ret first', w2)"
    "forEach (countingPost G (postReadAndHandleExceptions V TT_read (first' = None))) (highLevelElements g) (g\<lparr>nRuntimeErrors := 0\<rparr>, w2) = (Ret (), s4)"
    "rethrowFirst first' s4 = (r, s')"
proof -
  let ?pre = "foldEach (noteFirst (preReadAndHandleExceptions V TT_read)) (highLevelElements g) None w"
  let ?posts = "\<lambda>first s. andThen (runPostReads V G (highLevelElements g) first (resetErrors s)) (\<lambda>_ s. rethrowFirst first s)"
  let ?tr = "\<lambda>first w1. if first = None
      then in_world (foldEach (noteFirst (\<lambda>e. handleTransferException e () (readTransfer V e))) (lowLevelElements g) first) (g, w1)
      else (Ret first, (g, w1))"
  have preT: "\<not> is_runtime_error y" if "?pre = (Throw y, v)" for y v
    using that by (rule foldEach_throws[rotated])
      (auto simp: noteFirst_def preReadAndHandleExceptions_def handlePreException_def caught_in_pre_def
        elim!: andThen_cases split: prod.splits outcome.splits if_splits)
  obtain q w1 where q: "?pre = (q, w1)" by fastforce
  have read: "group_read V G (g, w) = andThen (q, (g, w1)) (\<lambda>first s. andThen
      (if first = None then in_world (foldEach (noteFirst (\<lambda>e. handleTransferException e () (readTransfer V e))) (lowLevelElements g) first) s
       else (Ret first, s)) ?posts)"
    using assms(1) q by (cases q) (simp_all add: group_read_def runPostReads_def resetErrors_def in_world_def)
  obtain first where first: "q = Ret first"
    using read assms(2,3) q preT by (cases q) auto
  have pre: "?pre = (Ret first, w1)" and run: "andThen (?tr first w1) ?posts = (r, s')"
    using read q first assms(2) by simp_all
  from run obtain first' s2 where t: "?tr first w1 = (Ret first', s2)" and posts2: "?posts first' s2 = (r, s')"
    using assms(3) by (cases rule: andThen_cases) (auto split: if_splits elim!: in_world_cases dest!: transfer_throws)
  obtain w2 where tr: "(if first = None then foldEach (noteFirst (\<lambda>e. handleTransferException e () (readTransfer V e))) (lowLevelElements g) first w1
      else (Ret first, w1)) = (Ret first', w2)" and s2: "s2 = (g, w2)"
    using t by (auto split: if_splits elim!: in_world_cases)
  note posts = posts2[unfolded s2]
  from posts assms(3) obtain s4 where
    "forEach (countingPost G (postReadAndHandleExceptions V TT_read (first' = None))) (highLevelElements g) (resetErrors (g, w2)) = (Ret (), s4)"
    "rethrowFirst first' s4 = (r, s')" by (rule runPostReads_returns)
  then show thesis using that[OF pre tr] by (simp add: resetErrors_def)
qed

text \<open>The three phases together: what is logged, and that an exception found in one of them is counted.\<close>

lemma phases_together:
  fixes D :: "'h na_device" and w :: "('h, 'u) na_heap world"
  assumes pre: "foldEach (noteFirst (preReadAndHandleExceptions (na_impl D) TT_read)) es None w = (Ret first, w1)"
      "exceptions_found (preReadAndHandleExceptions (na_impl D) TT_read) es w = (pres, w1)"
    and tr: "foldEach (noteFirst (\<lambda>l. handleTransferException l () (readTransfer (na_impl D) l))) ls first w1 = (Ret first', w2)"
      "exceptions_found (\<lambda>l. handleTransferException l () (readTransfer (na_impl D) l)) ls w1 = (transfers, w2)"
    and post: "forEach (countingPost (na_group D) (postReadAndHandleExceptions (na_impl D) TT_read u)) es (g, w2) = (Ret (), (g', w'))"
    and members: "distinct es" "\<forall>e\<in>set es. even e \<and> \<not> readTransactionInProgress (elem w e)"
    and low: "distinct ls" "set ls \<subseteq> lowOf w ` set es"
  shows "group_stages w' = group_stages w @ map (\<lambda>e. CallPreRead e TT_read) es @ map CallReadTransfer ls @ map (\<lambda>e. CallPostRead e TT_read u) es"
    and "\<forall>e\<in>set es. \<not> readTransactionInProgress (elem w' e)"
    and "pres @ transfers \<noteq> [] \<Longrightarrow> nRuntimeErrors g < nRuntimeErrors g'"
proof -
  note P = pre_loop[OF pre(1) members, unfolded pre(2) fst_conv]
  have odd: "\<forall>l\<in>set ls. odd l" using low(2) odd_lowOf by (metis (no_types, lifting) imageE subsetD)
  note T = transfer_loop[OF tr(1) low(1) odd, unfolded tr(2) fst_conv]
  have evens: "elem w2 f = elem w1 f" if "even f" for f using T odd that by blast
  have "\<forall>e\<in>set es. even e \<and> readTransactionInProgress (elem w2 e)" using P evens members by metis
  note Q = post_loop[OF post members(1) this]
  show "group_stages w' = group_stages w @ map (\<lambda>e. CallPreRead e TT_read) es @ map CallReadTransfer ls @ map (\<lambda>e. CallPostRead e TT_read u) es"
    using P T Q by simp
  show "\<forall>e\<in>set es. \<not> readTransactionInProgress (elem w' e)" using Q by blast
  assume some: "pres @ transfers \<noteq> []"
  have "\<exists>e\<in>set es. has_failed w2 e"
  proof (cases "pres = []")
    case True
    then obtain l where l: "l \<in> set ls" "activeException (elem w2 l) \<noteq> None" using T some by auto
    then obtain e where "e \<in> set es" "l = lowOf w e" using low(2) by blast
    then show ?thesis using l(2) P T by (intro bexI[of _ e]) (simp_all add: has_failed_def)
  next
    case False
    then obtain e where "e \<in> set es" "activeException (elem w1 e) \<noteq> None" using P by auto
    then show ?thesis using evens members by (intro bexI[of _ e]) (simp_all add: has_failed_def)
  qed
  then show "nRuntimeErrors g < nRuntimeErrors g'" using Q by simp
qed

text \<open>
  C24: a group read of numeric addressed accessors that no logic error ends early runs the pre
  stage of every member in order, then the transfer of every low-level element unless one of the
  pre stages has failed, then the post stage of every member, each once; all post stages get
  the same \<open>updateDataBuffer\<close>, which is true exactly if nothing has failed.  The read throws the
  first of the exceptions found in this order, and returns if there is none.
\<close>

theorem group_read_runs_stages:
  fixes D :: "'h na_device" and w :: "('h, 'u) na_heap world"
  assumes g: "set (highLevelElements g) \<subseteq> {e. even e}" "distinct (highLevelElements g)" "distinct (lowLevelElements g)" "copyDecorators g = []"
    and low: "set (lowLevelElements g) \<subseteq> (\<Union>e\<in>set (highLevelElements g). set (hardwareElements (na_group D) e w))"
    and idle: "\<forall>e\<in>set (highLevelElements g). \<not> readTransactionInProgress (elem w e)"
    and run: "group_read (na_impl D) (na_group D) (g, w) = (r, g', w')"
    and normal: "r = Ret () \<or> (\<exists>x. r = Throw x \<and> is_runtime_error x)"
  shows "let (pres, w1) = exceptions_found (preReadAndHandleExceptions (na_impl D) TT_read) (highLevelElements g) w;
      (transfers, w2) = exceptions_found (\<lambda>l. handleTransferException l () (readTransfer (na_impl D) l))
        (if pres = [] then lowLevelElements g else []) w1
    in r = (case pres @ transfers of [] \<Rightarrow> Ret () | x # _ \<Rightarrow> Throw x) \<and>
      group_stages w' = group_stages w @ map (\<lambda>e. CallPreRead e TT_read) (highLevelElements g) @
        (if pres = [] then map CallReadTransfer (lowLevelElements g) else []) @
        map (\<lambda>e. CallPostRead e TT_read (r = Ret ())) (highLevelElements g) \<and>
      (\<forall>e\<in>set (highLevelElements g). \<not> readTransactionInProgress (elem w' e))"
proof -
  let ?pre = "preReadAndHandleExceptions (na_impl D) TT_read" and ?tr = "\<lambda>l. handleTransferException l () (readTransfer (na_impl D) l)"
  let ?HL = "highLevelElements g"
  from group_read_phases[OF g(4) run normal] obtain first w1 first' w2 s4 where
    pre: "foldEach (noteFirst ?pre) ?HL None w = (Ret first, w1)"
    and tr: "(if first = None then foldEach (noteFirst ?tr) (lowLevelElements g) first w1 else (Ret first, w1)) = (Ret first', w2)"
    and post: "forEach (countingPost (na_group D) (postReadAndHandleExceptions (na_impl D) TT_read (first' = None))) ?HL
      (g\<lparr>nRuntimeErrors := 0\<rparr>, w2) = (Ret (), s4)"
    and fin: "rethrowFirst first' s4 = (r, g', w')" .
  obtain pres v1 where ex: "exceptions_found ?pre ?HL w = (pres, v1)" by (rule prod.exhaust)
  then have found: "exceptions_found ?pre ?HL w = (pres, w1)" and first: "first = first_of pres"
    using noteFirst_found[OF pre] by simp_all
  let ?LL = "if pres = [] then lowLevelElements g else []"
  have tr': "foldEach (noteFirst ?tr) ?LL first w1 = (Ret first', w2)"
    using tr first by (auto split: if_splits)
  obtain transfers v2 where ex': "exceptions_found ?tr ?LL w1 = (transfers, v2)" by (rule prod.exhaust)
  then have found': "exceptions_found ?tr ?LL w1 = (transfers, w2)" and "first' = (if first = None then first_of transfers else first)"
    using noteFirst_found[OF tr'] by simp_all
  then have first': "first' = first_of (pres @ transfers)"
    using first by (cases pres) simp_all
  have members: "\<forall>e\<in>set ?HL. even e \<and> \<not> readTransactionInProgress (elem w e)" using g(1) idle by auto
  have "set (hardwareElements (na_group D) e w) = {lowOf w e}" if "e \<in> set ?HL" for e
    using that g(1) by (auto simp: na_group_def lowOf_def)
  then have "(\<Union>e\<in>set ?HL. set (hardwareElements (na_group D) e w)) = lowOf w ` set ?HL" by auto
  with low have lows: "set ?LL \<subseteq> lowOf w ` set ?HL" by (cases "pres = []") simp_all
  obtain g4 w4 where s4: "s4 = (g4, w4)" by fastforce
  have dist: "distinct ?LL" using g(3) by simp
  note all = phases_together[OF pre found tr' found' post[unfolded s4] g(2) members dist lows]
  have out: "r = (case pres @ transfers of [] \<Rightarrow> Ret () | x # _ \<Rightarrow> Throw x) \<and> w' = w4"
  proof (cases "pres @ transfers")
    case Nil
    then show ?thesis using fin normal first' s4 by (auto simp: rethrowFirst_def split: if_splits)
  next
    case (Cons x xs)
    then have "nRuntimeErrors g4 \<noteq> 0" using all(3) by auto
    then show ?thesis using fin first' s4 Cons by (auto simp: rethrowFirst_def)
  qed
  have "(first' = None) = (r = Ret ())" using out first' by (cases "pres @ transfers") auto
  then have "group_stages w' = group_stages w @ map (\<lambda>e. CallPreRead e TT_read) ?HL @
        (if pres = [] then map CallReadTransfer (lowLevelElements g) else []) @
        map (\<lambda>e. CallPostRead e TT_read (r = Ret ())) ?HL"
    using all(1) out by auto
  with out all(2) show ?thesis unfolding Let_def found prod.case found' by blast
qed

text \<open>Two members on a device that cannot be read.\<close>

definition broken_device :: "(8 word list) na_device" where
  "broken_device = byte_device\<lparr>dev_read := (\<lambda>bar a n buf h. (Throw (RuntimeError ''bus error''), buf))\<rparr>"

theorem group_read_runs_stages_witness:
  "\<exists>w'. fst (group_read (na_impl broken_device) (na_group broken_device) (two_elements, byte_world)) = Throw (RuntimeError ''bus error'') \<and>
    snd (snd (group_read (na_impl broken_device) (na_group broken_device) (two_elements, byte_world))) = w' \<and>
    group_stages w' = [CallPreRead 0 TT_read, CallPreRead 2 TT_read, CallReadTransfer 1, CallReadTransfer 3,
      CallPostRead 0 TT_read False, CallPostRead 2 TT_read False]"
proof -
  let ?V = "na_impl broken_device" and ?G = "na_group broken_device"
  obtain r g' w' where run: "group_read ?V ?G (two_elements, byte_world) = (r, g', w')" by (rule prod_cases3)
  have found: "exceptions_found (preReadAndHandleExceptions ?V TT_read) [0, 2] byte_world = ([], w1)"
    if "w1 = snd (exceptions_found (preReadAndHandleExceptions ?V TT_read) [0, 2] byte_world)" for w1
    using that by (simp add: run_defs read_defs broken_device_def)
  have "fst (group_read ?V ?G (two_elements, byte_world)) = Throw (RuntimeError ''bus error'')"
    by (simp add: run_defs read_defs broken_device_def caught_in_transfer_def storeException_def)
  then have r: "r = Throw (RuntimeError ''bus error'')" by (simp add: run)
  have g: "highLevelElements two_elements = [0, 2]" "copyDecorators two_elements = []" "lowLevelElements two_elements = [1, 3]"
    by (simp_all add: two_elements_def empty_group_def)
  have w: "\<not> readTransactionInProgress (elem byte_world e)" "group_stages byte_world = []" for e
    by (simp_all add: byte_world_def new_te_def group_stages_def)
  have low: "set (hardwareElements ?G 0 byte_world) = {1}" "set (hardwareElements ?G 2 byte_world) = {3}"
    by (simp_all add: na_group_def byte_world_def two_registers_heap raw_elem_def)
  show ?thesis
    using group_read_runs_stages[OF _ _ _ _ _ _ run] g w low r found run by (auto split: prod.splits)
qed

section \<open>Logic errors\<close>

lemma closed_pre:
  assumes "even e" "\<not> readTransactionInProgress (elem w e)" "\<not> dev_isOpen D (hw (heap w) (acc_dev (accs (heap w) (e div 2))))"
  shows "\<exists>w1 t. preReadAndHandleExceptions (na_impl D) ty e w = (Ret (), w1) \<and> heap w1 = heap w \<and> elem w1 = (elem w)(e := t) \<and>
    readTransactionInProgress t \<and> activeException t = Some notOpened"
  using assms
  by (simp add: preReadAndHandleExceptions_def handlePreException_def preRead_def na_hooks acc_doPreRead_def Let_def notOpened_def
      caught_in_pre_def storeException_def) (auto simp: upd_def)

lemma closed_pre_loop:
  assumes "\<forall>e\<in>set es. even e \<and> \<not> readTransactionInProgress (elem w e) \<and> \<not> dev_isOpen D (hw (heap w) (acc_dev (accs (heap w) (e div 2))))"
    and "distinct es"
  shows "\<exists>w'. foldEach (noteFirst (preReadAndHandleExceptions (na_impl D) TT_read)) es a w =
      (Ret (if a = None \<and> es \<noteq> [] then Some notOpened else a), w') \<and> heap w' = heap w \<and>
    (\<forall>e\<in>set es. readTransactionInProgress (elem w' e) \<and> activeException (elem w' e) = Some notOpened) \<and>
    (\<forall>f. f \<notin> set es \<longrightarrow> elem w' f = elem w f)"
  using assms
proof (induction es arbitrary: a w)
  case (Cons e es)
  obtain w1 t where w1: "preReadAndHandleExceptions (na_impl D) TT_read e w = (Ret (), w1)" "heap w1 = heap w"
    "elem w1 = (elem w)(e := t)" "readTransactionInProgress t" "activeException t = Some notOpened"
    using closed_pre[of e w D TT_read] Cons.prems(1) by auto
  have "\<forall>f\<in>set es. even f \<and> \<not> readTransactionInProgress (elem w1 f) \<and> \<not> dev_isOpen D (hw (heap w1) (acc_dev (accs (heap w1) (f div 2))))"
    using Cons.prems w1(2,3) by auto
  from Cons.IH[OF this, of "if a = None then Some notOpened else a"] Cons.prems(2) obtain w' where w':
    "foldEach (noteFirst (preReadAndHandleExceptions (na_impl D) TT_read)) es (if a = None then Some notOpened else a) w1 =
      (Ret (if a = None then Some notOpened else a), w')" "heap w' = heap w1"
    "\<forall>e\<in>set es. readTransactionInProgress (elem w' e) \<and> activeException (elem w' e) = Some notOpened"
    "\<forall>f. f \<notin> set es \<longrightarrow> elem w' f = elem w1 f" by auto
  have e: "e \<notin> set es" using Cons.prems(2) by simp
  have run: "foldEach (noteFirst (preReadAndHandleExceptions (na_impl D) TT_read)) (e # es) a w =
      (Ret (if a = None then Some notOpened else a), w')"
    using w1(1,5) w1(3) w'(1) by (cases a) (simp_all add: noteFirst_def)
  show ?case
    using run w1 w' e by (intro exI[of _ w']) auto
qed simp

text \<open>The post stage of a member with an exception that is no runtime error ends the read.\<close>

lemma post_ends:
  assumes e: "even e" and x: "activeException (elem w e) = Some x" "\<not> is_runtime_error x" and low: "activeException (elem w (lowOf w e)) = None"
  shows "\<exists>w'. countingPost (na_group D) (postReadAndHandleExceptions (na_impl D) TT_read u) e (g, w) = (Throw x, (g, w'))"
proof -
  obtain r w' where r: "postReadAndHandleExceptions (na_impl D) TT_read u e w = (r, w')" by fastforce
  have rx: "r = Throw x" by (rule post_throws[OF e x(1) r])
  have "fold (copyLowLevelException e) (hardwareElements (na_group D) e w) w = w"
    using e low by (simp add: na_group_def lowOf_def copyLowLevelException_def)
  then show ?thesis using r rx x(2) by (simp add: countingPost_def)
qed

lemma closed_post:
  assumes e: "even e" "readTransactionInProgress (elem w e)" "activeException (elem w e) = Some notOpened"
    and low: "activeException (elem w (lowOf w e)) = None" and c: "\<not> dev_isOpen D (hw (heap w) (acc_dev (accs (heap w) (e div 2))))"
  shows "\<exists>w' t. countingPost (na_group D) (postReadAndHandleExceptions (na_impl D) TT_read u) e (g, w) = (Throw notOpened, (g, w')) \<and>
    elem w' = (elem w)(e := t) \<and> \<not> readTransactionInProgress t"
proof -
  have "fold (copyLowLevelException e) (hardwareElements (na_group D) e w) w = w"
    using e low by (simp add: na_group_def lowOf_def copyLowLevelException_def)
  moreover have "\<exists>w' t. postReadAndHandleExceptions (na_impl D) TT_read u e w = (Throw notOpened, w') \<and>
      elem w' = (elem w)(e := t) \<and> \<not> readTransactionInProgress t"
    using e c by (simp add: postReadAndHandleExceptions_def reportException_def postRead_def na_hooks acc_doPostRead_def
        rethrowActive_def notOpened_def Let_def) (auto simp: upd_def)
  ultimately show ?thesis by (auto simp: countingPost_def notOpened_def)
qed

lemma quiet_post:
  assumes e: "even e" "readTransactionInProgress (elem w e)" "activeException (elem w e) = None"
    and low: "activeException (elem w (lowOf w e)) = None"
  shows "\<exists>w'. countingPost (na_group D) (postReadAndHandleExceptions (na_impl D) TT_read False) e (g, w) = (Ret (), (g, w')) \<and>
    (\<forall>f. even f \<and> f \<noteq> e \<longrightarrow> elem w' f = elem w f) \<and> lowOf w' = lowOf w \<and>
    (\<forall>f. odd f \<longrightarrow> activeException (elem w f) = None \<longrightarrow> activeException (elem w' f) = None)"
proof -
  let ?f = "raw_elem (rawAccessor (accs (heap w) (e div 2)))"
  have f: "?f \<noteq> e" using raw_elem_parity[OF e(1)] .
  define v where "v = logged (CallPostRead e TT_read False) (upd e (\<lambda>t. t\<lparr>readTransactionInProgress := False\<rparr>) w)"
  have v: "heap v = heap w" "activeException (elem v e) = None" "activeException (elem v ?f) = None"
    "\<And>f. f \<noteq> e \<Longrightarrow> elem v f = elem w f"
    using e(3) low f by (simp_all add: v_def lowOf_def)
  have "(elem v e)\<lparr>activeException := None\<rparr> = elem v e" using v(2) by (cases "elem v e") simp
  then have idem: "upd e (\<lambda>t. t\<lparr>activeException := None\<rparr>) v = v" by (simp add: upd_def fun_upd_idem)
  have "\<exists>v' t. acc_doPostRead D e TT_read False v = (Ret (), v') \<and> elem v' = (elem v)(?f := t) \<and> activeException t = None"
  proof (cases "dev_isOpen D (hw (heap v) (acc_dev (accs (heap v) (e div 2))))")
    case True
    have h: "handOver e ?f v = v" using v idem by (simp add: handOver_def setActiveException_def)
    have "\<exists>v' t. postRead (ll_impl D) TT_read False ?f v = (Ret (), v') \<and> elem v' = (elem v)(?f := t) \<and> activeException t = None"
    proof (cases "readTransactionInProgress (elem v ?f)")
      case True
      then show ?thesis using v(3)
        by (simp add: postRead_def ll_impl_def ll_doPostRead_def rethrowActive_def) (auto simp: upd_def)
    next
      case False
      then show ?thesis using v(3)
        by (intro exI[of _ v] exI[of _ "elem v ?f"]) (simp add: postRead_def rethrowActive_def)
    qed
    then show ?thesis using True v(1) h by (auto simp: acc_doPostRead_def Let_def)
  next
    case False
    then show ?thesis using v(3) by (intro exI[of _ v] exI[of _ "elem v ?f"]) (simp add: acc_doPostRead_def Let_def)
  qed
  then obtain v' t where v': "acc_doPostRead D e TT_read False v = (Ret (), v')" "elem v' = (elem v)(?f := t)" "activeException t = None"
    by blast
  have post: "postReadAndHandleExceptions (na_impl D) TT_read False e w = (Ret (), v')"
    using e(1,2) v v' f by (simp add: postReadAndHandleExceptions_def reportException_def postRead_def na_hooks rethrowActive_def Let_def
        flip: v_def)
  have "fold (copyLowLevelException e) (hardwareElements (na_group D) e w) w = w"
    using e low by (simp add: na_group_def lowOf_def copyLowLevelException_def)
  then have turn: "countingPost (na_group D) (postReadAndHandleExceptions (na_impl D) TT_read False) e (g, w) = (Ret (), (g, v'))"
    using post by (simp add: countingPost_def)
  have odds: "\<forall>f. odd f \<longrightarrow> activeException (elem w f) = None \<longrightarrow> activeException (elem v' f) = None"
  proof (intro allI impI)
    fix i :: nat assume i: "odd i" "activeException (elem w i) = None"
    then have "elem v i = elem w i" using e(1) by (intro v(4)) auto
    then show "activeException (elem v' i) = None" using v'(2,3) i(2) by simp
  qed
  have lows: "lowOf v' = lowOf w" using post_stage(2)[OF e(1) post] v(1) by simp
  show ?thesis
    using turn lows odds post_turn(4)[OF e(1,2) turn] by blast
qed

text \<open>A member whose device is open starts its read, or is in one already.\<close>

lemma open_pre:
  assumes "even e" "\<not> readTransactionInProgress (elem w e)" "dev_isOpen D (hw (heap w) (acc_dev (accs (heap w) (e div 2))))"
    "info_isReadable (acc_info (accs (heap w) (e div 2)))" "\<forall>f. odd f \<longrightarrow> activeException (elem w f) = None"
  shows "\<exists>w'. preReadAndHandleExceptions (na_impl D) ty e w = (Ret (), w') \<and> heap w' = heap w \<and>
    readTransactionInProgress (elem w' e) \<and> activeException (elem w' e) = None \<and>
    (\<forall>f. even f \<and> f \<noteq> e \<longrightarrow> elem w' f = elem w f) \<and> (\<forall>f. odd f \<longrightarrow> activeException (elem w' f) = None)"
proof -
  let ?f = "raw_elem (rawAccessor (accs (heap w) (e div 2)))"
  have f: "?f \<noteq> e" "odd ?f" using raw_elem_parity[OF assms(1)] by (simp_all add: raw_elem_def)
  define v where "v = logged (CallPreRead e ty) (upd e (\<lambda>t. t\<lparr>readTransactionInProgress := True\<rparr>) (upd e (\<lambda>t. t\<lparr>activeException := None\<rparr>) w))"
  have v: "heap v = heap w" "readTransactionInProgress (elem v e)" "activeException (elem v e) = None" "\<And>f. f \<noteq> e \<Longrightarrow> elem v f = elem w f"
    by (simp_all add: v_def)
  have "\<exists>v'. preRead (ll_impl D) ty ?f v = (Ret (), v') \<and> heap v' = heap v \<and> (\<forall>f. f \<noteq> ?f \<longrightarrow> elem v' f = elem v f) \<and>
      activeException (elem v' ?f) = None"
    using assms(5) f v(4) by (simp add: preRead_def ll_impl_def Let_def)
  then obtain v' where v': "preRead (ll_impl D) ty ?f v = (Ret (), v')" "heap v' = heap v" "\<forall>f. f \<noteq> ?f \<longrightarrow> elem v' f = elem v f"
    "activeException (elem v' ?f) = None" by blast
  have "acc_doPreRead D e ty v = (Ret (), v')" using v' v(1) assms(3,4) by (simp add: acc_doPreRead_def Let_def)
  then have run: "preReadAndHandleExceptions (na_impl D) ty e w = (Ret (), v')"
    using assms(1,2) by (simp add: preReadAndHandleExceptions_def handlePreException_def preRead_def na_hooks Let_def flip: v_def)
  have evens: "\<forall>f. even f \<and> f \<noteq> e \<longrightarrow> elem v' f = elem w f" using v'(3) v(4) f(2) by metis
  have odds: "\<forall>f. odd f \<longrightarrow> activeException (elem v' f) = None"
  proof (intro allI impI)
    fix i :: nat assume i: "odd i"
    then have "elem v i = elem w i" using assms(1) by (intro v(4)) auto
    then show "activeException (elem v' i) = None" using v'(3,4) assms(5) i by (cases "i = ?f") auto
  qed
  show ?thesis using run v' v f evens odds by (intro exI[of _ v']) simp
qed

lemma started_pre_loop:
  assumes "\<forall>e\<in>set es. readTransactionInProgress (elem w e) \<and> activeException (elem w e) = Some x"
  shows "foldEach (noteFirst (preReadAndHandleExceptions V TT_read)) es a w = (Ret (if a = None \<and> es \<noteq> [] then Some x else a), w)"
  using assms
proof (induction es arbitrary: a)
  case (Cons e es)
  have "preReadAndHandleExceptions V TT_read e w = (Ret (), w)"
    using Cons.prems by (simp add: preReadAndHandleExceptions_def handlePreException_def preRead_def)
  then show ?case using Cons.IH[of "if a = None then Some x else a"] Cons.prems by (cases a) (simp_all add: noteFirst_def)
qed simp

text \<open>
  C27: a group with at least two members is read while the device is closed.  This throws the
  logic error \<open>Device not opened\<close>, and because a logic error ends the function before the post stages
  of the other members, these keep the exception and count as being in a transaction.  So the
  next group read fails with the old exception, although the device is open again then.  The
  elements are only used by the group, whatever else happens between the two reads.
\<close>

theorem logic_error_survives_group_read:
  fixes D :: "'h na_device" and w w1 w2 :: "('h, 'u) na_heap world"
  assumes g: "highLevelElements g = e1 # e2 # es" "distinct (e1 # e2 # es)" "\<forall>e\<in>set (e1 # e2 # es). even e" "copyDecorators g = []"
    and closed: "\<forall>e\<in>set (e1 # e2 # es). \<not> dev_isOpen D (hw (heap w) (acc_dev (accs (heap w) (e div 2))))"
    and idle: "\<forall>e\<in>set (e1 # e2 # es). \<not> readTransactionInProgress (elem w e)" "\<forall>f. odd f \<longrightarrow> activeException (elem w f) = None"
    and first: "group_read (na_impl D) (na_group D) (g, w) = (r1, g1, w1)"
    and later: "elem w2 = elem w1" "dev_isOpen D (hw (heap w2) (acc_dev (accs (heap w2) (e1 div 2))))"
      "info_isReadable (acc_info (accs (heap w2) (e1 div 2)))"
  shows "r1 = Throw notOpened \<and> fst (group_read (na_impl D) (na_group D) (g1, w2)) = Throw notOpened"
proof -
  let ?V = "na_impl D" and ?G = "na_group D"
  let ?pre = "preReadAndHandleExceptions ?V TT_read" and ?g = "g\<lparr>nRuntimeErrors := 0\<rparr>"
  have d: "e1 \<notin> set (e2 # es)" "distinct (e1 # e2 # es)" and ev: "even e1" "even e2" using g(2,3) by simp_all
  obtain v where v: "foldEach (noteFirst ?pre) (e1 # e2 # es) None w = (Ret (Some notOpened), v)" "heap v = heap w"
    "\<forall>e\<in>set (e1 # e2 # es). readTransactionInProgress (elem v e) \<and> activeException (elem v e) = Some notOpened"
    "\<forall>f. f \<notin> set (e1 # e2 # es) \<longrightarrow> elem v f = elem w f"
    using closed_pre_loop[of "e1 # e2 # es" w D None] g(3) closed idle(1) d(2) by auto
  have odd_v: "activeException (elem v f) = None" if "odd f" for f
    using v(4) idle(2) g(3) that by metis
  have c1: "readTransactionInProgress (elem v e1)" "activeException (elem v e1) = Some notOpened"
    "activeException (elem v (lowOf v e1)) = None" "\<not> dev_isOpen D (hw (heap v) (acc_dev (accs (heap v) (e1 div 2))))"
    using v(2,3) odd_v[OF odd_lowOf] closed by simp_all
  from closed_post[OF ev(1) c1, of False ?g] obtain v1 t where
    v1: "countingPost ?G (postReadAndHandleExceptions ?V TT_read False) e1 (?g, v) = (Throw notOpened, (?g, v1))"
    "elem v1 = (elem v)(e1 := t)" "\<not> readTransactionInProgress t" by blast
  have "group_read ?V ?G (g, w) = (Throw notOpened, (?g, v1))"
    using v(1) v1(1) g(1,4) by (simp add: group_read_def in_world_def runPostReads_def resetErrors_def del: foldEach.simps(2))
  then have r1: "r1 = Throw notOpened" "g1 = ?g" "w1 = v1" using first by simp_all
  have e2: "elem w2 f = elem v f" if "f \<noteq> e1" for f using later(1) r1(3) v1(2) that by simp
  have odd2: "\<forall>f. odd f \<longrightarrow> activeException (elem w2 f) = None" using e2 odd_v ev(1) by metis
  have "\<not> readTransactionInProgress (elem w2 e1)" using later(1) r1(3) v1(2,3) by simp
  from open_pre[OF ev(1) this later(2,3) odd2, of TT_read] obtain x where x: "?pre e1 w2 = (Ret (), x)" "heap x = heap w2"
    "readTransactionInProgress (elem x e1)" "activeException (elem x e1) = None"
    "\<forall>f. even f \<and> f \<noteq> e1 \<longrightarrow> elem x f = elem w2 f" "\<forall>f. odd f \<longrightarrow> activeException (elem x f) = None" by blast
  have others: "\<forall>e\<in>set (e2 # es). readTransactionInProgress (elem x e) \<and> activeException (elem x e) = Some notOpened"
  proof
    fix e assume e: "e \<in> set (e2 # es)"
    then have "e \<noteq> e1" "even e" using d g(3) by auto
    then show "readTransactionInProgress (elem x e) \<and> activeException (elem x e) = Some notOpened"
      using x(5) e2[of e] v(3)[rule_format, of e] e by simp
  qed
  have pre2: "foldEach (noteFirst ?pre) (e1 # e2 # es) None w2 = (Ret (Some notOpened), x)"
    using started_pre_loop[OF others, of ?V None] x(1,4) by (simp add: noteFirst_def)
  obtain y where y: "countingPost ?G (postReadAndHandleExceptions ?V TT_read False) e1 (?g, x) = (Ret (), (?g, y))"
    "\<forall>f. even f \<and> f \<noteq> e1 \<longrightarrow> elem y f = elem x f" "lowOf y = lowOf x" "\<forall>f. odd f \<longrightarrow> activeException (elem x f) = None \<longrightarrow> activeException (elem y f) = None"
    using quiet_post[OF ev(1) x(3,4) x(6)[rule_format, OF odd_lowOf], of D ?g] by blast
  have "activeException (elem y e2) = Some notOpened" "activeException (elem y (lowOf y e2)) = None"
    using y(2) others ev d(1) y(4)[rule_format, OF odd_lowOf x(6)[rule_format, OF odd_lowOf]] by simp_all
  from post_ends[OF ev(2) this(1) _ this(2), of D False ?g] obtain z where
    z: "countingPost ?G (postReadAndHandleExceptions ?V TT_read False) e2 (?g, y) = (Throw notOpened, (?g, z))"
    by (auto simp: notOpened_def)
  have "group_read ?V ?G (?g, w2) = (Throw notOpened, (?g, z))"
    using pre2 y(1) z g(1,4) by (simp add: group_read_def in_world_def runPostReads_def resetErrors_def del: foldEach.simps(2))
  then show ?thesis using r1 by simp
qed

text \<open>The two registers of a device that is opened after the first read.\<close>

definition closed_world :: "((unit, string list) dummy_device, 8 word) na_heap world" where
  "closed_world = two_registers\<lparr>heap := (heap two_registers)\<lparr>hw := (\<lambda>_. sample_dummy\<lparr>dummy_base := initial_backend [] ()\<rparr>)\<rparr>\<rparr>"

definition reopened :: "((unit, string list) dummy_device, 8 word) na_heap world \<Rightarrow> ((unit, string list) dummy_device, 8 word) na_heap world" where
  "reopened w = w\<lparr>heap := heap two_registers\<rparr>"

theorem logic_error_survives_group_read_witness:
  "let s = snd (group_read (na_impl sample_device) (na_group sample_device) (two_elements, closed_world))
   in fst (group_read (na_impl sample_device) (na_group sample_device) (fst s, reopened (snd s))) = Throw notOpened"
proof -
  obtain r1 g1 w1 where first: "group_read (na_impl sample_device) (na_group sample_device) (two_elements, closed_world) = (r1, g1, w1)"
    by (rule prod_cases3)
  have g: "highLevelElements two_elements = 0 # 2 # []" "copyDecorators two_elements = []"
    by (simp_all add: two_elements_def empty_group_def)
  have w: "\<not> dev_isOpen sample_device (hw (heap closed_world) d)" "elem closed_world e = new_te ''reg'' {}" for d e
    by (simp_all add: closed_world_def two_registers_def sample_na_world_def dummy_na_device_def initial_backend_def Let_def)
  have later: "elem (reopened w1) = elem w1" "dev_isOpen sample_device (hw (heap (reopened w1)) d)"
    "info_isReadable (acc_info (accs (heap (reopened w1)) 0))" for d
    by (simp_all add: reopened_def dummy_na_device_def sample_na_world_def sample_dummy_def initial_backend_def two_registers_heap
        info_isReadable_def) (simp_all add: two_registers_def sample_na_world_def sample_dummy_def initial_backend_def Let_def)
  show ?thesis
    using logic_error_survives_group_read[OF g(1) _ _ g(2) _ _ _ first later(1) later(2)] later(3) w
    unfolding first by (simp add: new_te_def)
qed

section \<open>Merged writes\<close>

text \<open>The pre stage of an accessor whose low-level element is not flagged as unaligned.\<close>

lemma plain_preWrite:
  fixes w :: "('h, 'u) na_heap world" and k :: nat
  defines "a \<equiv> accs (heap w) k" and "f \<equiv> raw_elem (rawAccessor (accs (heap w) k))"
  defines "l \<equiv> raws (heap w) (rawAccessor (accs (heap w) k))"
  assumes "dev_isOpen D (hw (heap w) (acc_dev a))" "\<not> isUnaligned l" "info_isWriteable (acc_info a)"
    and "\<not> writeTransactionInProgress (elem w (2 * k))" "\<not> v < versionNumber (elem w (2 * k))" "\<not> v < versionNumber (elem w f)"
    and fresh: "writeTransactionInProgress (elem w f) \<longrightarrow> activeException (elem w f) = None"
  shows "\<exists>w'. preWriteAndHandleExceptions (na_impl D) TT_write v (2 * k) w = (Ret (), w') \<and>
    heap w' = (heap w)\<lparr>raws := (raws (heap w))(rawAccessor a :=
      l\<lparr>rawDataBuffer := overwrite (begin_offset a l) (raw_bytes a) (rawDataBuffer l)\<rparr>)\<rparr> \<and>
    writeTransactionInProgress (elem w' (2 * k)) \<and> activeException (elem w' (2 * k)) = None \<and>
    writeTransactionInProgress (elem w' f) \<and> activeException (elem w' f) = None \<and> versionNumber (elem w' f) = versionNumber (elem w f) \<and>
    (\<forall>e. e \<noteq> 2 * k \<longrightarrow> e \<noteq> f \<longrightarrow> elem w' e = elem w e)"
proof -
  have ne: "f \<noteq> 2 * k" using raw_elem_parity[of "2 * k"] by (simp add: f_def)
  define v0 where "v0 = logged (CallPreWrite (2 * k) TT_write v) (upd (2 * k) (\<lambda>t. t\<lparr>writeTransactionInProgress := True\<rparr>)
    (upd (2 * k) (\<lambda>t. t\<lparr>activeException := None\<rparr>) w))"
  have v0: "heap v0 = heap w" "\<And>e. e \<noteq> 2 * k \<Longrightarrow> elem v0 e = elem w e" "writeTransactionInProgress (elem v0 (2 * k))"
    "activeException (elem v0 (2 * k)) = None" by (simp_all add: v0_def)
  have f2: "f div 2 = rawAccessor a" by (simp add: f_def a_def raw_elem_def)
  have "\<exists>v1. preWrite (ll_impl D) TT_write v f v0 = (Ret (), v1) \<and> heap v1 = heap v0 \<and> writeTransactionInProgress (elem v1 f) \<and>
      activeException (elem v1 f) = None \<and> versionNumber (elem v1 f) = versionNumber (elem v0 f) \<and> (\<forall>e. e \<noteq> f \<longrightarrow> elem v1 e = elem v0 e)"
    using assms(5,9) fresh v0(1) v0(2)[OF ne] f2
    by (cases "writeTransactionInProgress (elem w f)")
      (simp_all add: preWrite_def ll_impl_def ll_doPreWrite_def a_def l_def)
  then obtain v1 where v1: "preWrite (ll_impl D) TT_write v f v0 = (Ret (), v1)" "heap v1 = heap v0" "writeTransactionInProgress (elem v1 f)"
    "activeException (elem v1 f) = None" "versionNumber (elem v1 f) = versionNumber (elem v0 f)" "\<forall>e. e \<noteq> f \<longrightarrow> elem v1 e = elem v0 e" by blast
  define v2 where "v2 = upd f (\<lambda>t. t\<lparr>dataValidity := dataValidity (elem v1 (2 * k))\<rparr>)
    (upd_raw (rawAccessor a) (\<lambda>l. l\<lparr>rawDataBuffer := overwrite (begin_offset a l) (raw_bytes a) (rawDataBuffer l)\<rparr>) v1)"
  have "acc_doPreWrite D (2 * k) TT_write v v0 = (Ret (), v2)"
    using assms(4,6) v0(1) v1(1) by (simp add: acc_doPreWrite_def Let_def v2_def f_def a_def)
  then have "preWriteAndHandleExceptions (na_impl D) TT_write v (2 * k) w = (Ret (), v2)"
    using assms(7,8) by (simp add: preWriteAndHandleExceptions_def handlePreException_def preWrite_def na_hooks Let_def flip: v0_def)
  moreover have "heap v2 = (heap w)\<lparr>raws := (raws (heap w))(rawAccessor a :=
      l\<lparr>rawDataBuffer := overwrite (begin_offset a l) (raw_bytes a) (rawDataBuffer l)\<rparr>)\<rparr>"
    using v0(1) v1(2) by (simp add: v2_def upd_raw_def l_def a_def)
  ultimately show ?thesis
    using v0 v1 ne ne[symmetric] by (intro exI[of _ v2]) (simp add: v2_def)
qed

lemma plain_postWrite:
  fixes w :: "('h, 'u) na_heap world" and k :: nat
  defines "f \<equiv> raw_elem (rawAccessor (accs (heap w) k))"
  assumes "writeTransactionInProgress (elem w (2 * k))" "activeException (elem w (2 * k)) = None" "activeException (elem w f) = None"
    and "\<not> ownsLock (raws (heap w) (rawAccessor (accs (heap w) k)))"
  shows "\<exists>w'. countingPost (na_group D) (postWrite (na_impl D) TT_write v) (2 * k) (g, w) = (Ret (), (g, w')) \<and> heap w' = heap w \<and>
    activeException (elem w' f) = None \<and> (\<forall>e. e \<noteq> 2 * k \<longrightarrow> e \<noteq> f \<longrightarrow> elem w' e = elem w e)"
proof -
  have ne: "f \<noteq> 2 * k" using raw_elem_parity[of "2 * k"] by (simp add: f_def)
  have f2: "f div 2 = rawAccessor (accs (heap w) k)" by (simp add: f_def raw_elem_def)
  define v0 where "v0 = logged (CallPostWrite (2 * k) TT_write v) (upd (2 * k) (\<lambda>t. t\<lparr>writeTransactionInProgress := False\<rparr>) w)"
  have v0: "heap v0 = heap w" "\<And>e. e \<noteq> 2 * k \<Longrightarrow> elem v0 e = elem w e" "activeException (elem v0 (2 * k)) = None"
    "activeException (elem v0 f) = None" using assms(3,4) ne by (simp_all add: v0_def)
  have "(elem v0 (2 * k))\<lparr>activeException := None\<rparr> = elem v0 (2 * k)" using v0(3) by (cases "elem v0 (2 * k)") simp
  then have h: "handOver (2 * k) f v0 = v0" using v0(3) by (simp add: handOver_def setActiveException_def upd_def fun_upd_idem)
  have ll: "\<exists>v1. postWrite (ll_impl D) TT_write v f v0 = (Ret (), v1) \<and> heap v1 = heap v0 \<and>
      activeException (elem v1 f) = None \<and> (\<forall>e. e \<noteq> f \<longrightarrow> elem v1 e = elem v0 e)"
    using v0(1,4) assms(5) f2
    by (cases "writeTransactionInProgress (elem v0 f)")
      (simp_all add: postWrite_def ll_impl_def ll_doPostWrite_def rethrowActive_def)
  have "\<exists>v1. acc_doPostWrite D (2 * k) TT_write v v0 = (Ret (), v1) \<and> heap v1 = heap v0 \<and>
      activeException (elem v1 f) = None \<and> (\<forall>e. e \<noteq> f \<longrightarrow> elem v1 e = elem v0 e)"
  proof (cases "dev_isOpen D (hw (heap v0) (acc_dev (accs (heap v0) k)))")
    case True
    then have "acc_doPostWrite D (2 * k) TT_write v v0 = postWrite (ll_impl D) TT_write v f v0"
      using h v0(1) by (simp add: acc_doPostWrite_def Let_def f_def)
    with ll show ?thesis by simp
  next
    case False
    then show ?thesis using v0(4) by (intro exI[of _ v0]) (simp add: acc_doPostWrite_def Let_def)
  qed
  then obtain v1 where v1: "acc_doPostWrite D (2 * k) TT_write v v0 = (Ret (), v1)" "heap v1 = heap v0"
    "activeException (elem v1 f) = None" "\<forall>e. e \<noteq> f \<longrightarrow> elem v1 e = elem v0 e" by blast
  have "postWrite (na_impl D) TT_write v (2 * k) w = (Ret (), upd (2 * k) (\<lambda>t. t\<lparr>versionNumber := v\<rparr>) v1)"
    using assms(2) v1 v0(3) ne[symmetric] by (simp add: postWrite_def na_hooks rethrowActive_def Let_def flip: v0_def)
  moreover have "fold (copyLowLevelException (2 * k)) (hardwareElements (na_group D) (2 * k) w) w = w"
    using assms(4) by (simp add: na_group_def copyLowLevelException_def f_def)
  ultimately show ?thesis
    using v1 v0 ne ne[symmetric] by (intro exI[of _ "upd (2 * k) (\<lambda>t. t\<lparr>versionNumber := v\<rparr>) v1"]) (simp add: countingPost_def)
qed

text \<open>The byte at the place \<open>j\<close> of a buffer that was overwritten with the bytes of a register.\<close>

lemma length_overwritten:
  assumes "startAddress l \<le> reg_address (acc_info a)" "reg_address (acc_info a) + register_bytes a \<le> startAddress l + length buf"
    and "length (raw_bytes a) = register_bytes a"
  shows "length (overwrite (begin_offset a l) (raw_bytes a) buf) = length buf"
  using assms by (simp add: overwrite_def begin_offset_def)

lemma nth_overwritten:
  assumes "startAddress l \<le> reg_address (acc_info a)" "reg_address (acc_info a) + register_bytes a \<le> startAddress l + length buf"
    and "length (raw_bytes a) = register_bytes a" "startAddress l \<le> x" "x < startAddress l + length buf"
  shows "overwrite (begin_offset a l) (raw_bytes a) buf ! (x - startAddress l) =
      (if reg_address (acc_info a) \<le> x \<and> x < reg_address (acc_info a) + register_bytes a
       then raw_bytes a ! (x - reg_address (acc_info a)) else buf ! (x - startAddress l))"
proof -
  let ?o = "reg_address (acc_info a) - startAddress l" and ?j = "x - startAddress l"
  have j: "?j < length buf" "startAddress l + ?j = x" using assms(4,5) by auto
  have len: "length (take ?o buf) = ?o" using assms(1,2) by simp
  consider "?j < ?o" | "?o \<le> ?j" "?j < ?o + register_bytes a" | "?o + register_bytes a \<le> ?j" by linarith
  then show "overwrite (begin_offset a l) (raw_bytes a) buf ! ?j =
      (if reg_address (acc_info a) \<le> x \<and> x < reg_address (acc_info a) + register_bytes a
       then raw_bytes a ! (x - reg_address (acc_info a)) else buf ! ?j)"
  proof cases
    case 1
    then have "\<not> reg_address (acc_info a) \<le> x" using assms by auto
    with 1 len show ?thesis by (simp add: overwrite_def begin_offset_def nth_append)
  next
    case 2
    then have "reg_address (acc_info a) \<le> x" "x < reg_address (acc_info a) + register_bytes a"
      "?j - ?o = x - reg_address (acc_info a)" "x - reg_address (acc_info a) < register_bytes a"
      using assms(1,4) by auto
    with 2 len assms(3) show ?thesis by (simp add: overwrite_def begin_offset_def nth_append)
  next
    case 3
    then have "\<not> x < reg_address (acc_info a) + register_bytes a" using assms(1,4) by linarith
    moreover have "?o + register_bytes a + (?j - ?o - register_bytes a) = ?j" using 3 by linarith
    then have "drop (?o + register_bytes a) buf ! (?j - ?o - register_bytes a) = buf ! ?j"
      using 3 j(1) by (subst nth_drop) auto
    ultimately show ?thesis using 3 j len assms(3) by (auto simp: overwrite_def begin_offset_def nth_append)
  qed
qed

text \<open>A group write of two accessors that share a low-level element writes its buffer once.\<close>

lemma shared_group_write:
  fixes w :: "('h, 'u) na_heap world" and k1 k2 :: nat
  defines "a1 \<equiv> accs (heap w) k1" and "a2 \<equiv> accs (heap w) k2"
  defines "l \<equiv> raws (heap w) (rawAccessor (accs (heap w) k1))"
  assumes open_dev: "dev_isOpen D (hw (heap w) (acc_dev a1))" "dev_isOpen D (hw (heap w) (acc_dev a2))"
    and merged: "rawAccessor a2 = rawAccessor a1" "\<not> isUnaligned l" "\<not> ownsLock l" "k1 \<noteq> k2"
    and free: "\<forall>e. \<not> writeTransactionInProgress (elem w e)" "\<forall>e. versionNumber (elem w e) \<le> v"
    and access: "info_isWriteable (acc_info a1)" "info_isWriteable (acc_info a2)"
    and b: "b = overwrite (begin_offset a2 l) (raw_bytes a2) (overwrite (begin_offset a1 l) (raw_bytes a1) (rawDataBuffer l))"
    and written: "dev_write D (lle_bar l) (startAddress l) b (hw (heap w) (lle_dev l)) = (Ret (), h)"
    and g: "highLevelElements g = [2 * k1, 2 * k2]" "lowLevelElements g = [raw_elem (rawAccessor a1)]"
  shows "\<exists>g' w'. group_write (na_impl D) (na_group D) v (g, w) = (Ret (), g', w') \<and> hw (heap w') = (hw (heap w))(lle_dev l := h)"
proof -
  let ?i = "rawAccessor a1"
  let ?V = "na_impl D" and ?G = "na_group D" and ?f = "raw_elem ?i" and ?g = "g\<lparr>nRuntimeErrors := 0\<rparr>"
  have ver: "\<not> v < versionNumber (elem w e)" for e using free(2) by (simp add: not_less)
  have ne: "?f \<noteq> 2 * k1" "?f \<noteq> 2 * k2" "2 * k1 \<noteq> 2 * k2"
    using raw_elem_parity[of "2 * k1"] raw_elem_parity[of "2 * k2"] merged(4) by simp_all
  define b1 where "b1 = overwrite (begin_offset a1 l) (raw_bytes a1) (rawDataBuffer l)"
  have "\<exists>w1. preWriteAndHandleExceptions ?V TT_write v (2 * k1) w = (Ret (), w1) \<and>
    heap w1 = (heap w)\<lparr>raws := (raws (heap w))(?i := l\<lparr>rawDataBuffer := b1\<rparr>)\<rparr> \<and>
    writeTransactionInProgress (elem w1 (2 * k1)) \<and> activeException (elem w1 (2 * k1)) = None \<and>
    writeTransactionInProgress (elem w1 ?f) \<and> activeException (elem w1 ?f) = None \<and> versionNumber (elem w1 ?f) = versionNumber (elem w ?f) \<and>
    (\<forall>e. e \<noteq> 2 * k1 \<longrightarrow> e \<noteq> ?f \<longrightarrow> elem w1 e = elem w e)"
    using plain_preWrite[of D w k1 v] open_dev(1) merged(2) access(1) free(1) ver
    unfolding a1_def[symmetric] l_def[folded a1_def, symmetric] b1_def by simp
  then obtain w1 where w1: "preWriteAndHandleExceptions ?V TT_write v (2 * k1) w = (Ret (), w1)"
    "heap w1 = (heap w)\<lparr>raws := (raws (heap w))(?i := l\<lparr>rawDataBuffer := b1\<rparr>)\<rparr>"
    "writeTransactionInProgress (elem w1 (2 * k1))" "activeException (elem w1 (2 * k1)) = None"
    "writeTransactionInProgress (elem w1 ?f)" "activeException (elem w1 ?f) = None" "versionNumber (elem w1 ?f) = versionNumber (elem w ?f)"
    "\<forall>e. e \<noteq> 2 * k1 \<longrightarrow> e \<noteq> ?f \<longrightarrow> elem w1 e = elem w e" by blast
  have acc1: "accs (heap w1) = accs (heap w)" "hw (heap w1) = hw (heap w)" "raws (heap w1) ?i = l\<lparr>rawDataBuffer := b1\<rparr>"
    using w1(2) by simp_all
  have off: "begin_offset a2 (l\<lparr>rawDataBuffer := b1\<rparr>) = begin_offset a2 l" by (simp add: begin_offset_def)
  have "\<exists>w2. preWriteAndHandleExceptions ?V TT_write v (2 * k2) w1 = (Ret (), w2) \<and>
    heap w2 = (heap w1)\<lparr>raws := (raws (heap w1))(?i := l\<lparr>rawDataBuffer := b\<rparr>)\<rparr> \<and>
    writeTransactionInProgress (elem w2 (2 * k2)) \<and> activeException (elem w2 (2 * k2)) = None \<and>
    writeTransactionInProgress (elem w2 ?f) \<and> activeException (elem w2 ?f) = None \<and> versionNumber (elem w2 ?f) = versionNumber (elem w1 ?f) \<and>
    (\<forall>e. e \<noteq> 2 * k2 \<longrightarrow> e \<noteq> ?f \<longrightarrow> elem w2 e = elem w1 e)"
    using plain_preWrite[of D w1 k2 v] open_dev(2) merged(1,2) access(2) free(1) ver w1(6-8) ne
    unfolding acc1(1,2) a2_def[symmetric] merged(1) acc1(3) b b1_def[symmetric] off by simp
  then obtain w2 where w2: "preWriteAndHandleExceptions ?V TT_write v (2 * k2) w1 = (Ret (), w2)"
    "heap w2 = (heap w1)\<lparr>raws := (raws (heap w1))(?i := l\<lparr>rawDataBuffer := b\<rparr>)\<rparr>"
    "writeTransactionInProgress (elem w2 (2 * k2))" "activeException (elem w2 (2 * k2)) = None" "activeException (elem w2 ?f) = None"
    "\<forall>e. e \<noteq> 2 * k2 \<longrightarrow> e \<noteq> ?f \<longrightarrow> elem w2 e = elem w1 e" by blast
  define w3 where "w3 = upd_hw (lle_dev l) h (logged (CallWriteTransfer ?f v) w2)"
  have w3: "elem w3 = elem w2" "accs (heap w3) = accs (heap w)" "raws (heap w3) ?i = l\<lparr>rawDataBuffer := b\<rparr>"
    "hw (heap w3) = (hw (heap w))(lle_dev l := h)"
    using w2(2) acc1 by (simp_all add: w3_def upd_hw_def)
  have tr: "writeTransfer ?V v ?f w2 = (Ret False, w3)"
    using w2(2) acc1 written by (simp add: writeTransfer_def na_hooks raw_elem_def ll_impl_def ll_doWriteTransfer_def w3_def)
  have "\<exists>w4. countingPost ?G (postWrite ?V TT_write v) (2 * k1) (?g, w3) = (Ret (), (?g, w4)) \<and> heap w4 = heap w3 \<and>
      activeException (elem w4 ?f) = None \<and> (\<forall>e. e \<noteq> 2 * k1 \<longrightarrow> e \<noteq> ?f \<longrightarrow> elem w4 e = elem w3 e)"
    using plain_postWrite[of w3 k1 D v ?g] w1(3,4) w2(5,6) ne w3(1,3) merged(3) unfolding w3(2) a1_def[symmetric] by simp
  then obtain w4 where w4: "countingPost ?G (postWrite ?V TT_write v) (2 * k1) (?g, w3) = (Ret (), (?g, w4))" "heap w4 = heap w3"
      "activeException (elem w4 ?f) = None" "\<forall>e. e \<noteq> 2 * k1 \<longrightarrow> e \<noteq> ?f \<longrightarrow> elem w4 e = elem w3 e" by blast
  have "\<exists>w5. countingPost ?G (postWrite ?V TT_write v) (2 * k2) (?g, w4) = (Ret (), (?g, w5)) \<and> heap w5 = heap w4"
    using plain_postWrite[of w4 k2 D v ?g] w2(3,4) w4(3,4) ne w3(1,3) merged(3) unfolding w4(2) w3(2) a2_def[symmetric] merged(1) by auto
  then obtain w5 where w5: "countingPost ?G (postWrite ?V TT_write v) (2 * k2) (?g, w4) = (Ret (), (?g, w5))" "heap w5 = heap w4" by blast
  have "group_write ?V ?G v (g, w) = (Ret (), ?g, w5)"
    using w1(1,4) w2(1,4,5) tr w4(1) w5(1) w3(1)
    by (simp add: group_write_def in_world_def noteFirst_def g handleTransferException_def resetErrors_def rethrowFirst_def)
  then show ?thesis using w3(4) w4(2) w5(2) by (intro exI[of _ ?g] exI[of _ w5]) simp
qed

text \<open>
  C25: a group write of two accessors that share a low-level element which is not flagged as
  unaligned, as merging leaves it (\<open>replace_merges\<close>), writes the whole area: the registers get the
  values of the accessors, the second one on top of the first, and every byte of the area that
  belongs to neither register is overwritten with what is in the buffer of the low-level element,
  whatever is on the device.  The accessors on their own keep these bytes
  (\<open>accessor_write_then_read\<close>).  Bytes outside of the area do not change.
\<close>

theorem merged_write_destroys_neighbours:
  fixes w :: "(('d, 'q) dummy_device, 'u) na_heap world" and k1 k2 :: nat
  defines "a1 \<equiv> accs (heap w) k1" and "a2 \<equiv> accs (heap w) k2"
  defines "l \<equiv> raws (heap w) (rawAccessor (accs (heap w) k1))"
  assumes idle: "idle_accessor 4 k1 w" "idle_accessor 4 k2 w" and ready: "dummy_ready (hw (heap w) (lle_dev l))"
      "dummy_inside (lle_bar l) (startAddress l) (numberOfBytes l) (hw (heap w) (lle_dev l))"
    and merged: "rawAccessor a2 = rawAccessor a1" "\<not> isUnaligned l" "k1 \<noteq> k2"
    and free: "\<forall>e. \<not> writeTransactionInProgress (elem w e)" "\<forall>e. versionNumber (elem w e) \<le> v"
    and access: "info_isWriteable (acc_info a1)" "info_isWriteable (acc_info a2)"
    and g: "highLevelElements g = [2 * k1, 2 * k2]" "lowLevelElements g = [raw_elem (rawAccessor a1)]"
  shows "\<exists>g' w'. group_write (na_impl (dummy_na_device run report)) (na_group (dummy_na_device run report)) v (g, w) = (Ret (), g', w') \<and>
    (\<forall>b x. dummy_mem (hw (heap w') (lle_dev l)) b x =
      (if b = lle_bar l \<and> startAddress l \<le> x \<and> x < startAddress l + numberOfBytes l then
         Some (if reg_address (acc_info a2) \<le> x \<and> x < reg_address (acc_info a2) + register_bytes a2
               then raw_bytes a2 ! (x - reg_address (acc_info a2))
               else if reg_address (acc_info a1) \<le> x \<and> x < reg_address (acc_info a1) + register_bytes a1
               then raw_bytes a1 ! (x - reg_address (acc_info a1))
               else rawDataBuffer l ! (x - startAddress l))
       else dummy_mem (hw (heap w) (lle_dev l)) b x))"
proof -
  let ?D = "dummy_na_device run report"
  note idl1 = idle(1)[unfolded idle_accessor_def Let_def, folded a1_def, folded l_def[folded a1_def]]
  have l2: "raws (heap w) (rawAccessor a2) = l" by (simp add: merged(1) l_def a1_def)
  note idl2 = idle(2)[unfolded idle_accessor_def Let_def, folded a2_def, unfolded l2]
  define b1 where "b1 = overwrite (begin_offset a1 l) (raw_bytes a1) (rawDataBuffer l)"
  define b2 where "b2 = overwrite (begin_offset a2 l) (raw_bytes a2) b1"
  have lens: "length (raw_bytes a1) = register_bytes a1" "length (raw_bytes a2) = register_bytes a2" "length (rawDataBuffer l) = numberOfBytes l"
    using idl1 idl2 by (simp_all add: dummy_na.length_raw_bytes)
  have len1: "length b1 = numberOfBytes l"
    using lens idl1 length_overwritten[of l a1 "rawDataBuffer l"] by (simp add: b1_def)
  have len2: "length b2 = numberOfBytes l"
    using lens len1 idl2 length_overwritten[of l a2 b1] by (simp add: b2_def)
  have al: "4 dvd startAddress l" "4 dvd length b2" using idl1 len2 by (simp_all add: aligned_area_def)
  obtain h where h: "dev_write ?D (lle_bar l) (startAddress l) b2 (hw (heap w) (lle_dev l)) = (Ret (), h)"
    "\<forall>b x. dummy_mem h b x = (if b = lle_bar l \<and> startAddress l \<le> x \<and> x < startAddress l + numberOfBytes l
       then Some (b2 ! (x - startAddress l)) else dummy_mem (hw (heap w) (lle_dev l)) b x)"
    using dummy_memory.write_mem[OF ready(1) _ al, of "lle_bar l" run] ready(2) len2 by (auto simp: dummy_na_device_def)
  have open_dev: "dev_isOpen ?D (hw (heap w) (acc_dev a1))" "dev_isOpen ?D (hw (heap w) (acc_dev a2))"
    using idl1 idl2 ready(1) by (simp_all add: dummy_na.open_when_ready)
  have "\<exists>g' w'. group_write (na_impl ?D) (na_group ?D) v (g, w) = (Ret (), g', w') \<and> hw (heap w') = (hw (heap w))(lle_dev l := h)"
    using shared_group_write[of ?D w k1 k2 v b2 h g] open_dev merged idl1 free access h(1) g
    unfolding a1_def[symmetric] a2_def[symmetric] l_def[folded a1_def, symmetric] b2_def b1_def by simp
  moreover have "b2 ! (x - startAddress l) = (if reg_address (acc_info a2) \<le> x \<and> x < reg_address (acc_info a2) + register_bytes a2
       then raw_bytes a2 ! (x - reg_address (acc_info a2))
       else if reg_address (acc_info a1) \<le> x \<and> x < reg_address (acc_info a1) + register_bytes a1
       then raw_bytes a1 ! (x - reg_address (acc_info a1)) else rawDataBuffer l ! (x - startAddress l))"
    if "startAddress l \<le> x" "x < startAddress l + numberOfBytes l" for x
    unfolding b2_def b1_def using nth_overwritten[of l a2 b1 x] nth_overwritten[of l a1 "rawDataBuffer l" x] idl1 idl2 lens len1 that
    by (simp add: b1_def)
  ultimately show ?thesis using h(2) by fastforce
qed

text \<open>The registers at the bytes 2 and 3 and at the bytes 4 to 7, merged into one area of eight bytes.\<close>

definition merged_world :: "((unit, string list) dummy_device, 8 word) na_heap world" where
  "merged_world = two_registers\<lparr>heap := (heap two_registers)\<lparr>
     raws := (\<lambda>_. blank_lle\<lparr>numberOfBytes := 8, isShared := True, rawDataBuffer := replicate 8 0\<rparr>),
     accs := (\<lambda>k. (accs (heap two_registers) k)\<lparr>rawAccessor := 1\<rparr>)\<rparr>\<rparr>"

definition merged_elements :: transfer_group where
  "merged_elements = empty_group\<lparr>highLevelElements := [0, 2], lowLevelElements := [3]\<rparr>"

theorem merged_write_destroys_neighbours_witness:
  "\<exists>g' w'. group_write (na_impl sample_device) (na_group sample_device) (VersionNumber 3) (merged_elements, merged_world) = (Ret (), g', w') \<and>
    dummy_mem (hw (heap w') 0) 0 1 = Some 0 \<and> dummy_mem (hw (heap w') 0) 0 2 = Some 171"
proof -
  let ?l = "raws (heap merged_world) 1"
  have h: "raws (heap merged_world) i = blank_lle\<lparr>numberOfBytes := 8, isShared := True, rawDataBuffer := replicate 8 0\<rparr>" "accs (heap merged_world) k = (accs (heap two_registers) k)\<lparr>rawAccessor := 1\<rparr>"
    "hw (heap merged_world) d = sample_dummy" "unalignedAccess (heap merged_world) d = False" "elem merged_world e = new_te ''reg'' {}" for i k d e
    by (simp_all add: merged_world_def two_registers_def sample_na_world_def Let_def)
  have idle: "idle_accessor 4 0 merged_world" "idle_accessor 4 1 merged_world"
    by (simp_all add: idle_accessor_def Let_def h two_registers_heap blank_lle_def aligned_area_def register_bytes_def has_def new_te_def)
  have area: "dummy_ready sample_dummy" "dummy_inside 0 0 8 sample_dummy"
    by (simp_all add: sample_dummy_def dummy_ready_def dummy_inside_def dummy_isReadOnly_def initial_backend_def)
  have el: "\<not> writeTransactionInProgress (new_te ''reg'' {})" "versionNumber (new_te ''reg'' {}) \<le> VersionNumber 3"
    by (simp_all add: new_te_def nullVersion_def less_eq_version_number_def)
  have l: "rawAccessor (accs (heap merged_world) k) = 1" for k by (simp add: h)
  have two: "\<exists>g' w'. P g' w' \<and> Q w' 0 1 \<and> Q w' 0 2" if "\<exists>g' w'. P g' w' \<and> (\<forall>b x. Q w' b x)"
    for P :: "transfer_group \<Rightarrow> ((unit, string list) dummy_device, 8 word) na_heap world \<Rightarrow> bool"
      and Q :: "((unit, string list) dummy_device, 8 word) na_heap world \<Rightarrow> nat \<Rightarrow> nat \<Rightarrow> bool"
    using that by blast
  have ready: "dummy_ready (hw (heap merged_world) (lle_dev ?l))"
    "dummy_inside (lle_bar ?l) (startAddress ?l) (numberOfBytes ?l) (hw (heap merged_world) (lle_dev ?l))" "\<not> isUnaligned ?l"
    using area by (simp_all add: h blank_lle_def)
  have rest: "\<forall>e. \<not> writeTransactionInProgress (elem merged_world e)" "\<forall>e. versionNumber (elem merged_world e) \<le> VersionNumber 3"
    "info_isWriteable (acc_info (accs (heap merged_world) 0))" "info_isWriteable (acc_info (accs (heap merged_world) 1))"
    "highLevelElements merged_elements = [2 * 0, 2 * 1]" "lowLevelElements merged_elements = [raw_elem 1]"
    using el by (simp_all add: h two_registers_heap info_isWriteable_def merged_elements_def raw_elem_def)
  show ?thesis
    using two[OF merged_write_destroys_neighbours[OF idle, unfolded l, OF ready(1,2) refl ready(3) zero_neq_one rest,
        of "\<lambda>_ d. d" "\<lambda>_ d. d"]]
    by (simp add: h two_registers_heap blank_lle_def register_bytes_def raw_bytes_def)
qed

end
