(* ===== verification/RegisterPaths.thy ===== *)
theory RegisterPaths
  imports Strings
begin

text \<open>
  \<^verbatim>\<open>include/RegisterPath.h\<close> and \<^verbatim>\<open>src/RegisterPath.cc\<close>: paths of registers.  A path without an
  alternative separator stands for a list of components (\<open>toPath\<close>), and the operators are
  the operations on lists.
\<close>

section \<open>The class\<close>

record register_path =
  path :: string
  separator_alt :: string

abbreviation separator :: char where "separator \<equiv> CHR ''/''"

text \<open>
  The loop of \<open>removeExtraSeparators\<close>.  An empty separator, with which it would not end, is
  never passed.
\<close>

function removeDoubles :: "string \<Rightarrow> string \<Rightarrow> string" where
  "removeDoubles sep s =
     (case strFind (sep @ sep) s of
        None \<Rightarrow> s
      | Some pos \<Rightarrow> if sep = [] then s else removeDoubles sep (eraseAt pos s))"
  by pat_completeness auto

termination
  by (relation "measure (\<lambda>(sep, s). length s)") (auto simp: eraseAt_def dest: strFind_Some_nth)

declare removeDoubles.simps [simp del]

definition removeExtraSeparators :: "string \<Rightarrow> string \<Rightarrow> string" where
  "removeExtraSeparators string sep =
     (let string = removeDoubles sep string
      in if 1 < length string \<and> substr (length string - 1) 1 string = sep then eraseAt (length string - 1) string
         else string)"

definition normalised :: "register_path \<Rightarrow> register_path" where
  "normalised p = p\<lparr>path := removeExtraSeparators (path p) [separator]\<rparr>"

definition default_path :: register_path where
  "default_path = \<lparr>path = [separator], separator_alt = []\<rparr>"

definition registerPath :: "string \<Rightarrow> register_path" where
  "registerPath s = normalised \<lparr>path = separator # s, separator_alt = []\<rparr>"

definition copy_path :: "register_path \<Rightarrow> register_path" where
  "copy_path p = normalised p"

definition setAltSeparator :: "string \<Rightarrow> register_path \<Rightarrow> register_path" where
  "setAltSeparator altSeparator p = p\<lparr>separator_alt := if altSeparator = [separator] then [] else altSeparator\<rparr>"

text \<open>\<open>while((pos = s.find(old)) != npos) s.replace(pos, 1, new)\<close>\<close>

partial_function (option) replaceLoop :: "string \<Rightarrow> string \<Rightarrow> string \<Rightarrow> string option" where
  "replaceLoop old new s =
     (case strFind old s of None \<Rightarrow> Some s | Some pos \<Rightarrow> replaceLoop old new (replaceAt pos new s))"

definition getWithAltSeparator :: "register_path \<Rightarrow> string outcome" where
  "getWithAltSeparator p =
     (if length (separator_alt p) = 0 then Ret (drop 1 (path p))
      else (case replaceLoop [separator] (separator_alt p) (drop 1 (path p)) of
          None \<Rightarrow> NoReturn
        | Some path_alt \<Rightarrow> Ret (removeExtraSeparators path_alt (separator_alt p))))"

definition getWithOtherSeparatorReplaced :: "string \<Rightarrow> register_path \<Rightarrow> string outcome" where
  "getWithOtherSeparatorReplaced otherSeparator p =
     (if length otherSeparator = 0 then Ret (path p)
      else (case replaceLoop otherSeparator [separator] (path p) of
          None \<Rightarrow> NoReturn
        | Some path_other \<Rightarrow> Ret (removeExtraSeparators path_other [separator])))"

definition path_to_string :: "register_path \<Rightarrow> string outcome" where
  "path_to_string p = getWithOtherSeparatorReplaced (separator_alt p) p"

definition incomparable :: exn where
  "incomparable = LogicError ''RegisterPath objects do not compare when both have different alternative separators set.''"

definition getCommonAltSeparator :: "register_path \<Rightarrow> register_path \<Rightarrow> string outcome" where
  "getCommonAltSeparator otherPath p =
     (if 0 < length (separator_alt otherPath) then
        if length (separator_alt p) = 0 then Ret (separator_alt otherPath)
        else if separator_alt p \<noteq> separator_alt otherPath then Throw incomparable
        else Ret (separator_alt p)
      else Ret (separator_alt p))"

definition slash_assign :: "string \<Rightarrow> register_path \<Rightarrow> register_path" where
  "slash_assign rightHandSide p = normalised (p\<lparr>path := path p @ separator # rightHandSide\<rparr>)"

definition plus_assign :: "string \<Rightarrow> register_path \<Rightarrow> register_path" where
  "plus_assign rightHandSide p = normalised (p\<lparr>path := path p @ rightHandSide\<rparr>)"

text \<open>The comparisons compare the texts of both paths.\<close>

definition both_converted :: "register_path \<Rightarrow> register_path \<Rightarrow> (string \<times> string) outcome" where
  "both_converted rightHandSide p =
     bindO (getCommonAltSeparator rightHandSide p) (\<lambda>sepalt.
     bindO (getWithOtherSeparatorReplaced sepalt p) (\<lambda>a.
     bindO (getWithOtherSeparatorReplaced sepalt rightHandSide) (\<lambda>b. Ret (a, b))))"

definition path_less :: "register_path \<Rightarrow> register_path \<Rightarrow> bool outcome" where
  "path_less p rightHandSide = bindO (both_converted rightHandSide p) (\<lambda>(a, b). Ret (str_less a b))"

definition path_equal :: "register_path \<Rightarrow> register_path \<Rightarrow> bool outcome" where
  "path_equal p rightHandSide = bindO (both_converted rightHandSide p) (\<lambda>(a, b). Ret (a = b))"

definition path_length :: "register_path \<Rightarrow> nat" where
  "path_length p = length (path p)"

definition startsWith :: "register_path \<Rightarrow> register_path \<Rightarrow> bool outcome" where
  "startsWith compare p = bindO (both_converted compare p) (\<lambda>(a, b). Ret (substr 0 (path_length compare) a = b))"

definition endsWith :: "register_path \<Rightarrow> register_path \<Rightarrow> bool outcome" where
  "endsWith compare p = bindO (both_converted compare p) (\<lambda>(a, b).
     if length a < path_length compare then Ret False
     else Ret (drop (length a - path_length compare) a = b))"

text \<open>\<open>registerPath--\<close> and \<open>--registerPath\<close>\<close>

definition lastSeparator :: "register_path \<Rightarrow> nat option" where
  "lastSeparator p =
     (let found = findLastOf {separator} (path p) in
      if length (separator_alt p) \<noteq> 0 then
        (case findLastOf (set (separator_alt p)) (path p) of
           None \<Rightarrow> found
         | Some found_alt \<Rightarrow> (case found of None \<Rightarrow> None | Some f \<Rightarrow> Some (max f found_alt)))
      else found)"

definition cutRight :: "register_path \<Rightarrow> register_path" where
  "cutRight p = (case lastSeparator p of
      Some found \<Rightarrow> if found > 0 then p\<lparr>path := substr 0 found (path p)\<rparr> else p\<lparr>path := [separator]\<rparr>
    | None \<Rightarrow> p\<lparr>path := [separator]\<rparr>)"

definition minPos :: "nat option \<Rightarrow> nat option \<Rightarrow> nat option" where
  "minPos a b = (case (a, b) of (Some i, Some j) \<Rightarrow> Some (min i j) | (None, b) \<Rightarrow> b | (a, None) \<Rightarrow> a)"

definition cutLeft :: "register_path \<Rightarrow> register_path" where
  "cutLeft p =
     (let found = findFirstOf {separator} 1 (path p);
          found = (if length (separator_alt p) \<noteq> 0 then minPos found (findFirstOf (set (separator_alt p)) 0 (path p)) else found)
      in case found of
           Some f \<Rightarrow> p\<lparr>path := separator # drop (f + 1) (path p)\<rparr>
         | None \<Rightarrow> p\<lparr>path := [separator]\<rparr>)"

definition nextSeparator :: "register_path \<Rightarrow> nat \<Rightarrow> nat option" where
  "nextSeparator p from =
     (let npos = findFirstOf {separator} from (path p) in
      if length (separator_alt p) \<noteq> 0 then minPos npos (findFirstOf (set (separator_alt p)) from (path p)) else npos)"

lemma nextSeparator_greater: "nextSeparator p from = Some i \<Longrightarrow> from \<le> i \<and> i < length (path p)"
  by (auto simp: nextSeparator_def minPos_def Let_def split: if_splits option.splits dest!: findFirstOf_Some)

function componentsFrom :: "register_path \<Rightarrow> nat \<Rightarrow> string list" where
  "componentsFrom p pos =
     (case nextSeparator p (pos + 1) of
        None \<Rightarrow> [drop (pos + 1) (path p)]
      | Some npos \<Rightarrow> substr (pos + 1) (npos - pos - 1) (path p) # componentsFrom p npos)"
  by pat_completeness auto

termination
  by (relation "measure (\<lambda>(p, pos). length (path p) - pos)") (auto dest!: nextSeparator_greater)

declare componentsFrom.simps [simp del]

definition getComponents :: "register_path \<Rightarrow> string list" where
  "getComponents p = (if length (path p) \<le> 1 then [] else componentsFrom p 0)"

definition path_slash :: "register_path \<Rightarrow> register_path \<Rightarrow> register_path outcome" where
  "path_slash leftHandSide rightHandSide =
     bindO (getCommonAltSeparator rightHandSide leftHandSide) (\<lambda>_.
     let ret = copy_path leftHandSide in Ret (normalised (ret\<lparr>path := path ret @ path rightHandSide\<rparr>)))"

definition path_plus :: "register_path \<Rightarrow> string \<Rightarrow> register_path" where
  "path_plus leftHandSide rightHandSide =
     (let ret = copy_path leftHandSide in normalised (ret\<lparr>path := path ret @ rightHandSide\<rparr>))"

definition path_slash_int :: "register_path \<Rightarrow> int \<Rightarrow> register_path outcome" where
  "path_slash_int leftHandSide rightHandSide = path_slash leftHandSide (registerPath (to_string rightHandSide))"

definition path_times :: "register_path \<Rightarrow> int \<Rightarrow> register_path outcome" where
  "path_times leftHandSide rightHandSide =
     bindO (path_to_string leftHandSide) (\<lambda>s.
     Ret (normalised (setAltSeparator (separator_alt leftHandSide) (registerPath (s @ ''*'' @ to_string rightHandSide)))))"

section \<open>Paths as lists of components\<close>

definition toPath :: "string list \<Rightarrow> string" where
  "toPath cs = (if cs = [] then [separator] else concat (map ((#) separator) cs))"

definition is_component :: "string \<Rightarrow> bool" where
  "is_component c = (c \<noteq> [] \<and> separator \<notin> set c)"

definition parts :: "string \<Rightarrow> string list" where
  "parts s = filter (\<lambda>c. c \<noteq> []) (splitOn ((=) separator) s)"

text \<open>A path without alternative separator that stands for the components \<open>cs\<close>.\<close>

definition represents :: "register_path \<Rightarrow> string list \<Rightarrow> bool" where
  "represents p cs = (path p = toPath cs \<and> separator_alt p = [] \<and> list_all is_component cs)"

lemma parts_components: "list_all is_component (parts s)"
  unfolding parts_def list_all_iff is_component_def
  using splitOn_fields[of _ "(=) separator" s] by fastforce

lemma parts_append: "parts (s @ separator # t) = parts s @ parts t"
  by (simp add: parts_def splitOn_append)

lemma parts_slash [simp]: "parts (separator # s) = parts s" "parts [] = []"
  by (simp_all add: parts_def)

lemma parts_component: "is_component c \<Longrightarrow> parts c = [c]"
proof -
  assume c: "is_component c"
  then have "\<forall>x\<in>set c. \<not> separator = x" by (auto simp: is_component_def)
  with c show ?thesis by (simp add: parts_def is_component_def splitOn_no_sep)
qed

lemma parts_concat: "list_all is_component cs \<Longrightarrow> parts (concat (map ((#) separator) cs)) = cs"
proof (induction cs)
  case (Cons c cs)
  show ?case
  proof (cases cs)
    case Nil
    then show ?thesis using Cons.prems by (simp add: parts_component)
  next
    case (Cons d ds)
    then have "parts (c @ concat (map ((#) separator) cs)) = parts c @ parts (concat (map ((#) separator) cs))"
      by (simp add: parts_append)
    then show ?thesis using Cons.IH Cons.prems by (simp add: parts_component)
  qed
qed simp

lemma parts_toPath [simp]: "list_all is_component cs \<Longrightarrow> parts (toPath cs) = cs"
  by (simp add: toPath_def parts_concat)

lemma toPath_eq_iff: "list_all is_component as \<Longrightarrow> list_all is_component bs \<Longrightarrow> toPath as = toPath bs \<longleftrightarrow> as = bs"
  by (metis parts_toPath)

text \<open>Removing double separators does not change the parts.\<close>

lemma removeDoubles_parts:
  "parts (removeDoubles [separator] s) = parts s"
  "s \<noteq> [] \<Longrightarrow> hd s = separator \<Longrightarrow> removeDoubles [separator] s \<noteq> [] \<and> hd (removeDoubles [separator] s) = separator"
  "\<not> sublist [separator, separator] (removeDoubles [separator] s)"
proof (induction "[separator]" s rule: removeDoubles.induct)
  case (1 s)
  note IH = 1
  have p: "\<exists>a b. s = a @ separator # separator # b \<and> eraseAt i s = a @ separator # b"
    if "strFind [separator, separator] s = Some i" for i
  proof -
    from strFind_Some[OF that] obtain b where b: "drop i s = separator # separator # b" "i \<le> length s" by (auto simp: prefix_def)
    then have "s = take i s @ separator # separator # b" by (metis append_take_drop_id)
    moreover have "drop (Suc i) s = separator # b" using b by (metis drop_Suc drop_tl list.sel(3))
    ultimately show ?thesis unfolding eraseAt_def by metis
  qed
  {
    case 1
    show ?case
    proof (cases "strFind [separator, separator] s")
      case None
      then show ?thesis by (simp add: removeDoubles.simps)
    next
      case (Some i)
      from p[OF this] obtain a b where "s = a @ separator # separator # b" "eraseAt i s = a @ separator # b" by blast
      then have "parts (eraseAt i s) = parts s" by (simp add: parts_append)
      with IH(1)[of i] Some show ?thesis by (simp add: removeDoubles.simps[of _ s])
    qed
  next
    case 2
    show ?case
    proof (cases "strFind [separator, separator] s")
      case None
      then show ?thesis using 2 by (simp add: removeDoubles.simps)
    next
      case (Some i)
      from p[OF this] obtain a b where ab: "s = a @ separator # separator # b" "eraseAt i s = a @ separator # b" by blast
      then have "eraseAt i s \<noteq> [] \<and> hd (eraseAt i s) = separator" using 2 by (cases a) auto
      with IH(2)[of i] Some show ?thesis by (simp add: removeDoubles.simps[of _ s])
    qed
  next
    case 3
    show ?case
    proof (cases "strFind [separator, separator] s")
      case None
      then have "removeDoubles [separator] s = s" by (simp add: removeDoubles.simps)
      with None show ?thesis by (simp add: strFind_None_iff)
    next
      case (Some i)
      with IH(3)[of i] show ?thesis by (simp add: removeDoubles.simps[of _ s])
    qed
  }
qed

text \<open>A text without double separators is the path of its parts, up to a separator at the end.\<close>

lemma no_doubles_fields:
  assumes "\<not> sublist [separator, separator] (concat (map ((#) separator) xs))" "xs \<noteq> []"
  shows "[] \<notin> set (butlast xs)"
  using assms
proof (induction xs)
  case (Cons x xs)
  show ?case
  proof (cases xs)
    case Nil
    then show ?thesis by simp
  next
    case (Cons y ys)
    have "sublist [separator, separator] (separator # [] @ separator # zs)" for zs
      by (simp add: sublist_def) (metis append_Cons append_Nil)
    then have x: "x \<noteq> []" using Cons.prems(1) Cons by auto
    have "sublist (concat (map ((#) separator) xs)) (concat (map ((#) separator) (x # xs)))"
      by (simp add: sublist_def) (metis append_Cons append_Nil2)
    then have "\<not> sublist [separator, separator] (concat (map ((#) separator) xs))"
      using Cons.prems(1) by (meson sublist_order.order.trans)
    with Cons.IH Cons x show ?thesis by auto
  qed
qed simp

lemma removeExtraSeparators_parts: "removeExtraSeparators (separator # s) [separator] = toPath (parts s)"
proof -
  let ?d = "removeDoubles [separator] (separator # s)"
  note d = removeDoubles_parts[of "separator # s"]
  obtain t where t: "?d = separator # t" using d(2) by (cases ?d) auto
  let ?xs = "splitOn ((=) separator) t"
  have sep: "(=) separator = (\<lambda>x. x = separator)" by auto
  have dx: "?d = concat (map ((#) separator) ?xs)" unfolding t sep by (rule concat_splitOn[symmetric]) simp
  have ne: "[] \<notin> set (butlast ?xs)" using no_doubles_fields d(3) unfolding dx by simp
  have parts: "parts s = parts t" using d(1) by (simp add: t)
  have xs: "?xs = butlast ?xs @ [last ?xs]" by simp
  have but: "filter (\<lambda>c. c \<noteq> []) (butlast ?xs) = butlast ?xs" using ne by (intro filter_True) auto
  have pt: "parts t = butlast ?xs @ (if last ?xs = [] then [] else [last ?xs])"
    unfolding parts_def by (subst xs) (simp only: filter_append but, simp)
  have trailing: "(1 < length ?d \<and> substr (length ?d - 1) 1 ?d = [separator]) \<longleftrightarrow> last ?xs = [] \<and> butlast ?xs \<noteq> []"
  proof (cases "last ?xs = []")
    case True
    then have "?d = concat (map ((#) separator) (butlast ?xs)) @ [separator]"
      unfolding dx by (subst xs) simp
    then show ?thesis using True by (auto simp: substr_def)
  next
    case False
    have "\<not> separator = last (last ?xs)" using splitOn_fields[of "last ?xs" "(=) separator" t] False by simp
    moreover have "last ?d = last (last ?xs)"
      unfolding dx using False arg_cong[OF xs, of "\<lambda>ys. last (concat (map ((#) separator) ys))"]
      by (simp del: append_butlast_last_id)
    moreover have "substr (length ?d - 1) 1 ?d = [last ?d]"
      unfolding t substr_def by (metis append_butlast_last_id append_eq_conv_conj length_butlast list.distinct(1) take_all_iff length_Cons list.size(3) One_nat_def le_refl)
    ultimately show ?thesis using False by simp
  qed
  show ?thesis
  proof (cases "last ?xs = []")
    case True
    then have e: "?d = concat (map ((#) separator) (butlast ?xs)) @ [separator]"
      unfolding dx by (subst xs) simp
    show ?thesis
    proof (cases "butlast ?xs = []")
      case b: True
      then show ?thesis using True trailing e pt parts by (simp add: removeExtraSeparators_def Let_def toPath_def)
    next
      case b: False
      then have "removeExtraSeparators (separator # s) [separator] = eraseAt (length ?d - 1) ?d"
        using True trailing by (simp add: removeExtraSeparators_def Let_def)
      also have "\<dots> = concat (map ((#) separator) (butlast ?xs))"
        unfolding e by (simp add: eraseAt_def)
      finally show ?thesis using True pt parts b by (simp add: toPath_def)
    qed
  next
    case False
    then have "removeExtraSeparators (separator # s) [separator] = ?d"
      using trailing by (auto simp: removeExtraSeparators_def Let_def)
    also have "\<dots> = toPath (parts s)" using False parts pt dx xs by (simp add: toPath_def)
    finally show ?thesis .
  qed
qed

section \<open>The operators\<close>

lemma normalised_path: "path p = separator # s \<Longrightarrow> normalised p = p\<lparr>path := toPath (parts s)\<rparr>"
  by (simp add: normalised_def removeExtraSeparators_parts)

lemma toPath_starts: "\<exists>t. toPath cs = separator # t"
  by (cases cs) (auto simp: toPath_def)

lemma normalised_append:
  assumes "represents p cs"
  shows "represents (normalised (p\<lparr>path := path p @ s\<rparr>)) (parts (path p @ s))"
proof -
  obtain t where t: "path p = separator # t" using assms toPath_starts by (metis represents_def)
  then have "normalised (p\<lparr>path := path p @ s\<rparr>) = p\<lparr>path := toPath (parts (t @ s))\<rparr>"
    by (simp add: normalised_path)
  moreover have "parts (path p @ s) = parts (t @ s)" using t by simp
  ultimately show ?thesis using assms by (simp add: represents_def parts_components)
qed

lemma represents_registerPath: "represents (registerPath s) (parts s)"
  by (simp add: registerPath_def normalised_path represents_def parts_components)

lemma registerPath_eq: "registerPath s = \<lparr>path = toPath (parts s), separator_alt = []\<rparr>"
  by (simp add: registerPath_def normalised_path)

lemma represents_slash_assign:
  "represents p cs \<Longrightarrow> represents (slash_assign s p) (cs @ parts s)"
  using normalised_append[of p cs "separator # s"] by (simp add: slash_assign_def parts_append represents_def)

lemma copy_represented: "represents p cs \<Longrightarrow> copy_path p = p"
  using normalised_append[of p cs "[]"] toPath_starts[of cs]
  by (auto simp: copy_path_def represents_def normalised_path)

lemma represents_path_slash:
  assumes "represents p cs" "represents q ds"
  obtains r where "path_slash p q = Ret r" "represents r (cs @ ds)"
proof -
  obtain t where t: "path q = separator # t" using assms toPath_starts by (metis represents_def)
  have "parts (path p) = cs" "parts t = ds"
    using assms t parts_slash(1)[of t] by (simp_all only: represents_def parts_toPath)
  then have "parts (path p @ path q) = cs @ ds" by (simp add: t parts_append)
  then show thesis
    using that normalised_append[OF assms(1), of "path q"] assms copy_represented[OF assms(1)]
    by (auto simp: path_slash_def getCommonAltSeparator_def represents_def)
qed

lemma findLastOf_last: "x \<in> S \<Longrightarrow> set c \<inter> S = {} \<Longrightarrow> findLastOf S (a @ x # c) = Some (length a)"
  by (simp add: findLastOf_def findFirst_append(2))

lemma represents_cutRight:
  assumes "represents p cs"
  shows "represents (cutRight p) (butlast cs)"
proof (cases cs rule: rev_cases)
  case Nil
  then show ?thesis using assms
    by (simp add: cutRight_def lastSeparator_def represents_def toPath_def findLastOf_def)
next
  case (snoc bs c)
  then have "path p = concat (map ((#) separator) bs) @ separator # c" "set c \<inter> {separator} = {}"
    using assms by (auto simp: represents_def toPath_def is_component_def)
  note f = findLastOf_last[OF singletonI this(2), of "concat (map ((#) separator) bs)", folded this(1)]
  show ?thesis
  proof (cases "bs = []")
    case True
    then show ?thesis using assms f snoc
      by (simp add: cutRight_def lastSeparator_def represents_def toPath_def)
  next
    case False
    then have "0 < length (concat (map ((#) separator) bs))" by (cases bs) auto
    then show ?thesis using assms f snoc False
      by (simp add: cutRight_def lastSeparator_def represents_def toPath_def substr_def)
  qed
qed

lemma concat_starts: "concat (map ((#) separator) cs) = (if cs = [] then [] else separator # tl (concat (map ((#) separator) cs)))"
  by (cases cs) auto

lemma findFirst_component:
  assumes "is_component c"
  shows "findFirst {separator} (c @ concat (map ((#) separator) ds)) = (if ds = [] then None else Some (length c))"
proof -
  have "set c \<inter> {separator} = {}" using assms by (auto simp: is_component_def)
  then show ?thesis by (cases ds) (auto simp: findFirst_append(2) findFirst_None)
qed

lemma represents_cutLeft:
  assumes "represents p cs"
  shows "represents (cutLeft p) (tl cs)"
proof (cases cs)
  case Nil
  then show ?thesis using assms by (simp add: cutLeft_def represents_def toPath_def findFirstOf_def)
next
  case (Cons c ds)
  then have f: "findFirstOf {separator} 1 (path p) = (if ds = [] then None else Some (1 + length c))"
    using assms findFirst_component[of c ds] by (simp add: findFirstOf_def represents_def toPath_def)
  show ?thesis
  proof (cases ds)
    case Nil
    then show ?thesis using assms f Cons by (simp add: cutLeft_def represents_def toPath_def)
  next
    case (Cons d es)
    then show ?thesis using assms f \<open>cs = c # ds\<close> by (simp add: cutLeft_def represents_def toPath_def)
  qed
qed

lemma componentsFrom_concat:
  assumes "path p = a @ concat (map ((#) separator) cs)" "cs \<noteq> []" "list_all is_component cs" "separator_alt p = []"
  shows "componentsFrom p (length a) = cs"
  using assms
proof (induction cs arbitrary: a)
  case (Cons c ds)
  have n: "nextSeparator p (length a + 1) = (if ds = [] then None else Some (length a + 1 + length c))"
    using Cons.prems findFirst_component[of c ds] by (simp add: nextSeparator_def findFirstOf_def)
  show ?case
  proof (cases ds)
    case Nil
    then show ?thesis using Cons.prems n by (subst componentsFrom.simps) simp
  next
    case (Cons d es)
    have "path p = (a @ separator # c) @ concat (map ((#) separator) ds)" using Cons.prems by simp
    from Cons.IH[OF this] Cons.prems Cons have "componentsFrom p (length a + 1 + length c) = ds" by simp
    then show ?thesis using Cons.prems n Cons by (subst componentsFrom.simps) (simp add: substr_def)
  qed
qed simp

lemma represents_getComponents:
  assumes "represents p cs"
  shows "getComponents p = cs"
proof (cases "cs = []")
  case True
  then show ?thesis using assms by (simp add: getComponents_def represents_def toPath_def)
next
  case False
  moreover have "1 < length (path p)" using assms False by (cases cs) (auto simp: represents_def toPath_def is_component_def)
  ultimately show ?thesis using componentsFrom_concat[of p "[]" cs] assms
    by (simp add: getComponents_def represents_def toPath_def)
qed

text \<open>
  C37: register paths without alternative separator are lists of components.  Every text makes
  a path, whatever separators it repeats; two paths are equal when their components are; the
  operators append, take the first or the last component away, and give the components back.
\<close>

theorem path_operations:
  assumes "represents p cs" "represents q ds"
  shows "represents (registerPath s) (parts s) \<and> getComponents p = cs \<and> path_equal p q = Ret (cs = ds) \<and>
    (\<exists>r. path_slash p q = Ret r \<and> represents r (cs @ ds)) \<and> represents (slash_assign s p) (cs @ parts s) \<and>
    represents (cutRight p) (butlast cs) \<and> represents (cutLeft p) (tl cs) \<and> copy_path p = p"
proof -
  have "path_equal p q = Ret (cs = ds)"
    using assms toPath_eq_iff[of cs ds]
    by (simp add: path_equal_def both_converted_def getCommonAltSeparator_def getWithOtherSeparatorReplaced_def represents_def)
  moreover obtain r where "path_slash p q = Ret r" "represents r (cs @ ds)" by (rule represents_path_slash[OF assms])
  ultimately show ?thesis
    using assms represents_registerPath represents_getComponents represents_slash_assign represents_cutRight
      represents_cutLeft copy_represented by auto
qed

theorem path_operations_witness:
  "represents (registerPath ''//APP//ADC/'') [''APP'', ''ADC''] \<and> represents (cutRight (registerPath ''APP/ADC'')) [''APP''] \<and>
    path_equal (registerPath ''/APP/ADC'') (registerPath ''APP//ADC'') = Ret True"
proof -
  have r: "represents (registerPath ''APP/ADC'') [''APP'', ''ADC'']" "represents (registerPath ''/APP/ADC'') [''APP'', ''ADC'']"
      "represents (registerPath ''APP//ADC'') [''APP'', ''ADC'']" "parts ''//APP//ADC/'' = [''APP'', ''ADC'']"
    using represents_registerPath[of "''APP/ADC''"] represents_registerPath[of "''/APP/ADC''"]
      represents_registerPath[of "''APP//ADC''"] by (simp_all add: parts_def)
  show ?thesis
    using path_operations[OF r(1,1), of "''//APP//ADC/''"] path_operations[OF r(2,3)] r(4) by simp
qed

section \<open>Alternative separators\<close>

definition withSlashes :: "char \<Rightarrow> string \<Rightarrow> string" where
  "withSlashes c s = map (\<lambda>x. if x = c then separator else x) s"

lemma replaceLoop_char: "c \<noteq> separator \<Longrightarrow> replaceLoop [c] [separator] s = Some (withSlashes c s)"
proof (induction "count_list s c" arbitrary: s)
  case 0
  then have "c \<notin> set s" by (metis count_list_0_iff)
  moreover from this have "withSlashes c s = s" by (auto simp: withSlashes_def intro!: map_idI)
  ultimately show ?case by (subst replaceLoop.simps) (auto simp: strFind_single split: option.splits dest: findFirst_Some)
next
  case (Suc n)
  then have "c \<in> set s" by (metis count_list_0_iff nat.distinct(1))
  then obtain i where i: "strFind [c] s = Some i" by (cases "strFind [c] s") (auto simp: strFind_single findFirst_None)
  then have s: "i < length s" "s ! i = c" using strFind_Some_nth by fastforce+
  then have eq: "s = take i s @ c # drop (Suc i) s" by (metis id_take_nth_drop)
  have "count_list s c = count_list (take i s) c + Suc (count_list (drop (Suc i) s) c)"
    by (subst eq) simp
  then have "n = count_list (replaceAt i [separator] s) c" using Suc by (simp add: replaceAt_def)
  from Suc.hyps(1)[OF this Suc.prems]
  have "replaceLoop [c] [separator] s = Some (withSlashes c (replaceAt i [separator] s))"
    using i by (subst replaceLoop.simps) simp
  moreover have "withSlashes c (replaceAt i [separator] s) = withSlashes c s"
    by (subst (2) eq) (simp add: replaceAt_def withSlashes_def)
  ultimately show ?case by simp
qed

lemma replaced_char:
  assumes "c \<noteq> separator" "path p = separator # s"
  shows "getWithOtherSeparatorReplaced [c] p = Ret (toPath (parts (withSlashes c (path p))))"
proof -
  have "withSlashes c (path p) = separator # withSlashes c s" using assms by (simp add: withSlashes_def)
  then show ?thesis
    using assms by (simp add: getWithOtherSeparatorReplaced_def replaceLoop_char removeExtraSeparators_parts)
qed

text \<open>
  With a character as alternative separator, two paths are equal when they have the same
  components after both separators have been read as one, whatever separators they were
  written with.
\<close>

theorem path_equal_alternative:
  assumes "c \<noteq> separator" "path p = separator # s" "path q = separator # t"
    and "separator_alt p = [c]" "separator_alt q \<in> {[], [c]}"
  shows "path_equal p q = Ret (parts (withSlashes c (path p)) = parts (withSlashes c (path q)))"
proof -
  have "toPath (parts a) = toPath (parts b) \<longleftrightarrow> parts a = parts b" for a b
    by (rule toPath_eq_iff) (rule parts_components)+
  moreover have "getCommonAltSeparator q p = Ret [c]" using assms(4,5) by (auto simp: getCommonAltSeparator_def)
  ultimately show ?thesis
    using replaced_char[OF assms(1,2)] replaced_char[OF assms(1,3)] by (simp add: path_equal_def both_converted_def)
qed

theorem path_equal_alternative_witness:
  "path_equal (setAltSeparator ''.'' (registerPath ''APP.ADC'')) (registerPath ''APP/ADC'') = Ret True"
proof -
  have "path (setAltSeparator ''.'' (registerPath ''APP.ADC'')) = separator # ''APP.ADC''"
    "path (registerPath ''APP/ADC'') = separator # ''APP/ADC''"
    by (simp_all add: registerPath_eq parts_def toPath_def setAltSeparator_def)
  from path_equal_alternative[of "CHR ''.''", OF _ this] show ?thesis
    by (simp add: setAltSeparator_def registerPath_eq withSlashes_def parts_def toPath_def)
qed

lemma replaceLoop_same:
  assumes "replaceLoop old [separator] s = Some r" "old = separator # old'"
  shows "strFind old s = None"
proof -
  have "old = separator # old' \<longrightarrow> new = [separator] \<longrightarrow> strFind old s = None"
    if "replaceLoop old new s = Some r" for old new s r
  proof (rule replaceLoop.raw_induct[OF _ that])
    fix rec o' n t r
    assume IH: "\<And>o' n t r. rec o' n t = Some r \<Longrightarrow> o' = separator # old' \<longrightarrow> n = [separator] \<longrightarrow> strFind o' t = None"
      and body: "(case strFind o' t of None \<Rightarrow> Some t | Some pos \<Rightarrow> rec o' n (replaceAt pos n t)) = Some r"
    show "o' = separator # old' \<longrightarrow> n = [separator] \<longrightarrow> strFind o' t = None"
    proof (intro impI)
      assume o: "o' = separator # old'" "n = [separator]"
      show "strFind o' t = None"
      proof (cases "strFind o' t")
        case (Some i)
        then have "i < length t" "t ! i = separator" using strFind_Some_nth[OF Some] o by auto
        then have "replaceAt i n t = t" using o by (simp add: replaceAt_def) (metis id_take_nth_drop)
        then show ?thesis using body Some IH[of o' n t r] o by simp
      qed
    qed
  qed
  from this[OF assms(1)] assms(2) show ?thesis by simp
qed

text \<open>
  C38: with an alternative separator that starts with \<open>/\<close>, a path that contains it cannot be
  converted to a text: the call does not return.
\<close>

theorem slash_separator_hangs:
  "path_to_string (p\<lparr>path := a @ (separator # alt) @ b, separator_alt := separator # alt\<rparr>) = NoReturn"
proof -
  have "sublist (separator # alt) (a @ (separator # alt) @ b)" by (auto simp: sublist_def)
  then have "strFind (separator # alt) (a @ (separator # alt) @ b) \<noteq> None"
    using strFind_None_iff by blast
  then have "replaceLoop (separator # alt) [separator] (a @ (separator # alt) @ b) = None"
    by (cases "replaceLoop (separator # alt) [separator] (a @ (separator # alt) @ b)") (simp_all add: replaceLoop_same)
  then show ?thesis by (simp add: path_to_string_def getWithOtherSeparatorReplaced_def)
qed

lemma startsWith_is_no_path_prefix:
  "startsWith (registerPath ''ADC'') (registerPath ''ADC2/VALUE'') = Ret True \<and>
   startsWith (setAltSeparator ''.'' (registerPath ''A..B'')) (registerPath ''A/B/VALUE'') = Ret False"
  by (simp add: startsWith_def both_converted_def getCommonAltSeparator_def setAltSeparator_def registerPath_eq
      getWithOtherSeparatorReplaced_def path_length_def substr_def withSlashes_def parts_def toPath_def replaceLoop_char
      removeExtraSeparators_parts)

end
