(* ===== verification/RegisterInfos.thy ===== *)
theory RegisterInfos
  imports NumericAddressed RegisterPaths
begin

text \<open>
  Descriptions of registers: the types of \<^verbatim>\<open>include/SupportedUserTypes.h\<close>, \<^verbatim>\<open>src/DataDescriptor.cpp\<close>
  and \<open>NumericAddressedRegisterInfo\<close> of \<^verbatim>\<open>src/NumericAddressedRegisterCatalogue.cc\<close>.
\<close>

section \<open>Data types\<close>

datatype data_type =
    T_none | T_int8 | T_uint8 | T_int16 | T_uint16 | T_int32 | T_uint32 | T_int64 | T_uint64
  | T_float32 | T_float64 | T_string | T_Boolean | T_Void

definition isIntegral :: "data_type \<Rightarrow> bool" where
  "isIntegral t = (t \<in> {T_int8, T_uint8, T_int16, T_uint16, T_int32, T_uint32, T_int64, T_uint64, T_Boolean})"

definition isSigned :: "data_type \<Rightarrow> bool" where
  "isSigned t = (t \<in> {T_int8, T_int16, T_int32, T_int64, T_float32, T_float64})"

definition isNumeric :: "data_type \<Rightarrow> bool" where
  "isNumeric t = (t \<notin> {T_none, T_string, T_Void})"

definition data_type_of_string :: "string \<Rightarrow> data_type" where
  "data_type_of_string typeName =
     (if typeName = ''int8'' then T_int8 else if typeName = ''uint8'' then T_uint8
      else if typeName = ''int16'' then T_int16 else if typeName = ''uint16'' then T_uint16
      else if typeName = ''int32'' then T_int32 else if typeName = ''uint32'' then T_uint32
      else if typeName = ''int64'' then T_int64 else if typeName = ''uint64'' then T_uint64
      else if typeName = ''float32'' then T_float32 else if typeName = ''float64'' then T_float64
      else if typeName = ''string'' then T_string else if typeName = ''Boolean'' then T_Boolean
      else if typeName = ''Void'' then T_Void else T_none)"

fun data_type_string :: "data_type \<Rightarrow> string" where
  "data_type_string T_int8 = ''int8''"
| "data_type_string T_uint8 = ''uint8''"
| "data_type_string T_int16 = ''int16''"
| "data_type_string T_uint16 = ''uint16''"
| "data_type_string T_int32 = ''int32''"
| "data_type_string T_uint32 = ''uint32''"
| "data_type_string T_int64 = ''int64''"
| "data_type_string T_uint64 = ''uint64''"
| "data_type_string T_float32 = ''float32''"
| "data_type_string T_float64 = ''float64''"
| "data_type_string T_string = ''string''"
| "data_type_string T_Boolean = ''Boolean''"
| "data_type_string T_Void = ''Void''"
| "data_type_string T_none = ''unknown''"

section \<open>DataDescriptor\<close>

datatype fundamental_type = F_numeric | F_string | F_boolean | F_nodata | F_undefined

record data_descriptor =
  fundamentalType :: fundamental_type
  dd_isIntegral :: bool
  dd_isSigned :: bool
  nDigits :: nat
  nFractionalDigits :: nat
  rawDataType :: data_type
  transportLayerDataType :: data_type

definition new_descriptor :: "fundamental_type \<Rightarrow> bool \<Rightarrow> bool \<Rightarrow> nat \<Rightarrow> nat \<Rightarrow> data_type \<Rightarrow> data_descriptor" where
  "new_descriptor f integral sig digits frac rawType =
     \<lparr>fundamentalType = f, dd_isIntegral = integral, dd_isSigned = sig, nDigits = digits, nFractionalDigits = frac,
      rawDataType = rawType, transportLayerDataType = T_none\<rparr>"

definition descriptor_digits :: "data_type \<Rightarrow> nat" where
  "descriptor_digits t =
     (case t of T_int8 \<Rightarrow> 4 | T_uint8 \<Rightarrow> 3 | T_int16 \<Rightarrow> 6 | T_uint16 \<Rightarrow> 5 | T_int32 \<Rightarrow> 11 | T_uint32 \<Rightarrow> 10
      | T_int64 \<Rightarrow> 20 | T_uint64 \<Rightarrow> 20 | T_float32 \<Rightarrow> 3 + 45 | T_float64 \<Rightarrow> 3 + 325 | _ \<Rightarrow> 0)"

definition descriptor_of_type :: "data_type \<Rightarrow> data_descriptor" where
  "descriptor_of_type t =
     new_descriptor
       (if t = T_Boolean then F_boolean else if t = T_Void then F_nodata else if isNumeric t then F_numeric else F_string)
       (isIntegral t) (isSigned t) (descriptor_digits t) (if t = T_float32 then 45 else if t = T_float64 then 325 else 0) T_none"

text \<open>\<open>floatMaxDigits\<close> is 4 plus the integral part of \<open>- log10 (2 ^ - 149)\<close>, which is 44.\<close>

definition minimumDataType :: "data_descriptor \<Rightarrow> data_type" where
  "minimumDataType d =
     (case fundamentalType d of
        F_numeric \<Rightarrow>
          (if dd_isIntegral d then
             if dd_isSigned d then
               if nDigits d > 11 then T_int64 else if nDigits d > 6 then T_int32 else if nDigits d > 4 then T_int16 else T_int8
             else
               if nDigits d > 10 then T_uint64 else if nDigits d > 5 then T_uint32 else if nDigits d > 3 then T_uint16 else T_uint8
           else if nDigits d > 4 + 44 then T_float64 else T_float32)
      | F_boolean \<Rightarrow> T_Boolean
      | F_string \<Rightarrow> T_string
      | F_nodata \<Rightarrow> T_Void
      | F_undefined \<Rightarrow> T_none)"

section \<open>NumericAddressedRegisterInfo\<close>

record double_buffer_info =
  secondaryAddress :: nat
  enableRegisterPath :: register_path
  inactiveBufferRegisterPath :: register_path
  enableIndex :: nat

text \<open>\<open>rawTypes\<close> holds the member \<open>rawType\<close> of each channel.\<close>

record register_info = na_info +
  rawTypes :: "data_type list"
  pathName :: register_path
  interruptId :: "nat list"
  doubleBuffer :: "double_buffer_info option"
  dataDescriptor :: data_descriptor
  hidden :: bool

fun register_type_rank :: "register_type \<Rightarrow> nat" where
  "register_type_rank VOID_TYPE = 0"
| "register_type_rank FIXED_POINT = 1"
| "register_type_rank IEEE754 = 2"
| "register_type_rank ASCII = 3"

text \<open>\<open>ceil (log10 x)\<close> for a whole number \<open>x\<close>: the least \<open>n\<close> with \<open>x \<le> 10 ^ n\<close>.\<close>

fun ceilLog10 :: "nat \<Rightarrow> nat" where
  "ceilLog10 x = (if x \<le> 1 then 0 else Suc (ceilLog10 ((x + 9) div 10)))"

declare ceilLog10.simps [simp del]

text \<open>The sums of widths and fractional bits are computed as \<open>uint32_t\<close>.\<close>

definition widthSum :: "nat \<Rightarrow> int \<Rightarrow> nat" where
  "widthSum w n = nat ((int w + n) mod 2 ^ 32)"

definition biggest :: "channel_info list \<Rightarrow> register_type \<times> nat \<times> int \<times> bool" where
  "biggest cs = fold (\<lambda>c (t, w, n, s).
     let t = (if register_type_rank (dataType c) > register_type_rank t then dataType c else t)
     in if (widthSum (width c) (nFractionalBits c) + of_bool (signedFlag c)) mod 2 ^ 32 >
           (widthSum w n + of_bool s) mod 2 ^ 32
        then (t, width c, nFractionalBits c, signedFlag c) else (t, w, n, s)) cs (VOID_TYPE, 0, 0, False)"

definition raw_data_type :: "register_info \<Rightarrow> register_type \<Rightarrow> data_type outcome" where
  "raw_data_type r t =
     (if length (channels r) = 1 then
        if elementPitchBits r = 0 then Ret T_Void
        else if elementPitchBits r = 8 then Ret T_int8
        else if elementPitchBits r = 16 then Ret T_int16
        else if elementPitchBits r = 32 then Ret T_int32
        else if elementPitchBits r = 64 then Ret T_int64
        else if t \<noteq> ASCII then Throw (LogicError ''Unsupported raw size'')
        else Ret T_none
      else Ret T_none)"

text \<open>The numbers of digits are those of powers of two below \<open>2 ^ 1024\<close>, which a \<open>double\<close> holds.\<close>

definition computeDataDescriptor :: "register_info \<Rightarrow> register_info outcome" where
  "computeDataDescriptor r =
     (case biggest (channels r) of (t, w, n, s) \<Rightarrow>
        bindO (raw_data_type r t) (\<lambda>rawDataInfo.
        let describe = (\<lambda>f integral sig digits frac. Ret (r\<lparr>dataDescriptor := new_descriptor f integral sig digits frac rawDataInfo\<rparr>))
        in case t of
             IEEE754 \<Rightarrow>
               (if w = 32 then describe F_numeric False True (3 + 45) 45
                else if w = 64 then describe F_numeric False True (3 + 325) 325
                else Throw (LogicError ''Wrong data width for data type IEEE754''))
           | FIXED_POINT \<Rightarrow>
               (if w > 1 then
                  if n > 0 then
                    describe F_numeric False s (ceilLog10 (2 ^ w) + of_bool s + 1) (ceilLog10 (2 ^ nat n))
                  else describe F_numeric True s (ceilLog10 (2 ^ widthSum w n) + of_bool s) 0
                else if w = 1 then describe F_boolean True False 1 0
                else describe F_nodata False False 0 0)
           | ASCII \<Rightarrow> describe F_string False False 0 0
           | VOID_TYPE \<Rightarrow> describe F_nodata False False 0 0))"

text \<open>The constructors, with the parameters at the width of their types.\<close>

definition undefined_descriptor :: data_descriptor where
  "undefined_descriptor = new_descriptor F_undefined False False 0 0 T_none"

definition new_register_1D ::
  "register_path \<Rightarrow> nat \<Rightarrow> nat \<Rightarrow> nat \<Rightarrow> nat \<Rightarrow> nat \<Rightarrow> int \<Rightarrow> bool \<Rightarrow> register_access \<Rightarrow> register_type \<Rightarrow> nat list \<Rightarrow>
     register_info outcome" where
  "new_register_1D name nElems address nBytes bar w n s access t intId =
     (let nElems = nElems mod 2 ^ 32; nBytes = nBytes mod 2 ^ 32;
          pitch = (if nElems > 0 then nBytes div nElems * 8 mod 2 ^ 32 else 0)
      in if nBytes > 0 \<and> nElems > 0 \<and> nBytes mod nElems \<noteq> 0 then
           Throw (LogicError ''Number of bytes is not a multiple of number of elements'')
         else computeDataDescriptor
           \<lparr>reg_bar = bar, reg_address = address, nElements = nElems, elementPitchBits = pitch, registerAccess = access,
            channels = [\<lparr>bitOffset = 0, dataType = t, width = w, nFractionalBits = n, signedFlag = s\<rparr>],
            rawTypes = [if nElems > 0 then data_type_of_string (''int'' @ decimal pitch) else T_Void],
            pathName = setAltSeparator ''.'' (copy_path name), interruptId = intId, doubleBuffer = None,
            dataDescriptor = undefined_descriptor, hidden = False\<rparr>)"

definition new_register_2D ::
  "register_path \<Rightarrow> nat \<Rightarrow> nat \<Rightarrow> nat \<Rightarrow> nat \<Rightarrow> channel_info list \<Rightarrow> data_type list \<Rightarrow> register_access \<Rightarrow> nat list \<Rightarrow>
     register_info outcome" where
  "new_register_2D name bar address nElems pitch cs types access intId =
     computeDataDescriptor
       \<lparr>reg_bar = bar, reg_address = address, nElements = nElems mod 2 ^ 32, elementPitchBits = pitch mod 2 ^ 32,
        registerAccess = access, channels = cs, rawTypes = types, pathName = setAltSeparator ''.'' (copy_path name),
        interruptId = intId, doubleBuffer = None, dataDescriptor = undefined_descriptor, hidden = False\<rparr>"

definition getNumberOfDimensions :: "register_info \<Rightarrow> nat" where
  "getNumberOfDimensions r = (if length (channels r) > 1 then 2 else if nElements r > 1 then 1 else 0)"

definition getSupportedAccessModes :: "register_info \<Rightarrow> access_mode_flags" where
  "getSupportedAccessModes r =
     (if registerAccess r = INTERRUPT then {wait_for_new_data} else {}) \<union>
     (if length (channels r) = 1 \<and> dataType (hd (channels r)) \<noteq> VOID_TYPE \<and> dataType (hd (channels r)) \<noteq> ASCII then {raw} else {})"

section \<open>Facts\<close>

lemma data_type_string_inverse: "data_type_of_string (data_type_string t) = t"
  by (cases t) (simp_all add: data_type_of_string_def)

lemma ceilLog10_le: "ceilLog10 x \<le> n \<longleftrightarrow> x \<le> 10 ^ n"
proof (induction x arbitrary: n rule: ceilLog10.induct)
  case (1 x)
  show ?case
  proof (cases "x \<le> 1")
    case True
    then show ?thesis by (subst ceilLog10.simps) (simp add: order_trans[OF True])
  next
    case False
    then have c: "ceilLog10 x = Suc (ceilLog10 ((x + 9) div 10))" by (subst ceilLog10.simps) simp
    show ?thesis
    proof (cases n)
      case 0
      then show ?thesis using c False by simp
    next
      case (Suc m)
      have "(x + 9) div 10 \<le> 10 ^ m \<longleftrightarrow> x \<le> 10 * 10 ^ m" by linarith
      then show ?thesis using 1[of m] False c Suc by simp
    qed
  qed
qed

section \<open>The smallest data type for a register\<close>

text \<open>The smallest and greatest value of an integral data type.\<close>

definition data_type_range :: "data_type \<Rightarrow> int \<times> int" where
  "data_type_range t =
     (case t of T_int8 \<Rightarrow> (- (2 ^ 7), 2 ^ 7 - 1) | T_uint8 \<Rightarrow> (0, 2 ^ 8 - 1) | T_int16 \<Rightarrow> (- (2 ^ 15), 2 ^ 15 - 1)
      | T_uint16 \<Rightarrow> (0, 2 ^ 16 - 1) | T_int32 \<Rightarrow> (- (2 ^ 31), 2 ^ 31 - 1) | T_uint32 \<Rightarrow> (0, 2 ^ 32 - 1)
      | T_int64 \<Rightarrow> (- (2 ^ 63), 2 ^ 63 - 1) | T_uint64 \<Rightarrow> (0, 2 ^ 64 - 1) | _ \<Rightarrow> (0, 0))"

definition holds_channel :: "data_type \<Rightarrow> nat \<Rightarrow> bool \<Rightarrow> bool" where
  "holds_channel t w s = (fst (data_type_range t) \<le> channel_min w s \<and> channel_max w s \<le> snd (data_type_range t))"

lemma two_powers: "(2 :: nat) ^ w \<le> 10 ^ 10 \<longleftrightarrow> w \<le> 33" "(2 :: nat) ^ w \<le> 10 ^ 5 \<longleftrightarrow> w \<le> 16" "(2 :: nat) ^ w \<le> 10 ^ 3 \<longleftrightarrow> w \<le> 9"
proof -
  have p: "(2 :: nat) ^ w \<le> c \<longleftrightarrow> w \<le> n" if "(2 :: nat) ^ n \<le> c" "c < 2 ^ Suc n" for n c
  proof
    assume "w \<le> n"
    then have "(2 :: nat) ^ w \<le> 2 ^ n" by (rule power_increasing) simp
    then show "2 ^ w \<le> c" using that(1) by linarith
  next
    assume "2 ^ w \<le> c"
    then have "(2 :: nat) ^ w < 2 ^ Suc n" using that(2) by linarith
    then show "w \<le> n" by (simp only: power_strict_increasing_iff less_Suc_eq_le one_less_numeral_iff semiring_norm)
  qed
  show "(2 :: nat) ^ w \<le> 10 ^ 10 \<longleftrightarrow> w \<le> 33" "(2 :: nat) ^ w \<le> 10 ^ 5 \<longleftrightarrow> w \<le> 16" "(2 :: nat) ^ w \<le> 10 ^ 3 \<longleftrightarrow> w \<le> 9"
    by (rule p; simp)+
qed


definition minimum_bits :: "nat \<Rightarrow> nat" where
  "minimum_bits w = (if w \<le> 9 then 8 else if w \<le> 16 then 16 else if w \<le> 33 then 32 else 64)"

lemma minimum_type_bits:
  "data_type_range (minimumDataType (new_descriptor F_numeric True s (ceilLog10 (2 ^ w) + of_bool s) 0 rawType)) =
     (channel_min (minimum_bits w) s, channel_max (minimum_bits w) s)"
proof -
  have "10 < ceilLog10 (2 ^ w) \<longleftrightarrow> \<not> w \<le> 33" "5 < ceilLog10 (2 ^ w) \<longleftrightarrow> \<not> w \<le> 16" "3 < ceilLog10 (2 ^ w) \<longleftrightarrow> \<not> w \<le> 9"
    using ceilLog10_le[of "2 ^ w"] two_powers[of w] by (metis not_le)+
  then show ?thesis
    by (cases s) (simp_all add: minimumDataType_def new_descriptor_def data_type_range_def minimum_bits_def
        channel_min_def channel_max_def)
qed

lemma channel_range_le:
  assumes "0 < w" "0 < n"
  shows "channel_min n s \<le> channel_min w s \<and> channel_max w s \<le> channel_max n s \<longleftrightarrow> w \<le> n"
proof
  assume "w \<le> n"
  then show "channel_min n s \<le> channel_min w s \<and> channel_max w s \<le> channel_max n s"
    using channel_range_mono[OF assms(1)] by blast
next
  assume a: "channel_min n s \<le> channel_min w s \<and> channel_max w s \<le> channel_max n s"
  have "(2 :: int) ^ (w - 1) \<le> 2 ^ (n - 1)"
  proof (cases s)
    case True
    then show ?thesis using a by (simp add: channel_min_def)
  next
    case False
    then have "(2 :: int) ^ w - 1 \<le> 2 ^ n - 1" using a by (simp only: channel_max_def if_False)
    then have "(2 :: int) ^ w \<le> 2 ^ n" by linarith
    then show ?thesis using assms by simp
  qed
  then show "w \<le> n" using assms by simp
qed

text \<open>
  C23: The smallest data type offered for an integer register holds its values except for 9 and
  33 bits, where an 8 and a 32 bit type is offered.
\<close>

theorem minimum_type_holds_register:
  assumes "2 \<le> w" "w \<le> 64" and r: "new_register_1D name n a b bar w 0 s access FIXED_POINT ids = Ret r"
  shows "holds_channel (minimumDataType (dataDescriptor r)) w s \<longleftrightarrow> w \<noteq> 9 \<and> w \<noteq> 33"
proof -
  have "biggest [\<lparr>bitOffset = 0, dataType = FIXED_POINT, width = w, nFractionalBits = 0, signedFlag = s\<rparr>] = (FIXED_POINT, w, 0, s)"
    using assms(1,2) by (simp add: biggest_def widthSum_def nat_mod_distrib)
  moreover have "widthSum w 0 = w" using assms(2) by (simp add: widthSum_def)
  ultimately obtain rawType where d: "dataDescriptor r = new_descriptor F_numeric True s (ceilLog10 (2 ^ w) + of_bool s) 0 rawType"
    using r assms(1) by (auto simp: new_register_1D_def computeDataDescriptor_def bindO_Ret_iff Let_def split: if_splits)
  have "minimum_bits w \<ge> w \<longleftrightarrow> w \<noteq> 9 \<and> w \<noteq> 33" "0 < minimum_bits w" using assms(2) by (auto simp: minimum_bits_def)
  then show ?thesis
    using channel_range_le[of w "minimum_bits w" s] assms(1) by (simp add: holds_channel_def d minimum_type_bits)
qed

theorem minimum_type_holds_register_witness:
  "\<exists>r. new_register_1D (registerPath ''ADC'') 1 0 4 0 9 0 True READ_WRITE FIXED_POINT [] = Ret r \<and>
    \<not> holds_channel (minimumDataType (dataDescriptor r)) 9 True"
proof -
  obtain r where r: "new_register_1D (registerPath ''ADC'') 1 0 4 0 9 0 True READ_WRITE FIXED_POINT [] = Ret r"
    by (simp add: new_register_1D_def computeDataDescriptor_def biggest_def widthSum_def raw_data_type_def)
  with minimum_type_holds_register[OF _ _ r] show ?thesis by (intro exI[of _ r]) simp
qed

end
