(* ===== verification/Numbers.thy ===== *)
theory Numbers
  imports Strings
begin

text \<open>
  How the standard library reads whole numbers: \<open>std::stoi\<close> and its relatives, which use \<open>strtol\<close>, and
  \<open>operator>>\<close> of a stream with \<open>std::setbase(0)\<close>.
\<close>

section \<open>Digits\<close>

definition char_code :: "char \<Rightarrow> nat" where
  "char_code c = of_char c"

definition digit_value :: "char \<Rightarrow> nat option" where
  "digit_value c =
     (let n = char_code c in
      if 48 \<le> n \<and> n \<le> 57 then Some (n - 48)
      else if 65 \<le> n \<and> n \<le> 90 then Some (n - 55)
      else if 97 \<le> n \<and> n \<le> 122 then Some (n - 87)
      else None)"

definition is_digit_of :: "nat \<Rightarrow> char \<Rightarrow> bool" where
  "is_digit_of base c = (case digit_value c of None \<Rightarrow> False | Some d \<Rightarrow> d < base)"

definition digits_value :: "nat \<Rightarrow> string \<Rightarrow> nat" where
  "digits_value base s = foldl (\<lambda>n c. n * base + the (digit_value c)) 0 s"

text \<open>The sign in front of a number.\<close>

definition read_sign :: "string \<Rightarrow> bool \<times> string" where
  "read_sign s =
     (case s of [] \<Rightarrow> (False, s)
      | c # rest \<Rightarrow> if c = CHR ''-'' then (True, rest) else if c = CHR ''+'' then (False, rest) else (False, s))"

definition is_hex_prefix :: "string \<Rightarrow> bool" where
  "is_hex_prefix s = (case s of z # x # _ \<Rightarrow> z = CHR ''0'' \<and> x \<in> {CHR ''x'', CHR ''X''} | _ \<Rightarrow> False)"

text \<open>Base 0 means hexadecimal after \<open>0x\<close>, octal after \<open>0\<close> and decimal otherwise.\<close>

definition detect_base :: "nat \<Rightarrow> string \<Rightarrow> nat" where
  "detect_base base s =
     (if base \<noteq> 0 then base else if is_hex_prefix s then 16 else case s of c # _ \<Rightarrow> if c = CHR ''0'' then 8 else 10 | [] \<Rightarrow> 10)"

section \<open>strtol\<close>

text \<open>The magnitude and the sign, or \<open>None\<close> if there is no number.\<close>

definition strtol_read :: "nat \<Rightarrow> string \<Rightarrow> (bool \<times> nat) option" where
  "strtol_read base s =
     (case read_sign (dropWhile is_space s) of (neg, s) \<Rightarrow>
        let b = detect_base base s;
            hex = (b = 16 \<and> is_hex_prefix s \<and> (case drop 2 s of c # _ \<Rightarrow> is_digit_of 16 c | [] \<Rightarrow> False));
            ds = takeWhile (is_digit_of b) (if hex then drop 2 s else s)
        in if ds = [] then None else Some (neg, digits_value b ds))"

definition invalid_argument :: exn where "invalid_argument = OtherExn ''std::invalid_argument''"
definition out_of_range :: exn where "out_of_range = OtherExn ''std::out_of_range''"

definition std_stoi :: "nat \<Rightarrow> string \<Rightarrow> int outcome" where
  "std_stoi base s =
     (case strtol_read base s of
        None \<Rightarrow> Throw invalid_argument
      | Some (neg, n) \<Rightarrow>
          (let v = (if neg then - int n else int n)
           in if v < - (2 ^ 31) \<or> 2 ^ 31 - 1 < v then Throw out_of_range else Ret v))"

text \<open>\<open>strtoul\<close> negates the number modulo \<open>2 ^ 64\<close>.\<close>

definition std_stoul :: "nat \<Rightarrow> string \<Rightarrow> nat outcome" where
  "std_stoul base s =
     (case strtol_read base s of
        None \<Rightarrow> Throw invalid_argument
      | Some (neg, n) \<Rightarrow> if n \<ge> 2 ^ 64 then Throw out_of_range
          else Ret (if neg then (2 ^ 64 - n) mod 2 ^ 64 else n))"

section \<open>Streams\<close>

text \<open>The rest of the text, and whether the stream has failed.\<close>

record in_stream =
  rest :: string
  at_end :: bool
  failed :: bool

definition open_stream :: "string \<Rightarrow> in_stream" where
  "open_stream s = \<lparr>rest = s, at_end = False, failed = False\<rparr>"

text \<open>The sentry, which skips white space: \<open>None\<close> if nothing can be read.\<close>

definition sentry :: "in_stream \<Rightarrow> in_stream option \<times> in_stream" where
  "sentry is =
     (if failed is \<or> at_end is then (None, is\<lparr>failed := True\<rparr>)
      else
        let r = dropWhile is_space (rest is); is = is\<lparr>rest := r\<rparr> in
        if r = [] then (None, is\<lparr>at_end := True, failed := True\<rparr>) else (Some is, is))"

definition read_word :: "in_stream \<Rightarrow> string option \<times> in_stream" where
  "read_word is =
     (case sentry is of
        (None, is) \<Rightarrow> (None, is)
      | (Some _, is) \<Rightarrow>
          (let r = rest is; w = takeWhile (\<lambda>c. \<not> is_space c) r; r = dropWhile (\<lambda>c. \<not> is_space c) r
           in (Some w, is\<lparr>rest := r, at_end := (r = [])\<rparr>)))"

text \<open>
  The digits of a number with base 0, and what follows.  A \<open>0x\<close> without digits is no number.  The end
  of the text is noticed when it is reached.
\<close>

definition read_digits :: "in_stream \<Rightarrow> (bool \<times> nat) option \<times> in_stream" where
  "read_digits is =
     (case read_sign (rest is) of (neg, s) \<Rightarrow>
        let b = detect_base 0 s;
            t = (if is_hex_prefix s then drop 2 s else s);
            ds = takeWhile (is_digit_of b) t; r = dropWhile (is_digit_of b) t;
            is = is\<lparr>rest := r, at_end := (r = [])\<rparr>
        in (if ds = [] then None else Some (neg, digits_value b ds), is))"

text \<open>
  An unsigned number of \<open>n\<close> bits, given the old value of the variable.  A failed conversion stores 0,
  or the greatest value if the number is too great; a minus sign negates modulo \<open>2 ^ n\<close>.
\<close>

definition read_unsigned :: "nat \<Rightarrow> nat \<Rightarrow> in_stream \<Rightarrow> nat \<times> in_stream" where
  "read_unsigned n old is =
     (case sentry is of
        (None, is) \<Rightarrow> (old, is)
      | (Some _, is) \<Rightarrow>
          (case read_digits is of
             (None, is) \<Rightarrow> (0, is\<lparr>failed := True\<rparr>)
           | (Some (neg, v), is) \<Rightarrow>
               if v \<ge> 2 ^ n then (2 ^ n - 1, is\<lparr>failed := True\<rparr>)
               else ((if neg then (2 ^ n - v) mod 2 ^ n else v), is)))"

text \<open>A \<open>bool\<close> is read as a \<open>long\<close>; values other than 0 and 1 store \<open>true\<close> and fail.\<close>

definition read_bool :: "bool \<Rightarrow> in_stream \<Rightarrow> bool \<times> in_stream" where
  "read_bool old is =
     (case sentry is of
        (None, is) \<Rightarrow> (old, is)
      | (Some _, is) \<Rightarrow>
          (case read_digits is of
             (None, is) \<Rightarrow> (False, is\<lparr>failed := True\<rparr>)
           | (Some (neg, v), is) \<Rightarrow>
               if v = 0 then (False, is) else if v = 1 \<and> \<not> neg then (True, is) else (True, is\<lparr>failed := True\<rparr>)))"

section \<open>Decimal numbers\<close>

lemma decimal_rec: "decimal n = (if n < 10 then [char_of (48 + n)] else decimal (n div 10) @ [char_of (48 + n mod 10)])"
  by (rule decimal.simps)

lemma code_digit: "(d :: nat) < 10 \<Longrightarrow> char_code (char_of (48 + d)) = 48 + d"
  by (simp add: char_code_def)

lemma digit_is_not:
  assumes "(d :: nat) < 10" "char_code c < 48 \<or> 57 < char_code c"
  shows "char_of (48 + d) \<noteq> c"
  using code_digit[OF assms(1)] assms by auto

lemma digit_char:
  assumes "(d :: nat) < 10"
  shows "digit_value (char_of (48 + d)) = Some d" "\<not> is_space (char_of (48 + d))"
  using code_digit[OF assms] assms digit_is_not[OF assms, unfolded char_code_def]
  by (simp_all add: digit_value_def is_space_def)

definition is_decimal :: "string \<Rightarrow> bool" where
  "is_decimal s = (s \<noteq> [] \<and> (\<forall>c\<in>set s. \<exists>d<(10 :: nat). c = char_of (48 + d)) \<and> (1 < length s \<longrightarrow> hd s \<noteq> CHR ''0''))"

lemma decimal_is_decimal: "is_decimal (decimal n)"
proof (induction n rule: decimal.induct)
  case (1 n)
  show ?case
  proof (cases "n < 10")
    case True
    then show ?thesis by (subst decimal_rec) (auto simp: is_decimal_def)
  next
    case False
    have IH: "is_decimal (decimal (n div 10))" using 1 False by simp
    have "hd (decimal (n div 10)) \<noteq> CHR ''0''"
    proof (cases "n div 10 < 10")
      case True
      then have "hd (decimal (n div 10)) = char_of (48 + n div 10)" by (subst decimal_rec) simp
      moreover have "char_code (char_of (48 + n div 10)) \<noteq> char_code (CHR ''0'')"
        using code_digit[OF True] False by (simp add: char_code_def)
      ultimately show ?thesis by metis
    next
      case F: False
      then have "1 < length (decimal (n div 10))"
      proof -
        have "decimal (n div 10 div 10) \<noteq> []" by (subst decimal_rec) simp
        then show ?thesis using F by (subst decimal_rec) simp
      qed
      then show ?thesis using IH by (simp add: is_decimal_def)
    qed
    then have "hd (decimal n) \<noteq> CHR ''0''" "set (decimal n) = insert (char_of (48 + n mod 10)) (set (decimal (n div 10)))"
      using False IH by (subst decimal_rec; simp add: is_decimal_def)+
    moreover have "n mod 10 < 10" by simp
    moreover have "decimal n \<noteq> []" by (subst decimal_rec) simp
    ultimately show ?thesis using IH unfolding is_decimal_def by blast
  qed
qed

lemma digits_value_append: "digits_value b (s @ [c]) = digits_value b s * b + the (digit_value c)"
  by (simp add: digits_value_def)

lemma digits_value_decimal: "digits_value 10 (decimal n) = n"
proof (induction n rule: decimal.induct)
  case (1 n)
  show ?case
  proof (cases "n < 10")
    case True
    then show ?thesis by (subst decimal_rec) (simp add: digits_value_def digit_char)
  next
    case False
    then have "digits_value 10 (decimal n) = n div 10 * 10 + n mod 10"
      using 1 by (subst decimal_rec) (simp add: digits_value_append digit_char)
    then show ?thesis by simp
  qed
qed

text \<open>A decimal number is read whole, up to a character that is no digit.\<close>

lemma is_decimal_facts:
  assumes "is_decimal s" "r = [] \<or> \<not> is_digit_of 10 (hd r) \<and> char_code (hd r) < 48"
  shows "read_sign (s @ r) = (False, s @ r)" "detect_base 0 (s @ r) = 10 \<or> s = ''0'' \<and> detect_base 0 (s @ r) = 8"
    "\<not> is_hex_prefix (s @ r)" "takeWhile (is_digit_of 10) (s @ r) = s" "dropWhile (is_digit_of 10) (s @ r) = r"
    "s = ''0'' \<Longrightarrow> takeWhile (is_digit_of 8) (s @ r) = s \<and> dropWhile (is_digit_of 8) (s @ r) = r"
    "\<not> is_space (hd (s @ r))"
proof -
  obtain c t where s: "s = c # t" using assms(1) by (cases s) (auto simp: is_decimal_def)
  obtain d where d: "(d :: nat) < 10" "c = char_of (48 + d)" using assms(1) s by (auto simp: is_decimal_def)
  have not: "c \<noteq> x" if "char_code x < 48" for x using digit_is_not[OF d(1)] that d(2) by blast
  show "read_sign (s @ r) = (False, s @ r)" using not by (simp add: read_sign_def s char_code_def)
  show hex: "\<not> is_hex_prefix (s @ r)"
  proof (cases t)
    case Nil
    then show ?thesis using assms(2) s by (cases r) (auto simp: is_hex_prefix_def char_code_def)
  next
    case (Cons x u)
    then have "c \<noteq> CHR ''0''" using assms(1) s by (simp add: is_decimal_def)
    then show ?thesis by (simp add: is_hex_prefix_def s Cons)
  qed
  show "detect_base 0 (s @ r) = 10 \<or> s = ''0'' \<and> detect_base 0 (s @ r) = 8"
    using hex assms(1) by (cases t) (auto simp: detect_base_def s is_decimal_def)
  have all: "\<forall>x\<in>set s. is_digit_of 10 x" using assms(1) by (auto simp: is_decimal_def is_digit_of_def digit_char)
  show "takeWhile (is_digit_of 10) (s @ r) = s" "dropWhile (is_digit_of 10) (s @ r) = r"
    using all assms(2) by (cases r; simp)+
  have "\<not> is_digit_of 8 x" if "\<not> is_digit_of 10 x" for x using that by (auto simp: is_digit_of_def split: option.splits)
  then show "s = ''0'' \<Longrightarrow> takeWhile (is_digit_of 8) (s @ r) = s \<and> dropWhile (is_digit_of 8) (s @ r) = r"
    using assms(2) by (cases r) (auto simp: is_digit_of_def digit_value_def char_code_def)
  show "\<not> is_space (hd (s @ r))" using digit_char(2)[OF d(1)] d(2) by (simp add: s)
qed

definition ends_number :: "string \<Rightarrow> bool" where
  "ends_number r = (r = [] \<or> \<not> is_digit_of 10 (hd r) \<and> char_code (hd r) < 48)"

lemma space_ends_number: "r = [] \<or> is_space (hd r) \<Longrightarrow> ends_number r"
  by (auto simp: ends_number_def is_space_def is_digit_of_def digit_value_def char_code_def)

lemma dropWhile_spaces: "\<forall>c\<in>set sp. is_space c \<Longrightarrow> s = [] \<or> \<not> is_space (hd s) \<Longrightarrow> dropWhile is_space (sp @ s) = s"
  by (induction sp) (auto simp: dropWhile_eq_self_iff)

lemma decimal_nonempty: "decimal n \<noteq> []"
  by (subst decimal_rec) simp

lemma base_digits:
  fixes n :: nat
  assumes "ends_number r"
  defines "b \<equiv> detect_base 0 (decimal n @ r)"
  shows "takeWhile (is_digit_of b) (decimal n @ r) = decimal n \<and> dropWhile (is_digit_of b) (decimal n @ r) = r \<and> digits_value b (decimal n) = n"
proof -
  note f = is_decimal_facts[OF decimal_is_decimal, of r n, folded ends_number_def, OF assms(1)]
  show ?thesis
  proof (cases "b = 10")
    case True
    then show ?thesis using f(4,5) digits_value_decimal by simp
  next
    case False
    then have b: "decimal n = ''0''" "b = 8" using f(2) by (auto simp: b_def)
    then have "n = 0" using digits_value_decimal[of n] by (simp add: digits_value_def digit_value_def char_code_def)
    moreover have "digits_value 8 ''0'' = 0" by (simp add: digits_value_def digit_value_def char_code_def)
    ultimately show ?thesis using f(6)[OF b(1)] b by simp
  qed
qed

lemma strtol_decimal:
  assumes "base = 0 \<or> base = 10" "ends_number r" "\<forall>c\<in>set sp. is_space c"
  shows "strtol_read base (sp @ decimal n @ r) = Some (False, n)"
proof -
  note f = is_decimal_facts[OF decimal_is_decimal, of r n, folded ends_number_def, OF assms(2)]
  have d: "dropWhile is_space (sp @ decimal n @ r) = decimal n @ r" using f(7) assms(3) by (intro dropWhile_spaces) auto
  let ?b = "detect_base base (decimal n @ r)"
  have "takeWhile (is_digit_of ?b) (decimal n @ r) = decimal n \<and> digits_value ?b (decimal n) = n"
  proof (cases "base = 0")
    case True
    then show ?thesis using base_digits[OF assms(2), of n] by simp
  next
    case False
    then show ?thesis using assms(1) f(4) digits_value_decimal by (simp add: detect_base_def)
  qed
  then show ?thesis using f(1,3) decimal_nonempty by (simp add: strtol_read_def d Let_def)
qed

lemma std_stoi_decimal:
  "base = 0 \<or> base = 10 \<Longrightarrow> ends_number r \<Longrightarrow> n < 2 ^ 31 \<Longrightarrow> std_stoi base (decimal n @ r) = Ret (int n)"
  using strtol_decimal[of base r "[]" n] by (simp add: std_stoi_def Let_def)

lemma std_stoul_decimal:
  "base = 0 \<or> base = 10 \<Longrightarrow> ends_number r \<Longrightarrow> n < 2 ^ 64 \<Longrightarrow> std_stoul base (decimal n @ r) = Ret n"
  using strtol_decimal[of base r "[]" n] by (simp add: std_stoul_def)

lemma std_stoi_to_string:
  assumes "- (2 ^ 31) \<le> i" "i < 2 ^ 31"
  shows "std_stoi 0 (to_string i) = Ret i"
proof (cases "i < 0")
  case True
  let ?n = "nat (- i)"
  have e: "ends_number []" by (simp add: ends_number_def)
  have b: "takeWhile (is_digit_of (detect_base 0 (decimal ?n))) (decimal ?n) = decimal ?n"
    "digits_value (detect_base 0 (decimal ?n)) (decimal ?n) = ?n"
    using base_digits[OF e, of ?n] by (simp_all del: takeWhile_eq_all_conv)
  have "\<not> is_hex_prefix (decimal ?n)"
    using is_decimal_facts(3)[OF decimal_is_decimal, of "[]" ?n] by simp
  then have "strtol_read 0 (CHR ''-'' # decimal ?n) = Some (True, ?n)"
    using b decimal_nonempty[of ?n] by (simp add: strtol_read_def is_space_def read_sign_def Let_def del: takeWhile_eq_all_conv)
  then show ?thesis using True assms by (simp add: std_stoi_def to_string_def Let_def)
next
  case False
  then show ?thesis using std_stoi_decimal[of 0 "[]" "nat i"] assms by (simp add: to_string_def ends_number_def)
qed

text \<open>Fields of a line: a stream in front of white space and a word.\<close>

definition before :: "string \<Rightarrow> in_stream" where
  "before r = \<lparr>rest = r, at_end = (r = []), failed = False\<rparr>"

lemma read_word_before:
  assumes "is_word x" "r = [] \<or> is_space (hd r)" "\<forall>c\<in>set sp. is_space c"
  shows "read_word (before (sp @ x @ r)) = (Some x, before r)"
proof -
  have x: "x \<noteq> []" "\<forall>c\<in>set x. \<not> is_space c" using assms(1) by (simp_all add: is_word_def)
  then have "hd x \<in> set x" by simp
  then have "dropWhile is_space (sp @ x @ r) = x @ r" using x assms(3) by (intro dropWhile_spaces) auto
  moreover have "takeWhile (\<lambda>c. \<not> is_space c) (x @ r) = x" "dropWhile (\<lambda>c. \<not> is_space c) (x @ r) = r"
    using x assms(2) by (cases r; simp)+
  ultimately show ?thesis using x by (simp add: read_word_def sentry_def before_def Let_def del: dropWhile_eq_Nil_conv)
qed

lemma read_digits_before:
  assumes "r = [] \<or> is_space (hd r)"
  shows "read_digits (before (decimal n @ r)) = (Some (False, n), before r)"
proof -
  note e = space_ends_number[OF assms]
  note f = is_decimal_facts[OF decimal_is_decimal, of r n, folded ends_number_def, OF e]
  show ?thesis using f(1,3) base_digits[OF e, of n] decimal_nonempty by (simp add: read_digits_def before_def Let_def del: dropWhile_eq_Nil_conv)
qed

lemma sentry_before:
  assumes "s \<noteq> []" "\<not> is_space (hd s)" "\<forall>c\<in>set sp. is_space c"
  shows "sentry (before (sp @ s)) = (Some (before s), before s)"
  using assms dropWhile_spaces[of sp s] by (simp add: sentry_def before_def Let_def)

lemma read_unsigned_before:
  assumes "r = [] \<or> is_space (hd r)" "\<forall>c\<in>set sp. is_space c" "n < 2 ^ k"
  shows "read_unsigned k old (before (sp @ decimal n @ r)) = (n, before r)"
proof -
  have "\<not> is_space (hd (decimal n @ r))"
    using is_decimal_facts(7)[OF decimal_is_decimal, of r n] space_ends_number[OF assms(1)] by (simp add: ends_number_def)
  then have "sentry (before (sp @ decimal n @ r)) = (Some (before (decimal n @ r)), before (decimal n @ r))"
    using assms(2) decimal_nonempty by (intro sentry_before) auto
  then show ?thesis using read_digits_before[OF assms(1), of n] assms(3) by (simp add: read_unsigned_def)
qed

lemma read_bool_before:
  assumes "r = [] \<or> is_space (hd r)" "\<forall>c\<in>set sp. is_space c"
  shows "read_bool old (before (sp @ decimal (of_bool b) @ r)) = (b, before r)"
proof -
  have "\<not> is_space (hd (decimal (of_bool b) @ r))"
    using is_decimal_facts(7)[OF decimal_is_decimal, of r "of_bool b"] space_ends_number[OF assms(1)] by (simp add: ends_number_def)
  then have "sentry (before (sp @ decimal (of_bool b) @ r)) = (Some (before (decimal (of_bool b) @ r)), before (decimal (of_bool b) @ r))"
    using assms(2) decimal_nonempty by (intro sentry_before) auto
  then show ?thesis using read_digits_before[OF assms(1), of "of_bool b"] by (cases b) (simp_all add: read_bool_def)
qed

lemma nothing_left: "read_word (before []) = (None, (before [])\<lparr>failed := True\<rparr>)"
    "read_unsigned k old (before []) = (old, (before [])\<lparr>failed := True\<rparr>)"
    "read_bool b (before []) = (b, (before [])\<lparr>failed := True\<rparr>)"
  by (simp_all add: read_word_def read_unsigned_def read_bool_def sentry_def before_def)

end
