(* ===== verification/RegisterCatalogues.thy ===== *)
theory RegisterCatalogues
  imports RegisterInfos Numbers
begin

text \<open>
  The catalogue of registers of \<^verbatim>\<open>include/BackendRegisterCatalogue.h\<close>, the one of the numeric addressed
  backends of \<^verbatim>\<open>src/NumericAddressedRegisterCatalogue.cc\<close> and \<^verbatim>\<open>src/MetadataCatalogue.cc\<close>.

  The maps compare paths as texts in which dots count as slashes (\<open>path_key\<close>); the names in a map
  either have the dot as alternative separator or contain no dot.
\<close>

section \<open>Keys\<close>

definition path_key :: "register_path \<Rightarrow> string outcome" where
  "path_key p = (if separator_alt p \<in> {[], ''.''} then getWithOtherSeparatorReplaced ''.'' p else Throw incomparable)"

section \<open>The base class\<close>

text \<open>\<open>iterated\<close> is the vector of pointers to elements of the map, which are their keys here.\<close>

record 'i catalogue =
  registers :: "string \<rightharpoonup> 'i"
  iterated :: "string list"

definition empty_catalogue :: "'i catalogue" where
  "empty_catalogue = \<lparr>registers = Map.empty, iterated = []\<rparr>"

definition bc_getBackendRegister :: "string \<Rightarrow> 'i catalogue \<Rightarrow> 'i outcome" where
  "bc_getBackendRegister k c =
     (case registers c k of Some r \<Rightarrow> Ret r
      | None \<Rightarrow> Throw (LogicError (''BackendRegisterCatalogue::getRegister(): Register '' @ k @ '' does not exist.'')))"

definition bc_hasRegister :: "string \<Rightarrow> 'i catalogue \<Rightarrow> bool" where
  "bc_hasRegister k c = (registers c k \<noteq> None)"

definition getNumberOfRegisters :: "'i catalogue \<Rightarrow> nat" where
  "getNumberOfRegisters c = length (iterated c)"

text \<open>What iterating over the catalogue yields.\<close>

definition iterate :: "'i catalogue \<Rightarrow> 'i list" where
  "iterate c = map (\<lambda>k. the (registers c k)) (iterated c)"

text \<open>
  \<open>exists\<close> is the virtual \<open>hasRegister\<close>, \<open>isHidden\<close> the virtual function of the register.
\<close>

definition bc_addRegister :: "(string \<Rightarrow> bool) \<Rightarrow> ('i \<Rightarrow> bool) \<Rightarrow> string \<Rightarrow> 'i \<Rightarrow> 'i catalogue \<Rightarrow> unit outcome \<times> 'i catalogue" where
  "bc_addRegister exists isHidden k r c =
     (if exists k then
        (Throw (LogicError (''BackendRegisterCatalogue::addRegister(): Register with the name '' @ k @ '' already exists!'')), c)
      else
        (Ret (), c\<lparr>registers := (registers c)(k \<mapsto> r), iterated := (if isHidden r then iterated c else iterated c @ [k])\<rparr>))"

text \<open>
  A hidden register is not in the vector: the assertion fails, and without it \<open>erase\<close> gets the end of
  the vector, which is undefined.
\<close>

definition bc_removeRegister :: "(string \<Rightarrow> bool) \<Rightarrow> string \<Rightarrow> 'i catalogue \<Rightarrow> unit outcome \<times> 'i catalogue" where
  "bc_removeRegister exists k c =
     (if \<not> exists k then
        (Throw (LogicError (''BackendRegisterCatalogue::removeRegister(): Register '' @ k @ '' does not exist.'')), c)
      else if k \<notin> set (iterated c) then (Terminated, c)
      else (Ret (), c\<lparr>iterated := remove1 k (iterated c), registers := (registers c)(k := None)\<rparr>))"

definition bc_modifyRegister :: "(string \<Rightarrow> bool) \<Rightarrow> string \<Rightarrow> 'i \<Rightarrow> 'i catalogue \<Rightarrow> unit outcome \<times> 'i catalogue" where
  "bc_modifyRegister exists k r c =
     (if \<not> exists k then
        (Throw (LogicError (''BackendRegisterCatalogue::modifyRegister(): Register '' @ k @ '' cannot be modified because it does not exist!'')), c)
      else (Ret (), c\<lparr>registers := (registers c)(k \<mapsto> r)\<rparr>))"

text \<open>
  \<open>fillFromThis\<close> on a new catalogue: each register is looked up with the virtual
  \<open>getBackendRegister\<close>, in the order of the keys.
\<close>

definition bc_fillFromThis :: "(string \<Rightarrow> 'i outcome) \<Rightarrow> string list \<Rightarrow> 'i catalogue \<Rightarrow> 'i catalogue outcome" where
  "bc_fillFromThis get keys c =
     (let copied = fold (\<lambda>k m. bindO m (\<lambda>m. bindO (get k) (\<lambda>r. Ret (m(k \<mapsto> r))))) keys (Ret Map.empty)
      in bindO copied (\<lambda>m. Ret \<lparr>registers = m, iterated = iterated c\<rparr>))"

section \<open>The numeric addressed catalogue\<close>

text \<open>The realms are in the order of their keys.\<close>

record na_catalogue =
  base_catalogue :: "register_info catalogue"
  listOfInterrupts :: "nat list set"
  canonicalInterrupts :: "string \<rightharpoonup> nat list"
  dataConsistencyRealms :: "(register_path \<times> string) list"

definition empty_na_catalogue :: na_catalogue where
  "empty_na_catalogue =
     \<lparr>base_catalogue = empty_catalogue, listOfInterrupts = {}, canonicalInterrupts = Map.empty, dataConsistencyRealms = []\<rparr>"

definition BAR :: register_path where
  "BAR = registerPath ''#''"

definition illegalAddress :: exn where
  "illegalAddress = LogicError ''Illegal numeric address''"

text \<open>A number of type \<open>int\<close> as a 64 bit unsigned one.\<close>

definition as_uint64 :: "int \<Rightarrow> nat" where
  "as_uint64 i = nat (i mod 2 ^ 64)"

definition numeric_register :: "register_path \<Rightarrow> register_info outcome" where
  "numeric_register p =
     (let components = getComponents p in
      if length components \<noteq> 3 then Throw illegalAddress
      else
        let third = components ! 2; pos = findFirst {CHR ''*''} third in
        bindO (std_stoi 10 (components ! 1)) (\<lambda>bar.
        bindO (std_stoi 10 (case pos of None \<Rightarrow> third | Some i \<Rightarrow> take i third)) (\<lambda>address.
        bindO (case pos of None \<Rightarrow> Ret 4 | Some i \<Rightarrow> bindO (std_stoi 10 (drop (i + 1) third)) (\<lambda>n. Ret (as_uint64 n))) (\<lambda>nBytes.
        if nBytes = 0 \<or> nBytes mod 4 \<noteq> 0 then Throw illegalAddress
        else new_register_1D p (nBytes div 4) (as_uint64 address) nBytes (as_uint64 bar) 32 0 True READ_WRITE FIXED_POINT []))))"

definition na_getBackendRegister :: "register_path \<Rightarrow> na_catalogue \<Rightarrow> register_info outcome" where
  "na_getBackendRegister registerPathName c =
     (let p = setAltSeparator ''.'' (copy_path registerPathName) in
      bindO (startsWith BAR p) (\<lambda>numeric.
      if numeric then numeric_register p
      else bindO (startsWith (registerPath ''!'') p) (\<lambda>canonical.
        bindO (path_key p) (\<lambda>k.
          if canonical then
            (case canonicalInterrupts c k of
               None \<Rightarrow> Throw (LogicError ''Illegal canonical interrupt path'')
             | Some i \<Rightarrow> new_register_1D p 0 0 0 0 0 0 False INTERRUPT VOID_TYPE i)
          else bc_getBackendRegister k (base_catalogue c)))))"

definition na_hasRegister :: "register_path \<Rightarrow> na_catalogue \<Rightarrow> bool outcome" where
  "na_hasRegister registerPathName c =
     bindO (startsWith BAR registerPathName) (\<lambda>numeric.
     if numeric then Ret True
     else bindO (path_key registerPathName) (\<lambda>k.
       Ret (canonicalInterrupts c k \<noteq> None \<or> bc_hasRegister k (base_catalogue c))))"

text \<open>
  The loop of \<open>addRegister\<close> over the sub interrupts.  Interrupt registers have at least one number.
\<close>

definition map_key :: "register_path \<Rightarrow> string" where
  "map_key p = (case path_key p of Ret k \<Rightarrow> k | _ \<Rightarrow> [])"

fun canonicalLoop :: "register_path \<Rightarrow> nat list \<Rightarrow> nat list \<Rightarrow> (string \<rightharpoonup> nat list) \<Rightarrow> (string \<rightharpoonup> nat list)" where
  "canonicalLoop canonicalName canonicalID [] m = m"
| "canonicalLoop canonicalName canonicalID (i # is) m =
     (let canonicalName = plus_assign ('':'' @ decimal i) canonicalName; canonicalID = canonicalID @ [i]
      in canonicalLoop canonicalName canonicalID is (m(map_key canonicalName \<mapsto> canonicalID)))"

definition addInterrupt :: "nat list \<Rightarrow> na_catalogue \<Rightarrow> na_catalogue" where
  "addInterrupt i c =
     (let canonicalName = registerPath (''!'' @ decimal (hd i)) in
      c\<lparr>listOfInterrupts := insert i (listOfInterrupts c),
        canonicalInterrupts := canonicalLoop canonicalName [hd i] (tl i) ((canonicalInterrupts c)(map_key canonicalName \<mapsto> [hd i]))\<rparr>)"

definition na_addRegister :: "register_info \<Rightarrow> na_catalogue \<Rightarrow> unit outcome \<times> na_catalogue" where
  "na_addRegister r c =
     (let c = (if registerAccess r = INTERRUPT then addInterrupt (interruptId r) c else c) in
      case bindO (na_hasRegister (pathName r) c) (\<lambda>b. bindO (path_key (pathName r)) (\<lambda>k. Ret (b, k))) of
        Ret (b, k) \<Rightarrow>
          (case bc_addRegister (\<lambda>_. b) hidden k r (base_catalogue c) of (res, bc) \<Rightarrow> (res, c\<lparr>base_catalogue := bc\<rparr>))
      | Throw x \<Rightarrow> (Throw x, c)
      | NoReturn \<Rightarrow> (NoReturn, c)
      | Terminated \<Rightarrow> (Terminated, c))"

definition na_clone :: "string list \<Rightarrow> na_catalogue \<Rightarrow> na_catalogue outcome" where
  "na_clone keys c =
     bindO (bc_fillFromThis (\<lambda>k. na_getBackendRegister \<lparr>path = k, separator_alt = ''.''\<rparr> c) keys (base_catalogue c))
       (\<lambda>bc. Ret (c\<lparr>base_catalogue := bc\<rparr>))"

definition addDataConsistencyRealm :: "register_path \<Rightarrow> string \<Rightarrow> na_catalogue \<Rightarrow> na_catalogue" where
  "addDataConsistencyRealm registerPath' realmName c =
     (let k = map_key registerPath'; l = dataConsistencyRealms c in
      c\<lparr>dataConsistencyRealms :=
          (if k \<in> map_key ` fst ` set l then map (\<lambda>(p, n). if map_key p = k then (p, realmName) else (p, n)) l
           else takeWhile (\<lambda>(p, n). str_less (map_key p) k) l @ (registerPath', realmName) #
             dropWhile (\<lambda>(p, n). str_less (map_key p) k) l)\<rparr>)"

text \<open>The loop of \<open>getDataConsistencyRealm\<close> and \<open>getDataConsistencyKeyRegisterPath\<close>.\<close>

fun findRealm :: "(register_path \<times> string) list \<Rightarrow> nat list \<Rightarrow> na_catalogue \<Rightarrow> (register_path \<times> string) option outcome" where
  "findRealm [] asyncId c = Ret None"
| "findRealm ((p, realmName) # l) asyncId c =
     bindO (na_getBackendRegister p c) (\<lambda>r. if interruptId r = asyncId then Ret (Some (p, realmName)) else findRealm l asyncId c)"

definition getDataConsistencyRealm :: "nat list \<Rightarrow> na_catalogue \<Rightarrow> string option outcome" where
  "getDataConsistencyRealm asyncId c =
     (if asyncId = [] then Ret None
      else bindO (findRealm (dataConsistencyRealms c) asyncId c) (\<lambda>r. Ret (map_option snd r)))"

definition getDataConsistencyKeyRegisterPath :: "nat list \<Rightarrow> na_catalogue \<Rightarrow> register_path outcome" where
  "getDataConsistencyKeyRegisterPath asyncId c =
     (if asyncId = [] then Ret default_path
      else bindO (findRealm (dataConsistencyRealms c) asyncId c) (\<lambda>r. Ret (case r of Some (p, n) \<Rightarrow> copy_path p | None \<Rightarrow> default_path)))"

section \<open>Meta data\<close>

type_synonym metadata_catalogue = "(string \<times> string) list"

text \<open>The map, in the order of its keys.\<close>

definition addMetadata :: "string \<Rightarrow> string \<Rightarrow> metadata_catalogue \<Rightarrow> metadata_catalogue" where
  "addMetadata key value m =
     takeWhile (\<lambda>e. str_less (fst e) key) m @ (key, value) # filter (\<lambda>e. fst e \<noteq> key) (dropWhile (\<lambda>e. str_less (fst e) key) m)"

definition getMetadata :: "string \<Rightarrow> metadata_catalogue \<Rightarrow> string outcome" where
  "getMetadata key m = (case map_of m key of Some v \<Rightarrow> Ret v | None \<Rightarrow> Throw (LogicError []))"

definition getNumberOfMetadata :: "metadata_catalogue \<Rightarrow> nat" where
  "getNumberOfMetadata m = length m"

section \<open>Names\<close>

text \<open>A name as the constructors of paths leave it.\<close>

definition normal_path :: "register_path \<Rightarrow> bool" where
  "normal_path p = ((\<exists>cs. list_all is_component cs \<and> path p = toPath cs) \<and> separator_alt p \<in> {[], ''.''})"

text \<open>A name that is neither a numeric address nor a canonical interrupt.\<close>

definition ordinary :: "register_path \<Rightarrow> bool" where
  "ordinary p = (normal_path p \<and> (\<exists>c s. path p = separator # c # s \<and> c \<notin> {separator, CHR ''.'', CHR ''#'', CHR ''!''}))"

lemma normal_path_copy: "normal_path p \<Longrightarrow> copy_path p = p"
proof -
  assume "normal_path p"
  then obtain cs where cs: "list_all is_component cs" "path p = toPath cs" by (auto simp: normal_path_def)
  obtain t where t: "path p = separator # t" using toPath_starts cs(2) by metis
  then have "normalised p = p\<lparr>path := toPath (parts t)\<rparr>" by (rule normalised_path)
  moreover have "parts t = cs" using cs parts_toPath[OF cs(1)] t by (metis parts_slash(1))
  ultimately show ?thesis using cs(2) by (simp add: copy_path_def)
qed

lemma path_key_eq:
  assumes "path p = separator # s" "separator_alt p \<in> {[], ''.''}"
  shows "path_key p = Ret (toPath (parts (withSlashes CHR ''.'' s)))"
proof -
  have "withSlashes CHR ''.'' (path p) = separator # withSlashes CHR ''.'' s" using assms(1) by (simp add: withSlashes_def)
  then show ?thesis using replaced_char[of "CHR ''.''" p s] assms by (simp add: path_key_def)
qed

lemma path_key_alt: "separator_alt p \<in> {[], ''.''} \<Longrightarrow> path_key (setAltSeparator ''.'' p) = path_key p"
  by (auto simp: path_key_def setAltSeparator_def getWithOtherSeparatorReplaced_def)

lemma parts_head: "c \<noteq> separator \<Longrightarrow> \<exists>d ds. parts (c # u) = (c # d) # ds"
  by (cases "splitOn ((=) separator) u") (auto simp: parts_def)

lemma registerPath_char: "c \<noteq> separator \<Longrightarrow> registerPath [c] = \<lparr>path = [separator, c], separator_alt = []\<rparr>"
  by (simp add: registerPath_eq parts_def toPath_def)

lemma startsWith_char:
  assumes "path p = separator # s" "separator_alt p \<in> {[], ''.''}" "c \<notin> {separator, CHR ''.''}"
  shows "startsWith (registerPath [c]) p =
    Ret (take 2 (if separator_alt p = [] then path p else toPath (parts (withSlashes CHR ''.'' s))) = [separator, c])"
proof -
  have c: "separator \<noteq> c" "c \<noteq> separator" "c \<noteq> CHR ''.''" using assms(3) by auto
  have r: "registerPath [c] = \<lparr>path = [separator, c], separator_alt = []\<rparr>" using c by (simp add: registerPath_char)
  show ?thesis
  proof (cases "separator_alt p = []")
    case True
    then show ?thesis
      by (simp add: startsWith_def both_converted_def getCommonAltSeparator_def r getWithOtherSeparatorReplaced_def path_length_def
          substr_def numeral_2_eq_2)
  next
    case False
    then have "getWithOtherSeparatorReplaced ''.'' p = Ret (toPath (parts (withSlashes CHR ''.'' s)))"
      using path_key_eq[OF assms(1,2)] assms(2) by (simp add: path_key_def)
    moreover have "getWithOtherSeparatorReplaced ''.'' (registerPath [c]) = Ret [separator, c]"
      using c by (simp add: r getWithOtherSeparatorReplaced_def replaceLoop_char withSlashes_def removeExtraSeparators_parts parts_def toPath_def)
    ultimately show ?thesis using False assms(2)
      by (simp add: startsWith_def both_converted_def getCommonAltSeparator_def r path_length_def substr_def numeral_2_eq_2)
  qed
qed

lemma splitOn_subset: "t \<in> set (splitOn sep s) \<Longrightarrow> set t \<subseteq> set s"
proof (induction s arbitrary: t)
  case (Cons a s)
  obtain u us where s: "splitOn sep s = u # us" by (meson list.exhaust splitOn_not_Nil)
  then show ?case using Cons.IH[of t] Cons.IH[of u] Cons.prems by (fastforce split: if_splits)
qed simp

lemma ordinary_key:
  assumes "ordinary p" "path_key p = Ret k"
  shows "\<exists>c d ds. k = toPath ((c # d) # ds) \<and> list_all is_component ((c # d) # ds) \<and>
    (\<forall>x\<in>set ((c # d) # ds). CHR ''.'' \<notin> set x) \<and> c \<notin> {separator, CHR ''.'', CHR ''#'', CHR ''!''}"
proof -
  obtain c s where p: "path p = separator # c # s" "c \<notin> {separator, CHR ''.'', CHR ''#'', CHR ''!''}" and alt: "separator_alt p \<in> {[], ''.''}"
    using assms(1) by (auto simp: ordinary_def normal_path_def)
  let ?cs = "parts (withSlashes CHR ''.'' (c # s))"
  have "withSlashes CHR ''.'' (c # s) = c # withSlashes CHR ''.'' s" using p(2) by (simp add: withSlashes_def)
  moreover have "c \<noteq> separator" using p(2) by simp
  then obtain d ds where "parts (c # withSlashes CHR ''.'' s) = (c # d) # ds" using parts_head by blast
  ultimately have cs: "?cs = (c # d) # ds" by simp
  have k: "k = toPath ?cs" using path_key_eq[OF p(1) alt] assms(2) by simp
  have "set x \<subseteq> set (withSlashes CHR ''.'' (c # s))" if "x \<in> set ?cs" for x
    using that splitOn_subset by (fastforce simp: parts_def)
  moreover have "CHR ''.'' \<notin> set (withSlashes CHR ''.'' (c # s))" by (auto simp: withSlashes_def)
  ultimately have "\<forall>x\<in>set ?cs. CHR ''.'' \<notin> set x" by blast
  then show ?thesis using k cs p(2) parts_components by metis
qed

lemma ordinary_facts:
  assumes "ordinary p"
  shows "\<exists>k. path_key p = Ret k" "startsWith BAR p = Ret False" "startsWith (registerPath ''!'') (setAltSeparator ''.'' p) = Ret False"
    "startsWith BAR (setAltSeparator ''.'' p) = Ret False" "path_key (setAltSeparator ''.'' p) = path_key p"
    "path_key p = Ret k \<Longrightarrow> take 2 k \<notin> {[separator, CHR ''!''], [separator, CHR ''#'']}"
proof -
  obtain c s where p: "path p = separator # c # s" "c \<notin> {separator, CHR ''.'', CHR ''#'', CHR ''!''}" and alt: "separator_alt p \<in> {[], ''.''}"
    using assms by (auto simp: ordinary_def normal_path_def)
  have "withSlashes CHR ''.'' (c # s) = c # withSlashes CHR ''.'' s" using p(2) by (simp add: withSlashes_def)
  moreover have "c \<noteq> separator" using p(2) by simp
  then obtain d ds where "parts (c # withSlashes CHR ''.'' s) = (c # d) # ds" using parts_head by blast
  ultimately have d: "parts (withSlashes CHR ''.'' (c # s)) = (c # d) # ds" by simp
  have k: "path_key p = Ret (separator # c # d @ concat (map ((#) separator) ds))" using path_key_eq[OF p(1) alt] d by (simp add: toPath_def)
  then show "\<exists>k. path_key p = Ret k" by blast
  show "path_key p = Ret k \<Longrightarrow> take 2 k \<notin> {[separator, CHR ''!''], [separator, CHR ''#'']}" using k p(2) by (auto simp: numeral_2_eq_2)
  have s: "startsWith (registerPath [x]) q = Ret False" if "x \<in> {CHR ''#'', CHR ''!''}" "path q = path p" "separator_alt q \<in> {[], ''.''}" for x q
    using startsWith_char[of q "c # s" x] that p d by (auto simp: toPath_def numeral_2_eq_2)
  show "startsWith BAR p = Ret False" "startsWith (registerPath ''!'') (setAltSeparator ''.'' p) = Ret False"
    "startsWith BAR (setAltSeparator ''.'' p) = Ret False"
    unfolding BAR_def using alt by (auto intro!: s simp: setAltSeparator_def)
  show "path_key (setAltSeparator ''.'' p) = path_key p" by (rule path_key_alt[OF alt])
qed

lemma get_ordinary:
  assumes "ordinary p" "path_key p = Ret k"
  shows "na_getBackendRegister p c = bc_getBackendRegister k (base_catalogue c)"
  using ordinary_facts[OF assms(1)] assms normal_path_copy[of p]
  by (simp add: na_getBackendRegister_def ordinary_def)

section \<open>Canonical interrupts\<close>

fun canonical_text :: "nat list \<Rightarrow> string" where
  "canonical_text [] = []"
| "canonical_text (i # is) = decimal i @ concat (map (\<lambda>j. CHR '':'' # decimal j) is)"

definition canonical_key :: "nat list \<Rightarrow> string" where
  "canonical_key i = separator # CHR ''!'' # canonical_text i"

lemma decimal_chars: "c \<in> set (decimal n) \<Longrightarrow> is_digit_of 10 c"
  using decimal_is_decimal[of n] by (auto simp: is_decimal_def is_digit_of_def digit_char)

lemma decimal_not: "c \<in> set (decimal n) \<Longrightarrow> c \<notin> {separator, CHR ''.'', CHR '':'', CHR ''*'', CHR ''#'', CHR ''!''}"
  using decimal_chars[of c n] by (auto simp: is_digit_of_def digit_value_def char_code_def)

lemma decimal_inj: "decimal m = decimal n \<Longrightarrow> m = n"
  by (metis digits_value_decimal)

lemma canonical_chars: "c \<in> set (canonical_text i) \<Longrightarrow> c \<notin> {separator, CHR ''.''}"
  by (cases i) (auto dest: decimal_not split: if_splits)

lemma canonical_text_append: "i \<noteq> [] \<Longrightarrow> canonical_text (i @ [j]) = canonical_text i @ CHR '':'' # decimal j"
  by (cases i) auto

lemma canonical_text_fields: "i \<noteq> [] \<Longrightarrow> splitOn ((=) CHR '':'') (canonical_text i) = map decimal i"
proof (induction i rule: rev_induct)
  case (snoc j i)
  have d: "splitOn ((=) CHR '':'') (decimal j) = [decimal j]" by (rule splitOn_no_sep) (auto dest: decimal_not)
  show ?case
  proof (cases "i = []")
    case True
    then show ?thesis using d by simp
  next
    case False
    then show ?thesis using snoc.IH d by (simp add: canonical_text_append splitOn_append)
  qed
qed simp

lemma canonical_key_inj: "i \<noteq> [] \<Longrightarrow> j \<noteq> [] \<Longrightarrow> canonical_key i = canonical_key j \<Longrightarrow> i = j"
proof -
  assume "i \<noteq> []" "j \<noteq> []" "canonical_key i = canonical_key j"
  then have "map decimal i = map decimal j" using canonical_text_fields by (metis canonical_key_def list.inject)
  then show "i = j" using decimal_inj by (intro map_injective[of decimal]) (auto simp: inj_def)
qed

lemma bang_path:
  assumes "\<forall>c\<in>set t. c \<notin> {separator, CHR ''.''}"
  shows "parts (CHR ''!'' # t) = [CHR ''!'' # t]" "withSlashes CHR ''.'' (CHR ''!'' # t) = CHR ''!'' # t"
proof -
  have t: "separator \<notin> set t" "CHR ''.'' \<notin> set t" using assms by blast+
  then have "is_component (CHR ''!'' # t)" by (simp add: is_component_def)
  then show "parts (CHR ''!'' # t) = [CHR ''!'' # t]" by (rule parts_component)
  have "withSlashes CHR ''.'' t = t" unfolding withSlashes_def by (rule map_idI) (use t(2) in \<open>metis\<close>)
  then show "withSlashes CHR ''.'' (CHR ''!'' # t) = CHR ''!'' # t" by (simp add: withSlashes_def)
qed

lemma bang_key:
  assumes "path p = separator # CHR ''!'' # t" "separator_alt p \<in> {[], ''.''}" "\<forall>c\<in>set t. c \<notin> {separator, CHR ''.''}"
  shows "path_key p = Ret (path p)" "map_key p = path p"
proof -
  show "path_key p = Ret (path p)" using path_key_eq[OF assms(1,2)] bang_path[OF assms(3)] assms(1) by (simp add: toPath_def)
  then show "map_key p = path p" by (simp add: map_key_def)
qed

lemma bang_plus:
  assumes "p = \<lparr>path = separator # CHR ''!'' # t, separator_alt = []\<rparr>" "\<forall>c\<in>set (t @ u). c \<notin> {separator, CHR ''.''}"
  shows "plus_assign u p = \<lparr>path = separator # CHR ''!'' # t @ u, separator_alt = []\<rparr>"
proof -
  let ?q = "p\<lparr>path := path p @ u\<rparr>"
  have q: "path ?q = separator # CHR ''!'' # t @ u" using assms(1) by simp
  have "normalised ?q = ?q\<lparr>path := toPath (parts (CHR ''!'' # t @ u))\<rparr>" by (rule normalised_path[OF q])
  then show ?thesis using bang_path(1)[OF assms(2)] assms(1) by (simp add: plus_assign_def toPath_def)
qed

definition canonical_map :: "(string \<rightharpoonup> nat list) \<Rightarrow> bool" where
  "canonical_map m = (\<forall>k i. m k = Some i \<longrightarrow> i \<noteq> [] \<and> k = canonical_key i)"

lemma canonical_map_upd: "canonical_map m \<Longrightarrow> i \<noteq> [] \<Longrightarrow> canonical_map (m(canonical_key i \<mapsto> i))"
  by (simp add: canonical_map_def)

lemma canonicalLoop_keys:
  assumes "done \<noteq> []" "name = \<lparr>path = canonical_key done, separator_alt = []\<rparr>" "canonical_map m"
  shows "canonical_map (canonicalLoop name done is m) \<and>
    dom (canonicalLoop name done is m) = dom m \<union> (\<lambda>n. canonical_key (done @ take n is)) ` {0 <.. length is}"
  using assms
proof (induction "is" arbitrary: name "done" m)
  case (Cons i "is")
  let ?done = "done @ [i]" and ?name = "plus_assign ('':'' @ decimal i) name"
  have "\<forall>c\<in>set (canonical_text done @ '':'' @ decimal i). c \<notin> {separator, CHR ''.''}"
    using canonical_chars[of _ "done @ [i]"] canonical_text_append[OF Cons.prems(1)] by auto
  then have "?name = \<lparr>path = separator # CHR ''!'' # canonical_text done @ '':'' @ decimal i, separator_alt = []\<rparr>"
    using bang_plus[of name "canonical_text done" "'':'' @ decimal i"] Cons.prems(2) unfolding canonical_key_def by blast
  then have name: "?name = \<lparr>path = canonical_key ?done, separator_alt = []\<rparr>"
    using canonical_text_append[OF Cons.prems(1)] by (simp add: canonical_key_def)
  then have key: "map_key ?name = canonical_key ?done"
    using bang_key(2)[of ?name "canonical_text ?done"] canonical_chars[of _ ?done] by (simp add: canonical_key_def)
  have IH: "canonical_map (canonicalLoop ?name ?done is (m(canonical_key ?done \<mapsto> ?done)))"
    "dom (canonicalLoop ?name ?done is (m(canonical_key ?done \<mapsto> ?done))) =
     dom (m(canonical_key ?done \<mapsto> ?done)) \<union> (\<lambda>n. canonical_key (?done @ take n is)) ` {0 <.. length is}"
    using Cons.IH[OF _ name canonical_map_upd[OF Cons.prems(3)]] by blast+
  have "{0 <.. length (i # is)} = insert 1 (Suc ` {0 <.. length is})"
    by (auto simp: image_iff greaterThanAtMost_def gr0_conv_Suc)
  then have "(\<lambda>n. canonical_key (done @ take n (i # is))) ` {0 <.. length (i # is)} =
      insert (canonical_key ?done) ((\<lambda>n. canonical_key (?done @ take n is)) ` {0 <.. length is})"
    by (simp add: image_image)
  then show ?case using IH key by (simp add: Let_def)
qed simp

definition prefixes_of :: "nat list \<Rightarrow> nat list set" where
  "prefixes_of i = (\<lambda>n. take n i) ` {0 <.. length i}"

lemma addInterrupt_keys:
  assumes "i \<noteq> []" "canonical_map (canonicalInterrupts c)"
  shows "canonical_map (canonicalInterrupts (addInterrupt i c))"
    "dom (canonicalInterrupts (addInterrupt i c)) = dom (canonicalInterrupts c) \<union> canonical_key ` prefixes_of i"
    "listOfInterrupts (addInterrupt i c) = insert i (listOfInterrupts c)" "base_catalogue (addInterrupt i c) = base_catalogue c"
proof -
  obtain j js where i: "i = j # js" using assms(1) by (cases i) auto
  have "is_component (CHR ''!'' # decimal j)" using decimal_not[of _ j] by (auto simp: is_component_def)
  then have name: "registerPath (''!'' @ decimal j) = \<lparr>path = canonical_key [j], separator_alt = []\<rparr>"
    by (simp add: registerPath_eq parts_component toPath_def canonical_key_def)
  have key: "map_key (registerPath (''!'' @ decimal j)) = canonical_key [j]"
    using bang_key(2)[of "registerPath (''!'' @ decimal j)" "canonical_text [j]"] canonical_chars[of _ "[j]"] name
    by (simp add: canonical_key_def)
  have "{0 <.. length (j # js)} = insert 1 (Suc ` {0 <.. length js})"
    by (auto simp: image_iff greaterThanAtMost_def gr0_conv_Suc)
  then have p: "canonical_key ` prefixes_of i = insert (canonical_key [j]) ((\<lambda>n. canonical_key ([j] @ take n js)) ` {0 <.. length js})"
    by (simp add: prefixes_of_def i image_image)
  note L = canonicalLoop_keys[OF _ name canonical_map_upd[OF assms(2), of "[j]"], of js]
  have e: "canonicalInterrupts (addInterrupt i c) =
      canonicalLoop (registerPath (''!'' @ decimal j)) [j] js ((canonicalInterrupts c)(canonical_key [j] \<mapsto> [j]))"
    using key by (simp add: addInterrupt_def i Let_def)
  show "canonical_map (canonicalInterrupts (addInterrupt i c))" using L e by simp
  show "dom (canonicalInterrupts (addInterrupt i c)) = dom (canonicalInterrupts c) \<union> canonical_key ` prefixes_of i"
    using L e p by auto
  show "listOfInterrupts (addInterrupt i c) = insert i (listOfInterrupts c)" "base_catalogue (addInterrupt i c) = base_catalogue c"
    by (simp_all add: addInterrupt_def Let_def)
qed

section \<open>The contract of a catalogue\<close>

text \<open>
  What adding and looking up promise: \<open>same\<close> tells whether two names stand for one register, \<open>proper\<close>
  which registers may be added and \<open>searchable\<close> which names are looked up in the map.
\<close>

locale register_catalogue =
  fixes add :: "'i \<Rightarrow> 's \<Rightarrow> unit outcome \<times> 's"
    and get :: "'n \<Rightarrow> 's \<Rightarrow> 'i outcome"
    and listed :: "'s \<Rightarrow> 'i list"
    and name :: "'i \<Rightarrow> 'n"
    and visible :: "'i \<Rightarrow> bool"
    and same :: "'n \<Rightarrow> 'n \<Rightarrow> bool"
    and proper :: "'i \<Rightarrow> bool"
    and searchable :: "'n \<Rightarrow> bool"
    and valid :: "'s \<Rightarrow> bool"
  assumes proper_searchable: "proper r \<Longrightarrow> searchable (name r)"
    and same_refl: "same n n"
    and add_valid: "valid s \<Longrightarrow> proper r \<Longrightarrow> valid (snd (add r s))"
    and add_new: "valid s \<Longrightarrow> proper r \<Longrightarrow> \<nexists>r'. get (name r) s = Ret r' \<Longrightarrow> fst (add r s) = Ret ()"
    and get_added: "valid s \<Longrightarrow> proper r \<Longrightarrow> \<nexists>r'. get (name r) s = Ret r' \<Longrightarrow> searchable n \<Longrightarrow>
      get n (snd (add r s)) = (if same n (name r) then Ret r else get n s)"
    and listed_added: "valid s \<Longrightarrow> proper r \<Longrightarrow> \<nexists>r'. get (name r) s = Ret r' \<Longrightarrow>
      listed (snd (add r s)) = listed s @ (if visible r then [r] else [])"
    and add_refused: "valid s \<Longrightarrow> proper r \<Longrightarrow> get (name r) s = Ret r' \<Longrightarrow>
      (\<exists>x. fst (add r s) = Throw x) \<and> listed (snd (add r s)) = listed s \<and> (searchable n \<longrightarrow> get n (snd (add r s)) = get n s)"
begin

definition add_all :: "'i list \<Rightarrow> 's \<Rightarrow> 's" where
  "add_all rs s = fold (\<lambda>r s. snd (add r s)) rs s"

lemma add_all_registers:
  assumes "valid s" "list_all proper rs" "\<forall>r\<in>set rs. \<nexists>r'. get (name r) s = Ret r'"
    "sorted_wrt (\<lambda>q r. \<not> same (name r) (name q)) rs"
  shows "valid (add_all rs s) \<and> listed (add_all rs s) = listed s @ filter visible rs \<and>
    (\<forall>n. searchable n \<longrightarrow> get n (add_all rs s) = (case find (\<lambda>r. same n (name r)) (rev rs) of Some r \<Rightarrow> Ret r | None \<Rightarrow> get n s))"
  using assms
proof (induction rs rule: rev_induct)
  case (snoc r rs)
  let ?s = "add_all rs s"
  have IH: "valid ?s" "listed ?s = listed s @ filter visible rs"
    "\<And>n. searchable n \<Longrightarrow> get n ?s = (case find (\<lambda>r. same n (name r)) (rev rs) of Some r \<Rightarrow> Ret r | None \<Rightarrow> get n s)"
    using snoc by (auto simp: sorted_wrt_append)
  have p: "proper r" using snoc.prems(2) by simp
  have "find (\<lambda>q. same (name r) (name q)) (rev rs) = None"
    using snoc.prems(4) by (auto simp: find_None_iff sorted_wrt_append)
  then have new: "\<nexists>r'. get (name r) ?s = Ret r'"
    using IH(3)[OF proper_searchable[OF p]] snoc.prems(3) by simp
  have "add_all (rs @ [r]) s = snd (add r ?s)" by (simp add: add_all_def)
  then show ?case
    using add_valid[OF IH(1) p] listed_added[OF IH(1) p new] get_added[OF IH(1) p new] IH(2,3) by simp
qed (simp add: add_all_def)

end

text \<open>The text of a name is a name for the same register.\<close>

definition proper_key :: "string \<Rightarrow> bool" where
  "proper_key k = (ordinary \<lparr>path = k, separator_alt = ''.''\<rparr> \<and> path_key \<lparr>path = k, separator_alt = ''.''\<rparr> = Ret k)"

definition bc_valid :: "'i catalogue \<Rightarrow> bool" where
  "bc_valid c = (set (iterated c) \<subseteq> dom (registers c) \<and> finite (dom (registers c)))"

definition bc_add :: "register_info \<Rightarrow> register_info catalogue \<Rightarrow> unit outcome \<times> register_info catalogue" where
  "bc_add r c = bc_addRegister (\<lambda>k. bc_hasRegister k c) hidden (map_key (pathName r)) r c"

lemma bc_get_Ret: "bc_getBackendRegister k c = Ret r \<longleftrightarrow> registers c k = Some r"
  by (simp add: bc_getBackendRegister_def split: option.splits)

lemma bc_add_new:
  assumes "bc_valid c" "registers c k = None"
  shows "fst (bc_addRegister exists isHidden k r c) = Ret () \<or> exists k"
    "\<not> exists k \<Longrightarrow> bc_valid (snd (bc_addRegister exists isHidden k r c))"
    "\<not> exists k \<Longrightarrow> bc_getBackendRegister l (snd (bc_addRegister exists isHidden k r c)) =
       (if l = k then Ret r else bc_getBackendRegister l c)"
    "\<not> exists k \<Longrightarrow> iterate (snd (bc_addRegister exists isHidden k r c)) = iterate c @ (if isHidden r then [] else [r])"
  using assms by (auto simp: bc_addRegister_def bc_valid_def bc_getBackendRegister_def iterate_def)

lemma bc_add_old: "exists k \<Longrightarrow> (\<exists>x. fst (bc_addRegister exists isHidden k r c) = Throw x) \<and> snd (bc_addRegister exists isHidden k r c) = c"
  by (simp add: bc_addRegister_def)

interpretation bc: register_catalogue bc_add bc_getBackendRegister iterate "\<lambda>r. map_key (pathName r)" "\<lambda>r. \<not> hidden r"
  "(=)" "\<lambda>_. True" "\<lambda>_. True" bc_valid
proof unfold_locales
  fix c :: "register_info catalogue" and r r' :: register_info and n
  let ?k = "map_key (pathName r)"
  assume v: "bc_valid c"
  show "bc_valid (snd (bc_add r c))"
    using bc_add_new(2)[OF v] bc_add_old v unfolding bc_add_def bc_hasRegister_def by metis
  {
    assume "\<nexists>r'. bc_getBackendRegister ?k c = Ret r'"
    then have n: "registers c ?k = None" by (simp add: bc_get_Ret)
    then have h: "\<not> bc_hasRegister ?k c" by (simp add: bc_hasRegister_def)
    show "fst (bc_add r c) = Ret ()" using bc_add_new(1)[OF v n] h unfolding bc_add_def by metis
    show "bc_getBackendRegister n (snd (bc_add r c)) = (if n = ?k then Ret r else bc_getBackendRegister n c)"
      using bc_add_new(3)[OF v n] h unfolding bc_add_def by metis
    show "iterate (snd (bc_add r c)) = iterate c @ (if \<not> hidden r then [r] else [])"
      using bc_add_new(4)[OF v n, of "\<lambda>k. bc_hasRegister k c" hidden r] h by (simp add: bc_add_def)
  next
    assume "bc_getBackendRegister ?k c = Ret r'"
    then have "bc_hasRegister ?k c" by (simp add: bc_get_Ret bc_hasRegister_def)
    from bc_add_old[of "\<lambda>k. bc_hasRegister k c", OF this, of hidden r c]
    show "(\<exists>x. fst (bc_add r c) = Throw x) \<and> iterate (snd (bc_add r c)) = iterate c \<and>
        (True \<longrightarrow> bc_getBackendRegister n (snd (bc_add r c)) = bc_getBackendRegister n c)"
      by (simp add: bc_add_def)
  }
qed simp_all

lemma proper_key_path_key: "ordinary p \<Longrightarrow> path_key p = Ret k \<Longrightarrow> proper_key k"
proof -
  assume p: "ordinary p" "path_key p = Ret k"
  obtain c d ds where k: "k = toPath ((c # d) # ds)" "list_all is_component ((c # d) # ds)"
      "\<forall>x\<in>set ((c # d) # ds). CHR ''.'' \<notin> set x" and c: "c \<notin> {separator, CHR ''.'', CHR ''#'', CHR ''!''}"
    using ordinary_key[OF p] by blast
  let ?cs = "(c # d) # ds"
  obtain t where t: "k = separator # t" using toPath_starts k(1) by metis
  have "CHR ''.'' \<notin> set k" using k(1,3) by (auto simp: toPath_def)
  then have "CHR ''.'' \<notin> set t" using t by simp
  then have "withSlashes CHR ''.'' t = t" unfolding withSlashes_def by (intro map_idI) metis
  moreover have "parts t = ?cs" using k(1,2) parts_toPath t by (metis parts_slash(1))
  ultimately have key: "path_key \<lparr>path = k, separator_alt = ''.''\<rparr> = Ret k"
    using path_key_eq[of "\<lparr>path = k, separator_alt = ''.''\<rparr>" t] t k(1) by simp
  have "normal_path \<lparr>path = k, separator_alt = ''.''\<rparr>" using k(1,2) unfolding normal_path_def by (intro conjI exI[of _ "(c # d) # ds"]) simp_all
  moreover have "k = separator # c # d @ concat (map ((#) separator) ds)" by (simp add: k(1) toPath_def)
  ultimately show "proper_key k" using key c by (auto simp: proper_key_def ordinary_def)
qed

definition na_valid :: "na_catalogue \<Rightarrow> bool" where
  "na_valid c = (canonical_map (canonicalInterrupts c) \<and> bc_valid (base_catalogue c) \<and>
     (\<forall>k\<in>dom (registers (base_catalogue c)). proper_key k))"

definition proper_register :: "register_info \<Rightarrow> bool" where
  "proper_register r = (ordinary (pathName r) \<and> (registerAccess r = INTERRUPT \<longrightarrow> interruptId r \<noteq> []))"

definition with_interrupt :: "register_info \<Rightarrow> na_catalogue \<Rightarrow> na_catalogue" where
  "with_interrupt r c = (if registerAccess r = INTERRUPT then addInterrupt (interruptId r) c else c)"

lemma with_interrupt_facts:
  assumes "proper_register r" "na_valid c"
  shows "na_valid (with_interrupt r c)" "base_catalogue (with_interrupt r c) = base_catalogue c"
  using assms addInterrupt_keys[of "interruptId r" c]
  by (auto simp: with_interrupt_def proper_register_def na_valid_def)

lemma na_add_eq:
  assumes "proper_register r" "na_valid c" "path_key (pathName r) = Ret k"
  shows "na_addRegister r c =
    (case bc_addRegister (\<lambda>k. bc_hasRegister k (base_catalogue c)) hidden k r (base_catalogue c) of (res, bc) \<Rightarrow>
       (res, (with_interrupt r c)\<lparr>base_catalogue := bc\<rparr>))"
proof -
  let ?c = "with_interrupt r c"
  have o: "ordinary (pathName r)" using assms(1) by (simp add: proper_register_def)
  have "canonicalInterrupts ?c k = None"
  proof (rule ccontr)
    assume "canonicalInterrupts ?c k \<noteq> None"
    then obtain i where "k = canonical_key i"
      using with_interrupt_facts(1)[OF assms(1,2)] by (auto simp: na_valid_def canonical_map_def)
    then have "take 2 k = [separator, CHR ''!'']" by (simp add: canonical_key_def numeral_2_eq_2)
    then show False using ordinary_facts(6)[OF o assms(3)] by simp
  qed
  then have "na_hasRegister (pathName r) ?c = Ret (bc_hasRegister k (base_catalogue c))"
    using ordinary_facts(2)[OF o] assms(3) with_interrupt_facts(2)[OF assms(1,2)] by (simp add: na_hasRegister_def)
  then show ?thesis
    using assms(3) with_interrupt_facts(2)[OF assms(1,2)]
    by (simp add: na_addRegister_def with_interrupt_def[symmetric] bc_addRegister_def)
qed

interpretation nc: register_catalogue na_addRegister na_getBackendRegister "\<lambda>c. iterate (base_catalogue c)" pathName
  "\<lambda>r. \<not> hidden r" "\<lambda>p q. path_key p = path_key q" proper_register ordinary na_valid
proof unfold_locales
  show "proper_register r \<Longrightarrow> ordinary (pathName r)" for r by (simp add: proper_register_def)
  fix c r r' n
  assume v: "na_valid c" and p: "proper_register r"
  let ?b = "base_catalogue c"
  have o: "ordinary (pathName r)" using p by (simp add: proper_register_def)
  obtain k where k: "path_key (pathName r) = Ret k" using ordinary_facts(1)[OF o] by blast
  have bv: "bc_valid ?b" using v by (simp add: na_valid_def)
  note a = na_add_eq[OF p v k]
  have get: "na_getBackendRegister (pathName r) c = bc_getBackendRegister k ?b" by (rule get_ordinary[OF o k])
  let ?bc = "bc_addRegister (\<lambda>k. bc_hasRegister k ?b) hidden k r ?b"
  have s: "fst (na_addRegister r c) = fst ?bc" "base_catalogue (snd (na_addRegister r c)) = snd ?bc"
    "canonicalInterrupts (snd (na_addRegister r c)) = canonicalInterrupts (with_interrupt r c)"
    using a by (simp_all split: prod.splits)
  show "na_valid (snd (na_addRegister r c))"
  proof (cases "registers ?b k")
    case None
    then have "registers (snd ?bc) = (registers ?b)(k \<mapsto> r)" by (simp add: bc_addRegister_def bc_hasRegister_def)
    then show ?thesis
      using bc_add_new(2)[OF bv None, of "\<lambda>k. bc_hasRegister k ?b" hidden r] s with_interrupt_facts(1)[OF p v] v None
        proper_key_path_key[OF o k]
      by (simp add: na_valid_def bc_hasRegister_def)
  next
    case (Some q)
    then show ?thesis using s with_interrupt_facts(1)[OF p v] v
      by (simp add: na_valid_def bc_addRegister_def bc_hasRegister_def)
  qed
  {
    assume "\<nexists>r'. na_getBackendRegister (pathName r) c = Ret r'"
    then have e: "registers ?b k = None" using get by (simp add: bc_get_Ret)
    then have h: "\<not> bc_hasRegister k ?b" by (simp add: bc_hasRegister_def)
    show "fst (na_addRegister r c) = Ret ()" using bc_add_new(1)[OF bv e, of "\<lambda>k. bc_hasRegister k ?b" hidden r] h s(1) by simp
    show "iterate (base_catalogue (snd (na_addRegister r c))) = iterate ?b @ (if \<not> hidden r then [r] else [])"
      using bc_add_new(4)[OF bv e, of "\<lambda>k. bc_hasRegister k ?b" hidden r] h s(2) by simp
    assume n: "ordinary n"
    obtain l where l: "path_key n = Ret l" using ordinary_facts(1)[OF n] by blast
    show "na_getBackendRegister n (snd (na_addRegister r c)) =
        (if path_key n = path_key (pathName r) then Ret r else na_getBackendRegister n c)"
      using bc_add_new(3)[OF bv e, of "\<lambda>k. bc_hasRegister k ?b" l hidden r] h s(2) k l get_ordinary[OF n l] by simp
  next
    assume "na_getBackendRegister (pathName r) c = Ret r'"
    then have "bc_hasRegister k ?b" using get by (simp add: bc_get_Ret bc_hasRegister_def)
    from bc_add_old[of "\<lambda>k. bc_hasRegister k ?b", OF this, of hidden r ?b] s(1,2)
    show "(\<exists>x. fst (na_addRegister r c) = Throw x) \<and> iterate (base_catalogue (snd (na_addRegister r c))) = iterate ?b \<and>
        (ordinary n \<longrightarrow> na_getBackendRegister n (snd (na_addRegister r c)) = na_getBackendRegister n c)"
      using ordinary_facts(1)[of n] get_ordinary[of n] by auto
  }
qed simp

lemma empty_na_valid: "na_valid empty_na_catalogue" "na_getBackendRegister n empty_na_catalogue \<noteq> Ret r \<or> \<not> ordinary n"
proof -
  show "na_valid empty_na_catalogue"
    by (simp add: na_valid_def canonical_map_def bc_valid_def empty_na_catalogue_def empty_catalogue_def)
  show "na_getBackendRegister n empty_na_catalogue \<noteq> Ret r \<or> \<not> ordinary n"
  proof (cases "ordinary n")
    case True
    then obtain k where "path_key n = Ret k" using ordinary_facts(1) by blast
    from get_ordinary[OF True this] show ?thesis
      by (simp add: bc_get_Ret empty_na_catalogue_def empty_catalogue_def)
  qed simp
qed

lemma get_key:
  assumes "proper_key k"
  shows "na_getBackendRegister \<lparr>path = k, separator_alt = ''.''\<rparr> c = bc_getBackendRegister k (base_catalogue c)"
  using assms get_ordinary by (simp add: proper_key_def)

lemma fold_copy:
  assumes "\<forall>k\<in>set ks. \<exists>r. get k = Ret r \<and> m k = Some r"
  shows "fold (\<lambda>k m. bindO m (\<lambda>m. bindO (get k) (\<lambda>r. Ret (m(k \<mapsto> r))))) ks (Ret m0) = Ret (m0 ++ (m |` set ks))"
  using assms
proof (induction ks rule: rev_induct)
  case (snoc k ks)
  then obtain r where "get k = Ret r" "m k = Some r" by auto
  moreover from this have "(m0 ++ (m |` set ks))(k \<mapsto> r) = m0 ++ (m |` set (ks @ [k]))"
    by (auto simp: map_add_def restrict_map_def fun_eq_iff split: option.splits)
  ultimately show ?case using snoc by (simp del: fun_upd_apply add: fun_upd_def[symmetric])
qed (auto simp: map_add_def restrict_map_def fun_eq_iff)

lemma clone_equal:
  assumes "na_valid c" "set ks = dom (registers (base_catalogue c))"
  shows "na_clone ks c = Ret c"
proof -
  let ?m = "registers (base_catalogue c)"
  have "\<forall>k\<in>set ks. \<exists>r. na_getBackendRegister \<lparr>path = k, separator_alt = ''.''\<rparr> c = Ret r \<and> ?m k = Some r"
    using assms by (fastforce simp: na_valid_def get_key bc_get_Ret)
  from fold_copy[OF this, of Map.empty] have
    "fold (\<lambda>k m. bindO m (\<lambda>m. bindO (na_getBackendRegister \<lparr>path = k, separator_alt = ''.''\<rparr> c) (\<lambda>r. Ret (m(k \<mapsto> r))))) ks (Ret Map.empty) =
      Ret (?m |` set ks)" by simp
  moreover have "?m |` set ks = ?m" using assms(2) by (auto simp: restrict_map_def fun_eq_iff dom_def)
  ultimately show ?thesis by (simp add: na_clone_def bc_fillFromThis_def)
qed

section \<open>The registers of a catalogue\<close>

definition na_add_all :: "register_info list \<Rightarrow> na_catalogue" where
  "na_add_all rs = fold (\<lambda>r c. snd (na_addRegister r c)) rs empty_na_catalogue"

lemma na_add_all_valid: "list_all proper_register rs \<Longrightarrow> na_valid (na_add_all rs)"
  by (induction rs rule: rev_induct) (simp_all add: na_add_all_def empty_na_valid(1) nc.add_valid)

lemma na_add_all_get:
  assumes "list_all proper_register rs" "sorted_wrt (\<lambda>q r. path_key (pathName r) \<noteq> path_key (pathName q)) rs"
  shows "ordinary n \<Longrightarrow> na_getBackendRegister n (na_add_all rs) =
      (case find (\<lambda>r. path_key n = path_key (pathName r)) (rev rs) of Some r \<Rightarrow> Ret r | None \<Rightarrow> na_getBackendRegister n empty_na_catalogue)"
    "iterate (base_catalogue (na_add_all rs)) = filter (\<lambda>r. \<not> hidden r) rs"
proof -
  have e: "na_add_all rs = nc.add_all rs empty_na_catalogue" by (simp add: na_add_all_def nc.add_all_def)
  have "ordinary (pathName r)" if "r \<in> set rs" for r
    using assms(1) that by (simp add: list_all_iff proper_register_def)
  then have "\<forall>r\<in>set rs. \<nexists>r'. na_getBackendRegister (pathName r) empty_na_catalogue = Ret r'"
    using empty_na_valid(2) by blast
  note A = nc.add_all_registers[OF empty_na_valid(1) assms(1) this assms(2), folded e]
  then show "ordinary n \<Longrightarrow> na_getBackendRegister n (na_add_all rs) =
      (case find (\<lambda>r. path_key n = path_key (pathName r)) (rev rs) of Some r \<Rightarrow> Ret r | None \<Rightarrow> na_getBackendRegister n empty_na_catalogue)"
    by blast
  show "iterate (base_catalogue (na_add_all rs)) = filter (\<lambda>r. \<not> hidden r) rs"
    using A by (simp add: empty_na_catalogue_def empty_catalogue_def iterate_def)
qed

lemma na_add_all_only:
  assumes "list_all proper_register rs" "sorted_wrt (\<lambda>q r. path_key (pathName r) \<noteq> path_key (pathName q)) rs"
    "ordinary n" "na_getBackendRegister n (na_add_all rs) = Ret r"
  shows "r \<in> set rs \<and> path_key n = path_key (pathName r)"
proof (cases "find (\<lambda>r. path_key n = path_key (pathName r)) (rev rs)")
  case None
  then have "na_getBackendRegister n empty_na_catalogue = Ret r" using na_add_all_get(1)[OF assms(1-3)] assms(4) by simp
  then show ?thesis using empty_na_valid(2) assms(3) by blast
next
  case (Some q)
  then have "q = r" using na_add_all_get(1)[OF assms(1-3)] assms(4) by simp
  then show ?thesis using Some by (auto simp: find_Some_iff rev_nth)
qed

text \<open>
  C20: a catalogue filled with registers of different names finds each of them under its name and
  no other, lists the visible ones in the order of their addition, and its clone is equal.
\<close>

theorem catalogue_finds_registers:
  assumes "list_all proper_register rs" "sorted_wrt (\<lambda>q r. path_key (pathName r) \<noteq> path_key (pathName q)) rs"
    and "set ks = dom (registers (base_catalogue (na_add_all rs)))"
  shows "(\<forall>r\<in>set rs. na_getBackendRegister (pathName r) (na_add_all rs) = Ret r) \<and>
    (\<forall>n r. ordinary n \<and> na_getBackendRegister n (na_add_all rs) = Ret r \<longrightarrow> r \<in> set rs \<and> path_key n = path_key (pathName r)) \<and>
    iterate (base_catalogue (na_add_all rs)) = filter (\<lambda>r. \<not> hidden r) rs \<and> na_clone ks (na_add_all rs) = Ret (na_add_all rs)"
proof -
  have p: "ordinary (pathName r)" if "r \<in> set rs" for r
    using assms(1) that by (simp add: list_all_iff proper_register_def)
  have inj: "q = r" if "q \<in> set rs" "r \<in> set rs" "path_key (pathName q) = path_key (pathName r)" for q r
    using assms(2) that by (induction rs) auto
  have found: "na_getBackendRegister (pathName r) (na_add_all rs) = Ret r" if r: "r \<in> set rs" for r
  proof -
    obtain q where q: "find (\<lambda>q. path_key (pathName r) = path_key (pathName q)) (rev rs) = Some q"
      using r by (cases "find (\<lambda>q. path_key (pathName r) = path_key (pathName q)) (rev rs)") (auto simp: find_None_iff)
    then have "q \<in> set rs" "path_key (pathName r) = path_key (pathName q)" by (auto simp: find_Some_iff rev_nth)
    then have "q = r" using inj r by metis
    then show ?thesis using na_add_all_get(1)[OF assms(1,2) p[OF r]] q by simp
  qed
  then show ?thesis
    using na_add_all_only[OF assms(1,2)] na_add_all_get(2)[OF assms(1,2)] clone_equal[OF na_add_all_valid[OF assms(1)] assms(3)] by blast
qed

theorem catalogue_finds_registers_witness:
  "\<exists>q r ks. map pathName [q, r] = [registerPath ''ADC'', registerPath ''DAC''] \<and> iterate (base_catalogue (na_add_all [q, r])) = [r] \<and>
    na_getBackendRegister (registerPath ''ADC'') (na_add_all [q, r]) = Ret q \<and> na_clone ks (na_add_all [q, r]) = Ret (na_add_all [q, r])"
proof -
  define reg where "reg = (\<lambda>n h. \<lparr>reg_bar = 0, reg_address = 0, nElements = 1, elementPitchBits = 32, registerAccess = READ_WRITE,
     channels = [], rawTypes = [], pathName = registerPath n, interruptId = [], doubleBuffer = None, dataDescriptor = undefined_descriptor,
     hidden = h\<rparr>)"
  have n: "registerPath ''ADC'' = \<lparr>path = ''/ADC'', separator_alt = []\<rparr>" "registerPath ''DAC'' = \<lparr>path = ''/DAC'', separator_alt = []\<rparr>"
    by (simp_all add: registerPath_eq parts_def toPath_def)
  have k: "path_key (registerPath ''ADC'') = Ret ''/ADC''" "path_key (registerPath ''DAC'') = Ret ''/DAC''"
    unfolding n by (simp_all add: path_key_eq[of _ "''ADC''"] path_key_eq[of _ "''DAC''"] withSlashes_def parts_def toPath_def)
  have "list_all is_component [''ADC'']" "list_all is_component [''DAC'']" "''/ADC'' = toPath [''ADC'']" "''/DAC'' = toPath [''DAC'']"
    by (simp_all add: is_component_def toPath_def)
  then have "normal_path (registerPath ''ADC'')" "normal_path (registerPath ''DAC'')"
    unfolding n normal_path_def by (metis insertI1 register_path.simps(1,2))+
  then have "list_all proper_register [reg ''ADC'' True, reg ''DAC'' False]"
    using n by (simp add: proper_register_def ordinary_def reg_def)
  moreover have "sorted_wrt (\<lambda>q r. path_key (pathName r) \<noteq> path_key (pathName q)) [reg ''ADC'' True, reg ''DAC'' False]"
    using k by (simp add: reg_def)
  moreover from na_add_all_valid[OF calculation(1)]
  have "finite (dom (registers (base_catalogue (na_add_all [reg ''ADC'' True, reg ''DAC'' False]))))"
    by (simp only: na_valid_def bc_valid_def)
  from finite_list[OF this] obtain ks where "set ks = dom (registers (base_catalogue (na_add_all [reg ''ADC'' True, reg ''DAC'' False])))"
    by blast
  note T = catalogue_finds_registers[OF calculation this]
  have "pathName (reg ''ADC'' True) = registerPath ''ADC''" "filter (\<lambda>r. \<not> hidden r) [reg ''ADC'' True, reg ''DAC'' False] = [reg ''DAC'' False]"
    by (simp_all add: reg_def)
  then have "iterate (base_catalogue (na_add_all [reg ''ADC'' True, reg ''DAC'' False])) = [reg ''DAC'' False] \<and>
      na_getBackendRegister (registerPath ''ADC'') (na_add_all [reg ''ADC'' True, reg ''DAC'' False]) = Ret (reg ''ADC'' True) \<and>
      na_clone ks (na_add_all [reg ''ADC'' True, reg ''DAC'' False]) = Ret (na_add_all [reg ''ADC'' True, reg ''DAC'' False])"
    using T by (metis list.set_intros(1))
  moreover have "map pathName [reg ''ADC'' True, reg ''DAC'' False] = [registerPath ''ADC'', registerPath ''DAC'']" by (simp add: reg_def)
  ultimately show ?thesis by (elim conjE) (intro exI conjI, assumption+)
qed

section \<open>Numeric addresses\<close>

lemma componentsFrom_no_dot:
  assumes "CHR ''.'' \<notin> set (path p)" "separator_alt p = []"
  shows "componentsFrom (p\<lparr>separator_alt := ''.''\<rparr>) pos = componentsFrom p pos"
proof (induction p\<equiv>"p\<lparr>separator_alt := ''.''\<rparr>" pos rule: componentsFrom.induct)
  case (1 pos)
  have "findFirstOf {CHR ''.''} i (path p) = None" for i
    using assms(1) by (auto simp: findFirstOf_def findFirst_None dest: in_set_dropD)
  then have n: "nextSeparator (p\<lparr>separator_alt := ''.''\<rparr>) i = nextSeparator p i" for i
    using assms(2) by (simp add: nextSeparator_def minPos_def split: option.splits)
  then show ?case using 1 by (subst (1 2) componentsFrom.simps) (simp split: option.splits)
qed

lemma decimal_component: "is_component (decimal n)" "is_component (decimal n @ CHR ''*'' # decimal m)" "CHR ''.'' \<notin> set (decimal n)"
  using decimal_not decimal_nonempty by (auto simp: is_component_def)

lemma to_string_nat: "to_string (int n) = decimal n"
  by (simp add: to_string_def)

text \<open>
  C22: the path that \<open>BAR()/bar/address*length\<close> builds gives the register at this place.
\<close>

theorem numeric_address_found:
  assumes "bar < 2 ^ 31" "address < 2 ^ 31" "0 < n" "4 * n < 2 ^ 31"
  shows "\<exists>p r. bindO (path_slash_int BAR (int bar)) (\<lambda>q. bindO (path_slash_int q (int address)) (\<lambda>q. path_times q (int (4 * n)))) = Ret p \<and>
    na_hasRegister p c = Ret True \<and> na_getBackendRegister p c = Ret r \<and> reg_bar r = bar \<and> reg_address r = address \<and>
    nElements r = n \<and> elementPitchBits r = 32 \<and> registerAccess r = READ_WRITE \<and>
    channels r = [\<lparr>bitOffset = 0, dataType = FIXED_POINT, width = 32, nFractionalBits = 0, signedFlag = True\<rparr>]"
proof -
  have B: "represents BAR [''#'']" using represents_registerPath[of "''#''"] by (simp add: BAR_def parts_def)
  have D: "represents (registerPath (to_string (int i))) [decimal i]" for i
    using represents_registerPath[of "decimal i"] parts_component[OF decimal_component(1)] by (simp add: to_string_nat)
  obtain q where q: "path_slash_int BAR (int bar) = Ret q" "represents q [''#'', decimal bar]"
    using represents_path_slash[OF B D[of bar]] by (auto simp: path_slash_int_def)
  obtain q' where q': "path_slash_int q (int address) = Ret q'" "represents q' [''#'', decimal bar, decimal address]"
    using represents_path_slash[OF q(2) D[of address]] by (auto simp: path_slash_int_def)
  let ?cs = "[''#'', decimal bar, decimal address @ CHR ''*'' # decimal (4 * n)]"
  let ?p = "registerPath (path q' @ CHR ''*'' # decimal (4 * n))"
  have "path q' = separator # ''#'' @ separator # decimal bar @ separator # decimal address"
    using q'(2) by (simp add: represents_def toPath_def)
  then have "parts (path q' @ CHR ''*'' # decimal (4 * n)) = parts ''#'' @ parts (decimal bar) @ parts (decimal address @ CHR ''*'' # decimal (4 * n))"
    using parts_append[of "''#''"] parts_append[of "decimal bar"] by simp
  then have "parts (path q' @ CHR ''*'' # decimal (4 * n)) = ?cs"
    using parts_component[OF decimal_component(1), of bar] parts_component[OF decimal_component(2), of address "4 * n"] by (simp add: parts_def)
  then have p: "represents ?p ?cs" using represents_registerPath[of "path q' @ CHR ''*'' # decimal (4 * n)"] by simp
  have "path_times q' (int (4 * n)) = Ret (normalised (setAltSeparator [] ?p))"
    using q'(2) to_string_nat[of "4 * n"] by (simp add: path_times_def path_to_string_def getWithOtherSeparatorReplaced_def represents_def)
  moreover have "setAltSeparator [] ?p = ?p" "normalised ?p = ?p"
    using p copy_represented[OF p] by (simp_all add: setAltSeparator_def copy_path_def represents_def)
  ultimately have t: "path_times q' (int (4 * n)) = Ret ?p" by simp
  have path: "path ?p = separator # CHR ''#'' # concat (map ((#) separator) (tl ?cs))" using p by (simp add: represents_def toPath_def)
  have nodot: "CHR ''.'' \<notin> set (path ?p)" using path decimal_component(3) by simp
  have alt: "separator_alt ?p = []" using p by (simp add: represents_def)
  let ?d = "?p\<lparr>separator_alt := ''.''\<rparr>"
  have "path ?d = path ?p" by simp
  then have cs: "getComponents ?d = ?cs"
    using represents_getComponents[OF p] componentsFrom_no_dot[OF nodot alt] by (simp only: getComponents_def)
  have w: "withSlashes CHR ''.'' (CHR ''#'' # concat (map ((#) separator) (tl ?cs))) = CHR ''#'' # concat (map ((#) separator) (tl ?cs))"
    unfolding withSlashes_def by (rule map_idI) (use nodot path in auto)
  have c: "parts (CHR ''#'' # concat (map ((#) separator) (tl ?cs))) = ?cs"
    using p path parts_toPath[of ?cs] parts_slash(1) unfolding represents_def by metis
  then have "toPath (parts (CHR ''#'' # concat (map ((#) separator) (tl ?cs)))) = path ?p" using p by (simp only: represents_def)
  then have start: "startsWith BAR ?d = Ret True" "startsWith BAR ?p = Ret True"
    using startsWith_char[of ?d _ "CHR ''#''", OF _ _] startsWith_char[of ?p _ "CHR ''#''", OF path] path alt w
    by (simp_all add: BAR_def numeral_2_eq_2)
  have copy: "setAltSeparator ''.'' (copy_path ?p) = ?d" using copy_represented[OF p] by (simp add: setAltSeparator_def)
  have f: "findFirst {CHR ''*''} (decimal address @ CHR ''*'' # decimal (4 * n)) = Some (length (decimal address))"
  proof -
    have "set (decimal address) \<inter> {CHR ''*''} = {}" using decimal_not[of "CHR ''*''" address] by auto
    from findFirst_append(2)[OF this] show ?thesis by simp
  qed
  have "std_stoi 10 (decimal i) = Ret (int i)" if "i < 2 ^ 31" for i
    using std_stoi_decimal[of 10 "[]" i] that by (simp add: ends_number_def)
  moreover have u: "as_uint64 (int i) = i" if "i < 2 ^ 31" for i using that by (simp add: as_uint64_def nat_mod_distrib)
  moreover from u[of "4 * n"] assms(4) have "as_uint64 (4 * int n) = 4 * n" by simp
  ultimately have r: "numeric_register ?d = new_register_1D ?d n address (4 * n) bar 32 0 True READ_WRITE FIXED_POINT []"
    using cs f assms by (simp add: numeric_register_def Let_def)
  have "na_hasRegister ?p c = Ret True" using start(2) by (simp add: na_hasRegister_def)
  moreover have "na_getBackendRegister ?p c = numeric_register ?d" using copy start(1) by (simp add: na_getBackendRegister_def)
  moreover obtain q'' where "new_register_1D ?d n address (4 * n) bar 32 0 True READ_WRITE FIXED_POINT [] = Ret q''"
    "reg_bar q'' = bar \<and> reg_address q'' = address \<and> nElements q'' = n \<and> elementPitchBits q'' = 32 \<and> registerAccess q'' = READ_WRITE \<and>
    channels q'' = [\<lparr>bitOffset = 0, dataType = FIXED_POINT, width = 32, nFractionalBits = 0, signedFlag = True\<rparr>]"
    using assms by (simp add: new_register_1D_def computeDataDescriptor_def biggest_def widthSum_def raw_data_type_def)
  ultimately show ?thesis using q(1) q'(1) t r by auto
qed

theorem numeric_address_found_witness:
  "\<exists>p r. bindO (path_slash_int BAR 1) (\<lambda>q. bindO (path_slash_int q 64) (\<lambda>q. path_times q 12)) = Ret p \<and>
    na_getBackendRegister p empty_na_catalogue = Ret r \<and> reg_bar r = 1 \<and> reg_address r = 64 \<and> nElements r = 3"
  using numeric_address_found[of 1 64 3 empty_na_catalogue] by auto

section \<open>Interrupts of the catalogue\<close>

definition all_prefixes :: "register_info list \<Rightarrow> nat list set" where
  "all_prefixes rs = (\<Union>r\<in>set rs. if registerAccess r = INTERRUPT then prefixes_of (interruptId r) else {})"

definition canonical_path :: "nat list \<Rightarrow> register_path" where
  "canonical_path i = registerPath (''!'' @ canonical_text i)"

lemma canonical_path_eq: "i \<noteq> [] \<Longrightarrow> canonical_path i = \<lparr>path = canonical_key i, separator_alt = []\<rparr>"
proof -
  have "is_component (CHR ''!'' # canonical_text i)" using canonical_chars[of separator i] by (auto simp: is_component_def)
  then show ?thesis by (simp add: canonical_path_def registerPath_eq parts_component toPath_def canonical_key_def)
qed

lemma canonical_path_facts:
  assumes "i \<noteq> []"
  shows "startsWith BAR (canonical_path i) = Ret False" "path_key (canonical_path i) = Ret (canonical_key i)"
    "setAltSeparator ''.'' (copy_path (canonical_path i)) = (canonical_path i)\<lparr>separator_alt := ''.''\<rparr>"
    "startsWith BAR ((canonical_path i)\<lparr>separator_alt := ''.''\<rparr>) = Ret False"
    "startsWith (registerPath ''!'') ((canonical_path i)\<lparr>separator_alt := ''.''\<rparr>) = Ret True"
    "path_key ((canonical_path i)\<lparr>separator_alt := ''.''\<rparr>) = Ret (canonical_key i)"
proof -
  have chars: "\<forall>c\<in>set (canonical_text i). c \<notin> {separator, CHR ''.''}" using canonical_chars by blast
  note e = canonical_path_eq[OF assms, unfolded canonical_key_def]
  let ?d = "(canonical_path i)\<lparr>separator_alt := ''.''\<rparr>"
  have p: "path (canonical_path i) = separator # CHR ''!'' # canonical_text i" "path ?d = separator # CHR ''!'' # canonical_text i"
    "separator_alt (canonical_path i) = []" "separator_alt ?d = ''.''" by (simp_all add: e)
  show k: "path_key (canonical_path i) = Ret (canonical_key i)" "path_key ?d = Ret (canonical_key i)"
    using bang_key(1)[OF p(1) _ chars] bang_key(1)[OF p(2) _ chars] p by (simp_all add: canonical_key_def)
  have "represents (canonical_path i) (parts (''!'' @ canonical_text i))"
    unfolding canonical_path_def by (rule represents_registerPath)
  then show "setAltSeparator ''.'' (copy_path (canonical_path i)) = ?d"
    using copy_represented by (simp add: setAltSeparator_def)
  have w: "toPath (parts (withSlashes CHR ''.'' (CHR ''!'' # canonical_text i))) = separator # CHR ''!'' # canonical_text i"
    using bang_path[OF chars] by (simp add: toPath_def)
  show "startsWith BAR (canonical_path i) = Ret False" "startsWith BAR ?d = Ret False"
    using startsWith_char[OF p(1), of "CHR ''#''"] startsWith_char[OF p(2), of "CHR ''#''"] p(1,3,4) w
    by (simp_all add: BAR_def numeral_2_eq_2)
  show "startsWith (registerPath ''!'') ?d = Ret True"
    using startsWith_char[OF p(2), of "CHR ''!''"] p(4) w by (simp add: numeral_2_eq_2)
qed

lemma na_add_interrupts:
  assumes "na_valid c" "proper_register r"
  shows "dom (canonicalInterrupts (snd (na_addRegister r c))) = dom (canonicalInterrupts c) \<union> canonical_key ` all_prefixes [r]"
    "listOfInterrupts (snd (na_addRegister r c)) = listOfInterrupts c \<union> (if registerAccess r = INTERRUPT then {interruptId r} else {})"
proof -
  obtain k where k: "path_key (pathName r) = Ret k"
    using ordinary_facts(1) assms(2) unfolding proper_register_def by blast
  have "canonicalInterrupts (snd (na_addRegister r c)) = canonicalInterrupts (with_interrupt r c)"
    "listOfInterrupts (snd (na_addRegister r c)) = listOfInterrupts (with_interrupt r c)"
    using na_add_eq[OF assms(2,1) k] by (simp_all split: prod.splits)
  then show "dom (canonicalInterrupts (snd (na_addRegister r c))) = dom (canonicalInterrupts c) \<union> canonical_key ` all_prefixes [r]"
    "listOfInterrupts (snd (na_addRegister r c)) = listOfInterrupts c \<union> (if registerAccess r = INTERRUPT then {interruptId r} else {})"
    using addInterrupt_keys[of "interruptId r" c] assms
    by (auto simp: with_interrupt_def all_prefixes_def na_valid_def proper_register_def)
qed

lemma na_add_all_interrupts:
  assumes "list_all proper_register rs"
  shows "dom (canonicalInterrupts (na_add_all rs)) = canonical_key ` all_prefixes rs \<and>
    listOfInterrupts (na_add_all rs) = {interruptId r |r. r \<in> set rs \<and> registerAccess r = INTERRUPT}"
  using assms
proof (induction rs rule: rev_induct)
  case Nil
  then show ?case by (simp add: na_add_all_def empty_na_catalogue_def all_prefixes_def)
next
  case (snoc r rs)
  have v: "na_valid (na_add_all rs)" using snoc.prems by (intro na_add_all_valid) simp
  have p: "proper_register r" using snoc.prems by simp
  have "na_add_all (rs @ [r]) = snd (na_addRegister r (na_add_all rs))" by (simp add: na_add_all_def)
  moreover have "all_prefixes (rs @ [r]) = all_prefixes rs \<union> all_prefixes [r]" by (auto simp: all_prefixes_def)
  ultimately show ?case using na_add_interrupts[OF v p] snoc by auto
qed

text \<open>
  C21: the canonical paths of a filled catalogue are those of the interrupts of its registers and of
  the interrupts above them, and each gives a void register with this interrupt.
\<close>

theorem canonical_interrupts_found:
  assumes "list_all proper_register rs" "i \<noteq> []"
  shows "na_hasRegister (canonical_path i) (na_add_all rs) = Ret (i \<in> all_prefixes rs) \<and>
    (if i \<in> all_prefixes rs
     then \<exists>q. na_getBackendRegister (canonical_path i) (na_add_all rs) = Ret q \<and> interruptId q = i \<and>
            registerAccess q = INTERRUPT \<and> getSupportedAccessModes q = {wait_for_new_data} \<and> nElements q = 0
     else \<exists>x. na_getBackendRegister (canonical_path i) (na_add_all rs) = Throw x)"
proof -
  let ?c = "na_add_all rs" and ?k = "canonical_key i"
  note f = canonical_path_facts[OF assms(2)]
  have v: "na_valid ?c" by (rule na_add_all_valid[OF assms(1)])
  have some: "canonicalInterrupts ?c ?k = Some j \<Longrightarrow> j = i" for j
    using v canonical_key_inj[OF assms(2)] unfolding na_valid_def canonical_map_def by metis
  have "j \<noteq> []" if "j \<in> all_prefixes rs" for j
    using that by (auto simp: all_prefixes_def prefixes_of_def split: if_splits)
  then have "?k \<in> canonical_key ` all_prefixes rs \<longleftrightarrow> i \<in> all_prefixes rs"
    using canonical_key_inj[OF assms(2)] by (metis image_iff)
  then have dom: "?k \<in> dom (canonicalInterrupts ?c) \<longleftrightarrow> i \<in> all_prefixes rs"
    using na_add_all_interrupts[OF assms(1)] by simp
  have "take 2 ?k = [separator, CHR ''!'']" by (simp add: canonical_key_def numeral_2_eq_2)
  then have "\<not> proper_key ?k" using ordinary_facts(6)[of "\<lparr>path = ?k, separator_alt = ''.''\<rparr>" ?k] unfolding proper_key_def by blast
  then have none: "\<not> bc_hasRegister ?k (base_catalogue ?c)" using v by (auto simp: na_valid_def bc_hasRegister_def)
  have H: "na_hasRegister (canonical_path i) ?c = Ret (i \<in> all_prefixes rs)"
    using f(1,2) dom none by (simp add: na_hasRegister_def dom_def)
  have get: "na_getBackendRegister (canonical_path i) ?c =
      (case canonicalInterrupts ?c ?k of None \<Rightarrow> Throw (LogicError ''Illegal canonical interrupt path'')
       | Some j \<Rightarrow> new_register_1D ((canonical_path i)\<lparr>separator_alt := ''.''\<rparr>) 0 0 0 0 0 0 False INTERRUPT VOID_TYPE j)"
    using f(3-6) by (simp add: na_getBackendRegister_def Let_def split: option.splits)
  show ?thesis
  proof (cases "i \<in> all_prefixes rs")
    case True
    then obtain j where j: "canonicalInterrupts ?c ?k = Some j" using dom by blast
    then have s: "canonicalInterrupts ?c ?k = Some i" using some by blast
    have "biggest [\<lparr>bitOffset = 0, dataType = VOID_TYPE, width = 0, nFractionalBits = 0, signedFlag = False\<rparr>] = (VOID_TYPE, 0, 0, False)"
      by (simp add: biggest_def widthSum_def)
    then have "\<exists>q. na_getBackendRegister (canonical_path i) ?c = Ret q \<and> interruptId q = i \<and>
        registerAccess q = INTERRUPT \<and> getSupportedAccessModes q = {wait_for_new_data} \<and> nElements q = 0"
      by (simp add: get s new_register_1D_def computeDataDescriptor_def raw_data_type_def getSupportedAccessModes_def)
    then show ?thesis using H True by simp
  next
    case False
    then have "canonicalInterrupts ?c ?k = None" using dom by blast
    then show ?thesis using H get False by simp
  qed
qed

theorem canonical_interrupts_found_witness:
  "\<exists>r q. interruptId r = [3, 5] \<and> na_getBackendRegister (registerPath ''!3'') (na_add_all [r]) = Ret q \<and> interruptId q = [3] \<and>
    na_hasRegister (registerPath ''!4'') (na_add_all [r]) = Ret False"
proof -
  define reg where "reg = \<lparr>reg_bar = 0, reg_address = 0, nElements = 1, elementPitchBits = 32, registerAccess = INTERRUPT,
     channels = [], rawTypes = [], pathName = registerPath ''IRQ'', interruptId = [3, 5], doubleBuffer = None,
     dataDescriptor = undefined_descriptor, hidden = False\<rparr>"
  have n: "registerPath ''IRQ'' = \<lparr>path = ''/IRQ'', separator_alt = []\<rparr>" by (simp add: registerPath_eq parts_def toPath_def)
  have "list_all is_component [''IRQ'']" "''/IRQ'' = toPath [''IRQ'']" by (simp_all add: is_component_def toPath_def)
  then have "normal_path (registerPath ''IRQ'')" unfolding n normal_path_def by (metis insertI1 register_path.simps(1,2))
  then have p: "list_all proper_register [reg]" using n by (simp add: proper_register_def ordinary_def reg_def)
  have "all_prefixes [reg] = {[3], [3, 5]}"
  proof -
    have "{0 <.. length [3 :: nat, 5]} = {1, 2}" by auto
    then have "prefixes_of [3, 5] = {[3], [3, 5]}" by (simp only: prefixes_of_def) simp
    then show ?thesis by (simp add: all_prefixes_def reg_def)
  qed
  moreover have "canonical_path [3] = registerPath ''!3''" "canonical_path [4] = registerPath ''!4''"
    by (simp_all add: canonical_path_def decimal_rec char_of_def bit_Suc_0_iff)
  ultimately have "\<exists>q. na_getBackendRegister (registerPath ''!3'') (na_add_all [reg]) = Ret q \<and> interruptId q = [3]"
      "na_hasRegister (registerPath ''!4'') (na_add_all [reg]) = Ret False"
    using canonical_interrupts_found[OF p, of "[3]"] canonical_interrupts_found[OF p, of "[4]"] by auto
  moreover have "interruptId reg = [3, 5]" by (simp add: reg_def)
  ultimately show ?thesis by blast
qed

end
