(* ===== verification/RegisterNames.thy ===== *)
theory RegisterNames
  imports RegisterCatalogues
begin

text \<open>
  Facts on the names of registers in maps and files, where a dot separates components like a slash.
\<close>

definition is_sep :: "char \<Rightarrow> bool" where
  "is_sep c = (c = separator \<or> c = CHR ''.'')"

lemma minPos_Suc: "minPos (map_option Suc a) (map_option Suc b) = map_option Suc (minPos a b)"
  by (cases a; cases b) (simp_all add: minPos_def)

lemma minPos_findFirst: "minPos (findFirst A s) (findFirst B s) = findFirst (A \<union> B) s"
proof (induction s)
  case (Cons c s)
  show ?case
  proof (cases "c \<in> A \<union> B")
    case True
    then show ?thesis by (auto simp: minPos_def split: option.splits)
  next
    case False
    then show ?thesis using minPos_Suc[of "findFirst A s" "findFirst B s"] Cons.IH by simp
  qed
qed (simp add: minPos_def)

lemma nextSeparator_dot:
  assumes "separator_alt p = ''.''"
  shows "nextSeparator p i = map_option ((+) i) (findFirst {separator, CHR ''.''} (drop i (path p)))"
proof -
  have m: "minPos (map_option ((+) i) a) (map_option ((+) i) b) = map_option ((+) i) (minPos a b)" for a b
    by (cases a; cases b) (simp_all add: minPos_def)
  have "minPos (findFirst {separator} (drop i (path p))) (findFirst {CHR ''.''} (drop i (path p))) = findFirst {separator, CHR ''.''} (drop i (path p))"
    using minPos_findFirst[of "{separator}" _ "{CHR ''.''}"] by (simp add: insert_commute Un_commute)
  then show ?thesis using assms m by (simp add: nextSeparator_def findFirstOf_def)
qed

lemma findFirst_split: "findFirst S s = Some i \<Longrightarrow> s = take i s @ (s ! i) # drop (i + 1) s \<and> s ! i \<in> S \<and> set (take i s) \<inter> S = {} \<and> i < length s"
  using findFirst_Some[of S s i] id_take_nth_drop[of i s] by simp

lemma componentsFrom_dot:
  assumes "path p = a @ c # s" "separator_alt p = ''.''"
  shows "componentsFrom p (length a) = splitOn is_sep s"
  using assms(1)
proof (induction "length s" arbitrary: a c s rule: less_induct)
  case less
  have d: "drop (length a + 1) (path p) = s" using less.prems by simp
  show ?case
  proof (cases "findFirst {separator, CHR ''.''} s")
    case None
    then have "\<forall>x\<in>set s. \<not> is_sep x" by (auto simp: findFirst_None is_sep_def)
    moreover have "nextSeparator p (length a + 1) = None" using nextSeparator_dot[OF assms(2)] d None by simp
    ultimately show ?thesis using d by (subst componentsFrom.simps) (simp add: splitOn_no_sep)
  next
    case (Some i)
    note f = findFirst_split[OF Some]
    have n: "nextSeparator p (length a + 1) = Some (length a + 1 + i)" using nextSeparator_dot[OF assms(2)] d Some by simp
    have p: "path p = (a @ c # take i s) @ s ! i # drop (i + 1) s" using less.prems f by (metis append.assoc append_Cons)
    have l: "length (a @ c # take i s) = length a + 1 + i" using f by simp
    have "i < length s" using f by blast
    then have "length (drop (i + 1) s) < length s" by simp
    from less.hyps[OF this p] have "componentsFrom p (length a + 1 + i) = splitOn is_sep (drop (i + 1) s)" using l by simp
    moreover have "splitOn is_sep s = take i s # splitOn is_sep (drop (i + 1) s)"
    proof -
      have "\<forall>x\<in>set (take i s). \<not> is_sep x" using f by (auto simp: is_sep_def)
      moreover have "is_sep (s ! i)" using f by (auto simp: is_sep_def)
      ultimately have "splitOn is_sep (take i s @ s ! i # drop (i + 1) s) = take i s # splitOn is_sep (drop (i + 1) s)"
        by (simp add: splitOn_append splitOn_no_sep)
      then show ?thesis using f by metis
    qed
    moreover have "substr (length a + 1) (length a + 1 + i - length a - 1) (path p) = take i s" using d by (simp add: substr_def)
    ultimately show ?thesis using n by (subst componentsFrom.simps) simp
  qed
qed

lemma getComponents_dot:
  assumes "path p = separator # s" "separator_alt p = ''.''"
  shows "getComponents p = (if s = [] then [] else splitOn is_sep s)"
  using componentsFrom_dot[of p "[]" separator s] assms by (cases s) (simp_all add: getComponents_def)

text \<open>A component of a name.\<close>

definition plain :: "string \<Rightarrow> bool" where
  "plain w = (w \<noteq> [] \<and> (\<forall>c\<in>set w. \<not> is_sep c))"

lemma plain_component: "plain w \<Longrightarrow> is_component w" "plain w \<Longrightarrow> CHR ''.'' \<notin> set w"
  by (auto simp: plain_def is_component_def is_sep_def)

lemma cutRight_dot:
  assumes "path p = separator # s" "separator_alt p = ''.''" "\<forall>c\<in>set w. \<not> is_sep c"
  shows "s = w \<Longrightarrow> cutRight p = p\<lparr>path := [separator]\<rparr>"
    "s = u @ x # w \<Longrightarrow> is_sep x \<Longrightarrow> cutRight p = p\<lparr>path := separator # u\<rparr>"
proof -
  have w: "set w \<inter> {separator} = {}" "set w \<inter> {CHR ''.''} = {}" using assms(3) by (auto simp: is_sep_def)
  { assume s: "s = w"
    have "findLastOf {separator} (path p) = Some 0" using findLastOf_last[OF singletonI w(1), of "[]"] assms(1) s by simp
    moreover have "findLastOf {CHR ''.''} (path p) = None"
      using w(2) assms(1) s by (simp add: findLastOf_def findFirst_None)
    ultimately show "cutRight p = p\<lparr>path := [separator]\<rparr>" using assms(2) by (simp add: cutRight_def lastSeparator_def) }
  { assume s: "s = u @ x # w" "is_sep x"
    let ?n = "length u + 1"
    have p: "path p = (separator # u) @ x # w" using assms(1) s by simp
    have le: "i \<le> ?n" if "findLastOf S (path p) = Some i" "set w \<inter> S = {}" for S i
    proof -
      have "findFirst S (rev (path p)) = map_option ((+) (length w)) (findFirst S ([x] @ rev u @ [separator]))"
        using findFirst_append(2)[of "rev w" S "[x] @ rev u @ [separator]"] that(2) by (simp add: p)
      moreover have "findFirst S (rev (path p)) \<noteq> None" using that(1) unfolding findLastOf_def by auto
      ultimately obtain j where "findFirst S (rev (path p)) = Some (length w + j)" by (metis option.exhaust_sel option.map_sel option.map_disc_iff)
      then have "i = length (path p) - 1 - (length w + j)" using that(1) by (simp add: findLastOf_def)
      then show ?thesis by (simp add: p)
    qed
    have some: "findLastOf {separator} (path p) \<noteq> None" unfolding p by (simp add: findLastOf_def findFirst_None)
    have "lastSeparator p = Some ?n"
    proof (cases "x = separator")
      case True
      then have f: "findLastOf {separator} (path p) = Some ?n" using findLastOf_last[OF singletonI w(1), of "separator # u"] p by simp
      then show ?thesis
      proof (cases "findLastOf {CHR ''.''} (path p)")
        case None
        then show ?thesis using f assms(2) by (simp add: lastSeparator_def)
      next
        case (Some i)
        then show ?thesis using f assms(2) le[OF Some w(2)] by (simp add: lastSeparator_def max_def)
      qed
    next
      case False
      then have "x = CHR ''.''" using s(2) by (simp add: is_sep_def)
      then have f: "findLastOf {CHR ''.''} (path p) = Some ?n" using findLastOf_last[OF singletonI w(2), of "separator # u"] p by simp
      obtain i where i: "findLastOf {separator} (path p) = Some i" using some by blast
      then show ?thesis using f assms(2) le[OF i w(1)] by (simp add: lastSeparator_def max_def)
    qed
    then show "cutRight p = p\<lparr>path := separator # u\<rparr>" using p by (simp add: cutRight_def substr_def) }
qed

text \<open>Names with one and with two components.\<close>

definition name1 :: "string \<Rightarrow> register_path" where
  "name1 w = \<lparr>path = separator # w, separator_alt = ''.''\<rparr>"

definition name2 :: "char \<Rightarrow> string \<Rightarrow> string \<Rightarrow> register_path" where
  "name2 x m w = \<lparr>path = separator # m @ x # w, separator_alt = ''.''\<rparr>"

lemma parts_dotted: "is_component (m @ CHR ''.'' # w) \<longleftrightarrow> separator \<notin> set m \<and> separator \<notin> set w"
  by (auto simp: is_component_def)

lemma plain_copy:
  assumes "plain w" "plain m" "is_sep x"
  shows "copy_path (name1 w) = name1 w" "copy_path (name2 x m w) = name2 x m w" "copy_path \<lparr>path = [separator], separator_alt = a\<rparr> = \<lparr>path = [separator], separator_alt = a\<rparr>"
proof -
  show "copy_path (name1 w) = name1 w"
    using parts_component[OF plain_component(1)[OF assms(1)]]
    by (simp add: copy_path_def normalised_path name1_def toPath_def)
  show "copy_path \<lparr>path = [separator], separator_alt = a\<rparr> = \<lparr>path = [separator], separator_alt = a\<rparr>"
    by (simp add: copy_path_def normalised_path toPath_def)
  show "copy_path (name2 x m w) = name2 x m w"
  proof (cases "x = separator")
    case True
    have "parts (m @ separator # w) = [m, w]"
      using parts_append[of m w] parts_component[OF plain_component(1)] assms(1,2) by simp
    then show ?thesis using True by (simp add: copy_path_def normalised_path name2_def toPath_def)
  next
    case False
    then have "is_component (m @ x # w)" using assms by (auto simp: is_sep_def is_component_def plain_def)
    then have "parts (m @ x # w) = [m @ x # w]" by (rule parts_component)
    then show ?thesis by (simp add: copy_path_def normalised_path name2_def toPath_def)
  qed
qed

lemma plain_registerPath:
  assumes "plain w" "plain m" "is_sep x"
  shows "setAltSeparator ''.'' (copy_path (registerPath w)) = name1 w" "setAltSeparator ''.'' (copy_path (registerPath (m @ x # w))) = name2 x m w"
proof -
  have r: "setAltSeparator ''.'' (copy_path (registerPath t)) = copy_path \<lparr>path = separator # t, separator_alt = ''.''\<rparr>" for t
  proof -
    have "copy_path (registerPath t) = registerPath t" by (rule copy_represented[OF represents_registerPath])
    then show ?thesis by (simp add: setAltSeparator_def registerPath_eq copy_path_def[of "\<lparr>path = separator # t, separator_alt = ''.''\<rparr>"] normalised_path)
  qed
  show "setAltSeparator ''.'' (copy_path (registerPath w)) = name1 w" using r plain_copy(1)[OF assms] by (simp add: name1_def)
  show "setAltSeparator ''.'' (copy_path (registerPath (m @ x # w))) = name2 x m w" using r plain_copy(2)[OF assms] by (simp add: name2_def)
qed

lemma plain_components:
  assumes "plain w" "plain m" "is_sep x"
  shows "getComponents (name1 w) = [w]" "getComponents (name2 x m w) = [m, w]" "cutRight (name1 w) = \<lparr>path = [separator], separator_alt = ''.''\<rparr>"
    "cutRight (name2 x m w) = name1 m"
proof -
  have s: "splitOn is_sep w = [w]" "splitOn is_sep m = [m]" "w \<noteq> []" "\<forall>c\<in>set w. \<not> is_sep c"
    using assms(1,2) by (auto simp: plain_def intro: splitOn_no_sep)
  show "getComponents (name1 w) = [w]" using getComponents_dot[of "name1 w" w] s by (simp add: name1_def)
  show "getComponents (name2 x m w) = [m, w]"
    using getComponents_dot[of "name2 x m w" "m @ x # w"] s splitOn_append[of is_sep x m w] assms(3) by (simp add: name2_def)
  show "cutRight (name1 w) = \<lparr>path = [separator], separator_alt = ''.''\<rparr>"
    using cutRight_dot(1)[of "name1 w" w w] s(4) by (simp add: name1_def)
  show "cutRight (name2 x m w) = name1 m"
    using cutRight_dot(2)[of "name2 x m w" "m @ x # w" w m x] s(4) assms(3) by (simp add: name1_def name2_def)
qed

lemma plain_keys:
  assumes "plain w" "plain m" "is_sep x"
  shows "path_key (name1 w) = Ret (separator # w)" "path_key (name2 x m w) = Ret (separator # m @ separator # w)"
    "map_key (name1 w) = separator # w" "map_key (name2 x m w) = separator # m @ separator # w"
proof -
  have w: "withSlashes CHR ''.'' w = w" "withSlashes CHR ''.'' m = m" "withSlashes CHR ''.'' (m @ x # w) = m @ separator # w"
  proof -
    have "withSlashes CHR ''.'' t = t" if "plain t" for t
      unfolding withSlashes_def using plain_component(2)[OF that] by (intro map_idI) metis
    then show "withSlashes CHR ''.'' w = w" "withSlashes CHR ''.'' m = m" using assms by blast+
    then show "withSlashes CHR ''.'' (m @ x # w) = m @ separator # w" using assms(3) by (auto simp: withSlashes_def is_sep_def)
  qed
  have p: "parts w = [w]" "parts (m @ separator # w) = [m, w]"
    using parts_component[OF plain_component(1)] parts_append[of m w] assms(1,2) by simp_all
  show k: "path_key (name1 w) = Ret (separator # w)" "path_key (name2 x m w) = Ret (separator # m @ separator # w)"
    using path_key_eq[of "name1 w" w] path_key_eq[of "name2 x m w" "m @ x # w"] w p by (simp_all add: name1_def name2_def toPath_def)
  show "map_key (name1 w) = separator # w" "map_key (name2 x m w) = separator # m @ separator # w"
    using k by (simp_all add: map_key_def)
qed

lemma plain_ordinary:
  assumes "plain w" "plain m" "is_sep x"
  shows "hd w \<notin> {CHR ''#'', CHR ''!''} \<Longrightarrow> ordinary (name1 w)" "hd m \<notin> {CHR ''#'', CHR ''!''} \<Longrightarrow> ordinary (name2 x m w)"
proof -
  have c: "hd t \<notin> {separator, CHR ''.''}" "t \<noteq> []" "t = hd t # tl t" if "plain t" for t
    using that by (auto simp: plain_def is_sep_def)
  have n1: "normal_path (name1 w)"
    using plain_component(1)[OF assms(1)] unfolding normal_path_def by (intro conjI exI[of _ "[w]"]) (simp_all add: name1_def toPath_def)
  have n2: "normal_path (name2 x m w)"
  proof (cases "x = separator")
    case True
    then show ?thesis using plain_component(1) assms unfolding normal_path_def
      by (intro conjI exI[of _ "[m, w]"]) (simp_all add: name2_def toPath_def)
  next
    case False
    then have "is_component (m @ x # w)" using assms by (auto simp: is_sep_def is_component_def plain_def)
    then show ?thesis unfolding normal_path_def by (intro conjI exI[of _ "[m @ x # w]"]) (simp_all add: name2_def toPath_def)
  qed
  show "hd w \<notin> {CHR ''#'', CHR ''!''} \<Longrightarrow> ordinary (name1 w)"
    unfolding ordinary_def using n1 c[OF assms(1)] by (intro conjI exI[of _ "hd w"] exI[of _ "tl w"]) (simp_all add: name1_def)
  show "hd m \<notin> {CHR ''#'', CHR ''!''} \<Longrightarrow> ordinary (name2 x m w)"
    unfolding ordinary_def using n2 c[OF assms(2)] by (intro conjI exI[of _ "hd m"] exI[of _ "tl m @ x # w"]) (simp_all add: name2_def)
qed

end
