(* ===== verification/MapFiles.thy ===== *)
theory MapFiles
  imports RegisterNames
begin

text \<open>
  The parser of map files of \<^verbatim>\<open>src/TraditionalMapFileParser.cc\<close>: the lines of a file are the
  parameter, the catalogue of registers and the meta data the result.
\<close>

section \<open>Lines\<close>

record parsed_line =
  pl_pathName :: register_path
  pl_nElements :: nat
  pl_address :: nat
  pl_nBytes :: nat
  pl_bar :: nat
  pl_width :: nat
  pl_nFractionalBits :: int
  pl_signedFlag :: bool
  pl_registerAccess :: register_access
  pl_type :: register_type
  pl_interruptID :: "nat list"

definition new_parsed_line :: "register_path \<Rightarrow> parsed_line" where
  "new_parsed_line p =
     \<lparr>pl_pathName = p, pl_nElements = 0, pl_address = 0, pl_nBytes = 0, pl_bar = 0, pl_width = 32, pl_nFractionalBits = 0,
      pl_signedFlag = True, pl_registerAccess = READ_WRITE, pl_type = FIXED_POINT, pl_interruptID = []\<rparr>"

definition parsing_error :: exn where
  "parsing_error = LogicError ''Parsing error in map file''"

text \<open>A standard exception is caught and replaced.\<close>

definition catch_std :: "'a outcome \<Rightarrow> string \<Rightarrow> 'a outcome" where
  "catch_std r message = (case r of Throw _ \<Rightarrow> Throw (LogicError message) | _ \<Rightarrow> r)"

definition getTypeAndNFractionalBits :: "string \<Rightarrow> nat \<Rightarrow> (register_type \<times> int) outcome" where
  "getTypeAndNFractionalBits bitInterpretation w =
     (if w = 0 then Ret (VOID_TYPE, 0)
      else if bitInterpretation = ''IEEE754'' then Ret (IEEE754, 0)
      else if bitInterpretation = ''ASCII'' then Ret (ASCII, 0)
      else bindO (catch_std (std_stoi 0 bitInterpretation) ''Map file error in bitInterpretation'') (\<lambda>nBits. Ret (FIXED_POINT, nBits)))"

lemma strFind_nonempty: "strFind (c # n) s = Some pos \<Longrightarrow> s \<noteq> []"
  by auto

text \<open>The numbers of an interrupt, separated by colons.\<close>

function interruptNumbers :: "string \<Rightarrow> nat list outcome" where
  "interruptNumbers s =
     (let delimiterPos = strFind '':'' s; number = (\<lambda>t. catch_std (std_stoul 0 t) ''Map file error in accessString'') in
      case delimiterPos of
        None \<Rightarrow> bindO (number s) (\<lambda>n. Ret [n])
      | Some pos \<Rightarrow> bindO (number (take pos s)) (\<lambda>n. bindO (interruptNumbers (drop (pos + 1) s)) (\<lambda>l. Ret (n # l))))"
  by pat_completeness auto

termination
  by (relation "measure length") (auto dest: strFind_nonempty[OF sym])

definition getInterruptId :: "string \<Rightarrow> nat list outcome" where
  "getInterruptId accessTypeStr =
     (case strFind ''INTERRUPT'' accessTypeStr of
        None \<Rightarrow> Ret []
      | Some pos \<Rightarrow> interruptNumbers (take pos accessTypeStr @ drop (pos + length ''INTERRUPT'') accessTypeStr))"

definition checkFileConsistency :: "parsed_line \<Rightarrow> parsed_line outcome" where
  "checkFileConsistency pl =
     (if pl_type pl = VOID_TYPE \<and> pl_registerAccess pl = READ_ONLY then
        Throw (LogicError ''Map file error. Register Type is VOID and access mode is READ only. '')
      else if pl_type pl = VOID_TYPE \<and> pl_registerAccess pl = INTERRUPT \<and>
          (pl_width pl \<noteq> 0 \<or> pl_nElements pl \<noteq> 0 \<or> pl_address pl \<noteq> 0 \<or> pl_nBytes pl \<noteq> 0 \<or> pl_bar pl \<noteq> 0 \<or>
           pl_nFractionalBits pl \<noteq> 0 \<or> pl_signedFlag pl) then
        Throw (LogicError ''Map file error. Register Type is VOID (width field set to 0). All other fields must be '0'.'')
      else Ret pl)"

definition toupper :: "char \<Rightarrow> char" where
  "toupper c = (if 97 \<le> char_code c \<and> char_code c \<le> 122 then char_of (char_code c - 32) else c)"

definition access_of_string :: "string \<Rightarrow> register_access outcome" where
  "access_of_string s =
     (if s = ''RO'' then Ret READ_ONLY else if s = ''RW'' then Ret READ_WRITE else if s = ''WO'' then Ret WRITE_ONLY
      else Throw parsing_error)"

text \<open>
  The optional fields in the order of the line.  Once reading one has failed, those after it keep their
  defaults.
\<close>

definition parse_width :: "parsed_line \<times> in_stream \<Rightarrow> (parsed_line \<times> in_stream) outcome" where
  "parse_width = (\<lambda>(pl, is).
     if failed is then Ret (pl, is)
     else
       (case read_unsigned 32 (pl_width pl) is of (w, is) \<Rightarrow>
          let pl = pl\<lparr>pl_width := w\<rparr> in
          if pl_nElements pl > 0 \<and> w > pl_nBytes pl div pl_nElements pl * 8 mod 2 ^ 64 then
            Throw (LogicError ''Parsing error in map file: register width too big'')
          else Ret (pl, is)))"

definition parse_interpretation :: "parsed_line \<times> in_stream \<Rightarrow> (parsed_line \<times> in_stream) outcome" where
  "parse_interpretation = (\<lambda>(pl, is).
     if failed is then Ret (pl, is)
     else
       (case read_word is of
          (None, is) \<Rightarrow> Ret (pl, is)
        | (Some bitInterpretation, is) \<Rightarrow>
            bindO (getTypeAndNFractionalBits bitInterpretation (pl_width pl)) (\<lambda>(t, n).
            if n > 1023 \<or> n < - 1024 then Throw (LogicError ''Parsing error in map file: too many fractional bits'')
            else Ret (pl\<lparr>pl_type := t, pl_nFractionalBits := n\<rparr>, is))))"

definition parse_signed :: "parsed_line \<times> in_stream \<Rightarrow> parsed_line \<times> in_stream" where
  "parse_signed = (\<lambda>(pl, is).
     if failed is then (pl, is) else (case read_bool (pl_signedFlag pl) is of (s, is) \<Rightarrow> (pl\<lparr>pl_signedFlag := s\<rparr>, is)))"

definition parse_access :: "parsed_line \<times> in_stream \<Rightarrow> parsed_line outcome" where
  "parse_access = (\<lambda>(pl, is).
     if failed is then Ret pl
     else
       (case read_word is of
          (None, is) \<Rightarrow> Ret pl
        | (Some accessString, is) \<Rightarrow>
            let accessString = map toupper accessString in
            bindO (getInterruptId accessString) (\<lambda>interruptId.
            if interruptId \<noteq> [] then Ret (pl\<lparr>pl_registerAccess := INTERRUPT, pl_interruptID := interruptId\<rparr>)
            else bindO (access_of_string accessString) (\<lambda>a. Ret (pl\<lparr>pl_registerAccess := a\<rparr>)))))"

definition parseLine :: "string \<Rightarrow> parsed_line outcome" where
  "parseLine line =
     (case read_word (open_stream line) of (name, is) \<Rightarrow>
      case read_unsigned 64 0 is of (n, is) \<Rightarrow>
      case read_unsigned 64 0 is of (a, is) \<Rightarrow>
      case read_unsigned 64 0 is of (b, is) \<Rightarrow>
      if failed is then Throw parsing_error
      else
        let pl = (new_parsed_line (setAltSeparator ''.'' (copy_path (registerPath (case name of Some s \<Rightarrow> s | None \<Rightarrow> [])))))
              \<lparr>pl_nElements := n, pl_address := a, pl_nBytes := b\<rparr>
        in case read_unsigned 64 (pl_bar pl) is of (bar, is) \<Rightarrow>
           bindO (parse_width (pl\<lparr>pl_bar := bar\<rparr>, is)) (\<lambda>r.
           bindO (parse_interpretation r) (\<lambda>r.
           bindO (parse_access (parse_signed r)) checkFileConsistency)))"

definition parseMetaData :: "string \<Rightarrow> metadata_catalogue \<Rightarrow> metadata_catalogue outcome" where
  "parseMetaData line m =
     (let line = dropWhile is_space (drop 1 line) in
      case read_word (open_stream line) of
        (None, _) \<Rightarrow> Throw parsing_error
      | (Some name, _) \<Rightarrow> Ret (addMetadata name (filter (\<lambda>c. \<not> is_space c) (drop (length name) line)) m))"

section \<open>Kinds of registers\<close>

definition MULTIPLEXED_SEQUENCE_PREFIX :: string where
  "MULTIPLEXED_SEQUENCE_PREFIX = ''AREA_MULTIPLEXED_SEQUENCE_''"

definition SEQUENCE_PREFIX :: string where
  "SEQUENCE_PREFIX = ''SEQUENCE_''"

definition MEM_MULTIPLEXED_PREFIX :: string where
  "MEM_MULTIPLEXED_PREFIX = ''MEM_MULTIPLEXED_''"

text \<open>The last component of a path without components does not exist.\<close>

definition splitStringAtLastDot :: "register_path \<Rightarrow> (register_path \<times> string) outcome" where
  "splitStringAtLastDot moduleDotName =
     (let moduleDotName = setAltSeparator ''.'' (copy_path moduleDotName); components = getComponents moduleDotName in
      if components = [] then Terminated else Ret (copy_path (cutRight moduleDotName), last components))"

definition is2DNewStyle :: "register_path \<Rightarrow> bool" where
  "is2DNewStyle p =
     (let components = getComponents (setAltSeparator ''.'' (copy_path p)) in
      length components = 2 \<and> prefix MEM_MULTIPLEXED_PREFIX (components ! 1))"

definition isScalarOr1D :: "register_path \<Rightarrow> bool outcome" where
  "isScalarOr1D p = bindO (splitStringAtLastDot p) (\<lambda>(module, name).
     Ret (\<not> prefix MULTIPLEXED_SEQUENCE_PREFIX name \<and> \<not> prefix SEQUENCE_PREFIX name \<and>
       \<not> prefix MEM_MULTIPLEXED_PREFIX name \<and> \<not> is2DNewStyle module))"

definition is2D :: "register_path \<Rightarrow> bool outcome" where
  "is2D p = bindO (splitStringAtLastDot p) (\<lambda>(module, name). Ret (prefix MULTIPLEXED_SEQUENCE_PREFIX name))"

definition makeSequenceName :: "register_path \<Rightarrow> nat \<Rightarrow> register_path outcome" where
  "makeSequenceName p i = bindO (splitStringAtLastDot p) (\<lambda>(module, name).
     if \<not> prefix MULTIPLEXED_SEQUENCE_PREFIX name then Terminated
     else
       let name = drop (length MULTIPLEXED_SEQUENCE_PREFIX) name in
       bindO (path_slash module (registerPath (SEQUENCE_PREFIX @ name @ ''_'' @ decimal i)))
         (\<lambda>r. Ret (setAltSeparator ''.'' r)))"

definition make2DName :: "register_path \<Rightarrow> string \<Rightarrow> register_path outcome" where
  "make2DName p pre = bindO (splitStringAtLastDot p) (\<lambda>(module, name).
     if \<not> prefix pre name then Terminated
     else bindO (path_slash module (registerPath (drop (length pre) name))) (\<lambda>r. Ret (setAltSeparator ''.'' r)))"

section \<open>The catalogue\<close>

type_synonym lines_map = "(string \<times> parsed_line) list"

text \<open>\<open>_parsedLinesMap\<close>, in the order of its keys: \<open>emplace\<close> keeps an element that is there already.\<close>

definition emplace :: "string \<Rightarrow> parsed_line \<Rightarrow> lines_map \<Rightarrow> lines_map" where
  "emplace k pl m =
     (if k \<in> fst ` set m then m
      else takeWhile (\<lambda>e. str_less (fst e) k) m @ (k, pl) # dropWhile (\<lambda>e. str_less (fst e) k) m)"

definition make_lines_map :: "parsed_line list \<Rightarrow> lines_map" where
  "make_lines_map pls = fold (\<lambda>pl m. emplace (map_key (pl_pathName pl)) pl m) pls []"

text \<open>The functions that add registers: \<open>bindAdd\<close> goes on when adding has returned.\<close>

definition bindAdd :: "unit outcome \<times> na_catalogue \<Rightarrow> (na_catalogue \<Rightarrow> 'b outcome) \<Rightarrow> 'b outcome" where
  "bindAdd r f = (case r of (res, c) \<Rightarrow> bindO res (\<lambda>_. f c))"

definition channel_of_line :: "parsed_line \<Rightarrow> parsed_line \<Rightarrow> channel_info" where
  "channel_of_line pl channel =
     \<lparr>bitOffset = nat ((int (pl_address channel) - int (pl_address pl)) mod 2 ^ 32) * 8 mod 2 ^ 32, dataType = pl_type channel,
      width = pl_width channel, nFractionalBits = pl_nFractionalBits channel, signedFlag = pl_signedFlag channel\<rparr>"

definition limitWidth :: "nat \<Rightarrow> channel_info \<Rightarrow> channel_info" where
  "limitWidth actualWidth c = (if width c > actualWidth then c\<lparr>width := actualWidth mod 2 ^ 32\<rparr> else c)"

text \<open>The widths end where the next channel starts; the differences wrap at the width of their type.\<close>

fun limitWidths :: "nat \<Rightarrow> channel_info list \<Rightarrow> channel_info list" where
  "limitWidths bytesPerBlock (c # d # cs) =
     limitWidth (nat ((int (bitOffset d) - int (bitOffset c)) mod 2 ^ 32)) c # limitWidths bytesPerBlock (d # cs)"
| "limitWidths bytesPerBlock [c] = [limitWidth (nat ((int bytesPerBlock * 8 - int (bitOffset c)) mod 2 ^ 64)) c]"
| "limitWidths bytesPerBlock [] = []"

definition make2DRegisterInfos :: "parsed_line \<Rightarrow> parsed_line list \<Rightarrow> string \<Rightarrow> na_catalogue \<Rightarrow> na_catalogue outcome" where
  "make2DRegisterInfos pl channelLines pre c =
     (if channelLines = [] then Throw (LogicError ''No sequences found for register'')
      else if \<exists>l\<in>set channelLines. pl_nBytes l \<notin> {1, 2, 4, 8} then
        Throw (LogicError ''Sequence word size must correspond to a primitive type'')
      else
        let bytesPerBlock = sum_list (map pl_nBytes channelLines);
            cs = limitWidths bytesPerBlock (map (channel_of_line pl) channelLines);
            types = map (\<lambda>l. data_type_of_string (''int'' @ decimal (pl_nBytes l * 8))) channelLines;
            nBlocks = pl_nBytes pl div bytesPerBlock
        in bindO (make2DName (pl_pathName pl) pre) (\<lambda>name2D.
           bindO (new_register_2D name2D (pl_bar pl) (pl_address pl) nBlocks (bytesPerBlock * 8) cs types
             (pl_registerAccess pl) (pl_interruptID pl)) (\<lambda>registerInfo.
           bindAdd (na_addRegister registerInfo c) (\<lambda>c.
           if pl_nBytes pl = 0 \<or> pl_nElements pl = 0 then Throw (LogicError ''nBytes and nElements cannot be zero'')
           else if pl_nBytes pl mod 4 \<noteq> 0 then Terminated
           else
             let wide = pl_nBytes pl div pl_nElements pl = 8; regSize = (if wide then 8 else 4); w = (if wide then 64 else 32)
             in bindO (new_register_1D (path_plus name2D ''.MULTIPLEXED_RAW'') (pl_nBytes pl div regSize) (pl_address pl)
                  (pl_nBytes pl) (pl_bar pl) w 0 True (pl_registerAccess pl) FIXED_POINT (pl_interruptID pl))
                  (\<lambda>r. bindAdd (na_addRegister r c) Ret)))))"

text \<open>\<open>handle2D\<close> looks for channels with consecutive numbers; a map has no more channels than elements.\<close>

fun sequenceLines :: "nat \<Rightarrow> parsed_line \<Rightarrow> lines_map \<Rightarrow> parsed_line list \<Rightarrow> parsed_line list outcome" where
  "sequenceLines 0 pl m found = NoReturn"
| "sequenceLines (Suc fuel) pl m found =
     bindO (makeSequenceName (pl_pathName pl) (length found)) (\<lambda>name.
     case map_of m (map_key name) of
       None \<Rightarrow> Ret found
     | Some l \<Rightarrow>
         if pl_address l < pl_address pl then
           Throw (LogicError ''Start address of channel smaller than 2D register start address'')
         else sequenceLines fuel pl m (found @ [l]))"

definition handle2D :: "parsed_line \<Rightarrow> lines_map \<Rightarrow> na_catalogue \<Rightarrow> na_catalogue outcome" where
  "handle2D pl m c =
     bindO (sequenceLines (length m + 1) pl m []) (\<lambda>channelLines.
     make2DRegisterInfos pl channelLines MULTIPLEXED_SEQUENCE_PREFIX c)"

primrec collectChannels :: "parsed_line \<Rightarrow> lines_map \<Rightarrow> parsed_line list outcome" where
  "collectChannels pl [] = Ret []"
| "collectChannels pl (e # m) =
     (let l = snd e in bindO (startsWith (pl_pathName pl) (pl_pathName l)) (\<lambda>inside.
     if inside \<and> path_length (pl_pathName pl) < path_length (pl_pathName l) then
       if pl_address l < pl_address pl then
         Throw (LogicError ''Start address of channel smaller than 2D register start address'')
       else bindO (collectChannels pl m) (\<lambda>ls. Ret (l # ls))
     else collectChannels pl m))"

definition handle2DNewStyle :: "parsed_line \<Rightarrow> lines_map \<Rightarrow> na_catalogue \<Rightarrow> na_catalogue outcome" where
  "handle2DNewStyle pl m c =
     bindO (collectChannels pl m) (\<lambda>channelLines.
     make2DRegisterInfos pl (sort_key pl_address channelLines) MEM_MULTIPLEXED_PREFIX c)"

definition register_of_line :: "parsed_line \<Rightarrow> register_info outcome" where
  "register_of_line pl =
     new_register_1D (pl_pathName pl) (pl_nElements pl) (pl_address pl) (pl_nBytes pl) (pl_bar pl) (pl_width pl)
       (pl_nFractionalBits pl) (pl_signedFlag pl) (pl_registerAccess pl) (pl_type pl) (pl_interruptID pl)"

definition addLine :: "lines_map \<Rightarrow> parsed_line \<Rightarrow> na_catalogue \<Rightarrow> na_catalogue outcome" where
  "addLine m pl c =
     bindO (isScalarOr1D (pl_pathName pl)) (\<lambda>scalar.
     if scalar then bindO (register_of_line pl) (\<lambda>r. bindAdd (na_addRegister r c) Ret)
     else bindO (is2D (pl_pathName pl)) (\<lambda>area.
       if area then handle2D pl m c
       else if is2DNewStyle (pl_pathName pl) then handle2DNewStyle pl m c
       else Ret c))"

section \<open>The file\<close>

text \<open>What is left of a line without the white space in front and the comment.\<close>

definition strip_line :: "string \<Rightarrow> string" where
  "strip_line line = takeWhile (\<lambda>c. c \<noteq> CHR ''#'') (dropWhile is_space line)"

fun parseLines :: "string list \<Rightarrow> parsed_line list \<Rightarrow> metadata_catalogue \<Rightarrow> (parsed_line list \<times> metadata_catalogue) outcome" where
  "parseLines [] pls md = Ret (pls, md)"
| "parseLines (line # lines) pls md =
     (let line = strip_line line in
      if line = [] then parseLines lines pls md
      else if hd line = CHR ''@'' then bindO (parseMetaData line md) (\<lambda>md. parseLines lines pls md)
      else bindO (parseLine line) (\<lambda>pl. parseLines lines (pls @ [pl]) md))"

fun addLines :: "lines_map \<Rightarrow> parsed_line list \<Rightarrow> na_catalogue \<Rightarrow> na_catalogue outcome" where
  "addLines m [] c = Ret c"
| "addLines m (pl # pls) c = bindO (addLine m pl c) (\<lambda>c. addLines m pls c)"

definition map_parse :: "string list \<Rightarrow> (na_catalogue \<times> metadata_catalogue) outcome" where
  "map_parse lines =
     bindO (parseLines lines [] []) (\<lambda>(pls, md).
     bindO (addLines (make_lines_map pls) pls empty_na_catalogue) (\<lambda>c. Ret (c, md)))"

text \<open>\<open>MapFileParser::parse\<close>: \<open>file\<close> is \<open>None\<close> if it cannot be opened, \<open>json\<close> the parser of JSON map files.\<close>

definition mapFile_parse ::
  "(string list \<Rightarrow> (na_catalogue \<times> metadata_catalogue) outcome) \<Rightarrow> string \<Rightarrow> string list option \<Rightarrow>
     (na_catalogue \<times> metadata_catalogue) outcome" where
  "mapFile_parse json fileName file =
     (case file of
        None \<Rightarrow> Throw (LogicError (''Cannot open file '' @ fileName))
      | Some lines \<Rightarrow> if suffix ''.jmap'' fileName then json lines else map_parse lines)"

section \<open>Printed lines\<close>

definition print_interpretation :: "parsed_line \<Rightarrow> string" where
  "print_interpretation pl =
     (case pl_type pl of IEEE754 \<Rightarrow> ''IEEE754'' | ASCII \<Rightarrow> ''ASCII'' | _ \<Rightarrow> to_string (pl_nFractionalBits pl))"

definition print_access :: "parsed_line \<Rightarrow> string" where
  "print_access pl =
     (case pl_registerAccess pl of READ_ONLY \<Rightarrow> ''RO'' | WRITE_ONLY \<Rightarrow> ''WO'' | READ_WRITE \<Rightarrow> ''RW''
      | INTERRUPT \<Rightarrow> ''INTERRUPT'' @ canonical_text (pl_interruptID pl))"

definition print_line :: "string \<Rightarrow> parsed_line \<Rightarrow> string" where
  "print_line name pl =
     name @ '' '' @ decimal (pl_nElements pl) @ '' '' @ decimal (pl_address pl) @ '' '' @ decimal (pl_nBytes pl) @ '' '' @
     decimal (pl_bar pl) @ '' '' @ decimal (pl_width pl) @ '' '' @ print_interpretation pl @ '' '' @
     decimal (of_bool (pl_signedFlag pl)) @ '' '' @ print_access pl"

text \<open>The lines that the parser accepts.\<close>

definition valid_line :: "parsed_line \<Rightarrow> bool" where
  "valid_line pl =
     (pl_nElements pl < 2 ^ 64 \<and> pl_address pl < 2 ^ 64 \<and> pl_nBytes pl < 2 ^ 64 \<and> pl_bar pl < 2 ^ 64 \<and> pl_width pl < 2 ^ 32 \<and>
      (pl_nElements pl > 0 \<longrightarrow> pl_width pl \<le> pl_nBytes pl div pl_nElements pl * 8 mod 2 ^ 64) \<and>
      (pl_width pl = 0 \<longleftrightarrow> pl_type pl = VOID_TYPE) \<and>
      (if pl_type pl = FIXED_POINT then - 1024 \<le> pl_nFractionalBits pl \<and> pl_nFractionalBits pl \<le> 1023 else pl_nFractionalBits pl = 0) \<and>
      (pl_registerAccess pl = INTERRUPT \<longleftrightarrow> pl_interruptID pl \<noteq> []) \<and> (\<forall>i\<in>set (pl_interruptID pl). i < 2 ^ 64) \<and>
      checkFileConsistency pl = Ret pl)"

lemma decimal_word: "is_word (decimal n)"
  using decimal_is_decimal[of n] digit_char(2) by (auto simp: is_word_def is_decimal_def)

lemma to_string_word: "is_word (to_string i)"
  using decimal_word by (auto simp: to_string_def is_word_def is_space_def)

lemma canonical_text_chars: "c \<in> set (canonical_text i) \<Longrightarrow> c = CHR '':'' \<or> is_digit_of 10 c"
  by (cases i) (auto dest: decimal_chars split: if_splits)

lemma digit_or_colon: "c = CHR '':'' \<or> is_digit_of 10 c \<Longrightarrow> \<not> is_space c \<and> c \<noteq> CHR ''#'' \<and> toupper c = c \<and> c \<noteq> CHR ''I''"
  by (auto simp: is_digit_of_def digit_value_def char_code_def is_space_def toupper_def split: if_splits)

lemma print_words:
  "is_word (print_interpretation pl)" "is_word (print_access pl)" "CHR ''#'' \<notin> set (print_access pl)" "CHR ''#'' \<notin> set (print_interpretation pl)"
proof -
  show "is_word (print_interpretation pl)"
    using to_string_word by (simp add: print_interpretation_def is_word_def is_space_def split: register_type.splits)
  have c: "\<not> is_space c \<and> c \<noteq> CHR ''#''" if "c \<in> set (canonical_text i)" for c i
    using digit_or_colon[OF canonical_text_chars[OF that]] by blast
  show "is_word (print_access pl)" "CHR ''#'' \<notin> set (print_access pl)"
    using c by (auto simp: print_access_def is_word_def is_space_def split: register_access.splits)
  have "CHR ''#'' \<notin> set (to_string i)" for i using decimal_not[of "CHR ''#''"] by (auto simp: to_string_def)
  then show "CHR ''#'' \<notin> set (print_interpretation pl)"
    by (simp add: print_interpretation_def split: register_type.splits)
qed

lemma interruptNumbers_text:
  "i \<noteq> [] \<Longrightarrow> \<forall>n\<in>set i. n < 2 ^ 64 \<Longrightarrow> interruptNumbers (canonical_text i) = Ret i"
proof (induction i)
  case (Cons n "is")
  have d: "std_stoul 0 (decimal n) = Ret n" using std_stoul_decimal[of 0 "[]" n] Cons.prems(2) by (simp add: ends_number_def)
  have f: "set (decimal n) \<inter> {CHR '':''} = {}" using decimal_not[of "CHR '':''" n] by auto
  show ?case
  proof (cases "is")
    case Nil
    have "findFirst {CHR '':''} (decimal n) = None" using f by (simp add: findFirst_None)
    then show ?thesis using d Nil by (simp add: interruptNumbers.simps[of "decimal n"] strFind_single catch_std_def)
  next
    case (Cons m ms)
    let ?s = "decimal n @ CHR '':'' # canonical_text is"
    have "findFirst {CHR '':''} ?s = Some (length (decimal n))" using findFirst_append(2)[OF f] by simp
    moreover have "interruptNumbers (canonical_text is) = Ret is" using Cons.IH Cons.prems Cons by simp
    moreover have "canonical_text (n # is) = ?s" using Cons by simp
    ultimately show ?thesis using d by (simp add: interruptNumbers.simps[of ?s] strFind_single catch_std_def del: canonical_text.simps)
  qed
qed simp

lemma access_read:
  assumes "valid_line pl" "pl' = pl\<lparr>pl_registerAccess := READ_WRITE, pl_interruptID := []\<rparr>"
    "is_word (print_access pl)" "\<forall>c\<in>set sp. is_space c"
  shows "parse_access (pl', before (CHR '' '' # print_access pl @ sp)) = Ret pl"
proof -
  have sp: "sp = [] \<or> is_space (hd sp)" using assms(4) by (cases sp) auto
  have "is_space (CHR '' '')" by (simp add: is_space_def)
  then have r: "read_word (before (CHR '' '' # print_access pl @ sp)) = (Some (print_access pl), before sp)"
    using read_word_before[OF assms(3) sp, of "'' ''"] by simp
  let ?i = "pl_interruptID pl"
  have up: "map toupper (canonical_text ?i) = canonical_text ?i"
    using digit_or_colon[OF canonical_text_chars] by (intro map_idI) blast
  show ?thesis
  proof (cases "pl_registerAccess pl")
    case INTERRUPT
    then have i: "?i \<noteq> []" "\<forall>n\<in>set ?i. n < 2 ^ 64" using assms(1) by (auto simp: valid_line_def)
    have "map toupper ''INTERRUPT'' = ''INTERRUPT''" by (simp add: toupper_def char_code_def)
    then have "map toupper (print_access pl) = ''INTERRUPT'' @ canonical_text ?i"
      using INTERRUPT up by (simp only: print_access_def register_access.case map_append)
    moreover have "strFind ''INTERRUPT'' (''INTERRUPT'' @ canonical_text ?i) = Some 0" by simp
    ultimately show ?thesis using r interruptNumbers_text[OF i] INTERRUPT i assms(2)
      by (simp add: parse_access_def getInterruptId_def before_def Let_def)
  qed (use assms(1,2) r in \<open>simp_all add: print_access_def parse_access_def toupper_def char_code_def getInterruptId_def before_def
        access_of_string_def valid_line_def\<close>)
qed

lemma interpretation_read:
  assumes "valid_line pl" shows "getTypeAndNFractionalBits (print_interpretation pl) (pl_width pl) = Ret (pl_type pl, pl_nFractionalBits pl)"
proof (cases "pl_type pl")
  case FIXED_POINT
  have n: "- 1024 \<le> pl_nFractionalBits pl" "pl_nFractionalBits pl \<le> 1023" "pl_width pl \<noteq> 0"
    using assms FIXED_POINT by (simp_all add: valid_line_def)
  have w: "to_string i \<noteq> ''IEEE754'' \<and> to_string i \<noteq> ''ASCII''" for i
  proof -
    have "CHR ''I'' \<notin> set (to_string i)"
      using decimal_chars[of "CHR ''I''"] by (auto simp: to_string_def is_digit_of_def digit_value_def char_code_def)
    then have "to_string i \<noteq> x" if "CHR ''I'' \<in> set x" for x using that by metis
    then show ?thesis by simp
  qed
  have "std_stoi 0 (to_string (pl_nFractionalBits pl)) = Ret (pl_nFractionalBits pl)"
    using n by (intro std_stoi_to_string) simp_all
  then show ?thesis using n(3) w FIXED_POINT by (simp add: getTypeAndNFractionalBits_def print_interpretation_def catch_std_def)
qed (use assms in \<open>simp_all add: valid_line_def getTypeAndNFractionalBits_def print_interpretation_def\<close>)

lemma parseLine_printed:
  assumes "valid_line pl" "is_word name" "pl_pathName pl = setAltSeparator ''.'' (copy_path (registerPath name))" "\<forall>c\<in>set sp. is_space c"
  shows "parseLine (print_line name pl @ sp) = Ret pl"
proof -
  have blank: "\<forall>c\<in>set '' ''. is_space c" by (simp add: is_space_def)
  define r7 where "r7 = '' '' @ print_access pl @ sp"
  define r6 where "r6 = '' '' @ decimal (of_bool (pl_signedFlag pl)) @ r7"
  define r5 where "r5 = '' '' @ print_interpretation pl @ r6"
  define r4 where "r4 = '' '' @ decimal (pl_width pl) @ r5"
  define r3 where "r3 = '' '' @ decimal (pl_bar pl) @ r4"
  define r2 where "r2 = '' '' @ decimal (pl_nBytes pl) @ r3"
  define r1 where "r1 = '' '' @ decimal (pl_address pl) @ r2"
  define r0 where "r0 = '' '' @ decimal (pl_nElements pl) @ r1"
  have sp: "r = [] \<or> is_space (hd r)" if "r \<in> {r0, r1, r2, r3, r4, r5, r6, r7}" for r
    using that by (auto simp: r0_def r1_def r2_def r3_def r4_def r5_def r6_def r7_def is_space_def)
  have name: "name \<noteq> []" using assms(2) by (simp add: is_word_def)
  have "print_line name pl @ sp = name @ r0"
    by (simp add: print_line_def r0_def r1_def r2_def r3_def r4_def r5_def r6_def r7_def)
  then have "open_stream (print_line name pl @ sp) = before ([] @ name @ r0)"
    using name by (simp add: open_stream_def before_def)
  then have s0: "read_word (open_stream (print_line name pl @ sp)) = (Some name, before r0)"
    using read_word_before[OF assms(2) sp[of r0], of "[]"] by simp
  have v: "pl_nElements pl < 2 ^ 64" "pl_address pl < 2 ^ 64" "pl_nBytes pl < 2 ^ 64" "pl_bar pl < 2 ^ 64" "pl_width pl < 2 ^ 32"
    using assms(1) by (simp_all add: valid_line_def)
  have s1: "read_unsigned 64 old (before r0) = (pl_nElements pl, before r1)"
      "read_unsigned 64 old (before r1) = (pl_address pl, before r2)"
      "read_unsigned 64 old (before r2) = (pl_nBytes pl, before r3)"
      "read_unsigned 64 old (before r3) = (pl_bar pl, before r4)"
      "read_unsigned 32 old (before r4) = (pl_width pl, before r5)" for old
    using read_unsigned_before[OF sp[of r1] blank v(1)] read_unsigned_before[OF sp[of r2] blank v(2)] read_unsigned_before[OF sp[of r3] blank v(3)]
      read_unsigned_before[OF sp[of r4] blank v(4)] read_unsigned_before[OF sp[of r5] blank v(5)]
    by (simp_all add: r0_def r1_def r2_def r3_def r4_def)
  have s5: "read_word (before r5) = (Some (print_interpretation pl), before r6)"
    using read_word_before[OF print_words(1) sp[of r6] blank] by (simp add: r5_def)
  have s6: "read_bool old (before r6) = (pl_signedFlag pl, before r7)" for old
    using read_bool_before[OF sp[of r7] blank] by (simp add: r6_def)
  have ok: "\<not> failed (before r)" for r by (simp add: before_def)
  let ?pl = "(new_parsed_line (pl_pathName pl))\<lparr>pl_nElements := pl_nElements pl, pl_address := pl_address pl, pl_nBytes := pl_nBytes pl,
     pl_bar := pl_bar pl\<rparr>"
  have w: "parse_width (?pl, before r4) = Ret (?pl\<lparr>pl_width := pl_width pl\<rparr>, before r5)"
    using s1(5) assms(1) ok by (auto simp: parse_width_def new_parsed_line_def valid_line_def)
  have "- 1024 \<le> pl_nFractionalBits pl \<and> pl_nFractionalBits pl \<le> 1023"
    using assms(1) by (simp add: valid_line_def split: if_splits)
  then have i: "parse_interpretation (?pl\<lparr>pl_width := pl_width pl\<rparr>, before r5) =
      Ret (?pl\<lparr>pl_width := pl_width pl, pl_type := pl_type pl, pl_nFractionalBits := pl_nFractionalBits pl\<rparr>, before r6)"
    using s5 interpretation_read[OF assms(1)] ok by (simp add: parse_interpretation_def)
  have g: "parse_signed (?pl\<lparr>pl_width := pl_width pl, pl_type := pl_type pl, pl_nFractionalBits := pl_nFractionalBits pl\<rparr>, before r6) =
      (pl\<lparr>pl_registerAccess := READ_WRITE, pl_interruptID := []\<rparr>, before r7)"
    using s6 ok by (simp add: parse_signed_def new_parsed_line_def)
  have a: "parse_access (pl\<lparr>pl_registerAccess := READ_WRITE, pl_interruptID := []\<rparr>, before r7) = Ret pl"
    using access_read[OF assms(1) refl print_words(2) assms(4)] by (simp add: r7_def)
  have "checkFileConsistency pl = Ret pl" using assms(1) by (simp add: valid_line_def)
  then show ?thesis using s0 s1(1-4) w i g a ok assms(3) by (simp add: parseLine_def Let_def new_parsed_line_def)
qed

section \<open>Files of one-dimensional registers\<close>

text \<open>A line of a file: a register, meta data or nothing, with white space and a comment around it.\<close>

datatype file_entry = RegisterEntry string parsed_line | MetaEntry string string | EmptyEntry

fun entry_text :: "file_entry \<Rightarrow> string" where
  "entry_text (RegisterEntry name pl) = print_line name pl"
| "entry_text (MetaEntry name value) = ''@'' @ name @ value"
| "entry_text EmptyEntry = []"

fun valid_entry :: "file_entry \<Rightarrow> bool" where
  "valid_entry (RegisterEntry name pl) =
     (is_word name \<and> CHR ''#'' \<notin> set name \<and> hd name \<noteq> CHR ''@'' \<and> valid_line pl \<and>
      pl_pathName pl = setAltSeparator ''.'' (copy_path (registerPath name)))"
| "valid_entry (MetaEntry name value) =
     (is_word name \<and> CHR ''#'' \<notin> set (name @ value) \<and> (value = [] \<or> is_space (hd value)))"
| "valid_entry EmptyEntry = True"

definition is_comment :: "string \<Rightarrow> bool" where
  "is_comment s = (s = [] \<or> hd s = CHR ''#'')"

definition entry_line :: "file_entry \<Rightarrow> string \<Rightarrow> bool" where
  "entry_line e line = (\<exists>ind sp com. line = ind @ entry_text e @ sp @ com \<and> (\<forall>c\<in>set ind. is_space c) \<and>
     (\<forall>c\<in>set sp. is_space c) \<and> is_comment com \<and> (e = EmptyEntry \<longrightarrow> sp = []))"

definition lines_of_entries :: "file_entry list \<Rightarrow> parsed_line list" where
  "lines_of_entries es = concat (map (\<lambda>e. case e of RegisterEntry name pl \<Rightarrow> [pl] | _ \<Rightarrow> []) es)"

definition metadata_of_entries :: "file_entry list \<Rightarrow> metadata_catalogue \<Rightarrow> metadata_catalogue" where
  "metadata_of_entries es md =
     fold (\<lambda>e. case e of MetaEntry name value \<Rightarrow> addMetadata name (filter (\<lambda>c. \<not> is_space c) value) | _ \<Rightarrow> id) es md"

lemma print_line_facts:
  assumes "is_word name" "CHR ''#'' \<notin> set name"
  shows "print_line name pl \<noteq> []" "hd (print_line name pl) = hd name" "\<not> is_space (hd (print_line name pl))"
    "CHR ''#'' \<notin> set (print_line name pl)"
proof -
  have n: "name \<noteq> []" "\<forall>c\<in>set name. \<not> is_space c" using assms(1) by (simp_all add: is_word_def)
  show "print_line name pl \<noteq> []" "hd (print_line name pl) = hd name" "\<not> is_space (hd (print_line name pl))"
    using n by (simp_all add: print_line_def)
  have "CHR ''#'' \<notin> set (decimal i)" for i using decimal_not[of "CHR ''#''" i] by blast
  then show "CHR ''#'' \<notin> set (print_line name pl)" using print_words(3,4) assms(2) by (simp add: print_line_def)
qed

lemma strip_line_eq:
  assumes "\<forall>c\<in>set ind. is_space c" "t \<noteq> [] \<longrightarrow> \<not> is_space (hd t)" "CHR ''#'' \<notin> set t" "is_comment com" "t = [] \<longrightarrow> sp = []"
    "\<forall>c\<in>set sp. is_space c"
  shows "strip_line (ind @ t @ sp @ com) = t @ sp"
proof -
  have hash: "\<not> is_space CHR ''#''" by (simp add: is_space_def)
  let ?r = "t @ sp @ com"
  have "?r = [] \<or> \<not> is_space (hd ?r)"
  proof (cases "t = []")
    case True
    then show ?thesis using assms(4,5) hash unfolding is_comment_def by auto
  next
    case False
    then show ?thesis using assms(2) by simp
  qed
  then have d: "dropWhile is_space (ind @ ?r) = ?r" using assms(1) by (rule dropWhile_spaces[rotated])
  have "\<forall>c\<in>set (t @ sp). c \<noteq> CHR ''#''" using assms(3,6) hash by auto
  then have "takeWhile (\<lambda>c. c \<noteq> CHR ''#'') ((t @ sp) @ com) = (t @ sp) @ takeWhile (\<lambda>c. c \<noteq> CHR ''#'') com"
    by (intro takeWhile_append2) simp
  moreover have "takeWhile (\<lambda>c. c \<noteq> CHR ''#'') com = []" using assms(4) by (cases com) (simp_all add: is_comment_def)
  ultimately show ?thesis using d by (simp add: strip_line_def)
qed

lemma parseMetaData_entry:
  assumes "is_word name" "value = [] \<or> is_space (hd value)"
  shows "parseMetaData (''@'' @ name @ value) md = Ret (addMetadata name (filter (\<lambda>c. \<not> is_space c) value) md)"
proof -
  have n: "name \<noteq> []" "\<not> is_space (hd name)" using assms(1) by (auto simp: is_word_def)
  then have "dropWhile is_space (name @ value) = name @ value" by (cases name) auto
  moreover have "open_stream (name @ value) = before ([] @ name @ value)" using n by (simp add: open_stream_def before_def)
  then have "read_word (open_stream (name @ value)) = (Some name, before value)"
    using read_word_before[OF assms, of "[]"] by simp
  ultimately show ?thesis by (simp add: parseMetaData_def)
qed

lemma parseLines_entries:
  assumes "list_all2 entry_line es lines" "list_all valid_entry es"
  shows "parseLines lines pls md = Ret (pls @ lines_of_entries es, metadata_of_entries es md)"
  using assms
proof (induction es lines arbitrary: pls md rule: list_all2_induct)
  case (Cons e es line lines)
  obtain ind sp com where l: "line = ind @ entry_text e @ sp @ com" "\<forall>c\<in>set ind. is_space c" "\<forall>c\<in>set sp. is_space c"
      "is_comment com" "e = EmptyEntry \<longrightarrow> sp = []"
    using Cons.hyps(1) by (auto simp: entry_line_def)
  have IH: "parseLines lines pls md = Ret (pls @ lines_of_entries es, metadata_of_entries es md)" for pls md
    using Cons.IH Cons.prems by simp
  show ?case
  proof (cases e)
    case (RegisterEntry name pl)
    then have v: "is_word name" "CHR ''#'' \<notin> set name" "hd name \<noteq> CHR ''@''" "valid_line pl"
        "pl_pathName pl = setAltSeparator ''.'' (copy_path (registerPath name))" using Cons.prems by simp_all
    note f = print_line_facts[OF v(1,2), of pl]
    have "strip_line line = print_line name pl @ sp"
      unfolding l(1) RegisterEntry entry_text.simps using l f by (intro strip_line_eq) simp_all
    then show ?thesis
      using parseLine_printed[OF v(4,1,5) l(3)] f(1,2) v(3) IH RegisterEntry
      by (simp add: lines_of_entries_def metadata_of_entries_def)
  next
    case (MetaEntry name val)
    then have v: "is_word name" "CHR ''#'' \<notin> set (name @ val)" "val = [] \<or> is_space (hd val)" using Cons.prems by simp_all
    have "strip_line line = ''@'' @ name @ val @ sp"
      unfolding l(1) using strip_line_eq[of ind "''@'' @ name @ val" com sp] l v MetaEntry by (simp add: is_space_def)
    moreover have "val @ sp = [] \<or> is_space (hd (val @ sp))" using v(3) l(3) by (cases val; cases sp) auto
    note parseMetaData_entry[OF v(1) this]
    moreover have "filter (\<lambda>c. \<not> is_space c) (val @ sp) = filter (\<lambda>c. \<not> is_space c) val" using l(3) by (simp add: filter_empty_conv)
    ultimately show ?thesis using IH MetaEntry by (simp add: lines_of_entries_def metadata_of_entries_def)
  next
    case EmptyEntry
    then have "strip_line line = []" using strip_line_eq[of ind "[]" com sp] l by simp
    then show ?thesis using IH EmptyEntry by (simp add: lines_of_entries_def metadata_of_entries_def)
  qed
qed (simp add: lines_of_entries_def metadata_of_entries_def)

lemma addLines_append: "addLines m (pls @ qls) c = bindO (addLines m pls c) (addLines m qls)"
proof (induction pls arbitrary: c)
  case (Cons pl pls)
  then show ?case by (cases "addLine m pl c") simp_all
qed simp

definition one_dimensional :: "parsed_line \<Rightarrow> register_info \<Rightarrow> bool" where
  "one_dimensional pl r = (isScalarOr1D (pl_pathName pl) = Ret True \<and> register_of_line pl = Ret r)"

lemma addLines_1D:
  assumes "list_all2 one_dimensional pls rs" "list_all proper_register rs"
    "sorted_wrt (\<lambda>q r. path_key (pathName r) \<noteq> path_key (pathName q)) rs"
  shows "addLines m pls empty_na_catalogue = Ret (na_add_all rs)"
  using assms
proof (induction rs arbitrary: pls rule: rev_induct)
  case Nil
  then show ?case by (simp add: na_add_all_def)
next
  case (snoc r rs)
  then obtain qls pl where pls: "pls = qls @ [pl]" "list_all2 one_dimensional qls rs" "one_dimensional pl r"
    by (auto simp: list_all2_append2 list_all2_Cons2)
  have p: "list_all proper_register rs" "proper_register r" using snoc.prems by simp_all
  have d: "sorted_wrt (\<lambda>q r. path_key (pathName r) \<noteq> path_key (pathName q)) rs" "\<forall>q\<in>set rs. path_key (pathName r) \<noteq> path_key (pathName q)"
    using snoc.prems(3) by (simp_all add: sorted_wrt_append)
  have "ordinary (pathName r)" using p(2) by (simp add: proper_register_def)
  then have "\<nexists>r'. na_getBackendRegister (pathName r) (na_add_all rs) = Ret r'"
    using na_add_all_only[OF p(1) d(1)] d(2) by blast
  then have "fst (na_addRegister r (na_add_all rs)) = Ret ()" by (rule nc.add_new[OF na_add_all_valid[OF p(1)] p(2)])
  moreover have "na_add_all (rs @ [r]) = snd (na_addRegister r (na_add_all rs))" by (simp add: na_add_all_def)
  ultimately have "addLine m pl (na_add_all rs) = Ret (na_add_all (rs @ [r]))"
    using pls(3) by (cases "na_addRegister r (na_add_all rs)") (simp add: addLine_def one_dimensional_def bindAdd_def)
  then show ?case using snoc.IH[OF pls(2) p(1) d(1)] pls(1) by (simp add: addLines_append)
qed

text \<open>
  C17: a map file with lines for scalar and one-dimensional registers, meta data, comments and empty
  lines gives the catalogue with exactly the registers of its lines, in their order, and the meta data.
\<close>

theorem map_file_read_back:
  assumes "list_all2 entry_line es lines" "list_all valid_entry es" "\<not> suffix ''.jmap'' fileName"
    and "list_all2 one_dimensional (lines_of_entries es) rs" "list_all proper_register rs"
    and "sorted_wrt (\<lambda>q r. path_key (pathName r) \<noteq> path_key (pathName q)) rs"
  shows "mapFile_parse json fileName (Some lines) = Ret (na_add_all rs, metadata_of_entries es [])"
  using parseLines_entries[OF assms(1,2), of "[]" "[]"] addLines_1D[OF assms(4-6)] assms(3)
  by (simp add: map_parse_def mapFile_parse_def)

section \<open>Kinds of plain names\<close>

lemma split_plain:
  assumes "plain w" "plain m" "is_sep x"
  shows "splitStringAtLastDot (name1 w) = Ret (\<lparr>path = [separator], separator_alt = ''.''\<rparr>, w)"
    "splitStringAtLastDot (name2 x m w) = Ret (name1 m, w)"
proof -
  have a: "setAltSeparator ''.'' (name1 w) = name1 w" "setAltSeparator ''.'' (name2 x m w) = name2 x m w"
    by (simp_all add: setAltSeparator_def name1_def name2_def)
  show "splitStringAtLastDot (name1 w) = Ret (\<lparr>path = [separator], separator_alt = ''.''\<rparr>, w)"
    using plain_copy[OF assms] plain_components[OF assms] a by (simp add: splitStringAtLastDot_def)
  show "splitStringAtLastDot (name2 x m w) = Ret (name1 m, w)"
    using plain_copy(2)[OF assms] plain_copy(1)[OF assms(2,1,3)] plain_components[OF assms] a by (simp add: splitStringAtLastDot_def)
qed

lemma new_style_plain:
  assumes "plain w" "plain m" "is_sep x"
  shows "\<not> is2DNewStyle (name1 w)" "\<not> is2DNewStyle \<lparr>path = [separator], separator_alt = ''.''\<rparr>"
    "is2DNewStyle (name2 x m w) = prefix MEM_MULTIPLEXED_PREFIX w"
proof -
  have a: "setAltSeparator ''.'' (name1 w) = name1 w" "setAltSeparator ''.'' (name2 x m w) = name2 x m w"
    by (simp_all add: setAltSeparator_def name1_def name2_def)
  show "\<not> is2DNewStyle (name1 w)" using plain_copy[OF assms] plain_components[OF assms] a by (simp add: is2DNewStyle_def)
  show "\<not> is2DNewStyle \<lparr>path = [separator], separator_alt = ''.''\<rparr>"
    using plain_copy(3)[OF assms] by (simp add: is2DNewStyle_def setAltSeparator_def getComponents_def)
  show "is2DNewStyle (name2 x m w) = prefix MEM_MULTIPLEXED_PREFIX w"
    using plain_copy[OF assms] plain_components[OF assms] a by (simp add: is2DNewStyle_def)
qed

definition special :: "string \<Rightarrow> bool" where
  "special w = (prefix MULTIPLEXED_SEQUENCE_PREFIX w \<or> prefix SEQUENCE_PREFIX w \<or> prefix MEM_MULTIPLEXED_PREFIX w)"

lemma scalar_plain:
  assumes "plain w" "plain m" "is_sep x"
  shows "isScalarOr1D (name1 w) = Ret (\<not> special w)" "isScalarOr1D (name2 x m w) = Ret (\<not> special w)"
    "is2D (name2 x m w) = Ret (prefix MULTIPLEXED_SEQUENCE_PREFIX w)"
  using split_plain[OF assms] new_style_plain[OF assms] new_style_plain(1)[OF assms(2,1,3)]
  by (simp_all add: isScalarOr1D_def special_def is2D_def)

definition adc_line :: parsed_line where
  "adc_line = (new_parsed_line (name2 CHR ''.'' ''APP'' ''ADC''))
     \<lparr>pl_nElements := 4, pl_nBytes := 16, pl_nFractionalBits := - 3, pl_registerAccess := READ_ONLY\<rparr>"

definition irq_line :: parsed_line where
  "irq_line = (new_parsed_line (name1 ''IRQ''))
     \<lparr>pl_width := 0, pl_signedFlag := False, pl_type := VOID_TYPE, pl_registerAccess := INTERRUPT, pl_interruptID := [3, 5]\<rparr>"

theorem map_file_read_back_witness:
  "\<exists>q r. mapFile_parse (\<lambda>_. NoReturn) ''device.map'' (Some [''# a device'', ''APP.ADC 4 0 16 0 32 -3 1 RO  # the ADC'', '' @FIRMWARE 1 2'',
      '' IRQ 0 0 0 0 0 0 0 INTERRUPT3:5'']) = Ret (na_add_all [q, r], [(''FIRMWARE'', ''12'')]) \<and>
    reg_address q = 0 \<and> nElements q = 4 \<and> registerAccess r = INTERRUPT \<and> interruptId r = [3, 5]"
proof -
  let ?es = "[EmptyEntry, RegisterEntry ''APP.ADC'' adc_line, MetaEntry ''FIRMWARE'' '' 1 2'', RegisterEntry ''IRQ'' irq_line]"
  have p: "plain ''APP''" "plain ''ADC''" "plain ''IRQ''" "is_sep CHR ''.''" by (simp_all add: plain_def is_sep_def)
  have t: "print_line ''APP.ADC'' adc_line = ''APP.ADC 4 0 16 0 32 -3 1 RO''" "print_line ''IRQ'' irq_line = ''IRQ 0 0 0 0 0 0 0 INTERRUPT3:5''"
    by (simp_all add: print_line_def adc_line_def irq_line_def new_parsed_line_def print_interpretation_def print_access_def to_string_def
        decimal_rec char_of_def bit_Suc_0_iff)
  have e: "entry_line e (ind @ entry_text e @ sp @ com)"
    if "\<forall>c\<in>set ind. is_space c" "\<forall>c\<in>set sp. is_space c" "is_comment com" "e = EmptyEntry \<longrightarrow> sp = []" for e ind sp com
    using that unfolding entry_line_def by blast
  have E: "list_all2 entry_line ?es [''# a device'', ''APP.ADC 4 0 16 0 32 -3 1 RO  # the ADC'', '' @FIRMWARE 1 2'', '' IRQ 0 0 0 0 0 0 0 INTERRUPT3:5'']"
    using e[of "[]" "[]" "''# a device''" EmptyEntry] e[of "[]" "''  ''" "''# the ADC''" "RegisterEntry ''APP.ADC'' adc_line"]
      e[of "'' ''" "[]" "[]" "MetaEntry ''FIRMWARE'' '' 1 2''"] e[of "'' ''" "[]" "[]" "RegisterEntry ''IRQ'' irq_line"]
    by (simp add: t is_comment_def is_space_def)
  have V: "list_all valid_entry ?es"
    using plain_registerPath(2)[OF p(2,1,4)] plain_registerPath(1)[OF p(3,1,4)]
    by (simp add: is_word_def is_space_def valid_line_def checkFileConsistency_def adc_line_def irq_line_def new_parsed_line_def)
  obtain q where q: "register_of_line adc_line = Ret q" "reg_address q = 0" "nElements q = 4" "registerAccess q = READ_ONLY"
      "pathName q = name2 CHR ''.'' ''APP'' ''ADC''"
    using plain_copy(2)[OF p(2,1,4)]
    by (simp add: register_of_line_def adc_line_def new_parsed_line_def new_register_1D_def computeDataDescriptor_def biggest_def widthSum_def
        raw_data_type_def setAltSeparator_def name2_def)
  obtain r where r: "register_of_line irq_line = Ret r" "registerAccess r = INTERRUPT" "interruptId r = [3, 5]" "pathName r = name1 ''IRQ''"
    using plain_copy(1)[OF p(3,1,4)]
    by (simp add: register_of_line_def irq_line_def new_parsed_line_def new_register_1D_def computeDataDescriptor_def biggest_def widthSum_def
        raw_data_type_def setAltSeparator_def name1_def)
  have "\<not> special ''ADC''" "\<not> special ''IRQ''"
    by (simp_all add: special_def MULTIPLEXED_SEQUENCE_PREFIX_def SEQUENCE_PREFIX_def MEM_MULTIPLEXED_PREFIX_def)
  then have O: "list_all2 one_dimensional (lines_of_entries ?es) [q, r]"
    using scalar_plain(2)[OF p(2,1,4)] scalar_plain(1)[OF p(3,1,4)] q(1) r(1)
    by (simp add: lines_of_entries_def one_dimensional_def adc_line_def irq_line_def new_parsed_line_def)
  have P: "list_all proper_register [q, r]"
    using plain_ordinary(2)[OF p(2,1,4)] plain_ordinary(1)[OF p(3,1,4)] q r by (simp add: proper_register_def)
  have S: "sorted_wrt (\<lambda>q r. path_key (pathName r) \<noteq> path_key (pathName q)) [q, r]"
    using plain_keys(2)[OF p(2,1,4)] plain_keys(1)[OF p(3,1,4)] q r by simp
  have "\<not> suffix ''.jmap'' ''device.map''" by (simp add: suffix_def)
  from map_file_read_back[OF E V this O P S] q r show ?thesis
    by (intro exI[of _ q] exI[of _ r]) (simp add: metadata_of_entries_def addMetadata_def is_space_def)
qed

end
