(* ===== verification/MapAreas.thy ===== *)
theory MapAreas
  imports MapFiles
begin

text \<open>
  Multiplexed areas in map files: the lines that \<open>handle2D\<close> and \<open>handle2DNewStyle\<close> take as channels
  and the registers made from them.
\<close>

section \<open>The map of lines\<close>

lemma map_of_emplace: "map_of (emplace k pl m) = (if k \<in> fst ` set m then map_of m else (map_of m)(k \<mapsto> pl))"
proof (cases "k \<in> fst ` set m")
  case False
  let ?P = "\<lambda>e. str_less (fst e) k"
  have "map_of m = map_of (dropWhile ?P m) ++ map_of (takeWhile ?P m)" by (metis map_of_append takeWhile_dropWhile_id)
  moreover have "map_of (takeWhile ?P m) k = None" using False by (auto simp: map_of_eq_None_iff dest: set_takeWhileD)
  ultimately show ?thesis using False
    by (auto simp: emplace_def fun_eq_iff map_add_def split: option.splits)
qed (simp add: emplace_def)

lemma set_emplace: "k \<notin> fst ` set m \<Longrightarrow> set (emplace k pl m) = insert (k, pl) (set m)"
proof -
  assume k: "k \<notin> fst ` set m"
  have "set m = set (takeWhile (\<lambda>e. str_less (fst e) k) m) \<union> set (dropWhile (\<lambda>e. str_less (fst e) k) m)"
    by (metis set_append takeWhile_dropWhile_id)
  then show ?thesis using k by (auto simp: emplace_def)
qed

definition line_key :: "parsed_line \<Rightarrow> string" where
  "line_key pl = map_key (pl_pathName pl)"

lemma make_lines_map_distinct:
  assumes "distinct (map line_key pls)"
  shows "set (make_lines_map pls) = (\<lambda>pl. (line_key pl, pl)) ` set pls \<and>
    (\<forall>k pl. map_of (make_lines_map pls) k = Some pl \<longleftrightarrow> pl \<in> set pls \<and> line_key pl = k)"
  using assms
proof (induction pls rule: rev_induct)
  case (snoc pl pls)
  have e: "make_lines_map (pls @ [pl]) = emplace (line_key pl) pl (make_lines_map pls)" by (simp add: make_lines_map_def line_key_def)
  have IH: "set (make_lines_map pls) = (\<lambda>pl. (line_key pl, pl)) ` set pls"
    "\<And>k q. map_of (make_lines_map pls) k = Some q \<longleftrightarrow> q \<in> set pls \<and> line_key q = k" using snoc by auto
  have n: "line_key pl \<notin> fst ` set (make_lines_map pls)" using snoc.prems IH(1) by (auto simp: image_image)
  have "set (make_lines_map (pls @ [pl])) = (\<lambda>pl. (line_key pl, pl)) ` set (pls @ [pl])"
    using set_emplace[OF n] IH(1) e by simp
  moreover have "map_of (make_lines_map (pls @ [pl])) = (map_of (make_lines_map pls))(line_key pl \<mapsto> pl)"
    using map_of_emplace[of "line_key pl" pl] n e by simp
  then have "map_of (make_lines_map (pls @ [pl])) k = Some q \<longleftrightarrow> q \<in> set (pls @ [pl]) \<and> line_key q = k" for k q
  proof (cases "k = line_key pl")
    case True
    have "line_key q \<noteq> line_key pl" if "q \<in> set pls" using snoc.prems that by (auto simp: image_iff)
    then show ?thesis using \<open>map_of (make_lines_map (pls @ [pl])) = _\<close> True by auto
  next
    case False
    then show ?thesis using \<open>map_of (make_lines_map (pls @ [pl])) = _\<close> IH(2)[of k q] by auto
  qed
  ultimately show ?case by blast
qed (simp add: make_lines_map_def)

lemma lookup_present: "distinct (map line_key pls) \<Longrightarrow> pl \<in> set pls \<Longrightarrow> map_of (make_lines_map pls) (line_key pl) = Some pl"
  using make_lines_map_distinct by blast

lemma lookup_absent: "distinct (map line_key pls) \<Longrightarrow> k \<notin> line_key ` set pls \<Longrightarrow> map_of (make_lines_map pls) k = None"
proof (rule ccontr)
  assume a: "distinct (map line_key pls)" "k \<notin> line_key ` set pls" "map_of (make_lines_map pls) k \<noteq> None"
  then obtain pl where "map_of (make_lines_map pls) k = Some pl" by blast
  then have "pl \<in> set pls" "line_key pl = k" using make_lines_map_distinct[OF a(1)] by blast+
  then show False using a(2) by blast
qed

section \<open>Areas of the new style\<close>

lemma startsWith_dot:
  assumes "separator_alt p = ''.''" "separator_alt q = ''.''"
  shows "startsWith q p = Ret (take (path_length q) (map_key p) = map_key q)"
proof -
  have "\<exists>k. getWithOtherSeparatorReplaced ''.'' r = Ret k" for r
    by (simp add: getWithOtherSeparatorReplaced_def replaceLoop_char)
  then obtain k l where "getWithOtherSeparatorReplaced ''.'' p = Ret k" "getWithOtherSeparatorReplaced ''.'' q = Ret l" by metis
  then show ?thesis using assms
    by (simp add: startsWith_def both_converted_def getCommonAltSeparator_def map_key_def path_key_def substr_def)
qed

definition inside_area :: "parsed_line \<Rightarrow> parsed_line \<Rightarrow> bool" where
  "inside_area pl l = (take (path_length (pl_pathName pl)) (line_key l) = line_key pl \<and>
     path_length (pl_pathName pl) < path_length (pl_pathName l))"

lemma collectChannels_eq:
  assumes "separator_alt (pl_pathName pl) = ''.''" "\<forall>l\<in>snd ` set m. separator_alt (pl_pathName l) = ''.''"
  shows "collectChannels pl m =
    (if \<exists>l\<in>snd ` set m. inside_area pl l \<and> pl_address l < pl_address pl
     then Throw (LogicError ''Start address of channel smaller than 2D register start address'')
     else Ret (filter (inside_area pl) (map snd m)))"
  using assms(2)
proof (induction m)
  case (Cons e m)
  obtain k l where e: "e = (k, l)" by (cases e)
  have "startsWith (pl_pathName pl) (pl_pathName l) = Ret (take (path_length (pl_pathName pl)) (line_key l) = line_key pl)"
    using startsWith_dot assms(1) Cons.prems e by (simp add: line_key_def)
  then have "collectChannels pl (e # m) =
      (if inside_area pl l then
         if pl_address l < pl_address pl then Throw (LogicError ''Start address of channel smaller than 2D register start address'')
         else bindO (collectChannels pl m) (\<lambda>ls. Ret (l # ls))
       else collectChannels pl m)" by (simp add: e inside_area_def)
  then show ?case using Cons e by simp
qed simp

lemma addLines_fails: "pl \<in> set pls \<Longrightarrow> \<forall>c c'. addLine m pl c \<noteq> Ret c' \<Longrightarrow> addLines m pls c \<noteq> Ret c'"
  by (induction pls arbitrary: c) (auto simp: bindO_Ret_iff)

text \<open>
  C19: a map file with two areas of the new style, one of whose names is the beginning of the other's, is
  refused if the one with the longer name does not have 1, 2, 4 or 8 bytes: it counts as a channel of
  the other one, and these are the sizes a channel may have.
\<close>

theorem similar_area_names_refused:
  assumes "parseLines lines [] [] = Ret (pls, md)" "distinct (map line_key pls)" "\<forall>l\<in>set pls. separator_alt (pl_pathName l) = ''.''"
    and "pl \<in> set pls" "pl_pathName pl = name2 x m (MEM_MULTIPLEXED_PREFIX @ a)"
    and "l \<in> set pls" "pl_pathName l = name2 y m (MEM_MULTIPLEXED_PREFIX @ a @ b)" "b \<noteq> []"
    and "plain m" "plain (MEM_MULTIPLEXED_PREFIX @ a @ b)" "is_sep x" "is_sep y" "pl_nBytes l \<notin> {1, 2, 4, 8}"
  shows "map_parse lines \<noteq> Ret r"
proof -
  let ?m = "make_lines_map pls"
  have p: "plain (MEM_MULTIPLEXED_PREFIX @ a)" using assms(10) by (auto simp: plain_def MEM_MULTIPLEXED_PREFIX_def)
  have lines: "snd ` set ?m = set pls" using make_lines_map_distinct[OF assms(2)] by (simp add: image_image)
  have keys: "line_key pl = separator # m @ separator # MEM_MULTIPLEXED_PREFIX @ a" "line_key l = separator # m @ separator # MEM_MULTIPLEXED_PREFIX @ a @ b"
    using plain_keys(4)[OF p assms(9,11)] plain_keys(4)[OF assms(10,9,12)] assms(5,7) by (simp_all add: line_key_def)
  have ins: "inside_area pl l"
    using keys assms(5,7,8) by (simp add: inside_area_def path_length_def name2_def)
  have "addLine ?m pl c \<noteq> Ret c'" for c c'
  proof -
    have sp: "special (MEM_MULTIPLEXED_PREFIX @ a)" "\<not> prefix MULTIPLEXED_SEQUENCE_PREFIX (MEM_MULTIPLEXED_PREFIX @ a)"
      by (simp_all add: special_def MEM_MULTIPLEXED_PREFIX_def MULTIPLEXED_SEQUENCE_PREFIX_def)
    have "addLine ?m pl c = handle2DNewStyle pl ?m c"
      using scalar_plain(2,3)[OF p assms(9,11)] new_style_plain(3)[OF p assms(9,11)] sp assms(5)
      by (simp add: addLine_def)
    moreover have "handle2DNewStyle pl ?m c \<noteq> Ret c'"
    proof (cases "\<exists>l\<in>set pls. inside_area pl l \<and> pl_address l < pl_address pl")
      case True
      then show ?thesis using collectChannels_eq[of pl ?m] assms(3,4) lines by (simp add: handle2DNewStyle_def)
    next
      case False
      let ?ls = "sort_key pl_address (filter (inside_area pl) (map snd ?m))"
      have "l \<in> set ?ls" using assms(6) lines ins by auto
      then have "\<exists>l\<in>set ?ls. pl_nBytes l \<notin> {1, 2, 4, 8}" using assms(13) by blast
      then have "\<exists>e. make2DRegisterInfos pl ?ls MEM_MULTIPLEXED_PREFIX c = Throw e" by (simp add: make2DRegisterInfos_def)
      then show ?thesis using collectChannels_eq[of pl ?m] assms(3,4) lines False by (auto simp: handle2DNewStyle_def)
    qed
    ultimately show ?thesis by simp
  qed
  then have "addLines ?m pls c \<noteq> Ret c'" for c c' using addLines_fails[OF assms(4)] by blast
  then show ?thesis using assms(1) by (simp add: map_parse_def bindO_Ret_iff)
qed

theorem similar_area_names_refused_witness:
  "\<forall>r. map_parse [''M.MEM_MULTIPLEXED_A 4 0 16 0 32 0 0 RW'', ''M.MEM_MULTIPLEXED_AB 4 16 16 0 32 0 0 RW''] \<noteq> Ret r"
proof -
  define area where "area = (\<lambda>w a. (new_parsed_line (name2 CHR ''.'' ''M'' w))
    \<lparr>pl_nElements := 4, pl_address := a, pl_nBytes := 16, pl_signedFlag := False\<rparr>)"
  let ?A = "''MEM_MULTIPLEXED_A''" and ?B = "''MEM_MULTIPLEXED_AB''"
  have p: "plain ''M''" "plain ?A" "plain ?B" "is_sep CHR ''.''" by (simp_all add: plain_def is_sep_def)
  let ?es = "[RegisterEntry (''M.'' @ ?A) (area ?A 0), RegisterEntry (''M.'' @ ?B) (area ?B 16)]"
  have e: "entry_line e (entry_text e)" for e
    unfolding entry_line_def by (intro exI[of _ "[]"]) (simp add: is_comment_def)
  have "list_all2 entry_line ?es (map entry_text ?es)"
    by (simp only: list.map list_all2_Cons list_all2_Nil e simp_thms)
  moreover have "list_all valid_entry ?es"
    using plain_registerPath(2)[OF p(2,1,4)] plain_registerPath(2)[OF p(3,1,4)]
    by (simp add: is_word_def is_space_def valid_line_def checkFileConsistency_def area_def new_parsed_line_def)
  ultimately have "parseLines (map entry_text ?es) [] [] = Ret ([] @ lines_of_entries ?es, metadata_of_entries ?es [])"
    by (rule parseLines_entries)
  moreover have "lines_of_entries ?es = [area ?A 0, area ?B 16]" "metadata_of_entries ?es [] = []"
    by (simp_all add: lines_of_entries_def metadata_of_entries_def)
  ultimately have P: "parseLines (map entry_text ?es) [] [] = Ret ([area ?A 0, area ?B 16], [])" by (simp only: append_Nil)
  have k: "line_key (area ?A 0) = ''/M/MEM_MULTIPLEXED_A''" "line_key (area ?B 16) = ''/M/MEM_MULTIPLEXED_AB''"
    using plain_keys(4)[OF p(2,1,4)] plain_keys(4)[OF p(3,1,4)] by (simp_all add: line_key_def area_def new_parsed_line_def)
  have "map_parse (map entry_text ?es) \<noteq> Ret r" for r
    by (rule similar_area_names_refused[OF P, of "area ?A 0" "CHR ''.''" "''M''" "''A''" "area ?B 16" "CHR ''.''" "''B''"])
      (use p in \<open>simp_all add: k\<close>, simp_all add: area_def new_parsed_line_def name2_def MEM_MULTIPLEXED_PREFIX_def)
  moreover have "map entry_text ?es = [''M.MEM_MULTIPLEXED_A 4 0 16 0 32 0 0 RW'', ''M.MEM_MULTIPLEXED_AB 4 16 16 0 32 0 0 RW'']"
    by (simp add: print_line_def area_def new_parsed_line_def print_interpretation_def print_access_def to_string_def
        decimal_rec char_of_def bit_Suc_0_iff)
  ultimately show ?thesis by simp
qed

section \<open>Areas of the old style\<close>

definition channel_offset :: "parsed_line list \<Rightarrow> nat \<Rightarrow> nat" where
  "channel_offset chs i = sum_list (map pl_nBytes (take i chs))"

text \<open>The lines of an area whose channels follow each other.\<close>

definition area_lines :: "parsed_line \<Rightarrow> parsed_line list \<Rightarrow> string \<Rightarrow> string \<Rightarrow> bool" where
  "area_lines pl chs m d =
     (plain m \<and> plain d \<and> hd m \<notin> {CHR ''#'', CHR ''!''} \<and> chs \<noteq> [] \<and>
      pl_pathName pl = name2 CHR ''.'' m (MULTIPLEXED_SEQUENCE_PREFIX @ d) \<and>
      (\<forall>i<length chs. pl_pathName (chs ! i) = name2 CHR ''.'' m (SEQUENCE_PREFIX @ d @ ''_'' @ decimal i) \<and>
         pl_address (chs ! i) = pl_address pl + channel_offset chs i \<and> pl_nBytes (chs ! i) \<in> {1, 2, 4, 8} \<and>
         pl_width (chs ! i) \<le> 8 * pl_nBytes (chs ! i) \<and> pl_type (chs ! i) = FIXED_POINT) \<and>
      8 * sum_list (map pl_nBytes chs) < 2 ^ 32 \<and>
      0 < pl_nElements pl \<and> pl_nBytes pl = 4 * pl_nElements pl \<and> pl_nBytes pl < 2 ^ 32 \<and>
      (pl_registerAccess pl = INTERRUPT \<longrightarrow> pl_interruptID pl \<noteq> []))"

definition area_channel :: "parsed_line list \<Rightarrow> nat \<Rightarrow> channel_info" where
  "area_channel chs i =
     \<lparr>bitOffset = 8 * channel_offset chs i, dataType = FIXED_POINT, width = pl_width (chs ! i),
      nFractionalBits = pl_nFractionalBits (chs ! i), signedFlag = pl_signedFlag (chs ! i)\<rparr>"

lemma channel_offset_Suc: "i < length chs \<Longrightarrow> channel_offset chs (Suc i) = channel_offset chs i + pl_nBytes (chs ! i)"
  by (simp add: channel_offset_def take_Suc_conv_app_nth)

lemma channel_offset_le: "channel_offset chs i \<le> sum_list (map pl_nBytes chs)"
proof -
  have "sum_list (map pl_nBytes chs) = channel_offset chs i + sum_list (map pl_nBytes (drop i chs))"
    unfolding channel_offset_def by (metis append_take_drop_id map_append sum_list_append)
  then show ?thesis by simp
qed

lemma nat_int_mod: "k < 2 ^ w \<Longrightarrow> nat (int k mod 2 ^ w) = k"
  by (simp add: nat_mod_distrib)

lemma limitWidths_id:
  assumes "\<forall>i. Suc i < length cs \<longrightarrow> bitOffset (cs ! i) + width (cs ! i) \<le> bitOffset (cs ! Suc i) \<and> bitOffset (cs ! Suc i) < 2 ^ 32"
    "cs \<noteq> [] \<longrightarrow> bitOffset (last cs) + width (last cs) \<le> 8 * n \<and> 8 * n < 2 ^ 32"
  shows "limitWidths n cs = cs"
  using assms
proof (induction n cs rule: limitWidths.induct)
  case (1 n c d cs)
  have h: "bitOffset c + width c \<le> bitOffset d" "bitOffset d < 2 ^ 32" using 1(2)[rule_format, of 0] by simp_all
  have "nat ((int (bitOffset d) - int (bitOffset c)) mod 2 ^ 32) = bitOffset d - bitOffset c"
  proof -
    have "int (bitOffset d) - int (bitOffset c) = int (bitOffset d - bitOffset c)" using h by simp
    moreover have "bitOffset d - bitOffset c < 2 ^ 32" using h by simp
    ultimately show ?thesis using nat_int_mod by metis
  qed
  then have "limitWidth (nat ((int (bitOffset d) - int (bitOffset c)) mod 2 ^ 32)) c = c" using h by (simp add: limitWidth_def)
  moreover have "limitWidths n (d # cs) = d # cs"
  proof (rule 1(1))
    show "\<forall>i. Suc i < length (d # cs) \<longrightarrow> bitOffset ((d # cs) ! i) + width ((d # cs) ! i) \<le> bitOffset ((d # cs) ! Suc i) \<and>
        bitOffset ((d # cs) ! Suc i) < 2 ^ 32" using 1(2) by (metis Suc_less_eq length_Cons nth_Cons_Suc)
    show "d # cs \<noteq> [] \<longrightarrow> bitOffset (last (d # cs)) + width (last (d # cs)) \<le> 8 * n \<and> 8 * n < 2 ^ 32" using 1(3) by simp
  qed
  ultimately show ?case by simp
next
  case (2 n c)
  then have h: "bitOffset c + width c \<le> 8 * n" "8 * n < 2 ^ 32" by simp_all
  have "nat ((int n * 8 - int (bitOffset c)) mod 2 ^ 64) = n * 8 - bitOffset c"
  proof -
    have "int n * 8 - int (bitOffset c) = int (n * 8 - bitOffset c)" using h by simp
    moreover have "n * 8 - bitOffset c < 2 ^ 64" using h by simp
    ultimately show ?thesis using nat_int_mod by metis
  qed
  then show ?case using h by (simp add: limitWidth_def)
qed simp

definition area_name :: "string \<Rightarrow> string \<Rightarrow> register_path" where
  "area_name m d = name2 separator m d"

definition raw_name :: "string \<Rightarrow> string \<Rightarrow> register_path" where
  "raw_name m d = name2 separator m (d @ ''.MULTIPLEXED_RAW'')"

lemma area_names:
  assumes "plain m" "plain d" "plain (pre @ d)"
  shows "make2DName (name2 CHR ''.'' m (pre @ d)) pre = Ret (area_name m d)"
    "makeSequenceName (name2 CHR ''.'' m (MULTIPLEXED_SEQUENCE_PREFIX @ d)) i = Ret (name2 separator m (SEQUENCE_PREFIX @ d @ ''_'' @ decimal i))"
proof -
  have dot: "is_sep CHR ''.''" "is_sep separator" by (simp_all add: is_sep_def)
  have slash: "path_slash (name1 m) (registerPath w) = Ret (name2 separator m w)" if w: "plain w" for w
  proof -
    have "registerPath w = \<lparr>path = separator # w, separator_alt = []\<rparr>"
      using parts_component[OF plain_component(1)[OF w]] by (simp add: registerPath_eq toPath_def)
    then show ?thesis
      using plain_copy(1)[OF assms(1) w dot(2)] plain_copy(2)[OF w assms(1) dot(2)]
      by (simp add: path_slash_def getCommonAltSeparator_def copy_path_def name1_def name2_def)
  qed
  have s: "splitStringAtLastDot (name2 CHR ''.'' m (q @ d)) = Ret (name1 m, q @ d)" if "plain (q @ d)" for q
    by (rule split_plain(2)[OF that assms(1) dot(1)])
  show "make2DName (name2 CHR ''.'' m (pre @ d)) pre = Ret (area_name m d)"
    using s[OF assms(3)] slash[OF assms(2)] by (simp add: make2DName_def area_name_def setAltSeparator_def name2_def)
  have pd: "plain (MULTIPLEXED_SEQUENCE_PREFIX @ d)" "plain (SEQUENCE_PREFIX @ d @ ''_'' @ decimal i)"
    using assms(2) decimal_not[of _ i] by (auto simp: plain_def MULTIPLEXED_SEQUENCE_PREFIX_def SEQUENCE_PREFIX_def is_sep_def)
  show "makeSequenceName (name2 CHR ''.'' m (MULTIPLEXED_SEQUENCE_PREFIX @ d)) i = Ret (name2 separator m (SEQUENCE_PREFIX @ d @ ''_'' @ decimal i))"
    using s[OF pd(1)] slash[OF pd(2)] by (simp add: makeSequenceName_def setAltSeparator_def name2_def)
qed

lemma sequence_key: 
  assumes "plain m" "plain d" "is_sep x"
  shows "map_key (name2 x m (SEQUENCE_PREFIX @ d @ ''_'' @ decimal i)) = separator # m @ separator # SEQUENCE_PREFIX @ d @ ''_'' @ decimal i"
proof -
  have "plain (SEQUENCE_PREFIX @ d @ ''_'' @ decimal i)"
    using assms(2) decimal_not[of _ i] by (auto simp: plain_def SEQUENCE_PREFIX_def is_sep_def)
  then show ?thesis using plain_keys(4) assms(1,3) by blast
qed

lemma sequenceLines_found:
  assumes "area_lines pl chs m d" "\<forall>i<length chs. map_of l (map_key (name2 separator m (SEQUENCE_PREFIX @ d @ ''_'' @ decimal i))) = Some (chs ! i)"
    "map_of l (map_key (name2 separator m (SEQUENCE_PREFIX @ d @ ''_'' @ decimal (length chs)))) = None"
    "j \<le> length chs" "length chs - j < fuel"
  shows "sequenceLines fuel pl l (take j chs) = Ret chs"
  using assms(4,5)
proof (induction fuel arbitrary: j)
  case (Suc fuel)
  have "plain (MULTIPLEXED_SEQUENCE_PREFIX @ d)" "plain m" "plain d"
    using assms(1) by (auto simp: plain_def MULTIPLEXED_SEQUENCE_PREFIX_def is_sep_def area_lines_def)
  then have n: "makeSequenceName (pl_pathName pl) j = Ret (name2 separator m (SEQUENCE_PREFIX @ d @ ''_'' @ decimal j))"
    using area_names(2) assms(1) by (simp add: area_lines_def)
  have l: "length (take j chs) = j" using Suc.prems by simp
  show ?case
  proof (cases "j = length chs")
    case True
    then show ?thesis using n assms(3) by simp
  next
    case False
    then have j: "j < length chs" using Suc.prems by simp
    have "pl_address (chs ! j) \<ge> pl_address pl" using assms(1) j by (simp add: area_lines_def)
    moreover have "take j chs @ [chs ! j] = take (Suc j) chs" using j by (simp add: take_Suc_conv_app_nth)
    ultimately show ?thesis using n l assms(2) j Suc.IH[of "Suc j"] Suc.prems by simp
  qed
qed simp

lemma area_channels:
  assumes "area_lines pl chs m d"
  shows "limitWidths (sum_list (map pl_nBytes chs)) (map (channel_of_line pl) chs) = map (area_channel chs) [0 ..< length chs]"
proof -
  let ?n = "sum_list (map pl_nBytes chs)"
  have a: "pl_address (chs ! i) = pl_address pl + channel_offset chs i" "pl_width (chs ! i) \<le> 8 * pl_nBytes (chs ! i)"
      "pl_type (chs ! i) = FIXED_POINT" if "i < length chs" for i using assms that by (auto simp: area_lines_def)
  have n: "8 * ?n < 2 ^ 32" "chs \<noteq> []" using assms by (auto simp: area_lines_def)
  have o: "8 * channel_offset chs i < 2 ^ 32" for i using channel_offset_le[of chs i] n(1) by linarith
  have c: "channel_of_line pl (chs ! i) = area_channel chs i" if i: "i < length chs" for i
  proof -
    have "channel_offset chs i < 2 ^ 32" using o[of i] by linarith
    then have "nat (int (channel_offset chs i) mod 2 ^ 32) * 8 mod 2 ^ 32 = 8 * channel_offset chs i"
      using nat_int_mod[of "channel_offset chs i" 32] o[of i] by simp
    then show ?thesis using a[OF i] by (simp add: channel_of_line_def area_channel_def)
  qed
  have m: "map (channel_of_line pl) chs = map (area_channel chs) [0 ..< length chs]"
    by (rule nth_equalityI) (simp_all add: c)
  have "limitWidths ?n (map (area_channel chs) [0 ..< length chs]) = map (area_channel chs) [0 ..< length chs]"
  proof (rule limitWidths_id)
    have s: "8 * channel_offset chs i + pl_width (chs ! i) \<le> 8 * channel_offset chs (Suc i)" if "i < length chs" for i
      using channel_offset_Suc[OF that] a(2)[OF that] by simp
    then show "\<forall>i. Suc i < length (map (area_channel chs) [0 ..< length chs]) \<longrightarrow>
        bitOffset (map (area_channel chs) [0 ..< length chs] ! i) + width (map (area_channel chs) [0 ..< length chs] ! i)
          \<le> bitOffset (map (area_channel chs) [0 ..< length chs] ! Suc i) \<and>
        bitOffset (map (area_channel chs) [0 ..< length chs] ! Suc i) < 2 ^ 32"
      using o by (simp add: area_channel_def)
    let ?l = "length chs - 1"
    have l: "last (map (area_channel chs) [0 ..< length chs]) = area_channel chs ?l" using n(2) by (simp add: last_map)
    have "channel_offset chs (Suc ?l) = ?n" using n(2) by (simp add: channel_offset_def)
    then show "map (area_channel chs) [0 ..< length chs] \<noteq> [] \<longrightarrow>
        bitOffset (last (map (area_channel chs) [0 ..< length chs])) + width (last (map (area_channel chs) [0 ..< length chs])) \<le> 8 * ?n \<and>
        8 * ?n < 2 ^ 32"
      using s[of ?l] n unfolding l by (simp add: area_channel_def)
  qed
  then show ?thesis using m by simp
qed

lemma fold_rank:
  assumes "\<forall>c r. fst (f c r) = (if register_type_rank (dataType c) > register_type_rank (fst r) then dataType c else fst r)"
    "\<forall>c\<in>set cs. dataType c = FIXED_POINT" "fst r = FIXED_POINT \<or> fst r = VOID_TYPE \<and> cs \<noteq> []"
  shows "fst (fold f cs r) = FIXED_POINT"
  using assms(2,3)
proof (induction cs arbitrary: r)
  case (Cons c cs)
  have "fst (f c r) = FIXED_POINT" using assms(1)[rule_format, of c r] Cons.prems by auto
  then show ?case using Cons.IH Cons.prems(1) by simp
qed simp

lemma biggest_fixed: "\<forall>c\<in>set cs. dataType c = FIXED_POINT \<Longrightarrow> cs \<noteq> [] \<Longrightarrow> fst (biggest cs) = FIXED_POINT"
  unfolding biggest_def by (rule fold_rank) (auto simp: Let_def)

lemma fixed_descriptor:
  assumes "\<forall>c\<in>set (channels r). dataType c = FIXED_POINT" "channels r \<noteq> []" "raw_data_type r FIXED_POINT = Ret rawType"
  shows "\<exists>d. computeDataDescriptor r = Ret (r\<lparr>dataDescriptor := d\<rparr>)"
proof -
  obtain w n s where "biggest (channels r) = (FIXED_POINT, w, n, s)" using biggest_fixed[OF assms(1,2)] by (cases "biggest (channels r)") auto
  then show ?thesis using assms(3) by (auto simp: computeDataDescriptor_def Let_def)
qed

definition area_register :: "parsed_line \<Rightarrow> parsed_line list \<Rightarrow> string \<Rightarrow> string \<Rightarrow> register_info \<Rightarrow> bool" where
  "area_register pl chs m d r =
     (pathName r = area_name m d \<and> reg_bar r = pl_bar pl \<and> reg_address r = pl_address pl \<and>
      nElements r = pl_nBytes pl div sum_list (map pl_nBytes chs) \<and> elementPitchBits r = 8 * sum_list (map pl_nBytes chs) \<and>
      channels r = map (area_channel chs) [0 ..< length chs] \<and>
      registerAccess r = pl_registerAccess pl \<and> interruptId r = pl_interruptID pl \<and> \<not> hidden r)"

definition raw_area_register :: "parsed_line \<Rightarrow> string \<Rightarrow> string \<Rightarrow> register_info \<Rightarrow> bool" where
  "raw_area_register pl m d r =
     (path_key (pathName r) = Ret (separator # m @ separator # d @ separator # ''MULTIPLEXED_RAW'') \<and>
      reg_bar r = pl_bar pl \<and> reg_address r = pl_address pl \<and> nElements r = pl_nElements pl \<and> elementPitchBits r = 32 \<and>
      channels r = [\<lparr>bitOffset = 0, dataType = FIXED_POINT, width = 32, nFractionalBits = 0, signedFlag = True\<rparr>] \<and>
      registerAccess r = pl_registerAccess pl \<and> interruptId r = pl_interruptID pl \<and> \<not> hidden r)"

lemma area_register_made:
  assumes "area_lines pl chs m d"
  shows "\<exists>r. new_register_2D (area_name m d) (pl_bar pl) (pl_address pl) (pl_nBytes pl div sum_list (map pl_nBytes chs))
      (sum_list (map pl_nBytes chs) * 8) (map (area_channel chs) [0 ..< length chs]) types (pl_registerAccess pl) (pl_interruptID pl) = Ret r \<and>
    area_register pl chs m d r"
proof -
  let ?n = "sum_list (map pl_nBytes chs)" and ?cs = "map (area_channel chs) [0 ..< length chs]"
  have n: "8 * ?n < 2 ^ 32" "chs \<noteq> []" "pl_nBytes pl < 2 ^ 32" using assms by (auto simp: area_lines_def)
  let ?r = "\<lparr>reg_bar = pl_bar pl, reg_address = pl_address pl, nElements = pl_nBytes pl div ?n, elementPitchBits = 8 * ?n,
    registerAccess = pl_registerAccess pl, channels = ?cs, rawTypes = types, pathName = area_name m d, interruptId = pl_interruptID pl,
    doubleBuffer = None, dataDescriptor = undefined_descriptor, hidden = False\<rparr>"
  have "pl_nBytes pl div ?n mod 2 ^ 32 = pl_nBytes pl div ?n" using n(3) by (intro mod_less) (meson div_le_dividend le_less_trans)
  moreover have "?n * 8 mod 2 ^ 32 = 8 * ?n" using n(1) by simp
  moreover have "plain d" "plain m" "is_sep separator" using assms by (auto simp: area_lines_def is_sep_def)
  from plain_copy(2)[OF this] have "setAltSeparator ''.'' (copy_path (area_name m d)) = area_name m d"
    by (simp add: area_name_def setAltSeparator_def name2_def)
  ultimately have e: "new_register_2D (area_name m d) (pl_bar pl) (pl_address pl) (pl_nBytes pl div ?n) (?n * 8) ?cs types
      (pl_registerAccess pl) (pl_interruptID pl) = computeDataDescriptor ?r"
    by (simp add: new_register_2D_def)
  have "\<exists>rawType. raw_data_type ?r FIXED_POINT = Ret rawType"
  proof (cases "length chs = 1")
    case True
    then have "?n = pl_nBytes (chs ! 0)" by (cases chs) auto
    moreover have "pl_nBytes (chs ! 0) \<in> {1, 2, 4, 8}" using assms n(2) by (auto simp: area_lines_def)
    ultimately have "?n \<in> {1, 2, 4, 8}" by simp
    then show ?thesis by (auto simp: raw_data_type_def)
  next
    case False
    then show ?thesis by (simp add: raw_data_type_def)
  qed
  then obtain rawType where "raw_data_type ?r FIXED_POINT = Ret rawType" by blast
  then obtain dd where "computeDataDescriptor ?r = Ret (?r\<lparr>dataDescriptor := dd\<rparr>)"
    using fixed_descriptor[of ?r rawType] n(2) by (auto simp: area_channel_def)
  then show ?thesis using e by (simp add: area_register_def)
qed

lemma raw_name_facts:
  assumes "plain m" "plain d" "hd m \<notin> {CHR ''#'', CHR ''!''}"
  shows "path_plus (area_name m d) ''.MULTIPLEXED_RAW'' = raw_name m d"
    "setAltSeparator ''.'' (copy_path (raw_name m d)) = raw_name m d"
    "path_key (raw_name m d) = Ret (separator # m @ separator # d @ separator # ''MULTIPLEXED_RAW'')" "ordinary (raw_name m d)"
proof -
  let ?R = "''MULTIPLEXED_RAW''"
  have s: "separator \<notin> set d" "separator \<notin> set m" "m \<noteq> []" "d \<noteq> []" using assms by (auto simp: plain_def is_sep_def)
  have "is_component (d @ ''.MULTIPLEXED_RAW'')" "is_component m" using s by (auto simp: is_component_def)
  then have p: "parts (m @ separator # d @ ''.MULTIPLEXED_RAW'') = [m, d @ ''.MULTIPLEXED_RAW'']"
    using parts_append[of m] parts_component by simp
  have n: "normalised \<lparr>path = separator # m @ separator # d @ ''.MULTIPLEXED_RAW'', separator_alt = ''.''\<rparr> = raw_name m d"
    using p by (simp add: normalised_path raw_name_def name2_def toPath_def)
  have "copy_path (area_name m d) = area_name m d"
    using plain_copy(2)[OF assms(2,1), of separator] by (simp add: area_name_def is_sep_def)
  then show "path_plus (area_name m d) ''.MULTIPLEXED_RAW'' = raw_name m d"
    using n by (simp add: path_plus_def area_name_def name2_def)
  show "setAltSeparator ''.'' (copy_path (raw_name m d)) = raw_name m d"
    using n by (simp add: copy_path_def raw_name_def name2_def setAltSeparator_def)
  have w: "withSlashes CHR ''.'' t = t" if "plain t" for t
    unfolding withSlashes_def using plain_component(2)[OF that] by (intro map_idI) metis
  have "withSlashes CHR ''.'' (m @ separator # d @ ''.MULTIPLEXED_RAW'') = m @ separator # d @ separator # ?R"
    using w[OF assms(1)] w[OF assms(2)] by (simp add: withSlashes_def)
  moreover have "parts (m @ separator # d @ separator # ?R) = [m, d, ?R]"
    using parts_append[of m "d @ separator # ?R"] parts_append[of d ?R] parts_component[OF plain_component(1)] assms(1,2)
      parts_component[of ?R] by (simp add: is_component_def)
  ultimately show k: "path_key (raw_name m d) = Ret (separator # m @ separator # d @ separator # ?R)"
    using path_key_eq[of "raw_name m d" "m @ separator # d @ ''.MULTIPLEXED_RAW''"] by (simp add: raw_name_def name2_def toPath_def)
  have "normal_path (raw_name m d)" unfolding normal_path_def
    using \<open>is_component m\<close> \<open>is_component (d @ _)\<close> by (intro conjI exI[of _ "[m, d @ ''.MULTIPLEXED_RAW'']"]) (simp_all add: raw_name_def name2_def toPath_def)
  moreover have "hd m \<notin> {separator, CHR ''.''}" "m = hd m # tl m" using assms(1) by (auto simp: plain_def is_sep_def)
  ultimately show "ordinary (raw_name m d)" unfolding ordinary_def using assms(3)
    by (intro conjI exI[of _ "hd m"] exI[of _ "tl m @ separator # d @ ''.MULTIPLEXED_RAW''"]) (simp_all add: raw_name_def name2_def)
qed

lemma raw_register_made:
  assumes "area_lines pl chs m d"
  shows "\<exists>r. new_register_1D (raw_name m d) (pl_nElements pl) (pl_address pl) (pl_nBytes pl) (pl_bar pl) 32 0 True (pl_registerAccess pl)
      FIXED_POINT (pl_interruptID pl) = Ret r \<and> raw_area_register pl m d r \<and> pathName r = raw_name m d"
proof -
  have n: "0 < pl_nElements pl" "pl_nBytes pl = 4 * pl_nElements pl" "4 * pl_nElements pl < 2 ^ 32" "plain m" "plain d"
      "hd m \<notin> {CHR ''#'', CHR ''!''}" using assms by (auto simp: area_lines_def)
  then show ?thesis using raw_name_facts[OF n(4-6)]
    by (simp add: new_register_1D_def computeDataDescriptor_def biggest_def widthSum_def raw_data_type_def raw_area_register_def)
qed

definition sequence_text :: "string \<Rightarrow> string \<Rightarrow> nat \<Rightarrow> string" where
  "sequence_text m d i = separator # m @ separator # SEQUENCE_PREFIX @ d @ ''_'' @ decimal i"

lemma area_keys:
  assumes "area_lines pl chs m d" "set pls = insert pl (set chs)" "distinct pls"
  shows "i < length chs \<Longrightarrow> line_key (chs ! i) = sequence_text m d i" "distinct (map line_key pls)" "sequence_text m d (length chs) \<notin> line_key ` set pls"
proof -
  have pm: "plain m" "plain d" "is_sep CHR ''.''" "plain (MULTIPLEXED_SEQUENCE_PREFIX @ d)"
    using assms(1) by (auto simp: area_lines_def is_sep_def plain_def MULTIPLEXED_SEQUENCE_PREFIX_def)
  have k: "line_key (chs ! i) = sequence_text m d i" if "i < length chs" for i
    using assms(1) that sequence_key[OF pm(1-3), of i] by (simp add: line_key_def area_lines_def sequence_text_def)
  then show "i < length chs \<Longrightarrow> line_key (chs ! i) = sequence_text m d i" .
  have a: "line_key pl = separator # m @ separator # MULTIPLEXED_SEQUENCE_PREFIX @ d"
    using assms(1) plain_keys(4)[OF pm(4,1,3)] by (simp add: line_key_def area_lines_def)
  have ne: "line_key pl \<noteq> sequence_text m d i" for i
    using a by (simp add: sequence_text_def MULTIPLEXED_SEQUENCE_PREFIX_def SEQUENCE_PREFIX_def)
  have inj: "sequence_text m d i = sequence_text m d j \<Longrightarrow> i = j" for i j by (auto simp: sequence_text_def dest: decimal_inj)
  have "inj_on line_key (set pls)"
  proof (rule inj_onI)
    fix x y assume x: "x \<in> set pls" "y \<in> set pls" "line_key x = line_key y"
    have c: "\<exists>i<length chs. z = chs ! i" if "z \<in> set pls" "z \<noteq> pl" for z using that assms(2) by (auto simp: in_set_conv_nth)
    show "x = y"
    proof (cases "x = pl \<or> y = pl")
      case True
      then show ?thesis using c x k ne by metis
    next
      case False
      then obtain i j where "i < length chs" "x = chs ! i" "j < length chs" "y = chs ! j" using c x by metis
      then show ?thesis using k x(3) inj by metis
    qed
  qed
  then show "distinct (map line_key pls)" using assms(3) by (simp add: distinct_map)
  show "sequence_text m d (length chs) \<notin> line_key ` set pls"
  proof
    assume "sequence_text m d (length chs) \<in> line_key ` set pls"
    then obtain x where x: "x \<in> set pls" "line_key x = sequence_text m d (length chs)" by auto
    then have "x \<noteq> pl" using ne by metis
    then obtain i where "i < length chs" "x = chs ! i" using x(1) assms(2) by (auto simp: in_set_conv_nth)
    then show False using k x(2) inj by (metis less_irrefl)
  qed
qed

lemma addLines_skip: "\<forall>pl\<in>set pls. \<forall>c. addLine m pl c = Ret c \<Longrightarrow> addLines m pls c = Ret c"
  by (induction pls) simp_all

lemma area_channels_skipped:
  assumes "area_lines pl chs m d" "ch \<in> set chs"
  shows "addLine l ch c = Ret c"
proof -
  obtain i where i: "i < length chs" "ch = chs ! i" using assms(2) by (auto simp: in_set_conv_nth)
  let ?w = "SEQUENCE_PREFIX @ d @ ''_'' @ decimal i"
  have p: "plain ?w" "plain m" "is_sep CHR ''.''"
    using assms(1) decimal_not[of _ i] by (auto simp: area_lines_def plain_def SEQUENCE_PREFIX_def is_sep_def)
  have n: "pl_pathName ch = name2 CHR ''.'' m ?w" using assms(1) i by (simp add: area_lines_def)
  have "special ?w" "\<not> prefix MULTIPLEXED_SEQUENCE_PREFIX ?w" "\<not> prefix MEM_MULTIPLEXED_PREFIX ?w"
    by (simp_all add: special_def SEQUENCE_PREFIX_def MULTIPLEXED_SEQUENCE_PREFIX_def MEM_MULTIPLEXED_PREFIX_def)
  then show ?thesis using scalar_plain(2,3)[OF p] new_style_plain(3)[OF p] n by (simp add: addLine_def)
qed

lemma area_handled:
  assumes "area_lines pl chs m d" "set pls = insert pl (set chs)" "distinct pls"
  shows "\<exists>r s. addLine (make_lines_map pls) pl empty_na_catalogue = Ret (na_add_all [r, s]) \<and>
    area_register pl chs m d r \<and> raw_area_register pl m d s"
proof -
  note k = area_keys[OF assms]
  let ?m = "make_lines_map pls"
  have pm: "plain m" "plain d" "plain (MULTIPLEXED_SEQUENCE_PREFIX @ d)" "is_sep CHR ''.''" "is_sep separator" "hd m \<notin> {CHR ''#'', CHR ''!''}"
    using assms(1) by (auto simp: area_lines_def is_sep_def plain_def MULTIPLEXED_SEQUENCE_PREFIX_def)
  have key: "map_key (name2 separator m (SEQUENCE_PREFIX @ d @ ''_'' @ decimal i)) = sequence_text m d i" for i
    using sequence_key[OF pm(1,2,5)] by (simp add: sequence_text_def)
  have "chs ! i \<in> set pls" if "i < length chs" for i using that assms(2) by simp
  then have "\<forall>i<length chs. map_of ?m (map_key (name2 separator m (SEQUENCE_PREFIX @ d @ ''_'' @ decimal i))) = Some (chs ! i)"
    using lookup_present[OF k(2)] k(1) key by metis
  moreover have "map_of ?m (map_key (name2 separator m (SEQUENCE_PREFIX @ d @ ''_'' @ decimal (length chs)))) = None"
    using lookup_absent[OF k(2,3)] key by simp
  moreover have "length chs - 0 < length ?m + 1"
  proof -
    have "sequence_text m d i \<in> fst ` set ?m" if "i < length chs" for i
    proof -
      have "chs ! i \<in> set pls" using that assms(2) by simp
      then have "map_of ?m (sequence_text m d i) = Some (chs ! i)" using lookup_present[OF k(2)] k(1)[OF that] by metis
      then show ?thesis by (metis map_of_SomeD fst_conv image_eqI)
    qed
    then have "sequence_text m d ` {..<length chs} \<subseteq> fst ` set ?m" by blast
    then have "card (sequence_text m d ` {..<length chs}) \<le> card (fst ` set ?m)" by (intro card_mono) simp_all
    moreover have "card (fst ` set ?m) \<le> length ?m" by (meson card_image_le card_length finite_set le_trans)
    moreover have "inj_on (sequence_text m d) {..<length chs}" by (auto simp: inj_on_def sequence_text_def dest: decimal_inj)
    ultimately show ?thesis by (simp add: card_image)
  qed
  ultimately have seq: "sequenceLines (length ?m + 1) pl ?m [] = Ret chs"
    using sequenceLines_found[OF assms(1), of ?m 0 "length ?m + 1"] by simp
  have sp: "special (MULTIPLEXED_SEQUENCE_PREFIX @ d)" by (simp add: special_def)
  have name: "pl_pathName pl = name2 CHR ''.'' m (MULTIPLEXED_SEQUENCE_PREFIX @ d)" using assms(1) by (simp add: area_lines_def)
  have call: "addLine ?m pl empty_na_catalogue = make2DRegisterInfos pl chs MULTIPLEXED_SEQUENCE_PREFIX empty_na_catalogue"
    using scalar_plain(2,3)[OF pm(3,1,4)] sp name seq by (simp add: addLine_def handle2D_def)
  have b: "chs \<noteq> []" "\<forall>l\<in>set chs. pl_nBytes l \<in> {1, 2, 4, 8}" "pl_nBytes pl = 4 * pl_nElements pl" "0 < pl_nElements pl"
      "pl_registerAccess pl = INTERRUPT \<longrightarrow> pl_interruptID pl \<noteq> []"
    using assms(1) by (auto simp: area_lines_def in_set_conv_nth)
  let ?types = "map (\<lambda>l. data_type_of_string (''int'' @ decimal (pl_nBytes l * 8))) chs"
  obtain r where r: "new_register_2D (area_name m d) (pl_bar pl) (pl_address pl) (pl_nBytes pl div sum_list (map pl_nBytes chs))
      (sum_list (map pl_nBytes chs) * 8) (map (area_channel chs) [0 ..< length chs]) ?types (pl_registerAccess pl) (pl_interruptID pl) = Ret r"
      "area_register pl chs m d r" using area_register_made[OF assms(1)] by blast
  obtain s where s: "new_register_1D (raw_name m d) (pl_nElements pl) (pl_address pl) (pl_nBytes pl) (pl_bar pl) 32 0 True (pl_registerAccess pl)
      FIXED_POINT (pl_interruptID pl) = Ret s" "raw_area_register pl m d s" "pathName s = raw_name m d" using raw_register_made[OF assms(1)] by blast
  have pr: "proper_register r" "proper_register s"
  proof -
    have "ordinary (area_name m d)" unfolding area_name_def by (rule plain_ordinary(2)[OF pm(2,1,5,6)])
    then show "proper_register r" using r(2) b(5) by (simp only: proper_register_def area_register_def)
    show "proper_register s" using s(2,3) raw_name_facts(4)[OF pm(1,2,6)] b(5) by (simp only: proper_register_def raw_area_register_def)
  qed
  have "path_key (pathName r) = Ret (separator # m @ separator # d)"
    using r(2) plain_keys(2)[OF pm(2,1,5)] by (simp add: area_register_def area_name_def)
  then have ne: "path_key (pathName s) \<noteq> path_key (pathName r)" using s(2) by (simp add: raw_area_register_def)
  have e0: "na_add_all [] = empty_na_catalogue" by (simp add: na_add_all_def)
  have o: "ordinary (pathName r)" "ordinary (pathName s)" using pr by (simp_all add: proper_register_def)
  have "\<nexists>q. na_getBackendRegister (pathName r) empty_na_catalogue = Ret q" using empty_na_valid(2) o(1) by blast
  then have a1: "na_addRegister r empty_na_catalogue = (Ret (), na_add_all [r])"
    using nc.add_new[OF empty_na_valid(1) pr(1)] by (simp add: na_add_all_def prod_eq_iff)
  have "\<nexists>q. na_getBackendRegister (pathName s) (na_add_all [r]) = Ret q"
    using na_add_all_only[of "[r]" "pathName s"] pr o(2) ne by auto
  then have a2: "na_addRegister s (na_add_all [r]) = (Ret (), na_add_all [r, s])"
    using nc.add_new[OF na_add_all_valid[of "[r]"] pr(2)] pr by (simp add: na_add_all_def prod_eq_iff)
  have d: "pl_nBytes pl div pl_nElements pl = 4" "pl_nBytes pl mod 4 = 0" "pl_nBytes pl div 4 = pl_nElements pl" "pl_nBytes pl \<noteq> 0"
    using b(3,4) by simp_all
  have not: "\<not> (\<exists>l\<in>set chs. pl_nBytes l \<notin> {1, 2, 4, 8})" using b(2) by blast
  have made: "make2DRegisterInfos pl chs MULTIPLEXED_SEQUENCE_PREFIX empty_na_catalogue = Ret (na_add_all [r, s])"
    unfolding make2DRegisterInfos_def Let_def if_not_P[OF b(1)] if_not_P[OF not] area_channels[OF assms(1)] name
      area_names(1)[OF pm(1-3)] bindO_simps(1) r(1) a1 bindAdd_def prod.case
    using d b(4) raw_name_facts(1)[OF pm(1,2,6)] s(1) a2 by simp
  show ?thesis using call made r(2) s(2) by (intro exI[of _ r] exI[of _ s]) simp
qed

text \<open>
  C18: a map file with a multiplexed area whose channels follow each other gives the two-dimensional
  register with one channel at the offset of each line, as many elements as blocks fit, and the register
  for the raw data of the area.
\<close>

theorem area_read_back:
  assumes "parseLines lines [] [] = Ret (pls, md)" "area_lines pl chs m d" "set pls = insert pl (set chs)" "distinct pls"
  shows "\<exists>r s. map_parse lines = Ret (na_add_all [r, s], md) \<and> area_register pl chs m d r \<and> raw_area_register pl m d s"
proof -
  obtain as bs where pls: "pls = as @ pl # bs" using assms(3) split_list[of pl pls] by auto
  have skip: "addLines l qs c = Ret c" if "set qs \<subseteq> set chs" for l qs c
    using that area_channels_skipped[OF assms(2)] by (intro addLines_skip) blast
  have "set as \<subseteq> set chs" "set bs \<subseteq> set chs" using assms(3,4) unfolding pls by auto
  moreover obtain r s where "addLine (make_lines_map pls) pl empty_na_catalogue = Ret (na_add_all [r, s])"
      "area_register pl chs m d r" "raw_area_register pl m d s"
    using area_handled[OF assms(2-4)] by blast
  moreover have "addLines (make_lines_map pls) pls empty_na_catalogue =
      bindO (addLines (make_lines_map pls) as empty_na_catalogue) (addLines (make_lines_map pls) (pl # bs))"
    unfolding pls by (rule addLines_append)
  ultimately show ?thesis using assms(1) skip by (intro exI[of _ r] exI[of _ s]) (simp add: map_parse_def)
qed

definition adc_area :: parsed_line where
  "adc_area = (new_parsed_line (name2 CHR ''.'' ''ADC'' (MULTIPLEXED_SEQUENCE_PREFIX @ ''D'')))\<lparr>pl_nElements := 4, pl_nBytes := 16\<rparr>"

definition adc_channel :: "nat \<Rightarrow> nat \<Rightarrow> parsed_line" where
  "adc_channel i a = (new_parsed_line (name2 CHR ''.'' ''ADC'' (SEQUENCE_PREFIX @ ''D_'' @ decimal i)))
     \<lparr>pl_nElements := 1, pl_address := a, pl_nBytes := 2, pl_width := 16\<rparr>"

lemmas adc_defs = adc_area_def adc_channel_def new_parsed_line_def MULTIPLEXED_SEQUENCE_PREFIX_def SEQUENCE_PREFIX_def

lemma digits_01: "decimal 0 = ''0''" "decimal (Suc 0) = ''1''"
  by (simp_all add: decimal_rec char_of_def bit_Suc_0_iff)

theorem area_read_back_witness:
  "\<exists>r s. map_parse [''ADC.AREA_MULTIPLEXED_SEQUENCE_D 4 0 16 0 32 0 1 RW'', ''ADC.SEQUENCE_D_0 1 0 2 0 16 0 1 RW'',
      ''ADC.SEQUENCE_D_1 1 2 2 0 16 0 1 RW''] = Ret (na_add_all [r, s], []) \<and>
    nElements r = 4 \<and> elementPitchBits r = 32 \<and> map bitOffset (channels r) = [0, 16]"
proof -
  let ?es = "[RegisterEntry ''ADC.AREA_MULTIPLEXED_SEQUENCE_D'' adc_area, RegisterEntry ''ADC.SEQUENCE_D_0'' (adc_channel 0 0),
    RegisterEntry ''ADC.SEQUENCE_D_1'' (adc_channel (Suc 0) 2)]"
  have p: "plain ''ADC''" "plain ''AREA_MULTIPLEXED_SEQUENCE_D''" "plain ''SEQUENCE_D_0''" "plain ''SEQUENCE_D_1''" "is_sep CHR ''.''"
    by (simp_all add: plain_def is_sep_def)
  have e: "entry_line e (entry_text e)" for e
    unfolding entry_line_def by (intro exI[of _ "[]"]) (simp add: is_comment_def)
  have "list_all2 entry_line ?es (map entry_text ?es)"
    by (simp only: list.map list_all2_Cons list_all2_Nil e simp_thms)
  moreover have "list_all valid_entry ?es"
    using plain_registerPath(2)[OF p(2,1,5)] plain_registerPath(2)[OF p(3,1,5)] plain_registerPath(2)[OF p(4,1,5)]
    by (simp add: is_word_def is_space_def valid_line_def checkFileConsistency_def adc_defs digits_01)
  ultimately have "parseLines (map entry_text ?es) [] [] = Ret ([] @ lines_of_entries ?es, metadata_of_entries ?es [])"
    by (rule parseLines_entries)
  moreover have "lines_of_entries ?es = [adc_area, adc_channel 0 0, adc_channel (Suc 0) 2]" "metadata_of_entries ?es [] = []"
    by (simp_all add: lines_of_entries_def metadata_of_entries_def)
  ultimately have P: "parseLines (map entry_text ?es) [] [] = Ret ([adc_area, adc_channel 0 0, adc_channel (Suc 0) 2], [])"
    by (simp only: append_Nil)
  have A: "area_lines adc_area [adc_channel 0 0, adc_channel (Suc 0) 2] ''ADC'' ''D''"
    by (simp add: area_lines_def plain_def is_sep_def adc_defs digits_01 less_Suc_eq channel_offset_def all_conj_distrib)
  have D: "distinct [adc_area, adc_channel 0 0, adc_channel (Suc 0) 2]" by (simp add: adc_defs)
  obtain r s where "map_parse (map entry_text ?es) = Ret (na_add_all [r, s], [])"
      "area_register adc_area [adc_channel 0 0, adc_channel (Suc 0) 2] ''ADC'' ''D'' r"
    using area_read_back[OF P A _ D] by auto
  moreover have "map entry_text ?es = [''ADC.AREA_MULTIPLEXED_SEQUENCE_D 4 0 16 0 32 0 1 RW'', ''ADC.SEQUENCE_D_0 1 0 2 0 16 0 1 RW'',
      ''ADC.SEQUENCE_D_1 1 2 2 0 16 0 1 RW'']"
    by (simp add: print_line_def adc_defs print_interpretation_def print_access_def to_string_def decimal_rec char_of_def bit_Suc_0_iff)
  ultimately show ?thesis
    by (intro exI[of _ r] exI[of _ s]) (simp add: area_register_def area_channel_def adc_defs channel_offset_def)
qed

end
