(* ===== verification/CompletedTransfers.thy ===== *)
theory CompletedTransfers
  imports NumericAddressed
begin

text \<open>
  Operations of a transfer element in which every stage returns, for any element that obeys
  the contract of the base class, and bytes copied into a buffer.
\<close>

section \<open>Operations that complete\<close>

text \<open>An element the application uses directly, with synchronous reading.\<close>

definition idle_element :: "te \<Rightarrow> bool" where
  "idle_element t = (\<not> isInTransferGroup t \<and> inReadAnyGroup t = None \<and> \<not> has (te_flags t) wait_for_new_data)"

context te_contract
begin

text \<open>An operation whose three stages return runs through; the states are those of the stages.\<close>

lemma read_completes:
  assumes "\<not> isInTransferGroup (elem w e)" "inReadAnyGroup (elem w e) = None" "\<not> has (te_flags (elem w e)) wait_for_new_data"
    and pre: "doPreRead V e TT_read (read_started TT_read e w) = (Ret (), w1)"
    and tr: "doReadTransferSynchronously V e (logged (CallReadTransfer e) w1) = (Ret (), w2)"
    and post: "doPostRead V e TT_read True (logged (CallPostRead e TT_read True)
      (upd e (\<lambda>t. t\<lparr>readTransactionInProgress := False\<rparr>) w2)) = (Ret (), w3)"
    and no: "activeException (elem w3 e) = None"
  shows "read_te V e w = (Ret (), w3)"
proof -
  have f1: "shielded e (read_started TT_read e w) w1" "same_exception e (read_started TT_read e w) w1"
    using pre_read[OF pre] by auto
  have f2: "shielded e (logged (CallReadTransfer e) w1) w2" "same_exception e (logged (CallReadTransfer e) w1) w2"
    using sync_read[OF tr] by auto
  have e1: "activeException (elem w1 e) = None" "readTransactionInProgress (elem w1 e)"
    "te_flags (elem w1 e) = te_flags (elem w e)"
    using f1 by (simp_all add: read_started_def stage_defs)
  have e2: "activeException (elem w2 e) = None" "readTransactionInProgress (elem w2 e)"
    using f2 e1 by (simp_all add: stage_defs)
  have "preReadAndHandleExceptions V TT_read e (upd e (\<lambda>t. t\<lparr>readTransactionInProgress := False\<rparr>) w) = (Ret (), w1)"
    using pre by (simp add: preReadAndHandleExceptions_def handlePreException_def preRead_def read_started_def)
  moreover have "handleTransferException e () (readTransfer V e) w1 = (Ret (), w2)"
    using tr e1(3) assms(3) by (simp add: handleTransferException_def readTransfer_def)
  moreover have "postReadAndHandleExceptions V TT_read True e w2 = (Ret (), w3)"
    using post e2(2) no by (simp add: postReadAndHandleExceptions_def reportException_def postRead_def rethrowActive_def)
  ultimately show ?thesis using assms(1,2) e1(1) e2(1) by (simp add: read_te_def noException_def)
qed

lemma write_completes:
  assumes "\<not> isInTransferGroup (elem w e)" and v: "\<not> v < versionNumber (elem w e)"
    and pre: "doPreWrite V e TT_write v (write_started TT_write v e w) = (Ret (), w1)"
    and tr: "doWriteTransfer V e v (logged (CallWriteTransfer e v) w1) = (Ret lost, w2)"
    and post: "doPostWrite V e TT_write v (logged (CallPostWrite e TT_write v)
      (upd e (\<lambda>t. t\<lparr>writeTransactionInProgress := False\<rparr>) w2)) = (Ret (), w3)"
    and no: "activeException (elem w3 e) = None"
  shows "write_te V v e w = (Ret lost, upd e (\<lambda>t. t\<lparr>versionNumber := v\<rparr>) w3)"
proof -
  have f1: "shielded e (write_started TT_write v e w) w1" "same_exception e (write_started TT_write v e w) w1"
    using pre_write[OF pre] by auto
  have f2: "shielded e (logged (CallWriteTransfer e v) w1) w2" "same_exception e (logged (CallWriteTransfer e v) w1) w2"
    using write_transfer[OF tr] by auto
  have e1: "activeException (elem w1 e) = None" "writeTransactionInProgress (elem w1 e)"
    using f1 by (simp_all add: write_started_def stage_defs)
  have e2: "activeException (elem w2 e) = None" "writeTransactionInProgress (elem w2 e)"
    using f2 e1 by (simp_all add: stage_defs)
  have "preWriteAndHandleExceptions V TT_write v e (upd e (\<lambda>t. t\<lparr>writeTransactionInProgress := False\<rparr>) w) = (Ret (), w1)"
    using pre v by (simp add: preWriteAndHandleExceptions_def handlePreException_def preWrite_def write_started_def)
  moreover have "handleTransferException e True (writeTransfer V v e) w1 = (Ret lost, w2)"
    using tr by (simp add: handleTransferException_def writeTransfer_def)
  moreover have "postWriteAndHandleExceptions V TT_write v e w2 = (Ret (), upd e (\<lambda>t. t\<lparr>versionNumber := v\<rparr>) w3)"
    using post e2(2) no by (simp add: postWriteAndHandleExceptions_def reportException_def postWrite_def rethrowActive_def)
  ultimately show ?thesis using assms(1) e1(1) by (simp add: write_te_def noException_def)
qed

text \<open>A write that the first stage refuses runs the last stage, then throws.\<close>

lemma write_refused:
  assumes "\<not> isInTransferGroup (elem w e)" and v: "\<not> v < versionNumber (elem w e)"
    and pre: "doPreWrite V e TT_write v (write_started TT_write v e w) = (Throw x, w1)" "caught_in_pre x" "\<not> is_runtime_error x"
    and post: "doPostWrite V e TT_write v (logged (CallPostWrite e TT_write v)
      (upd e (\<lambda>t. t\<lparr>writeTransactionInProgress := False\<rparr>) (storeException e x w1))) = (Ret (), w3)"
    and active: "activeException (elem w3 e) = Some x"
  shows "write_te V v e w = (Throw x, w3)"
proof -
  have "shielded e (write_started TT_write v e w) w1" using pre_write[OF pre(1)] by simp
  then have e1: "writeTransactionInProgress (elem w1 e)" by (simp add: write_started_def stage_defs)
  have "preWriteAndHandleExceptions V TT_write v e (upd e (\<lambda>t. t\<lparr>writeTransactionInProgress := False\<rparr>) w) =
      (Ret (), storeException e x w1)"
    using pre v by (simp add: preWriteAndHandleExceptions_def handlePreException_def preWrite_def write_started_def)
  moreover have "postWriteAndHandleExceptions V TT_write v e (storeException e x w1) = (Throw x, w3)"
    using post e1 active pre(3)
    by (simp add: postWriteAndHandleExceptions_def reportException_def postWrite_def rethrowActive_def storeException_def)
  ultimately show ?thesis using assms(1) by (simp add: write_te_def noException_def storeException_def)
qed

end

section \<open>Copying into a buffer\<close>

lemma nth_overwrite:
  assumes "p + length bs \<le> length io" "x < length io"
  shows "overwrite p bs io ! x = (if p \<le> x \<and> x < p + length bs then bs ! (x - p) else io ! x)"
  using assms by (auto simp: overwrite_def nth_append)

lemma length_overwrite: "p + length bs \<le> length io \<Longrightarrow> length (overwrite p bs io) = length io"
  by (simp add: overwrite_def)

end
