(* ===== verification/Multiplexing.thy ===== *)
theory Multiplexing
  imports RegisterInfos CompletedTransfers
begin

text \<open>
  The layout part of \<^verbatim>\<open>src/NumericAddressedBackendMuxedRegisterAccessor.cc\<close>: the
  samples of the channels of a 2D register lie multiplexed in one area of the device.
  Channels with the same conversion form a group, and each group walks over the raw buffer
  with one pointer that is moved from sample to sample.  The lemmas show that the walk
  finds every sample at its place, \<open>sample_at\<close>.
\<close>

section \<open>Groups of channels\<close>

text \<open>
  The converter of a group: \<open>conv_size\<close> is the size of its raw type, 0 for \<open>Void\<close>; the
  two functions convert between the bytes of a raw value and the user type.
\<close>

record 'u raw_conv =
  conv_size :: nat
  conv_cook :: "8 word list \<Rightarrow> 'u"
  conv_uncook :: "'u \<Rightarrow> 8 word list"

record mux_channel =
  index :: nat
  offsetToNext :: nat

record 'u channel_group =
  group_channels :: "mux_channel list"
  converterLoopHelper :: "'u raw_conv"
  startOffset :: nat

type_synonym 'u conversion = "channel_info \<Rightarrow> data_type \<Rightarrow> 'u raw_conv outcome"

text \<open>\<open>ConverterInfo\<close>: everything of a channel but its offset.\<close>

type_synonym converter_info = "channel_info \<times> data_type"

definition converterInfo :: "channel_info \<Rightarrow> data_type \<Rightarrow> converter_info" where
  "converterInfo c t = (c\<lparr>bitOffset := 0\<rparr>, t)"

text \<open>The loop over the channels; the list of pairs is \<open>groupInfoMap\<close>.\<close>

fun addChannels ::
  "'u conversion \<Rightarrow> nat \<Rightarrow> (channel_info \<times> data_type) list \<Rightarrow> (converter_info \<times> nat) list \<Rightarrow>
     'u channel_group list \<Rightarrow> ('u channel_group list) outcome" where
  "addChannels conversion i [] m gs = Ret gs"
| "addChannels conversion i ((c, t) # cs) m gs =
     (if bitOffset c mod 8 \<noteq> 0 then Throw (LogicError ''elements must be byte aligned'')
      else case map_of m (converterInfo c t) of
        None \<Rightarrow> bindO (conversion c t) (\<lambda>cv.
          addChannels conversion (Suc i) cs (m @ [(converterInfo c t, length m)])
            (gs @ [\<lparr>group_channels = [\<lparr>index = i, offsetToNext = 0\<rparr>], converterLoopHelper = cv,
                    startOffset = bitOffset c div 8\<rparr>]))
      | Some g \<Rightarrow> addChannels conversion (Suc i) cs m
          (gs[g := (gs ! g)\<lparr>group_channels := group_channels (gs ! g) @ [\<lparr>index = i, offsetToNext = 0\<rparr>]\<rparr>]))"

text \<open>The differences of the offsets are computed as \<open>uint32_t\<close>.\<close>

definition bytesBetween :: "int \<Rightarrow> nat" where
  "bytesBetween bits = nat (bits mod 2 ^ 32) div 8"

definition fillOffsets :: "register_info \<Rightarrow> 'u channel_group \<Rightarrow> 'u channel_group" where
  "fillOffsets r g =
     (let cs = group_channels g; offset = (\<lambda>c. int (bitOffset (channels r ! index c)))
      in g\<lparr>group_channels := map (\<lambda>i. (cs ! i)\<lparr>offsetToNext :=
           (if i < length cs - 1 then bytesBetween (offset (cs ! (i + 1)) - offset (cs ! i))
            else bytesBetween (int (elementPitchBits r) - offset (last cs) + offset (hd cs)))\<rparr>)
           [0 ..< length cs]\<rparr>)"

record 'u muxed =
  mux_info :: register_info
  channelGroups :: "'u channel_group list"
  ioBuffer :: "8 word list"
  buffer_2D :: "'u list list"

text \<open>The constructor; \<open>zero\<close> is the value elements of a new buffer have.\<close>

definition new_muxed :: "'u conversion \<Rightarrow> 'u \<Rightarrow> register_info \<Rightarrow> nat \<Rightarrow> nat \<Rightarrow> 'u muxed outcome" where
  "new_muxed conversion zero r numberOfElements elementsOffset =
     (if elementPitchBits r mod 8 \<noteq> 0 then Throw (LogicError ''blocks must be byte aligned'')
      else bindO (addChannels conversion 0 (zip (channels r) (rawTypes r)) [] []) (\<lambda>groups.
        let n = (if numberOfElements = 0 then nElements r else numberOfElements)
        in if (n + elementsOffset) mod 2 ^ 64 > nElements r then
             Throw (LogicError ''Requested number of elements exceeds the size of the register'')
           else
             let info = r\<lparr>nElements := n mod 2 ^ 32,
                   reg_address := (reg_address r + elementsOffset * elementPitchBits r mod 2 ^ 64 div 8) mod 2 ^ 64\<rparr>
             in Ret \<lparr>mux_info = info, channelGroups = map (fillOffsets r) groups,
                  ioBuffer = replicate (4 * (elementPitchBits r div 8 * nElements info div 4 + 1)) 0,
                  buffer_2D = replicate (length (channels r)) (replicate (nElements info) zero)\<rparr>))"

section \<open>De-multiplexing and multiplexing\<close>

text \<open>
  \<open>doPostReadImpl\<close> and \<open>doPreWriteImpl\<close>: \<open>p\<close> is the position of \<open>rawIterator\<close> in the raw
  buffer.  An access outside of the buffer is undefined and ends the model with \<open>Terminated\<close>.
\<close>

fun postReadChannels ::
  "'u raw_conv \<Rightarrow> 8 word list \<Rightarrow> nat \<Rightarrow> mux_channel list \<Rightarrow> nat \<Rightarrow> 'u list list \<Rightarrow> (nat \<times> 'u list list) outcome" where
  "postReadChannels cv io i [] p buf = Ret (p, buf)"
| "postReadChannels cv io i (c # cs) p buf =
     (if p + conv_size cv > length io then Terminated
      else postReadChannels cv io i cs (p + offsetToNext c)
        (buf[index c := (buf ! index c)[i := conv_cook cv (take (conv_size cv) (drop p io))]]))"

fun postReadSamples ::
  "'u raw_conv \<Rightarrow> 8 word list \<Rightarrow> mux_channel list \<Rightarrow> nat list \<Rightarrow> nat \<Rightarrow> 'u list list \<Rightarrow> 'u list list outcome" where
  "postReadSamples cv io cs [] p buf = Ret buf"
| "postReadSamples cv io cs (i # samples) p buf =
     bindO (postReadChannels cv io i cs p buf) (\<lambda>(p, buf). postReadSamples cv io cs samples p buf)"

definition getNumberOfSamples :: "'u list list \<Rightarrow> nat" where
  "getNumberOfSamples buf = length (buf ! 0)"

definition mux_doPostReadImpl :: "8 word list \<Rightarrow> 'u channel_group \<Rightarrow> 'u list list \<Rightarrow> 'u list list outcome" where
  "mux_doPostReadImpl io g buf =
     (if conv_size (converterLoopHelper g) = 0 then Ret buf
      else postReadSamples (converterLoopHelper g) io (group_channels g) [0 ..< getNumberOfSamples buf] (startOffset g) buf)"

fun preWriteChannels ::
  "'u raw_conv \<Rightarrow> 'u list list \<Rightarrow> nat \<Rightarrow> mux_channel list \<Rightarrow> nat \<Rightarrow> 8 word list \<Rightarrow> (nat \<times> 8 word list) outcome" where
  "preWriteChannels cv buf i [] p io = Ret (p, io)"
| "preWriteChannels cv buf i (c # cs) p io =
     (if p + conv_size cv > length io then Terminated
      else preWriteChannels cv buf i cs (p + offsetToNext c)
        (overwrite p (conv_uncook cv (buf ! index c ! i)) io))"

fun preWriteSamples ::
  "'u raw_conv \<Rightarrow> 'u list list \<Rightarrow> mux_channel list \<Rightarrow> nat list \<Rightarrow> nat \<Rightarrow> 8 word list \<Rightarrow> 8 word list outcome" where
  "preWriteSamples cv buf cs [] p io = Ret io"
| "preWriteSamples cv buf cs (i # samples) p io =
     bindO (preWriteChannels cv buf i cs p io) (\<lambda>(p, io). preWriteSamples cv buf cs samples p io)"

definition mux_doPreWriteImpl :: "'u list list \<Rightarrow> 'u channel_group \<Rightarrow> 8 word list \<Rightarrow> 8 word list outcome" where
  "mux_doPreWriteImpl buf g io =
     (if conv_size (converterLoopHelper g) = 0 then Ret io
      else preWriteSamples (converterLoopHelper g) buf (group_channels g) [0 ..< getNumberOfSamples buf] (startOffset g) io)"

text \<open>The loops over the groups.\<close>

fun postReadGroups :: "8 word list \<Rightarrow> 'u channel_group list \<Rightarrow> 'u list list \<Rightarrow> 'u list list outcome" where
  "postReadGroups io [] buf = Ret buf"
| "postReadGroups io (g # gs) buf = bindO (mux_doPostReadImpl io g buf) (postReadGroups io gs)"

fun preWriteGroups :: "'u list list \<Rightarrow> 'u channel_group list \<Rightarrow> 8 word list \<Rightarrow> 8 word list outcome" where
  "preWriteGroups buf [] io = Ret io"
| "preWriteGroups buf (g # gs) io = bindO (mux_doPreWriteImpl buf g io) (preWriteGroups buf gs)"

section \<open>Where the samples are\<close>

text \<open>The first byte of a channel in a block, and of its sample \<open>i\<close> in the register.\<close>

definition channel_byte :: "register_info \<Rightarrow> nat \<Rightarrow> nat" where
  "channel_byte r j = bitOffset (channels r ! j) div 8"

definition sample_at :: "register_info \<Rightarrow> nat \<Rightarrow> nat \<Rightarrow> nat" where
  "sample_at r j i = i * (elementPitchBits r div 8) + channel_byte r j"

definition sample_bytes :: "register_info \<Rightarrow> nat \<Rightarrow> 8 word list \<Rightarrow> nat \<Rightarrow> nat \<Rightarrow> 8 word list" where
  "sample_bytes r sz io j i = take sz (drop (sample_at r j i) io)"

text \<open>
  The offsets of a list of channels that is walked from \<open>b\<close> on: each step leads to the
  next channel, the last one to \<open>e\<close>.
\<close>

fun linked :: "(nat \<Rightarrow> nat) \<Rightarrow> nat \<Rightarrow> mux_channel list \<Rightarrow> bool" where
  "linked at e [] = True"
| "linked at e [c] = (at (index c) + offsetToNext c = e)"
| "linked at e (c # d # cs) = (at (index c) + offsetToNext c = at (index d) \<and> linked at e (d # cs))"

definition indices :: "mux_channel list \<Rightarrow> nat set" where
  "indices cs = index ` set cs"

lemma indices_simps [simp]: "indices [] = {}" "indices (c # cs) = insert (index c) (indices cs)"
  by (simp_all add: indices_def)

text \<open>The buffer after one sample of some channels, and after all of them.\<close>

definition set_sample :: "nat set \<Rightarrow> nat \<Rightarrow> (nat \<Rightarrow> 'u) \<Rightarrow> 'u list list \<Rightarrow> 'u list list" where
  "set_sample S i v buf = map (\<lambda>j. if j \<in> S then (buf ! j)[i := v j] else buf ! j) [0 ..< length buf]"

lemma set_sample_simps:
  "length (set_sample S i v buf) = length buf"
  "set_sample {} i v buf = buf"
  by (simp_all add: set_sample_def map_nth)

lemma set_sample_insert:
  assumes "j < length buf"
  shows "set_sample S i v (buf[j := (buf ! j)[i := v j]]) = set_sample (insert j S) i v buf"
  using assms by (intro nth_equalityI) (auto simp: set_sample_def nth_list_update)

lemma postReadChannels_linked:
  assumes "linked at e (c # cs)" and "indices (c # cs) \<subseteq> {..< length buf}"
    and "\<forall>j \<in> indices (c # cs). b + at j + conv_size cv \<le> length io"
  shows "postReadChannels cv io i (c # cs) (b + at (index c)) buf =
    Ret (b + e, set_sample (indices (c # cs)) i (\<lambda>j. conv_cook cv (take (conv_size cv) (drop (b + at j) io))) buf)"
  using assms
proof (induction cs arbitrary: c buf)
  case Nil
  then show ?case using set_sample_insert[of "index c" buf "{}" i] by (simp add: set_sample_simps add.assoc)
next
  case (Cons d cs)
  let ?v = "\<lambda>j. conv_cook cv (take (conv_size cv) (drop (b + at j) io))"
  let ?buf = "buf[index c := (buf ! index c)[i := ?v (index c)]]"
  have "b + at (index c) + offsetToNext c = b + at (index d)" using Cons.prems(1) by simp
  moreover have "postReadChannels cv io i (d # cs) (b + at (index d)) ?buf =
      Ret (b + e, set_sample (indices (d # cs)) i ?v ?buf)"
    by (rule Cons.IH) (use Cons.prems in auto)
  moreover have "set_sample (indices (d # cs)) i ?v ?buf = set_sample (indices (c # d # cs)) i ?v buf"
    using Cons.prems(2) set_sample_insert[of "index c" buf "indices (d # cs)" i ?v] by simp
  ultimately show ?case using Cons.prems(3)
    by (simp del: postReadChannels.simps(2) linked.simps add: postReadChannels.simps(2)[of _ _ _ c] add.assoc)
qed

text \<open>The buffer after the samples below \<open>n\<close>.\<close>

definition set_samples :: "nat set \<Rightarrow> nat \<Rightarrow> (nat \<Rightarrow> nat \<Rightarrow> 'u) \<Rightarrow> 'u list list \<Rightarrow> 'u list list" where
  "set_samples S n v buf =
     map (\<lambda>j. if j \<in> S then map (\<lambda>i. if i < n then v j i else buf ! j ! i) [0 ..< length (buf ! j)] else buf ! j)
       [0 ..< length buf]"

lemma set_samples_step:
  assumes "\<forall>j < length buf. length (buf ! j) = m"
  shows "set_sample S n (\<lambda>j. v j n) (set_samples S n v buf) = set_samples S (Suc n) v buf"
proof (rule nth_equalityI)
  show "length (set_sample S n (\<lambda>j. v j n) (set_samples S n v buf)) = length (set_samples S (Suc n) v buf)"
    by (simp add: set_sample_def set_samples_def)
next
  fix j assume "j < length (set_sample S n (\<lambda>j. v j n) (set_samples S n v buf))"
  then have j: "j < length buf" by (simp add: set_sample_def set_samples_def)
  show "set_sample S n (\<lambda>j. v j n) (set_samples S n v buf) ! j = set_samples S (Suc n) v buf ! j"
    using j by (intro nth_equalityI) (auto simp: set_sample_def set_samples_def nth_list_update less_Suc_eq)
qed

lemma postReadSamples_linked:
  assumes "linked at (at (index (hd cs)) + pitch) cs" "cs \<noteq> []" and "indices cs \<subseteq> {..< length buf}"
    and "\<forall>j < length buf. length (buf ! j) = m"
    and "\<forall>j \<in> indices cs. \<forall>i < n. i * pitch + at j + conv_size cv \<le> length io"
  shows "k \<le> n \<Longrightarrow> postReadSamples cv io cs [k ..< n] (k * pitch + at (index (hd cs)))
      (set_samples (indices cs) k (\<lambda>j i. conv_cook cv (take (conv_size cv) (drop (i * pitch + at j) io))) buf) =
    Ret (set_samples (indices cs) n (\<lambda>j i. conv_cook cv (take (conv_size cv) (drop (i * pitch + at j) io))) buf)"
proof (induction "n - k" arbitrary: k)
  case 0
  then show ?case by simp
next
  case (Suc x)
  let ?v = "\<lambda>j i. conv_cook cv (take (conv_size cv) (drop (i * pitch + at j) io))"
  let ?buf = "set_samples (indices cs) k ?v buf"
  have k: "k < n" "x = n - Suc k" using Suc.hyps(2) by simp_all
  have c: "hd cs # tl cs = cs" using assms(2) by simp
  have "postReadChannels cv io k (hd cs # tl cs) (k * pitch + at (index (hd cs))) ?buf =
      Ret (k * pitch + (at (index (hd cs)) + pitch), set_sample (indices (hd cs # tl cs)) k (\<lambda>j. ?v j k) ?buf)"
    by (rule postReadChannels_linked) (use assms k(1) c in \<open>simp_all add: set_samples_def\<close>)
  then have "postReadChannels cv io k cs (k * pitch + at (index (hd cs))) ?buf =
      Ret (Suc k * pitch + at (index (hd cs)), set_samples (indices cs) (Suc k) ?v buf)"
    using set_samples_step[OF assms(4), of "indices cs" k ?v] unfolding c by (simp add: add_ac)
  moreover have "[k ..< n] = k # [Suc k ..< n]" using k(1) by (rule upt_conv_Cons)
  ultimately show ?case using Suc.hyps(1)[OF k(2)] k(1) by simp
qed


section \<open>What the constructor builds\<close>

abbreviation info_key :: "channel_info \<times> data_type \<Rightarrow> converter_info" where
  "info_key p \<equiv> converterInfo (fst p) (snd p)"

text \<open>The state of the loop after \<open>i\<close> channels.\<close>

definition grouped :: "'u conversion \<Rightarrow> (channel_info \<times> data_type) list \<Rightarrow> nat \<Rightarrow> (converter_info \<times> nat) list \<Rightarrow>
    'u channel_group list \<Rightarrow> bool" where
  "grouped conversion infos i m gs =
     (map snd m = [0 ..< length gs] \<and> distinct (map fst m) \<and>
      (\<forall>j < i. info_key (infos ! j) \<in> fst ` set m \<and> bitOffset (fst (infos ! j)) mod 8 = 0) \<and>
      (\<forall>g < length gs. let cs = group_channels (gs ! g); first = infos ! index (hd cs)
         in map index cs = filter (\<lambda>j. info_key (infos ! j) = fst (m ! g)) [0 ..< i] \<and> cs \<noteq> [] \<and>
            startOffset (gs ! g) = bitOffset (fst first) div 8 \<and>
            conversion (fst first) (snd first) = Ret (converterLoopHelper (gs ! g))))"

lemma grouped_lookup:
  assumes "grouped conversion infos i m gs" and "map_of m k = Some g"
  shows "g < length gs \<and> fst (m ! g) = k"
proof -
  have m: "map snd m = [0 ..< length gs]" using assms(1) by (simp add: grouped_def)
  then have len: "length m = length gs" by (metis length_map length_upt minus_nat.diff_0)
  obtain x where x: "x < length m" "m ! x = (k, g)"
    using map_of_SomeD[OF assms(2)] by (auto simp: in_set_conv_nth)
  then have "g = x" using m len by (metis nth_map snd_conv nth_upt add_0)
  with x len show ?thesis by simp
qed

lemma grouped_new:
  assumes inv: "grouped conversion infos i m gs" and new: "map_of m (info_key (infos ! i)) = None"
    and aligned: "bitOffset (fst (infos ! i)) mod 8 = 0" and cv: "conversion (fst (infos ! i)) (snd (infos ! i)) = Ret cv"
  shows "grouped conversion infos (Suc i) (m @ [(info_key (infos ! i), length m)])
    (gs @ [\<lparr>group_channels = [\<lparr>index = i, offsetToNext = 0\<rparr>], converterLoopHelper = cv,
            startOffset = bitOffset (fst (infos ! i)) div 8\<rparr>])"
proof -
  let ?k = "info_key (infos ! i)"
  have m: "map snd m = [0 ..< length gs]" using inv by (simp add: grouped_def)
  then have len: "length m = length gs" by (metis length_map length_upt minus_nat.diff_0)
  have k: "?k \<notin> fst ` set m" using new by (simp add: map_of_eq_None_iff)
  have old: "filter (\<lambda>j. info_key (infos ! j) = ?k) [0 ..< i] = []"
    using inv k unfolding grouped_def filter_empty_conv by (metis atLeastLessThan_iff set_upt)
  have nth: "?k \<noteq> fst (m ! g)" if "g < length gs" for g
    using k len that by (metis image_eqI nth_mem)
  show ?thesis
    using inv m len k old nth aligned cv
    by (auto simp: grouped_def nth_append less_Suc_eq Let_def)
qed

lemma grouped_old:
  assumes inv: "grouped conversion infos i m gs" and old: "map_of m (info_key (infos ! i)) = Some g"
    and aligned: "bitOffset (fst (infos ! i)) mod 8 = 0"
  shows "grouped conversion infos (Suc i) m
    (gs[g := (gs ! g)\<lparr>group_channels := group_channels (gs ! g) @ [\<lparr>index = i, offsetToNext = 0\<rparr>]\<rparr>])"
proof -
  let ?k = "info_key (infos ! i)"
  have g: "g < length gs" "fst (m ! g) = ?k" using grouped_lookup[OF inv old] by auto
  have m: "map snd m = [0 ..< length gs]" "distinct (map fst m)" using inv by (simp_all add: grouped_def)
  then have len: "length m = length gs" by (metis length_map length_upt minus_nat.diff_0)
  have other: "?k \<noteq> fst (m ! h)" if "h < length gs" "h \<noteq> g" for h
    using m(2) g len that by (metis distinct_conv_nth length_map nth_map)
  have "?k \<in> fst ` set m" using g len by (metis image_eqI nth_mem)
  then show ?thesis
    using inv m g other aligned
    by (auto simp: grouped_def nth_list_update less_Suc_eq Let_def)
qed

lemma addChannels_grouped:
  assumes "addChannels conversion i (drop i infos) m gs = Ret gs'" and "grouped conversion infos i m gs"
    and "i \<le> length infos"
  shows "\<exists>m'. grouped conversion infos (length infos) m' gs'"
  using assms
proof (induction "length infos - i" arbitrary: i m gs)
  case 0
  then show ?case by auto
next
  case (Suc x)
  then have i: "i < length infos" "x = length infos - Suc i" by simp_all
  obtain c t where ct: "infos ! i = (c, t)" by fastforce
  have d: "drop i infos = (c, t) # drop (Suc i) infos"
    using Cons_nth_drop_Suc[OF i(1)] ct by simp
  note run = Suc.prems(1)[unfolded d addChannels.simps]
  have aligned: "bitOffset c mod 8 = 0" using run by (auto split: if_splits)
  note IH = Suc.hyps(1)[OF i(2) _ _ Suc_leI[OF i(1)]]
  show ?case
  proof (cases "map_of m (converterInfo c t)")
    case None
    with run aligned obtain cv where cv: "conversion c t = Ret cv" and
      rest: "addChannels conversion (Suc i) (drop (Suc i) infos) (m @ [(converterInfo c t, length m)])
        (gs @ [\<lparr>group_channels = [\<lparr>index = i, offsetToNext = 0\<rparr>], converterLoopHelper = cv,
                startOffset = bitOffset c div 8\<rparr>]) = Ret gs'"
      by (auto simp: bindO_Ret_iff)
    show ?thesis
      by (rule IH[OF rest]) (use grouped_new[OF Suc.prems(2)] None aligned cv ct in auto)
  next
    case (Some g)
    with run aligned have rest: "addChannels conversion (Suc i) (drop (Suc i) infos) m
        (gs[g := (gs ! g)\<lparr>group_channels := group_channels (gs ! g) @ [\<lparr>index = i, offsetToNext = 0\<rparr>]\<rparr>]) = Ret gs'"
      by simp
    show ?thesis
      by (rule IH[OF rest]) (use grouped_old[OF Suc.prems(2)] Some aligned ct in auto)
  qed
qed

text \<open>
  A layout the walk is made for: the channels are in the order of their offsets, and the
  samples of a block lie in the block.
\<close>

definition channel_conv :: "'u conversion \<Rightarrow> register_info \<Rightarrow> nat \<Rightarrow> 'u raw_conv" where
  "channel_conv conversion r j = (case conversion (channels r ! j) (rawTypes r ! j) of Ret cv \<Rightarrow> cv)"

definition ordered_channels :: "'u conversion \<Rightarrow> register_info \<Rightarrow> bool" where
  "ordered_channels conversion r =
     (channels r \<noteq> [] \<and> length (rawTypes r) = length (channels r) \<and> elementPitchBits r < 2 ^ 32 \<and>
      (\<forall>k < length (channels r). \<forall>j < k. bitOffset (channels r ! j) \<le> bitOffset (channels r ! k)) \<and>
      (\<forall>j < length (channels r).
         channel_byte r j + conv_size (channel_conv conversion r j) \<le> elementPitchBits r div 8))"

text \<open>The conversion depends on the parameters in \<open>ConverterInfo\<close> only.\<close>

definition ignores_offset :: "'u conversion \<Rightarrow> bool" where
  "ignores_offset conversion = (\<forall>c t. conversion (c\<lparr>bitOffset := 0\<rparr>) t = conversion c t)"

lemma same_converter:
  assumes "ignores_offset conversion" and "converterInfo c t = converterInfo c' t'"
  shows "conversion c t = conversion c' t'"
  using assms unfolding ignores_offset_def converterInfo_def by (metis Pair_inject)

lemma linked_nth:
  assumes "\<forall>i < length cs. at (index (cs ! i)) + offsetToNext (cs ! i) =
      (if i + 1 < length cs then at (index (cs ! (i + 1))) else e)"
  shows "linked at e cs"
  using assms
proof (induction at e cs rule: linked.induct)
  case (3 at e c d cs)
  have "at (index c) + offsetToNext c = at (index d)" using 3(2) by force
  moreover have "linked at e (d # cs)"
  proof (intro 3(1) allI impI)
    fix i assume "i < length (d # cs)"
    then show "at (index ((d # cs) ! i)) + offsetToNext ((d # cs) ! i) =
        (if i + 1 < length (d # cs) then at (index ((d # cs) ! (i + 1))) else e)"
      using 3(2)[rule_format, of "Suc i"] by simp
  qed
  ultimately show ?case by simp
qed auto

lemma bytesBetween_diff:
  assumes "a \<le> b" "b < 2 ^ 32" "a mod 8 = 0"
  shows "bytesBetween (int b - int a) = b div 8 - a div 8"
proof -
  obtain x z where x: "a = 8 * x" "b = 8 * x + z"
    using assms(1,3) by (metis mod_0_imp_dvd dvdE le_iff_add)
  have "b - a < 2 ^ 32" using assms(2) by (rule less_imp_diff_less)
  then have "(b - a) mod 2 ^ 32 = b - a" by (rule mod_less)
  then have "int (b - a) mod 2 ^ 32 = int (b - a)" using zmod_int[of "b - a" "2 ^ 32"] by simp
  moreover have "int b - int a = int (b - a)" using assms(1) by (rule of_nat_diff[symmetric])
  ultimately have "bytesBetween (int b - int a) = (b - a) div 8" by (simp only: bytesBetween_def nat_int)
  also have "\<dots> = b div 8 - a div 8" by (simp add: x)
  finally show ?thesis .
qed

lemma bytesBetween_last:
  assumes "a \<le> b" "b \<le> p" "p < 2 ^ 32" "a mod 8 = 0" "b mod 8 = 0" "p mod 8 = 0"
  shows "b div 8 + bytesBetween (int p - int b + int a) = a div 8 + p div 8"
proof -
  obtain x y z where x: "a = 8 * x" "b = 8 * y" "p = 8 * z"
    using assms(4-6) by (metis mod_0_imp_dvd dvdE)
  have le: "x \<le> y" "y \<le> z" using assms(1,2) x by simp_all
  have e: "int p - int b + int a = int p - int (b - a)" using assms(1) by (simp add: of_nat_diff)
  have d: "b - a = 8 * (y - x)" by (simp add: x diff_mult_distrib2)
  have "bytesBetween (int p - int (b - a)) = p div 8 - (b - a) div 8"
    using assms(2,3) d by (intro bytesBetween_diff) simp_all
  then show ?thesis unfolding e unfolding d using x le by simp
qed

lemma fillOffsets_simps [simp]:
  "converterLoopHelper (fillOffsets r g) = converterLoopHelper g" "startOffset (fillOffsets r g) = startOffset g"
  "map index (group_channels (fillOffsets r g)) = map index (group_channels g)"
  by (auto simp: fillOffsets_def Let_def intro: nth_equalityI)

lemma fillOffsets_linked:
  assumes js: "map index (group_channels g) = js" "js \<noteq> []" "sorted js"
    and N: "\<forall>j \<in> set js. j < length (channels r) \<and> bitOffset (channels r ! j) mod 8 = 0 \<and>
      bitOffset (channels r ! j) \<le> elementPitchBits r"
    and asc: "\<forall>k < length (channels r). \<forall>j < k. bitOffset (channels r ! j) \<le> bitOffset (channels r ! k)"
    and p: "elementPitchBits r < 2 ^ 32" "elementPitchBits r mod 8 = 0"
  shows "linked (channel_byte r) (channel_byte r (hd js) + elementPitchBits r div 8) (group_channels (fillOffsets r g))"
proof (rule linked_nth, intro allI impI)
  let ?cs = "group_channels (fillOffsets r g)" and ?o = "\<lambda>j. bitOffset (channels r ! j)"
  fix i assume "i < length ?cs"
  then have i: "i < length (group_channels g)" "i < length js"
    using js(1) by (auto simp: fillOffsets_def Let_def)
  have len: "length ?cs = length js" "length (group_channels g) = length js"
    using js(1) by (auto simp: fillOffsets_def Let_def)
  have "map index ?cs = js" using js(1) by simp
  then have ix: "index (?cs ! x) = js ! x" "index (group_channels g ! x) = js ! x" if "x < length js" for x
    using that js(1) len by (metis nth_map)+
  have mono: "?o (js ! x) \<le> ?o (js ! y)" if "x \<le> y" "y < length js" for x y
  proof -
    have "js ! x \<le> js ! y" "js ! y < length (channels r)"
      using js(3) that N by (simp_all add: sorted_nth_mono)
    then show ?thesis using asc by (cases "js ! x = js ! y") auto
  qed
  have al: "?o (js ! x) mod 8 = 0" "?o (js ! x) \<le> elementPitchBits r" if "x < length js" for x
    using that N by auto
  show "channel_byte r (index (?cs ! i)) + offsetToNext (?cs ! i) =
    (if i + 1 < length ?cs then channel_byte r (index (?cs ! (i + 1)))
     else channel_byte r (hd js) + elementPitchBits r div 8)"
  proof (cases "i + 1 < length js")
    case True
    then have "i < length js - Suc 0" by simp
    then have "offsetToNext (?cs ! i) = bytesBetween (int (?o (js ! (i + 1))) - int (?o (js ! i)))"
      using True i(1) len ix(2) by (simp add: fillOffsets_def Let_def)
    also have "\<dots> = ?o (js ! (i + 1)) div 8 - ?o (js ! i) div 8"
      using mono[of i "i + 1"] al(2)[OF True] al(1)[OF i(2)] p(1) True by (intro bytesBetween_diff) auto
    finally show ?thesis
      using True len ix mono[of i "i + 1"] by (simp add: channel_byte_def div_le_mono)
  next
    case False
    then have last: "i = length js - 1" using i(2) by simp
    then have nl: "\<not> i < length js - Suc 0" by simp
    have ne: "group_channels g \<noteq> []" using js(1,2) by auto
    have "index (last (group_channels g)) = js ! i"
      using ix(2)[OF i(2)] last len(2) by (simp add: last_conv_nth[OF ne])
    moreover have "index (hd (group_channels g)) = hd js" using hd_map[OF ne, of index] js(1) by simp
    ultimately have "offsetToNext (?cs ! i) =
        bytesBetween (int (elementPitchBits r) - int (?o (js ! i)) + int (?o (hd js)))"
      using i(1) len nl by (simp add: fillOffsets_def Let_def)
    moreover have "hd js = js ! 0" using js(2) by (simp add: hd_conv_nth)
    ultimately show ?thesis
      using bytesBetween_last[of "?o (hd js)" "?o (js ! i)" "elementPitchBits r"] mono[of 0 i] al[of 0] al[of i] i(2) p
        False len ix(1) js(2)
      by (simp add: channel_byte_def)
  qed
qed

section \<open>De-multiplexing is correct\<close>

text \<open>The groups the constructor has built, for a layout they can be walked over.\<close>

definition group_members :: "'u channel_group \<Rightarrow> nat set" where
  "group_members g = indices (group_channels g)"

definition walkable :: "'u conversion \<Rightarrow> register_info \<Rightarrow> 'u channel_group \<Rightarrow> bool" where
  "walkable conversion r g =
     (let cs = group_channels g in cs \<noteq> [] \<and>
      linked (channel_byte r) (channel_byte r (index (hd cs)) + elementPitchBits r div 8) cs \<and>
      startOffset g = channel_byte r (index (hd cs)) \<and>
      (\<forall>j \<in> group_members g. j < length (channels r) \<and> channel_conv conversion r j = converterLoopHelper g))"

lemma constructed_groups:
  assumes add: "addChannels conversion 0 (zip (channels r) (rawTypes r)) [] [] = Ret groups"
    and ord: "ordered_channels conversion r" and same: "ignores_offset conversion"
    and pitch: "elementPitchBits r mod 8 = 0"
  shows "(\<forall>g \<in> set (map (fillOffsets r) groups). walkable conversion r g) \<and>
    (\<Union>g \<in> set (map (fillOffsets r) groups). group_members g) = {..< length (channels r)} \<and>
    (\<forall>j < length (channels r). \<exists>cv. conversion (channels r ! j) (rawTypes r ! j) = Ret cv)"
proof -
  let ?z = "zip (channels r) (rawTypes r)" and ?n = "length (channels r)"
  have len: "length ?z = ?n" using ord by (simp add: ordered_channels_def)
  have z: "fst (?z ! j) = channels r ! j" "snd (?z ! j) = rawTypes r ! j" if "j < ?n" for j
    using that ord by (simp_all add: ordered_channels_def)
  have "grouped conversion ?z 0 [] []" by (simp add: grouped_def)
  then obtain m where m: "grouped conversion ?z ?n m groups"
    using addChannels_grouped[of conversion 0 ?z] add len by force
  note inv = m[unfolded grouped_def]
  have grp: "map index (group_channels (groups ! g)) = filter (\<lambda>j. info_key (?z ! j) = fst (m ! g)) [0 ..< ?n]"
    "group_channels (groups ! g) \<noteq> []"
    "startOffset (groups ! g) = bitOffset (fst (?z ! index (hd (group_channels (groups ! g))))) div 8"
    "conversion (fst (?z ! index (hd (group_channels (groups ! g))))) (snd (?z ! index (hd (group_channels (groups ! g))))) =
       Ret (converterLoopHelper (groups ! g))" if "g < length groups" for g
    using inv[THEN conjunct2, THEN conjunct2, THEN conjunct2, rule_format, OF that] unfolding Let_def by blast+
  have lenm: "length m = length groups" using inv by (metis length_map length_upt minus_nat.diff_0)
  have members: "group_members (fillOffsets r (groups ! g)) =
      {j. j < ?n \<and> info_key (?z ! j) = fst (m ! g)}" if "g < length groups" for g
  proof -
    have "group_members (fillOffsets r (groups ! g)) = set (map index (group_channels (groups ! g)))"
      by (metis fillOffsets_simps(3) group_members_def indices_def set_map)
    also have "\<dots> = set (filter (\<lambda>j. info_key (?z ! j) = fst (m ! g)) [0 ..< ?n])"
      by (simp only: grp(1)[OF that])
    finally show ?thesis by auto
  qed
  have members_set: "indices (group_channels g) = group_members (fillOffsets r g)" for g :: "'a channel_group"
    by (metis fillOffsets_simps(3) group_members_def indices_def set_map)
  have conv: "conversion (channels r ! j) (rawTypes r ! j) = Ret (converterLoopHelper (groups ! g))"
    if "g < length groups" "j \<in> group_members (fillOffsets r (groups ! g))" for g j
  proof -
    let ?f = "index (hd (group_channels (groups ! g)))"
    have cv: "conversion (fst (?z ! ?f)) (snd (?z ! ?f)) = Ret (converterLoopHelper (groups ! g))"
      and ne: "group_channels (groups ! g) \<noteq> []"
      using grp[OF that(1)] by blast+
    have "?f \<in> group_members (fillOffsets r (groups ! g))"
      using ne unfolding members_set[symmetric] by (simp add: indices_def)
    then have "?f < ?n" "info_key (?z ! ?f) = info_key (?z ! j)" "j < ?n"
      using that members by auto
    then show ?thesis using same_converter[OF same, of "fst (?z ! ?f)" _ "fst (?z ! j)"] cv z by metis
  qed
  have al: "bitOffset (channels r ! j) mod 8 = 0 \<and> info_key (?z ! j) \<in> fst ` set m" if "j < ?n" for j
    using inv that z by metis
  have walk: "walkable conversion r (fillOffsets r (groups ! g))" if g: "g < length groups" for g
  proof -
    let ?g = "groups ! g"
    define js where "js = map index (group_channels ?g)"
    have js: "js \<noteq> []" "set js = group_members (fillOffsets r ?g)"
      using grp(2)[OF g] members_set[of ?g] by (simp_all add: js_def indices_def)
    have sorted: "sorted js" unfolding js_def grp(1)[OF g] by (rule sorted_wrt_filter) simp
    have "\<forall>j \<in> set js. j < ?n \<and> bitOffset (channels r ! j) mod 8 = 0 \<and> bitOffset (channels r ! j) \<le> elementPitchBits r"
    proof
      fix j assume "j \<in> set js"
      then have j: "j < ?n" using js(2) members[OF g] by simp
      then have "channel_byte r j \<le> elementPitchBits r div 8"
        using ord by (auto simp: ordered_channels_def)
      then have "bitOffset (channels r ! j) \<le> elementPitchBits r"
        using al[OF j] by (simp add: channel_byte_def) (metis div_le_mono dvd_div_mult_self mod_0_imp_dvd pitch mult_le_mono1)
      with j al show "j < ?n \<and> bitOffset (channels r ! j) mod 8 = 0 \<and> bitOffset (channels r ! j) \<le> elementPitchBits r"
        by blast
    qed
    then have lk: "linked (channel_byte r) (channel_byte r (hd js) + elementPitchBits r div 8) (group_channels (fillOffsets r ?g))"
      using ord pitch js(1) sorted by (intro fillOffsets_linked[OF js_def[symmetric]]) (auto simp: ordered_channels_def)
    have ne: "group_channels ?g \<noteq> []" "group_channels (fillOffsets r ?g) \<noteq> []"
      using js(1) unfolding js_def by (metis fillOffsets_simps(3) list.map_disc_iff)+
    have hd: "hd js = index (hd (group_channels ?g))" "hd js = index (hd (group_channels (fillOffsets r ?g)))"
      unfolding js_def by (rule hd_map[OF ne(1)])
        (rule trans[OF arg_cong[where f = hd, OF fillOffsets_simps(3)[of r ?g, symmetric]] hd_map[OF ne(2)]])
    have "hd js \<in> group_members (fillOffsets r ?g)" using js by (simp flip: js(2))
    then have "hd js < ?n" using members[OF g] by simp
    then have "startOffset ?g = channel_byte r (hd js)"
      using grp(3)[OF g] z unfolding channel_byte_def hd(1) by metis
    moreover have "channel_conv conversion r j = converterLoopHelper ?g" "j < ?n" if "j \<in> group_members (fillOffsets r ?g)" for j
      using conv[OF g that] that members[OF g] by (simp_all add: channel_conv_def)
    ultimately show ?thesis using lk ne hd by (simp add: walkable_def Let_def)
  qed
  have cover: "\<exists>g < length groups. j \<in> group_members (fillOffsets r (groups ! g))" if "j < ?n" for j
  proof -
    have "info_key (?z ! j) \<in> set (map fst m)" using al[OF that] by simp
    then obtain g where "g < length m" "fst (m ! g) = info_key (?z ! j)" by (auto simp: in_set_conv_nth)
    then show ?thesis using lenm members that by auto
  qed
  show ?thesis
  proof (intro conjI)
    show "\<forall>g \<in> set (map (fillOffsets r) groups). walkable conversion r g"
      using walk by (auto simp: in_set_conv_nth)
    show "(\<Union>g \<in> set (map (fillOffsets r) groups). group_members g) = {..< ?n}"
      using cover members by (fastforce simp: in_set_conv_nth)
    show "\<forall>j < ?n. \<exists>cv. conversion (channels r ! j) (rawTypes r ! j) = Ret cv"
      using cover conv by metis
  qed
qed

text \<open>The reference: each sample is the cooked value of the bytes at its place.\<close>

definition demultiplexed :: "'u conversion \<Rightarrow> register_info \<Rightarrow> 8 word list \<Rightarrow> 'u list list \<Rightarrow> 'u list list" where
  "demultiplexed conversion r io buf = map (\<lambda>j. let cv = channel_conv conversion r j
     in if conv_size cv = 0 then buf ! j
        else map (\<lambda>i. conv_cook cv (sample_bytes r (conv_size cv) io j i)) [0 ..< length (buf ! j)]) [0 ..< length buf]"

definition sized_buffers :: "register_info \<Rightarrow> nat \<Rightarrow> 8 word list \<Rightarrow> 'u list list \<Rightarrow> bool" where
  "sized_buffers r n io buf = (length buf = length (channels r) \<and> (\<forall>j < length buf. length (buf ! j) = n) \<and>
     n * (elementPitchBits r div 8) \<le> length io)"

definition sampled :: "'u conversion \<Rightarrow> register_info \<Rightarrow> 8 word list \<Rightarrow> nat \<Rightarrow> nat \<Rightarrow> 'u" where
  "sampled conversion r io j i = (let cv = channel_conv conversion r j in conv_cook cv (sample_bytes r (conv_size cv) io j i))"

definition active_members :: "'u channel_group \<Rightarrow> nat set" where
  "active_members g = (if conv_size (converterLoopHelper g) = 0 then {} else group_members g)"

lemma sample_inside:
  assumes "ordered_channels conversion r" "j < length (channels r)" "i < n" "n * (elementPitchBits r div 8) \<le> m"
  shows "i * (elementPitchBits r div 8) + channel_byte r j + conv_size (channel_conv conversion r j) \<le> m"
proof -
  have "channel_byte r j + conv_size (channel_conv conversion r j) \<le> elementPitchBits r div 8"
    using assms(1,2) by (simp add: ordered_channels_def)
  moreover have "Suc i * (elementPitchBits r div 8) \<le> n * (elementPitchBits r div 8)"
    using assms(3) by (intro mult_le_mono1) simp
  ultimately show ?thesis using assms(4) by simp
qed

lemma postReadImpl_group:
  assumes w: "walkable conversion r g" and ord: "ordered_channels conversion r" and sz: "sized_buffers r n io buf"
  shows "mux_doPostReadImpl io g buf = Ret (set_samples (active_members g) n (sampled conversion r io) buf)"
proof (cases "conv_size (converterLoopHelper g) = 0")
  case True
  then show ?thesis by (simp add: mux_doPostReadImpl_def active_members_def set_samples_def map_nth)
next
  case False
  let ?cs = "group_channels g" and ?cv = "converterLoopHelper g" and ?P = "elementPitchBits r div 8"
  let ?v = "\<lambda>j i. conv_cook ?cv (take (conv_size ?cv) (drop (i * ?P + channel_byte r j) io))"
  note w' = w[unfolded walkable_def Let_def]
  have "0 < length buf" using sz ord by (simp add: sized_buffers_def ordered_channels_def)
  then have n: "getNumberOfSamples buf = n" using sz unfolding getNumberOfSamples_def sized_buffers_def by blast
  have S: "set_samples S 0 v buf = buf" for S and v :: "nat \<Rightarrow> nat \<Rightarrow> 'a"
    by (intro nth_equalityI) (auto simp: set_samples_def intro: nth_equalityI)
  have "postReadSamples ?cv io ?cs [0 ..< n] (0 * ?P + channel_byte r (index (hd ?cs))) (set_samples (indices ?cs) 0 ?v buf) =
      Ret (set_samples (indices ?cs) n ?v buf)"
  proof (rule postReadSamples_linked)
    show "linked (channel_byte r) (channel_byte r (index (hd ?cs)) + ?P) ?cs" "?cs \<noteq> []" using w' by auto
    show "indices ?cs \<subseteq> {..< length buf}" using w' sz by (auto simp: group_members_def sized_buffers_def)
    show "\<forall>j < length buf. length (buf ! j) = n" using sz by (simp add: sized_buffers_def)
    show "\<forall>j \<in> indices ?cs. \<forall>i < n. i * ?P + channel_byte r j + conv_size ?cv \<le> length io"
    proof (intro ballI allI impI)
      fix j i assume "j \<in> indices ?cs" "i < n"
      moreover from this have "j < length (channels r)" "channel_conv conversion r j = ?cv"
        using w' by (auto simp: group_members_def)
      ultimately show "i * ?P + channel_byte r j + conv_size ?cv \<le> length io"
        using sample_inside[OF ord, of j i n "length io"] sz by (simp add: sized_buffers_def)
    qed
  qed simp
  moreover have "set_samples (indices ?cs) n ?v buf = set_samples (indices ?cs) n (sampled conversion r io) buf"
    using w' by (intro nth_equalityI)
      (auto simp: set_samples_def sampled_def Let_def sample_bytes_def sample_at_def group_members_def)
  ultimately show ?thesis
    using False w' by (simp add: mux_doPostReadImpl_def n S active_members_def group_members_def)
qed

lemma set_samples_all:
  assumes "\<forall>j < length buf. length (buf ! j) = n"
  shows "set_samples S n v buf = map (\<lambda>j. if j \<in> S then map (v j) [0 ..< n] else buf ! j) [0 ..< length buf]"
  using assms unfolding set_samples_def by (intro map_cong refl if_cong) auto

lemma set_samples_union:
  assumes "\<forall>j < length buf. length (buf ! j) = n"
  shows "set_samples T n v (set_samples S n v buf) = set_samples (S \<union> T) n v buf"
proof -
  have "\<forall>j < length (set_samples S n v buf). length (set_samples S n v buf ! j) = n"
    using assms by (simp add: set_samples_def)
  then have "set_samples T n v (set_samples S n v buf) = map (\<lambda>j. if j \<in> T then map (v j) [0 ..< n]
      else set_samples S n v buf ! j) [0 ..< length (set_samples S n v buf)]"
    by (rule set_samples_all)
  also have "\<dots> = set_samples (S \<union> T) n v buf"
    unfolding set_samples_all[OF assms] by (auto intro: nth_equalityI)
  finally show ?thesis .
qed

lemma set_samples_sized: "sized_buffers r n io (set_samples S n' v buf) = sized_buffers r n io buf"
  by (auto simp: sized_buffers_def set_samples_def)

lemma postReadGroups_samples:
  assumes "\<forall>g \<in> set gs. walkable conversion r g" and "ordered_channels conversion r" and "sized_buffers r n io buf"
  shows "postReadGroups io gs buf = Ret (set_samples (\<Union>g \<in> set gs. active_members g) n (sampled conversion r io) buf)"
  using assms
proof (induction gs arbitrary: buf)
  case Nil
  then show ?case by (simp add: set_samples_def map_nth)
next
  case (Cons g gs)
  let ?v = "sampled conversion r io" and ?U = "\<Union>g \<in> set gs. active_members g"
  have "mux_doPostReadImpl io g buf = Ret (set_samples (active_members g) n ?v buf)"
    using Cons.prems by (intro postReadImpl_group) simp_all
  moreover have "postReadGroups io gs (set_samples (active_members g) n ?v buf) =
      Ret (set_samples ?U n ?v (set_samples (active_members g) n ?v buf))"
    using Cons.prems by (intro Cons.IH) (simp_all add: set_samples_sized)
  moreover have "set_samples ?U n ?v (set_samples (active_members g) n ?v buf) =
      set_samples (active_members g \<union> ?U) n ?v buf"
    using Cons.prems(3) by (intro set_samples_union) (simp add: sized_buffers_def)
  ultimately show ?case by simp
qed

lemma active_members_all:
  assumes "\<forall>g \<in> set gs. walkable conversion r g" and "(\<Union>g \<in> set gs. group_members g) = {..< length (channels r)}"
  shows "(\<Union>g \<in> set gs. active_members g) = {j. j < length (channels r) \<and> conv_size (channel_conv conversion r j) \<noteq> 0}"
proof (intro set_eqI iffI)
  fix j assume "j \<in> (\<Union>g \<in> set gs. active_members g)"
  then show "j \<in> {j. j < length (channels r) \<and> conv_size (channel_conv conversion r j) \<noteq> 0}"
    using assms by (fastforce simp: active_members_def walkable_def Let_def split: if_splits)
next
  fix j assume j: "j \<in> {j. j < length (channels r) \<and> conv_size (channel_conv conversion r j) \<noteq> 0}"
  then obtain h where h: "h \<in> set gs" "j \<in> group_members h" using assms by blast
  then have "channel_conv conversion r j = converterLoopHelper h" using assms by (auto simp: walkable_def Let_def)
  then have "j \<in> active_members h" using h j by (simp add: active_members_def)
  then show "j \<in> (\<Union>g \<in> set gs. active_members g)" using h(1) by blast
qed

lemma demultiplexing:
  assumes "addChannels conversion 0 (zip (channels r) (rawTypes r)) [] [] = Ret groups"
    and ord: "ordered_channels conversion r" and "ignores_offset conversion"
    and "elementPitchBits r mod 8 = 0" and sz: "sized_buffers r n io buf"
  shows "postReadGroups io (map (fillOffsets r) groups) buf = Ret (demultiplexed conversion r io buf)"
proof -
  note g = constructed_groups[OF assms(1-4)]
  let ?gs = "map (fillOffsets r) groups" and ?n = "length (channels r)"
  have "(\<Union>g \<in> set ?gs. active_members g) = {j. j < ?n \<and> conv_size (channel_conv conversion r j) \<noteq> 0}"
    using g by (intro active_members_all) simp_all
  moreover have "set_samples {j. j < ?n \<and> conv_size (channel_conv conversion r j) \<noteq> 0} n (sampled conversion r io) buf =
      demultiplexed conversion r io buf"
    using sz by (intro nth_equalityI) (auto simp: set_samples_def demultiplexed_def sized_buffers_def sampled_def Let_def)
  ultimately show ?thesis using postReadGroups_samples[of ?gs conversion r n io buf] g ord sz by simp
qed

section \<open>Multiplexing is correct\<close>

text \<open>Two channels have no byte of a block in common.\<close>

definition separate_channels :: "'u conversion \<Rightarrow> register_info \<Rightarrow> bool" where
  "separate_channels conversion r = (ordered_channels conversion r \<and>
     (\<forall>k < length (channels r). \<forall>j < k. channel_byte r j + conv_size (channel_conv conversion r j) \<le> channel_byte r k))"

definition well_sized :: "'u conversion \<Rightarrow> register_info \<Rightarrow> bool" where
  "well_sized conversion r = (\<forall>j < length (channels r). \<forall>u.
     length (conv_uncook (channel_conv conversion r j) u) = conv_size (channel_conv conversion r j))"

definition covers :: "'u conversion \<Rightarrow> register_info \<Rightarrow> nat \<Rightarrow> nat \<Rightarrow> nat \<Rightarrow> bool" where
  "covers conversion r j i x = (sample_at r j i \<le> x \<and> x < sample_at r j i + conv_size (channel_conv conversion r j))"

definition in_register :: "register_info \<Rightarrow> nat \<Rightarrow> (nat \<times> nat) set \<Rightarrow> bool" where
  "in_register r n W = (W \<subseteq> {..< length (channels r)} \<times> {..< n})"

text \<open>The raw buffer once the samples in \<open>W\<close> are written.\<close>

definition written :: "'u conversion \<Rightarrow> register_info \<Rightarrow> 'u list list \<Rightarrow> (nat \<times> nat) set \<Rightarrow> 8 word list \<Rightarrow> 8 word list \<Rightarrow> bool" where
  "written conversion r buf W io io' = (length io' = length io \<and> (\<forall>x < length io.
     (\<forall>j i. (j, i) \<in> W \<longrightarrow> covers conversion r j i x \<longrightarrow>
        io' ! x = conv_uncook (channel_conv conversion r j) (buf ! j ! i) ! (x - sample_at r j i)) \<and>
     ((\<forall>j i. (j, i) \<in> W \<longrightarrow> \<not> covers conversion r j i x) \<longrightarrow> io' ! x = io ! x)))"

lemma covers_once:
  assumes sep: "separate_channels conversion r" and "covers conversion r j i x" "covers conversion r j' i' x"
    and "j < length (channels r)" "j' < length (channels r)"
  shows "j' = j \<and> i' = i"
proof -
  let ?P = "elementPitchBits r div 8" and ?s = "\<lambda>j. conv_size (channel_conv conversion r j)"
  have fit: "channel_byte r k + ?s k \<le> ?P" if "k < length (channels r)" for k
    using that sep by (simp add: separate_channels_def ordered_channels_def)
  have block: "i1 = x div ?P" if "covers conversion r k i1 x" "k < length (channels r)" for k i1
  proof -
    have "i1 * ?P \<le> x" "x < i1 * ?P + ?P"
      using that fit[of k] by (auto simp: covers_def sample_at_def)
    then show ?thesis by (simp add: div_nat_eqI mult.commute)
  qed
  have i: "i' = i" using block assms by metis
  moreover have "\<not> j < j'" "\<not> j' < j"
    using assms sep i by (fastforce simp: covers_def sample_at_def separate_channels_def)+
  ultimately show ?thesis by simp
qed

lemma written_step:
  assumes w: "written conversion r buf W io io'" and sep: "separate_channels conversion r" and ws: "well_sized conversion r"
    and W: "in_register r n (insert (j, i) W)"
    and fit: "sample_at r j i + conv_size (channel_conv conversion r j) \<le> length io"
  shows "written conversion r buf (insert (j, i) W) io
    (overwrite (sample_at r j i) (conv_uncook (channel_conv conversion r j) (buf ! j ! i)) io')"
proof -
  let ?bs = "conv_uncook (channel_conv conversion r j) (buf ! j ! i)"
  let ?io = "overwrite (sample_at r j i) ?bs io'"
  have j: "j < length (channels r)" using W by (simp add: in_register_def)
  have len: "length ?bs = conv_size (channel_conv conversion r j)" "length io' = length io"
    using ws j w by (simp_all add: well_sized_def written_def)
  have nth: "?io ! x = (if covers conversion r j i x then ?bs ! (x - sample_at r j i) else io' ! x)" if "x < length io" for x
    using that fit len by (simp add: nth_overwrite covers_def)
  have once: "j' = j \<and> i' = i" if "covers conversion r j i x" "covers conversion r j' i' x" "(j', i') \<in> insert (j, i) W" for j' i' x
    using covers_once[OF sep that(1,2) j] that(3) W by (auto simp: in_register_def)
  show ?thesis
    unfolding written_def
  proof (intro conjI allI impI)
    show "length ?io = length io" using fit len by (simp add: length_overwrite)
  next
    fix x j' i'
    assume x: "x < length io" and m: "(j', i') \<in> insert (j, i) W" and c: "covers conversion r j' i' x"
    show "?io ! x = conv_uncook (channel_conv conversion r j') (buf ! j' ! i') ! (x - sample_at r j' i')"
    proof (cases "covers conversion r j i x")
      case True
      then have "j' = j \<and> i' = i" using once[OF _ c m] by simp
      then show ?thesis using nth[OF x] True by simp
    next
      case False
      then have "(j', i') \<in> W" using m c by auto
      then have "io' ! x = conv_uncook (channel_conv conversion r j') (buf ! j' ! i') ! (x - sample_at r j' i')"
        using w x c unfolding written_def by blast
      then show ?thesis using nth[OF x] False by simp
    qed
  next
    fix x assume "x < length io" "\<forall>j' i'. (j', i') \<in> insert (j, i) W \<longrightarrow> \<not> covers conversion r j' i' x"
    moreover from this have "io' ! x = io ! x" using w unfolding written_def by blast
    ultimately show "?io ! x = io ! x" using nth[of x] by simp
  qed
qed

lemma preWriteChannels_written:
  assumes "linked (channel_byte r) e (c # cs)" and "\<forall>j \<in> indices (c # cs). channel_conv conversion r j = cv"
    and "written conversion r buf W io io'" and "in_register r n (W \<union> indices (c # cs) \<times> {i})"
    and "separate_channels conversion r" "well_sized conversion r" "n * (elementPitchBits r div 8) \<le> length io"
  shows "\<exists>io2. preWriteChannels cv buf i (c # cs) (sample_at r (index c) i) io' = Ret (i * (elementPitchBits r div 8) + e, io2) \<and>
    written conversion r buf (W \<union> indices (c # cs) \<times> {i}) io io2"
  using assms
proof (induction cs arbitrary: c W io')
  case Nil
  have fit: "sample_at r (index c) i + conv_size cv \<le> length io"
    using sample_inside[of conversion r "index c" i n "length io"] Nil
    by (simp add: separate_channels_def in_register_def sample_at_def)
  have "written conversion r buf (insert (index c, i) W) io
      (overwrite (sample_at r (index c) i) (conv_uncook (channel_conv conversion r (index c)) (buf ! index c ! i)) io')"
    by (rule written_step[OF Nil(3,5,6)]) (use Nil fit in simp_all)
  then show ?case using Nil fit by (simp add: written_def[of _ _ _ W] sample_at_def)
next
  case (Cons d cs)
  have fit: "sample_at r (index c) i + conv_size cv \<le> length io"
    using sample_inside[of conversion r "index c" i n "length io"] Cons.prems
    by (simp add: separate_channels_def in_register_def sample_at_def)
  let ?io = "overwrite (sample_at r (index c) i) (conv_uncook cv (buf ! index c ! i)) io'"
  have "written conversion r buf (insert (index c, i) W) io
      (overwrite (sample_at r (index c) i) (conv_uncook (channel_conv conversion r (index c)) (buf ! index c ! i)) io')"
    by (rule written_step[OF Cons.prems(3,5,6), of n]) (use Cons.prems fit in \<open>simp_all add: in_register_def\<close>)
  then have w: "written conversion r buf (insert (index c, i) W) io ?io" using Cons.prems(2) by simp
  have un: "insert (index c, i) W \<union> indices (d # cs) \<times> {i} = W \<union> indices (c # d # cs) \<times> {i}" by auto
  have "\<exists>io2. preWriteChannels cv buf i (d # cs) (sample_at r (index d) i) ?io =
      Ret (i * (elementPitchBits r div 8) + e, io2) \<and>
      written conversion r buf (insert (index c, i) W \<union> indices (d # cs) \<times> {i}) io io2"
  proof (rule Cons.IH[OF _ _ w _ Cons.prems(5-7)])
    show "linked (channel_byte r) e (d # cs)" using Cons.prems(1) by simp
    show "\<forall>j \<in> indices (d # cs). channel_conv conversion r j = cv" using Cons.prems(2) by simp
    show "in_register r n (insert (index c, i) W \<union> indices (d # cs) \<times> {i})" using Cons.prems(4) unfolding un .
  qed
  moreover have "sample_at r (index c) i + offsetToNext c = sample_at r (index d) i"
    using Cons.prems(1) by (simp add: sample_at_def)
  moreover have "length io' = length io" using Cons.prems(3) by (simp add: written_def)
  ultimately show ?case using fit un by simp
qed

lemma preWriteSamples_written:
  assumes "linked (channel_byte r) (channel_byte r (index (hd cs)) + elementPitchBits r div 8) cs" "cs \<noteq> []"
    and "\<forall>j \<in> indices cs. channel_conv conversion r j = cv"
    and W: "in_register r n (W \<union> indices cs \<times> {..< n})"
    and s: "separate_channels conversion r" "well_sized conversion r" "n * (elementPitchBits r div 8) \<le> length io"
  shows "k \<le> n \<Longrightarrow> written conversion r buf (W \<union> indices cs \<times> {..< k}) io io' \<Longrightarrow>
    \<exists>io2. preWriteSamples cv buf cs [k ..< n] (sample_at r (index (hd cs)) k) io' = Ret io2 \<and>
      written conversion r buf (W \<union> indices cs \<times> {..< n}) io io2"
proof (induction "n - k" arbitrary: k io')
  case 0
  then show ?case by simp
next
  case (Suc x)
  have k: "k < n" "x = n - Suc k" using Suc.hyps(2) by simp_all
  have c: "hd cs # tl cs = cs" using assms(2) by simp
  have un: "(W \<union> indices cs \<times> {..< k}) \<union> indices cs \<times> {k} = W \<union> indices cs \<times> {..< Suc k}"
    by (auto simp: less_Suc_eq)
  have "in_register r n ((W \<union> indices cs \<times> {..< k}) \<union> indices cs \<times> {k})"
    using W k(1) by (fastforce simp: in_register_def)
  with preWriteChannels_written[of r _ "hd cs" "tl cs" conversion cv buf "W \<union> indices cs \<times> {..< k}" io io' n k,
      unfolded c, OF assms(1,3) Suc.prems(2)] s
  obtain io2 where io2: "preWriteChannels cv buf k cs (sample_at r (index (hd cs)) k) io' =
      Ret (k * (elementPitchBits r div 8) + (channel_byte r (index (hd cs)) + elementPitchBits r div 8), io2)"
    "written conversion r buf (W \<union> indices cs \<times> {..< Suc k}) io io2"
    unfolding un by blast
  have "k * (elementPitchBits r div 8) + (channel_byte r (index (hd cs)) + elementPitchBits r div 8) =
      sample_at r (index (hd cs)) (Suc k)" by (simp add: sample_at_def)
  moreover have "[k ..< n] = k # [Suc k ..< n]" using k(1) by (rule upt_conv_Cons)
  ultimately show ?case using Suc.hyps(1)[OF k(2) _ io2(2)] k(1) io2(1) by simp
qed

lemma preWriteGroups_written:
  assumes "\<forall>g \<in> set gs. walkable conversion r g"
    and s: "separate_channels conversion r" "well_sized conversion r" "sized_buffers r n io buf"
    and "written conversion r buf W io io'" and "in_register r n W"
  shows "\<exists>io2. preWriteGroups buf gs io' = Ret io2 \<and>
    written conversion r buf (W \<union> (\<Union>g \<in> set gs. active_members g) \<times> {..< n}) io io2"
  using assms(1,5,6)
proof (induction gs arbitrary: W io')
  case Nil
  then show ?case by simp
next
  case (Cons g gs)
  let ?cs = "group_channels g" and ?cv = "converterLoopHelper g"
  have w: "walkable conversion r g" using Cons.prems by simp
  note w' = w[unfolded walkable_def Let_def]
  have "0 < length buf" using s by (simp add: sized_buffers_def separate_channels_def ordered_channels_def)
  then have n: "getNumberOfSamples buf = n" using s(3) unfolding getNumberOfSamples_def sized_buffers_def by blast
  have reg: "in_register r n (W \<union> active_members g \<times> {..< n})"
    using Cons.prems(3) w' by (auto simp: in_register_def active_members_def)
  have "\<exists>io1. mux_doPreWriteImpl buf g io' = Ret io1 \<and> written conversion r buf (W \<union> active_members g \<times> {..< n}) io io1"
  proof (cases "conv_size ?cv = 0")
    case True
    then show ?thesis using Cons.prems(2) by (simp add: mux_doPreWriteImpl_def active_members_def)
  next
    case False
    then have act: "active_members g = indices ?cs" by (simp add: active_members_def group_members_def)
    have "\<exists>io1. preWriteSamples ?cv buf ?cs [0 ..< n] (sample_at r (index (hd ?cs)) 0) io' = Ret io1 \<and>
        written conversion r buf (W \<union> indices ?cs \<times> {..< n}) io io1"
      by (rule preWriteSamples_written) (use w' reg s Cons.prems(2) act in \<open>simp_all add: group_members_def sized_buffers_def\<close>)
    then show ?thesis using False w' by (simp add: mux_doPreWriteImpl_def n act sample_at_def)
  qed
  then obtain io1 where io1: "mux_doPreWriteImpl buf g io' = Ret io1"
    "written conversion r buf (W \<union> active_members g \<times> {..< n}) io io1" by blast
  have un: "(W \<union> active_members g \<times> {..< n}) \<union> (\<Union>g \<in> set gs. active_members g) \<times> {..< n} =
      W \<union> (\<Union>g \<in> set (g # gs). active_members g) \<times> {..< n}" by auto
  show ?case using Cons.IH[OF _ io1(2) reg] Cons.prems(1) io1(1) unfolding un by simp
qed

text \<open>
  After \<open>doPreWrite\<close> the raw buffer has the raw value of each sample at its place; the
  bytes between the samples are the ones that were in the buffer before.
\<close>

lemma multiplexing:
  assumes "addChannels conversion 0 (zip (channels r) (rawTypes r)) [] [] = Ret groups"
    and sep: "separate_channels conversion r" and "ignores_offset conversion" and "elementPitchBits r mod 8 = 0"
    and ws: "well_sized conversion r" and sz: "sized_buffers r n io buf"
  shows "\<exists>io'. preWriteGroups buf (map (fillOffsets r) groups) io = Ret io' \<and> length io' = length io \<and>
    (\<forall>j < length (channels r). \<forall>i < n. sample_bytes r (conv_size (channel_conv conversion r j)) io' j i =
       conv_uncook (channel_conv conversion r j) (buf ! j ! i)) \<and>
    (\<forall>x < length io. (\<forall>j < length (channels r). \<forall>i < n. \<not> covers conversion r j i x) \<longrightarrow> io' ! x = io ! x)"
proof -
  have ord: "ordered_channels conversion r" using sep by (simp add: separate_channels_def)
  note g = constructed_groups[OF assms(1) ord assms(3,4)]
  let ?gs = "map (fillOffsets r) groups" and ?N = "length (channels r)"
  have "written conversion r buf {} io io" by (simp add: written_def)
  then obtain io' where io': "preWriteGroups buf ?gs io = Ret io'"
    "written conversion r buf ({j. j < ?N \<and> conv_size (channel_conv conversion r j) \<noteq> 0} \<times> {..< n}) io io'"
    using preWriteGroups_written[of ?gs conversion r n io buf "{}" io] g sep ws sz active_members_all[of ?gs conversion r]
    by (auto simp: in_register_def)
  have len: "length io' = length io" using io'(2) by (simp add: written_def)
  have "sample_bytes r (conv_size (channel_conv conversion r j)) io' j i = conv_uncook (channel_conv conversion r j) (buf ! j ! i)"
    if j: "j < ?N" "i < n" for j i
  proof (rule nth_equalityI)
    let ?s = "conv_size (channel_conv conversion r j)"
    have fit: "sample_at r j i + ?s \<le> length io"
      using sample_inside[OF ord j(1) j(2), of "length io"] sz by (simp add: sized_buffers_def sample_at_def)
    then show "length (sample_bytes r ?s io' j i) = length (conv_uncook (channel_conv conversion r j) (buf ! j ! i))"
      using ws j(1) len by (simp add: sample_bytes_def well_sized_def)
    fix y assume "y < length (sample_bytes r ?s io' j i)"
    then have y: "y < ?s" by (simp add: sample_bytes_def)
    then have "covers conversion r j i (sample_at r j i + y)" by (simp add: covers_def)
    moreover have "(j, i) \<in> {j. j < ?N \<and> conv_size (channel_conv conversion r j) \<noteq> 0} \<times> {..< n}" using j y by simp
    moreover have "sample_at r j i + y < length io" using y fit by simp
    ultimately have "io' ! (sample_at r j i + y) =
        conv_uncook (channel_conv conversion r j) (buf ! j ! i) ! (sample_at r j i + y - sample_at r j i)"
      using io'(2) unfolding written_def by blast
    then show "sample_bytes r ?s io' j i ! y = conv_uncook (channel_conv conversion r j) (buf ! j ! i) ! y"
      using y fit len by (simp add: sample_bytes_def)
  qed
  moreover have "io' ! x = io ! x"
    if "x < length io" "\<forall>j < ?N. \<forall>i < n. \<not> covers conversion r j i x" for x
    using io'(2) that unfolding written_def by blast
  ultimately show ?thesis using io'(1) len by blast
qed

end
