(* ===== verification/MuxedAccessors.thy ===== *)
theory MuxedAccessors
  imports Multiplexing NumericAccessors
begin

text \<open>
  The virtual functions of \<open>NumericAddressedBackendMuxedRegisterAccessor\<close>
  (\<^verbatim>\<open>src/NumericAddressedBackendMuxedRegisterAccessor.cc\<close> and its header) on the layout
  of \<^verbatim>\<open>Multiplexing\<close>, and whole read and write operations on a device that is a
  memory of bytes.  Accessor \<open>e\<close> is the transfer element \<open>e\<close>.
\<close>

section \<open>The accessor\<close>

record ('h, 'u) mux_heap =
  mux_hw :: "nat \<Rightarrow> 'h"
  mux_device :: "nat \<Rightarrow> nat"
  muxes :: "nat \<Rightarrow> 'u muxed"
  mux_lastGenerated :: "64 word"

definition upd_mux :: "nat \<Rightarrow> ('u muxed \<Rightarrow> 'u muxed) \<Rightarrow> ('h, 'u) mux_heap world \<Rightarrow> ('h, 'u) mux_heap world" where
  "upd_mux e f w = w\<lparr>heap := (heap w)\<lparr>muxes := (muxes (heap w))(e := f (muxes (heap w) e))\<rparr>\<rparr>"

definition upd_mux_hw :: "nat \<Rightarrow> 'h \<Rightarrow> ('h, 'u) mux_heap world \<Rightarrow> ('h, 'u) mux_heap world" where
  "upd_mux_hw dev h w = w\<lparr>heap := (heap w)\<lparr>mux_hw := (mux_hw (heap w))(dev := h)\<rparr>\<rparr>"

text \<open>The number of bytes of a transfer, computed as \<open>uint32_t\<close> and rounded up to words.\<close>

definition transferBytes :: "register_info \<Rightarrow> nat" where
  "transferBytes r =
     (let nbt = elementPitchBits r div 8 * nElements r mod 2 ^ 32
      in (nat ((int nbt - 1) mod 2 ^ 32) div 4 + 1) * 4 mod 2 ^ 32)"

definition mux_doPreRead :: "'h na_device \<Rightarrow> nat \<Rightarrow> transfer_type \<Rightarrow> (('h, 'u) mux_heap, unit) action" where
  "mux_doPreRead D e ty w =
     (if \<not> dev_isOpen D (mux_hw (heap w) (mux_device (heap w) e)) then (Throw notOpened, w) else (Ret (), w))"

definition mux_doReadTransferSynchronously :: "'h na_device \<Rightarrow> nat \<Rightarrow> (('h, 'u) mux_heap, unit) action" where
  "mux_doReadTransferSynchronously D e w =
     (let m = muxes (heap w) e; nbt = transferBytes (mux_info m);
          (r, bytes) = dev_read D (reg_bar (mux_info m)) (reg_address (mux_info m)) nbt (take nbt (ioBuffer m))
            (mux_hw (heap w) (mux_device (heap w) e))
      in (r, upd_mux e (\<lambda>m. m\<lparr>ioBuffer := bytes @ drop nbt (ioBuffer m)\<rparr>) w))"

definition mux_doPostRead :: "nat \<Rightarrow> transfer_type \<Rightarrow> bool \<Rightarrow> (('h, 'u) mux_heap, unit) action" where
  "mux_doPostRead e ty hasNewData w =
     (if hasNewData then
        (let m = muxes (heap w) e
         in andThen (postReadGroups (ioBuffer m) (channelGroups m) (buffer_2D m), w) (\<lambda>buf w.
           let (v, g) = newVersion (mux_lastGenerated (heap w));
               w = upd_mux e (\<lambda>m. m\<lparr>buffer_2D := buf\<rparr>) (w\<lparr>heap := (heap w)\<lparr>mux_lastGenerated := g\<rparr>\<rparr>)
           in (Ret (), upd e (\<lambda>t. t\<lparr>versionNumber := v, dataValidity := ok\<rparr>) w)))
      else (Ret (), w))"

definition mux_doPreWrite ::
  "'h na_device \<Rightarrow> nat \<Rightarrow> transfer_type \<Rightarrow> version_number \<Rightarrow> (('h, 'u) mux_heap, unit) action" where
  "mux_doPreWrite D e ty v w =
     (if \<not> dev_isOpen D (mux_hw (heap w) (mux_device (heap w) e)) then (Throw notOpened, w)
      else
        (let m = muxes (heap w) e
         in andThen (preWriteGroups (buffer_2D m) (channelGroups m) (ioBuffer m), w) (\<lambda>io w.
           (Ret (), upd_mux e (\<lambda>m. m\<lparr>ioBuffer := io\<rparr>) w))))"

definition mux_doWriteTransfer :: "'h na_device \<Rightarrow> nat \<Rightarrow> version_number \<Rightarrow> (('h, 'u) mux_heap, bool) action" where
  "mux_doWriteTransfer D e v w =
     (let m = muxes (heap w) e; dev = mux_device (heap w) e;
          (r, h) = dev_write D (reg_bar (mux_info m)) (reg_address (mux_info m))
            (take (transferBytes (mux_info m)) (ioBuffer m)) (mux_hw (heap w) dev)
      in andThen (r, upd_mux_hw dev h w) (\<lambda>_ w. (Ret False, w)))"

definition mux_setException :: "'h na_device \<Rightarrow> nat \<Rightarrow> string \<Rightarrow> (('h, 'u) mux_heap, unit) action" where
  "mux_setException D b msg w = (Ret (), upd_mux_hw b (dev_setException D msg (mux_hw (heap w) b)) w)"

definition muxed_impl :: "'h na_device \<Rightarrow> (('h, 'u) mux_heap) te_impl" where
  "muxed_impl D = \<lparr>doPreRead = mux_doPreRead D,
     doReadTransferSynchronously = mux_doReadTransferSynchronously D,
     doPostRead = mux_doPostRead, doPreWrite = mux_doPreWrite D,
     doWriteTransfer = mux_doWriteTransfer D, doWriteTransferDestructively = mux_doWriteTransfer D,
     doPostWrite = (\<lambda>e ty v w. (Ret (), w)),
     queuePopWait = (\<lambda>e w. (NoReturn, w)), queuePop = (\<lambda>e w. (Ret False, w)),
     backendSetException = mux_setException D\<rparr>"

section \<open>The accessor obeys the contract of the base class\<close>

lemma untouched_mux [simp]:
  "untouched e w (upd_mux i h v') = untouched e w v'" "untouched e w (upd_mux_hw dev x v') = untouched e w v'"
  "untouched e w (v'\<lparr>heap := y\<rparr>) = untouched e w v'"
  by (simp_all add: untouched_def own_calls_def upd_mux_def upd_mux_hw_def)

lemma elem_mux [simp]: "elem (upd_mux i f v) = elem v" "elem (upd_mux_hw dev x v) = elem v"
  by (simp_all add: upd_mux_def upd_mux_hw_def)

lemma own_calls_mux [simp]:
  "own_calls e (upd_mux i f v) = own_calls e v" "own_calls e (upd_mux_hw dev x v) = own_calls e v"
  "own_calls e (v\<lparr>heap := y\<rparr>) = own_calls e v"
  by (simp_all add: upd_mux_def upd_mux_hw_def own_calls_def)

lemmas mux_hook_defs = mux_doPreRead_def mux_doReadTransferSynchronously_def mux_doPreWrite_def mux_doWriteTransfer_def
  mux_setException_def

lemma mux_hooks_frame:
  "mux_doPreRead D f ty w = (r, w') \<Longrightarrow> untouched e w w'"
  "mux_doReadTransferSynchronously D f w = (r, w') \<Longrightarrow> untouched e w w'"
  "mux_doPreWrite D f ty v w = (r, w') \<Longrightarrow> untouched e w w'"
  "mux_doWriteTransfer D f v w = (rb, w') \<Longrightarrow> untouched e w w'"
  "mux_setException D b m w = (r, w') \<Longrightarrow> r = Ret () \<and> untouched e w w'"
  by (auto simp: mux_hook_defs Let_def split: prod.splits if_splits elim!: andThen_cases)

lemma mux_postRead_frame: "mux_doPostRead e ty u w = (r, w') \<Longrightarrow> shielded e w w'"
  by (auto simp: mux_doPostRead_def newVersion_def stage_defs Let_def split: if_splits prod.splits elim!: andThen_cases)

interpretation mux_elements: te_contract "muxed_impl D" e
  for D :: "'h na_device" and e
  by unfold_locales
    (auto simp: muxed_impl_def intro: untouched_frames mux_postRead_frame dest: mux_hooks_frame[where e = e])

section \<open>The accessor between two operations\<close>

definition mux_ok :: "'u conversion \<Rightarrow> 'u muxed \<Rightarrow> bool" where
  "mux_ok conversion m =
     (let r = mux_info m
      in (\<exists>groups. addChannels conversion 0 (zip (channels r) (rawTypes r)) [] [] = Ret groups \<and>
           channelGroups m = map (fillOffsets r) groups) \<and>
         elementPitchBits r mod 8 = 0 \<and> sized_buffers r (nElements r) (ioBuffer m) (buffer_2D m) \<and>
         transferBytes r \<le> length (ioBuffer m) \<and> elementPitchBits r div 8 * nElements r \<le> transferBytes r)"

lemma transferBytes_rounds_up:
  assumes "elementPitchBits r div 8 * nElements r \<noteq> 0" "elementPitchBits r div 8 * nElements r + 4 \<le> 2 ^ 32"
  shows "transferBytes r = (elementPitchBits r div 8 * nElements r + 3) div 4 * 4"
proof -
  define N where "N = elementPitchBits r div 8 * nElements r"
  have N: "0 < N" "N + 4 \<le> 2 ^ 32" using assms by (simp_all add: N_def)
  then have "N mod 2 ^ 32 = N" by simp
  moreover have "nat ((int N - 1) mod 2 ^ 32) = N - 1"
  proof -
    have "int N - 1 = int (N - 1)" using N(1) by (simp add: of_nat_diff)
    moreover have "(N - 1) mod 2 ^ 32 = N - 1" using N(2) by (intro mod_less) linarith
    ultimately have "(int N - 1) mod 2 ^ 32 = int (N - 1)" by (metis of_nat_mod of_nat_numeral of_nat_power)
    then show ?thesis by (simp only: nat_int)
  qed
  moreover have "(N - 1) div 4 + 1 = (N + 3) div 4" 
  proof -
    have "N + 3 = N - 1 + 4" using N(1) by linarith
    then show ?thesis by (simp only: div_add_self2)
  qed
  moreover have "(N + 3) div 4 * 4 < 2 ^ 32"
  proof -
    have "(N + 3) div 4 * 4 \<le> N + 3" by simp
    then show ?thesis using N(2) by linarith
  qed
  ultimately show ?thesis unfolding transferBytes_def N_def[symmetric] Let_def by (simp only: mod_less)
qed

lemma fillOffsets_cong:
  assumes "channels r' = channels r" "elementPitchBits r' = elementPitchBits r"
  shows "fillOffsets r' = fillOffsets r"
  by (rule ext) (simp only: fillOffsets_def assms)

lemma new_muxed_ok:
  assumes new: "new_muxed conversion zero r n off = Ret m"
    and types: "length (rawTypes r) = length (channels r)"
    and n: "nElements r < 2 ^ 32" "n + off < 2 ^ 64" "nElements r + off < 2 ^ 64" "0 < nElements r"
    and p: "8 \<le> elementPitchBits r" "elementPitchBits r div 8 * nElements r + 4 \<le> 2 ^ 32"
  shows "mux_ok conversion m \<and> nElements (mux_info m) = (if n = 0 then nElements r else n) \<and>
    reg_address (mux_info m) = (reg_address r + off * elementPitchBits r mod 2 ^ 64 div 8) mod 2 ^ 64 \<and>
    channels (mux_info m) = channels r \<and> rawTypes (mux_info m) = rawTypes r \<and>
    elementPitchBits (mux_info m) = elementPitchBits r \<and> reg_bar (mux_info m) = reg_bar r"
proof -
  define k where "k = (if n = 0 then nElements r else n)"
  define info where "info = r\<lparr>nElements := k mod 2 ^ 32,
    reg_address := (reg_address r + off * elementPitchBits r mod 2 ^ 64 div 8) mod 2 ^ 64\<rparr>"
  have mod8: "elementPitchBits r mod 8 = 0" using new by (auto simp: new_muxed_def split: if_splits)
  with new obtain groups where g: "addChannels conversion 0 (zip (channels r) (rawTypes r)) [] [] = Ret groups"
    and le: "(k + off) mod 2 ^ 64 \<le> nElements r"
    and m: "m = \<lparr>mux_info = info, channelGroups = map (fillOffsets r) groups,
      ioBuffer = replicate (4 * (elementPitchBits r div 8 * nElements info div 4 + 1)) 0,
      buffer_2D = replicate (length (channels r)) (replicate (nElements info) zero)\<rparr>"
    by (auto simp: new_muxed_def bindO_Ret_iff info_def k_def Let_def split: if_splits)
  have "(k + off) mod 2 ^ 64 = k + off" using n(2,3) by (intro mod_less) (simp add: k_def)
  then have k: "k \<le> nElements r" "0 < k" using le n(4) by (auto simp: k_def)
  then have "k mod 2 ^ 32 = k" using n(1) by simp
  then have info: "nElements info = k" "channels info = channels r" "rawTypes info = rawTypes r"
    "elementPitchBits info = elementPitchBits r" "reg_bar info = reg_bar r"
    "reg_address info = (reg_address r + off * elementPitchBits r mod 2 ^ 64 div 8) mod 2 ^ 64"
    by (simp_all add: info_def)
  define N where "N = elementPitchBits r div 8 * k"
  have "N \<le> elementPitchBits r div 8 * nElements r" using k(1) by (simp add: N_def)
  then have "N + 4 \<le> 2 ^ 32" using p(2) by linarith
  moreover have "N \<noteq> 0" using p(1) k(2) by (simp add: N_def)
  ultimately have N: "N \<noteq> 0" "N + 4 \<le> 2 ^ 32" by simp_all
  then have t: "transferBytes info = (N + 3) div 4 * 4"
    using transferBytes_rounds_up[of info] info by (simp add: N_def)
  have fo: "map (fillOffsets r) groups = map (fillOffsets info) groups"
    by (simp only: fillOffsets_cong[of info r, OF info(2,4)])
  have len: "length (ioBuffer m) = 4 * (N div 4 + 1)" by (simp add: m info N_def)
  have "(N + 3) div 4 * 4 \<le> 4 * (N div 4 + 1)" "N \<le> (N + 3) div 4 * 4" "N \<le> 4 * (N div 4 + 1)" by presburger+
  then have bounds: "transferBytes info \<le> length (ioBuffer m)" "elementPitchBits info div 8 * nElements info \<le> transferBytes info"
    "nElements info * (elementPitchBits info div 8) \<le> length (ioBuffer m)"
    unfolding t len by (simp_all add: info N_def mult.commute)
  have "sized_buffers info (nElements info) (ioBuffer m) (buffer_2D m)"
    using bounds(3) info by (simp add: sized_buffers_def m)
  moreover have "mux_info m = info" "channelGroups m = map (fillOffsets info) groups" by (simp_all add: m fo)
  ultimately have "mux_ok conversion m"
    using g mod8 info bounds(1,2) unfolding mux_ok_def Let_def by simp
  then show ?thesis using info by (simp add: m k_def)
qed

section \<open>Whole operations on a memory\<close>

definition mem_bytes :: "(nat \<Rightarrow> nat \<Rightarrow> 8 word option) \<Rightarrow> nat \<Rightarrow> nat \<Rightarrow> nat \<Rightarrow> 8 word list" where
  "mem_bytes mem bar a n = map (\<lambda>x. the (mem bar (a + x))) [0 ..< n]"

context na_memory
begin

definition mux_reachable :: "register_info \<Rightarrow> 'h \<Rightarrow> bool" where
  "mux_reachable r h = (ready h \<and> inside (reg_bar r) (reg_address r) (transferBytes r) h \<and>
     alignment dvd reg_address r \<and> alignment dvd transferBytes r)"

lemma mux_read:
  fixes w :: "('h, 'u) mux_heap world" and k :: nat
  defines "m \<equiv> muxes (heap w) k"
  defines "r \<equiv> mux_info m" and "h \<equiv> mux_hw (heap w) (mux_device (heap w) k)"
  assumes idle: "idle_element (elem w k)" and reach: "mux_reachable r h"
    and ok: "mux_ok conversion m" "ordered_channels conversion r" "ignores_offset conversion"
  shows "\<exists>w' bs. read_te (muxed_impl D) k w = (Ret (), w') \<and>
    mux_hw (heap w') = mux_hw (heap w) \<and> mux_device (heap w') = mux_device (heap w) \<and>
    length bs = transferBytes r \<and> (\<forall>x < transferBytes r. mem h (reg_bar r) (reg_address r + x) = Some (bs ! x)) \<and>
    muxes (heap w') = (muxes (heap w))(k := m\<lparr>ioBuffer := bs @ drop (transferBytes r) (ioBuffer m),
      buffer_2D := demultiplexed conversion r (bs @ drop (transferBytes r) (ioBuffer m)) (buffer_2D m)\<rparr>)"
proof -
  let ?n = "transferBytes r"
  note mok = ok(1)[unfolded mux_ok_def Let_def, folded r_def]
  define w1 where "w1 = read_started TT_read k w"
  have h1: "heap w1 = heap w" by (simp add: w1_def read_started_def)
  have open_dev: "dev_isOpen D h" using reach by (simp add: mux_reachable_def open_when_ready)
  then have pre: "doPreRead (muxed_impl D) k TT_read (read_started TT_read k w) = (Ret (), w1)"
    by (simp add: muxed_impl_def mux_doPreRead_def w1_def read_started_def h_def)
  have "length (take ?n (ioBuffer m)) = ?n" using mok by simp
  then obtain bs where bs: "dev_read D (reg_bar r) (reg_address r) ?n (take ?n (ioBuffer m)) h = (Ret (), bs)"
    "length bs = ?n" "\<forall>x < ?n. mem h (reg_bar r) (reg_address r + x) = Some (bs ! x)"
    using reach read_mem unfolding mux_reachable_def by meson
  define io where "io = bs @ drop ?n (ioBuffer m)"
  define w2 where "w2 = upd_mux k (\<lambda>m. m\<lparr>ioBuffer := io\<rparr>) (logged (CallReadTransfer k) w1)"
  have m1: "muxes (heap w1) k = m" "mux_hw (heap w1) (mux_device (heap w1) k) = h" by (simp_all add: h1 m_def h_def)
  have tr: "doReadTransferSynchronously (muxed_impl D) k (logged (CallReadTransfer k) w1) = (Ret (), w2)"
    using bs(1) by (simp add: muxed_impl_def mux_doReadTransferSynchronously_def m1 io_def w2_def Let_def upd_mux_def flip: r_def)
  define w2' where "w2' = logged (CallPostRead k TT_read True) (upd k (\<lambda>t. t\<lparr>readTransactionInProgress := False\<rparr>) w2)"
  have m2: "muxes (heap w2') = (muxes (heap w))(k := m\<lparr>ioBuffer := io\<rparr>)" "mux_hw (heap w2') = mux_hw (heap w)"
    "mux_device (heap w2') = mux_device (heap w)"
    by (simp_all add: w2'_def w2_def upd_mux_def h1 m_def)
  have len: "length io = length (ioBuffer m)" using bs(2) mok by (simp add: io_def)
  obtain groups where g: "addChannels conversion 0 (zip (channels r) (rawTypes r)) [] [] = Ret groups"
    "channelGroups m = map (fillOffsets r) groups" using mok by blast
  have sz: "sized_buffers r (nElements r) io (buffer_2D m)" using mok len by (simp add: sized_buffers_def)
  have pg: "postReadGroups io (channelGroups m) (buffer_2D m) = Ret (demultiplexed conversion r io (buffer_2D m))"
    unfolding g(2) using demultiplexing[OF g(1) ok(2,3) _ sz] mok by simp
  define g' where "g' = snd (newVersion (mux_lastGenerated (heap w2')))"
  define w3 where "w3 = upd k (\<lambda>t. t\<lparr>versionNumber := fst (newVersion (mux_lastGenerated (heap w2'))), dataValidity := ok\<rparr>)
    (upd_mux k (\<lambda>m. m\<lparr>buffer_2D := demultiplexed conversion r io (buffer_2D m)\<rparr>)
      (w2'\<lparr>heap := (heap w2')\<lparr>mux_lastGenerated := g'\<rparr>\<rparr>))"
  have post: "doPostRead (muxed_impl D) k TT_read True w2' = (Ret (), w3)"
    using pg by (simp add: muxed_impl_def mux_doPostRead_def m2 w3_def g'_def split_beta upd_mux_def upd_def)
  have "activeException (elem w3 k) = None"
    by (simp add: w3_def w2'_def w2_def w1_def read_started_def upd_mux_def upd_def logged_def)
  then have run: "read_te (muxed_impl D) k w = (Ret (), w3)"
    using mux_elements.read_completes[where D = D and e = k, OF _ _ _ pre tr post[unfolded w2'_def]] idle
    by (simp add: idle_element_def)
  have "mux_hw (heap w3) = mux_hw (heap w)" "mux_device (heap w3) = mux_device (heap w)"
    "muxes (heap w3) = (muxes (heap w))(k := m\<lparr>ioBuffer := io, buffer_2D := demultiplexed conversion r io (buffer_2D m)\<rparr>)"
    by (simp_all add: w3_def upd_mux_def upd_def m2)
  with run bs(2,3) show ?thesis unfolding io_def by (intro exI[of _ w3] exI[of _ bs]) simp
qed

lemma mux_write:
  fixes w :: "('h, 'u) mux_heap world" and k :: nat
  defines "m \<equiv> muxes (heap w) k"
  defines "r \<equiv> mux_info m" and "h \<equiv> mux_hw (heap w) (mux_device (heap w) k)"
  assumes idle: "idle_element (elem w k)" and v: "\<not> v < versionNumber (elem w k)" and reach: "mux_reachable r h"
    and ok: "mux_ok conversion m" "separate_channels conversion r" "ignores_offset conversion" "well_sized conversion r"
  shows "\<exists>w' h' io. write_te (muxed_impl D) v k w = (Ret False, w') \<and> idle_element (elem w' k) \<and>
    mux_device (heap w') = mux_device (heap w) \<and>
    mux_hw (heap w') = (mux_hw (heap w))(mux_device (heap w) k := h') \<and>
    muxes (heap w') = (muxes (heap w))(k := m\<lparr>ioBuffer := io\<rparr>) \<and>
    mux_reachable r h' \<and> length io = length (ioBuffer m) \<and>
    (\<forall>j < length (channels r). \<forall>i < nElements r. sample_bytes r (conv_size (channel_conv conversion r j)) io j i =
       conv_uncook (channel_conv conversion r j) (buffer_2D m ! j ! i)) \<and>
    (\<forall>x < length io. (\<forall>j < length (channels r). \<forall>i < nElements r. \<not> covers conversion r j i x) \<longrightarrow> io ! x = ioBuffer m ! x) \<and>
    (\<forall>b x. mem h' b x = (if b = reg_bar r \<and> reg_address r \<le> x \<and> x < reg_address r + transferBytes r
       then Some (io ! (x - reg_address r)) else mem h b x))"
proof -
  let ?n = "transferBytes r" and ?d = "mux_device (heap w) k"
  note mok = ok(1)[unfolded mux_ok_def Let_def, folded r_def]
  obtain groups where g: "addChannels conversion 0 (zip (channels r) (rawTypes r)) [] [] = Ret groups"
    "channelGroups m = map (fillOffsets r) groups" using mok by blast
  obtain io where io: "preWriteGroups (buffer_2D m) (channelGroups m) (ioBuffer m) = Ret io" "length io = length (ioBuffer m)"
    "\<forall>j < length (channels r). \<forall>i < nElements r. sample_bytes r (conv_size (channel_conv conversion r j)) io j i =
       conv_uncook (channel_conv conversion r j) (buffer_2D m ! j ! i)"
    "\<forall>x < length (ioBuffer m). (\<forall>j < length (channels r). \<forall>i < nElements r. \<not> covers conversion r j i x) \<longrightarrow> io ! x = ioBuffer m ! x"
    unfolding g(2) using multiplexing[OF g(1) ok(2,3) _ ok(4), of "nElements r" "ioBuffer m" "buffer_2D m"] mok
    by auto
  define w0 where "w0 = write_started TT_write v k w"
  define w1 where "w1 = upd_mux k (\<lambda>m. m\<lparr>ioBuffer := io\<rparr>) w0"
  have h0: "heap w0 = heap w" by (simp add: w0_def write_started_def)
  have open_dev: "dev_isOpen D h" using reach by (simp add: mux_reachable_def open_when_ready)
  then have pre: "doPreWrite (muxed_impl D) k TT_write v (write_started TT_write v k w) = (Ret (), w1)"
    using io(1) by (simp add: muxed_impl_def mux_doPreWrite_def w1_def h0 flip: w0_def m_def h_def)
  let ?w1 = "logged (CallWriteTransfer k v) w1"
  have m1: "muxes (heap w1) = (muxes (heap w))(k := m\<lparr>ioBuffer := io\<rparr>)" "mux_hw (heap w1) = mux_hw (heap w)"
    "mux_device (heap w1) = mux_device (heap w)"
    by (simp_all add: w1_def upd_mux_def h0 m_def)
  have len: "length (take ?n io) = ?n" using mok io(2) by simp
  have "alignment dvd reg_address r" "alignment dvd length (take ?n io)" "inside (reg_bar r) (reg_address r) (length (take ?n io)) h" "ready h"
    using reach unfolding len by (simp_all add: mux_reachable_def)
  from write_mem[OF this(4,3,1,2)] obtain h' where h':
    "dev_write D (reg_bar r) (reg_address r) (take ?n io) h = (Ret (), h')" "ready h'"
    "\<forall>b x. mem h' b x = (if b = reg_bar r \<and> reg_address r \<le> x \<and> x < reg_address r + ?n
       then Some (take ?n io ! (x - reg_address r)) else mem h b x)"
    "\<forall>b x n. inside b x n h' = inside b x n h"
    unfolding len by blast
  define w2 where "w2 = upd_mux_hw ?d h' ?w1"
  have tr: "doWriteTransfer (muxed_impl D) k v ?w1 = (Ret False, w2)"
    using h'(1) by (simp add: muxed_impl_def mux_doWriteTransfer_def m1 Let_def w2_def flip: r_def h_def)
  define w3 where "w3 = logged (CallPostWrite k TT_write v) (upd k (\<lambda>t. t\<lparr>writeTransactionInProgress := False\<rparr>) w2)"
  have post: "doPostWrite (muxed_impl D) k TT_write v w3 = (Ret (), w3)" by (simp add: muxed_impl_def)
  have e3: "activeException (elem w3 k) = None" "idle_element (elem w3 k)"
    using idle by (simp_all add: w3_def w2_def w1_def w0_def write_started_def idle_element_def)
  define w4 where "w4 = upd k (\<lambda>t. t\<lparr>versionNumber := v\<rparr>) w3"
  have run: "write_te (muxed_impl D) v k w = (Ret False, w4)"
    using mux_elements.write_completes[where D = D and e = k, OF _ v pre tr post[unfolded w3_def]] e3 idle
    by (simp add: idle_element_def w3_def w4_def)
  have h4: "muxes (heap w4) = (muxes (heap w))(k := m\<lparr>ioBuffer := io\<rparr>)" "mux_hw (heap w4) = (mux_hw (heap w))(?d := h')"
    "mux_device (heap w4) = mux_device (heap w)"
    by (simp_all add: w4_def w3_def w2_def upd_mux_hw_def m1)
  have "mem h' b x = (if b = reg_bar r \<and> reg_address r \<le> x \<and> x < reg_address r + ?n
       then Some (io ! (x - reg_address r)) else mem h b x)" for b x
    using h'(3) by auto
  moreover have "mux_reachable r h'" using reach h'(2,4) by (simp add: mux_reachable_def)
  moreover have "idle_element (elem w4 k)" using e3(2) by (simp add: w4_def idle_element_def)
  ultimately show ?thesis using run h4 io(2-4) by (intro exI[of _ w4] exI[of _ h'] exI[of _ io]) simp
qed

end

section \<open>Properties of the accessor on the simulated device\<close>

lemma mem_bytes_eq:
  assumes "length bs = n" "\<forall>x < n. mem bar (a + x) = Some (bs ! x)" and "p + sz \<le> n"
  shows "take sz (drop p (bs @ rest)) = mem_bytes mem bar (a + p) sz"
  using assms by (intro nth_equalityI) (auto simp: mem_bytes_def nth_append add.assoc)

lemma demultiplexed_nth:
  assumes "j < length buf" "i < length (buf ! j)" "conv_size (channel_conv conversion r j) \<noteq> 0"
  shows "demultiplexed conversion r io buf ! j ! i =
    conv_cook (channel_conv conversion r j) (sample_bytes r (conv_size (channel_conv conversion r j)) io j i)"
  using assms by (simp add: demultiplexed_def Let_def)

lemma sample_in_transfer:
  assumes "mux_ok conversion m" "ordered_channels conversion (mux_info m)"
    and "j < length (channels (mux_info m))" "i < nElements (mux_info m)"
  shows "sample_at (mux_info m) j i + conv_size (channel_conv conversion (mux_info m) j) \<le> transferBytes (mux_info m)"
  using sample_inside[OF assms(2-4), of "transferBytes (mux_info m)"] assms(1)
  by (simp add: mux_ok_def Let_def sample_at_def mult.commute)

text \<open>
  C13: a muxed register is read with one transfer of the whole area, and then element \<open>i\<close> of
  channel \<open>j\<close> is the cooked value of the bytes at sample \<open>i\<close> of the channel, although the
  code walks over the area group by group with relative offsets.
\<close>

theorem muxed_read_demultiplexes:
  fixes w :: "(('d, 'q) dummy_device, 'u) mux_heap world" and k :: nat
  defines "r \<equiv> mux_info (muxes (heap w) k)" and "h \<equiv> mux_hw (heap w) (mux_device (heap w) k)"
  assumes idle: "idle_element (elem w k)" and ready: "dummy_ready h"
    and area: "dummy_inside (reg_bar r) (reg_address r) (transferBytes r) h" "4 dvd reg_address r" "4 dvd transferBytes r"
    and ok: "mux_ok conversion (muxes (heap w) k)" "ordered_channels conversion r" "ignores_offset conversion"
  shows "\<exists>w'. read_te (muxed_impl (dummy_na_device run report)) k w = (Ret (), w') \<and>
    mux_hw (heap w') = mux_hw (heap w) \<and>
    (\<forall>j < length (channels r). \<forall>i < nElements r. conv_size (channel_conv conversion r j) \<noteq> 0 \<longrightarrow>
       buffer_2D (muxes (heap w') k) ! j ! i = conv_cook (channel_conv conversion r j)
         (mem_bytes (dummy_mem h) (reg_bar r) (reg_address r + sample_at r j i) (conv_size (channel_conv conversion r j))))"
proof -
  let ?m = "muxes (heap w) k"
  have "dummy_na.mux_reachable r h" using ready area by (simp add: dummy_na.mux_reachable_def)
  with dummy_na.mux_read[OF idle _ ok(1), where run = run and report = report] ok
  obtain w' bs where w': "read_te (muxed_impl (dummy_na_device run report)) k w = (Ret (), w')"
    "mux_hw (heap w') = mux_hw (heap w)" "length bs = transferBytes r"
    "\<forall>x < transferBytes r. dummy_mem h (reg_bar r) (reg_address r + x) = Some (bs ! x)"
    "muxes (heap w') k = ?m\<lparr>ioBuffer := bs @ drop (transferBytes r) (ioBuffer ?m),
      buffer_2D := demultiplexed conversion r (bs @ drop (transferBytes r) (ioBuffer ?m)) (buffer_2D ?m)\<rparr>"
    unfolding r_def h_def by auto
  have "buffer_2D (muxes (heap w') k) ! j ! i = conv_cook (channel_conv conversion r j)
      (mem_bytes (dummy_mem h) (reg_bar r) (reg_address r + sample_at r j i) (conv_size (channel_conv conversion r j)))"
    if ji: "j < length (channels r)" "i < nElements r" and c: "conv_size (channel_conv conversion r j) \<noteq> 0" for j i
  proof -
    have len: "j < length (buffer_2D ?m)" "i < length (buffer_2D ?m ! j)"
      using ok(1) ji by (simp_all add: mux_ok_def Let_def sized_buffers_def r_def)
    show ?thesis
      using mem_bytes_eq[where mem = "dummy_mem h" and bar = "reg_bar r" and a = "reg_address r" and bs = bs
          and rest = "drop (transferBytes r) (ioBuffer ?m)", OF w'(3,4) sample_in_transfer[OF ok(1) ok(2)[unfolded r_def] ji[unfolded r_def], folded r_def]]
      by (simp add: w'(5) demultiplexed_nth[OF len c] sample_bytes_def)
  qed
  with w'(1,2) show ?thesis by blast
qed

text \<open>
  C14: writing puts the raw value of every element at its place.  No byte before or after
  the transferred area changes; a byte of the area that belongs to no sample, which includes the
  bytes the size of the transfer is rounded up by and which lie after the register, gets
  what the buffer of the accessor had there.
\<close>

theorem muxed_write_places_samples:
  fixes w :: "(('d, 'q) dummy_device, 'u) mux_heap world" and k :: nat
  defines "m \<equiv> muxes (heap w) k"
  defines "r \<equiv> mux_info m" and "h \<equiv> mux_hw (heap w) (mux_device (heap w) k)"
  assumes idle: "idle_element (elem w k)" and v: "versionNumber (elem w k) \<le> v" and ready: "dummy_ready h"
    and area: "dummy_inside (reg_bar r) (reg_address r) (transferBytes r) h" "4 dvd reg_address r" "4 dvd transferBytes r"
    and ok: "mux_ok conversion m" "separate_channels conversion r" "ignores_offset conversion" "well_sized conversion r"
  shows "\<exists>w' h'. write_te (muxed_impl (dummy_na_device run report)) v k w = (Ret False, w') \<and>
    mux_hw (heap w') = (mux_hw (heap w))(mux_device (heap w) k := h') \<and>
    (\<forall>j < length (channels r). \<forall>i < nElements r.
       mem_bytes (dummy_mem h') (reg_bar r) (reg_address r + sample_at r j i) (conv_size (channel_conv conversion r j)) =
         conv_uncook (channel_conv conversion r j) (buffer_2D m ! j ! i)) \<and>
    (\<forall>x < transferBytes r. (\<forall>j < length (channels r). \<forall>i < nElements r. \<not> covers conversion r j i x) \<longrightarrow>
       dummy_mem h' (reg_bar r) (reg_address r + x) = Some (ioBuffer m ! x)) \<and>
    (\<forall>b x. b \<noteq> reg_bar r \<or> x < reg_address r \<or> reg_address r + transferBytes r \<le> x \<longrightarrow> dummy_mem h' b x = dummy_mem h b x)"
proof -
  have "dummy_na.mux_reachable r h" using ready area by (simp add: dummy_na.mux_reachable_def)
  with dummy_na.mux_write[where w = w and k = k and v = v and conversion = conversion and run = run and report = report]
    idle v ok
  obtain w' h' io where w': "write_te (muxed_impl (dummy_na_device run report)) v k w = (Ret False, w')"
    "mux_hw (heap w') = (mux_hw (heap w))(mux_device (heap w) k := h')" "length io = length (ioBuffer m)"
    "\<forall>j < length (channels r). \<forall>i < nElements r. sample_bytes r (conv_size (channel_conv conversion r j)) io j i =
       conv_uncook (channel_conv conversion r j) (buffer_2D m ! j ! i)"
    "\<forall>x < length io. (\<forall>j < length (channels r). \<forall>i < nElements r. \<not> covers conversion r j i x) \<longrightarrow> io ! x = ioBuffer m ! x"
    "\<forall>b x. dummy_mem h' b x = (if b = reg_bar r \<and> reg_address r \<le> x \<and> x < reg_address r + transferBytes r
       then Some (io ! (x - reg_address r)) else dummy_mem h b x)"
    unfolding m_def r_def h_def by (force simp: not_less)
  have le: "transferBytes r \<le> length io" using ok(1) w'(3) by (simp add: mux_ok_def Let_def r_def)
  have ord: "ordered_channels conversion r" using ok(2) by (simp add: separate_channels_def)
  have "mem_bytes (dummy_mem h') (reg_bar r) (reg_address r + sample_at r j i) (conv_size (channel_conv conversion r j)) =
      conv_uncook (channel_conv conversion r j) (buffer_2D m ! j ! i)"
    if ji: "j < length (channels r)" "i < nElements r" for j i
  proof -
    have fit: "sample_at r j i + conv_size (channel_conv conversion r j) \<le> transferBytes r"
      using sample_in_transfer[OF ok(1)] ord ji by (simp add: r_def)
    have "\<forall>x < transferBytes r. dummy_mem h' (reg_bar r) (reg_address r + x) = Some (take (transferBytes r) io ! x)"
      using w'(6) by simp
    from mem_bytes_eq[where mem = "dummy_mem h'" and bar = "reg_bar r" and a = "reg_address r"
        and bs = "take (transferBytes r) io" and rest = "drop (transferBytes r) io", OF _ this fit] le
    have "mem_bytes (dummy_mem h') (reg_bar r) (reg_address r + sample_at r j i) (conv_size (channel_conv conversion r j)) =
        sample_bytes r (conv_size (channel_conv conversion r j)) io j i"
      by (simp add: sample_bytes_def)
    then show ?thesis using w'(4) ji by simp
  qed
  moreover have "dummy_mem h' (reg_bar r) (reg_address r + x) = Some (ioBuffer m ! x)"
    if "x < transferBytes r" "\<forall>j < length (channels r). \<forall>i < nElements r. \<not> covers conversion r j i x" for x
    using w'(5,6) that le by simp
  moreover have "dummy_mem h' b x = dummy_mem h b x"
    if "b \<noteq> reg_bar r \<or> x < reg_address r \<or> reg_address r + transferBytes r \<le> x" for b x
    using w'(6) that by auto
  ultimately show ?thesis using w'(1,2) by blast
qed

text \<open>
  A register of three blocks with two channels of one byte each, on the sample device: its
  6 bytes are transferred as 8.
\<close>

definition byte_conversion :: "(8 word) conversion" where
  "byte_conversion c t = Ret \<lparr>conv_size = 1, conv_cook = hd, conv_uncook = (\<lambda>u. [u])\<rparr>"

definition sample_mux_info :: register_info where
  "sample_mux_info = \<lparr>reg_bar = 0, reg_address = 0, nElements = 3, elementPitchBits = 16, registerAccess = READ_WRITE,
     channels = [\<lparr>bitOffset = 0, dataType = FIXED_POINT, width = 8, nFractionalBits = 0, signedFlag = False\<rparr>,
                 \<lparr>bitOffset = 8, dataType = FIXED_POINT, width = 8, nFractionalBits = 0, signedFlag = False\<rparr>],
     rawTypes = [T_uint8, T_uint8], pathName = registerPath ''mux'', interruptId = [], doubleBuffer = None,
     dataDescriptor = undefined_descriptor, hidden = False\<rparr>"

definition sample_mux :: "(8 word) muxed" where
  "sample_mux = (case new_muxed byte_conversion 9 sample_mux_info 0 0 of Ret m \<Rightarrow> m)"

definition sample_mux_world :: "((unit, string list) dummy_device, 8 word) mux_heap world" where
  "sample_mux_world = \<lparr>elem = (\<lambda>e. new_te ''mux'' {}), calls = [],
     heap = \<lparr>mux_hw = (\<lambda>_. sample_dummy), mux_device = (\<lambda>_. 0), muxes = (\<lambda>_. sample_mux), mux_lastGenerated = 0\<rparr>\<rparr>"

lemma sample_mux_new: "new_muxed byte_conversion 9 sample_mux_info 0 0 = Ret sample_mux"
  by (simp add: sample_mux_def new_muxed_def sample_mux_info_def byte_conversion_def converterInfo_def Let_def)

lemma sample_mux_facts:
  "mux_ok byte_conversion sample_mux" "nElements (mux_info sample_mux) = 3" "reg_address (mux_info sample_mux) = 0"
  "reg_bar (mux_info sample_mux) = 0" "length (channels (mux_info sample_mux)) = 2"
  "channel_byte (mux_info sample_mux) 0 = 0" "channel_byte (mux_info sample_mux) 1 = 1" "elementPitchBits (mux_info sample_mux) = 16"
  using new_muxed_ok[OF sample_mux_new]
  by (simp_all add: sample_mux_info_def channel_byte_def)

lemma sample_mux_layout:
  "channel_conv byte_conversion r j = \<lparr>conv_size = 1, conv_cook = hd, conv_uncook = (\<lambda>u. [u])\<rparr>"
  "separate_channels byte_conversion (mux_info sample_mux)" "ordered_channels byte_conversion (mux_info sample_mux)"
  "ignores_offset byte_conversion" "well_sized byte_conversion r"
  "transferBytes (mux_info sample_mux) = 8" "ioBuffer sample_mux = replicate 8 0" "buffer_2D sample_mux = [replicate 3 9, replicate 3 9]"
proof -
  show c: "channel_conv byte_conversion r j = \<lparr>conv_size = 1, conv_cook = hd, conv_uncook = (\<lambda>u. [u])\<rparr>" for r j
    by (simp add: channel_conv_def byte_conversion_def)
  have "bitOffset (channels (mux_info sample_mux) ! 0) = 0" "bitOffset (channels (mux_info sample_mux) ! Suc 0) = 8"
    using new_muxed_ok[OF sample_mux_new] by (simp_all add: sample_mux_info_def)
  moreover have "rawTypes (mux_info sample_mux) = [T_uint8, T_uint8]" "length (channels (mux_info sample_mux)) = 2"
    using new_muxed_ok[OF sample_mux_new] by (simp_all add: sample_mux_info_def)
  ultimately show "ordered_channels byte_conversion (mux_info sample_mux)"
    using sample_mux_facts by (auto simp: ordered_channels_def c less_2_cases_iff)
  then show "separate_channels byte_conversion (mux_info sample_mux)"
    using sample_mux_facts by (auto simp: separate_channels_def c less_2_cases_iff)
  show "ignores_offset byte_conversion" by (simp add: ignores_offset_def byte_conversion_def)
  show "well_sized byte_conversion r" by (simp add: well_sized_def c)
  show "transferBytes (mux_info sample_mux) = 8"
    using sample_mux_facts by (simp add: transferBytes_rounds_up)
  show "ioBuffer sample_mux = replicate 8 0" "buffer_2D sample_mux = [replicate 3 9, replicate 3 9]"
    by (simp_all add: sample_mux_def new_muxed_def sample_mux_info_def byte_conversion_def converterInfo_def Let_def)
qed

lemma sample_mux_ready:
  "idle_element (elem sample_mux_world 0)" "dummy_ready sample_dummy" "dummy_inside 0 0 8 sample_dummy"
  by (simp_all add: sample_mux_world_def idle_element_def new_te_def has_def sample_dummy_def dummy_ready_def
      dummy_inside_def dummy_isReadOnly_def initial_backend_def)

lemma sample_mux_area:
  "dummy_inside (reg_bar (mux_info sample_mux)) (reg_address (mux_info sample_mux)) (transferBytes (mux_info sample_mux)) sample_dummy"
  "4 dvd reg_address (mux_info sample_mux)" "4 dvd transferBytes (mux_info sample_mux)"
  using sample_mux_ready by (simp_all add: sample_mux_facts sample_mux_layout)

theorem muxed_read_demultiplexes_witness:
  "\<exists>w'. read_te (muxed_impl (dummy_na_device (\<lambda>_ d. d) (\<lambda>_ d. d))) 0 sample_mux_world = (Ret (), w') \<and>
    buffer_2D (muxes (heap w') 0) ! 0 ! 2 = 2 \<and> buffer_2D (muxes (heap w') 0) ! 1 ! 2 = 0"
proof -
  have w: "muxes (heap sample_mux_world) 0 = sample_mux" "mux_hw (heap sample_mux_world) (mux_device (heap sample_mux_world) 0) = sample_dummy"
    by (simp_all add: sample_mux_world_def)
  obtain w' where w': "read_te (muxed_impl (dummy_na_device (\<lambda>_ d. d) (\<lambda>_ d. d))) 0 sample_mux_world = (Ret (), w')"
    "\<forall>j < length (channels (mux_info sample_mux)). \<forall>i < nElements (mux_info sample_mux).
       conv_size (channel_conv byte_conversion (mux_info sample_mux) j) \<noteq> 0 \<longrightarrow>
       buffer_2D (muxes (heap w') 0) ! j ! i = conv_cook (channel_conv byte_conversion (mux_info sample_mux) j)
         (mem_bytes (dummy_mem sample_dummy) (reg_bar (mux_info sample_mux))
            (reg_address (mux_info sample_mux) + sample_at (mux_info sample_mux) j i)
            (conv_size (channel_conv byte_conversion (mux_info sample_mux) j)))"
    using muxed_read_demultiplexes[where w = sample_mux_world and k = 0 and conversion = byte_conversion
        and run = "\<lambda>_ d. d" and report = "\<lambda>_ d. d", unfolded w,
        OF sample_mux_ready(1,2) sample_mux_area sample_mux_facts(1) sample_mux_layout(3,4)]
    by blast
  have v: "buffer_2D (muxes (heap w') 0) ! j ! i = the (dummy_mem sample_dummy 0 (sample_at (mux_info sample_mux) j i))"
    if "j < 2" "i < 3" for j i
    using w'(2) that sample_mux_facts by (simp add: sample_mux_layout mem_bytes_def)
  have "sample_at (mux_info sample_mux) 0 2 = 4" "sample_at (mux_info sample_mux) 1 2 = 5"
    using sample_mux_facts by (simp_all add: sample_at_def)
  then show ?thesis
    using w'(1) v[of 0 2] v[of 1 2] by (auto simp: dummy_mem_def sample_dummy_def byte_of_def)
qed

theorem muxed_write_places_samples_witness:
  "\<exists>w' h'. write_te (muxed_impl (dummy_na_device (\<lambda>_ d. d) (\<lambda>_ d. d))) (VersionNumber 3) 0 sample_mux_world = (Ret False, w') \<and>
    mux_hw (heap w') 0 = h' \<and> mem_bytes (dummy_mem h') 0 5 1 = [9] \<and> dummy_mem h' 0 6 = Some 0 \<and>
    dummy_mem h' 0 8 = dummy_mem sample_dummy 0 8"
proof -
  let ?r = "mux_info sample_mux"
  have w: "muxes (heap sample_mux_world) 0 = sample_mux" "mux_hw (heap sample_mux_world) 0 = sample_dummy"
    "mux_device (heap sample_mux_world) 0 = 0"
    by (simp_all add: sample_mux_world_def)
  have v: "versionNumber (elem sample_mux_world 0) \<le> VersionNumber 3"
    by (simp add: sample_mux_world_def new_te_def nullVersion_def less_eq_version_number_def)
  obtain w' h' where w': "write_te (muxed_impl (dummy_na_device (\<lambda>_ d. d) (\<lambda>_ d. d))) (VersionNumber 3) 0 sample_mux_world = (Ret False, w')"
    "mux_hw (heap w') = (mux_hw (heap sample_mux_world))(0 := h')"
    "\<forall>j < length (channels ?r). \<forall>i < nElements ?r.
       mem_bytes (dummy_mem h') (reg_bar ?r) (reg_address ?r + sample_at ?r j i) (conv_size (channel_conv byte_conversion ?r j)) =
         conv_uncook (channel_conv byte_conversion ?r j) (buffer_2D sample_mux ! j ! i)"
    "\<forall>x < transferBytes ?r. (\<forall>j < length (channels ?r). \<forall>i < nElements ?r. \<not> covers byte_conversion ?r j i x) \<longrightarrow>
       dummy_mem h' (reg_bar ?r) (reg_address ?r + x) = Some (ioBuffer sample_mux ! x)"
    "\<forall>b x. b \<noteq> reg_bar ?r \<or> x < reg_address ?r \<or> reg_address ?r + transferBytes ?r \<le> x \<longrightarrow> dummy_mem h' b x = dummy_mem sample_dummy b x"
    using muxed_write_places_samples[where w = sample_mux_world and k = 0 and conversion = byte_conversion and v = "VersionNumber 3"
        and run = "\<lambda>_ d. d" and report = "\<lambda>_ d. d", unfolded w,
        OF sample_mux_ready(1) v sample_mux_ready(2) sample_mux_area sample_mux_facts(1) sample_mux_layout(2,4,5)]
    by blast
  have at: "sample_at ?r 1 2 = 5" using sample_mux_facts by (simp add: sample_at_def)
  have "mem_bytes (dummy_mem h') 0 5 1 = [9]"
    using w'(3)[rule_format, of 1 2] sample_mux_facts at by (simp add: sample_mux_layout)
  moreover have "\<not> covers byte_conversion ?r j i 6" if "j < 2" "i < 3" for j i
    using that sample_mux_facts by (auto simp: covers_def sample_at_def sample_mux_layout less_2_cases_iff)
  then have "dummy_mem h' 0 6 = Some 0"
    using w'(4)[rule_format, of 6] sample_mux_facts by (simp add: sample_mux_layout)
  moreover have "dummy_mem h' 0 8 = dummy_mem sample_dummy 0 8"
    using w'(5)[rule_format, of 0 8] sample_mux_facts by (simp add: sample_mux_layout)
  ultimately show ?thesis using w'(1,2) by auto
qed

text \<open>
  Channels with the same conversion that are not in the order of their offsets: the step
  from the first to the second one wraps around, and the walk leaves the buffer.
\<close>

lemma descending_channels_leave_buffer:
  "\<exists>m. new_muxed byte_conversion 9 (sample_mux_info\<lparr>channels := rev (channels sample_mux_info)\<rparr>) 0 0 = Ret m \<and>
     postReadGroups (ioBuffer m) (channelGroups m) (buffer_2D m) = Terminated"
proof -
  have "bytesBetween (- 8) = 536870911" by (simp add: bytesBetween_def)
  then show ?thesis
    by (simp add: new_muxed_def sample_mux_info_def byte_conversion_def converterInfo_def Let_def fillOffsets_def
        upt_rec[of 0] mux_doPostReadImpl_def getNumberOfSamples_def)
qed

end
