(* ===== verification/Subdevices.thy ===== *)
theory Subdevices
  imports RegisterInfos CompletedTransfers
begin

text \<open>
  The accessor of \<^verbatim>\<open>backends/Subdevice\<close> for register windows,
  \<^verbatim>\<open>src/SubdeviceRegisterWindowAccessor.cc\<close>: it reaches the registers of several chips through a few
  registers of another device, the target.  The accessors of the target are parameters, in the record
  \<open>sub_target\<close>; each of its functions is a whole \<open>write()\<close> or \<open>read()\<close> of one of them.

  Buffers are the bytes of their elements in memory.  The mutex that is held for the whole
  transfer is left out: a transfer is one step.  Addresses and sizes do not wrap around, and delays
  without polling do nothing.
\<close>

section \<open>The target and the backend\<close>

record 't sub_target =
  tgt_chipSelect :: "(nat \<Rightarrow> 't \<Rightarrow> unit outcome \<times> 't) option"
  tgt_address :: "(nat \<Rightarrow> 't \<Rightarrow> unit outcome \<times> 't) option"
  tgt_writeData :: "(8 word list \<Rightarrow> 't \<Rightarrow> unit outcome \<times> 't) option"
  writeData_setValidity :: "data_validity \<Rightarrow> 't \<Rightarrow> 't"
  tgt_busy :: "('t \<Rightarrow> bool outcome \<times> 't) option"
  tgt_readRequest :: "('t \<Rightarrow> unit outcome \<times> 't) option"
  tgt_readData :: "'t \<Rightarrow> 8 word list outcome \<times> 't"
  readData_validity :: "'t \<Rightarrow> data_validity"
  address_isWriteable :: bool
  writeData_isWriteable :: bool
  busy_isReadable :: bool
  readRequest_isWriteable :: bool
  readData_isReadable :: bool
  sub_isOpen :: "'t \<Rightarrow> bool"
  tgt_setException :: "string \<Rightarrow> 't \<Rightarrow> 't"

datatype subdevice_type = SD_area | SD_threeRegisters | SD_twoRegisters | SD_areaHandshake | SD_registerWindow

record subdevice =
  sd_type :: subdevice_type
  sd_timeout :: nat
  sd_sleepTime :: nat
  sd_chipIndex :: nat

definition needStatusParam :: "subdevice \<Rightarrow> bool" where
  "needStatusParam s = (sd_type s = SD_threeRegisters \<or> sd_type s = SD_areaHandshake)"

text \<open>
  \<open>verifyRegisterAccessorSize\<close>: the number of words it sets; sizes are \<open>size_t\<close>.
\<close>

definition verifyRegisterAccessorSize :: "subdevice \<Rightarrow> register_info \<Rightarrow> nat \<Rightarrow> nat \<Rightarrow> bool \<Rightarrow> nat outcome" where
  "verifyRegisterAccessorSize s info numberOfWords wordOffset forceAlignment =
     (if length (channels info) \<noteq> 1 then Throw (LogicError ''2D multiplexed registers are not yet supported.'')
      else if sd_type s \<in> {SD_threeRegisters, SD_twoRegisters} \<and>
        (wordOffset \<noteq> 0 \<or> numberOfWords \<noteq> 0 \<and> numberOfWords \<noteq> nElements info) then
        Throw (LogicError ''Partial accessors are not supported yet for type threeRegisters and twoRegisters.'')
      else
        let byteOffset = (reg_address info + 4 * wordOffset) mod 2 ^ 64
        in if forceAlignment \<and> byteOffset mod 4 \<noteq> 0 then
             Throw (LogicError ''Only addresses which are a multiple of 4 are supported.'')
           else if numberOfWords > nElements info then Throw (LogicError ''Requested too many elements'')
           else
             let n = (if numberOfWords = 0 then nElements info else numberOfWords)
             in if (n + wordOffset) mod 2 ^ 64 > nElements info then
                  Throw (LogicError ''Requested offset + number of words exceeds the size of the register'')
                else Ret n)"

text \<open>
  An accepted request lies in the register unless offset and length wrap around: then an
  accessor with an offset near the end of \<open>size_t\<close> passes as well.
\<close>

lemma verified_size_fits:
  assumes "verifyRegisterAccessorSize s info numberOfWords wordOffset al = Ret n" and "n + wordOffset < 2 ^ 64"
  shows "n + wordOffset \<le> nElements info \<and> (numberOfWords \<noteq> 0 \<longrightarrow> n = numberOfWords)"
  using assms by (auto simp: verifyRegisterAccessorSize_def Let_def split: if_splits)

lemma verified_offset_wraps:
  assumes "length (channels info) = 1" "sd_type s = SD_registerWindow" "2 \<le> nElements info"
  shows "verifyRegisterAccessorSize s info 2 (2 ^ 64 - 1) False = Ret 2"
  using assms by (simp add: verifyRegisterAccessorSize_def)

section \<open>Waiting for the busy flag\<close>

text \<open>
  The polling loop with \<open>left\<close> more answers \<open>True\<close> to go until it gives up; the quotient
  that computes its length is undefined for a sleep time of 0.
\<close>

definition busyTimeout :: exn where
  "busyTimeout = RuntimeError ''timeout waiting for cleared busy flag''"

fun pollBusy :: "('t \<Rightarrow> bool outcome \<times> 't) \<Rightarrow> nat \<Rightarrow> 't \<Rightarrow> unit outcome \<times> 't" where
  "pollBusy busy left t = andThen (busy t) (\<lambda>b t.
     if \<not> b then (Ret (), t)
     else case left of 0 \<Rightarrow> (Throw busyTimeout, t) | Suc left \<Rightarrow> pollBusy busy left t)"

declare pollBusy.simps [simp del]

definition waitForTransaction :: "subdevice \<Rightarrow> ('t \<Rightarrow> bool outcome \<times> 't) \<Rightarrow> 't \<Rightarrow> unit outcome \<times> 't" where
  "waitForTransaction s busy t =
     (if sd_sleepTime s = 0 then (Terminated, t)
      else pollBusy busy (sd_timeout s * 1000 mod 2 ^ 64 div sd_sleepTime s) t)"

section \<open>The register window\<close>

record window =
  win_startAddress :: nat
  win_endAddress :: nat
  transferSize :: nat
  starTransferAddress :: nat
  endTransferAddress :: nat
  win_buffer :: "8 word list"
  user_buffer :: "8 word list"

text \<open>
  The constructor: \<open>rawBytes\<close> and \<open>dataBytes\<close> are the sizes of \<open>RegisterRawType\<close> and
  \<open>ReadWriteDataType\<close>, \<open>nWrite\<close> and \<open>nRead\<close> the numbers of elements of the data accessors that
  exist.  Without any, or with an empty one, the constructor divides by zero or uses a null pointer.
\<close>

definition new_window :: "register_info \<Rightarrow> nat \<Rightarrow> nat \<Rightarrow> nat \<Rightarrow> nat \<Rightarrow> nat option \<Rightarrow> nat option \<Rightarrow> window outcome" where
  "new_window info numberOfWords wordOffset rawBytes dataBytes nWrite nRead =
     (if nRead \<noteq> None \<and> nWrite \<noteq> None \<and> nRead \<noteq> nWrite then
        Throw (LogicError ''In RegisterWindow mode, read and write data register must have the same size!'')
      else
        let start = reg_address info + elementPitchBits info div 8 * wordOffset;
            stop = start + numberOfWords * rawBytes;
            size = dataBytes * (case nWrite of Some n \<Rightarrow> n | None \<Rightarrow> (case nRead of Some n \<Rightarrow> n | None \<Rightarrow> 0))
        in if size = 0 then Terminated
           else Ret \<lparr>win_startAddress = start, win_endAddress = stop, transferSize = size,
             starTransferAddress = start div size, endTransferAddress = (stop + size - 1) div size,
             win_buffer = replicate (numberOfWords * rawBytes) 0, user_buffer = replicate (numberOfWords * rawBytes) 0\<rparr>)"

text \<open>One pass of the loop in \<open>transferImpl\<close>; \<open>off\<close> is \<open>bufferCopyOffset\<close>.\<close>

definition copyStart :: "window \<Rightarrow> nat \<Rightarrow> nat" where
  "copyStart a adr = max (adr * transferSize a) (win_startAddress a)"

definition copyEnd :: "window \<Rightarrow> nat \<Rightarrow> nat" where
  "copyEnd a adr = min (adr * transferSize a + transferSize a) (win_endAddress a)"

definition deviceAccessorCopyOffset :: "window \<Rightarrow> nat \<Rightarrow> nat" where
  "deviceAccessorCopyOffset a adr =
     (if win_startAddress a > adr * transferSize a then win_startAddress a - adr * transferSize a else 0)"

definition block_to_write :: "window \<Rightarrow> nat \<Rightarrow> nat \<Rightarrow> 8 word list" where
  "block_to_write a adr off =
     (let n = copyEnd a adr - copyStart a adr
      in replicate (deviceAccessorCopyOffset a adr) 0 @ take n (drop off (win_buffer a)) @
         replicate (adr * transferSize a + transferSize a - copyEnd a adr) 0)"

definition setAndWait ::
  "subdevice \<Rightarrow> 't sub_target \<Rightarrow> nat \<Rightarrow> ('t \<Rightarrow> unit outcome \<times> 't) \<Rightarrow> 't \<Rightarrow> unit outcome \<times> 't" where
  "setAndWait s T adr transaction t =
     (case tgt_address T of None \<Rightarrow> (Terminated, t) | Some address \<Rightarrow>
        andThen (address adr t) (\<lambda>_ t. andThen (transaction t) (\<lambda>_ t.
          case tgt_busy T of Some busy \<Rightarrow> waitForTransaction s busy t | None \<Rightarrow> (Ret (), t))))"

fun writeBlocks :: "subdevice \<Rightarrow> 't sub_target \<Rightarrow> window \<Rightarrow> nat list \<Rightarrow> nat \<Rightarrow> 't \<Rightarrow> unit outcome \<times> 't" where
  "writeBlocks s T a [] off t = (Ret (), t)"
| "writeBlocks s T a (adr # adrs) off t =
     andThen (setAndWait s T adr (case tgt_writeData T of Some writeData \<Rightarrow> writeData (block_to_write a adr off)
         | None \<Rightarrow> (\<lambda>t. (Terminated, t))) t) (\<lambda>_ t.
       writeBlocks s T a adrs (off + (copyEnd a adr - copyStart a adr)) t)"

fun readBlocks :: "subdevice \<Rightarrow> 't sub_target \<Rightarrow> window \<Rightarrow> nat list \<Rightarrow> nat \<Rightarrow> 8 word list \<times> 't \<Rightarrow> unit outcome \<times> 8 word list \<times> 't" where
  "readBlocks s T a [] off (buf, t) = (Ret (), buf, t)"
| "readBlocks s T a (adr # adrs) off (buf, t) =
     (case setAndWait s T adr (case tgt_readRequest T of Some request \<Rightarrow> request | None \<Rightarrow> (\<lambda>t. (Terminated, t))) t of (r, t) \<Rightarrow>
        andThen (r, buf, t) (\<lambda>_ (buf, t).
          case tgt_readData T t of (r, t) \<Rightarrow> andThen (r, buf, t) (\<lambda>block (buf, t).
            let n = copyEnd a adr - copyStart a adr
            in readBlocks s T a adrs (off + n)
                 (overwrite off (take n (drop (deviceAccessorCopyOffset a adr) block)) buf, t))))"

definition selectChip :: "subdevice \<Rightarrow> 't sub_target \<Rightarrow> 't \<Rightarrow> unit outcome \<times> 't" where
  "selectChip s T t = (case tgt_chipSelect T of Some select \<Rightarrow> select (sd_chipIndex s) t | None \<Rightarrow> (Ret (), t))"

definition transferAddresses :: "window \<Rightarrow> nat list" where
  "transferAddresses a = [starTransferAddress a ..< endTransferAddress a]"

text \<open>The virtual functions; element \<open>e\<close> is window accessor \<open>e\<close>.\<close>

record 't sub_heap =
  target :: 't
  windows :: "nat \<Rightarrow> window"
  sub_lastGenerated :: "64 word"

definition upd_window :: "nat \<Rightarrow> (window \<Rightarrow> window) \<Rightarrow> 't sub_heap world \<Rightarrow> 't sub_heap world" where
  "upd_window e f w = w\<lparr>heap := (heap w)\<lparr>windows := (windows (heap w))(e := f (windows (heap w) e))\<rparr>\<rparr>"

definition swap_buffers :: "window \<Rightarrow> window" where
  "swap_buffers a = a\<lparr>win_buffer := user_buffer a, user_buffer := win_buffer a\<rparr>"

text \<open>The \<open>catch\<close> block of a transfer: a runtime error is reported to the backend and thrown on.\<close>

definition catchRuntimeError :: "'t sub_target \<Rightarrow> nat \<Rightarrow> ('t sub_heap, unit) action \<Rightarrow> ('t sub_heap, unit) action" where
  "catchRuntimeError T e body w =
     (case body w of
        (Throw x, w) \<Rightarrow>
          (if is_runtime_error x then
             (case exceptionBackend (elem w e) of
                Some b \<Rightarrow> (Throw x, w\<lparr>heap := (heap w)\<lparr>target := tgt_setException T (what x) (target (heap w))\<rparr>\<rparr>)
              | None \<Rightarrow> (Terminated, w))
           else (Throw x, w))
      | r \<Rightarrow> r)"

definition win_doReadTransferSynchronously :: "subdevice \<Rightarrow> 't sub_target \<Rightarrow> nat \<Rightarrow> ('t sub_heap, unit) action" where
  "win_doReadTransferSynchronously s T e = catchRuntimeError T e (\<lambda>w.
     let a = windows (heap w) e;
         (r, buf, t) = (case selectChip s T (target (heap w)) of (r, t) \<Rightarrow>
            andThen (r, win_buffer a, t) (\<lambda>_ (buf, t). readBlocks s T a (transferAddresses a) 0 (buf, t)))
     in (r, upd_window e (\<lambda>a. a\<lparr>win_buffer := buf\<rparr>) (w\<lparr>heap := (heap w)\<lparr>target := t\<rparr>\<rparr>)))"

definition win_doWriteTransfer :: "subdevice \<Rightarrow> 't sub_target \<Rightarrow> nat \<Rightarrow> version_number \<Rightarrow> ('t sub_heap, bool) action" where
  "win_doWriteTransfer s T e v w = andThen (catchRuntimeError T e (\<lambda>w.
     let a = windows (heap w) e;
         (r, t) = andThen (selectChip s T (target (heap w))) (\<lambda>_ t. writeBlocks s T a (transferAddresses a) 0 t)
     in (r, w\<lparr>heap := (heap w)\<lparr>target := t\<rparr>\<rparr>)) w) (\<lambda>_ w. (Ret False, w))"

definition win_doPreRead :: "'t sub_target \<Rightarrow> nat \<Rightarrow> transfer_type \<Rightarrow> ('t sub_heap, unit) action" where
  "win_doPreRead T e ty w =
     (if \<not> sub_isOpen T (target (heap w)) then (Throw (LogicError ''Device is not opened.''), w)
      else if tgt_readRequest T = None then (Throw (LogicError ''Register is not readable''), w)
      else if tgt_address T \<noteq> None \<and> \<not> address_isWriteable T then (Throw (LogicError ''address register is not writeable.''), w)
      else if \<not> readData_isReadable T then (Throw (LogicError ''read data register is not readable.''), w)
      else if tgt_busy T \<noteq> None \<and> \<not> busy_isReadable T then (Throw (LogicError ''status register is not readable.''), w)
      else if \<not> readRequest_isWriteable T then (Throw (LogicError ''read request register is not readable.''), w)
      else (Ret (), w))"

definition win_doPostRead :: "'t sub_target \<Rightarrow> nat \<Rightarrow> transfer_type \<Rightarrow> bool \<Rightarrow> ('t sub_heap, unit) action" where
  "win_doPostRead T e ty hasNewData w =
     (if hasNewData then
        (let (v, g) = newVersion (sub_lastGenerated (heap w));
             valid = readData_validity T (target (heap w));
             w = upd_window e swap_buffers (w\<lparr>heap := (heap w)\<lparr>sub_lastGenerated := g\<rparr>\<rparr>)
         in (Ret (), upd e (\<lambda>t. t\<lparr>versionNumber := v, dataValidity := valid\<rparr>) w))
      else (Ret (), w))"

definition win_doPreWrite ::
  "subdevice \<Rightarrow> 't sub_target \<Rightarrow> nat \<Rightarrow> transfer_type \<Rightarrow> version_number \<Rightarrow> ('t sub_heap, unit) action" where
  "win_doPreWrite s T e ty v w =
     (if \<not> sub_isOpen T (target (heap w)) then (Throw (LogicError ''Device is not opened.''), w)
      else if tgt_writeData T = None then (Throw (LogicError ''Register is nor writeable''), w)
      else if tgt_address T \<noteq> None \<and> \<not> address_isWriteable T then (Throw (LogicError ''address register is not writeable.''), w)
      else if \<not> writeData_isWriteable T then (Throw (LogicError ''write data register is not writeable.''), w)
      else if needStatusParam s \<and> \<not> busy_isReadable T then (Throw (LogicError ''status register is not readable.''), w)
      else
        (let w = upd_window e swap_buffers w;
             t = writeData_setValidity T (dataValidity (elem w e)) (target (heap w))
         in (Ret (), w\<lparr>heap := (heap w)\<lparr>target := t\<rparr>\<rparr>)))"

definition win_doPostWrite :: "nat \<Rightarrow> transfer_type \<Rightarrow> version_number \<Rightarrow> ('t sub_heap, unit) action" where
  "win_doPostWrite e ty v w = (Ret (), upd_window e swap_buffers w)"

definition win_setException :: "'t sub_target \<Rightarrow> nat \<Rightarrow> string \<Rightarrow> ('t sub_heap, unit) action" where
  "win_setException T b m w = (Ret (), w\<lparr>heap := (heap w)\<lparr>target := tgt_setException T m (target (heap w))\<rparr>\<rparr>)"

definition window_impl :: "subdevice \<Rightarrow> 't sub_target \<Rightarrow> ('t sub_heap) te_impl" where
  "window_impl s T = \<lparr>doPreRead = win_doPreRead T,
     doReadTransferSynchronously = win_doReadTransferSynchronously s T,
     doPostRead = win_doPostRead T, doPreWrite = win_doPreWrite s T,
     doWriteTransfer = win_doWriteTransfer s T, doWriteTransferDestructively = win_doWriteTransfer s T,
     doPostWrite = win_doPostWrite,
     queuePopWait = (\<lambda>e w. (NoReturn, w)), queuePop = (\<lambda>e w. (Ret False, w)),
     backendSetException = win_setException T\<rparr>"

section \<open>The accessor obeys the contract of the base class\<close>

lemma untouched_window [simp]:
  "untouched e w (upd_window i h v') = untouched e w v'" "elem (upd_window i h v') = elem v'"
  "own_calls e (upd_window i h v') = own_calls e v'"
  by (simp_all add: untouched_def own_calls_def upd_window_def)

lemma own_calls_sub_heap [simp]: "own_calls e (v'\<lparr>heap := y\<rparr>) = own_calls e v'"
  by (simp add: own_calls_def)

lemma untouched_sub_heap [simp]: "untouched e w ((v' :: 't sub_heap world)\<lparr>heap := y\<rparr>) = untouched e w v'"
  by (simp add: untouched_def own_calls_def)

lemma catchRuntimeError_frame:
  assumes "\<And>r v. body w = (r, v) \<Longrightarrow> untouched e w v" and "catchRuntimeError T f body w = (r, w')"
  shows "untouched e w w'"
  using assms by (cases "body w")
    (auto simp: catchRuntimeError_def split: outcome.splits if_splits option.splits)

lemma win_hooks_frame:
  "win_doPreRead T f ty w = (r, w') \<Longrightarrow> untouched e w w'"
  "win_doReadTransferSynchronously s T f w = (r, w') \<Longrightarrow> untouched e w w'"
  "win_doPreWrite s T f ty v w = (r, w') \<Longrightarrow> untouched e w w'"
  "win_doWriteTransfer s T f v w = (rb, w') \<Longrightarrow> untouched e w w'"
  "win_doPostWrite f ty v w = (r, w') \<Longrightarrow> untouched e w w'"
  "win_setException T b m w = (r, w') \<Longrightarrow> r = Ret () \<and> untouched e w w'"
proof -
  show "win_doPreRead T f ty w = (r, w') \<Longrightarrow> untouched e w w'"
    by (auto simp: win_doPreRead_def split: if_splits)
  show "win_doPreWrite s T f ty v w = (r, w') \<Longrightarrow> untouched e w w'"
    by (auto simp: win_doPreWrite_def Let_def split: if_splits)
  show "win_doPostWrite f ty v w = (r, w') \<Longrightarrow> untouched e w w'"
    by (auto simp: win_doPostWrite_def)
  show "win_setException T b m w = (r, w') \<Longrightarrow> r = Ret () \<and> untouched e w w'"
    by (auto simp: win_setException_def)
  show "win_doReadTransferSynchronously s T f w = (r, w') \<Longrightarrow> untouched e w w'"
    unfolding win_doReadTransferSynchronously_def
    by (erule catchRuntimeError_frame[rotated]) (auto simp: Let_def split: prod.splits)
  have body: "catchRuntimeError T f (\<lambda>w. let a = windows (heap w) f;
       (r, t) = andThen (selectChip s T (target (heap w))) (\<lambda>_ t. writeBlocks s T a (transferAddresses a) 0 t)
     in (r, w\<lparr>heap := (heap w)\<lparr>target := t\<rparr>\<rparr>)) w = (x, w'') \<Longrightarrow> untouched e w w''" for x w''
    by (erule catchRuntimeError_frame[rotated]) (auto simp: Let_def split: prod.splits)
  show "win_doWriteTransfer s T f v w = (rb, w') \<Longrightarrow> untouched e w w'"
    unfolding win_doWriteTransfer_def by (erule andThen_cases; drule body; simp)
qed

lemma win_postRead_frame: "win_doPostRead T e ty u w = (r, w') \<Longrightarrow> shielded e w w'"
  by (auto simp: win_doPostRead_def newVersion_def stage_defs Let_def split: if_splits prod.splits)

interpretation window_elements: te_contract "window_impl s T" e
  for s and T :: "'t sub_target" and e
  by unfold_locales
    (auto simp: window_impl_def intro: untouched_frames win_postRead_frame dest: win_hooks_frame[where e = e])

end
