(* ===== verification/SubdeviceWindows.thy ===== *)
theory SubdeviceWindows
  imports Subdevices
begin

text \<open>
  What the register window accessor of \<^verbatim>\<open>Subdevices\<close> does on a target with the firmware of a
  register window: bytes of a chip are read and written in blocks.
\<close>

section \<open>The firmware of the target\<close>

text \<open>
  The registers as the firmware sees them: the memories of the chips, the selected chip
  and address, the block that was read last, and how often the busy flag will still be
  read as set.
\<close>

record 't firmware =
  fw_ready :: "'t \<Rightarrow> bool"
  fw_mem :: "'t \<Rightarrow> nat \<Rightarrow> nat \<Rightarrow> 8 word"
  fw_chip :: "'t \<Rightarrow> nat"
  fw_adr :: "'t \<Rightarrow> nat"
  fw_latch :: "'t \<Rightarrow> 8 word list"
  fw_wait :: "'t \<Rightarrow> nat"

definition fw_is :: "'t firmware \<Rightarrow> 't \<Rightarrow> (nat \<Rightarrow> nat \<Rightarrow> 8 word) \<Rightarrow> nat \<Rightarrow> nat \<Rightarrow> 8 word list \<Rightarrow> nat \<Rightarrow> bool" where
  "fw_is F t m c a l n = (fw_ready F t \<and> fw_mem F t = m \<and> fw_chip F t = c \<and> fw_adr F t = a \<and> fw_latch F t = l \<and> fw_wait F t = n)"

definition store_block :: "nat \<Rightarrow> nat \<Rightarrow> nat \<Rightarrow> 8 word list \<Rightarrow> (nat \<Rightarrow> nat \<Rightarrow> 8 word) \<Rightarrow> nat \<Rightarrow> nat \<Rightarrow> 8 word" where
  "store_block blk c a bs m = (\<lambda>c' x. if c' = c \<and> a * blk \<le> x \<and> x < a * blk + blk then bs ! (x - a * blk) else m c' x)"

definition load_block :: "nat \<Rightarrow> nat \<Rightarrow> nat \<Rightarrow> (nat \<Rightarrow> nat \<Rightarrow> 8 word) \<Rightarrow> 8 word list" where
  "load_block blk c a m = map (m c) [a * blk ..< a * blk + blk]"

text \<open>
  The accessors of the target do what their registers are for, and the busy flag is cleared
  after at most \<open>limit\<close> readings.
\<close>

definition window_firmware :: "'t sub_target \<Rightarrow> 't firmware \<Rightarrow> nat \<Rightarrow> nat \<Rightarrow> bool" where
  "window_firmware T F blk limit = (\<forall>t m c a l n. fw_is F t m c a l n \<longrightarrow>
     (\<forall>f c'. tgt_chipSelect T = Some f \<longrightarrow> (\<exists>t'. f c' t = (Ret (), t') \<and> fw_is F t' m c' a l n)) \<and>
     (\<forall>a'. \<exists>f t'. tgt_address T = Some f \<and> f a' t = (Ret (), t') \<and> fw_is F t' m c a' l n) \<and>
     (\<forall>f bs. tgt_writeData T = Some f \<longrightarrow> length bs = blk \<longrightarrow>
        (\<exists>t' n'. f bs t = (Ret (), t') \<and> fw_is F t' (store_block blk c a bs m) c a l n' \<and> n' \<le> limit)) \<and>
     (\<forall>f. tgt_readRequest T = Some f \<longrightarrow>
        (\<exists>t' n'. f t = (Ret (), t') \<and> fw_is F t' m c a (load_block blk c a m) n' \<and> n' \<le> limit)) \<and>
     (\<forall>f. tgt_busy T = Some f \<longrightarrow> (\<exists>t'. f t = (Ret (0 < n), t') \<and> fw_is F t' m c a l (n - 1))) \<and>
     (\<exists>t'. tgt_readData T t = (Ret l, t') \<and> fw_is F t' m c a l n) \<and>
     (\<forall>v. fw_is F (writeData_setValidity T v t) m c a l n))"

lemma firmware_laws:
  assumes "window_firmware T F blk limit" and "fw_is F t m c a l n"
  shows "\<And>f c'. tgt_chipSelect T = Some f \<Longrightarrow> \<exists>t'. f c' t = (Ret (), t') \<and> fw_is F t' m c' a l n"
    and "\<And>a'. \<exists>f t'. tgt_address T = Some f \<and> f a' t = (Ret (), t') \<and> fw_is F t' m c a' l n"
    and "\<And>f bs. tgt_writeData T = Some f \<Longrightarrow> length bs = blk \<Longrightarrow>
      \<exists>t' n'. f bs t = (Ret (), t') \<and> fw_is F t' (store_block blk c a bs m) c a l n' \<and> n' \<le> limit"
    and "\<And>f. tgt_readRequest T = Some f \<Longrightarrow>
      \<exists>t' n'. f t = (Ret (), t') \<and> fw_is F t' m c a (load_block blk c a m) n' \<and> n' \<le> limit"
    and "\<And>f. tgt_busy T = Some f \<Longrightarrow> \<exists>t'. f t = (Ret (0 < n), t') \<and> fw_is F t' m c a l (n - 1)"
    and "\<exists>t'. tgt_readData T t = (Ret l, t') \<and> fw_is F t' m c a l n"
    and "\<And>v. fw_is F (writeData_setValidity T v t) m c a l n"
  using assms(1)[unfolded window_firmware_def, rule_format, OF assms(2)] by blast+

definition patient :: "subdevice \<Rightarrow> nat \<Rightarrow> bool" where
  "patient s limit = (sd_sleepTime s \<noteq> 0 \<and> limit \<le> sd_timeout s * 1000 mod 2 ^ 64 div sd_sleepTime s)"

lemma pollBusy_returns:
  assumes fw: "window_firmware T F blk limit" and busy: "tgt_busy T = Some busy"
  shows "fw_is F t m c a l n \<Longrightarrow> n \<le> left \<Longrightarrow> \<exists>t'. pollBusy busy left t = (Ret (), t') \<and> fw_is F t' m c a l 0"
proof (induction left arbitrary: t n)
  case 0
  then obtain t' where "busy t = (Ret False, t')" "fw_is F t' m c a l 0"
    using firmware_laws(5)[OF fw 0(1) busy] by auto
  then show ?case by (simp add: pollBusy.simps)
next
  case (Suc left)
  obtain t' where t': "busy t = (Ret (0 < n), t')" "fw_is F t' m c a l (n - 1)"
    using firmware_laws(5)[OF fw Suc(2) busy] by auto
  show ?case
  proof (cases n)
    case 0
    then show ?thesis using t' by (simp add: pollBusy.simps)
  next
    case (Suc k)
    then have "n - 1 \<le> left" using Suc.prems(2) by simp
    from Suc.IH[OF t'(2) this] show ?thesis using t'(1) Suc by (simp add: pollBusy.simps[of busy "Suc left"])
  qed
qed

text \<open>The flag stays set: the loop gives up after one reading more than its limit.\<close>

lemma pollBusy_gives_up:
  assumes "\<And>t. P t \<Longrightarrow> \<exists>t'. busy t = (Ret True, t') \<and> P t'"
  shows "P t \<Longrightarrow> \<exists>t'. pollBusy busy left t = (Throw busyTimeout, t') \<and> P t'"
proof (induction left arbitrary: t)
  case 0
  then show ?case using assms[OF 0] by (auto simp: pollBusy.simps)
next
  case (Suc left)
  then obtain t' where "busy t = (Ret True, t')" "P t'" using assms by blast
  then show ?case using Suc.IH[of t'] by (auto simp: pollBusy.simps[of busy "Suc left"])
qed

section \<open>One transaction\<close>

lemma setAndWait_returns:
  assumes fw: "window_firmware T F blk limit" and pat: "patient s limit" and t: "fw_is F t m c a l n"
    and tr: "\<And>t1. fw_is F t1 m c adr l n \<Longrightarrow> \<exists>t2 n2. f t1 = (Ret (), t2) \<and> fw_is F t2 m' c adr l' n2 \<and> n2 \<le> limit"
  shows "\<exists>t3 n3. setAndWait s T adr f t = (Ret (), t3) \<and> fw_is F t3 m' c adr l' n3"
proof -
  obtain g t1 where g: "tgt_address T = Some g" "g adr t = (Ret (), t1)" "fw_is F t1 m c adr l n"
    using firmware_laws(2)[OF fw t] by blast
  obtain t2 n2 where t2: "f t1 = (Ret (), t2)" "fw_is F t2 m' c adr l' n2" "n2 \<le> limit"
    using tr[OF g(3)] by blast
  show ?thesis
  proof (cases "tgt_busy T")
    case None
    then show ?thesis using g t2 by (auto simp: setAndWait_def)
  next
    case (Some busy)
    have "n2 \<le> sd_timeout s * 1000 mod 2 ^ 64 div sd_sleepTime s" using t2(3) pat by (simp add: patient_def)
    from pollBusy_returns[OF fw Some t2(2) this] show ?thesis
      using g t2 Some pat by (auto simp: setAndWait_def waitForTransaction_def patient_def)
  qed
qed

section \<open>The blocks of a window\<close>

definition window_ok :: "window \<Rightarrow> bool" where
  "window_ok a = (0 < transferSize a \<and> win_startAddress a < win_endAddress a \<and>
     starTransferAddress a = win_startAddress a div transferSize a \<and>
     endTransferAddress a = (win_endAddress a + transferSize a - 1) div transferSize a \<and>
     length (win_buffer a) = win_endAddress a - win_startAddress a \<and>
     length (user_buffer a) = win_endAddress a - win_startAddress a)"

lemma new_window_ok:
  assumes "new_window info n offset rawBytes dataBytes nWrite nRead = Ret a"
    and "0 < n" "0 < rawBytes" "0 < dataBytes" "nWrite \<noteq> Some 0" "nRead \<noteq> Some 0" "nWrite \<noteq> None \<or> nRead \<noteq> None"
  shows "window_ok a"
  using assms by (auto simp: new_window_def window_ok_def Let_def split: if_splits)

lemma end_block:
  fixes s x e :: nat
  assumes "0 < s" "x * s < e"
  shows "x < (e + s - 1) div s"
proof -
  have "x * s + s \<le> e + s - 1" using assms by simp
  then have "(x * s + s) div s \<le> (e + s - 1) div s" by (rule div_le_mono)
  moreover have "(x * s + s) div s = Suc x" using assms(1) by simp
  ultimately show ?thesis by simp
qed

lemma block_end:
  fixes s x e :: nat
  assumes "0 < s" "x < (e + s - 1) div s"
  shows "x * s < e"
proof -
  have "Suc x * s \<le> (e + s - 1) div s * s" using assms(2) by (intro mult_le_mono1) simp
  also have "\<dots> \<le> e + s - 1" by simp
  finally show ?thesis using assms(1) by simp
qed

text \<open>Address \<open>adr\<close> is one of the window's, so its block has a byte of the register.\<close>

lemma block_bounds:
  assumes ok: "window_ok a" and adr: "starTransferAddress a \<le> adr" "adr < endTransferAddress a"
  shows "copyStart a adr < copyEnd a adr" "win_startAddress a \<le> copyStart a adr" "copyEnd a adr \<le> win_endAddress a"
    "adr * transferSize a \<le> copyStart a adr" "copyEnd a adr \<le> adr * transferSize a + transferSize a"
    "deviceAccessorCopyOffset a adr = copyStart a adr - adr * transferSize a"
    "Suc adr < endTransferAddress a \<Longrightarrow> copyEnd a adr = copyStart a (Suc adr)"
proof -
  let ?s = "transferSize a"
  have s: "0 < ?s" using ok by (simp add: window_ok_def)
  have e: "adr * ?s < win_endAddress a"
    using block_end[OF s, of adr "win_endAddress a"] adr ok by (simp add: window_ok_def)
  have b: "win_startAddress a < adr * ?s + ?s"
  proof -
    have "win_startAddress a div ?s < Suc adr" using adr(1) ok by (simp add: window_ok_def)
    then have "win_startAddress a < Suc adr * ?s" using s by (simp add: div_less_iff_less_mult)
    then show ?thesis by simp
  qed
  have se: "win_startAddress a < win_endAddress a" using ok by (simp add: window_ok_def)
  show "copyStart a adr < copyEnd a adr" "win_startAddress a \<le> copyStart a adr" "copyEnd a adr \<le> win_endAddress a"
    "adr * ?s \<le> copyStart a adr" "copyEnd a adr \<le> adr * ?s + ?s"
    "deviceAccessorCopyOffset a adr = copyStart a adr - adr * ?s"
    using e b se s by (simp_all add: copyStart_def copyEnd_def deviceAccessorCopyOffset_def)
  assume "Suc adr < endTransferAddress a"
  then have "Suc adr * ?s < win_endAddress a"
    using block_end[OF s, of "Suc adr" "win_endAddress a"] ok by (simp add: window_ok_def)
  then show "copyEnd a adr = copyStart a (Suc adr)"
    using b by (simp add: copyStart_def copyEnd_def)
qed

text \<open>The byte a write puts at address \<open>x\<close> of the chip.\<close>

definition window_byte :: "window \<Rightarrow> nat \<Rightarrow> 8 word" where
  "window_byte a x = (if win_startAddress a \<le> x \<and> x < win_endAddress a then win_buffer a ! (x - win_startAddress a) else 0)"

lemma block_bytes:
  assumes ok: "window_ok a" and adr: "starTransferAddress a \<le> adr" "adr < endTransferAddress a"
  shows "length (block_to_write a adr (copyStart a adr - win_startAddress a)) = transferSize a"
    and "x < transferSize a \<Longrightarrow>
      block_to_write a adr (copyStart a adr - win_startAddress a) ! x = window_byte a (adr * transferSize a + x)"
proof -
  note b = block_bounds[OF ok adr]
  let ?off = "copyStart a adr - win_startAddress a" and ?n = "copyEnd a adr - copyStart a adr" and ?s = "transferSize a"
  have len: "length (take ?n (drop ?off (win_buffer a))) = ?n" using b ok by (simp add: window_ok_def)
  show "length (block_to_write a adr ?off) = ?s"
    using b len by (simp add: block_to_write_def Let_def)
  assume x: "x < ?s"
  let ?d = "copyStart a adr - adr * ?s"
  consider "x < ?d" | "?d \<le> x" "x < ?d + ?n" | "?d + ?n \<le> x" by linarith
  then show "block_to_write a adr ?off ! x = window_byte a (adr * ?s + x)"
  proof cases
    case 1
    then have "adr * ?s < copyStart a adr" by simp
    then have "copyStart a adr = win_startAddress a" by (simp add: copyStart_def)
    moreover from this have "\<not> win_startAddress a \<le> adr * ?s + x" using 1 by linarith
    ultimately show ?thesis using 1 b by (simp add: block_to_write_def nth_append window_byte_def)
  next
    case 2
    then have "win_startAddress a \<le> adr * ?s + x" "adr * ?s + x < win_endAddress a"
      "?off + (x - ?d) = adr * ?s + x - win_startAddress a" using b by linarith+
    then have "window_byte a (adr * ?s + x) = win_buffer a ! (?off + (x - ?d))" by (simp add: window_byte_def)
    moreover have "x - ?d < ?n" using 2 by linarith
    moreover from this have "take ?n (drop ?off (win_buffer a)) ! (x - ?d) = win_buffer a ! (?off + (x - ?d))"
      using len by simp
    ultimately show ?thesis using 2 len b(6) by (simp add: block_to_write_def Let_def nth_append)
  next
    case 3
    have "copyEnd a adr < adr * ?s + ?s" using 3 x b by linarith
    then have "copyEnd a adr = win_endAddress a" by (simp add: copyEnd_def min_def split: if_splits)
    then have "\<not> adr * ?s + x < win_endAddress a" using 3 b by linarith
    then have z: "window_byte a (adr * ?s + x) = 0" by (simp add: window_byte_def)
    obtain M where M: "block_to_write a adr ?off = replicate ?d 0 @ M @ replicate (adr * ?s + ?s - copyEnd a adr) 0" "length M = ?n"
      using len b(6) by (simp add: block_to_write_def Let_def)
    have i: "\<not> x < ?d" "\<not> x - ?d < ?n" "x - ?d - ?n < adr * ?s + ?s - copyEnd a adr" using 3 x b by linarith+
    show ?thesis unfolding M(1) nth_append length_replicate M(2) z using i by simp
  qed
qed

section \<open>All blocks of a window\<close>

definition stored :: "window \<Rightarrow> nat \<Rightarrow> nat \<Rightarrow> (nat \<Rightarrow> nat \<Rightarrow> 8 word) \<Rightarrow> nat \<Rightarrow> nat \<Rightarrow> 8 word" where
  "stored a adr c m = (\<lambda>c' x. if c' = c \<and> adr * transferSize a \<le> x \<and> x < endTransferAddress a * transferSize a
     then window_byte a x else m c' x)"

lemma stored_step:
  assumes "window_ok a" "starTransferAddress a \<le> adr" "adr < endTransferAddress a"
  shows "stored a (Suc adr) c (store_block (transferSize a) c adr (block_to_write a adr (copyStart a adr - win_startAddress a)) m) =
    stored a adr c m"
proof (intro ext)
  fix c' x
  let ?s = "transferSize a"
  have "adr * ?s + ?s \<le> endTransferAddress a * ?s"
    using mult_le_mono1[of "Suc adr" "endTransferAddress a" ?s] assms(3) by simp
  then consider "c' \<noteq> c" | "x < adr * ?s" | "c' = c" "adr * ?s \<le> x" "x < adr * ?s + ?s" "x < endTransferAddress a * ?s"
    | "adr * ?s + ?s \<le> x" by linarith
  then show "stored a (Suc adr) c (store_block ?s c adr (block_to_write a adr (copyStart a adr - win_startAddress a)) m) c' x =
      stored a adr c m c' x"
    using block_bytes(2)[OF assms, of "x - adr * ?s"]
    by cases (auto simp: stored_def store_block_def)
qed

lemma writeBlocks_stores:
  assumes fw: "window_firmware T F (transferSize a) limit" and pat: "patient s limit" and ok: "window_ok a"
    and wr: "tgt_writeData T = Some wd"
  shows "starTransferAddress a \<le> adr \<Longrightarrow> adr \<le> endTransferAddress a \<Longrightarrow> fw_is F t m c b l n \<Longrightarrow>
    (adr < endTransferAddress a \<Longrightarrow> off = copyStart a adr - win_startAddress a) \<Longrightarrow>
    \<exists>t' b' n'. writeBlocks s T a [adr ..< endTransferAddress a] off t = (Ret (), t') \<and>
      fw_is F t' (stored a adr c m) c b' l n'"
proof (induction "endTransferAddress a - adr" arbitrary: adr t m b n off)
  case 0
  then have "stored a adr c m = m" by (auto simp: stored_def fun_eq_iff)
  then show ?case using 0 by auto
next
  case (Suc x)
  then have adr: "adr < endTransferAddress a" by simp
  note b = block_bounds[OF ok Suc.prems(1) adr]
  have off: "off = copyStart a adr - win_startAddress a" by (rule Suc.prems(4)[OF adr])
  let ?bs = "block_to_write a adr off"
  have len: "length ?bs = transferSize a" unfolding off by (rule block_bytes(1)[OF ok Suc.prems(1) adr])
  have "\<exists>t3 n3. setAndWait s T adr (wd ?bs) t = (Ret (), t3) \<and> fw_is F t3 (store_block (transferSize a) c adr ?bs m) c adr l n3"
    by (rule setAndWait_returns[OF fw pat Suc.prems(3)]) (rule firmware_laws(3)[OF fw _ wr len])
  then obtain t3 n3 where t3: "setAndWait s T adr (wd ?bs) t = (Ret (), t3)"
    "fw_is F t3 (store_block (transferSize a) c adr ?bs m) c adr l n3" by blast
  have "\<exists>t' b' n'. writeBlocks s T a [Suc adr ..< endTransferAddress a] (off + (copyEnd a adr - copyStart a adr)) t3 = (Ret (), t') \<and>
      fw_is F t' (stored a (Suc adr) c (store_block (transferSize a) c adr ?bs m)) c b' l n'"
  proof (rule Suc.hyps(1))
    show "off + (copyEnd a adr - copyStart a adr) = copyStart a (Suc adr) - win_startAddress a"
      if "Suc adr < endTransferAddress a"
      using b(7)[OF that] b(1-3) off by simp
  qed (use Suc.hyps(2) Suc.prems adr t3(2) in simp_all)
  moreover have "[adr ..< endTransferAddress a] = adr # [Suc adr ..< endTransferAddress a]" using adr by (rule upt_conv_Cons)
  ultimately show ?case
    using t3(1) wr stored_step[OF ok Suc.prems(1) adr, of c m] off by simp
qed

definition fetched :: "window \<Rightarrow> nat \<Rightarrow> (nat \<Rightarrow> 8 word) \<Rightarrow> 8 word list \<Rightarrow> 8 word list" where
  "fetched a k m buf = map (\<lambda>y. if k \<le> y then m (win_startAddress a + y) else buf ! y) [0 ..< length buf]"

lemma fetched_step:
  assumes ok: "window_ok a" and adr: "starTransferAddress a \<le> adr" "adr < endTransferAddress a"
    and len: "length buf = win_endAddress a - win_startAddress a"
  shows "let off = copyStart a adr - win_startAddress a; k = copyEnd a adr - copyStart a adr
    in fetched a (off + k) (m c) (overwrite off (take k (drop (deviceAccessorCopyOffset a adr) (load_block (transferSize a) c adr m))) buf) =
       fetched a off (m c) buf"
proof -
  note b = block_bounds[OF ok adr]
  let ?off = "copyStart a adr - win_startAddress a" and ?k = "copyEnd a adr - copyStart a adr"
  let ?bs = "take ?k (drop (deviceAccessorCopyOffset a adr) (load_block (transferSize a) c adr m))"
  have bs: "?bs = map (m c) [copyStart a adr ..< copyEnd a adr]"
    using b by (simp add: load_block_def drop_map take_map)
  have fit: "?off + length ?bs \<le> length buf" unfolding bs using b len by simp
  have "fetched a (?off + ?k) (m c) (overwrite ?off ?bs buf) = fetched a ?off (m c) buf"
  proof (rule nth_equalityI)
    show "length (fetched a (?off + ?k) (m c) (overwrite ?off ?bs buf)) = length (fetched a ?off (m c) buf)"
      using length_overwrite[OF fit] by (simp add: fetched_def)
    fix y assume "y < length (fetched a (?off + ?k) (m c) (overwrite ?off ?bs buf))"
    then have y: "y < length buf" using length_overwrite[OF fit] by (simp add: fetched_def)
    show "fetched a (?off + ?k) (m c) (overwrite ?off ?bs buf) ! y = fetched a ?off (m c) buf ! y"
      using nth_overwrite[OF fit y] y b length_overwrite[OF fit] unfolding bs by (auto simp: fetched_def ac_simps)
  qed
  then show ?thesis by (simp add: Let_def)
qed

lemma readBlocks_fetches:
  assumes fw: "window_firmware T F (transferSize a) limit" and pat: "patient s limit" and ok: "window_ok a"
    and rq: "tgt_readRequest T = Some rd"
  shows "starTransferAddress a \<le> adr \<Longrightarrow> adr \<le> endTransferAddress a \<Longrightarrow> fw_is F t m c b l n \<Longrightarrow>
    length buf = win_endAddress a - win_startAddress a \<Longrightarrow>
    off = (if adr < endTransferAddress a then copyStart a adr - win_startAddress a else length buf) \<Longrightarrow>
    \<exists>t' b' l' n'. readBlocks s T a [adr ..< endTransferAddress a] off (buf, t) = (Ret (), fetched a off (m c) buf, t') \<and>
      fw_is F t' m c b' l' n'"
proof (induction "endTransferAddress a - adr" arbitrary: adr t b l n off buf)
  case 0
  then have "fetched a off (m c) buf = buf" by (intro nth_equalityI) (auto simp: fetched_def)
  then show ?case using 0 by auto
next
  case (Suc x)
  then have adr: "adr < endTransferAddress a" by simp
  note b = block_bounds[OF ok Suc.prems(1) adr]
  let ?s = "transferSize a" and ?k = "copyEnd a adr - copyStart a adr"
  have off: "off = copyStart a adr - win_startAddress a" using Suc.prems(5) adr by simp
  have "\<exists>t3 n3. setAndWait s T adr rd t = (Ret (), t3) \<and> fw_is F t3 m c adr (load_block ?s c adr m) n3"
    by (rule setAndWait_returns[OF fw pat Suc.prems(3)]) (rule firmware_laws(4)[OF fw _ rq])
  then obtain t3 n3 where t3: "setAndWait s T adr rd t = (Ret (), t3)" "fw_is F t3 m c adr (load_block ?s c adr m) n3" by blast
  obtain t4 where t4: "tgt_readData T t3 = (Ret (load_block ?s c adr m), t4)" "fw_is F t4 m c adr (load_block ?s c adr m) n3"
    using firmware_laws(6)[OF fw t3(2)] by blast
  let ?buf = "overwrite off (take ?k (drop (deviceAccessorCopyOffset a adr) (load_block ?s c adr m))) buf"
  have "length (take ?k (drop (deviceAccessorCopyOffset a adr) (load_block ?s c adr m))) = ?k"
    using b by (simp add: load_block_def)
  then have len: "length ?buf = length buf"
    using b Suc.prems(4) off by (intro length_overwrite) simp
  have x: "x = endTransferAddress a - Suc adr" using Suc.hyps(2) by linarith
  have next_off: "off + ?k = (if Suc adr < endTransferAddress a then copyStart a (Suc adr) - win_startAddress a else length ?buf)"
  proof (cases "Suc adr < endTransferAddress a")
    case True
    then show ?thesis using b(7)[OF True] b(1-3) off by simp
  next
    case False
    then have "endTransferAddress a = Suc adr" using adr by simp
    have "win_endAddress a \<le> adr * ?s + ?s"
    proof (rule ccontr)
      assume "\<not> win_endAddress a \<le> adr * ?s + ?s"
      then have "Suc adr * ?s < win_endAddress a" by simp
      then have "Suc adr < endTransferAddress a"
        using end_block[of ?s "Suc adr" "win_endAddress a"] ok by (simp add: window_ok_def)
      then show False using False by simp
    qed
    then have "copyEnd a adr = win_endAddress a" by (simp add: copyEnd_def)
    then show ?thesis using False off b len Suc.prems(4) by simp
  qed
  have "\<exists>t' b' l' n'. readBlocks s T a [Suc adr ..< endTransferAddress a] (off + ?k) (?buf, t4) =
      (Ret (), fetched a (off + ?k) (m c) ?buf, t') \<and> fw_is F t' m c b' l' n'"
    by (rule Suc.hyps(1)[OF x _ _ t4(2) _ next_off]) (use Suc.prems adr len in simp_all)
  moreover have "fetched a (off + ?k) (m c) ?buf = fetched a off (m c) buf"
    using fetched_step[OF ok Suc.prems(1) adr Suc.prems(4), of m c] unfolding off Let_def .
  moreover have "[adr ..< endTransferAddress a] = adr # [Suc adr ..< endTransferAddress a]" using adr by (rule upt_conv_Cons)
  ultimately show ?case using t3(1) t4(1) rq by (simp add: Let_def)
qed

section \<open>Whole transfers\<close>

definition window_writeable :: "subdevice \<Rightarrow> 't sub_target \<Rightarrow> bool" where
  "window_writeable s T = (tgt_writeData T \<noteq> None \<and> address_isWriteable T \<and> writeData_isWriteable T \<and>
     (needStatusParam s \<longrightarrow> busy_isReadable T))"

definition window_readable :: "'t sub_target \<Rightarrow> bool" where
  "window_readable T = (tgt_readRequest T \<noteq> None \<and> address_isWriteable T \<and> readData_isReadable T \<and> busy_isReadable T \<and>
     readRequest_isWriteable T)"

text \<open>The chip that is selected after \<open>selectChip\<close>, when it was \<open>c\<close> before.\<close>

definition chip_of :: "subdevice \<Rightarrow> 't sub_target \<Rightarrow> nat \<Rightarrow> nat" where
  "chip_of s T c = (if tgt_chipSelect T = None then c else sd_chipIndex s)"

lemma selectChip_returns:
  assumes "window_firmware T F k limit" and "fw_is F t m c a l n"
  shows "\<exists>t'. selectChip s T t = (Ret (), t') \<and> fw_is F t' m (chip_of s T c) a l n"
  using firmware_laws(1)[OF assms] assms(2) by (auto simp: selectChip_def chip_of_def split: option.splits)

lemma swap_buffers_swap [simp]: "swap_buffers (swap_buffers a) = a"
  by (simp add: swap_buffers_def)

lemma swap_buffers_simps [simp]:
  "win_startAddress (swap_buffers a) = win_startAddress a" "win_endAddress (swap_buffers a) = win_endAddress a"
  "transferSize (swap_buffers a) = transferSize a" "starTransferAddress (swap_buffers a) = starTransferAddress a"
  "endTransferAddress (swap_buffers a) = endTransferAddress a" "win_buffer (swap_buffers a) = user_buffer a"
  "user_buffer (swap_buffers a) = win_buffer a" "window_ok (swap_buffers a) = window_ok a"
  by (auto simp: swap_buffers_def window_ok_def)

lemma upd_window_simps [simp]:
  "windows (heap (upd_window e f w)) = (windows (heap w))(e := f (windows (heap w) e))"
  "target (heap (upd_window e f w)) = target (heap w)"
  by (simp_all add: upd_window_def)

lemma window_write:
  fixes w :: "'t sub_heap world" and e :: nat
  defines "a \<equiv> windows (heap w) e"
  assumes idle: "idle_element (elem w e)" and v: "\<not> v < versionNumber (elem w e)"
    and op: "sub_isOpen T (target (heap w))" "window_writeable s T"
    and fw: "window_firmware T F (transferSize a) limit" "patient s limit" "fw_is F (target (heap w)) m c b l n"
    and ok: "window_ok a"
  shows "\<exists>w' b' n'. write_te (window_impl s T) v e w = (Ret False, w') \<and> windows (heap w') = windows (heap w) \<and>
    fw_is F (target (heap w')) (stored (swap_buffers a) (starTransferAddress a) (chip_of s T c) m) (chip_of s T c) b' l n'"
proof -
  obtain wd where wd: "tgt_writeData T = Some wd" using op(2) by (auto simp: window_writeable_def)
  define w0 where "w0 = write_started TT_write v e w"
  have h0: "heap w0 = heap w" by (simp add: w0_def write_started_def)
  define t0 where "t0 = writeData_setValidity T (dataValidity (elem w0 e)) (target (heap w))"
  define w1 where "w1 = (upd_window e swap_buffers w0)\<lparr>heap := (heap (upd_window e swap_buffers w0))\<lparr>target := t0\<rparr>\<rparr>"
  have pre: "doPreWrite (window_impl s T) e TT_write v (write_started TT_write v e w) = (Ret (), w1)"
    using op wd by (simp add: window_impl_def win_doPreWrite_def window_writeable_def w1_def t0_def h0 Let_def flip: w0_def)
  have fw0: "fw_is F t0 m c b l n" unfolding t0_def by (rule firmware_laws(7)[OF fw(1,3)])
  obtain t1 where t1: "selectChip s T t0 = (Ret (), t1)" "fw_is F t1 m (chip_of s T c) b l n"
    using selectChip_returns[OF fw(1) fw0] by blast
  have le: "starTransferAddress a \<le> endTransferAddress a"
    using ok end_block[of "transferSize a" "win_startAddress a div transferSize a" "win_endAddress a"]
    by (auto simp: window_ok_def intro: le_less_trans[OF div_times_less_eq_dividend] less_imp_le)
  have first: "0 = copyStart (swap_buffers a) (starTransferAddress a) - win_startAddress (swap_buffers a)"
    using ok by (simp add: copyStart_def window_ok_def)
  obtain t2 b' n' where t2: "writeBlocks s T (swap_buffers a) (transferAddresses a) 0 t1 = (Ret (), t2)"
    "fw_is F t2 (stored (swap_buffers a) (starTransferAddress a) (chip_of s T c) m) (chip_of s T c) b' l n'"
    using writeBlocks_stores[of T F "swap_buffers a" limit s wd "starTransferAddress a" t1 m "chip_of s T c" b l n 0]
      fw(1,2) ok wd t1(2) le first by (auto simp: transferAddresses_def)
  let ?w1 = "logged (CallWriteTransfer e v) w1"
  define w2 where "w2 = ?w1\<lparr>heap := (heap ?w1)\<lparr>target := t2\<rparr>\<rparr>"
  have m1: "windows (heap w1) = (windows (heap w))(e := swap_buffers a)" "target (heap w1) = t0"
    by (simp_all add: w1_def h0 a_def)
  have tr: "doWriteTransfer (window_impl s T) e v ?w1 = (Ret False, w2)"
    using t1(1) t2(1) by (simp add: window_impl_def win_doWriteTransfer_def catchRuntimeError_def m1 w2_def transferAddresses_def)
  define w3 where "w3 = upd_window e swap_buffers (logged (CallPostWrite e TT_write v)
    (upd e (\<lambda>t. t\<lparr>writeTransactionInProgress := False\<rparr>) w2))"
  have post: "doPostWrite (window_impl s T) e TT_write v (logged (CallPostWrite e TT_write v)
      (upd e (\<lambda>t. t\<lparr>writeTransactionInProgress := False\<rparr>) w2)) = (Ret (), w3)"
    by (simp add: window_impl_def win_doPostWrite_def w3_def)
  have no: "activeException (elem w3 e) = None"
    by (simp add: w3_def w2_def w1_def w0_def write_started_def upd_window_def)
  have run: "write_te (window_impl s T) v e w = (Ret False, upd e (\<lambda>t. t\<lparr>versionNumber := v\<rparr>) w3)"
    using window_elements.write_completes[where s = s and T = T and e = e, OF _ v pre tr post no] idle
    by (simp add: idle_element_def)
  have "windows (heap w3) = windows (heap w)" "target (heap w3) = t2"
    by (simp_all add: w3_def w2_def m1 a_def)
  with run t2(2) show ?thesis by (intro exI[of _ "upd e (\<lambda>t. t\<lparr>versionNumber := v\<rparr>) w3"] exI[of _ b'] exI[of _ n']) simp
qed

lemma window_read:
  fixes w :: "'t sub_heap world" and e :: nat
  defines "a \<equiv> windows (heap w) e"
  assumes idle: "idle_element (elem w e)"
    and op: "sub_isOpen T (target (heap w))" "window_readable T"
    and fw: "window_firmware T F (transferSize a) limit" "patient s limit" "fw_is F (target (heap w)) m c b l n"
    and ok: "window_ok a"
  shows "\<exists>w' b' l' n'. read_te (window_impl s T) e w = (Ret (), w') \<and>
    windows (heap w') = (windows (heap w))
      (e := a\<lparr>win_buffer := user_buffer a, user_buffer := fetched a 0 (m (chip_of s T c)) (win_buffer a)\<rparr>) \<and>
    fw_is F (target (heap w')) m (chip_of s T c) b' l' n'"
proof -
  obtain rd where rd: "tgt_readRequest T = Some rd" using op(2) by (auto simp: window_readable_def)
  define w1 where "w1 = read_started TT_read e w"
  have h1: "heap w1 = heap w" by (simp add: w1_def read_started_def)
  have pre: "doPreRead (window_impl s T) e TT_read (read_started TT_read e w) = (Ret (), w1)"
    using op rd by (simp add: window_impl_def win_doPreRead_def window_readable_def h1 flip: w1_def)
  obtain t1 where t1: "selectChip s T (target (heap w)) = (Ret (), t1)" "fw_is F t1 m (chip_of s T c) b l n"
    using selectChip_returns[OF fw(1,3)] by blast
  have le: "starTransferAddress a < endTransferAddress a"
    using ok end_block[of "transferSize a" "win_startAddress a div transferSize a" "win_endAddress a"]
    by (auto simp: window_ok_def intro: le_less_trans[OF div_times_less_eq_dividend])
  have first: "0 = copyStart a (starTransferAddress a) - win_startAddress a"
    using ok by (simp add: copyStart_def window_ok_def)
  let ?buf = "fetched a 0 (m (chip_of s T c)) (win_buffer a)"
  obtain t2 b' l' n' where t2: "readBlocks s T a (transferAddresses a) 0 (win_buffer a, t1) = (Ret (), ?buf, t2)"
    "fw_is F t2 m (chip_of s T c) b' l' n'"
    using readBlocks_fetches[of T F a limit s rd "starTransferAddress a" t1 m "chip_of s T c" b l n "win_buffer a" 0]
      fw(1,2) ok rd t1(2) le first by (auto simp: transferAddresses_def window_ok_def)
  define w2 where "w2 = upd_window e (\<lambda>a. a\<lparr>win_buffer := ?buf\<rparr>) ((logged (CallReadTransfer e) w1)\<lparr>heap := (heap w1)\<lparr>target := t2\<rparr>\<rparr>)"
  have tr: "doReadTransferSynchronously (window_impl s T) e (logged (CallReadTransfer e) w1) = (Ret (), w2)"
    using t1(1) t2(1)
    by (simp add: window_impl_def win_doReadTransferSynchronously_def catchRuntimeError_def h1 w2_def flip: a_def)
  define w2' where "w2' = logged (CallPostRead e TT_read True) (upd e (\<lambda>t. t\<lparr>readTransactionInProgress := False\<rparr>) w2)"
  define g where "g = newVersion (sub_lastGenerated (heap w2'))"
  define w3 where "w3 = upd e (\<lambda>t. t\<lparr>versionNumber := fst g, dataValidity := readData_validity T (target (heap w2'))\<rparr>)
    (upd_window e swap_buffers (w2'\<lparr>heap := (heap w2')\<lparr>sub_lastGenerated := snd g\<rparr>\<rparr>))"
  have post: "doPostRead (window_impl s T) e TT_read True w2' = (Ret (), w3)"
    by (simp add: window_impl_def win_doPostRead_def w3_def g_def split_beta Let_def)
  have no: "activeException (elem w3 e) = None"
    by (simp add: w3_def w2'_def w2_def w1_def read_started_def upd_window_def)
  have run: "read_te (window_impl s T) e w = (Ret (), w3)"
    using window_elements.read_completes[where s = s and T = T and e = e, OF _ _ _ pre tr post[unfolded w2'_def] no] idle
    by (simp add: idle_element_def)
  have "windows (heap w3) = (windows (heap w))(e := a\<lparr>win_buffer := user_buffer a, user_buffer := ?buf\<rparr>)" "target (heap w3) = t2"
    by (simp_all add: w3_def w2'_def w2_def h1 swap_buffers_def a_def)
  with run t2(2) show ?thesis by (intro exI[of _ w3] exI[of _ b'] exI[of _ l'] exI[of _ n']) simp
qed

section \<open>Properties of the accessor\<close>

lemma stored_blocks:
  assumes "window_ok a"
  shows "stored a (starTransferAddress a) c m c' x =
    (if c' = c \<and> win_startAddress a div transferSize a \<le> x div transferSize a \<and>
        x div transferSize a \<le> (win_endAddress a - 1) div transferSize a
     then window_byte a x else m c' x)"
proof -
  let ?s = "transferSize a"
  have s: "0 < ?s" and se: "win_startAddress a < win_endAddress a"
    and d: "starTransferAddress a = win_startAddress a div ?s" "endTransferAddress a = (win_endAddress a + ?s - 1) div ?s"
    using assms by (simp_all add: window_ok_def)
  have shift: "win_endAddress a + ?s - 1 = (win_endAddress a - 1) + ?s" using se by linarith
  have e: "endTransferAddress a = Suc ((win_endAddress a - 1) div ?s)"
    unfolding d(2) shift using div_add_self2[of ?s "win_endAddress a - 1"] s by linarith
  have "starTransferAddress a * ?s \<le> x \<longleftrightarrow> win_startAddress a div ?s \<le> x div ?s"
    unfolding d(1) using less_eq_div_iff_mult_less_eq[OF s] by blast
  moreover have "x < endTransferAddress a * ?s \<longleftrightarrow> x div ?s \<le> (win_endAddress a - 1) div ?s"
    unfolding e div_less_iff_less_mult[OF s, symmetric] by (rule less_Suc_eq_le)
  ultimately show ?thesis unfolding stored_def by presburger
qed

text \<open>
  A target with two chips behind blocks of four bytes: it sets the busy flag for one reading after each
  transaction.  The register has two words of two bytes at address 6 of chip 1.
\<close>

record chip_device =
  cd_mem :: "nat \<Rightarrow> nat \<Rightarrow> 8 word"
  cd_chip :: nat
  cd_adr :: nat
  cd_latch :: "8 word list"
  cd_wait :: nat

definition sample_target :: "chip_device sub_target" where
  "sample_target = \<lparr>tgt_chipSelect = Some (\<lambda>c t. (Ret (), t\<lparr>cd_chip := c\<rparr>)), tgt_address = Some (\<lambda>a t. (Ret (), t\<lparr>cd_adr := a\<rparr>)),
     tgt_writeData = Some (\<lambda>bs t. (Ret (), t\<lparr>cd_mem := store_block 4 (cd_chip t) (cd_adr t) bs (cd_mem t), cd_wait := 1\<rparr>)),
     writeData_setValidity = (\<lambda>v t. t),
     tgt_busy = Some (\<lambda>t. (Ret (0 < cd_wait t), t\<lparr>cd_wait := cd_wait t - 1\<rparr>)),
     tgt_readRequest = Some (\<lambda>t. (Ret (), t\<lparr>cd_latch := load_block 4 (cd_chip t) (cd_adr t) (cd_mem t), cd_wait := 1\<rparr>)),
     tgt_readData = (\<lambda>t. (Ret (cd_latch t), t)), readData_validity = (\<lambda>t. ok),
     address_isWriteable = True, writeData_isWriteable = True, busy_isReadable = True, readRequest_isWriteable = True,
     readData_isReadable = True, sub_isOpen = (\<lambda>t. True), tgt_setException = (\<lambda>m t. t)\<rparr>"

definition sample_firmware :: "chip_device firmware" where
  "sample_firmware = \<lparr>fw_ready = (\<lambda>t. True), fw_mem = cd_mem, fw_chip = cd_chip, fw_adr = cd_adr, fw_latch = cd_latch, fw_wait = cd_wait\<rparr>"

lemma sample_window_firmware: "window_firmware sample_target sample_firmware 4 1"
  by (simp add: window_firmware_def sample_target_def sample_firmware_def fw_is_def)

definition sample_subdevice :: subdevice where
  "sample_subdevice = \<lparr>sd_type = SD_registerWindow, sd_timeout = 10000, sd_sleepTime = 100, sd_chipIndex = 1\<rparr>"

definition sample_window :: window where
  "sample_window = \<lparr>win_startAddress = 6, win_endAddress = 10, transferSize = 4, starTransferAddress = 1, endTransferAddress = 3,
     win_buffer = [0, 0, 0, 0], user_buffer = [1, 2, 3, 4]\<rparr>"

definition sample_window_world :: "chip_device sub_heap world" where
  "sample_window_world = \<lparr>elem = (\<lambda>e. new_te ''window'' {}), calls = [],
     heap = \<lparr>target = \<lparr>cd_mem = (\<lambda>c x. 9), cd_chip = 0, cd_adr = 0, cd_latch = [], cd_wait = 0\<rparr>, windows = (\<lambda>i. sample_window),
       sub_lastGenerated = 1\<rparr>\<rparr>"

lemma sample_window_facts:
  "idle_element (elem sample_window_world 0)" "windows (heap sample_window_world) 0 = sample_window"
  "sub_isOpen sample_target t" "window_writeable sample_subdevice sample_target" "window_readable sample_target"
  "patient sample_subdevice 1" "fw_ready sample_firmware t" "window_ok sample_window" "transferSize sample_window = 4"
  "chip_of sample_subdevice sample_target c = 1" "versionNumber (elem sample_window_world 0) \<le> VersionNumber 3"
  by (simp_all add: sample_window_world_def sample_window_def idle_element_def new_te_def has_def sample_target_def
      sample_subdevice_def sample_firmware_def window_writeable_def window_readable_def needStatusParam_def patient_def
      window_ok_def chip_of_def nullVersion_def less_eq_version_number_def)

text \<open>
  C15: writing through a register window puts the bytes of the user buffer at the
  addresses of the register on the selected chip, whatever the sizes of the two are; the rest of the
  blocks the register touches is filled with zeros, and no other byte of any chip changes.  The
  user buffer stays as it is.
\<close>

theorem window_write_stores_register:
  fixes w :: "'t sub_heap world" and e :: nat and s :: subdevice and T :: "'t sub_target" and F :: "'t firmware"
  defines "a \<equiv> windows (heap w) e" and "t \<equiv> target (heap w)"
  defines "chip \<equiv> chip_of s T (fw_chip F t)"
  assumes idle: "idle_element (elem w e)" and v: "versionNumber (elem w e) \<le> v"
    and op: "sub_isOpen T t" "window_writeable s T"
    and fw: "window_firmware T F (transferSize a) limit" "patient s limit" "fw_ready F t"
    and ok: "window_ok a"
  shows "\<exists>w'. write_te (window_impl s T) v e w = (Ret False, w') \<and> windows (heap w') = windows (heap w) \<and>
    (\<forall>c x. fw_mem F (target (heap w')) c x =
       (if c = chip \<and> win_startAddress a div transferSize a \<le> x div transferSize a \<and>
           x div transferSize a \<le> (win_endAddress a - 1) div transferSize a
        then if win_startAddress a \<le> x \<and> x < win_endAddress a then user_buffer a ! (x - win_startAddress a) else 0
        else fw_mem F t c x))"
proof -
  have "fw_is F t (fw_mem F t) (fw_chip F t) (fw_adr F t) (fw_latch F t) (fw_wait F t)" using fw(3) by (simp add: fw_is_def)
  from window_write[OF idle leD[OF v] op[unfolded t_def] fw(1)[unfolded a_def] fw(2) this[unfolded t_def] ok[unfolded a_def]]
  obtain w' b n where w': "write_te (window_impl s T) v e w = (Ret False, w')" "windows (heap w') = windows (heap w)"
    "fw_is F (target (heap w')) (stored (swap_buffers a) (starTransferAddress a) chip (fw_mem F t)) chip b (fw_latch F t) n"
    unfolding a_def t_def chip_def by blast
  have "fw_mem F (target (heap w')) = stored (swap_buffers a) (starTransferAddress a) chip (fw_mem F t)"
    using w'(3) by (simp add: fw_is_def)
  then show ?thesis
    using w'(1,2) stored_blocks[of "swap_buffers a" chip "fw_mem F t"] ok by (simp add: window_byte_def)
qed

theorem window_write_stores_register_witness:
  "\<exists>w'. write_te (window_impl sample_subdevice sample_target) (VersionNumber 3) 0 sample_window_world = (Ret False, w') \<and>
    map (cd_mem (target (heap w')) 1) [3 ..< 13] = [9, 0, 0, 1, 2, 3, 4, 0, 0, 9]"
proof -
  let ?w = sample_window_world
  obtain w' where w': "write_te (window_impl sample_subdevice sample_target) (VersionNumber 3) 0 ?w = (Ret False, w')"
    "\<forall>c x. fw_mem sample_firmware (target (heap w')) c x =
       (if c = 1 \<and> 6 div 4 \<le> x div 4 \<and> x div 4 \<le> (10 - 1) div 4
        then if 6 \<le> x \<and> x < 10 then [1, 2, 3, 4] ! (x - 6) else 0
        else fw_mem sample_firmware (target (heap ?w)) c x)"
    using window_write_stores_register[where w = ?w and e = 0 and v = "VersionNumber 3" and s = sample_subdevice
        and T = sample_target and F = sample_firmware and limit = 1, unfolded sample_window_facts(2,9,10),
        OF sample_window_facts(1,11,3,4) sample_window_firmware sample_window_facts(6,7,8)]
    by (auto simp: sample_window_def)
  have m: "cd_mem (target (heap w')) 1 = (\<lambda>x. if 1 \<le> x div 4 \<and> x div 4 \<le> 2 then if 6 \<le> x \<and> x < 10 then [1, 2, 3, 4] ! (x - 6) else 0 else 9)"
    using w'(2)[rule_format, of 1] by (simp add: sample_firmware_def sample_window_world_def fun_eq_iff)
  have l: "[3 ..< 13::nat] = [3, 4, 5, 6, 7, 8, 9, 10, 11, 12]" by (simp add: upt_rec_numeral)
  have f: "cd_mem (target (heap w')) 1 3 = 9" "cd_mem (target (heap w')) 1 4 = 0" "cd_mem (target (heap w')) 1 5 = 0"
    "cd_mem (target (heap w')) 1 6 = 1" "cd_mem (target (heap w')) 1 7 = 2" "cd_mem (target (heap w')) 1 8 = 3"
    "cd_mem (target (heap w')) 1 9 = 4" "cd_mem (target (heap w')) 1 10 = 0" "cd_mem (target (heap w')) 1 11 = 0"
    "cd_mem (target (heap w')) 1 12 = 9"
    unfolding m by simp_all
  have "map (cd_mem (target (heap w')) 1) [3 ..< 13] = [9, 0, 0, 1, 2, 3, 4, 0, 0, 9]"
    unfolding l list.map f by (rule refl)
  then show ?thesis by (intro exI[of _ w'] conjI w'(1))
qed

text \<open>
  C16: reading through a register window gives the bytes at the addresses of the register
  on the selected chip; the memory of the chips and the other accessors stay as they are.
\<close>

theorem window_read_fetches_register:
  fixes w :: "'t sub_heap world" and e :: nat and s :: subdevice and T :: "'t sub_target" and F :: "'t firmware"
  defines "a \<equiv> windows (heap w) e" and "t \<equiv> target (heap w)"
  defines "chip \<equiv> chip_of s T (fw_chip F t)"
  assumes idle: "idle_element (elem w e)"
    and op: "sub_isOpen T t" "window_readable T"
    and fw: "window_firmware T F (transferSize a) limit" "patient s limit" "fw_ready F t"
    and ok: "window_ok a"
  shows "\<exists>w'. read_te (window_impl s T) e w = (Ret (), w') \<and>
    user_buffer (windows (heap w') e) = map (fw_mem F t chip) [win_startAddress a ..< win_endAddress a] \<and>
    window_ok (windows (heap w') e) \<and> (\<forall>i. i = e \<or> windows (heap w') i = windows (heap w) i) \<and>
    fw_mem F (target (heap w')) = fw_mem F t"
proof -
  have "fw_is F t (fw_mem F t) (fw_chip F t) (fw_adr F t) (fw_latch F t) (fw_wait F t)" using fw(3) by (simp add: fw_is_def)
  from window_read[OF idle op[unfolded t_def] fw(1)[unfolded a_def] fw(2) this[unfolded t_def] ok[unfolded a_def]]
  obtain w' b l n where w': "read_te (window_impl s T) e w = (Ret (), w')"
    "windows (heap w') = (windows (heap w))
      (e := a\<lparr>win_buffer := user_buffer a, user_buffer := fetched a 0 (fw_mem F t chip) (win_buffer a)\<rparr>)"
    "fw_is F (target (heap w')) (fw_mem F t) chip b l n"
    unfolding a_def t_def chip_def by blast
  have len: "length (win_buffer a) = win_endAddress a - win_startAddress a" using ok by (simp add: window_ok_def)
  have "fetched a 0 (fw_mem F t chip) (win_buffer a) = map (fw_mem F t chip) [win_startAddress a ..< win_endAddress a]"
    by (rule nth_equalityI) (simp_all add: fetched_def len)
  moreover from this have "window_ok (windows (heap w') e)" using ok w'(2) by (simp add: window_ok_def)
  ultimately show ?thesis using w' by (intro exI[of _ w']) (simp add: fw_is_def)
qed

theorem window_read_fetches_register_witness:
  "\<exists>w'. read_te (window_impl sample_subdevice sample_target) 0 sample_window_world = (Ret (), w') \<and>
    user_buffer (windows (heap w') 0) = [9, 9, 9, 9]"
proof -
  let ?w = sample_window_world
  have "fw_mem sample_firmware (target (heap ?w)) c = (\<lambda>x. 9)" for c by (simp add: sample_firmware_def sample_window_world_def)
  then have "map (fw_mem sample_firmware (target (heap ?w)) 1) [6 ..< 10] = [9, 9, 9, 9]" by (simp add: upt_rec_numeral)
  moreover obtain w' where "read_te (window_impl sample_subdevice sample_target) 0 ?w = (Ret (), w')"
    "user_buffer (windows (heap w') 0) = map (fw_mem sample_firmware (target (heap ?w)) 1) [6 ..< 10]"
    using window_read_fetches_register[where w = ?w and e = 0 and s = sample_subdevice and T = sample_target
        and F = sample_firmware and limit = 1, unfolded sample_window_facts(2,9,10),
        OF sample_window_facts(1,3,5) sample_window_firmware sample_window_facts(6,7,8)]
    by (auto simp: sample_window_def)
  ultimately show ?thesis by metis
qed

text \<open>
  A write that is refused before the transfer, here on a closed device, has not swapped the
  buffers; the post stage swaps them all the same, and the user buffer then holds what the other buffer
  had: zeros for a new accessor, else the data read before the last.
\<close>

theorem refused_window_write_loses_data:
  assumes "idle_element (elem w e)" "versionNumber (elem w e) \<le> v" "\<not> sub_isOpen T (target (heap w))"
  shows "\<exists>w'. write_te (window_impl s T) v e w = (Throw (LogicError ''Device is not opened.''), w') \<and>
    user_buffer (windows (heap w') e) = win_buffer (windows (heap w) e)"
proof -
  let ?x = "LogicError ''Device is not opened.''" and ?w1 = "write_started TT_write v e w"
  have pre: "doPreWrite (window_impl s T) e TT_write v ?w1 = (Throw ?x, ?w1)"
    using assms(3) by (simp add: window_impl_def win_doPreWrite_def write_started_def)
  let ?w2 = "logged (CallPostWrite e TT_write v) (upd e (\<lambda>t. t\<lparr>writeTransactionInProgress := False\<rparr>) (storeException e ?x ?w1))"
  have post: "doPostWrite (window_impl s T) e TT_write v ?w2 = (Ret (), upd_window e swap_buffers ?w2)"
    by (simp add: window_impl_def win_doPostWrite_def)
  have "write_te (window_impl s T) v e w = (Throw ?x, upd_window e swap_buffers ?w2)"
    using window_elements.write_refused[where s = s and T = T and e = e, OF _ leD[OF assms(2)] pre _ _ post] assms(1)
    by (simp add: idle_element_def caught_in_pre_def storeException_def upd_window_def)
  then show ?thesis by (simp add: storeException_def write_started_def)
qed

end
