(* ===== verification/Spec2Isabelle.thy ===== *)
theory Spec2Isabelle
  imports AsyncDelivery AsyncReads ConsistencyUpdates Descriptors DeviceMaps GroupReads MapAreas MuxedAccessors SubdeviceWindows
begin

text \<open>
  Verification development for ChimeraTK DeviceAccess, a C++ library for register based devices.
  An application opens a device through a backend and gets accessors, transfer elements, whose
  read and write operations run in the stages pre, transfer and post.  The paths below are
  relative to the repository.

  \<^bold>\<open>Conventions.\<close>  A C++ function that changes the state \<open>'w\<close> is a function to
  \<open>'a outcome \<times> 'w\<close> (\<^verbatim>\<open>Prelude\<close>): it returns (\<open>Ret\<close>), throws (\<open>Throw\<close>), never comes back
  (\<open>NoReturn\<close>) or calls \<open>std::terminate\<close> (\<open>Terminated\<close>); the state reached before an exception is
  part of the result.  Integers that can wrap around are words of their width.  Loops that may not
  end are \<open>partial_function (option)\<close>, so \<open>None\<close> is a loop that runs for ever.  One loop has fuel: the search for the channels of an area
  in a map file gets one step more than the map has lines, each step finds another line.
  Code outside the repository (device, transport queues, file system, JSON parser, user callbacks)
  is an argument of the definitions, in the records \<open>te_impl\<close>, \<open>group_impl\<close>, \<open>na_device\<close>,
  \<open>any_queues\<close>, \<open>async_env\<close>, \<open>json_api\<close>, \<open>sub_target\<close>.

  \<^bold>\<open>Transfer elements.\<close>  \<^verbatim>\<open>TransferElements\<close> models \<^verbatim>\<open>include/TransferElement.h\<close>: the record
  \<open>te\<close> holds the data members, the functions have the names of the methods, and the
  virtual functions are the fields of \<open>te_impl\<close>.  A ghost log records their calls.  \<^verbatim>\<open>TransferStages\<close>
  shows in the locale \<open>te_contract\<close>, for every implementation that keeps to the interface, which
  stages each operation runs in which order, also after exceptions, and what happens to the version
  number.  \<^verbatim>\<open>VersionNumbers\<close> (\<^verbatim>\<open>src/VersionNumber.cc\<close>, \<^verbatim>\<open>src/TransferElementID.cc\<close>) shows that
  versions increase and when IDs are unique; \<^verbatim>\<open>AccessModes\<close> (\<^verbatim>\<open>src/AccessMode.cc\<close>) that flags can
  be written and read back.

  \<^bold>\<open>Backends.\<close>  \<^verbatim>\<open>DeviceBackends\<close> models the exception state of \<^verbatim>\<open>src/DeviceBackendImpl.cc\<close> and its
  distribution by \<^verbatim>\<open>src/async/DomainsContainer.cc\<close>, as whole calls and as interleaved accesses
  (\<open>micro_step\<close>).  \<^verbatim>\<open>DummyBackends\<close> is the memory of \<^verbatim>\<open>backends/DummyBackend\<close>.

  \<^bold>\<open>Numeric addressed accessors.\<close>  \<^verbatim>\<open>RawConversion\<close> (\<^verbatim>\<open>include/RawConverter.h\<close>) shows what reading
  and writing do to a raw value.  \<^verbatim>\<open>NumericAddressed\<close> has the accessor and its low-level element,
  \<^verbatim>\<open>NumericContract\<close> interprets the interface of transfer elements for them, \<^verbatim>\<open>NumericAreas\<close> is about
  alignment and merging, \<^verbatim>\<open>NumericTransfers\<close> about whole transfers on a device that is a memory
  (locale \<open>na_memory\<close>), and \<^verbatim>\<open>NumericAccessors\<close> interprets that on the dummy backend.
  \<^verbatim>\<open>Multiplexing\<close> and \<^verbatim>\<open>MuxedAccessors\<close> (\<^verbatim>\<open>src/NumericAddressedBackendMuxedRegisterAccessor.cc\<close>) are
  the accessor for 2D registers: the walk over the groups of channels finds each sample at its place.

  \<^bold>\<open>Groups.\<close>  \<^verbatim>\<open>TransferGroups\<close> and \<^verbatim>\<open>GroupStages\<close> (\<^verbatim>\<open>src/TransferGroup.cc\<close>) show what a
  group relies on (locale \<open>group_contract\<close>), \<^verbatim>\<open>GroupAccessors\<close> interprets that for numeric addressed
  accessors and shows how unaligned registers block a group write, \<^verbatim>\<open>GroupReads\<close> shows the stages and
  the exception of a group read, what a merged write overwrites and what a logic error leaves behind.
  \<^verbatim>\<open>ReadAnyGroups\<close> (\<^verbatim>\<open>include/ReadAnyGroup.h\<close>) shows that an accepted update runs both stages of its
  element and that \<open>readUntilAll\<close> reads every element.  \<^verbatim>\<open>ConsistencyGroups\<close> models
  \<^verbatim>\<open>src/DataConsistencyGroup.cc\<close>, both matchers and the decorator; \<^verbatim>\<open>ConsistencyMatching\<close> shows what
  the matching does to a member and \<^verbatim>\<open>ConsistencyUpdates\<close> that all members change together, to values
  received with one version.  \<^verbatim>\<open>AsyncReads\<close> shows what \<open>readLatest\<close> takes out of the queue of an
  accessor and leaves in it.

  \<^bold>\<open>Asynchronous data.\<close>  \<^verbatim>\<open>DataConsistencyRealms\<close> (versions by key), \<^verbatim>\<open>AsyncVariables\<close> (subscribers,
  variable and poll distributors), \<^verbatim>\<open>InterruptControllers\<close> (options and handshake), \<^verbatim>\<open>AsyncDomains\<close>
  (the tree of sub domains and the domain with its mutex, each operation one step) follow
  \<^verbatim>\<open>src/async\<close> and \<^verbatim>\<open>include/async\<close>.  \<^verbatim>\<open>AsyncDelivery\<close> shows what the subscribers receive around
  activation and exceptions, and a case in which a realm makes the versions decrease.

  \<^bold>\<open>Texts.\<close>  \<^verbatim>\<open>Strings\<close> has the functions of \<open>std::string\<close> and boost the parsers use,
  \<^verbatim>\<open>RegisterPaths\<close> the paths of registers, \<^verbatim>\<open>Descriptors\<close> the parsers of device descriptors in
  \<^verbatim>\<open>src/Utilities.cpp\<close>, \<^verbatim>\<open>DeviceMaps\<close> the device alias files.  They show round trips, normal
  forms, and for paths that the operations are those on lists of components.

  \<^bold>\<open>Registers.\<close>  \<^verbatim>\<open>RegisterInfos\<close> has data types, descriptors and the description of numeric addressed
  registers, \<^verbatim>\<open>RegisterCatalogues\<close> the catalogues (\<^verbatim>\<open>include/BackendRegisterCatalogue.h\<close>,
  \<^verbatim>\<open>src/NumericAddressedRegisterCatalogue.cc\<close>): the locale \<open>register_catalogue\<close> states what adding and
  looking up promise, and both catalogues interpret it.  \<^verbatim>\<open>Numbers\<close> has the conversions and streams of
  the standard library, \<^verbatim>\<open>RegisterNames\<close> facts on names with dots, \<^verbatim>\<open>MapFiles\<close> and \<^verbatim>\<open>MapAreas\<close> the parser of
  map files (\<^verbatim>\<open>src/TraditionalMapFileParser.cc\<close>): files of one-dimensional registers and areas of
  multiplexed channels give the catalogue one expects, big areas with similar names are refused.

  \<^bold>\<open>Subdevices.\<close>  \<^verbatim>\<open>Subdevices\<close> is the accessor of \<^verbatim>\<open>src/SubdeviceRegisterWindowAccessor.cc\<close>, an
  interpretation of the interface of transfer elements.  \<^verbatim>\<open>SubdeviceWindows\<close> states what the firmware
  of a register window promises (\<open>window_firmware\<close>) and shows that reading and writing move the bytes
  of the register, block by block.

  \<^bold>\<open>Bounds.\<close>  The 64 bit counters of versions and IDs are assumed not to wrap around where the
  theorems say so (\<open>unat g + n < 2 ^ 64\<close>); a realm remembers 2000 versions; the interrupts of one
  controller are below 32.

  \<^bold>\<open>Not modelled.\<close>  Conversions that involve floating point numbers or strings; time stamps and
  display of versions; names, units and descriptions of accessors; the backend factory and the device
  class; the logical name mapping with its plugins, its double buffering and its mathematical expressions
  (third-party parsers, firmware timing); the other accessors and the parameters of the subdevice backend; the kernel drivers behind the PCIe, XDMA and UIO backends, sockets (Rebot) and the shared
  memory dummy; JSON map files (a parameter); forwarding decorators and abstractors; bindings, examples
  and the test code, \<^verbatim>\<open>include/UnifiedBackendTest.h\<close> among it.  The components of \<^verbatim>\<open>PROJECT.json\<close>
  with the status \<^verbatim>\<open>not_modelled\<close> give the reason for each.
\<close>

end
